(* ===== verification/Prelude.thy ===== *)
theory Prelude
  imports Main "HOL-Library.Char_ord" "HOL-Library.List_Lexorder"
begin

text \<open>
  Shared vocabulary of the development: the exceptions a Python call can end with, the
  state-and-exception monad in which the stateful code is written, loop combinators for
  Python's \<open>for\<close> loops, and the collections of lemmas the component proofs use.
\<close>

section \<open>Lemma collections\<close>

named_theorems monad_defs \<open>unfolding rules of the state-and-exception monad\<close>
named_theorems tri_bounds \<open>upper bounds of tristate values\<close>
named_theorems dep_cong \<open>agreement on the statically read keys gives equal results\<close>

section \<open>Exceptions\<close>

text \<open>
  \<open>RecursionError\<close> is what Python raises when the call stack runs out; the fuel of the
  evaluation functions is the depth of that stack. \<open>KconfigError\<close> and \<open>SystemExit\<close> carry the
  reason, \<open>OSError\<close> the path. \<open>NoReturn\<close> is no exception of Python: it is the result of a loop
  that has not ended when its fuel runs out.
\<close>

datatype pyexc =
    RecursionError
  | AttributeError
  | ValueError
  | KeyError
  | TypeError
  | IndexError
  | ZeroDivisionError
  | OverflowError
  | AssertionError
  | KconfigError string
  | OSError string
  | SystemExit string
  | NoReturn

section \<open>The state-and-exception monad\<close>

type_synonym ('s, 'a) eff = "'s \<Rightarrow> pyexc + 'a \<times> 's"

definition ret :: "'a \<Rightarrow> ('s, 'a) eff" where
  "ret x = (\<lambda>d. Inr (x, d))"

definition raise :: "pyexc \<Rightarrow> ('s, 'a) eff" where
  "raise e = (\<lambda>d. Inl e)"

definition bind :: "('s, 'a) eff \<Rightarrow> ('a \<Rightarrow> ('s, 'b) eff) \<Rightarrow> ('s, 'b) eff" where
  "bind m f = (\<lambda>d. case m d of Inl e \<Rightarrow> Inl e | Inr (x, d') \<Rightarrow> f x d')"

definition gets :: "('s \<Rightarrow> 'a) \<Rightarrow> ('s, 'a) eff" where
  "gets f = (\<lambda>d. Inr (f d, d))"

definition modify :: "('s \<Rightarrow> 's) \<Rightarrow> ('s, unit) eff" where
  "modify f = (\<lambda>d. Inr ((), f d))"

definition seqm :: "('s, 'a) eff \<Rightarrow> ('s, 'b) eff \<Rightarrow> ('s, 'b) eff" where
  "seqm m k = bind m (\<lambda>_. k)"

definition of_option :: "pyexc \<Rightarrow> 'a option \<Rightarrow> ('s, 'a) eff" where
  "of_option e x = (case x of None \<Rightarrow> raise e | Some v \<Rightarrow> ret v)"

declare ret_def [monad_defs] raise_def [monad_defs] bind_def [monad_defs]
  gets_def [monad_defs] modify_def [monad_defs] seqm_def [monad_defs]

lemma bind_ret [simp]: "bind (ret x) f = f x"
  by (simp add: monad_defs)

lemma bind_ret_right [simp]: "bind m ret = m"
  by (auto simp: monad_defs fun_eq_iff split: sum.split prod.split)

lemma bind_assoc: "bind (bind m f) g = bind m (\<lambda>x. bind (f x) g)"
  by (auto simp: monad_defs fun_eq_iff split: sum.split prod.split)

lemma bind_InrI: "m d = Inr (x, d') \<Longrightarrow> f x d' = r \<Longrightarrow> bind m f d = r"
  by (simp add: bind_def)

lemma bind_InrE:
  assumes "bind m f d = Inr r"
  obtains x d' where "m d = Inr (x, d')" "f x d' = Inr r"
  using assms by (auto simp: bind_def split: sum.splits)

lemma modify_then: "bind (modify f) g d = g () (f d)"
  by (simp add: monad_defs)

lemma of_option_simps [simp]: "of_option e None = raise e" "of_option e (Some v) = ret v"
  by (simp_all add: of_option_def)

lemma bind_raise [simp]: "bind (raise e) f = raise e"
  by (simp add: monad_defs)

text \<open>Python's \<open>for x in xs: body\<close>, with the loop-carried variables as \<open>acc\<close>.\<close>

fun foldm :: "('x \<Rightarrow> 'acc \<Rightarrow> ('s, 'acc) eff) \<Rightarrow> 'x list \<Rightarrow> 'acc \<Rightarrow> ('s, 'acc) eff" where
  "foldm f [] acc = ret acc"
| "foldm f (x # xs) acc = bind (f x acc) (foldm f xs)"

text \<open>
  A \<open>for\<close> loop that leaves with \<open>break\<close> or \<open>return\<close>: the body yields \<open>None\<close> to go on
  and \<open>Some v\<close> to leave with \<open>v\<close>; \<open>None\<close> at the end is the loop's \<open>else\<close> branch.
\<close>

fun firstm :: "('x \<Rightarrow> ('s, 'v option) eff) \<Rightarrow> 'x list \<Rightarrow> ('s, 'v option) eff" where
  "firstm f [] = ret None"
| "firstm f (x # xs) = bind (f x) (\<lambda>r. case r of None \<Rightarrow> firstm f xs | Some v \<Rightarrow> ret (Some v))"

text \<open>The pure counterparts of the two loops.\<close>

fun firstp :: "('x \<Rightarrow> 'v option) \<Rightarrow> 'x list \<Rightarrow> 'v option" where
  "firstp f [] = None"
| "firstp f (x # xs) = (case f x of None \<Rightarrow> firstp f xs | Some v \<Rightarrow> Some v)"

lemma firstp_cong:
  "(\<And>x. x \<in> set xs \<Longrightarrow> f x = g x) \<Longrightarrow> firstp f xs = firstp g xs"
  by (induction xs) (auto split: option.split)

lemma firstp_Some: "firstp f xs = Some v \<Longrightarrow> \<exists>x \<in> set xs. f x = Some v"
  by (induction xs) (auto split: option.splits)

lemma firstp_None: "firstp f xs = None \<longleftrightarrow> (\<forall>x \<in> set xs. f x = None)"
  by (induction xs) (auto split: option.split)

section \<open>Lists\<close>

text \<open>The sublist kept by a Python \<open>seen\<close> set: the first occurrence of every element.\<close>

fun ordered_unique_aux :: "'a list \<Rightarrow> 'a list \<Rightarrow> 'a list" where
  "ordered_unique_aux seen [] = []"
| "ordered_unique_aux seen (x # xs) =
     (if x \<in> set seen then ordered_unique_aux seen xs
      else x # ordered_unique_aux (x # seen) xs)"

lemma set_ordered_unique_aux: "set (ordered_unique_aux seen xs) = set xs - set seen"
  by (induction seen xs rule: ordered_unique_aux.induct) auto

lemma distinct_ordered_unique_aux: "distinct (ordered_unique_aux seen xs)"
  by (induction seen xs rule: ordered_unique_aux.induct) (auto simp: set_ordered_unique_aux)

lemma fold_max_ge: "(v :: 'a :: linorder) \<le> fold max xs v"
  by (induction xs arbitrary: v) (auto intro: order_trans [OF max.cobounded2])

lemma fold_max_le:
  "fold max xs (v :: 'a :: linorder) \<le> b \<longleftrightarrow> v \<le> b \<and> (\<forall>x \<in> set xs. x \<le> b)"
  by (induction xs arbitrary: v) auto

end
