(* ===== verification/PyStr.thy ===== *)
theory PyStr
  imports Prelude
begin

text \<open>
  The parts of Python's \<open>str\<close> and \<open>int\<close> that Kconfiglib uses, and Kconfiglib's own string
  helpers (\<^verbatim>\<open>src/scripts/kconfig/kconfiglib.py\<close>: \<open>escape\<close>, \<open>unescape\<close>, \<open>_strcmp\<close>,
  \<open>_is_base_n\<close>, the regular expressions for \<open>.config\<close> lines). A Python string is a list of
  characters with code points below 256.
\<close>

section \<open>Characters\<close>

abbreviation BSL :: char where "BSL \<equiv> CHR 0x5C"
abbreviation QUOT :: char where "QUOT \<equiv> CHR 0x22"
abbreviation NL :: char where "NL \<equiv> CHR 0x0A"
abbreviation SPC :: char where "SPC \<equiv> CHR 0x20"

text \<open>\<open>str.isspace\<close>, on code points below 256.\<close>

definition py_isspace :: "char \<Rightarrow> bool" where
  "py_isspace c = (let n = (of_char c :: nat) in
     9 \<le> n \<and> n \<le> 13 \<or> 28 \<le> n \<and> n \<le> 32 \<or> n = 133 \<or> n = 160)"

text \<open>The white space \<open>int()\<close> skips: C's \<open>isspace\<close> on ASCII, Unicode space above.\<close>

definition int_isspace :: "char \<Rightarrow> bool" where
  "int_isspace c = (let n = (of_char c :: nat) in
     9 \<le> n \<and> n \<le> 13 \<or> n = 32 \<or> n = 133 \<or> n = 160)"

definition strip_by :: "(char \<Rightarrow> bool) \<Rightarrow> string \<Rightarrow> string" where
  "strip_by p s = rev (dropWhile p (rev (dropWhile p s)))"

definition py_rstrip :: "string \<Rightarrow> string" where
  "py_rstrip s = rev (dropWhile py_isspace (rev s))"

definition py_lstrip :: "string \<Rightarrow> string" where
  "py_lstrip s = dropWhile py_isspace s"

definition startswith :: "string \<Rightarrow> string \<Rightarrow> bool" where
  "startswith s p = (take (length p) s = p)"

lemma startswith_append [simp]: "startswith (p @ s) p"
  by (simp add: startswith_def)

lemma startswith_Nil [simp]: "startswith s []"
  by (simp add: startswith_def)

lemma startswithE: "startswith s p \<Longrightarrow> (\<And>r. s = p @ r \<Longrightarrow> P) \<Longrightarrow> P"
  unfolding startswith_def by (metis append_take_drop_id)

lemma startswith_Cons [simp]: "startswith (c # s) (d # p) \<longleftrightarrow> c = d \<and> startswith s p"
  by (auto simp: startswith_def)

section \<open>Numbers\<close>

definition digit_val :: "char \<Rightarrow> nat option" where
  "digit_val c = (let n = of_char c in
     if 48 \<le> n \<and> n \<le> 57 then Some (n - 48)
     else if 97 \<le> n \<and> n \<le> 122 then Some (n - 87)
     else if 65 \<le> n \<and> n \<le> 90 then Some (n - 55)
     else None)"

definition digit_char :: "nat \<Rightarrow> char" where
  "digit_char d = (if d < 10 then char_of (48 + d) else char_of (87 + d))"

text \<open>
  The digits of a number, with single underscores allowed between them; \<open>us\<close> says that
  the character before was an underscore.
\<close>

fun scan_num :: "nat \<Rightarrow> nat \<Rightarrow> bool \<Rightarrow> string \<Rightarrow> nat option" where
  "scan_num b acc us [] = (if us then None else Some acc)"
| "scan_num b acc us (c # cs) =
     (if c = CHR ''_'' then (if us then None else scan_num b acc True cs)
      else case digit_val c of
        None \<Rightarrow> None
      | Some d \<Rightarrow> if d < b then scan_num b (acc * b + d) False cs else None)"

definition scan_body :: "nat \<Rightarrow> string \<Rightarrow> nat option" where
  "scan_body b s = (case s of [] \<Rightarrow> None
     | c # _ \<Rightarrow> if c = CHR ''_'' then None else scan_num b 0 False s)"

fun py_prefix :: "string \<Rightarrow> (nat \<times> string) option" where
  "py_prefix (z # c # r) =
     (if z = CHR ''0'' then
        if c \<in> set ''xX'' then Some (16, r)
        else if c \<in> set ''oO'' then Some (8, r)
        else if c \<in> set ''bB'' then Some (2, r) else None
      else None)"
| "py_prefix s = None"

definition py_uint :: "nat \<Rightarrow> string \<Rightarrow> nat option" where
  "py_uint b t = (case py_prefix t of
     Some (pb, r) \<Rightarrow>
       if b = 0 \<or> b = pb
       then scan_body pb (case r of c # r' \<Rightarrow> if c = CHR ''_'' then r' else r | [] \<Rightarrow> r)
       else scan_body b t
   | None \<Rightarrow>
       if b = 0 then
         (if t \<noteq> [] \<and> hd t = CHR ''0''
          then (case scan_body 10 t of Some 0 \<Rightarrow> Some 0 | _ \<Rightarrow> None)
          else scan_body 10 t)
       else scan_body b t)"

text \<open>Python's \<open>int(s, base)\<close>; \<open>None\<close> is \<open>ValueError\<close>.\<close>

definition py_int :: "nat \<Rightarrow> string \<Rightarrow> int option" where
  "py_int b s = (let t = strip_by int_isspace s in
     case t of
       [] \<Rightarrow> None
     | c # r \<Rightarrow>
         if c = CHR ''-'' then map_option (\<lambda>n. - int n) (py_uint b r)
         else if c = CHR ''+'' then map_option int (py_uint b r)
         else map_option int (py_uint b t))"

text \<open>\<open>_is_base_n\<close>\<close>

definition is_base_n :: "string \<Rightarrow> nat \<Rightarrow> bool" where
  "is_base_n s n = (case py_int n s of Some _ \<Rightarrow> True | None \<Rightarrow> False)"

function digits_of :: "nat \<Rightarrow> nat \<Rightarrow> nat list" where
  "digits_of b n = (if b < 2 \<or> n < b then [n] else digits_of b (n div b) @ [n mod b])"
  by pat_completeness auto
termination
  by (relation "measure snd") auto

declare digits_of.simps [simp del]

definition num_str :: "nat \<Rightarrow> nat \<Rightarrow> string" where
  "num_str b n = map digit_char (digits_of b n)"

text \<open>Python's \<open>str(i)\<close> and \<open>hex(i)\<close>.\<close>

definition py_str :: "int \<Rightarrow> string" where
  "py_str i = (if i < 0 then ''-'' else []) @ num_str 10 (nat \<bar>i\<bar>)"

definition py_hex :: "int \<Rightarrow> string" where
  "py_hex i = (if i < 0 then ''-'' else []) @ ''0x'' @ num_str 16 (nat \<bar>i\<bar>)"

text \<open>\<open>_strcmp\<close>\<close>

definition strcmp :: "string \<Rightarrow> string \<Rightarrow> int" where
  "strcmp s1 s2 = (if s1 > s2 then 1 else 0) - (if s1 < s2 then 1 else 0)"

section \<open>Escaping\<close>

definition replace_char :: "char \<Rightarrow> string \<Rightarrow> string \<Rightarrow> string" where
  "replace_char c r s = concat (map (\<lambda>x. if x = c then r else [x]) s)"

text \<open>\<open>escape\<close>: backslashes first, then quotes.\<close>

definition escape :: "string \<Rightarrow> string" where
  "escape s = replace_char QUOT [BSL, QUOT] (replace_char BSL [BSL, BSL] s)"

text \<open>\<open>unescape\<close>: the substitution of \<^verbatim>\<open>\\(.)\<close> by its group; \<^verbatim>\<open>.\<close> matches no newline.\<close>

fun unescape :: "string \<Rightarrow> string" where
  "unescape (c # d # r) =
     (if c = BSL \<and> d \<noteq> NL then d # unescape r else c # unescape (d # r))"
| "unescape s = s"

text \<open>
  \<open>_conf_string_match\<close>: \<^verbatim>\<open>"((?:[^\\"]|\\.)*)"\<close> at the start of the string; the
  result is the group. The first character of each repetition decides the alternative, so
  the scan is deterministic.
\<close>

fun conf_scan :: "string \<Rightarrow> string option" where
  "conf_scan [] = None"
| "conf_scan (c # r) =
     (if c = QUOT then Some []
      else if c = BSL then
        (case r of [] \<Rightarrow> None
         | d # r' \<Rightarrow> if d = NL then None else map_option (\<lambda>x. BSL # d # x) (conf_scan r'))
      else map_option (Cons c) (conf_scan r))"

definition conf_string_match :: "string \<Rightarrow> string option" where
  "conf_string_match s = (case s of [] \<Rightarrow> None | c # r \<Rightarrow> if c = QUOT then conf_scan r else None)"

section \<open>The line formats of \<open>.config\<close> files\<close>

text \<open>
  \<open>_set_match\<close>: the configuration prefix, a name without \<^verbatim>\<open>=\<close>, \<^verbatim>\<open>=\<close> and the value. The prefix
  is a literal (letters, digits and underscores, as \<^verbatim>\<open>CONFIG_\<close>).
\<close>

definition set_match :: "string \<Rightarrow> string \<Rightarrow> (string \<times> string) option" where
  "set_match p line =
     (if startswith line p then
        let r = drop (length p) line;
            name = takeWhile (\<lambda>c. c \<noteq> CHR ''='') r;
            v = dropWhile (\<lambda>c. c \<noteq> CHR ''='') r
        in if name \<noteq> [] \<and> v \<noteq> [] then Some (name, takeWhile (\<lambda>c. c \<noteq> NL) (tl v)) else None
      else None)"

text \<open>\<open>_unset_match\<close>: \<^verbatim>\<open># CONFIG_NAME is not set\<close>.\<close>

definition unset_match :: "string \<Rightarrow> string \<Rightarrow> string option" where
  "unset_match p line =
     (if startswith line (''# '' @ p) then
        let r = drop (length p + 2) line;
            name = takeWhile (\<lambda>c. c \<noteq> SPC) r;
            v = dropWhile (\<lambda>c. c \<noteq> SPC) r
        in if name \<noteq> [] \<and> startswith v '' is not set'' then Some name else None
      else None)"

section \<open>Escaping and unescaping are inverse\<close>

lemma replace_char_simps [simp]:
  "replace_char c r [] = []"
  "replace_char c r (x # s) = (if x = c then r else [x]) @ replace_char c r s"
  by (simp_all add: replace_char_def)

lemma replace_char_append [simp]:
  "replace_char c r (s @ t) = replace_char c r s @ replace_char c r t"
  by (simp add: replace_char_def)

lemma escape_Nil [simp]: "escape [] = []"
  by (simp add: escape_def)

lemma escape_Cons [simp]:
  "escape (c # s) = (if c = BSL \<or> c = QUOT then [BSL, c] else [c]) @ escape s"
  by (simp add: escape_def)

lemma unescape_Cons_plain:
  "c \<noteq> BSL \<Longrightarrow> unescape (c # s) = c # unescape s"
  by (cases s) auto

lemma unescape_escape: "unescape (escape s) = s"
  by (induction s) (auto simp: unescape_Cons_plain)

lemma conf_scan_escape: "conf_scan (escape s @ QUOT # r) = Some (escape s)"
  by (induction s) auto

lemma conf_string_match_escape:
  "conf_string_match (QUOT # escape s @ QUOT # r) = Some (escape s)"
  by (simp add: conf_string_match_def conf_scan_escape)

lemma escape_no_newline: "NL \<notin> set s \<Longrightarrow> NL \<notin> set (escape s)"
  by (induction s) auto

section \<open>Printing a number and reading it back\<close>

lemma digit_val_char: "d < 16 \<Longrightarrow> digit_val (digit_char d) = Some d"
  by (simp add: digit_val_def digit_char_def)

lemma digit_char_no_underscore: "d < 16 \<Longrightarrow> digit_char d \<noteq> CHR ''_''"
  using digit_val_char [of d] by (auto simp: digit_val_def)

lemma digits_of_less: "2 \<le> b \<Longrightarrow> d \<in> set (digits_of b n) \<Longrightarrow> d < b"
proof (induction b n rule: digits_of.induct)
  case (1 b n)
  then show ?case
    by (subst (asm) (2) digits_of.simps) (auto split: if_splits)
qed

lemma digits_of_nonempty [simp]: "digits_of b n \<noteq> []"
  by (subst digits_of.simps) simp

lemma scan_num_append:
  assumes "b \<le> 16" and "\<forall>d \<in> set ds. d < b"
  shows "scan_num b acc False (map digit_char ds @ s) =
    scan_num b (fold (\<lambda>d a. a * b + d) ds acc) False s"
  using assms(2)
proof (induction ds arbitrary: acc)
  case (Cons d ds)
  with assms(1) have "d < 16" "d < b" by auto
  with Cons show ?case
    by (simp add: digit_val_char digit_char_no_underscore)
qed simp

lemma fold_digits_of: "2 \<le> b \<Longrightarrow> fold (\<lambda>d a. a * b + d) (digits_of b n) 0 = n"
proof (induction b n rule: digits_of.induct)
  case (1 b n)
  then show ?case
    by (subst digits_of.simps) (auto simp: mult.commute)
qed

lemma num_str_less: "2 \<le> b \<Longrightarrow> b \<le> 16 \<Longrightarrow> c \<in> set (num_str b n) \<Longrightarrow> \<exists>d<16. c = digit_char d"
  using digits_of_less [of b _ n] by (force simp: num_str_def)

lemma scan_body_num_str:
  assumes "2 \<le> b" "b \<le> 16"
  shows "scan_body b (num_str b n) = Some n"
proof -
  obtain d ds where ds: "digits_of b n = d # ds"
    by (cases "digits_of b n") auto
  have "\<forall>x \<in> set (digits_of b n). x < b"
    using digits_of_less assms by blast
  moreover from this ds assms have "digit_char d \<noteq> CHR ''_''"
    by (intro digit_char_no_underscore) auto
  moreover have "scan_num b 0 False (num_str b n) = Some n"
    using scan_num_append [of b "digits_of b n" 0 "[]"] calculation(1) assms
    by (simp add: num_str_def fold_digits_of)
  ultimately show ?thesis
    by (simp add: scan_body_def num_str_def ds)
qed

lemma strip_by_id: "(\<And>c. c \<in> set s \<Longrightarrow> \<not> p c) \<Longrightarrow> strip_by p s = s"
proof -
  assume p: "\<And>c. c \<in> set s \<Longrightarrow> \<not> p c"
  then have "dropWhile p s = s" and "dropWhile p (rev s) = rev s"
    by (auto simp: dropWhile_eq_self_iff hd_rev)
  then show ?thesis by (simp add: strip_by_def)
qed

lemma digit_char_no_space: "d < 16 \<Longrightarrow> \<not> int_isspace (digit_char d)"
  by (simp add: int_isspace_def digit_char_def Let_def)

lemma digit_char_no_sign: "d < 16 \<Longrightarrow> digit_char d \<noteq> CHR ''-'' \<and> digit_char d \<noteq> CHR ''+''"
  using digit_val_char [of d] by (auto simp: digit_val_def)

lemma num_str_Cons:
  assumes "2 \<le> b" "b \<le> 16"
  obtains d r where "num_str b n = digit_char d # r" "d < 16"
proof -
  obtain d ds where ds: "digits_of b n = d # ds"
    by (cases "digits_of b n") auto
  then have "d < 16"
    using digits_of_less [of b d n] assms by simp
  with ds that show thesis by (simp add: num_str_def)
qed

lemma num_str_no_space:
  "2 \<le> b \<Longrightarrow> b \<le> 16 \<Longrightarrow> c \<in> set (num_str b n) \<Longrightarrow> \<not> int_isspace c"
  by (auto dest!: num_str_less digit_char_no_space)

lemma py_uint_10: "py_uint 10 t = scan_body 10 t"
  by (cases t rule: py_prefix.cases) (auto simp: py_uint_def split: list.split)

lemma py_uint_hex:
  assumes "b = 0 \<or> b = 16"
  shows "py_uint b (''0x'' @ num_str 16 n) = Some n"
proof -
  obtain d r where r: "num_str 16 n = digit_char d # r" "d < 16"
    by (rule num_str_Cons [of 16 n]) auto
  then show ?thesis
    using assms scan_body_num_str [of 16 n]
    by (auto simp: py_uint_def digit_char_no_underscore)
qed

lemma strip_py_str: "strip_by int_isspace (py_str i) = py_str i"
  by (rule strip_by_id)
    (auto simp: py_str_def dest: num_str_no_space [rotated 2] split: if_splits,
     simp add: int_isspace_def)

lemma strip_py_hex: "strip_by int_isspace (py_hex i) = py_hex i"
  by (rule strip_by_id)
    (auto simp: py_hex_def dest: num_str_no_space [rotated 2] split: if_splits,
     simp_all add: int_isspace_def)

lemma py_int_py_str: "py_int 10 (py_str i) = Some i"
proof -
  obtain d r where r: "num_str 10 (nat \<bar>i\<bar>) = digit_char d # r" "d < 16"
    by (rule num_str_Cons [of 10 "nat \<bar>i\<bar>"]) auto
  have "scan_body 10 (digit_char d # r) = Some (nat \<bar>i\<bar>)"
    using scan_body_num_str [of 10 "nat \<bar>i\<bar>"] r by simp
  then show ?thesis
    using r digit_char_no_sign [of d]
    by (auto simp: py_int_def strip_py_str py_uint_10) (auto simp: py_str_def py_uint_10)
qed

lemma py_int_py_hex: "b = 0 \<or> b = 16 \<Longrightarrow> py_int b (py_hex i) = Some i"
  using py_uint_hex [of b "nat \<bar>i\<bar>"]
  by (auto simp: py_int_def strip_py_hex) (auto simp: py_hex_def)

lemma strcmp_eq_0: "strcmp s t = 0 \<longleftrightarrow> s = t"
  by (auto simp: strcmp_def)

lemma strcmp_sym: "strcmp s t = - strcmp t s"
  by (auto simp: strcmp_def)

lemma strcmp_less: "strcmp s t < 0 \<longleftrightarrow> s < t"
  by (auto simp: strcmp_def)

section \<open>Paths and messages\<close>

text \<open>\<open>os.path.join\<close> and \<open>os.path.dirname\<close>\<close>

definition py_join :: "string \<Rightarrow> string \<Rightarrow> string" where
  "py_join a b = (if startswith b ''/'' \<or> a = [] then b else if last a = CHR ''/'' then a @ b else a @ ''/'' @ b)"

definition dirname :: "string \<Rightarrow> string" where
  "dirname p =
     (let h = rev (dropWhile (\<lambda>c. c \<noteq> CHR ''/'') (rev p))
      in if list_all (\<lambda>c. c = CHR ''/'') h then h else rev (dropWhile (\<lambda>c. c = CHR ''/'') (rev h)))"

definition quoted :: "string \<Rightarrow> string \<Rightarrow> string" where
  "quoted msg f = msg @ [CHR 0x27] @ f @ [CHR 0x27]"

end
