(* ===== verification/Expr.thy ===== *)
theory Expr
  imports PyStr
begin

text \<open>
  Kconfig expressions (\<^verbatim>\<open>src/scripts/kconfig/kconfiglib.py\<close>): the tuples the parser builds, the
  simplifying constructors \<open>_make_and\<close> and \<open>_make_or\<close>, and the functions that take
  expressions apart (\<open>split_expr\<close>, \<open>expr_items\<close>, \<open>_expr_depends_on\<close>) or print them
  (\<open>expr_str\<close>). Symbols and choices occur in expressions as references; \<open>is\<close> comparisons of
  the source are equality of references.
\<close>

section \<open>Data\<close>

text \<open>
  A symbol reference: \<open>SymN name\<close> is the entry of \<open>Kconfig.syms\<close>, \<open>SymC name\<close> the entry of
  \<open>Kconfig.const_syms\<close> (quoted symbols and \<open>n\<close>, \<open>m\<close>, \<open>y\<close>). A choice is numbered in the
  order in which \<open>Choice()\<close> objects are created.
\<close>

datatype symref = SymN (sym_name: string) | SymC (sym_name: string)

definition is_constant :: "symref \<Rightarrow> bool" where
  "is_constant s = (case s of SymN _ \<Rightarrow> False | SymC _ \<Rightarrow> True)"

lemma is_constant_simps [simp]: "\<not> is_constant (SymN x)" "is_constant (SymC x)"
  by (simp_all add: is_constant_def)

type_synonym choiceref = nat

datatype item = Sym symref | Cho choiceref

datatype relop = EQUAL | UNEQUAL | LESS | LESS_EQUAL | GREATER | GREATER_EQUAL

datatype expr =
    Item item
  | AND expr expr
  | OR expr expr
  | NOT expr
  | Rel relop symref symref

datatype exprop = OpAND | OpOR

abbreviation SY :: "string \<Rightarrow> expr" where "SY x \<equiv> Item (Sym (SymN x))"

definition kn :: expr where "kn = Item (Sym (SymC ''n''))"
definition km :: expr where "km = Item (Sym (SymC ''m''))"
definition ky :: expr where "ky = Item (Sym (SymC ''y''))"

lemmas knmy_defs = kn_def km_def ky_def

lemma knmy_distinct [simp]: "kn \<noteq> km" "kn \<noteq> ky" "km \<noteq> ky" "km \<noteq> kn" "ky \<noteq> kn" "ky \<noteq> km"
  by (simp_all add: knmy_defs)

lemma knmy_no_tuple [simp]:
  "kn \<noteq> AND a b" "ky \<noteq> AND a b" "kn \<noteq> OR a b" "ky \<noteq> OR a b"
  "AND a b \<noteq> kn" "AND a b \<noteq> ky" "OR a b \<noteq> kn" "OR a b \<noteq> ky"
  by (simp_all add: knmy_defs)

section \<open>Constructors\<close>

text \<open>\<open>Kconfig._make_and\<close>\<close>

definition make_and :: "expr \<Rightarrow> expr \<Rightarrow> expr" where
  "make_and e1 e2 =
     (if e1 = ky then e2
      else if e2 = ky then e1
      else if e1 = kn \<or> e2 = kn then kn
      else AND e1 e2)"

text \<open>\<open>Kconfig._make_or\<close>\<close>

definition make_or :: "expr \<Rightarrow> expr \<Rightarrow> expr" where
  "make_or e1 e2 =
     (if e1 = kn then e2
      else if e2 = kn then e1
      else if e1 = ky \<or> e2 = ky then ky
      else OR e1 e2)"

section \<open>Taking expressions apart\<close>

text \<open>\<open>split_expr\<close>\<close>

fun split_expr :: "expr \<Rightarrow> exprop \<Rightarrow> expr list" where
  "split_expr (AND a b) op = (if op = OpAND then split_expr a op @ split_expr b op else [AND a b])"
| "split_expr (OR a b) op = (if op = OpOR then split_expr a op @ split_expr b op else [OR a b])"
| "split_expr e op = [e]"

text \<open>\<open>expr_items\<close>, as the list of items in the order they are added to the set.\<close>

fun expr_items :: "expr \<Rightarrow> item list" where
  "expr_items (Item x) = [x]"
| "expr_items (AND a b) = expr_items a @ expr_items b"
| "expr_items (OR a b) = expr_items a @ expr_items b"
| "expr_items (NOT a) = expr_items a"
| "expr_items (Rel r x y) = [Sym x, Sym y]"

text \<open>\<open>_expr_depends_on\<close>\<close>

fun expr_depends_on :: "expr \<Rightarrow> item \<Rightarrow> bool" where
  "expr_depends_on (Item x) it = (x = it)"
| "expr_depends_on (Rel r left right) it =
     (if r = EQUAL \<or> r = UNEQUAL then
        (if Sym right = it then
           (r = EQUAL \<and> left = SymC ''m'' \<or> left = SymC ''y'') \<or> (r = UNEQUAL \<and> left = SymC ''n'')
         else if Sym left \<noteq> it then False
         else (r = EQUAL \<and> right = SymC ''m'' \<or> right = SymC ''y'') \<or> (r = UNEQUAL \<and> right = SymC ''n''))
      else False)"
| "expr_depends_on (AND a b) it = (expr_depends_on a it \<or> expr_depends_on b it)"
| "expr_depends_on (OR a b) it = False"
| "expr_depends_on (NOT a) it = False"

section \<open>Printing\<close>

fun rel_to_str :: "relop \<Rightarrow> string" where
  "rel_to_str EQUAL = ''=''"
| "rel_to_str UNEQUAL = ''!=''"
| "rel_to_str LESS = ''<''"
| "rel_to_str LESS_EQUAL = ''<=''"
| "rel_to_str GREATER = ''>''"
| "rel_to_str GREATER_EQUAL = ''>=''"

text \<open>\<open>standard_sc_expr_str\<close>; \<open>cname\<close> gives the name of a choice, if it has one.\<close>

definition standard_sc_expr_str :: "(choiceref \<Rightarrow> string option) \<Rightarrow> item \<Rightarrow> string" where
  "standard_sc_expr_str cname sc = (case sc of
     Sym s \<Rightarrow>
       (if is_constant s \<and> sym_name s \<notin> {''n'', ''m'', ''y''}
        then [QUOT] @ escape (sym_name s) @ [QUOT] else sym_name s)
   | Cho c \<Rightarrow> (case cname c of
       Some x \<Rightarrow> if x \<noteq> [] then ''<choice '' @ x @ ''>'' else ''<choice>''
     | None \<Rightarrow> ''<choice>''))"

definition is_op :: "exprop \<Rightarrow> expr \<Rightarrow> bool" where
  "is_op op e = (case e of AND _ _ \<Rightarrow> op = OpAND | OR _ _ \<Rightarrow> op = OpOR | _ \<Rightarrow> False)"

definition is_tuple :: "expr \<Rightarrow> bool" where
  "is_tuple e = (case e of Item _ \<Rightarrow> False | _ \<Rightarrow> True)"

text \<open>\<open>expr_str\<close> and its helper \<open>_parenthesize\<close>\<close>

fun expr_str :: "(item \<Rightarrow> string) \<Rightarrow> expr \<Rightarrow> string" where
  "expr_str f (Item x) = f x"
| "expr_str f (AND a b) =
     (if is_op OpOR a then ''('' @ expr_str f a @ '')'' else expr_str f a) @ '' && '' @
     (if is_op OpOR b then ''('' @ expr_str f b @ '')'' else expr_str f b)"
| "expr_str f (OR a b) =
     (if is_op OpAND a then ''('' @ expr_str f a @ '')'' else expr_str f a) @ '' || '' @
     (if is_op OpAND b then ''('' @ expr_str f b @ '')'' else expr_str f b)"
| "expr_str f (NOT a) =
     (if is_tuple a then ''!('' @ expr_str f a @ '')'' else ''!'' @ expr_str f a)"
| "expr_str f (Rel r x y) = f (Sym x) @ '' '' @ rel_to_str r @ '' '' @ f (Sym y)"


section \<open>The value of an expression\<close>

datatype stype = UNKNOWN | BOOL | TRISTATE | STRING | INT_T | HEX

definition bool_tristate :: "stype \<Rightarrow> bool" where
  "bool_tristate t = (t = BOOL \<or> t = TRISTATE)"

definition int_hex :: "stype \<Rightarrow> bool" where
  "int_hex t = (t = INT_T \<or> t = HEX)"

lemma bool_tristate_simps [simp]:
  "bool_tristate BOOL" "bool_tristate TRISTATE" "\<not> bool_tristate UNKNOWN"
  "\<not> bool_tristate STRING" "\<not> bool_tristate INT_T" "\<not> bool_tristate HEX"
  by (simp_all add: bool_tristate_def)

lemma int_hex_simps [simp]:
  "int_hex INT_T" "int_hex HEX" "\<not> int_hex UNKNOWN"
  "\<not> int_hex STRING" "\<not> int_hex BOOL" "\<not> int_hex TRISTATE"
  by (simp_all add: int_hex_def)

text \<open>\<open>_TYPE_TO_BASE\<close>; 0 lets \<open>int()\<close> infer the base.\<close>

fun type_to_base :: "stype \<Rightarrow> nat" where
  "type_to_base HEX = 16"
| "type_to_base INT_T = 10"
| "type_to_base _ = 0"

text \<open>\<open>TRI_TO_STR\<close> and \<open>STR_TO_TRI\<close>\<close>

definition tri_to_str :: "nat \<Rightarrow> string" where
  "tri_to_str v = (if v = 0 then ''n'' else if v = 1 then ''m'' else ''y'')"

definition str_to_tri :: "string \<Rightarrow> nat option" where
  "str_to_tri s = (if s = ''n'' then Some 0 else if s = ''m'' then Some 1
     else if s = ''y'' then Some 2 else None)"

lemma str_to_tri_tri_to_str: "v \<le> 2 \<Longrightarrow> str_to_tri (tri_to_str v) = Some v"
  by (auto simp: str_to_tri_def tri_to_str_def)

lemma str_to_tri_le: "str_to_tri s = Some v \<Longrightarrow> v \<le> 2"
  by (auto simp: str_to_tri_def split: if_splits)

fun rel_holds :: "relop \<Rightarrow> int \<Rightarrow> bool" where
  "rel_holds EQUAL cmp = (cmp = 0)"
| "rel_holds UNEQUAL cmp = (cmp \<noteq> 0)"
| "rel_holds LESS cmp = (cmp < 0)"
| "rel_holds LESS_EQUAL cmp = (cmp \<le> 0)"
| "rel_holds GREATER cmp = (cmp > 0)"
| "rel_holds GREATER_EQUAL cmp = (cmp \<ge> 0)"

text \<open>
  The value of an expression, given the value of every item, the type of every symbol and
  the string value of every symbol: what \<open>expr_value\<close> computes, without its short
  circuits and caches. It is the specification of the stateful \<open>expr_value\<close> below.
\<close>

definition sym_num :: "(symref \<Rightarrow> stype) \<Rightarrow> (item \<Rightarrow> nat) \<Rightarrow> (symref \<Rightarrow> string) \<Rightarrow> symref \<Rightarrow> int option" where
  "sym_num ty tv sv s =
     (if bool_tristate (ty s) then Some (int (tv (Sym s))) else py_int (type_to_base (ty s)) (sv s))"

definition rel_comp :: "(symref \<Rightarrow> stype) \<Rightarrow> (item \<Rightarrow> nat) \<Rightarrow> (symref \<Rightarrow> string) \<Rightarrow> symref \<Rightarrow> symref \<Rightarrow> int" where
  "rel_comp ty tv sv a b =
     (if ty a = STRING \<and> ty b = STRING then strcmp (sv a) (sv b)
      else case sym_num ty tv sv a of
        None \<Rightarrow> strcmp (sv a) (sv b)
      | Some x \<Rightarrow> (case sym_num ty tv sv b of
          None \<Rightarrow> strcmp (sv a) (sv b)
        | Some y \<Rightarrow> x - y))"

fun eval :: "(symref \<Rightarrow> stype) \<Rightarrow> (item \<Rightarrow> nat) \<Rightarrow> (symref \<Rightarrow> string) \<Rightarrow> expr \<Rightarrow> nat" where
  "eval ty tv sv (Item x) = tv x"
| "eval ty tv sv (AND a b) = min (eval ty tv sv a) (eval ty tv sv b)"
| "eval ty tv sv (OR a b) = max (eval ty tv sv a) (eval ty tv sv b)"
| "eval ty tv sv (NOT a) = 2 - eval ty tv sv a"
| "eval ty tv sv (Rel r a b) = (if rel_holds r (rel_comp ty tv sv a b) then 2 else 0)"

lemma rel_comp_cong:
  "tv (Sym a) = tv' (Sym a) \<Longrightarrow> tv (Sym b) = tv' (Sym b) \<Longrightarrow> sv a = sv' a \<Longrightarrow> sv b = sv' b \<Longrightarrow>
   rel_comp ty tv sv a b = rel_comp ty tv' sv' a b"
  by (simp add: rel_comp_def sym_num_def cong: option.case_cong)

lemma eval_cong:
  assumes "\<And>x. x \<in> set (expr_items e) \<Longrightarrow> tv x = tv' x"
    and "\<And>s. Sym s \<in> set (expr_items e) \<Longrightarrow> sv s = sv' s"
  shows "eval ty tv sv e = eval ty tv' sv' e"
  using assms
proof (induction e)
  case (Rel r a b)
  then have "rel_comp ty tv sv a b = rel_comp ty tv' sv' a b"
    by (intro rel_comp_cong) auto
  then show ?case by simp
qed simp_all

section \<open>Laws of the tristate values\<close>

text \<open>
  What the expression functions need of the items' values: they are at most \<open>y\<close>, and the
  constant symbols \<open>n\<close> and \<open>y\<close> have the values 0 and 2.
\<close>

locale item_values =
  fixes tv :: "item \<Rightarrow> nat"
  assumes tv_le: "tv x \<le> 2"
    and tv_n: "tv (Sym (SymC ''n'')) = 0"
    and tv_y: "tv (Sym (SymC ''y'')) = 2"
begin

lemma eval_le [tri_bounds]: "eval ty tv sv e \<le> 2"
  by (induction e) (auto simp: tv_le)

lemma eval_kn: "eval ty tv sv kn = 0"
  by (simp add: kn_def tv_n)

lemma eval_ky: "eval ty tv sv ky = 2"
  by (simp add: ky_def tv_y)

lemma eval_make_and: "eval ty tv sv (make_and a b) = min (eval ty tv sv a) (eval ty tv sv b)"
  using eval_le [of ty sv a] eval_le [of ty sv b]
  by (auto simp: make_and_def eval_kn eval_ky min_def)

lemma eval_make_or: "eval ty tv sv (make_or a b) = max (eval ty tv sv a) (eval ty tv sv b)"
  using eval_le [of ty sv a] eval_le [of ty sv b]
  by (auto simp: make_or_def eval_kn eval_ky max_def)

lemma split_expr_nonempty: "split_expr e op \<noteq> []"
  by (induction e op rule: split_expr.induct) auto

lemma eval_split_OR:
  "eval ty tv sv e = fold max (map (eval ty tv sv) (split_expr e OpOR)) 0"
proof -
  have "fold max (map (eval ty tv sv) (split_expr e OpOR)) v = max v (eval ty tv sv e)" for v
    by (induction e arbitrary: v) (auto simp: max.assoc max.commute)
  from this [of 0] show ?thesis by simp
qed

lemma eval_split_AND:
  "eval ty tv sv e = fold min (map (eval ty tv sv) (split_expr e OpAND)) 2"
proof -
  have "fold min (map (eval ty tv sv) (split_expr e OpAND)) v = min v (eval ty tv sv e)" for v
    by (induction e arbitrary: v) (auto simp: min.assoc min.commute)
  from this [of 2] show ?thesis using eval_le [of ty sv e] by simp
qed

lemma eval_depends_on:
  assumes "expr_depends_on e x" and "eval ty tv sv e \<noteq> 0"
    and "\<And>r a b. Rel r a b \<in> set (split_expr e OpAND) \<Longrightarrow> r = EQUAL \<or> r = UNEQUAL \<Longrightarrow> False"
  shows "tv x \<noteq> 0"
  using assms
proof (induction e)
  case (AND a b)
  then show ?case by (auto simp: min_def split: if_splits)
next
  case (Rel r a b)
  then show ?case by (cases "r = EQUAL \<or> r = UNEQUAL") auto
qed auto

end

lemma make_and_items: "set (expr_items (make_and a b)) \<subseteq> set (expr_items a) \<union> set (expr_items b)"
  by (auto simp: make_and_def)

lemma make_or_items:
  "set (expr_items (make_or a b)) \<subseteq> set (expr_items a) \<union> set (expr_items b)"
  by (auto simp: make_or_def)

lemma split_expr_items:
  "(\<Union>x \<in> set (split_expr e op). set (expr_items x)) = set (expr_items e)"
  by (induction e op rule: split_expr.induct) auto

end
