(* ===== verification/State.thy ===== *)
theory State
  imports Expr
begin

text \<open>
  The objects of \<^verbatim>\<open>src/scripts/kconfig/kconfiglib.py\<close>. The attributes of \<open>Symbol\<close>, \<open>Choice\<close>
  and \<open>MenuNode\<close> that parsing leaves behind and nothing changes afterwards are the records
  \<open>symbol\<close>, \<open>choice\<close> and \<open>menunode\<close>, kept in the stores of a \<open>kconfig\<close>; the attributes that
  change when values are assigned or calculated (user values, caches, flags, warnings) are
  the record \<open>dyn\<close>.
\<close>

section \<open>What parsing leaves behind\<close>

type_synonym noderef = nat

text \<open>\<open>MenuNode.item\<close>; \<open>NIf\<close> stands for \<open>None\<close>, the item of an \<open>if\<close> node.\<close>

datatype nitem = NIf | NSym symref | NCho choiceref | NMenu | NComment

record menunode =
  n_item :: nitem
  n_prompt :: "(string \<times> expr) option"
  n_dep :: expr
  n_visibility :: expr
  n_is_menuconfig :: bool
  n_is_configdefault :: bool
  n_help :: "string option"
  n_defaults :: "(expr \<times> expr) list"
  n_selects :: "(symref \<times> expr) list"
  n_implies :: "(symref \<times> expr) list"
  n_ranges :: "(symref \<times> symref \<times> expr) list"
  n_list :: "noderef option"
  n_next :: "noderef option"
  n_parent :: "noderef option"
  n_filename :: string
  n_linenr :: nat
  n_include_path :: "(string \<times> nat) list"

record symbol =
  s_orig_type :: stype
  s_nodes :: "noderef list"
  s_defaults :: "(expr \<times> expr) list"
  s_selects :: "(symref \<times> expr) list"
  s_implies :: "(symref \<times> expr) list"
  s_ranges :: "(symref \<times> symref \<times> expr) list"
  s_rev_dep :: expr
  s_weak_rev_dep :: expr
  s_direct_dep :: expr
  s_choice :: "choiceref option"
  s_env_var :: "string option"
  s_is_allnoconfig_y :: bool
  s_configdefaults :: "(nat \<times> (expr \<times> expr) list) list"
  s_dependents :: "item list"

record choice =
  c_name :: "string option"
  c_orig_type :: stype
  c_nodes :: "noderef list"
  c_syms :: "symref list"
  c_defaults :: "(expr \<times> expr) list"
  c_direct_dep :: expr
  c_is_optional :: bool
  c_dependents :: "item list"

record kconfig =
  k_sym :: "symref \<Rightarrow> symbol"
  k_choice :: "choiceref \<Rightarrow> choice"
  k_node :: "noderef \<Rightarrow> menunode"
  k_syms :: "string list"
  k_defined_syms :: "symref list"
  k_choices :: "choiceref list"
  k_unique_defined_syms :: "symref list"
  k_unique_choices :: "choiceref list"
  k_defconfig_list :: "nitem option"
  k_config_prefix :: string
  k_config_header :: string
  k_header_header :: string
  k_top_node :: noderef

text \<open>\<open>Symbol.__init__\<close> followed by the assignments of \<open>_lookup_sym\<close>: an undefined symbol.\<close>

definition new_symbol :: symbol where
  "new_symbol = \<lparr>s_orig_type = UNKNOWN, s_nodes = [], s_defaults = [], s_selects = [],
     s_implies = [], s_ranges = [], s_rev_dep = kn, s_weak_rev_dep = kn, s_direct_dep = kn,
     s_choice = None, s_env_var = None, s_is_allnoconfig_y = False, s_configdefaults = [],
     s_dependents = []\<rparr>"

text \<open>\<open>Choice.__init__\<close>, with the \<open>direct_dep\<close> the parser gives a new choice.\<close>

definition new_choice :: choice where
  "new_choice = \<lparr>c_name = None, c_orig_type = UNKNOWN, c_nodes = [], c_syms = [], c_defaults = [],
     c_direct_dep = kn, c_is_optional = False, c_dependents = []\<rparr>"

definition new_node :: menunode where
  "new_node = \<lparr>n_item = NIf, n_prompt = None, n_dep = ky, n_visibility = ky, n_is_menuconfig = False,
     n_is_configdefault = False, n_help = None, n_defaults = [], n_selects = [], n_implies = [],
     n_ranges = [], n_list = None, n_next = None, n_parent = None, n_filename = [], n_linenr = 0,
     n_include_path = []\<rparr>"

text \<open>The constant symbols \<open>n\<close>, \<open>m\<close>, \<open>y\<close> that \<open>Kconfig._init\<close> creates.\<close>

definition nmy_tri :: "symref \<Rightarrow> nat option" where
  "nmy_tri s = (case s of SymN _ \<Rightarrow> None | SymC x \<Rightarrow> str_to_tri x)"

definition init_sym :: "symref \<Rightarrow> symbol" where
  "init_sym s = (case nmy_tri s of None \<Rightarrow> new_symbol | Some _ \<Rightarrow> new_symbol\<lparr>s_orig_type := TRISTATE\<rparr>)"

text \<open>\<open>TYPE_TO_STR\<close>\<close>

fun type_to_str :: "stype \<Rightarrow> string" where
  "type_to_str UNKNOWN = ''unknown''"
| "type_to_str BOOL = ''bool''"
| "type_to_str TRISTATE = ''tristate''"
| "type_to_str STRING = ''string''"
| "type_to_str INT_T = ''int''"
| "type_to_str HEX = ''hex''"

text \<open>\<open>_locs\<close>, on the \<open>nodes\<close> of a symbol or choice, and \<open>name_and_loc\<close>.\<close>

fun py_joins :: "string \<Rightarrow> string list \<Rightarrow> string" where
  "py_joins sep [] = []"
| "py_joins sep [x] = x"
| "py_joins sep (x # y # xs) = x @ sep @ py_joins sep (y # xs)"

definition locs :: "kconfig \<Rightarrow> noderef list \<Rightarrow> string" where
  "locs K ns =
     (if ns = [] then ''(undefined)''
      else ''(defined at '' @ py_joins '', '' (map (\<lambda>n. n_filename (k_node K n) @ '':'' @
        py_str (int (n_linenr (k_node K n)))) ns) @ '')'')"

definition sym_name_and_loc :: "kconfig \<Rightarrow> symref \<Rightarrow> string" where
  "sym_name_and_loc K s = sym_name s @ '' '' @ locs K (s_nodes (k_sym K s))"

definition choice_name_and_loc :: "kconfig \<Rightarrow> choiceref \<Rightarrow> string" where
  "choice_name_and_loc K c =
     standard_sc_expr_str (\<lambda>c. c_name (k_choice K c)) (Cho c) @ '' '' @ locs K (c_nodes (k_choice K c))"

text \<open>\<open>Kconfig.modules\<close>: always the symbol named \<open>MODULES\<close>.\<close>

definition modules :: symref where
  "modules = SymN ''MODULES''"

abbreviation otype :: "kconfig \<Rightarrow> symref \<Rightarrow> stype" where
  "otype K s \<equiv> s_orig_type (k_sym K s)"

section \<open>What changes afterwards\<close>

text \<open>
  The values \<open>set_value\<close> takes and \<open>user_value\<close> holds: a tristate value as an integer, or a
  string. Integers other than 0, 1 and 2 are rejected by \<open>set_value\<close>.
\<close>

datatype pyval = PInt nat | PStr string

text \<open>
  The messages \<open>Kconfig._warn\<close> collects, one constructor per message with the data it is
  formatted from. The messages of the parser are kept as text with their location.
\<close>

datatype warning =
    W_user_value_ignored symref int int int
  | W_default_clamped symref int int int int
  | W_logical_context symref
  | W_select_unsatisfied symref nat nat "expr list"
  | W_invalid_value item pyval
  | W_no_prompt symref
  | W_undef_assign string string nat
  | W_assigned_twice symref "string option" string nat
  | W_config_invalid symref string nat
  | W_choice_m_and_y nat
  | W_malformed_string symref nat
  | W_malformed_line string nat
  | W_text string "(string \<times> nat) option"

record dyn =
  user_value :: "symref \<Rightarrow> pyval option"
  was_set :: "symref \<Rightarrow> bool"
  write_to_conf :: "symref \<Rightarrow> bool"
  cached_str_val :: "symref \<Rightarrow> string option"
  cached_tri_val :: "symref \<Rightarrow> nat option"
  cached_vis :: "symref \<Rightarrow> nat option"
  cached_assignable :: "symref \<Rightarrow> nat list option"
  ch_user_value :: "choiceref \<Rightarrow> nat option"
  ch_user_selection :: "choiceref \<Rightarrow> symref option"
  ch_was_set :: "choiceref \<Rightarrow> bool"
  ch_cached_vis :: "choiceref \<Rightarrow> nat option"
  ch_cached_assignable :: "choiceref \<Rightarrow> nat list option"
  ch_cached_selection :: "choiceref \<Rightarrow> symref option option"
  warn :: bool
  warnings :: "warning list"
  warn_assign_undef :: bool
  warn_assign_override :: bool
  warn_assign_redun :: bool
  warn_assign_no_prompt :: bool
  missing_syms :: "(string \<times> string) list"

type_synonym 'a ev = "(dyn, 'a) eff"

text \<open>The state after \<open>Kconfig._init\<close>: no user values and no cached values but those of \<open>n\<close>, \<open>m\<close>, \<open>y\<close>.\<close>

definition init_dyn :: dyn where
  "init_dyn = \<lparr>user_value = (\<lambda>_. None), was_set = (\<lambda>_. False), write_to_conf = (\<lambda>_. False),
     cached_str_val = (\<lambda>_. None), cached_tri_val = nmy_tri, cached_vis = (\<lambda>_. None),
     cached_assignable = (\<lambda>_. None), ch_user_value = (\<lambda>_. None), ch_user_selection = (\<lambda>_. None),
     ch_was_set = (\<lambda>_. False), ch_cached_vis = (\<lambda>_. None), ch_cached_assignable = (\<lambda>_. None),
     ch_cached_selection = (\<lambda>_. None), warn = True, warnings = [], warn_assign_undef = False,
     warn_assign_override = True, warn_assign_redun = True, warn_assign_no_prompt = True,
     missing_syms = []\<rparr>"

text \<open>\<open>Kconfig._warn\<close>\<close>

definition kwarn :: "warning \<Rightarrow> unit ev" where
  "kwarn w = modify (\<lambda>d. if warn d then d\<lparr>warnings := warnings d @ [w]\<rparr> else d)"

text \<open>The truth value of a user value: \<open>None\<close>, 0 and the empty string are false.\<close>

fun truthy :: "pyval option \<Rightarrow> bool" where
  "truthy None = False"
| "truthy (Some (PInt n)) = (n \<noteq> 0)"
| "truthy (Some (PStr s)) = (s \<noteq> [])"

text \<open>The conditions of the prompts on a list of menu nodes, in order.\<close>

definition prompt_conds :: "kconfig \<Rightarrow> noderef list \<Rightarrow> expr list" where
  "prompt_conds K ns = List.map_filter (\<lambda>n. map_option snd (n_prompt (k_node K n))) ns"

end
