(* ===== verification/Eval.thy ===== *)
theory Eval
  imports State
begin

text \<open>
  The calculation of values in \<^verbatim>\<open>src/scripts/kconfig/kconfiglib.py\<close>: \<open>expr_value\<close>,
  \<open>_visibility\<close>, and the cached properties of \<open>Symbol\<close> and \<open>Choice\<close>. Symbols refer to each
  other through their properties; \<open>acc\<close> holds the property accessors a body calls, and
  \<open>accs K n\<close> ties the knot with a call stack of depth \<open>n\<close>, on which running out is
  Python's \<open>RecursionError\<close>. In the bodies of \<open>str_value\<close> and \<open>tri_value\<close> the flag
  \<open>_write_to_conf\<close> is accumulated and assigned together with the cached value; nothing
  reads it in between.
\<close>

record acc =
  a_vis :: "symref \<Rightarrow> nat ev"
  a_tri :: "symref \<Rightarrow> nat ev"
  a_str :: "symref \<Rightarrow> string ev"
  a_cvis :: "choiceref \<Rightarrow> nat ev"
  a_sel :: "choiceref \<Rightarrow> symref option ev"

section \<open>Types and modes\<close>

text \<open>\<open>Choice.type\<close>\<close>

definition choice_type :: "kconfig \<Rightarrow> acc \<Rightarrow> choiceref \<Rightarrow> stype ev" where
  "choice_type K A c =
     (if c_orig_type (k_choice K c) = TRISTATE
      then bind (a_tri A modules) (\<lambda>m. ret (if m = 0 then BOOL else TRISTATE))
      else ret (c_orig_type (k_choice K c)))"

text \<open>\<open>Choice.tri_value\<close>; it is not cached.\<close>

definition choice_tri_value :: "kconfig \<Rightarrow> acc \<Rightarrow> choiceref \<Rightarrow> nat ev" where
  "choice_tri_value K A c =
     bind (gets (\<lambda>d. ch_user_value d c)) (\<lambda>uv.
     let val = (if c_is_optional (k_choice K c) then 0 else 1);
         val = (case uv of None \<Rightarrow> val | Some u \<Rightarrow> max val u)
     in bind (a_cvis A c) (\<lambda>vis.
     let val = min val vis
     in if val = 1
        then bind (choice_type K A c) (\<lambda>t. ret (if t = BOOL then 2 else val))
        else ret val))"

text \<open>\<open>Symbol.type\<close>\<close>

definition sym_type :: "kconfig \<Rightarrow> acc \<Rightarrow> symref \<Rightarrow> stype ev" where
  "sym_type K A s =
     (if otype K s = TRISTATE then
        (let by_modules = bind (a_tri A modules) (\<lambda>m. ret (if m = 0 then BOOL else TRISTATE))
         in case s_choice (k_sym K s) of
              None \<Rightarrow> by_modules
            | Some c \<Rightarrow> bind (choice_tri_value K A c) (\<lambda>t. if t = 2 then ret BOOL else by_modules))
      else ret (otype K s))"

section \<open>Expressions\<close>

text \<open>\<open>_sym_to_num\<close>; \<open>None\<close> is \<open>ValueError\<close>.\<close>

definition sym_to_num :: "kconfig \<Rightarrow> acc \<Rightarrow> symref \<Rightarrow> int option ev" where
  "sym_to_num K A s =
     (if bool_tristate (otype K s)
      then bind (a_tri A s) (\<lambda>v. ret (Some (int v)))
      else bind (a_str A s) (\<lambda>x. ret (py_int (type_to_base (otype K s)) x)))"

definition strcmp_syms :: "acc \<Rightarrow> symref \<Rightarrow> symref \<Rightarrow> int ev" where
  "strcmp_syms A v1 v2 =
     bind (a_str A v1) (\<lambda>x1. bind (a_str A v2) (\<lambda>x2. ret (strcmp x1 x2)))"

text \<open>\<open>expr_value\<close>\<close>

fun expr_value :: "kconfig \<Rightarrow> acc \<Rightarrow> expr \<Rightarrow> nat ev" where
  "expr_value K A (Item (Sym s)) = a_tri A s"
| "expr_value K A (Item (Cho c)) = choice_tri_value K A c"
| "expr_value K A (AND a b) =
     bind (expr_value K A a) (\<lambda>v1.
       if v1 = 0 then ret 0 else bind (expr_value K A b) (\<lambda>v2. ret (min v1 v2)))"
| "expr_value K A (OR a b) =
     bind (expr_value K A a) (\<lambda>v1.
       if v1 = 2 then ret 2 else bind (expr_value K A b) (\<lambda>v2. ret (max v1 v2)))"
| "expr_value K A (NOT a) = bind (expr_value K A a) (\<lambda>v. ret (2 - v))"
| "expr_value K A (Rel rel v1 v2) =
     bind (if otype K v1 = STRING \<and> otype K v2 = STRING then strcmp_syms A v1 v2
           else bind (sym_to_num K A v1) (\<lambda>n1. case n1 of
                  None \<Rightarrow> strcmp_syms A v1 v2
                | Some x1 \<Rightarrow> bind (sym_to_num K A v2) (\<lambda>n2. case n2 of
                    None \<Rightarrow> strcmp_syms A v1 v2
                  | Some x2 \<Rightarrow> ret (x1 - x2))))
       (\<lambda>cmp. ret (if rel_holds rel cmp then 2 else 0))"

section \<open>Visibility\<close>

text \<open>The loop of \<open>_visibility\<close> over the prompts.\<close>

definition prompts_value :: "kconfig \<Rightarrow> acc \<Rightarrow> noderef list \<Rightarrow> nat ev" where
  "prompts_value K A ns =
     foldm (\<lambda>e vis. bind (expr_value K A e) (\<lambda>v. ret (max vis v))) (prompt_conds K ns) 0"

text \<open>\<open>_visibility\<close> on a symbol\<close>

definition sym_visibility :: "kconfig \<Rightarrow> acc \<Rightarrow> symref \<Rightarrow> nat ev" where
  "sym_visibility K A s =
     bind (prompts_value K A (s_nodes (k_sym K s))) (\<lambda>vis.
     let promote =
           (if vis = 1 then bind (sym_type K A s) (\<lambda>t. ret (if t \<noteq> TRISTATE then 2 else vis))
            else ret vis)
     in case s_choice (k_sym K s) of
          None \<Rightarrow> promote
        | Some c \<Rightarrow>
            if c_orig_type (k_choice K c) = TRISTATE \<and> otype K s \<noteq> TRISTATE then
              bind (choice_tri_value K A c) (\<lambda>t. if t \<noteq> 2 then ret 0 else promote)
            else if otype K s = TRISTATE \<and> vis = 1 then
              bind (choice_tri_value K A c) (\<lambda>t. if t = 2 then ret 0 else promote)
            else promote)"

text \<open>\<open>_visibility\<close> on a choice\<close>

definition choice_visibility :: "kconfig \<Rightarrow> acc \<Rightarrow> choiceref \<Rightarrow> nat ev" where
  "choice_visibility K A c =
     bind (prompts_value K A (c_nodes (k_choice K c))) (\<lambda>vis.
       if vis = 1 then bind (choice_type K A c) (\<lambda>t. ret (if t \<noteq> TRISTATE then 2 else vis))
       else ret vis)"

section \<open>Tristate values\<close>

text \<open>\<open>Symbol._warn_select_unsatisfied_deps\<close>: the values its message shows are evaluated.\<close>

definition warn_one_select :: "kconfig \<Rightarrow> acc \<Rightarrow> symref \<Rightarrow> expr \<Rightarrow> expr list \<Rightarrow> expr list ev" where
  "warn_one_select K A s select msg =
     bind (expr_value K A select) (\<lambda>sv.
     bind (expr_value K A (s_direct_dep (k_sym K s))) (\<lambda>dv.
       if sv \<le> dv then ret msg
       else (case split_expr select OpAND of
         Item (Sym a) # _ \<Rightarrow>
           bind (a_str A a) (\<lambda>_.
           bind (expr_value K A (s_direct_dep (k_sym K a))) (\<lambda>_.
           (case select of
              AND _ cond \<Rightarrow> bind (expr_value K A cond) (\<lambda>_. ret (msg @ [select]))
            | _ \<Rightarrow> ret (msg @ [select]))))
       | _ \<Rightarrow> raise AttributeError)))"

definition warn_select_unsatisfied_deps :: "kconfig \<Rightarrow> acc \<Rightarrow> symref \<Rightarrow> unit ev" where
  "warn_select_unsatisfied_deps K A s =
     bind (expr_value K A (s_direct_dep (k_sym K s))) (\<lambda>dv.
     bind (expr_value K A (s_rev_dep (k_sym K s))) (\<lambda>rv.
     bind (foldm (warn_one_select K A s) (split_expr (s_rev_dep (k_sym K s)) OpOR) [])
       (\<lambda>msg. kwarn (W_select_unsatisfied s dv rv msg))))"

text \<open>The defaults loop of \<open>Symbol.tri_value\<close>: the value of the first active default.\<close>

definition tri_default :: "kconfig \<Rightarrow> acc \<Rightarrow> symref \<Rightarrow> nat option ev" where
  "tri_default K A s =
     firstm (\<lambda>(dflt, cond). bind (expr_value K A cond) (\<lambda>dep.
       if dep \<noteq> 0 then bind (expr_value K A dflt) (\<lambda>v. ret (Some (min v dep))) else ret None))
     (s_defaults (k_sym K s))"

text \<open>The value from the user or from defaults and implies, with \<open>_write_to_conf\<close>.\<close>

definition tri_base :: "kconfig \<Rightarrow> acc \<Rightarrow> symref \<Rightarrow> nat \<Rightarrow> (nat \<times> bool) ev" where
  "tri_base K A s vis =
     bind (gets (\<lambda>d. user_value d s)) (\<lambda>uv.
     if vis \<noteq> 0 \<and> uv \<noteq> None then
       (case uv of Some (PInt u) \<Rightarrow> ret (min u vis, vis \<noteq> 0) | _ \<Rightarrow> raise TypeError)
     else
       bind (tri_default K A s) (\<lambda>r.
       let val = (case r of None \<Rightarrow> 0 | Some v \<Rightarrow> v);
           w = (vis \<noteq> 0 \<or> val \<noteq> 0)
       in bind (expr_value K A (s_weak_rev_dep (k_sym K s))) (\<lambda>dep.
          if dep \<noteq> 0 then
            bind (expr_value K A (s_direct_dep (k_sym K s))) (\<lambda>dd.
              if dd \<noteq> 0 then ret (max dep val, True) else ret (val, w))
          else ret (val, w))))"

text \<open>Reverse dependencies take precedence.\<close>

definition tri_reverse :: "kconfig \<Rightarrow> acc \<Rightarrow> symref \<Rightarrow> nat \<times> bool \<Rightarrow> (nat \<times> bool) ev" where
  "tri_reverse K A s vw =
     bind (expr_value K A (s_rev_dep (k_sym K s))) (\<lambda>dep.
       if dep \<noteq> 0 then
         bind (expr_value K A (s_direct_dep (k_sym K s))) (\<lambda>dd.
         bind (if dd < dep then warn_select_unsatisfied_deps K A s else ret ()) (\<lambda>_.
           ret (max dep (fst vw), True)))
       else ret vw)"

text \<open>m is promoted to y for bool symbols and symbols implied with y.\<close>

definition tri_promote :: "kconfig \<Rightarrow> acc \<Rightarrow> symref \<Rightarrow> nat \<Rightarrow> nat ev" where
  "tri_promote K A s val =
     (if val = 1 then
        bind (sym_type K A s) (\<lambda>t.
          if t = BOOL then ret 2
          else bind (expr_value K A (s_weak_rev_dep (k_sym K s))) (\<lambda>w.
            ret (if w = 2 then 2 else val)))
      else ret val)"

text \<open>\<open>Symbol.tri_value\<close>, the part after the cache and type checks.\<close>

definition tri_compute :: "kconfig \<Rightarrow> acc \<Rightarrow> symref \<Rightarrow> (nat \<times> bool) ev" where
  "tri_compute K A s =
     bind (a_vis A s) (\<lambda>vis.
     case s_choice (k_sym K s) of
       None \<Rightarrow>
         bind (tri_base K A s vis) (\<lambda>vw.
         bind (tri_reverse K A s vw) (\<lambda>vw.
         bind (tri_promote K A s (fst vw)) (\<lambda>val. ret (val, snd vw))))
     | Some c \<Rightarrow>
         if vis = 2 then
           bind (a_sel A c) (\<lambda>sel. ret (if sel = Some s then 2 else 0, True))
         else
           bind (gets (\<lambda>d. user_value d s)) (\<lambda>uv.
             ret (if vis \<noteq> 0 \<and> truthy uv then 1 else 0, vis \<noteq> 0)))"

section \<open>String values\<close>

definition num_or_0 :: "nat \<Rightarrow> string \<Rightarrow> int" where
  "num_or_0 base x = (case py_int base x of Some i \<Rightarrow> i | None \<Rightarrow> 0)"

text \<open>The first active range of an int or hex symbol.\<close>

definition active_range :: "kconfig \<Rightarrow> acc \<Rightarrow> symref \<Rightarrow> (int \<times> int) option ev" where
  "active_range K A s =
     (let base = type_to_base (otype K s) in
      firstm (\<lambda>(low, high, cond). bind (expr_value K A cond) (\<lambda>c.
        if c \<noteq> 0 then
          bind (a_str A low) (\<lambda>l. bind (a_str A high) (\<lambda>h.
            ret (Some (num_or_0 base l, num_or_0 base h))))
        else ret None)) (s_ranges (k_sym K s)))"

text \<open>The string value of the first active default.\<close>

definition str_default_val :: "kconfig \<Rightarrow> acc \<Rightarrow> symref \<Rightarrow> string option ev" where
  "str_default_val K A s =
     firstm (\<lambda>(dflt, cond). bind (expr_value K A cond) (\<lambda>c.
       if c \<noteq> 0 then
         (case dflt of Item (Sym x) \<Rightarrow> bind (a_str A x) (\<lambda>v. ret (Some v)) | _ \<Rightarrow> raise AttributeError)
       else ret None)) (s_defaults (k_sym K s))"

definition num2str :: "stype \<Rightarrow> int \<Rightarrow> string" where
  "num2str t i = (if t = INT_T then py_str i else py_hex i)"

text \<open>The \<open>clamp\<close> of \<open>Symbol.str_value\<close>\<close>

definition clamp :: "int \<Rightarrow> int \<Rightarrow> int \<Rightarrow> int option" where
  "clamp low high v = (if v < low then Some low else if v > high then Some high else None)"

text \<open>Defaults of an int or hex symbol, clamped into the active range.\<close>

definition num_defaults :: "kconfig \<Rightarrow> acc \<Rightarrow> symref \<Rightarrow> bool \<Rightarrow> (int \<times> int) option \<Rightarrow> (string \<times> bool) ev" where
  "num_defaults K A s w rng =
     bind (str_default_val K A s) (\<lambda>r.
     let val = (case r of None \<Rightarrow> [] | Some x \<Rightarrow> x);
         val_num = (case r of None \<Rightarrow> 0 | Some x \<Rightarrow> num_or_0 (type_to_base (otype K s)) x);
         w = (w \<or> r \<noteq> None)
     in case rng of
          None \<Rightarrow> ret (val, w)
        | Some (low, high) \<Rightarrow>
            (case clamp low high val_num of
               None \<Rightarrow> ret (val, w)
             | Some c \<Rightarrow>
                 bind (if r \<noteq> None then kwarn (W_default_clamped s val_num c low high) else ret ())
                   (\<lambda>_. ret (num2str (otype K s) c, w))))"

definition num_value :: "kconfig \<Rightarrow> acc \<Rightarrow> symref \<Rightarrow> nat \<Rightarrow> (string \<times> bool) ev" where
  "num_value K A s vis =
     bind (active_range K A s) (\<lambda>rng.
     bind (gets (\<lambda>d. user_value d s)) (\<lambda>uv.
     if vis \<noteq> 0 \<and> truthy uv then
       (case uv of
          Some (PStr x) \<Rightarrow>
            (case py_int (type_to_base (otype K s)) x of
               None \<Rightarrow> raise ValueError
             | Some n \<Rightarrow>
                 (case rng of
                    Some (low, high) \<Rightarrow>
                      if low \<le> n \<and> n \<le> high then ret (x, True)
                      else bind (kwarn (W_user_value_ignored s n low high)) (\<lambda>_.
                             num_defaults K A s True rng)
                  | None \<Rightarrow> ret (x, True)))
        | _ \<Rightarrow> raise TypeError)
     else num_defaults K A s (vis \<noteq> 0) rng))"

definition string_value :: "kconfig \<Rightarrow> acc \<Rightarrow> symref \<Rightarrow> nat \<Rightarrow> (string \<times> bool) ev" where
  "string_value K A s vis =
     bind (gets (\<lambda>d. user_value d s)) (\<lambda>uv.
     if vis \<noteq> 0 \<and> uv \<noteq> None then
       (case uv of Some (PStr x) \<Rightarrow> ret (x, True) | _ \<Rightarrow> raise TypeError)
     else
       bind (str_default_val K A s) (\<lambda>r.
         case r of None \<Rightarrow> ret ([], vis \<noteq> 0) | Some x \<Rightarrow> ret (x, True)))"

text \<open>\<open>Symbol.str_value\<close> for string, int and hex symbols.\<close>

definition str_compute :: "kconfig \<Rightarrow> acc \<Rightarrow> symref \<Rightarrow> (string \<times> bool) ev" where
  "str_compute K A s =
     bind (a_vis A s) (\<lambda>vis.
     bind (if int_hex (otype K s) then num_value K A s vis else string_value K A s vis) (\<lambda>vw.
       ret (fst vw,
            if s_env_var (k_sym K s) \<noteq> None \<or> k_defconfig_list K = Some (NSym s) then False else snd vw)))"

section \<open>Choice selections\<close>

definition sel_default :: "kconfig \<Rightarrow> acc \<Rightarrow> choiceref \<Rightarrow> symref option ev" where
  "sel_default K A c =
     firstm (\<lambda>(dflt, cond). bind (expr_value K A cond) (\<lambda>v.
       if v \<noteq> 0 then
         (case dflt of
            Item (Sym s) \<Rightarrow> bind (a_vis A s) (\<lambda>vis. ret (if vis \<noteq> 0 then Some s else None))
          | _ \<Rightarrow> raise AttributeError)
       else ret None)) (c_defaults (k_choice K c))"

text \<open>\<open>Choice._selection_from_defaults\<close>\<close>

definition selection_from_defaults :: "kconfig \<Rightarrow> acc \<Rightarrow> choiceref \<Rightarrow> symref option ev" where
  "selection_from_defaults K A c =
     bind (sel_default K A c) (\<lambda>r. case r of
       Some s \<Rightarrow> ret (Some s)
     | None \<Rightarrow> firstm (\<lambda>s. bind (a_vis A s) (\<lambda>vis. ret (if vis \<noteq> 0 then Some s else None)))
                 (c_syms (k_choice K c)))"

text \<open>\<open>Choice._selection\<close>\<close>

definition choice_selection :: "kconfig \<Rightarrow> acc \<Rightarrow> choiceref \<Rightarrow> symref option ev" where
  "choice_selection K A c =
     bind (choice_tri_value K A c) (\<lambda>t.
       if t \<noteq> 2 then ret None
       else bind (gets (\<lambda>d. ch_user_selection d c)) (\<lambda>us. case us of
         None \<Rightarrow> selection_from_defaults K A c
       | Some s \<Rightarrow> bind (a_vis A s) (\<lambda>vis.
           if vis \<noteq> 0 then ret (Some s) else selection_from_defaults K A c)))"

section \<open>Assignable values\<close>

text \<open>\<open>Symbol._assignable\<close>\<close>

definition sym_assignable :: "kconfig \<Rightarrow> acc \<Rightarrow> symref \<Rightarrow> nat list ev" where
  "sym_assignable K A s =
     (if \<not> bool_tristate (otype K s) then ret []
      else bind (a_vis A s) (\<lambda>vis.
      if vis = 0 then ret []
      else bind (expr_value K A (s_rev_dep (k_sym K s))) (\<lambda>rev.
      let bool_or_weak = (\<lambda>yes no. bind (sym_type K A s) (\<lambda>t.
            if t = BOOL then ret yes
            else bind (expr_value K A (s_weak_rev_dep (k_sym K s))) (\<lambda>w.
              ret (if w = 2 then yes else no))))
      in if vis = 2 then
           (if s_choice (k_sym K s) \<noteq> None then ret [2]
            else if rev = 0 then bool_or_weak [0, 2] [0, 1, 2]
            else if rev = 2 then ret [2]
            else bool_or_weak [2] [1, 2])
         else if rev = 0 then
           bind (expr_value K A (s_weak_rev_dep (k_sym K s))) (\<lambda>w.
             ret (if w \<noteq> 2 then [0, 1] else [0, 2]))
         else if rev = 2 then ret [2]
         else ret [1])))"

text \<open>\<open>Choice._assignable\<close>\<close>

definition choice_assignable :: "kconfig \<Rightarrow> acc \<Rightarrow> choiceref \<Rightarrow> nat list ev" where
  "choice_assignable K A c =
     bind (a_cvis A c) (\<lambda>vis.
       if vis = 0 then ret []
       else if vis = 2 then
         bind (choice_type K A c) (\<lambda>t.
           ret (if \<not> c_is_optional (k_choice K c) then (if t = BOOL then [2] else [1, 2])
                else (if t = BOOL then [0, 2] else [0, 1, 2])))
       else ret (if c_is_optional (k_choice K c) then [0, 1] else [1]))"

section \<open>The cached properties\<close>

text \<open>\<open>Symbol.visibility\<close>\<close>

definition get_vis :: "kconfig \<Rightarrow> acc \<Rightarrow> symref \<Rightarrow> nat ev" where
  "get_vis K A s =
     bind (gets (\<lambda>d. cached_vis d s)) (\<lambda>cached. case cached of
       Some v \<Rightarrow> ret v
     | None \<Rightarrow> bind (sym_visibility K A s) (\<lambda>v.
         bind (modify (\<lambda>d. d\<lparr>cached_vis := (cached_vis d)(s := Some v)\<rparr>)) (\<lambda>_. ret v)))"

text \<open>\<open>Symbol.tri_value\<close>\<close>

definition get_tri :: "kconfig \<Rightarrow> acc \<Rightarrow> symref \<Rightarrow> nat ev" where
  "get_tri K A s =
     bind (gets (\<lambda>d. cached_tri_val d s)) (\<lambda>cached. case cached of
       Some v \<Rightarrow> ret v
     | None \<Rightarrow>
         if \<not> bool_tristate (otype K s) then
           bind (if otype K s \<noteq> UNKNOWN then kwarn (W_logical_context s) else ret ()) (\<lambda>_.
           bind (modify (\<lambda>d. d\<lparr>cached_tri_val := (cached_tri_val d)(s := Some 0)\<rparr>)) (\<lambda>_. ret 0))
         else
           bind (tri_compute K A s) (\<lambda>(v, w).
           bind (modify (\<lambda>d. d\<lparr>cached_tri_val := (cached_tri_val d)(s := Some v),
                              write_to_conf := (write_to_conf d)(s := w)\<rparr>)) (\<lambda>_. ret v)))"

text \<open>\<open>Symbol.str_value\<close>\<close>

definition get_str :: "kconfig \<Rightarrow> acc \<Rightarrow> symref \<Rightarrow> string ev" where
  "get_str K A s =
     bind (gets (\<lambda>d. cached_str_val d s)) (\<lambda>cached. case cached of
       Some v \<Rightarrow> ret v
     | None \<Rightarrow>
         let put = (\<lambda>v. modify (\<lambda>d. d\<lparr>cached_str_val := (cached_str_val d)(s := Some v)\<rparr>))
         in if bool_tristate (otype K s) then
              bind (a_tri A s) (\<lambda>t. bind (put (tri_to_str t)) (\<lambda>_. ret (tri_to_str t)))
            else if otype K s = UNKNOWN then
              bind (put (sym_name s)) (\<lambda>_. ret (sym_name s))
            else
              bind (str_compute K A s) (\<lambda>(v, w).
              bind (modify (\<lambda>d. d\<lparr>cached_str_val := (cached_str_val d)(s := Some v),
                                 write_to_conf := (write_to_conf d)(s := w)\<rparr>)) (\<lambda>_. ret v)))"

text \<open>\<open>Symbol.assignable\<close>\<close>

definition get_asg :: "kconfig \<Rightarrow> acc \<Rightarrow> symref \<Rightarrow> nat list ev" where
  "get_asg K A s =
     bind (gets (\<lambda>d. cached_assignable d s)) (\<lambda>cached. case cached of
       Some v \<Rightarrow> ret v
     | None \<Rightarrow> bind (sym_assignable K A s) (\<lambda>v.
         bind (modify (\<lambda>d. d\<lparr>cached_assignable := (cached_assignable d)(s := Some v)\<rparr>)) (\<lambda>_. ret v)))"

text \<open>\<open>Choice.visibility\<close>\<close>

definition get_cvis :: "kconfig \<Rightarrow> acc \<Rightarrow> choiceref \<Rightarrow> nat ev" where
  "get_cvis K A c =
     bind (gets (\<lambda>d. ch_cached_vis d c)) (\<lambda>cached. case cached of
       Some v \<Rightarrow> ret v
     | None \<Rightarrow> bind (choice_visibility K A c) (\<lambda>v.
         bind (modify (\<lambda>d. d\<lparr>ch_cached_vis := (ch_cached_vis d)(c := Some v)\<rparr>)) (\<lambda>_. ret v)))"

text \<open>\<open>Choice.assignable\<close>\<close>

definition get_casg :: "kconfig \<Rightarrow> acc \<Rightarrow> choiceref \<Rightarrow> nat list ev" where
  "get_casg K A c =
     bind (gets (\<lambda>d. ch_cached_assignable d c)) (\<lambda>cached. case cached of
       Some v \<Rightarrow> ret v
     | None \<Rightarrow> bind (choice_assignable K A c) (\<lambda>v.
         bind (modify (\<lambda>d. d\<lparr>ch_cached_assignable := (ch_cached_assignable d)(c := Some v)\<rparr>))
           (\<lambda>_. ret v)))"

text \<open>\<open>Choice.selection\<close>\<close>

definition get_sel :: "kconfig \<Rightarrow> acc \<Rightarrow> choiceref \<Rightarrow> symref option ev" where
  "get_sel K A c =
     bind (gets (\<lambda>d. ch_cached_selection d c)) (\<lambda>cached. case cached of
       Some v \<Rightarrow> ret v
     | None \<Rightarrow> bind (choice_selection K A c) (\<lambda>v.
         bind (modify (\<lambda>d. d\<lparr>ch_cached_selection := (ch_cached_selection d)(c := Some v)\<rparr>))
           (\<lambda>_. ret v)))"

text \<open>The properties on a call stack of depth \<open>n\<close>.\<close>

primrec accs :: "kconfig \<Rightarrow> nat \<Rightarrow> acc" where
  "accs K 0 = \<lparr>a_vis = (\<lambda>_. raise RecursionError), a_tri = (\<lambda>_. raise RecursionError),
     a_str = (\<lambda>_. raise RecursionError), a_cvis = (\<lambda>_. raise RecursionError),
     a_sel = (\<lambda>_. raise RecursionError)\<rparr>"
| "accs K (Suc n) =
     (let A = accs K n in \<lparr>a_vis = get_vis K A, a_tri = get_tri K A, a_str = get_str K A,
        a_cvis = get_cvis K A, a_sel = get_sel K A\<rparr>)"

end
