(* ===== verification/Memo.thy ===== *)
theory Memo
  imports Prelude
begin

text \<open>
  Memoised calculation, independent of what is calculated. A state \<open>d\<close> holds a table of
  cached values (\<open>lk d k\<close>) and the inputs of the calculation (\<open>usr d\<close>). \<open>F\<close> is one step of
  the calculation: \<open>F \<sigma> k\<close> is the value of key \<open>k\<close> when the other keys have the values
  \<open>\<sigma>\<close>. A valuation \<open>\<rho>\<close> is a fixed point of \<open>F\<close>.

  A table is coherent with \<open>\<rho>\<close> when every entry has the value \<open>\<rho>\<close> gives it, and moreover is
  supported by the table: the step that computed it read only keys that are in the table,
  among them the keys \<open>mu k\<close> that it always reads.
  Support is what makes it possible to stop an invalidation at entries that are absent.
\<close>

definition agree :: "('d \<Rightarrow> 'k \<Rightarrow> 'v option) \<Rightarrow> ('k \<Rightarrow> 'v) \<Rightarrow> ('k \<Rightarrow> 'v) \<Rightarrow> 'd \<Rightarrow> bool" where
  "agree lk \<rho> \<sigma> d = (\<forall>k. lk d k \<noteq> None \<longrightarrow> \<sigma> k = \<rho> k)"

definition coh :: "('d \<Rightarrow> 'k \<Rightarrow> 'v option) \<Rightarrow> ('k \<Rightarrow> 'k list) \<Rightarrow> (('k \<Rightarrow> 'v) \<Rightarrow> 'k \<Rightarrow> 'v) \<Rightarrow> ('k \<Rightarrow> 'v) \<Rightarrow> 'd \<Rightarrow> bool" where
  "coh lk mu F \<rho> d = (\<forall>k v. lk d k = Some v \<longrightarrow>
     v = \<rho> k \<and> (\<forall>k' \<in> set (mu k). lk d k' \<noteq> None) \<and>
     (\<forall>\<sigma>. agree lk \<rho> \<sigma> d \<longrightarrow> F \<sigma> k = F \<rho> k))"

text \<open>
  \<open>m\<close> computes \<open>f\<close>: from every coherent state it returns \<open>f \<rho>\<close> and a coherent state with the
  same inputs and at least the same entries, and its result depends only on the values of
  the keys that are then in the table.
\<close>

definition computes ::
  "('d \<Rightarrow> 'k \<Rightarrow> 'v option) \<Rightarrow> ('k \<Rightarrow> 'k list) \<Rightarrow> ('d \<Rightarrow> 'u) \<Rightarrow> (('k \<Rightarrow> 'v) \<Rightarrow> 'k \<Rightarrow> 'v) \<Rightarrow> ('k \<Rightarrow> 'v) \<Rightarrow> 'u \<Rightarrow>
   ('d, 'a) eff \<Rightarrow> (('k \<Rightarrow> 'v) \<Rightarrow> 'a) \<Rightarrow> bool" where
  "computes lk mu usr F \<rho> u m f = (\<forall>d. usr d = u \<longrightarrow> coh lk mu F \<rho> d \<longrightarrow>
     (\<exists>d'. m d = Inr (f \<rho>, d') \<and> usr d' = u \<and> coh lk mu F \<rho> d' \<and>
        (\<forall>k. lk d k \<noteq> None \<longrightarrow> lk d' k \<noteq> None) \<and>
        (\<forall>\<sigma>. agree lk \<rho> \<sigma> d' \<longrightarrow> f \<sigma> = f \<rho>)))"

lemma computesI:
  assumes "\<And>d. usr d = u \<Longrightarrow> coh lk mu F \<rho> d \<Longrightarrow>
    \<exists>d'. m d = Inr (f \<rho>, d') \<and> usr d' = u \<and> coh lk mu F \<rho> d' \<and>
      (\<forall>k. lk d k \<noteq> None \<longrightarrow> lk d' k \<noteq> None) \<and> (\<forall>\<sigma>. agree lk \<rho> \<sigma> d' \<longrightarrow> f \<sigma> = f \<rho>)"
  shows "computes lk mu usr F \<rho> u m f"
  using assms by (simp add: computes_def)

lemma computesE:
  assumes "computes lk mu usr F \<rho> u m f" and "usr d = u" and "coh lk mu F \<rho> d"
  obtains d' where "m d = Inr (f \<rho>, d')" "usr d' = u" "coh lk mu F \<rho> d'"
    "\<And>k. lk d k \<noteq> None \<Longrightarrow> lk d' k \<noteq> None" "\<And>\<sigma>. agree lk \<rho> \<sigma> d' \<Longrightarrow> f \<sigma> = f \<rho>"
proof -
  from assms obtain d' where "m d = Inr (f \<rho>, d')" "usr d' = u" "coh lk mu F \<rho> d'"
    "\<forall>k. lk d k \<noteq> None \<longrightarrow> lk d' k \<noteq> None" "\<forall>\<sigma>. agree lk \<rho> \<sigma> d' \<longrightarrow> f \<sigma> = f \<rho>"
    unfolding computes_def by blast
  with that show thesis by blast
qed

text \<open>\<open>m\<close> leaves \<open>k'\<close> in the table.\<close>

definition caches ::
  "('d \<Rightarrow> 'k \<Rightarrow> 'v option) \<Rightarrow> ('k \<Rightarrow> 'k list) \<Rightarrow> ('d \<Rightarrow> 'u) \<Rightarrow> (('k \<Rightarrow> 'v) \<Rightarrow> 'k \<Rightarrow> 'v) \<Rightarrow> ('k \<Rightarrow> 'v) \<Rightarrow> 'u \<Rightarrow>
   ('d, 'a) eff \<Rightarrow> 'k \<Rightarrow> bool" where
  "caches lk mu usr F \<rho> u m k' = (\<forall>d x d'. usr d = u \<longrightarrow> coh lk mu F \<rho> d \<longrightarrow> m d = Inr (x, d') \<longrightarrow>
     lk d' k' \<noteq> None)"

lemma caches_bind:
  assumes "caches lk mu usr F \<rho> u m k'" and "computes lk mu usr F \<rho> u m f"
    and "\<And>x. computes lk mu usr F \<rho> u (g x) (h x)"
  shows "caches lk mu usr F \<rho> u (bind m g) k'"
  unfolding caches_def
proof (intro allI impI)
  fix d x d' assume d: "usr d = u" "coh lk mu F \<rho> d" and run: "bind m g d = Inr (x, d')"
  from assms(2) d obtain d1 where d1: "m d = Inr (f \<rho>, d1)" "usr d1 = u" "coh lk mu F \<rho> d1"
    by (rule computesE) blast
  from assms(3) d1(2,3) obtain d2 where d2: "g (f \<rho>) d1 = Inr (h (f \<rho>) \<rho>, d2)"
    "\<And>k. lk d1 k \<noteq> None \<Longrightarrow> lk d2 k \<noteq> None"
    by (rule computesE) blast
  from run d1 d2 have "d' = d2" by (simp add: bind_def)
  moreover have "lk d1 k' \<noteq> None" using assms(1) d d1 by (auto simp: caches_def)
  ultimately show "lk d' k' \<noteq> None" using d2 by blast
qed

lemma caches_bind_right:
  assumes "computes lk mu usr F \<rho> u m f" and "\<And>x. caches lk mu usr F \<rho> u (g x) k'"
  shows "caches lk mu usr F \<rho> u (bind m g) k'"
  unfolding caches_def
proof (intro allI impI)
  fix d x d' assume d: "usr d = u" "coh lk mu F \<rho> d" and run: "bind m g d = Inr (x, d')"
  from assms(1) d obtain d1 where d1: "m d = Inr (f \<rho>, d1)" "usr d1 = u" "coh lk mu F \<rho> d1"
    by (rule computesE) blast
  with run assms(2) [of "f \<rho>"] show "lk d' k' \<noteq> None" by (auto simp: bind_def caches_def)
qed

lemma agree_mono:
  "agree lk \<rho> \<sigma> d' \<Longrightarrow> (\<And>k. lk d k \<noteq> None \<Longrightarrow> lk d' k \<noteq> None) \<Longrightarrow> agree lk \<rho> \<sigma> d"
  by (auto simp: agree_def)

lemma computes_ret: "computes lk mu usr F \<rho> u (ret x) (\<lambda>_. x)"
  by (rule computesI) (simp add: ret_def)

lemma computes_bind:
  assumes m: "computes lk mu usr F \<rho> u m f"
    and g: "computes lk mu usr F \<rho> u (g (f \<rho>)) (h (f \<rho>))"
  shows "computes lk mu usr F \<rho> u (bind m g) (\<lambda>\<sigma>. h (f \<sigma>) \<sigma>)"
proof (rule computesI)
  fix d assume "usr d = u" "coh lk mu F \<rho> d"
  with m obtain d1 where d1: "m d = Inr (f \<rho>, d1)" "usr d1 = u" "coh lk mu F \<rho> d1"
    "\<And>k. lk d k \<noteq> None \<Longrightarrow> lk d1 k \<noteq> None" "\<And>\<sigma>. agree lk \<rho> \<sigma> d1 \<Longrightarrow> f \<sigma> = f \<rho>"
    by (rule computesE) blast
  from g d1(2,3) obtain d2 where d2: "g (f \<rho>) d1 = Inr (h (f \<rho>) \<rho>, d2)" "usr d2 = u"
    "coh lk mu F \<rho> d2" "\<And>k. lk d1 k \<noteq> None \<Longrightarrow> lk d2 k \<noteq> None"
    "\<And>\<sigma>. agree lk \<rho> \<sigma> d2 \<Longrightarrow> h (f \<rho>) \<sigma> = h (f \<rho>) \<rho>"
    by (rule computesE) blast
  have "h (f \<sigma>) \<sigma> = h (f \<rho>) \<rho>" if "agree lk \<rho> \<sigma> d2" for \<sigma>
    using d2(5) [OF that] d1(5) [OF agree_mono [OF that d2(4)]] by simp
  then show "\<exists>d'. bind m g d = Inr (h (f \<rho>) \<rho>, d') \<and> usr d' = u \<and> coh lk mu F \<rho> d' \<and>
      (\<forall>k. lk d k \<noteq> None \<longrightarrow> lk d' k \<noteq> None) \<and>
      (\<forall>\<sigma>. agree lk \<rho> \<sigma> d' \<longrightarrow> h (f \<sigma>) \<sigma> = h (f \<rho>) \<rho>)"
    using d1 d2 by (intro exI [of _ d2]) (auto simp: bind_def)
qed

lemma computes_foldm:
  assumes "\<And>x a. x \<in> set xs \<Longrightarrow> computes lk mu usr F \<rho> u (f x a) (p x a)"
  shows "computes lk mu usr F \<rho> u (foldm f xs a) (\<lambda>\<sigma>. fold (\<lambda>x a. p x a \<sigma>) xs a)"
  using assms
proof (induction xs arbitrary: a)
  case Nil
  then show ?case by (simp add: computes_ret)
next
  case (Cons x xs)
  have "computes lk mu usr F \<rho> u (bind (f x a) (foldm f xs)) (\<lambda>\<sigma>. fold (\<lambda>x a. p x a \<sigma>) xs (p x a \<sigma>))"
    by (rule computes_bind [where h = "\<lambda>b \<sigma>. fold (\<lambda>x a. p x a \<sigma>) xs b"])
      (simp_all add: Cons)
  then show ?case by simp
qed

lemma computes_firstm:
  assumes "\<And>x. x \<in> set xs \<Longrightarrow> computes lk mu usr F \<rho> u (f x) (p x)"
  shows "computes lk mu usr F \<rho> u (firstm f xs) (\<lambda>\<sigma>. firstp (\<lambda>x. p x \<sigma>) xs)"
  using assms
proof (induction xs)
  case Nil
  then show ?case by (simp add: computes_ret)
next
  case (Cons x xs)
  have "computes lk mu usr F \<rho> u
     (bind (f x) (\<lambda>r. case r of None \<Rightarrow> firstm f xs | Some v \<Rightarrow> ret (Some v)))
     (\<lambda>\<sigma>. case p x \<sigma> of None \<Rightarrow> firstp (\<lambda>x. p x \<sigma>) xs | Some v \<Rightarrow> Some v)"
    by (rule computes_bind
          [where h = "\<lambda>r \<sigma>. case r of None \<Rightarrow> firstp (\<lambda>x. p x \<sigma>) xs | Some v \<Rightarrow> Some v"])
      (simp_all add: Cons computes_ret split: option.split)
  then show ?case by simp
qed

lemma computes_if:
  "(b \<Longrightarrow> computes lk mu usr F \<rho> u m f) \<Longrightarrow> (\<not> b \<Longrightarrow> computes lk mu usr F \<rho> u m' f') \<Longrightarrow>
   computes lk mu usr F \<rho> u (if b then m else m') (\<lambda>\<sigma>. if b then f \<sigma> else f' \<sigma>)"
  by simp

lemma computes_case_option:
  "(r = None \<Longrightarrow> computes lk mu usr F \<rho> u m f) \<Longrightarrow>
   (\<And>v. r = Some v \<Longrightarrow> computes lk mu usr F \<rho> u (m' v) (f' v)) \<Longrightarrow>
   computes lk mu usr F \<rho> u (case r of None \<Rightarrow> m | Some v \<Rightarrow> m' v)
     (\<lambda>\<sigma>. case r of None \<Rightarrow> f \<sigma> | Some v \<Rightarrow> f' v \<sigma>)"
  by (cases r) simp_all

section \<open>The interface of a memo table\<close>

text \<open>
  The provider stores entries (\<open>put\<close>) so that they can be looked up again, for the entries
  it can represent (\<open>ok\<close>), and storing leaves the inputs alone.
\<close>

locale memo_store =
  fixes lk :: "'d \<Rightarrow> 'k \<Rightarrow> 'v option"
    and put :: "'k \<Rightarrow> 'v \<Rightarrow> 'd \<Rightarrow> 'd"
    and usr :: "'d \<Rightarrow> 'u"
    and ok :: "'k \<Rightarrow> 'v \<Rightarrow> bool"
  assumes lk_put: "ok k v \<Longrightarrow> lk (put k v d) = (lk d)(k \<mapsto> v)"
    and usr_put: "usr (put k v d) = usr d"
begin

lemma coh_put:
  assumes "coh lk mu F \<rho> d" and "v = \<rho> k" and "ok k v"
    and "\<And>\<sigma>. agree lk \<rho> \<sigma> d \<Longrightarrow> F \<sigma> k = F \<rho> k" and "\<And>k'. k' \<in> set (mu k) \<Longrightarrow> lk d k' \<noteq> None"
  shows "coh lk mu F \<rho> (put k v d)"
proof -
  have mono: "agree lk \<rho> \<sigma> (put k v d) \<Longrightarrow> agree lk \<rho> \<sigma> d" for \<sigma>
    using assms(2,3) by (auto simp: agree_def lk_put split: if_splits)
  show ?thesis
    using assms mono unfolding coh_def by (auto simp: lk_put split: if_splits)
qed

text \<open>Looking a key up and, when it is absent, computing and storing it; \<open>r\<close> reads the result off the
  stored value, \<open>p\<close> off any value.\<close>

lemma computes_memo:
  assumes body: "computes lk mu usr F \<rho> u body (\<lambda>\<sigma>. F \<sigma> k)"
    and fix_k: "\<rho> k = F \<rho> k" and ok: "ok k (\<rho> k)" and rp: "r (\<rho> k) = p (\<rho> k)"
    and mu: "\<And>k'. k' \<in> set (mu k) \<Longrightarrow> caches lk mu usr F \<rho> u body k'"
    and run: "\<And>d. usr d = u \<Longrightarrow> m d = (case lk d k of
        Some v \<Rightarrow> Inr (r v, d)
      | None \<Rightarrow> (case body d of Inl e \<Rightarrow> Inl e | Inr (v, d') \<Rightarrow> Inr (r v, put k v d')))"
  shows "computes lk mu usr F \<rho> u m (\<lambda>\<sigma>. p (\<sigma> k))"
proof (rule computesI)
  fix d assume d: "usr d = u" "coh lk mu F \<rho> d"
  show "\<exists>d'. m d = Inr (p (\<rho> k), d') \<and> usr d' = u \<and> coh lk mu F \<rho> d' \<and>
      (\<forall>k. lk d k \<noteq> None \<longrightarrow> lk d' k \<noteq> None) \<and> (\<forall>\<sigma>. agree lk \<rho> \<sigma> d' \<longrightarrow> p (\<sigma> k) = p (\<rho> k))"
  proof (cases "lk d k")
    case (Some v)
    with d have "v = \<rho> k" by (auto simp: coh_def)
    with Some d show ?thesis by (auto simp: run rp agree_def)
  next
    case None
    from body d obtain d' where d': "body d = Inr (F \<rho> k, d')" "usr d' = u" "coh lk mu F \<rho> d'"
      "\<And>k. lk d k \<noteq> None \<Longrightarrow> lk d' k \<noteq> None" "\<And>\<sigma>. agree lk \<rho> \<sigma> d' \<Longrightarrow> F \<sigma> k = F \<rho> k"
      by (rule computesE) blast
    have c: "coh lk mu F \<rho> (put k (\<rho> k) d')"
      using d d' ok mu by (intro coh_put) (auto simp: caches_def)
    have m: "m d = Inr (p (\<rho> k), put k (\<rho> k) d')"
      using None d(1) d'(1) fix_k rp by (simp add: run)
    show ?thesis
    proof (intro exI conjI allI impI)
      show "m d = Inr (p (\<rho> k), put k (\<rho> k) d')" by (rule m)
      show "usr (put k (\<rho> k) d') = u" using d'(2) by (simp add: usr_put)
      show "coh lk mu F \<rho> (put k (\<rho> k) d')" by (rule c)
      show "lk (put k (\<rho> k) d') x \<noteq> None" if "lk d x \<noteq> None" for x
        using d'(4) [OF that] by (simp add: lk_put [OF ok])
      show "p (\<sigma> k) = p (\<rho> k)" if "agree lk \<rho> \<sigma> (put k (\<rho> k) d')" for \<sigma>
        using that by (simp add: agree_def lk_put [OF ok])
    qed
  qed
qed

lemma caches_memo:
  assumes ok: "ok k (\<rho> k)" and fix_k: "\<rho> k = F \<rho> k"
    and body: "computes lk mu usr F \<rho> u body (\<lambda>\<sigma>. F \<sigma> k)"
    and run: "\<And>d. usr d = u \<Longrightarrow> m d = (case lk d k of
        Some v \<Rightarrow> Inr (r v, d)
      | None \<Rightarrow> (case body d of Inl e \<Rightarrow> Inl e | Inr (v, d') \<Rightarrow> Inr (r v, put k v d')))"
  shows "caches lk mu usr F \<rho> u m k"
  unfolding caches_def
proof (intro allI impI)
  fix d x d' assume d: "usr d = u" "coh lk mu F \<rho> d" and m: "m d = Inr (x, d')"
  show "lk d' k \<noteq> None"
  proof (cases "lk d k")
    case None
    from body d obtain d1 where "body d = Inr (F \<rho> k, d1)" by (rule computesE) blast
    with None d m fix_k ok show ?thesis by (auto simp: run lk_put)
  next
    case (Some v)
    with d m show ?thesis by (auto simp: run)
  qed
qed

text \<open>A change of the state that touches neither entries nor inputs.\<close>

lemma computes_modify:
  assumes "\<And>d. lk (g d) = lk d" and "\<And>d. usr (g d) = usr d"
  shows "computes lk mu usr F \<rho> u (modify g) (\<lambda>_. ())"
proof (rule computesI)
  fix d assume "usr d = u" "coh lk mu F \<rho> d"
  moreover have "coh lk mu F \<rho> (g d) = coh lk mu F \<rho> d"
    by (simp only: coh_def agree_def assms)
  ultimately show "\<exists>d'. modify g d = Inr ((), d') \<and> usr d' = u \<and> coh lk mu F \<rho> d' \<and>
      (\<forall>k. lk d k \<noteq> None \<longrightarrow> lk d' k \<noteq> None) \<and> (\<forall>\<sigma>. agree lk \<rho> \<sigma> d' \<longrightarrow> () = ())"
    by (intro exI [of _ "g d"]) (simp add: modify_def assms)
qed

lemma computes_gets:
  assumes "\<And>d. usr d = u \<Longrightarrow> g d = x"
  shows "computes lk mu usr F \<rho> u (gets g) (\<lambda>_. x)"
  using assms by (intro computesI) (simp add: gets_def)

end

section \<open>Invalidation\<close>

text \<open>
  Removing a set of entries that is closed under the static dependencies between the
  entries leaves a coherent table, for any new valuation: the remaining entries are
  supported by remaining entries. \<open>vd k\<close> are the keys the step for \<open>k\<close> can read, and
  \<open>rk\<close> decreases along them.
\<close>

lemma coh_invalidate:
  assumes coh: "coh lk mu F \<rho> d" and fp: "\<And>k. \<rho> k = F \<rho> k" and fp': "\<And>k. \<rho>' k = F' \<rho>' k"
    and cong: "\<And>\<sigma> \<tau> k. (\<And>k'. k' \<in> vd k \<Longrightarrow> \<sigma> k' = \<tau> k') \<Longrightarrow> F \<sigma> k = F \<tau> k"
    and cong': "\<And>\<sigma> \<tau> k. (\<And>k'. k' \<in> vd k \<Longrightarrow> \<sigma> k' = \<tau> k') \<Longrightarrow> F' \<sigma> k = F' \<tau> k"
    and rank: "\<And>k k'. k' \<in> vd k \<Longrightarrow> rk k' < (rk k :: nat)"
    and sub: "\<And>k. lk d' k \<noteq> None \<Longrightarrow> lk d' k = lk d k"
    and same: "\<And>\<sigma> k. lk d' k \<noteq> None \<Longrightarrow> F' \<sigma> k = F \<sigma> k"
    and mu: "\<And>k. set (mu k) \<subseteq> vd k"
    and closed: "\<And>k k'. lk d' k \<noteq> None \<Longrightarrow> k' \<in> vd k \<Longrightarrow> lk d k' \<noteq> None \<Longrightarrow> lk d' k' \<noteq> None"
  shows "coh lk mu F' \<rho>' d'"
proof -
  have supp: "F \<sigma> k = F \<rho> k"
    if k: "lk d' k \<noteq> None" and eq: "\<And>k'. k' \<in> vd k \<Longrightarrow> lk d' k' \<noteq> None \<Longrightarrow> \<sigma> k' = \<rho> k'" for \<sigma> k
  proof -
    define \<tau> where "\<tau> = (\<lambda>k'. if k' \<in> vd k then \<sigma> k' else \<rho> k')"
    have "agree lk \<rho> \<tau> d"
      using eq closed [OF k] by (auto simp: agree_def \<tau>_def)
    moreover from k sub [OF k] obtain v where "lk d k = Some v" by auto
    ultimately have "F \<tau> k = F \<rho> k" using coh by (auto simp: coh_def)
    moreover have "F \<tau> k = F \<sigma> k" by (rule cong) (simp add: \<tau>_def)
    ultimately show ?thesis by simp
  qed
  have eq: "\<rho>' k = \<rho> k" if "lk d' k \<noteq> None" for k
    using that
  proof (induction "rk k" arbitrary: k rule: less_induct)
    case less
    have "F \<rho>' k = F \<rho> k"
      using less by (intro supp) (auto intro: rank)
    with less.prems fp fp' same show ?case by metis
  qed
  show ?thesis
    unfolding coh_def
  proof (intro allI impI conjI)
    fix k v assume k: "lk d' k = Some v"
    then have dk: "lk d k = Some v" using sub [of k] by simp
    then have "v = \<rho> k" using coh by (auto simp: coh_def)
    then show "v = \<rho>' k" using eq k by simp
    show "\<forall>k' \<in> set (mu k). lk d' k' \<noteq> None"
    proof
      fix k' assume k': "k' \<in> set (mu k)"
      moreover from dk coh k' have "lk d k' \<noteq> None" unfolding coh_def by blast
      ultimately show "lk d' k' \<noteq> None" using mu k closed by fastforce
    qed
    fix \<sigma> assume ag: "agree lk \<rho>' \<sigma> d'"
    have "F \<sigma> k = F \<rho> k"
      using ag k eq by (intro supp) (auto simp: agree_def)
    moreover have "F \<rho>' k = F \<rho> k"
      using k eq by (intro supp) auto
    ultimately show "F' \<sigma> k = F' \<rho>' k"
      using same k by simp
  qed
qed

end
