(* ===== verification/Valuation.thy ===== *)
theory Valuation
  imports Eval Memo
begin

text \<open>
  The specification of the calculated values. A key names one cached property of a symbol or choice; \<open>spec\<close>
  gives the value of a key from the values of other keys and the user's assignments; a
  valuation is a function from keys to values that satisfies all these equations.
\<close>

section \<open>Keys, values and user assignments\<close>

datatype vkey =
    KVis symref | KTri symref | KStr symref | KAsg symref
  | KCVis choiceref | KCSel choiceref | KCAsg choiceref

text \<open>The boolean of \<open>VTri\<close> and \<open>VStr\<close> is \<open>_write_to_conf\<close>.\<close>

datatype vval =
    VNat nat | VTri nat bool | VStr string bool | VList "nat list" | VSel "symref option"

record users =
  u_sym :: "symref \<Rightarrow> pyval option"
  u_cho :: "choiceref \<Rightarrow> nat option"
  u_sel :: "choiceref \<Rightarrow> symref option"

definition usr :: "dyn \<Rightarrow> users" where
  "usr d = \<lparr>u_sym = user_value d, u_cho = ch_user_value d, u_sel = ch_user_selection d\<rparr>"

type_synonym valuation = "vkey \<Rightarrow> vval"

text \<open>
  The components of a valuation; tristate components are at most 2, and the visibility of
  a symbol without prompts is 0, by construction.
\<close>

definition rvis :: "kconfig \<Rightarrow> valuation \<Rightarrow> symref \<Rightarrow> nat" where
  "rvis K \<rho> s = (if prompt_conds K (s_nodes (k_sym K s)) = [] then 0
     else case \<rho> (KVis s) of VNat v \<Rightarrow> min v 2 | _ \<Rightarrow> 0)"

definition rtri :: "valuation \<Rightarrow> symref \<Rightarrow> nat" where
  "rtri \<rho> s = (case nmy_tri s of Some v \<Rightarrow> v
     | None \<Rightarrow> (case \<rho> (KTri s) of VTri v _ \<Rightarrow> min v 2 | _ \<Rightarrow> 0))"

definition rstr :: "valuation \<Rightarrow> symref \<Rightarrow> string" where
  "rstr \<rho> s = (case \<rho> (KStr s) of VStr v _ \<Rightarrow> v | _ \<Rightarrow> [])"

definition rcvis :: "valuation \<Rightarrow> choiceref \<Rightarrow> nat" where
  "rcvis \<rho> c = (case \<rho> (KCVis c) of VNat v \<Rightarrow> min v 2 | _ \<Rightarrow> 0)"

definition rsel :: "valuation \<Rightarrow> choiceref \<Rightarrow> symref option" where
  "rsel \<rho> c = (case \<rho> (KCSel c) of VSel v \<Rightarrow> v | _ \<Rightarrow> None)"

definition rasg :: "valuation \<Rightarrow> symref \<Rightarrow> nat list" where
  "rasg \<rho> s = (case \<rho> (KAsg s) of VList v \<Rightarrow> v | _ \<Rightarrow> [])"

definition rcasg :: "valuation \<Rightarrow> choiceref \<Rightarrow> nat list" where
  "rcasg \<rho> c = (case \<rho> (KCAsg c) of VList v \<Rightarrow> v | _ \<Rightarrow> [])"

text \<open>\<open>Symbol._write_to_conf\<close>\<close>

definition rwtc :: "kconfig \<Rightarrow> valuation \<Rightarrow> symref \<Rightarrow> bool" where
  "rwtc K \<rho> s =
     (if bool_tristate (otype K s) then (case \<rho> (KTri s) of VTri _ w \<Rightarrow> w | _ \<Rightarrow> False)
      else (case \<rho> (KStr s) of VStr _ w \<Rightarrow> w | _ \<Rightarrow> False))"

lemma nmy_tri_le [tri_bounds]: "nmy_tri s = Some v \<Longrightarrow> v \<le> 2"
  by (auto simp: nmy_tri_def str_to_tri_le split: symref.splits)

lemma rvis_le [tri_bounds, simp]: "rvis K \<rho> s \<le> 2"
  by (simp add: rvis_def split: vval.split)

lemma rcvis_le [tri_bounds, simp]: "rcvis \<rho> c \<le> 2"
  by (simp add: rcvis_def split: vval.split)

lemma rtri_le [tri_bounds, simp]: "rtri \<rho> s \<le> 2"
  by (auto simp: rtri_def nmy_tri_le split: vval.split option.split)

section \<open>The equations\<close>

definition ctype_spec :: "kconfig \<Rightarrow> valuation \<Rightarrow> choiceref \<Rightarrow> stype" where
  "ctype_spec K \<rho> c =
     (if c_orig_type (k_choice K c) = TRISTATE \<and> rtri \<rho> modules = 0 then BOOL
      else c_orig_type (k_choice K c))"

definition ctri_spec :: "kconfig \<Rightarrow> users \<Rightarrow> valuation \<Rightarrow> choiceref \<Rightarrow> nat" where
  "ctri_spec K u \<rho> c =
     (let base = (if c_is_optional (k_choice K c) then 0 else 1);
          val = min (case u_cho u c of None \<Rightarrow> base | Some v \<Rightarrow> max base v) (rcvis \<rho> c)
      in if val = 1 \<and> ctype_spec K \<rho> c = BOOL then 2 else val)"

definition stype_spec :: "kconfig \<Rightarrow> users \<Rightarrow> valuation \<Rightarrow> symref \<Rightarrow> stype" where
  "stype_spec K u \<rho> s =
     (if otype K s = TRISTATE \<and>
         ((\<exists>c. s_choice (k_sym K s) = Some c \<and> ctri_spec K u \<rho> c = 2) \<or> rtri \<rho> modules = 0)
      then BOOL else otype K s)"

definition itri :: "kconfig \<Rightarrow> users \<Rightarrow> valuation \<Rightarrow> item \<Rightarrow> nat" where
  "itri K u \<rho> x = (case x of Sym s \<Rightarrow> rtri \<rho> s | Cho c \<Rightarrow> ctri_spec K u \<rho> c)"

abbreviation ev :: "kconfig \<Rightarrow> users \<Rightarrow> valuation \<Rightarrow> expr \<Rightarrow> nat" where
  "ev K u \<rho> \<equiv> eval (\<lambda>s. otype K s) (itri K u \<rho>) (rstr \<rho>)"

definition prompts_spec :: "kconfig \<Rightarrow> users \<Rightarrow> valuation \<Rightarrow> noderef list \<Rightarrow> nat" where
  "prompts_spec K u \<rho> ns = fold max (map (ev K u \<rho>) (prompt_conds K ns)) 0"

definition vis_spec :: "kconfig \<Rightarrow> users \<Rightarrow> valuation \<Rightarrow> symref \<Rightarrow> nat" where
  "vis_spec K u \<rho> s =
     (let vis = prompts_spec K u \<rho> (s_nodes (k_sym K s));
          promoted = (if vis = 1 \<and> stype_spec K u \<rho> s \<noteq> TRISTATE then 2 else vis)
      in case s_choice (k_sym K s) of
           None \<Rightarrow> promoted
         | Some c \<Rightarrow>
             if c_orig_type (k_choice K c) = TRISTATE \<and> otype K s \<noteq> TRISTATE \<and> ctri_spec K u \<rho> c \<noteq> 2
             then 0
             else if otype K s = TRISTATE \<and> vis = 1 \<and> ctri_spec K u \<rho> c = 2 then 0
             else promoted)"

definition cvis_spec :: "kconfig \<Rightarrow> users \<Rightarrow> valuation \<Rightarrow> choiceref \<Rightarrow> nat" where
  "cvis_spec K u \<rho> c =
     (let vis = prompts_spec K u \<rho> (c_nodes (k_choice K c))
      in if vis = 1 \<and> ctype_spec K \<rho> c \<noteq> TRISTATE then 2 else vis)"

definition tri_default_spec :: "kconfig \<Rightarrow> users \<Rightarrow> valuation \<Rightarrow> symref \<Rightarrow> nat option" where
  "tri_default_spec K u \<rho> s =
     firstp (\<lambda>(dflt, cond). if ev K u \<rho> cond \<noteq> 0 then Some (min (ev K u \<rho> dflt) (ev K u \<rho> cond)) else None)
       (s_defaults (k_sym K s))"

definition tri_base_spec :: "kconfig \<Rightarrow> users \<Rightarrow> valuation \<Rightarrow> symref \<Rightarrow> nat \<Rightarrow> nat \<times> bool" where
  "tri_base_spec K u \<rho> s vis =
     (if vis \<noteq> 0 \<and> u_sym u s \<noteq> None then
        (case u_sym u s of Some (PInt v) \<Rightarrow> (min v vis, True) | _ \<Rightarrow> (0, True))
      else
        let val = (case tri_default_spec K u \<rho> s of None \<Rightarrow> 0 | Some v \<Rightarrow> v);
            dep = ev K u \<rho> (s_weak_rev_dep (k_sym K s))
        in if dep \<noteq> 0 \<and> ev K u \<rho> (s_direct_dep (k_sym K s)) \<noteq> 0 then (max dep val, True)
           else (val, vis \<noteq> 0 \<or> val \<noteq> 0))"

definition tri_reverse_spec :: "kconfig \<Rightarrow> users \<Rightarrow> valuation \<Rightarrow> symref \<Rightarrow> nat \<times> bool \<Rightarrow> nat \<times> bool" where
  "tri_reverse_spec K u \<rho> s vw =
     (let dep = ev K u \<rho> (s_rev_dep (k_sym K s))
      in if dep \<noteq> 0 then (max dep (fst vw), True) else vw)"

definition tri_promote_spec :: "kconfig \<Rightarrow> users \<Rightarrow> valuation \<Rightarrow> symref \<Rightarrow> nat \<Rightarrow> nat" where
  "tri_promote_spec K u \<rho> s val =
     (if val = 1 \<and> (stype_spec K u \<rho> s = BOOL \<or> ev K u \<rho> (s_weak_rev_dep (k_sym K s)) = 2) then 2
      else val)"

definition tri_spec :: "kconfig \<Rightarrow> users \<Rightarrow> valuation \<Rightarrow> symref \<Rightarrow> nat \<times> bool" where
  "tri_spec K u \<rho> s =
     (let vis = rvis K \<rho> s in
      case s_choice (k_sym K s) of
        None \<Rightarrow>
          let vw = tri_reverse_spec K u \<rho> s (tri_base_spec K u \<rho> s vis)
          in (tri_promote_spec K u \<rho> s (fst vw), snd vw)
      | Some c \<Rightarrow>
          if vis = 2 then (if rsel \<rho> c = Some s then 2 else 0, True)
          else (if vis \<noteq> 0 \<and> truthy (u_sym u s) then 1 else 0, vis \<noteq> 0))"

definition range_spec :: "kconfig \<Rightarrow> users \<Rightarrow> valuation \<Rightarrow> symref \<Rightarrow> (int \<times> int) option" where
  "range_spec K u \<rho> s =
     (let base = type_to_base (otype K s) in
      firstp (\<lambda>(low, high, cond).
        if ev K u \<rho> cond \<noteq> 0 then Some (num_or_0 base (rstr \<rho> low), num_or_0 base (rstr \<rho> high)) else None)
      (s_ranges (k_sym K s)))"

definition str_default_spec :: "kconfig \<Rightarrow> users \<Rightarrow> valuation \<Rightarrow> symref \<Rightarrow> string option" where
  "str_default_spec K u \<rho> s =
     firstp (\<lambda>(dflt, cond).
       if ev K u \<rho> cond \<noteq> 0 then Some (case dflt of Item (Sym x) \<Rightarrow> rstr \<rho> x | _ \<Rightarrow> []) else None)
     (s_defaults (k_sym K s))"

text \<open>The value an int or hex symbol gets from its default \<open>r\<close>, clamped into the range \<open>rng\<close>.\<close>

definition num_pick :: "stype \<Rightarrow> (int \<times> int) option \<Rightarrow> string option \<Rightarrow> string" where
  "num_pick t rng r =
     (let n = (case r of None \<Rightarrow> 0 | Some x \<Rightarrow> num_or_0 (type_to_base t) x)
      in case (case rng of None \<Rightarrow> None | Some (low, high) \<Rightarrow> clamp low high n) of
           None \<Rightarrow> (case r of None \<Rightarrow> [] | Some x \<Rightarrow> x)
         | Some c \<Rightarrow> num2str t c)"

definition num_defaults_spec :: "kconfig \<Rightarrow> users \<Rightarrow> valuation \<Rightarrow> symref \<Rightarrow> bool \<Rightarrow> string \<times> bool" where
  "num_defaults_spec K u \<rho> s w =
     (num_pick (otype K s) (range_spec K u \<rho> s) (str_default_spec K u \<rho> s),
      w \<or> str_default_spec K u \<rho> s \<noteq> None)"

definition in_range :: "(int \<times> int) option \<Rightarrow> int \<Rightarrow> bool" where
  "in_range rng n = (case rng of None \<Rightarrow> True | Some (low, high) \<Rightarrow> low \<le> n \<and> n \<le> high)"

definition num_spec :: "kconfig \<Rightarrow> users \<Rightarrow> valuation \<Rightarrow> symref \<Rightarrow> nat \<Rightarrow> string \<times> bool" where
  "num_spec K u \<rho> s vis =
     (case u_sym u s of
        Some (PStr x) \<Rightarrow>
          if vis \<noteq> 0 \<and> x \<noteq> [] \<and> in_range (range_spec K u \<rho> s) (num_or_0 (type_to_base (otype K s)) x)
          then (x, True) else num_defaults_spec K u \<rho> s (vis \<noteq> 0)
      | _ \<Rightarrow> num_defaults_spec K u \<rho> s (vis \<noteq> 0))"

definition string_spec :: "kconfig \<Rightarrow> users \<Rightarrow> valuation \<Rightarrow> symref \<Rightarrow> nat \<Rightarrow> string \<times> bool" where
  "string_spec K u \<rho> s vis =
     (if vis \<noteq> 0 \<and> u_sym u s \<noteq> None then
        (case u_sym u s of Some (PStr x) \<Rightarrow> (x, True) | _ \<Rightarrow> ([], True))
      else (case str_default_spec K u \<rho> s of None \<Rightarrow> ([], vis \<noteq> 0) | Some x \<Rightarrow> (x, True)))"

definition str_spec :: "kconfig \<Rightarrow> users \<Rightarrow> valuation \<Rightarrow> symref \<Rightarrow> string \<times> bool" where
  "str_spec K u \<rho> s =
     (let vw = (if int_hex (otype K s) then num_spec K u \<rho> s (rvis K \<rho> s) else string_spec K u \<rho> s (rvis K \<rho> s))
      in (fst vw, if s_env_var (k_sym K s) \<noteq> None \<or> k_defconfig_list K = Some (NSym s) then False else snd vw))"

definition sel_default_spec :: "kconfig \<Rightarrow> users \<Rightarrow> valuation \<Rightarrow> choiceref \<Rightarrow> symref option" where
  "sel_default_spec K u \<rho> c =
     firstp (\<lambda>(dflt, cond).
       if ev K u \<rho> cond \<noteq> 0
       then (case dflt of Item (Sym s) \<Rightarrow> if rvis K \<rho> s \<noteq> 0 then Some s else None | _ \<Rightarrow> None) else None)
     (c_defaults (k_choice K c))"

definition sel_from_defaults_spec :: "kconfig \<Rightarrow> users \<Rightarrow> valuation \<Rightarrow> choiceref \<Rightarrow> symref option" where
  "sel_from_defaults_spec K u \<rho> c =
     (case sel_default_spec K u \<rho> c of
        Some s \<Rightarrow> Some s
      | None \<Rightarrow> firstp (\<lambda>s. if rvis K \<rho> s \<noteq> 0 then Some s else None) (c_syms (k_choice K c)))"

definition sel_spec :: "kconfig \<Rightarrow> users \<Rightarrow> valuation \<Rightarrow> choiceref \<Rightarrow> symref option" where
  "sel_spec K u \<rho> c =
     (if ctri_spec K u \<rho> c \<noteq> 2 then None
      else case u_sel u c of
        None \<Rightarrow> sel_from_defaults_spec K u \<rho> c
      | Some s \<Rightarrow> if rvis K \<rho> s \<noteq> 0 then Some s else sel_from_defaults_spec K u \<rho> c)"

definition asg_spec :: "kconfig \<Rightarrow> users \<Rightarrow> valuation \<Rightarrow> symref \<Rightarrow> nat list" where
  "asg_spec K u \<rho> s =
     (let vis = rvis K \<rho> s;
          rev = ev K u \<rho> (s_rev_dep (k_sym K s));
          weak = ev K u \<rho> (s_weak_rev_dep (k_sym K s));
          bool_or_weak = (stype_spec K u \<rho> s = BOOL \<or> weak = 2)
      in if \<not> bool_tristate (otype K s) \<or> vis = 0 then []
         else if vis = 2 then
           (if s_choice (k_sym K s) \<noteq> None then [2]
            else if rev = 0 then (if bool_or_weak then [0, 2] else [0, 1, 2])
            else if rev = 2 then [2]
            else (if bool_or_weak then [2] else [1, 2]))
         else if rev = 0 then (if weak \<noteq> 2 then [0, 1] else [0, 2])
         else if rev = 2 then [2]
         else [1])"

definition casg_spec :: "kconfig \<Rightarrow> valuation \<Rightarrow> choiceref \<Rightarrow> nat list" where
  "casg_spec K \<rho> c =
     (let vis = rcvis \<rho> c; opt = c_is_optional (k_choice K c); b = (ctype_spec K \<rho> c = BOOL)
      in if vis = 0 then []
         else if vis = 2 then
           (if \<not> opt then (if b then [2] else [1, 2]) else (if b then [0, 2] else [0, 1, 2]))
         else (if opt then [0, 1] else [1]))"

fun spec :: "kconfig \<Rightarrow> users \<Rightarrow> valuation \<Rightarrow> vkey \<Rightarrow> vval" where
  "spec K u \<rho> (KVis s) = VNat (vis_spec K u \<rho> s)"
| "spec K u \<rho> (KTri s) =
     (case nmy_tri s of
        Some v \<Rightarrow> VTri v False
      | None \<Rightarrow>
          if bool_tristate (otype K s) then VTri (fst (tri_spec K u \<rho> s)) (snd (tri_spec K u \<rho> s))
          else VTri 0 False)"
| "spec K u \<rho> (KStr s) =
     (if bool_tristate (otype K s) then VStr (tri_to_str (rtri \<rho> s)) False
      else if otype K s = UNKNOWN then VStr (sym_name s) False
      else VStr (fst (str_spec K u \<rho> s)) (snd (str_spec K u \<rho> s)))"
| "spec K u \<rho> (KAsg s) = VList (asg_spec K u \<rho> s)"
| "spec K u \<rho> (KCVis c) = VNat (cvis_spec K u \<rho> c)"
| "spec K u \<rho> (KCSel c) = VSel (sel_spec K u \<rho> c)"
| "spec K u \<rho> (KCAsg c) = VList (casg_spec K \<rho> c)"

definition is_valuation :: "kconfig \<Rightarrow> users \<Rightarrow> valuation \<Rightarrow> bool" where
  "is_valuation K u \<rho> = (\<forall>k. \<rho> k = spec K u \<rho> k)"

section \<open>Tristate values are n, m or y\<close>

lemma ctri_spec_le [tri_bounds, simp]: "ctri_spec K u \<rho> c \<le> 2"
  using rcvis_le [of \<rho> c] by (auto simp: ctri_spec_def Let_def min_def simp del: rcvis_le)

lemma itri_le [tri_bounds, simp]: "itri K u \<rho> x \<le> 2"
  by (simp add: itri_def split: item.split)

interpretation iv: item_values "itri K u \<rho>" for K u \<rho>
  by unfold_locales (simp_all, simp_all add: itri_def rtri_def nmy_tri_def str_to_tri_def)

lemma prompts_spec_le [tri_bounds, simp]: "prompts_spec K u \<rho> ns \<le> 2"
  by (auto simp: prompts_spec_def fold_max_le iv.eval_le)

lemma vis_spec_le [tri_bounds, simp]: "vis_spec K u \<rho> s \<le> 2"
  by (simp add: vis_spec_def Let_def split: option.split)

lemma vis_spec_promptless: "prompt_conds K (s_nodes (k_sym K s)) = [] \<Longrightarrow> vis_spec K u \<rho> s = 0"
  by (simp add: vis_spec_def prompts_spec_def Let_def split: option.split)

lemma cvis_spec_le [tri_bounds, simp]: "cvis_spec K u \<rho> c \<le> 2"
  by (simp add: cvis_spec_def Let_def)

lemma tri_default_spec_le: "tri_default_spec K u \<rho> s = Some v \<Longrightarrow> v \<le> 2"
  unfolding tri_default_spec_def
  by (drule firstp_Some) (auto simp: min.coboundedI1 iv.eval_le split: if_splits)

lemma tri_base_spec_le: "vis \<le> 2 \<Longrightarrow> fst (tri_base_spec K u \<rho> s vis) \<le> 2"
  by (auto simp: tri_base_spec_def Let_def tri_default_spec_le min.coboundedI2 iv.eval_le
      split: option.split pyval.split)

lemma tri_spec_le [tri_bounds, simp]: "fst (tri_spec K u \<rho> s) \<le> 2"
  by (auto simp: tri_spec_def tri_reverse_spec_def tri_promote_spec_def Let_def
      tri_base_spec_le iv.eval_le split: option.split)

section \<open>The caches as a memo table\<close>

fun cached :: "kconfig \<Rightarrow> dyn \<Rightarrow> vkey \<Rightarrow> vval option" where
  "cached K d (KVis s) = map_option VNat (cached_vis d s)"
| "cached K d (KTri s) =
     (case nmy_tri s of
        Some v \<Rightarrow> Some (VTri v False)
      | None \<Rightarrow> map_option (\<lambda>v. VTri v (bool_tristate (otype K s) \<and> write_to_conf d s)) (cached_tri_val d s))"
| "cached K d (KStr s) =
     map_option (\<lambda>v. VStr v (\<not> bool_tristate (otype K s) \<and> otype K s \<noteq> UNKNOWN \<and> write_to_conf d s))
       (cached_str_val d s)"
| "cached K d (KAsg s) = map_option VList (cached_assignable d s)"
| "cached K d (KCVis c) = map_option VNat (ch_cached_vis d c)"
| "cached K d (KCSel c) = map_option VSel (ch_cached_selection d c)"
| "cached K d (KCAsg c) = map_option VList (ch_cached_assignable d c)"

fun cache_put :: "kconfig \<Rightarrow> vkey \<Rightarrow> vval \<Rightarrow> dyn \<Rightarrow> dyn" where
  "cache_put K (KVis s) (VNat v) d = d\<lparr>cached_vis := (cached_vis d)(s := Some v)\<rparr>"
| "cache_put K (KTri s) (VTri v w) d =
     (if nmy_tri s \<noteq> None then d
      else if bool_tristate (otype K s)
      then d\<lparr>cached_tri_val := (cached_tri_val d)(s := Some v), write_to_conf := (write_to_conf d)(s := w)\<rparr>
      else d\<lparr>cached_tri_val := (cached_tri_val d)(s := Some v)\<rparr>)"
| "cache_put K (KStr s) (VStr v w) d =
     (if bool_tristate (otype K s) \<or> otype K s = UNKNOWN
      then d\<lparr>cached_str_val := (cached_str_val d)(s := Some v)\<rparr>
      else d\<lparr>cached_str_val := (cached_str_val d)(s := Some v), write_to_conf := (write_to_conf d)(s := w)\<rparr>)"
| "cache_put K (KAsg s) (VList v) d = d\<lparr>cached_assignable := (cached_assignable d)(s := Some v)\<rparr>"
| "cache_put K (KCVis c) (VNat v) d = d\<lparr>ch_cached_vis := (ch_cached_vis d)(c := Some v)\<rparr>"
| "cache_put K (KCSel c) (VSel v) d = d\<lparr>ch_cached_selection := (ch_cached_selection d)(c := Some v)\<rparr>"
| "cache_put K (KCAsg c) (VList v) d = d\<lparr>ch_cached_assignable := (ch_cached_assignable d)(c := Some v)\<rparr>"
| "cache_put K _ _ d = d"

fun cache_ok :: "kconfig \<Rightarrow> vkey \<Rightarrow> vval \<Rightarrow> bool" where
  "cache_ok K (KVis s) (VNat v) = True"
| "cache_ok K (KTri s) (VTri v w) =
     (case nmy_tri s of Some v' \<Rightarrow> v = v' \<and> \<not> w | None \<Rightarrow> w \<longrightarrow> bool_tristate (otype K s))"
| "cache_ok K (KStr s) (VStr v w) = (w \<longrightarrow> \<not> bool_tristate (otype K s) \<and> otype K s \<noteq> UNKNOWN)"
| "cache_ok K (KAsg s) (VList v) = True"
| "cache_ok K (KCVis c) (VNat v) = True"
| "cache_ok K (KCSel c) (VSel v) = True"
| "cache_ok K (KCAsg c) (VList v) = True"
| "cache_ok K _ _ = False"

text \<open>
  The values of \<open>n\<close>, \<open>m\<close> and \<open>y\<close> are stored once and for all when the \<open>Kconfig\<close> is created.
  That they are still there is part of what a calculation relies on, beside the user's
  assignments.
\<close>

definition consts_ok :: "dyn \<Rightarrow> bool" where
  "consts_ok d = (\<forall>x v. str_to_tri x = Some v \<longrightarrow> cached_tri_val d (SymC x) = Some v)"

lemma consts_okD: "consts_ok d \<Longrightarrow> nmy_tri s = Some v \<Longrightarrow> cached_tri_val d s = Some v"
  by (auto simp: consts_ok_def nmy_tri_def split: symref.splits)

definition env :: "dyn \<Rightarrow> users \<times> bool" where
  "env d = (usr d, consts_ok d)"

lemma cached_cache_put: "cache_ok K k v \<Longrightarrow> cached K (cache_put K k v d) = (cached K d)(k \<mapsto> v)"
proof (rule ext)
  fix k' assume "cache_ok K k v"
  then show "cached K (cache_put K k v d) k' = ((cached K d)(k \<mapsto> v)) k'"
    by (cases "(K, k, v)" rule: cache_ok.cases; cases k') (auto split: option.splits)
qed

lemma usr_cache_put: "usr (cache_put K k v d) = usr d"
  by (cases "(K, k, v, d)" rule: cache_put.cases) (auto simp: usr_def)

lemma consts_ok_cache_put: "consts_ok (cache_put K k v d) = consts_ok d"
  by (cases "(K, k, v, d)" rule: cache_put.cases) (auto simp: consts_ok_def nmy_tri_def)

interpretation ms: memo_store "cached K" "cache_put K" env "cache_ok K" for K
  by unfold_locales (auto simp: cached_cache_put usr_cache_put consts_ok_cache_put env_def)

lemma cache_ok_spec: "cache_ok K k (spec K u \<rho> k)"
  by (cases k) (auto split: option.split)

section \<open>The keys an equation reads\<close>

definition ctdeps :: "kconfig \<Rightarrow> choiceref \<Rightarrow> vkey list" where
  "ctdeps K c = (if c_orig_type (k_choice K c) = TRISTATE then [KTri modules] else [])"

definition cdeps :: "kconfig \<Rightarrow> choiceref \<Rightarrow> vkey list" where
  "cdeps K c = KCVis c # ctdeps K c"

fun edeps :: "kconfig \<Rightarrow> expr \<Rightarrow> vkey list" where
  "edeps K (Item (Sym s)) = [KTri s]"
| "edeps K (Item (Cho c)) = cdeps K c"
| "edeps K (AND a b) = edeps K a @ edeps K b"
| "edeps K (OR a b) = edeps K a @ edeps K b"
| "edeps K (NOT a) = edeps K a"
| "edeps K (Rel r a b) = [KTri a, KStr a, KTri b, KStr b]"

definition chdeps :: "kconfig \<Rightarrow> symref \<Rightarrow> vkey list" where
  "chdeps K s = (case s_choice (k_sym K s) of None \<Rightarrow> [] | Some c \<Rightarrow> cdeps K c)"

definition tdeps :: "kconfig \<Rightarrow> symref \<Rightarrow> vkey list" where
  "tdeps K s = (if otype K s = TRISTATE then KTri modules # chdeps K s else [])"

definition pdeps :: "kconfig \<Rightarrow> noderef list \<Rightarrow> vkey list" where
  "pdeps K ns = concat (map (edeps K) (prompt_conds K ns))"

definition symdef_deps :: "expr \<Rightarrow> (symref \<Rightarrow> vkey) \<Rightarrow> vkey list" where
  "symdef_deps e f = (case e of Item (Sym x) \<Rightarrow> [f x] | _ \<Rightarrow> [])"

text \<open>The keys the calculation of a key can read.\<close>

fun rdeps :: "kconfig \<Rightarrow> vkey \<Rightarrow> vkey list" where
  "rdeps K (KVis s) = pdeps K (s_nodes (k_sym K s)) @ chdeps K s @ tdeps K s"
| "rdeps K (KTri s) =
     (if nmy_tri s \<noteq> None \<or> \<not> bool_tristate (otype K s) then []
      else KVis s # (case s_choice (k_sym K s) of
          None \<Rightarrow>
            concat (map (\<lambda>(v, c). edeps K v @ edeps K c) (s_defaults (k_sym K s))) @
            edeps K (s_rev_dep (k_sym K s)) @ edeps K (s_weak_rev_dep (k_sym K s)) @
            edeps K (s_direct_dep (k_sym K s)) @ tdeps K s
        | Some c \<Rightarrow> [KCSel c]))"
| "rdeps K (KStr s) =
     (if bool_tristate (otype K s) then [KTri s]
      else if otype K s = UNKNOWN then []
      else KVis s #
        concat (map (\<lambda>(l, h, c). [KStr l, KStr h] @ edeps K c) (s_ranges (k_sym K s))) @
        concat (map (\<lambda>(v, c). symdef_deps v KStr @ edeps K c) (s_defaults (k_sym K s))))"
| "rdeps K (KAsg s) =
     (if bool_tristate (otype K s)
      then KVis s # edeps K (s_rev_dep (k_sym K s)) @ edeps K (s_weak_rev_dep (k_sym K s)) @ tdeps K s
      else [])"
| "rdeps K (KCVis c) = pdeps K (c_nodes (k_choice K c)) @ ctdeps K c"
| "rdeps K (KCSel c) =
     cdeps K c @ map KVis (c_syms (k_choice K c)) @
     concat (map (\<lambda>(v, c). symdef_deps v KVis @ edeps K c) (c_defaults (k_choice K c)))"
| "rdeps K (KCAsg c) = KCVis c # ctdeps K c"

text \<open>The keys that are read in any case.\<close>

fun must :: "kconfig \<Rightarrow> vkey \<Rightarrow> vkey list" where
  "must K (KVis s) = []"
| "must K (KTri s) = (if nmy_tri s \<noteq> None \<or> \<not> bool_tristate (otype K s) then [] else [KVis s])"
| "must K (KStr s) =
     (if bool_tristate (otype K s) then [KTri s] else if otype K s = UNKNOWN then [] else [KVis s])"
| "must K (KAsg s) = (if bool_tristate (otype K s) then [KVis s] else [])"
| "must K (KCVis c) = []"
| "must K (KCSel c) = [KCVis c]"
| "must K (KCAsg c) = [KCVis c]"

lemma must_rdeps: "set (must K k) \<subseteq> set (rdeps K k)"
  by (cases k) (auto simp: cdeps_def)

text \<open>
  The keys that can make a difference: nothing but the visibility matters for a symbol that
  is never visible.
\<close>

definition promptless :: "kconfig \<Rightarrow> vkey \<Rightarrow> bool" where
  "promptless K k = (case k of
     KVis s \<Rightarrow> prompt_conds K (s_nodes (k_sym K s)) = [] \<and> s_choice (k_sym K s) = None
   | KAsg s \<Rightarrow> prompt_conds K (s_nodes (k_sym K s)) = [] \<and> s_choice (k_sym K s) = None
   | _ \<Rightarrow> False)"

definition vdeps :: "kconfig \<Rightarrow> vkey \<Rightarrow> vkey list" where
  "vdeps K k = (if promptless K k then must K k else rdeps K k)"

lemma must_vdeps: "set (must K k) \<subseteq> set (vdeps K k)"
  by (simp add: vdeps_def must_rdeps)

lemma vdeps_rdeps: "set (vdeps K k) \<subseteq> set (rdeps K k)"
  by (simp add: vdeps_def must_rdeps)

text \<open>The keys read only to format the warning about unsatisfied dependencies of a select.\<close>

definition select_deps :: "kconfig \<Rightarrow> expr \<Rightarrow> vkey list" where
  "select_deps K e = (case split_expr e OpAND of
     Item (Sym a) # _ \<Rightarrow> KStr a # edeps K (s_direct_dep (k_sym K a)) | _ \<Rightarrow> [])"

fun wdeps :: "kconfig \<Rightarrow> vkey \<Rightarrow> vkey list" where
  "wdeps K (KTri s) =
     (if nmy_tri s = None \<and> bool_tristate (otype K s) \<and> s_choice (k_sym K s) = None
      then concat (map (select_deps K) (split_expr (s_rev_dep (k_sym K s)) OpOR)) else [])"
| "wdeps K _ = []"

section \<open>Well-formed configurations and assignments\<close>

definition is_sym_expr :: "expr \<Rightarrow> bool" where
  "is_sym_expr e = (case e of Item (Sym _) \<Rightarrow> True | _ \<Rightarrow> False)"

text \<open>
  What parsing guarantees (\<open>_check_sym_sanity\<close> and \<open>_check_choice_sanity\<close> raise otherwise;
  \<open>_add_props_to_sym\<close> builds reverse dependencies as \<open>OR\<close>s of selecting symbols \<open>AND\<close>ed
  with conditions; \<open>_finalize_choice\<close> registers choice symbols).
\<close>

definition wf_kconfig :: "kconfig \<Rightarrow> bool" where
  "wf_kconfig K =
     ((\<forall>s. \<not> bool_tristate (otype K s) \<and> otype K s \<noteq> UNKNOWN \<longrightarrow>
         (\<forall>(v, c) \<in> set (s_defaults (k_sym K s)). is_sym_expr v)) \<and>
      (\<forall>c. \<forall>(v, e) \<in> set (c_defaults (k_choice K c)). is_sym_expr v) \<and>
      (\<forall>s. \<forall>e \<in> set (split_expr (s_rev_dep (k_sym K s)) OpOR).
         \<exists>a r. split_expr e OpAND = Item (Sym a) # r) \<and>
      (\<forall>s c. s_choice (k_sym K s) = Some c \<longrightarrow> s \<in> set (c_syms (k_choice K c))) \<and>
      (\<forall>s v. nmy_tri s = Some v \<longrightarrow> otype K s = TRISTATE))"

text \<open>A value a symbol can have been assigned, given its type (the check of \<open>set_value\<close>).\<close>

fun valid_value :: "stype \<Rightarrow> pyval \<Rightarrow> bool" where
  "valid_value BOOL (PInt n) = (n = 2 \<or> n = 0)"
| "valid_value TRISTATE (PInt n) = (n \<le> 2)"
| "valid_value STRING (PStr x) = True"
| "valid_value INT_T (PStr x) = is_base_n x 10"
| "valid_value HEX (PStr x) = (case py_int 16 x of Some i \<Rightarrow> i \<ge> 0 | None \<Rightarrow> False)"
| "valid_value _ _ = False"

text \<open>A mode a choice can have been assigned (the check of \<open>Choice.set_value\<close>).\<close>

fun choice_valid :: "stype \<Rightarrow> pyval \<Rightarrow> bool" where
  "choice_valid BOOL (PInt n) = (n = 2 \<or> n = 0)"
| "choice_valid TRISTATE (PInt n) = (n \<le> 2)"
| "choice_valid _ _ = False"

definition wf_users :: "kconfig \<Rightarrow> users \<Rightarrow> bool" where
  "wf_users K u =
     ((\<forall>s v. u_sym u s = Some v \<longrightarrow> valid_value (otype K s) v) \<and>
      (\<forall>c v. u_cho u c = Some v \<longrightarrow> choice_valid (c_orig_type (k_choice K c)) (PInt v)) \<and>
      (\<forall>c s. u_sel u c = Some s \<longrightarrow> s \<in> set (c_syms (k_choice K c))))"

lemma wf_usersD:
  assumes "wf_users K u"
  shows "u_sym u s = Some v \<Longrightarrow> valid_value (otype K s) v"
    and "u_cho u c = Some n \<Longrightarrow> choice_valid (c_orig_type (k_choice K c)) (PInt n)"
    and "u_sel u c = Some s \<Longrightarrow> s \<in> set (c_syms (k_choice K c))"
  using assms by (auto simp: wf_users_def)

section \<open>No symbol depends on itself\<close>

text \<open>
  Symbols that do not depend on themselves: a rank that decreases from every key to the
  keys its calculation can read. \<open>_check_dep_loop_sym\<close> looks for violations.
\<close>

definition ranked :: "kconfig \<Rightarrow> (vkey \<Rightarrow> nat) \<Rightarrow> bool" where
  "ranked K rk = (\<forall>k. \<forall>k' \<in> set (rdeps K k @ wdeps K k). rk k' < rk k)"

lemma rankedD: "ranked K rk \<Longrightarrow> k' \<in> set (rdeps K k) \<or> k' \<in> set (wdeps K k) \<Longrightarrow> rk k' < rk k"
  by (auto simp: ranked_def)

section \<open>The value of a key depends on the keys its equation reads\<close>

text \<open>
  Two valuations, each with its user assignments, agree on some keys. The mode the user gave
  a choice counts as part of the key of the choice's visibility, because the two are always
  read together.
\<close>

definition same_on :: "users \<Rightarrow> users \<Rightarrow> vkey list \<Rightarrow> valuation \<Rightarrow> valuation \<Rightarrow> bool" where
  "same_on u v ks \<sigma> \<tau> = (\<forall>k \<in> set ks. \<sigma> k = \<tau> k \<and> (\<forall>c. k = KCVis c \<longrightarrow> u_cho u c = u_cho v c))"

lemma same_on_append [simp]: "same_on u v (xs @ ys) \<sigma> \<tau> \<longleftrightarrow> same_on u v xs \<sigma> \<tau> \<and> same_on u v ys \<sigma> \<tau>"
  and same_on_Cons [simp]: "same_on u v (k # ys) \<sigma> \<tau> \<longleftrightarrow>
    (\<sigma> k = \<tau> k \<and> (\<forall>c. k = KCVis c \<longrightarrow> u_cho u c = u_cho v c)) \<and> same_on u v ys \<sigma> \<tau>"
  and same_on_Nil [simp]: "same_on u v [] \<sigma> \<tau>"
  by (auto simp: same_on_def)

lemma same_on_concat: "same_on u v (concat (map f xs)) \<sigma> \<tau> \<Longrightarrow> x \<in> set xs \<Longrightarrow> same_on u v (f x) \<sigma> \<tau>"
  by (auto simp: same_on_def)

lemma same_on_map: "same_on u v (map f xs) \<sigma> \<tau> \<Longrightarrow> x \<in> set xs \<Longrightarrow> \<sigma> (f x) = \<tau> (f x)"
  by (auto simp: same_on_def)

lemma rcong [dep_cong]:
  "\<sigma> (KVis s) = \<tau> (KVis s) \<Longrightarrow> rvis K \<sigma> s = rvis K \<tau> s"
  "\<sigma> (KTri s) = \<tau> (KTri s) \<Longrightarrow> rtri \<sigma> s = rtri \<tau> s"
  "\<sigma> (KStr s) = \<tau> (KStr s) \<Longrightarrow> rstr \<sigma> s = rstr \<tau> s"
  "\<sigma> (KCVis c) = \<tau> (KCVis c) \<Longrightarrow> rcvis \<sigma> c = rcvis \<tau> c"
  "\<sigma> (KCSel c) = \<tau> (KCSel c) \<Longrightarrow> rsel \<sigma> c = rsel \<tau> c"
  by (simp_all add: rvis_def rtri_def rstr_def rcvis_def rsel_def split: option.split)

lemma ctype_cong [dep_cong]: "same_on u v (ctdeps K c) \<sigma> \<tau> \<Longrightarrow> ctype_spec K \<sigma> c = ctype_spec K \<tau> c"
  using rcong(2) [of \<sigma> modules \<tau>] by (simp add: ctype_spec_def ctdeps_def split: if_splits)

lemma ctri_cong [dep_cong]: "same_on u v (cdeps K c) \<sigma> \<tau> \<Longrightarrow> ctri_spec K u \<sigma> c = ctri_spec K v \<tau> c"
  using rcong(4) [of \<sigma> c \<tau>] ctype_cong [of u v K c \<sigma> \<tau>] by (simp add: ctri_spec_def cdeps_def)

lemma stype_cong [dep_cong]: "same_on u v (tdeps K s) \<sigma> \<tau> \<Longrightarrow> stype_spec K u \<sigma> s = stype_spec K v \<tau> s"
  using rcong(2) [of \<sigma> modules \<tau>] ctri_cong [of u v K _ \<sigma> \<tau>]
  by (cases "s_choice (k_sym K s)") (auto simp: stype_spec_def tdeps_def chdeps_def)

lemma ev_cong [dep_cong]: "same_on u v (edeps K e) \<sigma> \<tau> \<Longrightarrow> ev K u \<sigma> e = ev K v \<tau> e"
proof (induction e)
  case (Item x)
  then show ?case
    using rcong(2) [of \<sigma> _ \<tau>] ctri_cong [of u v K _ \<sigma> \<tau>] by (cases x) (simp_all add: itri_def)
next
  case (Rel r a b)
  then have "rel_comp (\<lambda>s. otype K s) (itri K u \<sigma>) (rstr \<sigma>) a b =
      rel_comp (\<lambda>s. otype K s) (itri K v \<tau>) (rstr \<tau>) a b"
    by (intro rel_comp_cong) (auto simp: itri_def intro: rcong)
  then show ?case by simp
qed simp_all

lemma prompts_cong [dep_cong]: "same_on u v (pdeps K ns) \<sigma> \<tau> \<Longrightarrow> prompts_spec K u \<sigma> ns = prompts_spec K v \<tau> ns"
  unfolding prompts_spec_def pdeps_def
  by (rule arg_cong [where f = "\<lambda>xs. fold max xs 0"], rule map_cong [OF refl])
    (blast intro: ev_cong same_on_concat)

lemma tri_default_cong [dep_cong]:
  assumes "same_on u v (concat (map (\<lambda>(v, c). edeps K v @ edeps K c) (s_defaults (k_sym K s)))) \<sigma> \<tau>"
  shows "tri_default_spec K u \<sigma> s = tri_default_spec K v \<tau> s"
  unfolding tri_default_spec_def
  by (rule firstp_cong) (auto dest!: same_on_concat [OF assms] simp: ev_cong [of u v K _ \<sigma> \<tau>])

lemma range_cong [dep_cong]:
  assumes "same_on u v (concat (map (\<lambda>(l, h, c). [KStr l, KStr h] @ edeps K c) (s_ranges (k_sym K s)))) \<sigma> \<tau>"
  shows "range_spec K u \<sigma> s = range_spec K v \<tau> s"
  unfolding range_spec_def Let_def
  by (rule firstp_cong)
    (auto dest!: same_on_concat [OF assms] simp: ev_cong [of u v K _ \<sigma> \<tau>] rcong [of \<sigma> _ \<tau>])

lemma str_default_cong [dep_cong]:
  assumes "same_on u v (concat (map (\<lambda>(v, c). symdef_deps v KStr @ edeps K c) (s_defaults (k_sym K s)))) \<sigma> \<tau>"
  shows "str_default_spec K u \<sigma> s = str_default_spec K v \<tau> s"
  unfolding str_default_spec_def
  by (rule firstp_cong) (auto dest!: same_on_concat [OF assms] simp: symdef_deps_def
      ev_cong [of u v K _ \<sigma> \<tau>] rcong [of \<sigma> _ \<tau>] split: expr.split item.split)

lemma sel_default_cong [dep_cong]:
  assumes "same_on u v (concat (map (\<lambda>(v, c). symdef_deps v KVis @ edeps K c) (c_defaults (k_choice K c)))) \<sigma> \<tau>"
  shows "sel_default_spec K u \<sigma> c = sel_default_spec K v \<tau> c"
  unfolding sel_default_spec_def
  by (rule firstp_cong) (auto dest!: same_on_concat [OF assms] simp: symdef_deps_def
      ev_cong [of u v K _ \<sigma> \<tau>] rcong [of \<sigma> _ \<tau>] split: expr.splits item.splits)

lemma sel_cong [dep_cong]:
  assumes "wf_users K u" and "u_sel u c = u_sel v c" and "same_on u v (rdeps K (KCSel c)) \<sigma> \<tau>"
  shows "sel_spec K u \<sigma> c = sel_spec K v \<tau> c"
proof -
  have vis: "rvis K \<sigma> s = rvis K \<tau> s" if "s \<in> set (c_syms (k_choice K c))" for s
    using assms(3) that by (auto intro: rcong same_on_map)
  have "firstp (\<lambda>s. if rvis K \<sigma> s \<noteq> 0 then Some s else None) (c_syms (k_choice K c)) =
      firstp (\<lambda>s. if rvis K \<tau> s \<noteq> 0 then Some s else None) (c_syms (k_choice K c))"
    by (rule firstp_cong) (simp add: vis)
  moreover have "sel_default_spec K u \<sigma> c = sel_default_spec K v \<tau> c"
    "ctri_spec K u \<sigma> c = ctri_spec K v \<tau> c"
    using assms(3) by (auto intro: dep_cong)
  ultimately show ?thesis
    using wf_usersD(3) [OF assms(1)] vis
    by (auto simp: sel_spec_def sel_from_defaults_spec_def assms(2) [symmetric] split: option.split)
qed

text \<open>A symbol's own user value matters only if it has a prompt.\<close>

definition same_own :: "kconfig \<Rightarrow> users \<Rightarrow> users \<Rightarrow> symref \<Rightarrow> bool" where
  "same_own K u v s = (u_sym u s = u_sym v s \<or> prompt_conds K (s_nodes (k_sym K s)) = [])"

lemma tri_base_own:
  "same_own K u v s \<Longrightarrow> tri_default_spec K u \<sigma> s = tri_default_spec K v \<tau> s \<Longrightarrow>
   ev K u \<sigma> (s_weak_rev_dep (k_sym K s)) = ev K v \<tau> (s_weak_rev_dep (k_sym K s)) \<Longrightarrow>
   ev K u \<sigma> (s_direct_dep (k_sym K s)) = ev K v \<tau> (s_direct_dep (k_sym K s)) \<Longrightarrow>
   tri_base_spec K u \<sigma> s (rvis K \<tau> s) = tri_base_spec K v \<tau> s (rvis K \<tau> s)"
  by (auto simp: same_own_def tri_base_spec_def rvis_def)

lemma tri_cong [dep_cong]:
  assumes "nmy_tri s = None" "bool_tristate (otype K s)" "same_own K u v s"
    and s: "same_on u v (rdeps K (KTri s)) \<sigma> \<tau>"
  shows "tri_spec K u \<sigma> s = tri_spec K v \<tau> s"
proof (cases "s_choice (k_sym K s)")
  case None
  have *: "rvis K \<sigma> s = rvis K \<tau> s" "tri_default_spec K u \<sigma> s = tri_default_spec K v \<tau> s"
    "stype_spec K u \<sigma> s = stype_spec K v \<tau> s"
    "ev K u \<sigma> (s_rev_dep (k_sym K s)) = ev K v \<tau> (s_rev_dep (k_sym K s))"
    "ev K u \<sigma> (s_weak_rev_dep (k_sym K s)) = ev K v \<tau> (s_weak_rev_dep (k_sym K s))"
    "ev K u \<sigma> (s_direct_dep (k_sym K s)) = ev K v \<tau> (s_direct_dep (k_sym K s))"
    using s assms None by (auto intro: dep_cong)
  show ?thesis
    by (simp only: tri_spec_def None option.case tri_reverse_spec_def tri_promote_spec_def Let_def
        tri_base_own [OF assms(3) *(2,5,6)] *)
next
  case (Some c)
  have *: "rvis K \<sigma> s = rvis K \<tau> s" "rsel \<sigma> c = rsel \<tau> c"
    using s assms Some by (auto intro: dep_cong)
  have "rvis K \<tau> s \<noteq> 0 \<Longrightarrow> u_sym u s = u_sym v s" using assms(3) by (auto simp: same_own_def rvis_def)
  then show ?thesis by (auto simp: tri_spec_def Some * Let_def)
qed

lemma vis_cong [dep_cong]:
  assumes "same_on u v (rdeps K (KVis s)) \<sigma> \<tau>"
  shows "vis_spec K u \<sigma> s = vis_spec K v \<tau> s"
proof -
  have *: "prompts_spec K u \<sigma> (s_nodes (k_sym K s)) = prompts_spec K v \<tau> (s_nodes (k_sym K s))"
    "stype_spec K u \<sigma> s = stype_spec K v \<tau> s"
    using assms by (auto intro: dep_cong)
  have "ctri_spec K u \<sigma> c = ctri_spec K v \<tau> c" if "s_choice (k_sym K s) = Some c" for c
    using assms that by (auto intro: dep_cong simp: chdeps_def)
  with * show ?thesis
    by (cases "s_choice (k_sym K s)") (simp_all only: vis_spec_def option.case Let_def)
qed

lemma str_cong [dep_cong]:
  assumes "\<not> bool_tristate (otype K s)" "otype K s \<noteq> UNKNOWN" "same_own K u v s"
    and s: "same_on u v (rdeps K (KStr s)) \<sigma> \<tau>"
  shows "str_spec K u \<sigma> s = str_spec K v \<tau> s"
proof -
  have *: "rvis K \<sigma> s = rvis K \<tau> s" "str_default_spec K u \<sigma> s = str_default_spec K v \<tau> s"
    "range_spec K u \<sigma> s = range_spec K v \<tau> s"
    using s assms by (auto intro: dep_cong)
  show ?thesis
  proof (cases "u_sym u s = u_sym v s")
    case True
    then show ?thesis
      by (simp only: str_spec_def num_spec_def string_spec_def num_defaults_spec_def *)
  next
    case False
    then have "rvis K \<tau> s = 0" using assms(3) by (simp add: same_own_def rvis_def)
    with * show ?thesis
      by (simp add: str_spec_def num_spec_def string_spec_def num_defaults_spec_def
          split: option.split pyval.split)
  qed
qed

lemma asg_cong [dep_cong]:
  assumes "same_on u v (rdeps K (KAsg s)) \<sigma> \<tau>"
  shows "asg_spec K u \<sigma> s = asg_spec K v \<tau> s"
proof (cases "bool_tristate (otype K s)")
  case True
  have *: "rvis K \<sigma> s = rvis K \<tau> s" "stype_spec K u \<sigma> s = stype_spec K v \<tau> s"
    "ev K u \<sigma> (s_rev_dep (k_sym K s)) = ev K v \<tau> (s_rev_dep (k_sym K s))"
    "ev K u \<sigma> (s_weak_rev_dep (k_sym K s)) = ev K v \<tau> (s_weak_rev_dep (k_sym K s))"
    using assms True by (auto intro: dep_cong)
  show ?thesis by (simp only: asg_spec_def *)
next
  case False
  then show ?thesis by (simp add: asg_spec_def)
qed

lemma cvis_cong [dep_cong]: "same_on u v (rdeps K (KCVis c)) \<sigma> \<tau> \<Longrightarrow> cvis_spec K u \<sigma> c = cvis_spec K v \<tau> c"
  by (simp add: cvis_spec_def prompts_cong [of u v K _ \<sigma> \<tau>] ctype_cong [of u v K _ \<sigma> \<tau>])

lemma casg_cong [dep_cong]: "same_on u v (rdeps K (KCAsg c)) \<sigma> \<tau> \<Longrightarrow> casg_spec K \<sigma> c = casg_spec K \<tau> c"
  by (simp add: casg_spec_def rcong(4) [of \<sigma> _ \<tau>] ctype_cong [of u v K _ \<sigma> \<tau>])

text \<open>The user assignments a key depends on beside those that \<open>same_on\<close> covers.\<close>

fun same_user :: "kconfig \<Rightarrow> users \<Rightarrow> users \<Rightarrow> vkey \<Rightarrow> bool" where
  "same_user K u v (KTri s) = (nmy_tri s = None \<and> bool_tristate (otype K s) \<longrightarrow> same_own K u v s)"
| "same_user K u v (KStr s) = (\<not> bool_tristate (otype K s) \<and> otype K s \<noteq> UNKNOWN \<longrightarrow> same_own K u v s)"
| "same_user K u v (KCSel c) = (u_sel u c = u_sel v c)"
| "same_user K u v _ = True"

lemma spec_users_cong:
  assumes "wf_users K u" and "same_user K u v k" and s: "same_on u v (vdeps K k) \<sigma> \<tau>"
  shows "spec K u \<sigma> k = spec K v \<tau> k"
proof (cases "promptless K k")
  case True
  then show ?thesis
    by (auto simp: promptless_def vis_spec_promptless asg_spec_def rvis_def Let_def split: vkey.splits)
next
  case False
  with s have s: "same_on u v (rdeps K k) \<sigma> \<tau>" by (simp add: vdeps_def)
  show ?thesis
  proof (cases k)
    case (KTri x)
    then show ?thesis
      using s assms(2) tri_cong [of x K u v \<sigma> \<tau>] by (cases "nmy_tri x") auto
  next
    case (KStr x)
    then show ?thesis
      using s assms(2) str_cong [of K x u v \<sigma> \<tau>] by (auto simp: rcong(2) [of \<sigma> _ \<tau>])
  next
    case (KCSel c)
    then show ?thesis using s assms(2) sel_cong [OF assms(1)] by simp
  qed (use s in \<open>simp_all only: spec.simps vis_cong [of u v K _ \<sigma> \<tau>] asg_cong [of u v K _ \<sigma> \<tau>]
        cvis_cong [of u v K _ \<sigma> \<tau>] casg_cong [of u v K _ \<sigma> \<tau>]\<close>)
qed

lemma same_user_refl [simp]: "same_user K u u k"
  by (cases k) (simp_all add: same_own_def)

lemma spec_vcong:
  assumes "wf_users K u" and "\<And>k'. k' \<in> set (vdeps K k) \<Longrightarrow> \<sigma> k' = \<tau> k'"
  shows "spec K u \<sigma> k = spec K u \<tau> k"
  using assms by (intro spec_users_cong) (auto simp: same_on_def)

lemma spec_cong:
  assumes "wf_users K u" and "\<And>k'. k' \<in> set (rdeps K k) \<Longrightarrow> \<sigma> k' = \<tau> k'"
  shows "spec K u \<sigma> k = spec K u \<tau> k"
  using assms vdeps_rdeps by (intro spec_vcong) blast+

section \<open>Existence and uniqueness of the valuation\<close>

text \<open>The equations solved by iteration from an arbitrary start.\<close>

primrec rounds :: "kconfig \<Rightarrow> users \<Rightarrow> nat \<Rightarrow> valuation" where
  "rounds K u 0 = (\<lambda>_. VNat 0)"
| "rounds K u (Suc n) = spec K u (rounds K u n)"

definition solution :: "kconfig \<Rightarrow> users \<Rightarrow> (vkey \<Rightarrow> nat) \<Rightarrow> valuation" where
  "solution K u rk = (\<lambda>k. rounds K u (Suc (rk k)) k)"

lemma rounds_stable:
  assumes "ranked K rk" and "wf_users K u"
  shows "rk k < n \<Longrightarrow> rounds K u n k = solution K u rk k"
proof (induction "rk k" arbitrary: k n rule: less_induct)
  case less
  from less.prems obtain m where n: "n = Suc m" by (cases n) auto
  have "spec K u (rounds K u m) k = spec K u (rounds K u (rk k)) k"
  proof (rule spec_cong [OF assms(2)])
    fix k' assume "k' \<in> set (rdeps K k)"
    then have "rk k' < rk k" using rankedD [OF assms(1)] by blast
    then show "rounds K u m k' = rounds K u (rk k) k'"
      using less n by simp
  qed
  then show ?case by (simp add: n solution_def)
qed

lemma solution_is_valuation:
  assumes "ranked K rk" and "wf_users K u"
  shows "is_valuation K u (solution K u rk)"
  unfolding is_valuation_def
proof
  fix k
  have "spec K u (rounds K u (rk k)) k = spec K u (solution K u rk) k"
    by (rule spec_cong [OF assms(2)]) (simp add: rounds_stable [OF assms] rankedD [OF assms(1)])
  then show "solution K u rk k = spec K u (solution K u rk) k" by (simp add: solution_def)
qed

lemma valuation_unique:
  assumes "ranked K rk" and "wf_users K u" and "is_valuation K u \<rho>" and "is_valuation K u \<rho>'"
  shows "\<rho> = \<rho>'"
proof
  show "\<rho> k = \<rho>' k" for k
  proof (induction "rk k" arbitrary: k rule: less_induct)
    case less
    have "spec K u \<rho> k = spec K u \<rho>' k"
      by (rule spec_cong [OF assms(2)]) (simp add: less rankedD [OF assms(1)])
    then show ?case
      using assms(3,4) by (simp add: is_valuation_def)
  qed
qed

end
