(* ===== verification/Refine.thy ===== *)
theory Refine
  imports Valuation
begin

text \<open>
  The cached calculation of \<open>Eval\<close> implements the equations of \<open>Valuation\<close>: started on a
  coherent table, every accessor returns the value the valuation gives its key, and leaves
  a coherent table behind. The proofs follow the bodies of \<open>Eval\<close> with the rules of \<open>Memo\<close>.
\<close>

section \<open>The cached calculation computes the equations\<close>

abbreviation cps :: "kconfig \<Rightarrow> users \<Rightarrow> valuation \<Rightarrow> 'a ev \<Rightarrow> (valuation \<Rightarrow> 'a) \<Rightarrow> bool" where
  "cps K u \<rho> \<equiv> computes (cached K) (must K) env (spec K u) \<rho> (u, True)"

abbreviation chs :: "kconfig \<Rightarrow> users \<Rightarrow> valuation \<Rightarrow> 'a ev \<Rightarrow> vkey \<Rightarrow> bool" where
  "chs K u \<rho> \<equiv> caches (cached K) (must K) env (spec K u) \<rho> (u, True)"

text \<open>The accessors \<open>A\<close> compute the keys in \<open>D\<close>.\<close>

definition reads_ok :: "kconfig \<Rightarrow> users \<Rightarrow> valuation \<Rightarrow> acc \<Rightarrow> vkey set \<Rightarrow> bool" where
  "reads_ok K u \<rho> A D =
     ((\<forall>s. KVis s \<in> D \<longrightarrow> cps K u \<rho> (a_vis A s) (\<lambda>\<sigma>. rvis K \<sigma> s)) \<and>
      (\<forall>s. KTri s \<in> D \<longrightarrow> cps K u \<rho> (a_tri A s) (\<lambda>\<sigma>. rtri \<sigma> s)) \<and>
      (\<forall>s. KStr s \<in> D \<longrightarrow> cps K u \<rho> (a_str A s) (\<lambda>\<sigma>. rstr \<sigma> s)) \<and>
      (\<forall>c. KCVis c \<in> D \<longrightarrow> cps K u \<rho> (a_cvis A c) (\<lambda>\<sigma>. rcvis \<sigma> c)) \<and>
      (\<forall>c. KCSel c \<in> D \<longrightarrow> cps K u \<rho> (a_sel A c) (\<lambda>\<sigma>. rsel \<sigma> c)) \<and>
      (\<forall>s. KVis s \<in> D \<longrightarrow> chs K u \<rho> (a_vis A s) (KVis s)) \<and>
      (\<forall>s. KTri s \<in> D \<longrightarrow> chs K u \<rho> (a_tri A s) (KTri s)) \<and>
      (\<forall>c. KCVis c \<in> D \<longrightarrow> chs K u \<rho> (a_cvis A c) (KCVis c)))"

lemma reads_okD:
  assumes "reads_ok K u \<rho> A D"
  shows "KVis s \<in> D \<Longrightarrow> cps K u \<rho> (a_vis A s) (\<lambda>\<sigma>. rvis K \<sigma> s)"
    and "KTri s \<in> D \<Longrightarrow> cps K u \<rho> (a_tri A s) (\<lambda>\<sigma>. rtri \<sigma> s)"
    and "KStr s \<in> D \<Longrightarrow> cps K u \<rho> (a_str A s) (\<lambda>\<sigma>. rstr \<sigma> s)"
    and "KCVis c \<in> D \<Longrightarrow> cps K u \<rho> (a_cvis A c) (\<lambda>\<sigma>. rcvis \<sigma> c)"
    and "KCSel c \<in> D \<Longrightarrow> cps K u \<rho> (a_sel A c) (\<lambda>\<sigma>. rsel \<sigma> c)"
    and "KVis s \<in> D \<Longrightarrow> chs K u \<rho> (a_vis A s) (KVis s)"
    and "KTri s \<in> D \<Longrightarrow> chs K u \<rho> (a_tri A s) (KTri s)"
    and "KCVis c \<in> D \<Longrightarrow> chs K u \<rho> (a_cvis A c) (KCVis c)"
  using assms by (simp_all add: reads_ok_def)

lemma cps_bind:
  assumes "computes lk mu us F \<rho> u m f" and "\<And>x. computes lk mu us F \<rho> u (g x) (h x)"
    and "\<And>\<sigma>. h (f \<sigma>) \<sigma> = r \<sigma>"
  shows "computes lk mu us F \<rho> u (bind m g) r"
proof -
  have "computes lk mu us F \<rho> u (bind m g) (\<lambda>\<sigma>. h (f \<sigma>) \<sigma>)"
    by (rule computes_bind) (use assms in auto)
  then show ?thesis by (simp add: assms(3))
qed

lemma cps_gets:
  assumes "\<And>d. usr d = u \<Longrightarrow> q d = x" and "cps K u \<rho> (g x) r"
  shows "cps K u \<rho> (bind (gets q) g) r"
proof -
  have "cps K u \<rho> (gets q) (\<lambda>_. x)"
    by (rule ms.computes_gets) (simp add: assms(1) env_def)
  from computes_bind [OF this, of g "\<lambda>_. r"] assms(2) show ?thesis by simp
qed

text \<open>\<open>m\<close> computes \<open>r\<close>, and does so by first running \<open>a\<close>.\<close>

definition starts :: "kconfig \<Rightarrow> users \<Rightarrow> valuation \<Rightarrow> 'b ev \<Rightarrow> 'a ev \<Rightarrow> (valuation \<Rightarrow> 'a) \<Rightarrow> bool" where
  "starts K u \<rho> a m r = (\<exists>f g h. m = bind a g \<and> cps K u \<rho> a f \<and> (\<forall>x. cps K u \<rho> (g x) (h x)) \<and>
     (\<forall>\<sigma>. h (f \<sigma>) \<sigma> = r \<sigma>))"

lemma startsI:
  assumes "cps K u \<rho> a f" and "\<And>x. cps K u \<rho> (g x) (h x)" and "\<And>\<sigma>. h (f \<sigma>) \<sigma> = r \<sigma>"
  shows "starts K u \<rho> a (bind a g) r"
  using assms unfolding starts_def by blast

lemma starts_cps: "starts K u \<rho> a m r \<Longrightarrow> cps K u \<rho> m r"
  unfolding starts_def by (blast intro: cps_bind)

lemma starts_chs: "starts K u \<rho> a m r \<Longrightarrow> chs K u \<rho> a k \<Longrightarrow> chs K u \<rho> m k"
  unfolding starts_def by (blast intro: caches_bind)

lemma starts_bind:
  assumes "starts K u \<rho> a m f" and "\<And>x. cps K u \<rho> (g x) (h x)" and "\<And>\<sigma>. h (f \<sigma>) \<sigma> = r \<sigma>"
  shows "starts K u \<rho> a (bind m g) r"
proof -
  obtain f' g' h' where *: "m = bind a g'" "cps K u \<rho> a f'" "\<And>x. cps K u \<rho> (g' x) (h' x)"
    "\<And>\<sigma>. h' (f' \<sigma>) \<sigma> = f \<sigma>"
    using assms(1) unfolding starts_def by blast
  show ?thesis
    unfolding *(1) bind_assoc
    by (rule startsI [OF *(2) cps_bind [OF *(3) assms(2) refl]]) (simp add: *(4) assms(3))
qed

lemma cps_eq: "computes lk mu us F \<rho> u m f \<Longrightarrow> (\<And>\<sigma>. f \<sigma> = r \<sigma>) \<Longrightarrow> computes lk mu us F \<rho> u m r"
  by (subgoal_tac "f = r") auto

lemma cps_kwarn: "cps K u \<rho> (kwarn w) (\<lambda>_. ())"
proof -
  have "cached K (if warn d then d\<lparr>warnings := warnings d @ [w]\<rparr> else d) = cached K d" for d
  proof (rule ext)
    show "cached K (if warn d then d\<lparr>warnings := warnings d @ [w]\<rparr> else d) k = cached K d k" for k
      by (cases k) (simp_all split: option.split)
  qed
  then show ?thesis
    unfolding kwarn_def by (intro ms.computes_modify) (auto simp: env_def usr_def consts_ok_def)
qed

lemmas cps_ret = computes_ret [where lk = "cached K" and mu = "must K" and usr = env and F = "spec K u" for K u]

lemma usr_user_value: "usr d = u \<Longrightarrow> user_value d s = u_sym u s"
  and usr_ch_user_value: "usr d = u \<Longrightarrow> ch_user_value d c = u_cho u c"
  and usr_ch_user_selection: "usr d = u \<Longrightarrow> ch_user_selection d c = u_sel u c"
  by (auto simp: usr_def)

lemma cps_choice_type:
  assumes "reads_ok K u \<rho> A D" and "set (ctdeps K c) \<subseteq> D"
  shows "cps K u \<rho> (choice_type K A c) (\<lambda>\<sigma>. ctype_spec K \<sigma> c)"
proof (cases "c_orig_type (k_choice K c) = TRISTATE")
  case True
  with assms have "cps K u \<rho> (a_tri A modules) (\<lambda>\<sigma>. rtri \<sigma> modules)"
    by (intro reads_okD) (auto simp: ctdeps_def)
  then show ?thesis
    unfolding choice_type_def using True
    by (auto intro!: cps_bind computes_ret simp: ctype_spec_def)
next
  case False
  then show ?thesis
    by (auto simp: choice_type_def ctype_spec_def intro: cps_eq [OF computes_ret])
qed

lemma cps_choice_tri_value:
  assumes ro: "reads_ok K u \<rho> A D" and D: "set (cdeps K c) \<subseteq> D"
  shows "cps K u \<rho> (choice_tri_value K A c) (\<lambda>\<sigma>. ctri_spec K u \<sigma> c)"
proof -
  have 1: "cps K u \<rho> (a_cvis A c) (\<lambda>\<sigma>. rcvis \<sigma> c)"
    using D by (intro reads_okD [OF ro]) (auto simp: cdeps_def)
  have 2: "cps K u \<rho> (choice_type K A c) (\<lambda>\<sigma>. ctype_spec K \<sigma> c)"
    using D by (intro cps_choice_type [OF ro]) (auto simp: cdeps_def)
  show ?thesis
    unfolding choice_tri_value_def Let_def
    by (rule cps_gets [OF usr_ch_user_value], assumption,
        rule cps_bind [OF 1 computes_if [OF cps_bind [OF 2 computes_ret refl] computes_ret]])
      (auto simp: ctri_spec_def Let_def)
qed

lemma chs_choice_tri_value:
  assumes ro: "reads_ok K u \<rho> A D" and D: "set (cdeps K c) \<subseteq> D"
  shows "chs K u \<rho> (choice_tri_value K A c) (KCVis c)"
proof -
  have 1: "cps K u \<rho> (a_cvis A c) (\<lambda>\<sigma>. rcvis \<sigma> c)" and c: "chs K u \<rho> (a_cvis A c) (KCVis c)"
    using D by (auto intro: reads_okD [OF ro] simp: cdeps_def)
  have 2: "cps K u \<rho> (choice_type K A c) (\<lambda>\<sigma>. ctype_spec K \<sigma> c)"
    using D by (intro cps_choice_type [OF ro]) (auto simp: cdeps_def)
  have "cps K u \<rho> (gets (\<lambda>d. ch_user_value d c)) (\<lambda>_. u_cho u c)"
    by (rule ms.computes_gets) (simp add: env_def usr_ch_user_value)
  then show ?thesis
    unfolding choice_tri_value_def Let_def
    by (rule caches_bind_right)
      (rule caches_bind [OF c 1 computes_if [OF cps_bind [OF 2 computes_ret refl] computes_ret]])
qed

lemma cps_sym_type:
  assumes ro: "reads_ok K u \<rho> A D" and D: "set (tdeps K s) \<subseteq> D"
  shows "cps K u \<rho> (sym_type K A s) (\<lambda>\<sigma>. stype_spec K u \<sigma> s)"
proof (cases "otype K s = TRISTATE")
  case True
  with D have 1: "cps K u \<rho> (a_tri A modules) (\<lambda>\<sigma>. rtri \<sigma> modules)"
    by (intro reads_okD [OF ro]) (auto simp: tdeps_def)
  show ?thesis
  proof (cases "s_choice (k_sym K s)")
    case None
    with True show ?thesis
      unfolding sym_type_def Let_def
      by (auto intro!: cps_bind [OF 1 computes_ret] simp: stype_spec_def)
  next
    case (Some c)
    with D True have 2: "cps K u \<rho> (choice_tri_value K A c) (\<lambda>\<sigma>. ctri_spec K u \<sigma> c)"
      by (intro cps_choice_tri_value [OF ro]) (auto simp: tdeps_def chdeps_def)
    from Some True show ?thesis
      unfolding sym_type_def Let_def
      by (auto intro!: cps_bind [OF 2 computes_if [OF computes_ret cps_bind [OF 1 computes_ret refl]]]
          simp: stype_spec_def)
  qed
next
  case False
  then show ?thesis
    by (auto simp: sym_type_def stype_spec_def intro: cps_eq [OF computes_ret])
qed

lemma cps_strcmp_syms:
  assumes "cps K u \<rho> (a_str A a) (\<lambda>\<sigma>. rstr \<sigma> a)" and "cps K u \<rho> (a_str A b) (\<lambda>\<sigma>. rstr \<sigma> b)"
  shows "cps K u \<rho> (strcmp_syms A a b) (\<lambda>\<sigma>. strcmp (rstr \<sigma> a) (rstr \<sigma> b))"
  unfolding strcmp_syms_def
  by (rule cps_bind [OF assms(1) cps_bind [OF assms(2) computes_ret refl] refl])

lemma cps_sym_to_num:
  assumes "cps K u \<rho> (a_tri A s) (\<lambda>\<sigma>. rtri \<sigma> s)" and "cps K u \<rho> (a_str A s) (\<lambda>\<sigma>. rstr \<sigma> s)"
  shows "cps K u \<rho> (sym_to_num K A s) (\<lambda>\<sigma>. sym_num (\<lambda>s. otype K s) (itri K u \<sigma>) (rstr \<sigma>) s)"
  unfolding sym_to_num_def
  by (rule cps_eq, rule computes_if)
    (auto intro!: cps_bind [OF assms(1) computes_ret] cps_bind [OF assms(2) computes_ret]
      simp: sym_num_def itri_def)

lemma cps_rel:
  assumes ro: "reads_ok K u \<rho> A D" and D: "set (edeps K (Rel r a b)) \<subseteq> D"
  shows "cps K u \<rho> (expr_value K A (Rel r a b)) (\<lambda>\<sigma>. ev K u \<sigma> (Rel r a b))"
proof -
  note rd = reads_okD(2,3) [OF ro]
  from D have ta: "cps K u \<rho> (a_tri A a) (\<lambda>\<sigma>. rtri \<sigma> a)" and sa: "cps K u \<rho> (a_str A a) (\<lambda>\<sigma>. rstr \<sigma> a)"
    and tb: "cps K u \<rho> (a_tri A b) (\<lambda>\<sigma>. rtri \<sigma> b)" and sb: "cps K u \<rho> (a_str A b) (\<lambda>\<sigma>. rstr \<sigma> b)"
    by (auto intro: rd)
  note sc = cps_strcmp_syms [OF sa sb]
  note na = cps_sym_to_num [OF ta sa] and nb = cps_sym_to_num [OF tb sb]
  note inner = cps_bind [OF na computes_case_option [OF sc
    cps_bind [OF nb computes_case_option [OF sc computes_ret] refl]] refl]
  note cmp = computes_if [where b = "otype K a = STRING \<and> otype K b = STRING", OF sc inner]
  show ?thesis
    unfolding expr_value.simps
    by (rule cps_bind [OF cmp computes_ret]) (simp add: rel_comp_def cong: option.case_cong)
qed

lemma cps_expr_value:
  assumes ro: "reads_ok K u \<rho> A D"
  shows "set (edeps K e) \<subseteq> D \<Longrightarrow> cps K u \<rho> (expr_value K A e) (\<lambda>\<sigma>. ev K u \<sigma> e)"
proof (induction e)
  case (Item x)
  then show ?case
    by (cases x) (auto simp: itri_def intro: reads_okD [OF ro] cps_choice_tri_value [OF ro])
next
  case (AND a b)
  then have a: "cps K u \<rho> (expr_value K A a) (\<lambda>\<sigma>. ev K u \<sigma> a)"
    and b: "cps K u \<rho> (expr_value K A b) (\<lambda>\<sigma>. ev K u \<sigma> b)" by auto
  show ?case
    unfolding expr_value.simps
    by (rule cps_bind [OF a computes_if [OF computes_ret cps_bind [OF b computes_ret refl]]]) auto
next
  case (OR a b)
  then have a: "cps K u \<rho> (expr_value K A a) (\<lambda>\<sigma>. ev K u \<sigma> a)"
    and b: "cps K u \<rho> (expr_value K A b) (\<lambda>\<sigma>. ev K u \<sigma> b)" by auto
  show ?case
    unfolding expr_value.simps
    by (rule cps_bind [OF a computes_if [OF computes_ret cps_bind [OF b computes_ret refl]]])
      (simp add: iv.eval_le max_absorb1)
next
  case (NOT a)
  then have a: "cps K u \<rho> (expr_value K A a) (\<lambda>\<sigma>. ev K u \<sigma> a)" by simp
  show ?case
    unfolding expr_value.simps by (rule cps_bind [OF a computes_ret]) simp
next
  case (Rel r a b)
  then show ?case by (intro cps_rel [OF ro])
qed

lemma cps_prompts_value:
  assumes ro: "reads_ok K u \<rho> A D" and D: "set (pdeps K ns) \<subseteq> D"
  shows "cps K u \<rho> (prompts_value K A ns) (\<lambda>\<sigma>. prompts_spec K u \<sigma> ns)"
proof -
  have "cps K u \<rho> (bind (expr_value K A e) (\<lambda>v. ret (max vis v))) (\<lambda>\<sigma>. max (ev K u \<sigma> e) vis)"
    if "e \<in> set (prompt_conds K ns)" for e vis
    by (rule cps_bind [OF cps_expr_value [OF ro] computes_ret])
      (use that D in \<open>auto simp: pdeps_def max.commute\<close>)
  from computes_foldm [OF this] show ?thesis
    unfolding prompts_value_def prompts_spec_def by (rule cps_eq) (simp_all add: fold_map comp_def)
qed

lemma cps_promote:
  assumes "vis = 1 \<Longrightarrow> cps K u \<rho> m f"
  shows "cps K u \<rho> (if vis = 1 then bind m (\<lambda>t. ret (if t \<noteq> TRISTATE then 2 else vis)) else ret vis)
    (\<lambda>\<sigma>. if vis = 1 \<and> f \<sigma> \<noteq> TRISTATE then 2 else vis)"
  by (rule cps_eq, rule computes_if)
    (auto intro!: cps_bind [OF assms computes_ret refl] computes_ret)

lemma cps_choice_visibility:
  assumes ro: "reads_ok K u \<rho> A D" and D: "set (rdeps K (KCVis c)) \<subseteq> D"
  shows "cps K u \<rho> (choice_visibility K A c) (\<lambda>\<sigma>. cvis_spec K u \<sigma> c)"
proof -
  have p: "cps K u \<rho> (prompts_value K A (c_nodes (k_choice K c)))
      (\<lambda>\<sigma>. prompts_spec K u \<sigma> (c_nodes (k_choice K c)))"
    using D by (intro cps_prompts_value [OF ro]) auto
  have t: "cps K u \<rho> (choice_type K A c) (\<lambda>\<sigma>. ctype_spec K \<sigma> c)"
    using D by (intro cps_choice_type [OF ro]) auto
  show ?thesis
    unfolding choice_visibility_def
    by (rule cps_bind [OF p cps_promote [OF t]]) (simp add: cvis_spec_def Let_def)
qed

lemma cps_sym_visibility:
  assumes ro: "reads_ok K u \<rho> A D" and D: "set (rdeps K (KVis s)) \<subseteq> D"
  shows "cps K u \<rho> (sym_visibility K A s) (\<lambda>\<sigma>. vis_spec K u \<sigma> s)"
proof -
  have p: "cps K u \<rho> (prompts_value K A (s_nodes (k_sym K s)))
      (\<lambda>\<sigma>. prompts_spec K u \<sigma> (s_nodes (k_sym K s)))"
    using D by (intro cps_prompts_value [OF ro]) auto
  have "cps K u \<rho> (sym_type K A s) (\<lambda>\<sigma>. stype_spec K u \<sigma> s)"
    using D by (intro cps_sym_type [OF ro]) auto
  note promote = cps_promote [OF this]
  show ?thesis
  proof (cases "s_choice (k_sym K s)")
    case None
    then show ?thesis
      unfolding sym_visibility_def Let_def None option.case
      by (intro cps_bind [OF p promote]) (simp add: vis_spec_def Let_def None)
  next
    case (Some c)
    then have c: "cps K u \<rho> (choice_tri_value K A c) (\<lambda>\<sigma>. ctri_spec K u \<sigma> c)"
      using D by (intro cps_choice_tri_value [OF ro]) (auto simp: chdeps_def)
    note if0 = cps_bind [OF c computes_if [OF computes_ret promote] refl]
    show ?thesis
      unfolding sym_visibility_def Let_def Some option.case
      by (rule cps_bind [OF p computes_if [OF if0 computes_if [OF if0 promote]]])
        (simp add: vis_spec_def Let_def Some)
  qed
qed

lemma cps_seq:
  assumes "computes lk mu us F \<rho> u m f" and "computes lk mu us F \<rho> u g h"
  shows "computes lk mu us F \<rho> u (bind m (\<lambda>_. g)) h"
  by (rule cps_bind [OF assms refl])

lemma cps_seq':
  assumes "computes lk mu us F \<rho> u m f" and "\<And>x. computes lk mu us F \<rho> u (g x) h"
  shows "computes lk mu us F \<rho> u (bind m g) h"
  by (rule cps_bind [OF assms refl])

lemma split_expr_edeps: "x \<in> set (split_expr e op) \<Longrightarrow> set (edeps K x) \<subseteq> set (edeps K e)"
  by (induction e op rule: split_expr.induct) (auto split: if_splits)

lemma cps_warn_one_select:
  assumes ro: "reads_ok K u \<rho> A D" and wf: "split_expr select OpAND = Item (Sym a) # r"
    and D: "set (edeps K select) \<subseteq> D" "set (edeps K (s_direct_dep (k_sym K s))) \<subseteq> D"
      "set (select_deps K select) \<subseteq> D"
  shows "\<exists>f. cps K u \<rho> (warn_one_select K A s select msg) f"
proof -
  have 1: "cps K u \<rho> (expr_value K A select) (\<lambda>\<sigma>. ev K u \<sigma> select)"
    and 2: "cps K u \<rho> (expr_value K A (s_direct_dep (k_sym K s))) (\<lambda>\<sigma>. ev K u \<sigma> (s_direct_dep (k_sym K s)))"
    using D by (auto intro: cps_expr_value [OF ro])
  have 3: "cps K u \<rho> (a_str A a) (\<lambda>\<sigma>. rstr \<sigma> a)"
    and 4: "cps K u \<rho> (expr_value K A (s_direct_dep (k_sym K a))) (\<lambda>\<sigma>. ev K u \<sigma> (s_direct_dep (k_sym K a)))"
    using D(3) wf by (auto simp: select_deps_def intro: cps_expr_value [OF ro] reads_okD [OF ro])
  have 5: "cps K u \<rho> (case select of
              AND _ cond \<Rightarrow> bind (expr_value K A cond) (\<lambda>_. ret (msg @ [select]))
            | _ \<Rightarrow> ret (msg @ [select])) (\<lambda>_. msg @ [select])"
    using D(1)
    by (cases select) (auto intro!: computes_ret cps_seq [OF cps_expr_value [OF ro]])
  show ?thesis
    unfolding warn_one_select_def wf list.case expr.case item.case
    by (rule exI) (rule cps_bind [OF 1 cps_bind [OF 2 computes_if [OF computes_ret
          cps_seq [OF 3 cps_seq [OF 4 5]]] refl] refl])
qed

lemma cps_warn_select:
  assumes ro: "reads_ok K u \<rho> A D" and wf: "wf_kconfig K"
    and D: "set (edeps K (s_rev_dep (k_sym K s))) \<subseteq> D" "set (edeps K (s_direct_dep (k_sym K s))) \<subseteq> D"
      "set (concat (map (select_deps K) (split_expr (s_rev_dep (k_sym K s)) OpOR))) \<subseteq> D"
  shows "cps K u \<rho> (warn_select_unsatisfied_deps K A s) (\<lambda>_. ())"
proof -
  note ex = cps_expr_value [OF ro]
  have "\<exists>f. cps K u \<rho> (warn_one_select K A s e msg) f"
    if e: "e \<in> set (split_expr (s_rev_dep (k_sym K s)) OpOR)" for e msg
  proof -
    obtain a r where "split_expr e OpAND = Item (Sym a) # r"
      using wf e unfolding wf_kconfig_def by blast
    moreover have "set (edeps K e) \<subseteq> D"
      using D(1) split_expr_edeps [OF e] by blast
    ultimately show ?thesis
      using D e by (intro cps_warn_one_select [OF ro]) auto
  qed
  then obtain p where p: "cps K u \<rho> (warn_one_select K A s e msg) (p e msg)"
    if "e \<in> set (split_expr (s_rev_dep (k_sym K s)) OpOR)" for e msg
    by metis
  show ?thesis
    unfolding warn_select_unsatisfied_deps_def
    by (rule cps_bind [OF ex [OF D(2)] cps_bind [OF ex [OF D(1)]
          cps_bind [OF computes_foldm [OF p] cps_kwarn refl] refl] refl])
qed

lemma cps_tri_default:
  assumes ro: "reads_ok K u \<rho> A D"
    and D: "set (concat (map (\<lambda>(v, c). edeps K v @ edeps K c) (s_defaults (k_sym K s)))) \<subseteq> D"
  shows "cps K u \<rho> (tri_default K A s) (\<lambda>\<sigma>. tri_default_spec K u \<sigma> s)"
proof -
  have "cps K u \<rho> (bind (expr_value K A c) (\<lambda>dep. if dep \<noteq> 0
      then bind (expr_value K A v) (\<lambda>v. ret (Some (min v dep))) else ret None))
    (\<lambda>\<sigma>. if ev K u \<sigma> c \<noteq> 0 then Some (min (ev K u \<sigma> v) (ev K u \<sigma> c)) else None)"
    if "(v, c) \<in> set (s_defaults (k_sym K s))" for v c
    by (rule cps_bind [OF cps_expr_value [OF ro] computes_if
          [OF cps_bind [OF cps_expr_value [OF ro] computes_ret refl] computes_ret] refl])
      (use that D in auto)
  then show ?thesis
    unfolding tri_default_def tri_default_spec_def
    by (intro cps_eq [OF computes_firstm [where p = "\<lambda>x \<sigma>. case x of (v, c) \<Rightarrow>
          if ev K u \<sigma> c \<noteq> 0 then Some (min (ev K u \<sigma> v) (ev K u \<sigma> c)) else None"]]) auto
qed

lemma valid_tri: "valid_value t v \<Longrightarrow> bool_tristate t \<Longrightarrow> \<exists>n. v = PInt n"
  by (cases "(t, v)" rule: valid_value.cases) auto

lemma valid_str: "valid_value t v \<Longrightarrow> \<not> bool_tristate t \<Longrightarrow> \<exists>x. v = PStr x"
  by (cases "(t, v)" rule: valid_value.cases) auto

lemma valid_num: "valid_value t (PStr x) \<Longrightarrow> int_hex t \<Longrightarrow> \<exists>n. py_int (type_to_base t) x = Some n"
  by (cases "(t, PStr x)" rule: valid_value.cases) (auto simp: is_base_n_def split: option.splits)

lemma cps_tri_base:
  assumes ro: "reads_ok K u \<rho> A D" and wu: "wf_users K u" and bt: "bool_tristate (otype K s)"
    and D: "set (concat (map (\<lambda>(v, c). edeps K v @ edeps K c) (s_defaults (k_sym K s)))) \<subseteq> D"
      "set (edeps K (s_weak_rev_dep (k_sym K s))) \<subseteq> D" "set (edeps K (s_direct_dep (k_sym K s))) \<subseteq> D"
  shows "cps K u \<rho> (tri_base K A s vis) (\<lambda>\<sigma>. tri_base_spec K u \<sigma> s vis)"
proof (cases "vis \<noteq> 0 \<and> u_sym u s \<noteq> None")
  case True
  then obtain v where v: "u_sym u s = Some (PInt v)"
    using valid_tri [OF wf_usersD(1) [OF wu] bt] by auto
  show ?thesis
    unfolding tri_base_def
    by (rule cps_gets [OF usr_user_value], assumption)
      (use True v in \<open>auto simp: tri_base_spec_def intro: cps_eq [OF computes_ret]\<close>)
next
  case False
  note ex = cps_expr_value [OF ro]
  have w: "cps K u \<rho> (bind (expr_value K A (s_weak_rev_dep (k_sym K s))) (\<lambda>dep.
          if dep \<noteq> 0 then
            bind (expr_value K A (s_direct_dep (k_sym K s))) (\<lambda>dd.
              if dd \<noteq> 0 then ret (max dep val, True) else ret (val, w))
          else ret (val, w))) 
     (\<lambda>\<sigma>. if ev K u \<sigma> (s_weak_rev_dep (k_sym K s)) \<noteq> 0 \<and> ev K u \<sigma> (s_direct_dep (k_sym K s)) \<noteq> 0
        then (max (ev K u \<sigma> (s_weak_rev_dep (k_sym K s))) val, True) else (val, w))" for val w
    by (rule cps_bind [OF ex [OF D(2)] computes_if [OF cps_bind [OF ex [OF D(3)]
          computes_if [OF computes_ret computes_ret] refl] computes_ret]]) simp
  show ?thesis
    unfolding tri_base_def
    by (rule cps_gets [OF usr_user_value], assumption, subst if_not_P [OF False], unfold Let_def,
        rule cps_bind [OF cps_tri_default [OF ro D(1)] w])
      (use False in \<open>auto simp: tri_base_spec_def Let_def\<close>)
qed

lemma cps_tri_reverse:
  assumes ro: "reads_ok K u \<rho> A D" and wf: "wf_kconfig K"
    and D: "set (edeps K (s_rev_dep (k_sym K s))) \<subseteq> D" "set (edeps K (s_direct_dep (k_sym K s))) \<subseteq> D"
      "set (concat (map (select_deps K) (split_expr (s_rev_dep (k_sym K s)) OpOR))) \<subseteq> D"
  shows "cps K u \<rho> (tri_reverse K A s vw) (\<lambda>\<sigma>. tri_reverse_spec K u \<sigma> s vw)"
proof -
  note ex = cps_expr_value [OF ro]
  have w: "cps K u \<rho> (if b then warn_select_unsatisfied_deps K A s else ret ()) (\<lambda>_. ())" for b
    by (simp add: cps_warn_select [OF ro wf D] computes_ret)
  show ?thesis
    unfolding tri_reverse_def
    by (rule cps_bind [OF ex [OF D(1)] computes_if [OF cps_seq' [OF ex [OF D(2)]
          cps_seq [OF w computes_ret]] computes_ret]]) (simp add: tri_reverse_spec_def Let_def)
qed

lemma cps_bool_or_weak:
  assumes "cps K u \<rho> (sym_type K A s) (\<lambda>\<sigma>. stype_spec K u \<sigma> s)"
    and "cps K u \<rho> (expr_value K A (s_weak_rev_dep (k_sym K s))) (\<lambda>\<sigma>. ev K u \<sigma> (s_weak_rev_dep (k_sym K s)))"
  shows "cps K u \<rho> (bind (sym_type K A s) (\<lambda>t. if t = BOOL then ret yes
      else bind (expr_value K A (s_weak_rev_dep (k_sym K s))) (\<lambda>w. ret (if w = 2 then yes else no))))
    (\<lambda>\<sigma>. if stype_spec K u \<sigma> s = BOOL \<or> ev K u \<sigma> (s_weak_rev_dep (k_sym K s)) = 2 then yes else no)"
  by (rule cps_bind [OF assms(1) computes_if [OF computes_ret
        cps_bind [OF assms(2) computes_ret refl]]]) simp

lemma cps_tri_promote:
  assumes ro: "reads_ok K u \<rho> A D"
    and D: "set (edeps K (s_weak_rev_dep (k_sym K s))) \<subseteq> D" "set (tdeps K s) \<subseteq> D"
  shows "cps K u \<rho> (tri_promote K A s val) (\<lambda>\<sigma>. tri_promote_spec K u \<sigma> s val)"
  unfolding tri_promote_def
  by (rule cps_eq [OF computes_if [OF cps_bool_or_weak [OF cps_sym_type [OF ro D(2)]
        cps_expr_value [OF ro D(1)]] computes_ret]]) (simp add: tri_promote_spec_def)

lemma cps_tri_compute:
  assumes ro: "reads_ok K u \<rho> A D" and wf: "wf_kconfig K" and wu: "wf_users K u"
    and bt: "bool_tristate (otype K s)" "nmy_tri s = None"
    and D: "set (rdeps K (KTri s) @ wdeps K (KTri s)) \<subseteq> D"
  shows "starts K u \<rho> (a_vis A s) (tri_compute K A s) (\<lambda>\<sigma>. tri_spec K u \<sigma> s)"
proof -
  have v: "cps K u \<rho> (a_vis A s) (\<lambda>\<sigma>. rvis K \<sigma> s)"
    using D bt by (intro reads_okD [OF ro]) auto
  show ?thesis
  proof (cases "s_choice (k_sym K s)")
    case None
    with D bt have 1: "cps K u \<rho> (tri_base K A s vis) (\<lambda>\<sigma>. tri_base_spec K u \<sigma> s vis)"
      and 2: "cps K u \<rho> (tri_reverse K A s vw) (\<lambda>\<sigma>. tri_reverse_spec K u \<sigma> s vw)"
      and 3: "cps K u \<rho> (tri_promote K A s val) (\<lambda>\<sigma>. tri_promote_spec K u \<sigma> s val)" for vis vw val
      by (auto intro!: cps_tri_base [OF ro wu] cps_tri_reverse [OF ro wf] cps_tri_promote [OF ro])
    show ?thesis
      unfolding tri_compute_def None option.case
      by (rule startsI [OF v cps_bind [OF 1 cps_bind [OF 2 cps_bind [OF 3 computes_ret refl] refl] refl]])
        (simp add: tri_spec_def Let_def None)
  next
    case (Some c)
    with D bt have 1: "cps K u \<rho> (a_sel A c) (\<lambda>\<sigma>. rsel \<sigma> c)"
      by (intro reads_okD [OF ro]) auto
    have 2: "cps K u \<rho> (bind (gets (\<lambda>d. user_value d s)) (\<lambda>uv.
        ret (if vis \<noteq> 0 \<and> truthy uv then 1 else (0 :: nat), vis \<noteq> 0)))
      (\<lambda>_. (if vis \<noteq> 0 \<and> truthy (u_sym u s) then 1 else 0, vis \<noteq> 0))" for vis :: nat
      by (rule cps_gets [OF usr_user_value computes_ret])
    show ?thesis
      unfolding tri_compute_def Some option.case
      by (rule startsI [OF v computes_if [OF cps_bind [OF 1 computes_ret refl] 2]])
        (simp add: tri_spec_def Let_def Some)
  qed
qed

lemma concat_mapD: "set (concat (map f xs)) \<subseteq> D \<Longrightarrow> x \<in> set xs \<Longrightarrow> set (f x) \<subseteq> D"
  by auto

lemma cps_active_range:
  assumes ro: "reads_ok K u \<rho> A D"
    and D: "set (concat (map (\<lambda>(l, h, c). [KStr l, KStr h] @ edeps K c) (s_ranges (k_sym K s)))) \<subseteq> D"
  shows "cps K u \<rho> (active_range K A s) (\<lambda>\<sigma>. range_spec K u \<sigma> s)"
proof -
  have "cps K u \<rho> (bind (expr_value K A c) (\<lambda>v. if v \<noteq> 0 then
          bind (a_str A l) (\<lambda>l. bind (a_str A h) (\<lambda>h. ret (Some (num_or_0 b l, num_or_0 b h))))
        else ret None))
    (\<lambda>\<sigma>. if ev K u \<sigma> c \<noteq> 0 then Some (num_or_0 b (rstr \<sigma> l), num_or_0 b (rstr \<sigma> h)) else None)"
    if "(l, h, c) \<in> set (s_ranges (k_sym K s))" for l h c b
    by (rule cps_bind [OF cps_expr_value [OF ro] computes_if [OF cps_bind [OF reads_okD(3) [OF ro]
            cps_bind [OF reads_okD(3) [OF ro] computes_ret refl] refl] computes_ret] refl])
      (use concat_mapD [OF D that] in auto)
  then show ?thesis
    unfolding active_range_def range_spec_def Let_def
    by (intro cps_eq [OF computes_firstm [where p = "\<lambda>x \<sigma>. case x of (l, h, c) \<Rightarrow>
      if ev K u \<sigma> c \<noteq> 0 then Some (num_or_0 (type_to_base (otype K s)) (rstr \<sigma> l),
        num_or_0 (type_to_base (otype K s)) (rstr \<sigma> h)) else None"]]) auto
qed

lemma is_sym_exprE: "is_sym_expr e \<Longrightarrow> (\<And>x. e = Item (Sym x) \<Longrightarrow> P) \<Longrightarrow> P"
  by (auto simp: is_sym_expr_def split: expr.splits item.splits)

lemma cps_str_default_val:
  assumes ro: "reads_ok K u \<rho> A D" and wf: "wf_kconfig K" and bt: "\<not> bool_tristate (otype K s)" "otype K s \<noteq> UNKNOWN"
    and D: "set (concat (map (\<lambda>(v, c). symdef_deps v KStr @ edeps K c) (s_defaults (k_sym K s)))) \<subseteq> D"
  shows "cps K u \<rho> (str_default_val K A s) (\<lambda>\<sigma>. str_default_spec K u \<sigma> s)"
proof -
  have "cps K u \<rho> (bind (expr_value K A c) (\<lambda>t. if t \<noteq> 0 then
         (case v of Item (Sym x) \<Rightarrow> bind (a_str A x) (\<lambda>v. ret (Some v)) | _ \<Rightarrow> raise AttributeError)
       else ret None))
    (\<lambda>\<sigma>. if ev K u \<sigma> c \<noteq> 0 then Some (case v of Item (Sym x) \<Rightarrow> rstr \<sigma> x | _ \<Rightarrow> []) else None)"
    if vc: "(v, c) \<in> set (s_defaults (k_sym K s))" for v c
  proof -
    obtain x where x: "v = Item (Sym x)"
      using wf bt vc by (fastforce simp: wf_kconfig_def elim: is_sym_exprE)
    show ?thesis
      unfolding x item.case expr.case
      by (rule cps_bind [OF cps_expr_value [OF ro] computes_if [OF cps_bind [OF reads_okD(3) [OF ro]
            computes_ret refl] computes_ret] refl])
        (use concat_mapD [OF D vc] x in \<open>auto simp: symdef_deps_def\<close>)
  qed
  then show ?thesis
    unfolding str_default_val_def str_default_spec_def
    by (intro cps_eq [OF computes_firstm [where p = "\<lambda>x \<sigma>. case x of (v, c) \<Rightarrow>
      if ev K u \<sigma> c \<noteq> 0 then Some (case v of Item (Sym x) \<Rightarrow> rstr \<sigma> x | _ \<Rightarrow> []) else None"]]) auto
qed

lemma cps_num_defaults:
  assumes "cps K u \<rho> (str_default_val K A s) (\<lambda>\<sigma>. str_default_spec K u \<sigma> s)"
  shows "cps K u \<rho> (num_defaults K A s w rng)
    (\<lambda>\<sigma>. (num_pick (otype K s) rng (str_default_spec K u \<sigma> s), w \<or> str_default_spec K u \<sigma> s \<noteq> None))"
  unfolding num_defaults_def Let_def
proof (rule cps_bind [OF assms])
  fix r
  have kw: "cps K u \<rho> (if b then kwarn w' else ret ()) (\<lambda>_. ())" for b w'
    by (simp add: cps_kwarn computes_ret)
  show "cps K u \<rho> (case rng of
          None \<Rightarrow> ret (case r of None \<Rightarrow> [] | Some x \<Rightarrow> x, w \<or> r \<noteq> None)
        | Some (low, high) \<Rightarrow>
            (case clamp low high (case r of None \<Rightarrow> 0 | Some x \<Rightarrow> num_or_0 (type_to_base (otype K s)) x) of
               None \<Rightarrow> ret (case r of None \<Rightarrow> [] | Some x \<Rightarrow> x, w \<or> r \<noteq> None)
             | Some c \<Rightarrow>
                 bind (if r \<noteq> None then kwarn (W_default_clamped s
                   (case r of None \<Rightarrow> 0 | Some x \<Rightarrow> num_or_0 (type_to_base (otype K s)) x) c low high) else ret ())
                   (\<lambda>_. ret (num2str (otype K s) c, w \<or> r \<noteq> None))))
     (\<lambda>_. (num_pick (otype K s) rng r, w \<or> r \<noteq> None))"
    by (cases rng) (auto simp: num_pick_def Let_def split: option.split
        intro!: computes_ret cps_seq [OF kw] cps_seq [OF cps_kwarn])
qed simp

text \<open>An int or hex symbol with a visible non-empty user value \<open>x\<close>, the number \<open>n\<close>.\<close>

lemma cps_num_user:
  assumes dfl: "cps K u \<rho> (str_default_val K A s) (\<lambda>\<sigma>. str_default_spec K u \<sigma> s)"
  shows "cps K u \<rho> (case r of
        Some (low, high) \<Rightarrow>
          if low \<le> n \<and> n \<le> high then ret (x, True)
          else bind (kwarn (W_user_value_ignored s n low high)) (\<lambda>_. num_defaults K A s True r)
      | None \<Rightarrow> ret (x, True))
    (\<lambda>\<sigma>. if in_range r n then (x, True) else (num_pick (otype K s) r (str_default_spec K u \<sigma> s), True))"
proof (cases r)
  case None
  then show ?thesis by (simp add: in_range_def computes_ret)
next
  case (Some p)
  obtain low high where p: "p = (low, high)" by (cases p)
  note nd = cps_eq [OF cps_num_defaults [OF dfl, of True r]]
  show ?thesis
    unfolding Some p option.case prod.case in_range_def
    by (rule computes_if [OF computes_ret cps_seq [OF cps_kwarn]])
      (rule cps_eq [OF cps_num_defaults [OF dfl]], simp)
qed

lemma cps_num_value:
  assumes rng: "cps K u \<rho> (active_range K A s) (\<lambda>\<sigma>. range_spec K u \<sigma> s)"
    and dfl: "cps K u \<rho> (str_default_val K A s) (\<lambda>\<sigma>. str_default_spec K u \<sigma> s)"
    and wu: "wf_users K u" and ih: "int_hex (otype K s)"
  shows "cps K u \<rho> (num_value K A s vis) (\<lambda>\<sigma>. num_spec K u \<sigma> s vis)"
proof (cases "vis \<noteq> 0 \<and> truthy (u_sym u s)")
  case True
  have bt: "\<not> bool_tristate (otype K s)" using ih by (auto simp: int_hex_def)
  obtain v where v: "u_sym u s = Some v" using True by (cases "u_sym u s") auto
  obtain x where vx: "v = PStr x"
    using valid_str [OF wf_usersD(1) [OF wu v] bt] by blast
  have x: "u_sym u s = Some (PStr x)" "x \<noteq> []"
    using True v vx by simp_all
  obtain n where n: "py_int (type_to_base (otype K s)) x = Some n"
    using valid_num [OF wf_usersD(1) [OF wu x(1)] ih] by blast
  show ?thesis
    unfolding num_value_def
  proof (rule cps_bind [OF rng cps_gets [OF usr_user_value]])
    show "cps K u \<rho> (if vis \<noteq> 0 \<and> truthy (u_sym u s) then
       (case u_sym u s of
          Some (PStr x) \<Rightarrow>
            (case py_int (type_to_base (otype K s)) x of
               None \<Rightarrow> raise ValueError
             | Some n \<Rightarrow>
                 (case r of
                    Some (low, high) \<Rightarrow>
                      if low \<le> n \<and> n \<le> high then ret (x, True)
                      else bind (kwarn (W_user_value_ignored s n low high)) (\<lambda>_. num_defaults K A s True r)
                  | None \<Rightarrow> ret (x, True)))
        | _ \<Rightarrow> raise TypeError)
     else num_defaults K A s (vis \<noteq> 0) r)
     (\<lambda>\<sigma>. if in_range r n then (x, True) else (num_pick (otype K s) r (str_default_spec K u \<sigma> s), True))" for r
      unfolding if_P [OF True] unfolding x n option.case pyval.case by (rule cps_num_user [OF dfl])
    show "(if in_range (range_spec K u \<sigma> s) n then (x, True)
        else (num_pick (otype K s) (range_spec K u \<sigma> s) (str_default_spec K u \<sigma> s), True)) = num_spec K u \<sigma> s vis" for \<sigma>
      using True x n by (simp add: num_spec_def num_or_0_def num_defaults_spec_def)
  qed
next
  case False
  show ?thesis
    unfolding num_value_def
  proof (rule cps_bind [OF rng cps_gets [OF usr_user_value]])
    show "cps K u \<rho> (if vis \<noteq> 0 \<and> truthy (u_sym u s) then
       (case u_sym u s of
          Some (PStr x) \<Rightarrow>
            (case py_int (type_to_base (otype K s)) x of
               None \<Rightarrow> raise ValueError
             | Some n \<Rightarrow>
                 (case r of
                    Some (low, high) \<Rightarrow>
                      if low \<le> n \<and> n \<le> high then ret (x, True)
                      else bind (kwarn (W_user_value_ignored s n low high)) (\<lambda>_. num_defaults K A s True r)
                  | None \<Rightarrow> ret (x, True)))
        | _ \<Rightarrow> raise TypeError)
     else num_defaults K A s (vis \<noteq> 0) r)
     (\<lambda>\<sigma>. (num_pick (otype K s) r (str_default_spec K u \<sigma> s), vis \<noteq> 0 \<or> str_default_spec K u \<sigma> s \<noteq> None))" for r
      unfolding if_not_P [OF False] by (rule cps_num_defaults [OF dfl])
    show "(num_pick (otype K s) (range_spec K u \<sigma> s) (str_default_spec K u \<sigma> s),
        vis \<noteq> 0 \<or> str_default_spec K u \<sigma> s \<noteq> None) = num_spec K u \<sigma> s vis" for \<sigma>
      using False by (auto simp: num_spec_def num_defaults_spec_def split: option.split pyval.split)
  qed
qed

lemma cps_string_value:
  assumes dfl: "cps K u \<rho> (str_default_val K A s) (\<lambda>\<sigma>. str_default_spec K u \<sigma> s)"
    and wu: "wf_users K u" and bt: "\<not> bool_tristate (otype K s)"
  shows "cps K u \<rho> (string_value K A s vis) (\<lambda>\<sigma>. string_spec K u \<sigma> s vis)"
proof (cases "vis \<noteq> 0 \<and> u_sym u s \<noteq> None")
  case True
  then obtain v where v: "u_sym u s = Some v" by blast
  then obtain x where x: "u_sym u s = Some (PStr x)"
    using valid_str [OF wf_usersD(1) [OF wu v] bt] by blast
  show ?thesis
    unfolding string_value_def
    by (rule cps_gets [OF usr_user_value], assumption)
      (use True x in \<open>simp add: string_spec_def computes_ret\<close>)
next
  case False
  show ?thesis
    unfolding string_value_def
    by (rule cps_gets [OF usr_user_value], assumption, subst if_not_P [OF False],
        rule cps_bind [OF dfl computes_case_option [OF computes_ret computes_ret]])
      (use False in \<open>auto simp: string_spec_def\<close>)
qed

lemma cps_str_compute:
  assumes ro: "reads_ok K u \<rho> A D" and wf: "wf_kconfig K" and wu: "wf_users K u"
    and bt: "\<not> bool_tristate (otype K s)" "otype K s \<noteq> UNKNOWN"
    and D: "set (rdeps K (KStr s)) \<subseteq> D"
  shows "starts K u \<rho> (a_vis A s) (str_compute K A s) (\<lambda>\<sigma>. str_spec K u \<sigma> s)"
proof -
  have v: "cps K u \<rho> (a_vis A s) (\<lambda>\<sigma>. rvis K \<sigma> s)"
    using D bt by (intro reads_okD [OF ro]) auto
  have dfl: "cps K u \<rho> (str_default_val K A s) (\<lambda>\<sigma>. str_default_spec K u \<sigma> s)"
    using D bt by (intro cps_str_default_val [OF ro wf]) auto
  have rng: "cps K u \<rho> (active_range K A s) (\<lambda>\<sigma>. range_spec K u \<sigma> s)"
    using D bt by (intro cps_active_range [OF ro]) auto
  show ?thesis
    unfolding str_compute_def
    by (rule startsI [OF v cps_bind [OF computes_if [OF cps_num_value [OF rng dfl wu]
            cps_string_value [OF dfl wu bt(1)]] computes_ret refl]])
      (auto simp: str_spec_def Let_def)
qed

lemma cps_visible:
  assumes "reads_ok K u \<rho> A D" and "KVis s \<in> D"
  shows "cps K u \<rho> (bind (a_vis A s) (\<lambda>vis. ret (if vis \<noteq> 0 then Some s else None)))
    (\<lambda>\<sigma>. if rvis K \<sigma> s \<noteq> 0 then Some s else None)"
  by (rule cps_bind [OF reads_okD(1) [OF assms] computes_ret refl])

lemma cps_sel_default:
  assumes ro: "reads_ok K u \<rho> A D" and wf: "wf_kconfig K"
    and D: "set (concat (map (\<lambda>(v, c). symdef_deps v KVis @ edeps K c) (c_defaults (k_choice K c)))) \<subseteq> D"
  shows "cps K u \<rho> (sel_default K A c) (\<lambda>\<sigma>. sel_default_spec K u \<sigma> c)"
proof -
  have "cps K u \<rho> (bind (expr_value K A e) (\<lambda>t. if t \<noteq> 0 then
         (case v of
            Item (Sym s) \<Rightarrow> bind (a_vis A s) (\<lambda>vis. ret (if vis \<noteq> 0 then Some s else None))
          | _ \<Rightarrow> raise AttributeError)
       else ret None))
    (\<lambda>\<sigma>. if ev K u \<sigma> e \<noteq> 0
       then (case v of Item (Sym s) \<Rightarrow> if rvis K \<sigma> s \<noteq> 0 then Some s else None | _ \<Rightarrow> None) else None)"
    if ve: "(v, e) \<in> set (c_defaults (k_choice K c))" for v e
  proof -
    obtain x where x: "v = Item (Sym x)"
      using wf ve by (fastforce simp: wf_kconfig_def elim: is_sym_exprE)
    show ?thesis
      unfolding x item.case expr.case
      by (rule cps_bind [OF cps_expr_value [OF ro] computes_if [OF cps_visible [OF ro] computes_ret] refl])
        (use concat_mapD [OF D ve] x in \<open>auto simp: symdef_deps_def\<close>)
  qed
  then show ?thesis
    unfolding sel_default_def sel_default_spec_def
    by (intro cps_eq [OF computes_firstm [where p = "\<lambda>x \<sigma>. case x of (v, e) \<Rightarrow>
      if ev K u \<sigma> e \<noteq> 0
       then (case v of Item (Sym s) \<Rightarrow> if rvis K \<sigma> s \<noteq> 0 then Some s else None | _ \<Rightarrow> None) else None"]]) auto
qed

lemma cps_choice_selection:
  assumes ro: "reads_ok K u \<rho> A D" and wf: "wf_kconfig K" and wu: "wf_users K u"
    and D: "set (rdeps K (KCSel c)) \<subseteq> D"
  shows "starts K u \<rho> (choice_tri_value K A c) (choice_selection K A c) (\<lambda>\<sigma>. sel_spec K u \<sigma> c)"
proof -
  have syms: "KVis s \<in> D" if "s \<in> set (c_syms (k_choice K c))" for s
    using that D by auto
  have t: "cps K u \<rho> (choice_tri_value K A c) (\<lambda>\<sigma>. ctri_spec K u \<sigma> c)"
    using D by (intro cps_choice_tri_value [OF ro]) auto
  have d: "cps K u \<rho> (sel_default K A c) (\<lambda>\<sigma>. sel_default_spec K u \<sigma> c)"
    using D by (intro cps_sel_default [OF ro wf]) auto
  have fd: "cps K u \<rho> (selection_from_defaults K A c) (\<lambda>\<sigma>. sel_from_defaults_spec K u \<sigma> c)"
    unfolding selection_from_defaults_def
    by (rule cps_bind [OF d computes_case_option [OF computes_firstm [OF cps_visible [OF ro syms]]
            computes_ret]]) (auto simp: sel_from_defaults_spec_def)
  have us: "cps K u \<rho> (bind (gets (\<lambda>d. ch_user_selection d c)) (\<lambda>us. case us of
         None \<Rightarrow> selection_from_defaults K A c
       | Some s \<Rightarrow> bind (a_vis A s) (\<lambda>vis.
           if vis \<noteq> 0 then ret (Some s) else selection_from_defaults K A c)))
     (\<lambda>\<sigma>. case u_sel u c of None \<Rightarrow> sel_from_defaults_spec K u \<sigma> c
       | Some s \<Rightarrow> if rvis K \<sigma> s \<noteq> 0 then Some s else sel_from_defaults_spec K u \<sigma> c)"
  proof (rule cps_gets [OF usr_ch_user_selection], assumption, rule computes_case_option)
    fix s assume "u_sel u c = Some s"
    then have "KVis s \<in> D" using wf_usersD(3) [OF wu] syms by blast
    from cps_bind [OF reads_okD(1) [OF ro this] computes_if [OF computes_ret fd] refl]
    show "cps K u \<rho> (bind (a_vis A s) (\<lambda>vis. if vis \<noteq> 0 then ret (Some s) else selection_from_defaults K A c))
       (\<lambda>\<sigma>. if rvis K \<sigma> s \<noteq> 0 then Some s else sel_from_defaults_spec K u \<sigma> c)" .
  qed (rule fd)
  show ?thesis
    unfolding choice_selection_def
    by (rule startsI [OF t computes_if [OF computes_ret us]]) (simp add: sel_spec_def)
qed

lemma cps_sym_assignable:
  assumes ro: "reads_ok K u \<rho> A D" and True: "bool_tristate (otype K s)" and D: "set (rdeps K (KAsg s)) \<subseteq> D"
  shows "starts K u \<rho> (a_vis A s) (sym_assignable K A s) (\<lambda>\<sigma>. asg_spec K u \<sigma> s)"
proof -
  note ex = cps_expr_value [OF ro]
  have v: "cps K u \<rho> (a_vis A s) (\<lambda>\<sigma>. rvis K \<sigma> s)"
    and r: "cps K u \<rho> (expr_value K A (s_rev_dep (k_sym K s))) (\<lambda>\<sigma>. ev K u \<sigma> (s_rev_dep (k_sym K s)))"
    and w: "cps K u \<rho> (expr_value K A (s_weak_rev_dep (k_sym K s))) (\<lambda>\<sigma>. ev K u \<sigma> (s_weak_rev_dep (k_sym K s)))"
    and t: "cps K u \<rho> (sym_type K A s) (\<lambda>\<sigma>. stype_spec K u \<sigma> s)"
    using D True by (auto intro!: reads_okD [OF ro] ex cps_sym_type [OF ro])
  note bw = cps_bool_or_weak [OF t w]
  note vis2 = computes_if [OF computes_ret computes_if [OF bw computes_if [OF computes_ret bw]]]
  note vis1 = computes_if [OF cps_bind [OF w computes_ret refl] computes_if [OF computes_ret computes_ret]]
  show ?thesis
    unfolding sym_assignable_def Let_def
    by (subst if_not_P, use True in simp,
        rule startsI [OF v computes_if [OF computes_ret cps_bind [OF r computes_if [OF vis2 vis1] refl]]])
      (use True in \<open>simp add: asg_spec_def Let_def\<close>)
qed

lemma cps_choice_assignable:
  assumes ro: "reads_ok K u \<rho> A D" and D: "set (rdeps K (KCAsg c)) \<subseteq> D"
  shows "starts K u \<rho> (a_cvis A c) (choice_assignable K A c) (\<lambda>\<sigma>. casg_spec K \<sigma> c)"
proof -
  have v: "cps K u \<rho> (a_cvis A c) (\<lambda>\<sigma>. rcvis \<sigma> c)"
    using D by (intro reads_okD [OF ro]) auto
  have t: "cps K u \<rho> (choice_type K A c) (\<lambda>\<sigma>. ctype_spec K \<sigma> c)"
    using D by (intro cps_choice_type [OF ro]) auto
  show ?thesis
    unfolding choice_assignable_def
    by (rule startsI [OF v computes_if [OF computes_ret computes_if [OF
            cps_bind [OF t computes_ret refl] computes_ret]]])
      (simp add: casg_spec_def Let_def)
qed


subsection \<open>The cached properties\<close>

lemma is_valuationD: "is_valuation K u \<rho> \<Longrightarrow> \<rho> k = spec K u \<rho> k"
  by (simp add: is_valuation_def)

text \<open>A cached property: it returns what the valuation says, and leaves its key in the table.\<close>

lemma memo_property:
  assumes "is_valuation K u \<rho>" and "cps K u \<rho> body (\<lambda>\<sigma>. spec K u \<sigma> k)"
    and "\<And>k'. k' \<in> set (must K k) \<Longrightarrow> chs K u \<rho> body k'"
    and "r (spec K u \<rho> k) = p (spec K u \<rho> k)"
    and "\<And>d. consts_ok d \<Longrightarrow> m d = (case cached K d k of
        Some v \<Rightarrow> Inr (r v, d)
      | None \<Rightarrow> (case body d of Inl e \<Rightarrow> Inl e | Inr (v, d') \<Rightarrow> Inr (r v, cache_put K k v d')))"
  shows "cps K u \<rho> m (\<lambda>\<sigma>. p (\<sigma> k)) \<and> chs K u \<rho> m k"
proof
  have k: "\<rho> k = spec K u \<rho> k" by (rule is_valuationD [OF assms(1)])
  have ok: "cache_ok K k (\<rho> k)" by (simp add: k cache_ok_spec)
  show "cps K u \<rho> m (\<lambda>\<sigma>. p (\<sigma> k))"
    by (rule ms.computes_memo [where r = r and body = body, OF assms(2) k ok])
      (use assms(3-) k in \<open>simp_all add: env_def\<close>)
  show "chs K u \<rho> m k"
    by (rule ms.caches_memo [where r = r and body = body, OF ok k assms(2)])
      (use assms(5) in \<open>simp add: env_def\<close>)
qed

definition vnat :: "vval \<Rightarrow> nat" where
  "vnat v = (case v of VNat n \<Rightarrow> n | VTri n _ \<Rightarrow> n | _ \<Rightarrow> 0)"

definition vstr :: "vval \<Rightarrow> string" where
  "vstr v = (case v of VStr x _ \<Rightarrow> x | _ \<Rightarrow> [])"

definition vlist :: "vval \<Rightarrow> nat list" where
  "vlist v = (case v of VList x \<Rightarrow> x | _ \<Rightarrow> [])"

definition vsel :: "vval \<Rightarrow> symref option" where
  "vsel v = (case v of VSel x \<Rightarrow> x | _ \<Rightarrow> None)"

lemmas memo_run = vnat_def vstr_def vlist_def vsel_def monad_defs Let_def

lemma cps_get_vis:
  assumes "reads_ok K u \<rho> A D" and "set (rdeps K (KVis s)) \<subseteq> D" and "is_valuation K u \<rho>"
  shows "cps K u \<rho> (get_vis K A s) (\<lambda>\<sigma>. rvis K \<sigma> s) \<and> chs K u \<rho> (get_vis K A s) (KVis s)"
  unfolding rvis_def
  by (rule memo_property [where r = vnat and p = "\<lambda>v. if prompt_conds K (s_nodes (k_sym K s)) = [] then 0 else case v of VNat v \<Rightarrow> min v 2 | _ \<Rightarrow> 0",
        OF assms(3) cps_bind [OF cps_sym_visibility [OF assms(1,2)] computes_ret, of VNat]])
    (auto simp: memo_run get_vis_def vis_spec_promptless split: option.split sum.split prod.split)

lemma cps_get_cvis:
  assumes "reads_ok K u \<rho> A D" and "set (rdeps K (KCVis c)) \<subseteq> D" and "is_valuation K u \<rho>"
  shows "cps K u \<rho> (get_cvis K A c) (\<lambda>\<sigma>. rcvis \<sigma> c) \<and> chs K u \<rho> (get_cvis K A c) (KCVis c)"
  unfolding rcvis_def
  by (rule memo_property [where r = vnat and p = "\<lambda>v. case v of VNat v \<Rightarrow> min v 2 | _ \<Rightarrow> 0",
        OF assms(3) cps_bind [OF cps_choice_visibility [OF assms(1,2)] computes_ret, of VNat]])
    (auto simp: memo_run get_cvis_def split: option.split sum.split prod.split)

lemma cps_get_asg:
  assumes ro: "reads_ok K u \<rho> A D" and D: "set (rdeps K (KAsg s)) \<subseteq> D" and fp: "is_valuation K u \<rho>"
  shows "cps K u \<rho> (get_asg K A s) (\<lambda>\<sigma>. rasg \<sigma> s)"
proof (cases "bool_tristate (otype K s)")
  case True
  have st: "starts K u \<rho> (a_vis A s) (bind (sym_assignable K A s) (\<lambda>v. ret (VList v)))
      (\<lambda>\<sigma>. spec K u \<sigma> (KAsg s))"
    by (rule starts_bind [OF cps_sym_assignable [OF ro True D] computes_ret]) simp
  have c: "chs K u \<rho> (a_vis A s) (KVis s)"
    using D True by (intro reads_okD [OF ro]) auto
  show ?thesis
    unfolding rasg_def
    by (rule memo_property [where r = vlist and p = "\<lambda>v. case v of VList v \<Rightarrow> v | _ \<Rightarrow> []",
          OF fp starts_cps [OF st], THEN conjunct1])
      (use True starts_chs [OF st c] in \<open>auto simp: memo_run get_asg_def split: option.split sum.split prod.split\<close>)
next
  case False
  have "cps K u \<rho> (ret (VList [])) (\<lambda>\<sigma>. spec K u \<sigma> (KAsg s))"
    using False by (auto simp: asg_spec_def intro: computes_ret)
  then show ?thesis
    unfolding rasg_def
    by (rule memo_property [where r = vlist and p = "\<lambda>v. case v of VList v \<Rightarrow> v | _ \<Rightarrow> []",
          OF fp, THEN conjunct1])
      (use False in \<open>auto simp: memo_run get_asg_def sym_assignable_def split: option.split sum.split prod.split\<close>)
qed

lemma cps_get_casg:
  assumes ro: "reads_ok K u \<rho> A D" and D: "set (rdeps K (KCAsg c)) \<subseteq> D" and fp: "is_valuation K u \<rho>"
  shows "cps K u \<rho> (get_casg K A c) (\<lambda>\<sigma>. rcasg \<sigma> c)"
proof -
  have st: "starts K u \<rho> (a_cvis A c) (bind (choice_assignable K A c) (\<lambda>v. ret (VList v)))
      (\<lambda>\<sigma>. spec K u \<sigma> (KCAsg c))"
    by (rule starts_bind [OF cps_choice_assignable [OF ro D] computes_ret]) simp
  have ch: "chs K u \<rho> (a_cvis A c) (KCVis c)"
    using D by (intro reads_okD [OF ro]) auto
  show ?thesis
    unfolding rcasg_def
    by (rule memo_property [where r = vlist and p = "\<lambda>v. case v of VList v \<Rightarrow> v | _ \<Rightarrow> []",
          OF fp starts_cps [OF st], THEN conjunct1])
      (use starts_chs [OF st ch] in \<open>auto simp: memo_run get_casg_def split: option.split sum.split prod.split\<close>)
qed

lemma cps_get_sel:
  assumes ro: "reads_ok K u \<rho> A D" and wf: "wf_kconfig K" and wu: "wf_users K u"
    and D: "set (rdeps K (KCSel c)) \<subseteq> D" and fp: "is_valuation K u \<rho>"
  shows "cps K u \<rho> (get_sel K A c) (\<lambda>\<sigma>. rsel \<sigma> c)"
proof -
  have st: "starts K u \<rho> (choice_tri_value K A c) (bind (choice_selection K A c) (\<lambda>v. ret (VSel v)))
      (\<lambda>\<sigma>. spec K u \<sigma> (KCSel c))"
    by (rule starts_bind [OF cps_choice_selection [OF ro wf wu D] computes_ret]) simp
  have ch: "chs K u \<rho> (choice_tri_value K A c) (KCVis c)"
    using D by (intro chs_choice_tri_value [OF ro]) auto
  show ?thesis
    unfolding rsel_def
    by (rule memo_property [where r = vsel and p = "\<lambda>v. case v of VSel v \<Rightarrow> v | _ \<Rightarrow> None",
          OF fp starts_cps [OF st], THEN conjunct1])
      (use starts_chs [OF st ch] in \<open>auto simp: memo_run get_sel_def split: option.split sum.split prod.split\<close>)
qed

lemma cps_get_tri:
  assumes ro: "reads_ok K u \<rho> A D" and wf: "wf_kconfig K" and wu: "wf_users K u"
    and D: "set (rdeps K (KTri s) @ wdeps K (KTri s)) \<subseteq> D" and fp: "is_valuation K u \<rho>"
  shows "cps K u \<rho> (get_tri K A s) (\<lambda>\<sigma>. rtri \<sigma> s) \<and> chs K u \<rho> (get_tri K A s) (KTri s)"
proof -
  note memo = memo_property [where k = "KTri s" and r = vnat
      and p = "\<lambda>v. case nmy_tri s of Some v \<Rightarrow> v | None \<Rightarrow> (case v of VTri v _ \<Rightarrow> min v 2 | _ \<Rightarrow> 0)", OF fp]
  consider (const) v where "nmy_tri s = Some v" | (bt) "nmy_tri s = None" "bool_tristate (otype K s)"
    | (other) "nmy_tri s = None" "\<not> bool_tristate (otype K s)" by fastforce
  then show ?thesis
  proof cases
    case const
    show ?thesis
      unfolding rtri_def
      by (rule memo [where body = "ret (VTri v False)"])
        (use const in \<open>auto intro!: computes_ret [unfolded ret_def] simp: memo_run get_tri_def dest: consts_okD\<close>)
  next
    case bt
    have st: "starts K u \<rho> (a_vis A s) (bind (tri_compute K A s) (\<lambda>vw. ret (VTri (fst vw) (snd vw))))
        (\<lambda>\<sigma>. spec K u \<sigma> (KTri s))"
      by (rule starts_bind [OF cps_tri_compute [OF ro wf wu bt(2,1) D] computes_ret]) (simp add: bt)
    have c: "chs K u \<rho> (a_vis A s) (KVis s)"
      using D bt by (intro reads_okD [OF ro]) auto
    show ?thesis
      unfolding rtri_def
      by (rule memo [OF starts_cps [OF st]])
        (use bt starts_chs [OF st c] in \<open>auto simp: memo_run get_tri_def split: option.split sum.split prod.split\<close>)
  next
    case other
    have kw: "cps K u \<rho> (if otype K s \<noteq> UNKNOWN then kwarn (W_logical_context s) else ret ()) (\<lambda>_. ())"
      by (simp add: cps_kwarn computes_ret)
    show ?thesis
      unfolding rtri_def
      by (rule memo [OF cps_bind [OF kw computes_ret, of "\<lambda>_. VTri 0 False"]])
        (use other in \<open>auto simp: memo_run get_tri_def split: option.split sum.split prod.split\<close>)
  qed
qed

lemma cps_get_str:
  assumes ro: "reads_ok K u \<rho> A D" and wf: "wf_kconfig K" and wu: "wf_users K u"
    and D: "set (rdeps K (KStr s)) \<subseteq> D" and fp: "is_valuation K u \<rho>"
  shows "cps K u \<rho> (get_str K A s) (\<lambda>\<sigma>. rstr \<sigma> s) \<and> chs K u \<rho> (get_str K A s) (KStr s)"
proof -
  note memo = memo_property [where r = vstr and p = "\<lambda>v. case v of VStr v _ \<Rightarrow> v | _ \<Rightarrow> []"
      and k = "KStr s", OF fp]
  consider (bt) "bool_tristate (otype K s)" | (unk) "otype K s = UNKNOWN"
    | (str) "\<not> bool_tristate (otype K s)" "otype K s \<noteq> UNKNOWN" by blast
  then show ?thesis
  proof cases
    case bt
    then have t: "cps K u \<rho> (a_tri A s) (\<lambda>\<sigma>. rtri \<sigma> s)" and c: "chs K u \<rho> (a_tri A s) (KTri s)"
      using D by (auto intro: reads_okD [OF ro])
    have st: "starts K u \<rho> (a_tri A s) (bind (a_tri A s) (\<lambda>t. ret (VStr (tri_to_str t) False)))
        (\<lambda>\<sigma>. spec K u \<sigma> (KStr s))"
      by (rule startsI [OF t computes_ret]) (simp add: bt)
    show ?thesis
      unfolding rstr_def
      by (rule memo [OF starts_cps [OF st]])
        (use bt starts_chs [OF st c] in \<open>auto simp: memo_run get_str_def split: option.split sum.split prod.split\<close>)
  next
    case unk
    have b: "cps K u \<rho> (ret (VStr (sym_name s) False)) (\<lambda>\<sigma>. spec K u \<sigma> (KStr s))"
      using unk by (auto intro: computes_ret)
    show ?thesis
      unfolding rstr_def
      by (rule memo [OF b])
        (use unk in \<open>auto simp: memo_run get_str_def split: option.split sum.split prod.split\<close>)
  next
    case str
    have st: "starts K u \<rho> (a_vis A s) (bind (str_compute K A s) (\<lambda>vw. ret (VStr (fst vw) (snd vw))))
        (\<lambda>\<sigma>. spec K u \<sigma> (KStr s))"
      by (rule starts_bind [OF cps_str_compute [OF ro wf wu str D] computes_ret]) (simp add: str)
    have c: "chs K u \<rho> (a_vis A s) (KVis s)"
      using D str by (intro reads_okD [OF ro]) auto
    show ?thesis
      unfolding rstr_def
      by (rule memo [OF starts_cps [OF st]])
        (use str starts_chs [OF st c] in \<open>auto simp: memo_run get_str_def split: option.split sum.split prod.split\<close>)
  qed
qed

section \<open>The call stack suffices\<close>

lemma ranked_sub:
  assumes "ranked K rk" and "rk k < Suc n"
  shows "set (rdeps K k @ wdeps K k) \<subseteq> {k. rk k < n}" and "set (rdeps K k) \<subseteq> {k. rk k < n}"
  using rankedD [OF assms(1), where k = k] assms(2) by fastforce+

lemma reads_ok_accs:
  assumes "ranked K rk" and "wf_kconfig K" and "wf_users K u" and "is_valuation K u \<rho>"
  shows "reads_ok K u \<rho> (accs K n) {k. rk k < n}"
proof (induction n)
  case 0
  show ?case by (simp add: reads_ok_def)
next
  case (Suc n)
  note sub = ranked_sub [OF assms(1)]
  show ?case
    unfolding reads_ok_def accs.simps Let_def acc.simps mem_Collect_eq
    by (intro conjI allI impI cps_get_vis [OF Suc _ assms(4), THEN conjunct1]
        cps_get_cvis [OF Suc _ assms(4), THEN conjunct1] cps_get_tri [OF Suc assms(2,3) _ assms(4), THEN conjunct1]
        cps_get_str [OF Suc assms(2,3) _ assms(4), THEN conjunct1] cps_get_sel [OF Suc assms(2,3) _ assms(4)]
        cps_get_vis [OF Suc _ assms(4), THEN conjunct2] cps_get_cvis [OF Suc _ assms(4), THEN conjunct2]
        cps_get_tri [OF Suc assms(2,3) _ assms(4), THEN conjunct2] sub) assumption+
qed

section \<open>The states in which the caches are right\<close>

definition good :: "kconfig \<Rightarrow> dyn \<Rightarrow> bool" where
  "good K d = (wf_users K (usr d) \<and> consts_ok d \<and>
     (\<forall>\<rho>. is_valuation K (usr d) \<rho> \<longrightarrow> coh (cached K) (must K) (spec K (usr d)) \<rho> d))"

text \<open>A configuration that parsing can produce and whose symbols do not depend on themselves.\<close>

definition sound_kconfig :: "kconfig \<Rightarrow> (vkey \<Rightarrow> nat) \<Rightarrow> bool" where
  "sound_kconfig K rk = (wf_kconfig K \<and> ranked K rk)"

text \<open>The values of all keys under given assignments.\<close>

abbreviation vals :: "kconfig \<Rightarrow> (vkey \<Rightarrow> nat) \<Rightarrow> dyn \<Rightarrow> valuation" where
  "vals K rk d \<equiv> solution K (usr d) rk"

lemma good_calc:
  assumes sk: "sound_kconfig K rk" and g: "good K d" and m: "cps K (usr d) (vals K rk d) m f"
  shows "\<exists>d'. m d = Inr (f (vals K rk d), d') \<and> usr d' = usr d \<and> good K d'"
proof -
  let ?\<rho> = "vals K rk d"
  have rk: "ranked K rk" using sk by (simp add: sound_kconfig_def)
  have wu: "wf_users K (usr d)" using g by (simp add: good_def)
  have v: "is_valuation K (usr d) ?\<rho>" by (rule solution_is_valuation [OF rk wu])
  with g have d: "env d = (usr d, True)" "coh (cached K) (must K) (spec K (usr d)) ?\<rho> d"
    by (auto simp: good_def env_def)
  from m d obtain d' where d': "m d = Inr (f ?\<rho>, d')" "env d' = (usr d, True)"
    "coh (cached K) (must K) (spec K (usr d)) ?\<rho> d'"
    by (rule computesE) blast
  then have "good K d'"
    using wu valuation_unique [OF rk wu _ v] by (auto simp: good_def env_def)
  with d' show ?thesis by (auto simp: env_def)
qed

lemma good_reads:
  assumes "sound_kconfig K rk" and "good K d"
  shows "reads_ok K (usr d) (vals K rk d) (accs K n) {k. rk k < n}"
  using assms
  by (intro reads_ok_accs) (auto simp: sound_kconfig_def good_def intro: solution_is_valuation)

lemma usr_init_dyn: "usr init_dyn = \<lparr>u_sym = \<lambda>_. None, u_cho = \<lambda>_. None, u_sel = \<lambda>_. None\<rparr>"
  by (simp add: usr_def init_dyn_def)

lemma cached_init_dyn: "cached K init_dyn k = Some v \<Longrightarrow> \<exists>s n. k = KTri s \<and> nmy_tri s = Some n \<and> v = VTri n False"
  by (cases k) (auto simp: init_dyn_def split: option.splits)

lemma consts_ok_init_dyn: "consts_ok init_dyn"
  by (simp add: consts_ok_def init_dyn_def nmy_tri_def)

lemma good_init_dyn: "good K init_dyn"
proof -
  have "coh (cached K) (must K) (spec K (usr init_dyn)) \<rho> init_dyn"
    if "is_valuation K (usr init_dyn) \<rho>" for \<rho>
    unfolding coh_def
  proof (intro allI impI)
    fix k v assume "cached K init_dyn k = Some v"
    then obtain s n where "k = KTri s" "nmy_tri s = Some n" "v = VTri n False"
      using cached_init_dyn by blast
    then show "v = \<rho> k \<and> (\<forall>k' \<in> set (must K k). cached K init_dyn k' \<noteq> None) \<and>
        (\<forall>\<sigma>. agree (cached K) \<rho> \<sigma> init_dyn \<longrightarrow> spec K (usr init_dyn) \<sigma> k = spec K (usr init_dyn) \<rho> k)"
      using is_valuationD [OF that, of k] by simp
  qed
  then show ?thesis
    by (simp add: good_def consts_ok_init_dyn wf_users_def usr_init_dyn)
qed

end
