(* ===== verification/Invalidate.thy ===== *)
theory Invalidate
  imports Refine
begin

text \<open>
  Cache invalidation: the \<open>_dependents\<close> sets (\<open>_depend_on\<close>, \<open>Kconfig._build_dep\<close>,
  \<open>Kconfig._add_choice_deps\<close>) and the recursive invalidation that follows them
  (\<open>Symbol._rec_invalidate\<close>, \<open>Choice._rec_invalidate\<close>), stopping at items whose
  \<open>_cached_vis\<close> is unset. The sets are lists without duplicates; the order in which Python
  iterates over a set is not specified, and no lemma depends on it.

  Invalidation terminates, removes the cached values of a set of items that is closed
  under the dependencies as far as there are cached values, and so keeps the caches right
  when user values change; the sets computed while parsing are large enough for that.
\<close>

section \<open>Dependents\<close>

text \<open>The \<open>_dependents\<close> sets of symbols and choices while they are built.\<close>

type_synonym depmap = "item \<Rightarrow> item list"

fun constant_item :: "item \<Rightarrow> bool" where
  "constant_item (Sym s) = is_constant s"
| "constant_item (Cho c) = False"

text \<open>\<open>x._dependents.add(sc)\<close>\<close>

definition add_dependent :: "item \<Rightarrow> item \<Rightarrow> depmap \<Rightarrow> depmap" where
  "add_dependent x sc D = D(x := List.insert sc (D x))"

text \<open>\<open>_depend_on\<close>\<close>

definition depend_on_item :: "item \<Rightarrow> item \<Rightarrow> depmap \<Rightarrow> depmap" where
  "depend_on_item sc x D = (if constant_item x then D else add_dependent x sc D)"

fun depend_on :: "item \<Rightarrow> expr \<Rightarrow> depmap \<Rightarrow> depmap" where
  "depend_on sc (Item x) D = depend_on_item sc x D"
| "depend_on sc (AND a b) D = depend_on sc b (depend_on sc a D)"
| "depend_on sc (OR a b) D = depend_on sc b (depend_on sc a D)"
| "depend_on sc (NOT a) D = depend_on sc a D"
| "depend_on sc (Rel r a b) D = depend_on_item sc (Sym b) (depend_on_item sc (Sym a) D)"

text \<open>The expressions \<open>Kconfig._build_dep\<close> passes to \<open>_depend_on\<close> for a symbol and a choice, in order.\<close>

definition sym_dep_exprs :: "kconfig \<Rightarrow> symref \<Rightarrow> expr list" where
  "sym_dep_exprs K s = (let r = k_sym K s in
     prompt_conds K (s_nodes r) @
     concat (map (\<lambda>(value, cond). [value, cond]) (s_defaults r)) @
     [s_rev_dep r, s_weak_rev_dep r] @
     concat (map (\<lambda>(low, high, cond). [Item (Sym low), Item (Sym high), cond]) (s_ranges r)) @
     [s_direct_dep r])"

definition choice_dep_exprs :: "kconfig \<Rightarrow> choiceref \<Rightarrow> expr list" where
  "choice_dep_exprs K c = (let r = k_choice K c in
     prompt_conds K (c_nodes r) @ map snd (c_defaults r))"

text \<open>\<open>Kconfig._build_dep\<close>\<close>

definition build_dep :: "kconfig \<Rightarrow> depmap" where
  "build_dep K =
     fold (\<lambda>c. fold (depend_on (Cho c)) (choice_dep_exprs K c)) (k_unique_choices K)
     (fold (\<lambda>s. fold (depend_on (Sym s)) (sym_dep_exprs K s)) (k_unique_defined_syms K)
     (\<lambda>_. []))"

text \<open>\<open>Kconfig._add_choice_deps\<close>\<close>

definition add_choice_deps :: "kconfig \<Rightarrow> depmap \<Rightarrow> depmap" where
  "add_choice_deps K D =
     fold (\<lambda>c. fold (\<lambda>s. add_dependent (Sym s) (Cho c)) (c_syms (k_choice K c))) (k_unique_choices K) D"

text \<open>The configuration with the sets stored on its symbols and choices.\<close>

definition store_dependents :: "depmap \<Rightarrow> kconfig \<Rightarrow> kconfig" where
  "store_dependents D K = K\<lparr>k_sym := (\<lambda>s. (k_sym K s)\<lparr>s_dependents := D (Sym s)\<rparr>),
     k_choice := (\<lambda>c. (k_choice K c)\<lparr>c_dependents := D (Cho c)\<rparr>)\<rparr>"

fun dependents :: "kconfig \<Rightarrow> item \<Rightarrow> item list" where
  "dependents K (Sym s) = s_dependents (k_sym K s)"
| "dependents K (Cho c) = c_dependents (k_choice K c)"

section \<open>Invalidation\<close>

text \<open>\<open>Symbol._invalidate\<close> and \<open>Choice._invalidate\<close>\<close>

definition sym_invalidate :: "symref \<Rightarrow> dyn \<Rightarrow> dyn" where
  "sym_invalidate s d = d\<lparr>cached_str_val := (cached_str_val d)(s := None),
     cached_tri_val := (cached_tri_val d)(s := None), cached_vis := (cached_vis d)(s := None),
     cached_assignable := (cached_assignable d)(s := None)\<rparr>"

definition choice_invalidate :: "choiceref \<Rightarrow> dyn \<Rightarrow> dyn" where
  "choice_invalidate c d = d\<lparr>ch_cached_vis := (ch_cached_vis d)(c := None),
     ch_cached_assignable := (ch_cached_assignable d)(c := None),
     ch_cached_selection := (ch_cached_selection d)(c := None)\<rparr>"

text \<open>\<open>Kconfig._invalidate_all\<close>\<close>

definition invalidate_all :: "kconfig \<Rightarrow> dyn \<Rightarrow> dyn" where
  "invalidate_all K d =
     fold choice_invalidate (k_unique_choices K) (fold sym_invalidate (k_unique_defined_syms K) d)"

fun vis_cached :: "dyn \<Rightarrow> item \<Rightarrow> bool" where
  "vis_cached d (Sym s) = (cached_vis d s \<noteq> None)"
| "vis_cached d (Cho c) = (ch_cached_vis d c \<noteq> None)"

text \<open>
  \<open>Symbol._rec_invalidate\<close> and \<open>Choice._rec_invalidate\<close>, on a call stack of depth \<open>n\<close>.
\<close>

definition inv_dependents :: "(item \<Rightarrow> unit ev) \<Rightarrow> item list \<Rightarrow> unit ev" where
  "inv_dependents rec items =
     foldm (\<lambda>x _. bind (gets (\<lambda>d. vis_cached d x)) (\<lambda>b. if b then rec x else ret ())) items ()"

primrec rec_invalidate :: "kconfig \<Rightarrow> nat \<Rightarrow> item \<Rightarrow> unit ev" where
  "rec_invalidate K 0 x = raise RecursionError"
| "rec_invalidate K (Suc n) x = (case x of
     Sym s \<Rightarrow>
       if s = modules then modify (invalidate_all K)
       else bind (modify (sym_invalidate s)) (\<lambda>_.
              inv_dependents (rec_invalidate K n) (s_dependents (k_sym K s)))
   | Cho c \<Rightarrow>
       bind (modify (choice_invalidate c)) (\<lambda>_.
         inv_dependents (rec_invalidate K n) (c_dependents (k_choice K c))))"

text \<open>\<open>Symbol._rec_invalidate_if_has_prompt\<close>\<close>

definition rec_invalidate_if_has_prompt :: "kconfig \<Rightarrow> nat \<Rightarrow> symref \<Rightarrow> unit ev" where
  "rec_invalidate_if_has_prompt K n s =
     (if prompt_conds K (s_nodes (k_sym K s)) \<noteq> [] then rec_invalidate K n (Sym s)
      else bind (gets warn_assign_no_prompt) (\<lambda>b. if b then kwarn (W_no_prompt s) else ret ()))"

section \<open>What invalidation removes\<close>

definition all_items :: "kconfig \<Rightarrow> item list" where
  "all_items K = map Sym (k_unique_defined_syms K) @ map Cho (k_unique_choices K)"

text \<open>The state without the cached values of the items in \<open>X\<close>.\<close>

definition clear :: "item set \<Rightarrow> dyn \<Rightarrow> dyn" where
  "clear X d = d\<lparr>cached_str_val := (\<lambda>s. if Sym s \<in> X then None else cached_str_val d s),
     cached_tri_val := (\<lambda>s. if Sym s \<in> X then None else cached_tri_val d s),
     cached_vis := (\<lambda>s. if Sym s \<in> X then None else cached_vis d s),
     cached_assignable := (\<lambda>s. if Sym s \<in> X then None else cached_assignable d s),
     ch_cached_vis := (\<lambda>c. if Cho c \<in> X then None else ch_cached_vis d c),
     ch_cached_assignable := (\<lambda>c. if Cho c \<in> X then None else ch_cached_assignable d c),
     ch_cached_selection := (\<lambda>c. if Cho c \<in> X then None else ch_cached_selection d c)\<rparr>"

lemma clear_clear: "clear X (clear Y d) = clear (X \<union> Y) d"
  by (auto simp: clear_def fun_eq_iff intro!: dyn.equality)

lemma clear_empty [simp]: "clear {} d = d"
  by (auto simp: clear_def)

lemma sym_invalidate_clear: "sym_invalidate s d = clear {Sym s} d"
  by (auto simp: clear_def sym_invalidate_def fun_eq_iff intro!: dyn.equality)

lemma choice_invalidate_clear: "choice_invalidate c d = clear {Cho c} d"
  by (auto simp: clear_def choice_invalidate_def fun_eq_iff intro!: dyn.equality)

lemma fold_clear: "fold (\<lambda>x. clear {f x}) xs d = clear (f ` set xs) d"
  by (induction xs arbitrary: d) (auto simp: clear_clear)

lemma invalidate_all_clear: "invalidate_all K d = clear (set (all_items K)) d"
  by (simp add: invalidate_all_def sym_invalidate_clear [abs_def] choice_invalidate_clear [abs_def]
      fold_clear clear_clear all_items_def Un_commute)

lemma vis_cached_clear: "vis_cached (clear X d) x \<longleftrightarrow> x \<notin> X \<and> vis_cached d x"
  by (cases x) (auto simp: clear_def)

text \<open>The dependents of \<open>y\<close> have no cached values left, as far as \<open>_cached_vis\<close> tells.\<close>

definition settled :: "kconfig \<Rightarrow> dyn \<Rightarrow> item \<Rightarrow> bool" where
  "settled K d y =
     (\<forall>z \<in> set (if y = Sym modules then all_items K else dependents K y). \<not> vis_cached d z)"

definition closed_deps :: "kconfig \<Rightarrow> bool" where
  "closed_deps K = (\<forall>x. set (dependents K x) \<subseteq> set (all_items K))"

lemma settled_clear: "settled K d y \<Longrightarrow> settled K (clear X d) y"
  by (auto simp: settled_def vis_cached_clear)

lemma inv_dependents_spec:
  assumes rec: "\<And>x d d'. x \<in> set xs \<Longrightarrow> rec x d = Inr ((), d') \<Longrightarrow>
      \<exists>X \<subseteq> set (all_items K). d' = clear X d \<and> x \<in> X \<and> (\<forall>y \<in> X. settled K d' y)"
    and run: "inv_dependents rec xs d = Inr ((), d')"
  shows "\<exists>X \<subseteq> set (all_items K). d' = clear X d \<and> (\<forall>y \<in> X. settled K d' y) \<and> (\<forall>x \<in> set xs. \<not> vis_cached d' x)"
  using assms
proof (induction xs arbitrary: d)
  case Nil
  then show ?case
    by (intro exI [of _ "{}"]) (simp add: inv_dependents_def ret_def)
next
  case (Cons x xs)
  let ?step = "bind (gets (\<lambda>d. vis_cached d x)) (\<lambda>b. if b then rec x else ret ())"
  from Cons.prems(2) obtain d1 where d1: "?step d = Inr ((), d1)" "inv_dependents rec xs d1 = Inr ((), d')"
    by (auto simp: inv_dependents_def bind_def split: sum.splits)
  have "\<exists>X \<subseteq> set (all_items K). d1 = clear X d \<and> (\<forall>y \<in> X. settled K d1 y) \<and> \<not> vis_cached d1 x"
  proof (cases "vis_cached d x")
    case True
    with d1 have "rec x d = Inr ((), d1)" by (simp add: monad_defs)
    from Cons.prems(1) [OF _ this] show ?thesis by (auto simp: vis_cached_clear)
  next
    case False
    with d1 show ?thesis by (intro exI [of _ "{}"]) (simp add: monad_defs)
  qed
  then obtain X where X: "X \<subseteq> set (all_items K)" "d1 = clear X d" "\<forall>y \<in> X. settled K d1 y" "\<not> vis_cached d1 x"
    by blast
  obtain Y where Y: "Y \<subseteq> set (all_items K)" "d' = clear Y d1" "\<forall>y \<in> Y. settled K d' y"
    "\<forall>x \<in> set xs. \<not> vis_cached d' x"
    using Cons.IH [OF Cons.prems(1) d1(2)] by auto
  show ?case
  proof (intro exI conjI)
    show "Y \<union> X \<subseteq> set (all_items K)" using X Y by blast
    show "d' = clear (Y \<union> X) d" using X Y by (simp add: clear_clear)
    show "\<forall>y \<in> Y \<union> X. settled K d' y" using X Y by (auto simp: settled_clear)
    show "\<forall>x \<in> set (x # xs). \<not> vis_cached d' x" using X Y by (auto simp: vis_cached_clear)
  qed
qed

lemma rec_invalidate_Suc:
  "x \<noteq> Sym modules \<Longrightarrow> rec_invalidate K (Suc n) x d =
     inv_dependents (rec_invalidate K n) (dependents K x) (clear {x} d)"
  by (cases x) (auto simp: monad_defs sym_invalidate_clear choice_invalidate_clear)

lemma rec_invalidate_modules: "rec_invalidate K (Suc n) (Sym modules) d = Inr ((), clear (set (all_items K)) d)"
  by (simp add: modify_def invalidate_all_clear)

text \<open>
  What recursive invalidation does: it removes the cached values of a set of items that
  contains the starting point, and no dependent of such an item is left with a cached
  visibility.
\<close>

lemma rec_invalidate_spec:
  assumes cd: "closed_deps K"
  shows "x \<in> set (all_items K) \<Longrightarrow> rec_invalidate K n x d = Inr ((), d') \<Longrightarrow>
    \<exists>X \<subseteq> set (all_items K). d' = clear X d \<and> x \<in> X \<and> (\<forall>y \<in> X. settled K d' y)"
proof (induction n arbitrary: x d d')
  case 0
  then show ?case by (simp add: raise_def)
next
  case (Suc n)
  show ?case
  proof (cases "x = Sym modules")
    case True
    with Suc.prems have "d' = clear (set (all_items K)) d" by (simp add: rec_invalidate_modules del: rec_invalidate.simps)
    moreover have "settled K (clear (set (all_items K)) d) y" for y
      using cd by (auto simp: settled_def vis_cached_clear closed_deps_def)
    ultimately show ?thesis using Suc.prems(1) by blast
  next
    case False
    have "\<exists>X \<subseteq> set (all_items K). d' = clear X (clear {x} d) \<and> (\<forall>y \<in> X. settled K d' y) \<and>
        (\<forall>z \<in> set (dependents K x). \<not> vis_cached d' z)"
    proof (rule inv_dependents_spec)
      fix z e e' assume "z \<in> set (dependents K x)" "rec_invalidate K n z e = Inr ((), e')"
      then show "\<exists>X \<subseteq> set (all_items K). e' = clear X e \<and> z \<in> X \<and> (\<forall>y \<in> X. settled K e' y)"
        using cd by (intro Suc.IH) (auto simp: closed_deps_def)
    qed (use Suc.prems False in \<open>simp add: rec_invalidate_Suc del: rec_invalidate.simps\<close>)
    then obtain X where "X \<subseteq> set (all_items K)" "d' = clear X (clear {x} d)" "\<forall>y \<in> X. settled K d' y"
      "\<forall>z \<in> set (dependents K x). \<not> vis_cached d' z" by blast
    with False Suc.prems(1) show ?thesis
      by (intro exI [of _ "X \<union> {x}"]) (auto simp: clear_clear settled_def)
  qed
qed

text \<open>The recursion ends: every nested call has one item less to clear.\<close>

lemma inv_dependents_returns:
  assumes "\<And>x d. x \<in> set xs \<Longrightarrow> vis_cached d x \<Longrightarrow> card {x \<in> set (all_items K). vis_cached d x} \<le> m \<Longrightarrow>
      \<exists>X. rec x d = Inr ((), clear X d)"
    and "card {x \<in> set (all_items K). vis_cached d x} \<le> m"
  shows "\<exists>X. inv_dependents rec xs d = Inr ((), clear X d)"
  using assms
proof (induction xs arbitrary: d)
  case Nil
  then show ?case by (intro exI [of _ "{}"]) (simp add: inv_dependents_def ret_def)
next
  case (Cons x xs)
  let ?step = "bind (gets (\<lambda>d. vis_cached d x)) (\<lambda>b. if b then rec x else ret ())"
  have "\<exists>X. ?step d = Inr ((), clear X d)"
  proof (cases "vis_cached d x")
    case True
    with Cons.prems show ?thesis by (simp add: monad_defs)
  next
    case False
    then show ?thesis by (intro exI [of _ "{}"]) (simp add: monad_defs)
  qed
  then obtain X where X: "?step d = Inr ((), clear X d)" by blast
  have "card {y \<in> set (all_items K). vis_cached (clear X d) y} \<le> card {y \<in> set (all_items K). vis_cached d y}"
    by (rule card_mono) (auto simp: vis_cached_clear)
  with Cons.prems(2) have "card {y \<in> set (all_items K). vis_cached (clear X d) y} \<le> m" by simp
  then obtain Y where "inv_dependents rec xs (clear X d) = Inr ((), clear Y (clear X d))"
    using Cons.IH [OF Cons.prems(1)] by force
  with X show ?case
    by (intro exI [of _ "Y \<union> X"]) (simp add: inv_dependents_def bind_def clear_clear)
qed

lemma rec_invalidate_returns:
  assumes cd: "closed_deps K"
  shows "x \<in> set (all_items K) \<Longrightarrow>
    card {y \<in> set (all_items K). y \<noteq> x \<and> vis_cached d y} < n \<Longrightarrow> \<exists>X. rec_invalidate K n x d = Inr ((), clear X d)"
proof (induction n arbitrary: x d)
  case 0
  then show ?case by simp
next
  case (Suc n)
  show ?case
  proof (cases "x = Sym modules")
    case True
    then show ?thesis by (auto simp: rec_invalidate_modules simp del: rec_invalidate.simps)
  next
    case False
    have "\<exists>X. inv_dependents (rec_invalidate K n) (dependents K x) (clear {x} d) = Inr ((), clear X (clear {x} d))"
    proof (rule inv_dependents_returns [where K = K and m = n])
      fix z e assume z: "z \<in> set (dependents K x)" "vis_cached e z"
        and c: "card {y \<in> set (all_items K). vis_cached e y} \<le> n"
      have "z \<in> set (all_items K)" using z cd by (auto simp: closed_deps_def)
      moreover have "card {y \<in> set (all_items K). y \<noteq> z \<and> vis_cached e y} <
          card {y \<in> set (all_items K). vis_cached e y}"
        by (rule psubset_card_mono) (use z \<open>z \<in> set (all_items K)\<close> in auto)
      ultimately show "\<exists>X. rec_invalidate K n z e = Inr ((), clear X e)"
        using c by (intro Suc.IH) auto
    next
      have "{y \<in> set (all_items K). vis_cached (clear {x} d) y} = {y \<in> set (all_items K). y \<noteq> x \<and> vis_cached d y}"
        by (auto simp: vis_cached_clear)
      then show "card {y \<in> set (all_items K). vis_cached (clear {x} d) y} \<le> n"
        using Suc.prems(2) by simp
    qed
    then show ?thesis
      using False by (auto simp: rec_invalidate_Suc clear_clear simp del: rec_invalidate.simps)
  qed
qed

section \<open>Invalidation keeps the caches right\<close>

fun item_of :: "vkey \<Rightarrow> item" where
  "item_of (KVis s) = Sym s"
| "item_of (KTri s) = Sym s"
| "item_of (KStr s) = Sym s"
| "item_of (KAsg s) = Sym s"
| "item_of (KCVis c) = Cho c"
| "item_of (KCSel c) = Cho c"
| "item_of (KCAsg c) = Cho c"

text \<open>
  What the \<open>_dependents\<close> sets must cover: an item whose value depends on another item is
  among the other's dependents, or the other is \<open>MODULES\<close>, whose change invalidates
  everything. Constants and undefined symbols never change.
\<close>

definition deps_complete :: "kconfig \<Rightarrow> bool" where
  "deps_complete K = (\<forall>k. \<forall>k' \<in> set (vdeps K k).
     item_of k' \<in> set (all_items K) \<longrightarrow> item_of k' \<noteq> item_of k \<longrightarrow>
     item_of k \<in> set (if item_of k' = Sym modules then all_items K else dependents K (item_of k')))"

definition consts_undefined :: "kconfig \<Rightarrow> bool" where
  "consts_undefined K = (\<forall>s. nmy_tri s \<noteq> None \<longrightarrow> s \<notin> set (k_unique_defined_syms K))"

text \<open>What the invalidation algorithm relies on.\<close>

definition linked :: "kconfig \<Rightarrow> bool" where
  "linked K = (deps_complete K \<and> closed_deps K \<and> consts_undefined K)"

lemma linkedD: "linked K \<Longrightarrow> deps_complete K" "linked K \<Longrightarrow> closed_deps K" "linked K \<Longrightarrow> consts_undefined K"
  by (simp_all add: linked_def)

lemma const_not_item: "consts_undefined K \<Longrightarrow> X \<subseteq> set (all_items K) \<Longrightarrow> nmy_tri s = Some v \<Longrightarrow> Sym s \<notin> X"
  by (auto simp: consts_undefined_def all_items_def)

lemma cached_clear:
  assumes "consts_undefined K" and "X \<subseteq> set (all_items K)"
  shows "cached K (clear X d) k = (if item_of k \<in> X then None else cached K d k)"
  using const_not_item [OF assms] by (cases k) (auto simp: clear_def split: option.split)

lemma consts_ok_clear:
  assumes "consts_undefined K" and "X \<subseteq> set (all_items K)" and "consts_ok d"
  shows "consts_ok (clear X d)"
  unfolding consts_ok_def
proof (intro allI impI)
  fix x v assume x: "str_to_tri x = Some v"
  then have "Sym (SymC x) \<notin> X"
    by (intro const_not_item [OF assms(1,2)]) (simp add: nmy_tri_def)
  with x assms(3) show "cached_tri_val (clear X d) (SymC x) = Some v"
    by (simp add: clear_def consts_ok_def)
qed

text \<open>Whatever depends on another item, or on the user, keeps its visibility cached.\<close>

lemma coh_must: "coh lk mu F \<rho> d \<Longrightarrow> lk d k \<noteq> None \<Longrightarrow> k' \<in> set (mu k) \<Longrightarrow> lk d k' \<noteq> None"
  by (auto simp: coh_def)

lemma vis_cached_cached: "vis_cached d (Sym s) \<longleftrightarrow> cached K d (KVis s) \<noteq> None"
  "vis_cached d (Cho c) \<longleftrightarrow> cached K d (KCVis c) \<noteq> None"
  by simp_all

lemma vis_marks:
  assumes coh: "coh (cached K) (must K) F \<rho> d" and k: "cached K d k \<noteq> None"
    and "(\<exists>k' \<in> set (vdeps K k). item_of k' \<noteq> item_of k) \<or> \<not> same_user K u v k"
  shows "vis_cached d (item_of k)"
proof -
  note m = coh_must [OF coh k]
  have "case item_of k of Sym s \<Rightarrow> k = KVis s \<or> KVis s \<in> set (must K k)
      | Cho c \<Rightarrow> k = KCVis c \<or> KCVis c \<in> set (must K k)"
    using assms(3) by (cases k) (auto simp: vdeps_def promptless_def split: if_splits)
  then show ?thesis
    using m k by (cases "item_of k")
      (auto simp: vis_cached_cached [of _ _ K] simp del: cached.simps vis_cached.simps)
qed

lemma good_clear:
  assumes sk: "sound_kconfig K rk" and ln: "linked K" and g: "good K d"
    and d1: "wf_users K (usr d1)" "cached K d1 = cached K d" "consts_ok d1"
    and X: "X \<subseteq> set (all_items K)" "\<And>y. y \<in> X \<Longrightarrow> settled K (clear X d1) y"
    and same: "\<And>k. item_of k \<notin> X \<Longrightarrow> \<not> same_user K (usr d) (usr d1) k \<Longrightarrow> \<not> vis_cached (clear X d1) (item_of k)"
      "\<And>c. u_cho (usr d) c \<noteq> u_cho (usr d1) c \<Longrightarrow> Cho c \<in> X"
  shows "good K (clear X d1)"
proof -
  let ?d' = "clear X d1" let ?\<rho> = "vals K rk d" let ?\<rho>' = "solution K (usr d1) rk"
  have rk: "ranked K rk" using sk by (simp add: sound_kconfig_def)
  have wu: "wf_users K (usr d)" using g by (simp add: good_def)
  have v: "is_valuation K (usr d) ?\<rho>" by (rule solution_is_valuation [OF rk wu])
  have v': "is_valuation K (usr d1) ?\<rho>'" by (rule solution_is_valuation [OF rk d1(1)])
  have coh: "coh (cached K) (must K) (spec K (usr d)) ?\<rho> d" using g v by (simp add: good_def)
  note cc = cached_clear [OF linkedD(3) [OF ln] X(1)]
  have usr: "usr ?d' = usr d1" by (simp add: usr_def clear_def)
  have vc: "vis_cached d x = vis_cached d1 x" for x
    using d1(2) by (cases x) (simp_all add: vis_cached_cached [of _ _ K] del: cached.simps vis_cached.simps)
  have keep: "item_of k \<notin> X" "cached K d k \<noteq> None" if "cached K ?d' k \<noteq> None" for k
    using that by (auto simp: cc d1(2) split: if_splits)
  have marks: "vis_cached ?d' (item_of k)"
    if "cached K ?d' k \<noteq> None" "(\<exists>k' \<in> set (vdeps K k). item_of k' \<noteq> item_of k) \<or> \<not> same_user K (usr d) (usr d1) k" for k
    using vis_marks [OF coh keep(2) [OF that(1)] that(2)] keep(1) [OF that(1)] by (simp add: vis_cached_clear vc)
  have stop: "item_of k' \<notin> X" if k: "cached K ?d' k \<noteq> None" and k': "k' \<in> set (vdeps K k)" for k k'
  proof
    assume i: "item_of k' \<in> X"
    with keep(1) [OF k] have ne: "item_of k' \<noteq> item_of k" by auto
    with linkedD(1) [OF ln] i X(1) k'
    have "item_of k \<in> set (if item_of k' = Sym modules then all_items K else dependents K (item_of k'))"
      unfolding deps_complete_def by blast
    with X(2) [OF i] have "\<not> vis_cached ?d' (item_of k)" unfolding settled_def by blast
    with marks [OF k] k' ne show False by blast
  qed
  have "coh (cached K) (must K) (spec K (usr d1)) ?\<rho>' ?d'"
  proof (rule coh_invalidate [where F = "spec K (usr d)" and \<rho> = ?\<rho> and d = d and vd = "\<lambda>k. set (vdeps K k)"
        and rk = rk, OF coh])
    show "spec K (usr d1) \<sigma> k = spec K (usr d) \<sigma> k" if "cached K ?d' k \<noteq> None" for \<sigma> k
    proof -
      have "u_cho (usr d) c = u_cho (usr d1) c" if "KCVis c \<in> set (vdeps K k)" for c
        using same(2) [of c] stop [OF \<open>cached K ?d' k \<noteq> None\<close> that] by auto
      moreover have "same_user K (usr d) (usr d1) k"
        using same(1) keep(1) marks that by blast
      ultimately have "spec K (usr d) \<sigma> k = spec K (usr d1) \<sigma> k"
        using wu by (intro spec_users_cong) (auto simp: same_on_def)
      then show ?thesis by simp
    qed
    show "cached K ?d' k' \<noteq> None" if "cached K ?d' k \<noteq> None" "k' \<in> set (vdeps K k)" "cached K d k' \<noteq> None" for k k'
      using stop [OF that(1,2)] that(3) by (simp add: cc d1(2))
    show "rk k' < rk k" if "k' \<in> set (vdeps K k)" for k k'
      using rankedD [OF rk] vdeps_rdeps that by blast
    show "cached K ?d' k = cached K d k" if "cached K ?d' k \<noteq> None" for k
      using keep(1) [OF that] by (simp add: cc d1(2))
  qed (use is_valuationD [OF v] is_valuationD [OF v'] spec_vcong [OF wu] spec_vcong [OF d1(1)] must_vdeps in blast)+
  then show ?thesis
    unfolding good_def usr
    using d1(1) consts_ok_clear [OF linkedD(3) [OF ln] X(1) d1(3)] valuation_unique [OF rk d1(1) _ v'] by auto
qed

section \<open>The dependents that parsing computes are complete\<close>

lemma add_dependent_set: "set (add_dependent y sc D x) = set (D x) \<union> (if x = y then {sc} else {})"
  by (auto simp: add_dependent_def)

lemma depend_on_item_set:
  "set (depend_on_item sc y D x) = set (D x) \<union> (if x = y \<and> \<not> constant_item x then {sc} else {})"
  by (auto simp: depend_on_item_def add_dependent_set)

lemma depend_on_set:
  "set (depend_on sc e D x) = set (D x) \<union> (if x \<in> set (expr_items e) \<and> \<not> constant_item x then {sc} else {})"
  by (induction sc e D rule: depend_on.induct) (auto simp: depend_on_item_set)

lemma fold_depend_on_set:
  "set (fold (depend_on sc) es D x) =
   set (D x) \<union> (if (\<exists>e \<in> set es. x \<in> set (expr_items e)) \<and> \<not> constant_item x then {sc} else {})"
  by (induction es arbitrary: D) (auto simp: depend_on_set)

lemma fold_build_set:
  "set (fold (\<lambda>a. fold (depend_on (f a)) (es a)) as D x) =
   set (D x) \<union> {f a |a. a \<in> set as \<and> (\<exists>e \<in> set (es a). x \<in> set (expr_items e)) \<and> \<not> constant_item x}"
  by (induction as arbitrary: D) (auto simp: fold_depend_on_set)

lemma build_dep_set:
  "set (build_dep K x) =
     {Sym s |s. s \<in> set (k_unique_defined_syms K) \<and> (\<exists>e \<in> set (sym_dep_exprs K s). x \<in> set (expr_items e)) \<and>
        \<not> constant_item x} \<union>
     {Cho c |c. c \<in> set (k_unique_choices K) \<and> (\<exists>e \<in> set (choice_dep_exprs K c). x \<in> set (expr_items e)) \<and>
        \<not> constant_item x}"
  unfolding build_dep_def fold_build_set by auto

lemma fold_add_dependent_set:
  "set (fold (\<lambda>s. add_dependent (Sym s) sc) ss D x) = set (D x) \<union> (if x \<in> Sym ` set ss then {sc} else {})"
  by (induction ss arbitrary: D) (auto simp: add_dependent_set)

lemma add_choice_deps_set:
  "set (add_choice_deps K D x) =
     set (D x) \<union> {Cho c |c. c \<in> set (k_unique_choices K) \<and> x \<in> Sym ` set (c_syms (k_choice K c))}"
proof -
  have "set (fold (\<lambda>c. fold (\<lambda>s. add_dependent (Sym s) (Cho c)) (c_syms (k_choice K c))) cs D x) =
      set (D x) \<union> {Cho c |c. c \<in> set cs \<and> x \<in> Sym ` set (c_syms (k_choice K c))}" for cs
    by (induction cs arbitrary: D) (auto simp: fold_add_dependent_set)
  then show ?thesis by (simp add: add_choice_deps_def)
qed

text \<open>The two steps as \<open>Kconfig._init\<close> composes them.\<close>

definition link :: "kconfig \<Rightarrow> kconfig" where
  "link K = store_dependents (add_choice_deps K (build_dep K)) K"

lemma dependents_link: "dependents (link K) x = add_choice_deps K (build_dep K) x"
  by (cases x) (simp_all add: link_def store_dependents_def)

lemma link_simps [simp]:
  "k_node (link K) = k_node K" "k_unique_defined_syms (link K) = k_unique_defined_syms K"
  "k_unique_choices (link K) = k_unique_choices K"
  "otype (link K) s = otype K s" "s_nodes (k_sym (link K) s) = s_nodes (k_sym K s)"
  "s_defaults (k_sym (link K) s) = s_defaults (k_sym K s)" "s_ranges (k_sym (link K) s) = s_ranges (k_sym K s)"
  "s_rev_dep (k_sym (link K) s) = s_rev_dep (k_sym K s)"
  "s_weak_rev_dep (k_sym (link K) s) = s_weak_rev_dep (k_sym K s)"
  "s_direct_dep (k_sym (link K) s) = s_direct_dep (k_sym K s)"
  "s_choice (k_sym (link K) s) = s_choice (k_sym K s)"
  "c_orig_type (k_choice (link K) c) = c_orig_type (k_choice K c)"
  "c_nodes (k_choice (link K) c) = c_nodes (k_choice K c)" "c_syms (k_choice (link K) c) = c_syms (k_choice K c)"
  "c_defaults (k_choice (link K) c) = c_defaults (k_choice K c)"
  "all_items (link K) = all_items K"
  by (simp_all add: link_def store_dependents_def all_items_def)

lemma prompt_conds_link [simp]: "prompt_conds (link K) ns = prompt_conds K ns"
  by (simp add: prompt_conds_def)

lemma edeps_link [simp]: "edeps (link K) e = edeps K e"
  by (induction K e rule: edeps.induct) (simp_all add: cdeps_def ctdeps_def)

lemma rdeps_link [simp]: "rdeps (link K) k = rdeps K k"
  by (cases k) (simp_all add: pdeps_def chdeps_def tdeps_def cdeps_def ctdeps_def edeps_link [abs_def]
      split: option.split)

lemma vdeps_link [simp]: "vdeps (link K) k = vdeps K k"
proof -
  have "must (link K) k = must K k" by (cases k) simp_all
  then show ?thesis by (simp add: vdeps_def promptless_def cong: vkey.case_cong)
qed

text \<open>
  What the menu tree guarantees after \<open>_finalize_node\<close>: undefined symbols and choices have no
  properties; a choice symbol inherits the choice in its direct dependencies
  (\<open>_propagate_deps\<close>); the defaults of a choice are choice symbols (\<open>_check_choice_sanity\<close>
  warns otherwise).
\<close>

definition tree_ok :: "kconfig \<Rightarrow> bool" where
  "tree_ok K =
     ((\<forall>s. s \<notin> set (k_unique_defined_syms K) \<longrightarrow>
         s_nodes (k_sym K s) = [] \<and> s_choice (k_sym K s) = None \<and>
         otype K s = (if nmy_tri s = None then UNKNOWN else TRISTATE)) \<and>
      (\<forall>c. c \<notin> set (k_unique_choices K) \<longrightarrow> c_orig_type (k_choice K c) = UNKNOWN \<and>
         c_nodes (k_choice K c) = [] \<and> c_syms (k_choice K c) = [] \<and> c_defaults (k_choice K c) = []) \<and>
      (\<forall>s c. s_choice (k_sym K s) = Some c \<longrightarrow> Cho c \<in> set (expr_items (s_direct_dep (k_sym K s)))) \<and>
      (\<forall>c e x. (Item (Sym x), e) \<in> set (c_defaults (k_choice K c)) \<longrightarrow> x \<in> set (c_syms (k_choice K c))) \<and>
      (\<forall>s \<in> set (k_unique_defined_syms K). \<not> is_constant s))"

lemma edeps_items: "k \<in> set (edeps K e) \<Longrightarrow> k = KTri modules \<or> item_of k \<in> set (expr_items e)"
  by (induction K e rule: edeps.induct) (auto simp: cdeps_def ctdeps_def split: if_splits)

lemma pdeps_items:
  "k \<in> set (pdeps K ns) \<Longrightarrow> k = KTri modules \<or> (\<exists>e \<in> set (prompt_conds K ns). item_of k \<in> set (expr_items e))"
  using edeps_items by (fastforce simp: pdeps_def)

lemma prompt_conds_Nil [simp]: "prompt_conds K [] = []"
  by (simp add: prompt_conds_def List.map_filter_simps)

lemma sym_dep_exprsI:
  "e \<in> set (prompt_conds K (s_nodes (k_sym K s))) \<Longrightarrow> e \<in> set (sym_dep_exprs K s)"
  "(v, e') \<in> set (s_defaults (k_sym K s)) \<Longrightarrow> e \<in> {v, e'} \<Longrightarrow> e \<in> set (sym_dep_exprs K s)"
  "s_rev_dep (k_sym K s) \<in> set (sym_dep_exprs K s)"
  "s_weak_rev_dep (k_sym K s) \<in> set (sym_dep_exprs K s)"
  "(l, h, e') \<in> set (s_ranges (k_sym K s)) \<Longrightarrow> e \<in> {Item (Sym l), Item (Sym h), e'} \<Longrightarrow> e \<in> set (sym_dep_exprs K s)"
  "s_direct_dep (k_sym K s) \<in> set (sym_dep_exprs K s)"
  by (auto simp: sym_dep_exprs_def Let_def; force)+

lemma symdef_deps_items: "k \<in> set (symdef_deps e f) \<Longrightarrow> \<exists>x. e = Item (Sym x) \<and> k = f x"
  by (auto simp: symdef_deps_def split: expr.splits item.splits)

lemma cdeps_items: "k \<in> set (cdeps K c) \<Longrightarrow> k = KTri modules \<or> k = KCVis c"
  by (auto simp: cdeps_def ctdeps_def split: if_splits)

definition mentions :: "kconfig \<Rightarrow> symref \<Rightarrow> vkey \<Rightarrow> bool" where
  "mentions K s k = (item_of k = Sym s \<or> k = KTri modules \<or>
     (\<exists>e \<in> set (sym_dep_exprs K s). item_of k \<in> set (expr_items e)))"

lemma mentionsI: "e \<in> set (sym_dep_exprs K s) \<Longrightarrow> k \<in> set (edeps K e) \<Longrightarrow> mentions K s k"
  using edeps_items by (fastforce simp: mentions_def)

lemma mentions_item: "Item (item_of k) \<in> set (sym_dep_exprs K s) \<Longrightarrow> mentions K s k"
  by (force simp: mentions_def)

lemma mentions_choice:
  assumes "tree_ok K" and "k \<in> set (chdeps K s) \<or> k \<in> set (tdeps K s) \<or> (\<exists>c. s_choice (k_sym K s) = Some c \<and> k = KCSel c)"
  shows "mentions K s k"
proof -
  have "mentions K s k" if "item_of k = Cho c" "s_choice (k_sym K s) = Some c" for c
  proof -
    have "item_of k \<in> set (expr_items (s_direct_dep (k_sym K s)))"
      using assms(1) that by (simp add: tree_ok_def)
    then show ?thesis unfolding mentions_def using sym_dep_exprsI(6) by blast
  qed
  moreover have "mentions K s (KTri modules)" by (simp add: mentions_def)
  ultimately show ?thesis
    using assms(2) by (auto simp: chdeps_def tdeps_def dest!: cdeps_items split: option.splits if_splits)
qed

lemma sym_reads:
  assumes t: "tree_ok K" and k': "k' \<in> set (rdeps K k)" and s: "item_of k = Sym s"
  shows "mentions K s k'"
proof (cases k)
  case (KVis x)
  then show ?thesis
    using k' s mentions_choice [OF t] mentionsI [OF sym_dep_exprsI(1)] by (auto simp: pdeps_def)
next
  case (KTri x)
  then have [simp]: "x = s" using s by simp
  have self: "mentions K s (KVis s)" by (simp add: mentions_def)
  show ?thesis
    using k' mentionsI [OF sym_dep_exprsI(2)] mentionsI [OF sym_dep_exprsI(3)] mentionsI [OF sym_dep_exprsI(4)]
      mentionsI [OF sym_dep_exprsI(6)] mentions_choice [OF t] self
    by (fastforce simp: KTri split: if_splits option.splits)
next
  case (KStr x)
  then have [simp]: "x = s" using s by simp
  have self: "mentions K s (KVis s)" "mentions K s (KTri s)" by (simp_all add: mentions_def)
  have rng: "mentions K s (KStr l)" "mentions K s (KStr h)" if "(l, h, c) \<in> set (s_ranges (k_sym K s))" for l h c
    using sym_dep_exprsI(5) [OF that] by (auto intro!: mentions_item)
  have dfl: "mentions K s (KStr y)" if "(Item (Sym y), c) \<in> set (s_defaults (k_sym K s))" for y c
    using sym_dep_exprsI(2) [OF that] by (auto intro!: mentions_item)
  show ?thesis
    using k' self rng dfl mentionsI [OF sym_dep_exprsI(2)] mentionsI [OF sym_dep_exprsI(5)]
    by (fastforce simp: KStr dest: symdef_deps_items split: if_splits)
next
  case (KAsg x)
  then have [simp]: "x = s" using s by simp
  have self: "mentions K s (KVis s)" by (simp add: mentions_def)
  show ?thesis
    using k' self mentionsI [OF sym_dep_exprsI(3)] mentionsI [OF sym_dep_exprsI(4)] mentions_choice [OF t]
    by (auto simp: KAsg split: if_splits)
qed (use s in simp_all)

lemma choice_reads:
  assumes t: "tree_ok K" and k': "k' \<in> set (rdeps K k)" and c: "item_of k = Cho c"
  shows "item_of k' = Cho c \<or> k' = KTri modules \<or> (\<exists>x \<in> set (c_syms (k_choice K c)). item_of k' = Sym x) \<or>
     (\<exists>e \<in> set (choice_dep_exprs K c). item_of k' \<in> set (expr_items e))"
proof (cases k)
  case (KCVis x)
  then show ?thesis
    using k' c pdeps_items [of k' K "c_nodes (k_choice K c)"]
    by (auto simp: choice_dep_exprs_def Let_def ctdeps_def split: if_splits)
next
  case (KCSel x)
  then have [simp]: "x = c" using c by simp
  have cond: "k' = KTri modules \<or> (\<exists>e \<in> set (choice_dep_exprs K c). item_of k' \<in> set (expr_items e))"
    if "(v, e) \<in> set (c_defaults (k_choice K c))" "k' \<in> set (edeps K e)" for v e
    using edeps_items [OF that(2)] that(1) by (force simp: choice_dep_exprs_def Let_def)
  have dfl: "\<exists>x \<in> set (c_syms (k_choice K c)). item_of k' = Sym x"
    if "(v, e) \<in> set (c_defaults (k_choice K c))" "k' \<in> set (symdef_deps v KVis)" for v e
    using symdef_deps_items [OF that(2)] that(1) t by (auto simp: tree_ok_def)
  show ?thesis
    using k' cond dfl by (auto simp: KCSel dest!: cdeps_items)
next
  case (KCAsg x)
  then show ?thesis using k' c by (auto simp: ctdeps_def split: if_splits)
qed (use c in simp_all)

lemma undefined_reads:
  assumes t: "tree_ok K" and k': "k' \<in> set (vdeps K k)" and ne: "item_of k' \<noteq> item_of k"
  shows "item_of k \<in> set (all_items K)"
proof (rule ccontr)
  assume n: "item_of k \<notin> set (all_items K)"
  show False
  proof (cases "item_of k")
    case (Sym s)
    with n t have "s_nodes (k_sym K s) = []" "s_choice (k_sym K s) = None"
      "otype K s = (if nmy_tri s = None then UNKNOWN else TRISTATE)"
      by (auto simp: tree_ok_def all_items_def)
    with k' ne Sym show False
      by (cases k) (auto simp: vdeps_def promptless_def split: if_splits)
  next
    case (Cho c)
    with n t have "c_orig_type (k_choice K c) = UNKNOWN" "c_nodes (k_choice K c) = []"
      "c_syms (k_choice K c) = []" "c_defaults (k_choice K c) = []"
      by (auto simp: tree_ok_def all_items_def)
    with k' ne Cho show False
      by (cases k) (auto simp: vdeps_def promptless_def pdeps_def ctdeps_def cdeps_def)
  qed
qed

lemma linked_link:
  assumes t: "tree_ok K"
  shows "linked (link K)"
  unfolding linked_def
proof (intro conjI)
  have const: "\<not> constant_item x" if "x \<in> set (all_items K)" for x
    using t that by (auto simp: tree_ok_def all_items_def)
  have "item_of k \<in> set (add_choice_deps K (build_dep K) (item_of k'))"
    if k': "k' \<in> set (vdeps K k)" and i: "item_of k' \<in> set (all_items K)" "item_of k' \<noteq> item_of k"
      and nm: "item_of k' \<noteq> Sym modules" for k k'
  proof -
    have d: "item_of k \<in> set (all_items K)" by (rule undefined_reads [OF t k' i(2)])
    have r: "k' \<in> set (rdeps K k)" using k' vdeps_rdeps by blast
    show ?thesis
    proof (cases "item_of k")
      case (Sym s)
      with sym_reads [OF t r Sym] i nm d const [OF i(1)] show ?thesis
        by (auto simp: mentions_def add_choice_deps_set build_dep_set all_items_def)
    next
      case (Cho c)
      with choice_reads [OF t r Cho] i nm d const [OF i(1)] show ?thesis
        by (auto simp: add_choice_deps_set build_dep_set all_items_def)
    qed
  qed
  then show "deps_complete (link K)"
    using undefined_reads [OF t] by (auto simp: deps_complete_def dependents_link)
  show "closed_deps (link K)"
    by (auto simp: closed_deps_def dependents_link add_choice_deps_set build_dep_set all_items_def)
  show "consts_undefined (link K)"
    using t by (auto simp: consts_undefined_def tree_ok_def nmy_tri_def split: symref.splits)
qed

end
