(* ===== verification/Assign.thy ===== *)
theory Assign
  imports Invalidate
begin

text \<open>
  User assignments: \<open>Symbol.set_value\<close>, \<open>Symbol.unset_value\<close>, \<open>Choice.set_value\<close>,
  \<open>Choice.unset_value\<close> and \<open>Kconfig.unset_values\<close>. Each changes the assignments as
  documented, keeps the caches right, and returns when the call stack is deeper than the
  number of symbols and choices. A client's calls, in any order, return what the cache-free
  specification says.
\<close>

section \<open>Assigning and removing user values\<close>

text \<open>Tristate values given as strings: \<open>STR_TO_TRI\<close> applied where it is defined.\<close>

definition norm_tri :: "pyval \<Rightarrow> pyval" where
  "norm_tri v = (case v of
     PStr x \<Rightarrow> (case str_to_tri x of Some n \<Rightarrow> PInt n | None \<Rightarrow> v)
   | PInt _ \<Rightarrow> v)"

fun pyval_int :: "pyval \<Rightarrow> nat option" where
  "pyval_int (PInt m) = Some m"
| "pyval_int (PStr x) = None"

text \<open>\<open>Symbol.set_value\<close>, on a call stack of depth \<open>n\<close>\<close>

definition sym_set_value :: "kconfig \<Rightarrow> nat \<Rightarrow> symref \<Rightarrow> pyval \<Rightarrow> bool ev" where
  "sym_set_value K n s v =
     (let value = (if bool_tristate (otype K s) then norm_tri v else v) in
      bind (gets (\<lambda>d. user_value d s)) (\<lambda>uv.
      if uv = Some value \<and> s_choice (k_sym K s) = None then
        bind (modify (\<lambda>d. d\<lparr>was_set := (was_set d)(s := True)\<rparr>)) (\<lambda>_. ret True)
      else if \<not> valid_value (otype K s) value then
        bind (kwarn (W_invalid_value (Sym s) value)) (\<lambda>_. ret False)
      else
        bind (modify (\<lambda>d. d\<lparr>user_value := (user_value d)(s := Some value),
                           was_set := (was_set d)(s := True)\<rparr>)) (\<lambda>_.
        bind (case s_choice (k_sym K s) of
                Some c \<Rightarrow>
                  if value = PInt 2 then
                    bind (modify (\<lambda>d. d\<lparr>ch_user_selection := (ch_user_selection d)(c := Some s),
                                       ch_was_set := (ch_was_set d)(c := True)\<rparr>))
                      (\<lambda>_. rec_invalidate K n (Cho c))
                  else rec_invalidate_if_has_prompt K n s
              | None \<Rightarrow> rec_invalidate_if_has_prompt K n s)
          (\<lambda>_. ret True))))"

text \<open>\<open>Symbol.unset_value\<close>\<close>

definition sym_unset_value :: "kconfig \<Rightarrow> nat \<Rightarrow> symref \<Rightarrow> unit ev" where
  "sym_unset_value K n s =
     bind (gets (\<lambda>d. user_value d s)) (\<lambda>uv.
     if uv \<noteq> None then
       bind (modify (\<lambda>d. d\<lparr>user_value := (user_value d)(s := None)\<rparr>)) (\<lambda>_.
         rec_invalidate_if_has_prompt K n s)
     else ret ())"

text \<open>\<open>Choice.set_value\<close>\<close>

definition choice_set_value :: "kconfig \<Rightarrow> nat \<Rightarrow> choiceref \<Rightarrow> pyval \<Rightarrow> bool ev" where
  "choice_set_value K n c v =
     (let value = norm_tri v in
      bind (gets (\<lambda>d. ch_user_value d c)) (\<lambda>uv.
      if map_option PInt uv = Some value then
        bind (modify (\<lambda>d. d\<lparr>ch_was_set := (ch_was_set d)(c := True)\<rparr>)) (\<lambda>_. ret True)
      else if \<not> choice_valid (c_orig_type (k_choice K c)) value then
        bind (kwarn (W_invalid_value (Cho c) value)) (\<lambda>_. ret False)
      else
        bind (modify (\<lambda>d. d\<lparr>ch_user_value := (ch_user_value d)(c := pyval_int value),
                           ch_was_set := (ch_was_set d)(c := True)\<rparr>)) (\<lambda>_.
        bind (rec_invalidate K n (Cho c)) (\<lambda>_. ret True))))"

text \<open>\<open>Choice.unset_value\<close>\<close>

definition choice_unset_value :: "kconfig \<Rightarrow> nat \<Rightarrow> choiceref \<Rightarrow> unit ev" where
  "choice_unset_value K n c =
     bind (gets (\<lambda>d. (ch_user_value d c, ch_user_selection d c))) (\<lambda>(uv, us).
     if uv \<noteq> None \<or> us \<noteq> None then
       bind (modify (\<lambda>d. d\<lparr>ch_user_value := (ch_user_value d)(c := None),
                          ch_user_selection := (ch_user_selection d)(c := None)\<rparr>)) (\<lambda>_.
         rec_invalidate K n (Cho c))
     else ret ())"

text \<open>\<open>Kconfig.unset_values\<close>\<close>

definition unset_values :: "kconfig \<Rightarrow> nat \<Rightarrow> unit ev" where
  "unset_values K n =
     bind (modify (\<lambda>d. d\<lparr>warn_assign_no_prompt := False\<rparr>)) (\<lambda>_.
     bind (foldm (\<lambda>s _. sym_unset_value K n s) (k_unique_defined_syms K) ()) (\<lambda>_.
     bind (foldm (\<lambda>c _. choice_unset_value K n c) (k_unique_choices K) ()) (\<lambda>_.
     modify (\<lambda>d. d\<lparr>warn_assign_no_prompt := True\<rparr>))))"

section \<open>Assignments keep the caches right\<close>

definition ready :: "kconfig \<Rightarrow> (vkey \<Rightarrow> nat) \<Rightarrow> bool" where
  "ready K rk = (sound_kconfig K rk \<and> linked K \<and> tree_ok K)"

lemma cached_users [simp]:
  "cached K (d\<lparr>was_set := a\<rparr>) = cached K d" "cached K (d\<lparr>user_value := b\<rparr>) = cached K d"
  "cached K (d\<lparr>ch_was_set := a'\<rparr>) = cached K d" "cached K (d\<lparr>ch_user_value := e\<rparr>) = cached K d"
  "cached K (d\<lparr>ch_user_selection := f\<rparr>) = cached K d" "cached K (d\<lparr>warnings := w\<rparr>) = cached K d"
  "cached K (d\<lparr>warn_assign_no_prompt := p\<rparr>) = cached K d"
  by (rule ext, case_tac x; simp split: option.split)+

lemma consts_ok_users [simp]:
  "consts_ok (d\<lparr>was_set := a\<rparr>) = consts_ok d" "consts_ok (d\<lparr>user_value := b\<rparr>) = consts_ok d"
  "consts_ok (d\<lparr>ch_was_set := a'\<rparr>) = consts_ok d" "consts_ok (d\<lparr>ch_user_value := e\<rparr>) = consts_ok d"
  "consts_ok (d\<lparr>ch_user_selection := f\<rparr>) = consts_ok d" "consts_ok (d\<lparr>warnings := w\<rparr>) = consts_ok d"
  "consts_ok (d\<lparr>warn_assign_no_prompt := p\<rparr>) = consts_ok d"
  by (simp_all add: consts_ok_def)

lemma usr_update [simp]:
  "usr (d\<lparr>was_set := a\<rparr>) = usr d" "usr (d\<lparr>ch_was_set := a'\<rparr>) = usr d" "usr (d\<lparr>warnings := w\<rparr>) = usr d"
  "usr (d\<lparr>warn_assign_no_prompt := p\<rparr>) = usr d"
  "usr (d\<lparr>user_value := b\<rparr>) = (usr d)\<lparr>u_sym := b\<rparr>" "usr (d\<lparr>ch_user_value := e\<rparr>) = (usr d)\<lparr>u_cho := e\<rparr>"
  "usr (d\<lparr>ch_user_selection := f\<rparr>) = (usr d)\<lparr>u_sel := f\<rparr>"
  by (simp_all add: usr_def)

lemma usr_sel [simp]: "u_sym (usr d) = user_value d" "u_cho (usr d) = ch_user_value d" "u_sel (usr d) = ch_user_selection d"
  by (simp_all add: usr_def)

lemma usr_clear [simp]: "usr (clear X d) = usr d"
  by (simp add: usr_def clear_def)

lemma good_same_view:
  assumes "cached K d' = cached K d" and "usr d' = usr d" and "consts_ok d' = consts_ok d"
  shows "good K d' = good K d"
  by (simp only: good_def coh_def agree_def assms)

lemma good_flags [simp]:
  "good K (d\<lparr>was_set := a\<rparr>) = good K d" "good K (d\<lparr>ch_was_set := a'\<rparr>) = good K d"
  "good K (d\<lparr>warnings := w\<rparr>) = good K d" "good K (d\<lparr>warn_assign_no_prompt := p\<rparr>) = good K d"
  by (rule good_same_view; simp)+

lemma readyD:
  assumes "ready K rk"
  shows "sound_kconfig K rk" "linked K" "tree_ok K" "closed_deps K" "wf_kconfig K"
  using assms by (simp_all add: ready_def linkedD sound_kconfig_def)

lemma choice_sym_linked:
  assumes r: "ready K rk" and c: "s_choice (k_sym K s) = Some c"
  shows "Cho c \<in> set (all_items K)" and "Sym s \<in> set (dependents K (Cho c))" and "s \<in> set (c_syms (k_choice K c))"
proof -
  show mem: "s \<in> set (c_syms (k_choice K c))"
    using readyD(5) [OF r] c by (simp add: wf_kconfig_def)
  show all: "Cho c \<in> set (all_items K)"
    using mem readyD(3) [OF r] by (auto simp: tree_ok_def all_items_def)
  have "KCVis c \<in> set (vdeps K (KVis s))"
    using c by (simp add: vdeps_def promptless_def chdeps_def cdeps_def)
  then show "Sym s \<in> set (dependents K (Cho c))"
    using linkedD(1) [OF readyD(2) [OF r]] all by (force simp: deps_complete_def)
qed

lemma prompt_defined:
  assumes "tree_ok K" and "prompt_conds K (s_nodes (k_sym K s)) \<noteq> []"
  shows "Sym s \<in> set (all_items K)"
  using assms by (cases "s \<in> set (k_unique_defined_syms K)") (auto simp: tree_ok_def all_items_def)

lemma not_same_userE:
  assumes "\<not> same_user K u v k"
  obtains (sym) s where "item_of k = Sym s" "u_sym u s \<noteq> u_sym v s" "prompt_conds K (s_nodes (k_sym K s)) \<noteq> []"
    | (sel) c where "item_of k = Cho c" "u_sel u c \<noteq> u_sel v c"
  using assms by (cases k) (auto simp: same_own_def split: if_splits)

text \<open>A new user value for a symbol, followed by the invalidation that goes with it.\<close>

lemma good_new_user_value:
  assumes r: "ready K rk" and g: "good K d"
    and v: "\<And>w. v = Some w \<Longrightarrow> valid_value (otype K s) w"
    and d1: "d1 = d\<lparr>user_value := (user_value d)(s := v)\<rparr>"
    and run: "rec_invalidate_if_has_prompt K n s d1 = Inr ((), d')"
  shows "good K d' \<and> usr d' = usr d1"
proof (cases "prompt_conds K (s_nodes (k_sym K s)) = []")
  case True
  have "good K (clear {} d1)"
  proof (rule good_clear [OF readyD(1,2) [OF r] g])
    show "wf_users K (usr d1)" using g v by (auto simp: d1 good_def wf_users_def split: if_splits)
    show "\<not> vis_cached (clear {} d1) (item_of k)" if "\<not> same_user K (usr d) (usr d1) k" for k
      using that by (cases rule: not_same_userE) (use True in \<open>auto simp: d1 split: if_splits\<close>)
  qed (use g in \<open>auto simp: d1 good_def\<close>)
  moreover have "good K d' = good K d1 \<and> usr d' = usr d1"
    using run True by (auto simp: rec_invalidate_if_has_prompt_def kwarn_def monad_defs split: if_splits)
  ultimately show ?thesis by simp
next
  case False
  have s: "Sym s \<in> set (all_items K)" by (rule prompt_defined [OF readyD(3) [OF r] False])
  have "rec_invalidate K n (Sym s) d1 = Inr ((), d')"
    using run False by (simp add: rec_invalidate_if_has_prompt_def)
  then obtain X where X: "X \<subseteq> set (all_items K)" "d' = clear X d1" "Sym s \<in> X" "\<forall>y \<in> X. settled K d' y"
    using rec_invalidate_spec [OF readyD(4) [OF r] s] by blast
  have "good K (clear X d1)"
  proof (rule good_clear [OF readyD(1,2) [OF r] g])
    show "wf_users K (usr d1)" using g v by (auto simp: d1 good_def wf_users_def split: if_splits)
    show "\<not> vis_cached (clear X d1) (item_of k)"
      if "item_of k \<notin> X" "\<not> same_user K (usr d) (usr d1) k" for k
      using that(2) by (cases rule: not_same_userE) (use that(1) X(3) in \<open>auto simp: d1 split: if_splits\<close>)
  qed (use g X in \<open>auto simp: d1 good_def\<close>)
  with X(2) show ?thesis by simp
qed

text \<open>A new user value and selection for a choice, followed by its invalidation.\<close>

lemma good_new_choice_value:
  assumes r: "ready K rk" and g: "good K d" and c: "Cho c \<in> set (all_items K)"
    and s: "user_value d1 = user_value d \<or>
      (\<exists>s v. s_choice (k_sym K s) = Some c \<and> valid_value (otype K s) v \<and> user_value d1 = (user_value d)(s := Some v))"
    and uc: "\<And>x. x \<noteq> c \<Longrightarrow> ch_user_value d1 x = ch_user_value d x" "\<And>m. ch_user_value d1 c = Some m \<Longrightarrow> choice_valid (c_orig_type (k_choice K c)) (PInt m)"
    and us: "\<And>x. x \<noteq> c \<Longrightarrow> ch_user_selection d1 x = ch_user_selection d x"
      "\<And>s. ch_user_selection d1 c = Some s \<Longrightarrow> s \<in> set (c_syms (k_choice K c))"
    and d1: "cached K d1 = cached K d" "consts_ok d1 = consts_ok d"
    and run: "rec_invalidate K n (Cho c) d1 = Inr ((), d')"
  shows "good K d' \<and> usr d' = usr d1"
proof -
  obtain X where X: "X \<subseteq> set (all_items K)" "d' = clear X d1" "Cho c \<in> X" "\<forall>y \<in> X. settled K d' y"
    using rec_invalidate_spec [OF readyD(4) [OF r] c run] by blast
  have dep: "\<not> vis_cached d' (Sym s)" if "s_choice (k_sym K s) = Some c" for s
    using X(3,4) choice_sym_linked(2) [OF r that] by (force simp: settled_def)
  have "good K (clear X d1)"
  proof (rule good_clear [OF readyD(1,2) [OF r] g])
    have wu: "wf_users K (usr d)" using g by (simp add: good_def)
    show "wf_users K (usr d1)"
      unfolding wf_users_def usr_sel
    proof (intro conjI allI impI)
      show "valid_value (otype K x) v" if "user_value d1 x = Some v" for x v
        using s that wf_usersD(1) [OF wu] by (auto split: if_splits)
      show "choice_valid (c_orig_type (k_choice K x)) (PInt m)" if "ch_user_value d1 x = Some m" for x m
        using uc that wf_usersD(2) [OF wu] by (cases "x = c") auto
      show "y \<in> set (c_syms (k_choice K x))" if "ch_user_selection d1 x = Some y" for x y
        using us that wf_usersD(3) [OF wu] by (cases "x = c") auto
    qed
    show "\<not> vis_cached (clear X d1) (item_of k)"
      if k: "item_of k \<notin> X" "\<not> same_user K (usr d) (usr d1) k" for k
      using k(2)
    proof (cases rule: not_same_userE)
      case (sym x)
      have "s_choice (k_sym K x) = Some c"
        using s sym(2) by (auto split: if_splits)
      then show ?thesis using dep X(2) sym(1) by simp
    next
      case (sel x)
      then have "x = c" using us(1) [of x] by auto
      with sel(1) k(1) X(3) show ?thesis by simp
    qed
    show "Cho x \<in> X" if "u_cho (usr d) x \<noteq> u_cho (usr d1) x" for x
      using that uc(1) [of x] X(3) by (cases "x = c") auto
  qed (use g X d1 in \<open>auto simp: good_def\<close>)
  with X(2) show ?thesis by simp
qed

section \<open>What the operations do to the user's assignments\<close>

definition value_for :: "kconfig \<Rightarrow> symref \<Rightarrow> pyval \<Rightarrow> pyval" where
  "value_for K s v = (if bool_tristate (otype K s) then norm_tri v else v)"

definition assign_sym :: "kconfig \<Rightarrow> symref \<Rightarrow> pyval \<Rightarrow> users \<Rightarrow> users" where
  "assign_sym K s v u =
     (if valid_value (otype K s) v then
        u\<lparr>u_sym := (u_sym u)(s := Some v),
          u_sel := (case s_choice (k_sym K s) of
                      Some c \<Rightarrow> if v = PInt 2 then (u_sel u)(c := Some s) else u_sel u
                    | None \<Rightarrow> u_sel u)\<rparr>
      else u)"

definition assign_choice :: "kconfig \<Rightarrow> choiceref \<Rightarrow> pyval \<Rightarrow> users \<Rightarrow> users" where
  "assign_choice K c v u =
     (if choice_valid (c_orig_type (k_choice K c)) v then u\<lparr>u_cho := (u_cho u)(c := pyval_int v)\<rparr> else u)"

lemma returns_depth:
  assumes "length (all_items K) < n"
  shows "card {y \<in> set (all_items K). y \<noteq> x \<and> vis_cached d y} < n"
proof -
  have "card {y \<in> set (all_items K). y \<noteq> x \<and> vis_cached d y} \<le> card (set (all_items K))"
    by (rule card_mono) auto
  with assms card_length [of "all_items K"] show ?thesis by simp
qed

lemma item_invalidate_returns:
  assumes r: "ready K rk" and n: "length (all_items K) < n" and x: "x \<in> set (all_items K)"
  shows "\<exists>d'. rec_invalidate K n x d = Inr ((), d')"
  using rec_invalidate_returns [OF readyD(4) [OF r] x returns_depth [OF n]] by blast

lemma rec_invalidate_if_has_prompt_returns:
  assumes r: "ready K rk" and n: "length (all_items K) < n"
  shows "\<exists>d'. rec_invalidate_if_has_prompt K n s d = Inr ((), d')"
proof (cases "prompt_conds K (s_nodes (k_sym K s)) = []")
  case True
  then show ?thesis by (simp add: rec_invalidate_if_has_prompt_def kwarn_def monad_defs)
next
  case False
  with item_invalidate_returns [OF r n prompt_defined [OF readyD(3) [OF r] False]] show ?thesis
    by (simp add: rec_invalidate_if_has_prompt_def)
qed

lemma sym_set_value_good:
  assumes r: "ready K rk" and g: "good K d" and run: "sym_set_value K n s v d = Inr (b, d')"
  shows "good K d' \<and> usr d' = assign_sym K s (value_for K s v) (usr d) \<and>
     b = valid_value (otype K s) (value_for K s v)"
proof -
  define w where "w = value_for K s v"
  have wu: "wf_users K (usr d)" using g by (simp add: good_def)
  note sv = sym_set_value_def [of K n s v, folded value_for_def, folded w_def, unfolded Let_def]
  consider (same) "user_value d s = Some w" "s_choice (k_sym K s) = None"
    | (invalid) "\<not> (user_value d s = Some w \<and> s_choice (k_sym K s) = None)" "\<not> valid_value (otype K s) w"
    | (sel) c where "valid_value (otype K s) w" "s_choice (k_sym K s) = Some c" "w = PInt 2"
    | (val) "valid_value (otype K s) w" "\<not> (user_value d s = Some w \<and> s_choice (k_sym K s) = None)"
        "s_choice (k_sym K s) = None \<or> w \<noteq> PInt 2"
    by (cases "s_choice (k_sym K s)") auto
  then show ?thesis
  proof cases
    case same
    then have "valid_value (otype K s) w" using wf_usersD(1) [OF wu, of s w] by simp
    moreover have "(user_value d)(s := Some w) = user_value d" using same by auto
    ultimately show ?thesis
      using run g same by (auto simp: sv monad_defs assign_sym_def w_def [symmetric])
  next
    case invalid
    then show ?thesis
      using run g by (auto simp: sv monad_defs kwarn_def assign_sym_def w_def [symmetric] split: if_splits)
  next
    case (sel c)
    define d1 where "d1 = d\<lparr>user_value := (user_value d)(s := Some w), was_set := (was_set d)(s := True),
      ch_user_selection := (ch_user_selection d)(c := Some s), ch_was_set := (ch_was_set d)(c := True)\<rparr>"
    have 1: "rec_invalidate K n (Cho c) d1 = Inr ((), d')" and b
      using run sel by (auto simp: sv monad_defs d1_def split: sum.splits)
    note link = choice_sym_linked [OF r sel(2)]
    have "good K d' \<and> usr d' = usr d1"
    proof (rule good_new_choice_value [OF r g link(1) _ _ _ _ _ _ _ 1])
      show "user_value d1 = user_value d \<or> (\<exists>s v. s_choice (k_sym K s) = Some c \<and>
          valid_value (otype K s) v \<and> user_value d1 = (user_value d)(s := Some v))"
        using sel by (auto simp: d1_def)
      show "choice_valid (c_orig_type (k_choice K c)) (PInt m)" if "ch_user_value d1 c = Some m" for m
        using that wf_usersD(2) [OF wu] by (simp add: d1_def)
    qed (use link(3) in \<open>simp_all add: d1_def\<close>)
    then show ?thesis
      using sel \<open>b\<close> by (auto simp: d1_def assign_sym_def w_def [symmetric])
  next
    case val
    define d0 where "d0 = d\<lparr>was_set := (was_set d)(s := True)\<rparr>"
    define d1 where "d1 = d0\<lparr>user_value := (user_value d0)(s := Some w)\<rparr>"
    have d1': "d1 = d\<lparr>user_value := (user_value d)(s := Some w), was_set := (was_set d)(s := True)\<rparr>"
      by (simp add: d1_def d0_def)
    have 1: "rec_invalidate_if_has_prompt K n s d1 = Inr ((), d')" and b
      using run val by (auto simp: sv monad_defs d1' split: sum.splits option.splits if_splits)
    have "good K d' \<and> usr d' = usr d1"
      by (rule good_new_user_value [OF r _ _ d1_def 1]) (use g val in \<open>auto simp: d0_def\<close>)
    then show ?thesis
      using val \<open>b\<close> by (auto simp: d1' assign_sym_def w_def [symmetric] split: option.splits)
  qed
qed

lemma choice_set_value_good:
  assumes r: "ready K rk" and g: "good K d" and c: "Cho c \<in> set (all_items K)"
    and run: "choice_set_value K n c v d = Inr (b, d')"
  shows "good K d' \<and> usr d' = assign_choice K c (norm_tri v) (usr d) \<and>
     b = choice_valid (c_orig_type (k_choice K c)) (norm_tri v)"
proof -
  define w where "w = norm_tri v"
  have wu: "wf_users K (usr d)" using g by (simp add: good_def)
  note sv = choice_set_value_def [of K n c v, folded w_def, unfolded Let_def]
  consider (same) "map_option PInt (ch_user_value d c) = Some w"
    | (invalid) "map_option PInt (ch_user_value d c) \<noteq> Some w" "\<not> choice_valid (c_orig_type (k_choice K c)) w"
    | (val) "map_option PInt (ch_user_value d c) \<noteq> Some w" "choice_valid (c_orig_type (k_choice K c)) w" by blast
  then show ?thesis
  proof cases
    case same
    then obtain m where m: "ch_user_value d c = Some m" "w = PInt m" by auto
    then have "choice_valid (c_orig_type (k_choice K c)) w" "(ch_user_value d)(c := Some m) = ch_user_value d"
      using wf_usersD(2) [OF wu, of c m] by auto
    then show ?thesis
      using run g m by (auto simp: sv monad_defs assign_choice_def w_def [symmetric])
  next
    case invalid
    then show ?thesis
      using run g by (auto simp: sv monad_defs kwarn_def assign_choice_def w_def [symmetric] split: if_splits)
  next
    case val
    obtain m where m: "w = PInt m" using val(2) by (cases "(c_orig_type (k_choice K c), w)" rule: choice_valid.cases) auto
    define d1 where "d1 = d\<lparr>ch_user_value := (ch_user_value d)(c := Some m), ch_was_set := (ch_was_set d)(c := True)\<rparr>"
    have 1: "rec_invalidate K n (Cho c) d1 = Inr ((), d')" and b
      using run val m by (auto simp: sv monad_defs d1_def split: sum.splits)
    have "good K d' \<and> usr d' = usr d1"
    proof (rule good_new_choice_value [OF r g c _ _ _ _ _ _ _ 1])
      show "choice_valid (c_orig_type (k_choice K c)) (PInt k)" if "ch_user_value d1 c = Some k" for k
        using that val(2) m by (auto simp: d1_def)
      show "s \<in> set (c_syms (k_choice K c))" if "ch_user_selection d1 c = Some s" for s
        using that wf_usersD(3) [OF wu] by (simp add: d1_def)
    qed (simp_all add: d1_def)
    then show ?thesis
      using val m \<open>b\<close> by (simp add: d1_def assign_choice_def w_def [symmetric])
  qed
qed

lemma sym_unset_value_good:
  assumes r: "ready K rk" and g: "good K d" and run: "sym_unset_value K n s d = Inr ((), d')"
  shows "good K d' \<and> usr d' = (usr d)\<lparr>u_sym := (u_sym (usr d))(s := None)\<rparr>"
proof (cases "user_value d s")
  case None
  then have "(user_value d)(s := None) = user_value d" by auto
  with None run g show ?thesis by (auto simp: sym_unset_value_def monad_defs)
next
  case (Some v)
  define d1 where "d1 = d\<lparr>user_value := (user_value d)(s := None)\<rparr>"
  have 1: "rec_invalidate_if_has_prompt K n s d1 = Inr ((), d')"
    using run Some by (simp add: sym_unset_value_def monad_defs d1_def)
  show ?thesis using good_new_user_value [OF r g _ d1_def 1] by (simp add: d1_def)
qed

lemma choice_unset_value_good:
  assumes r: "ready K rk" and g: "good K d" and c: "Cho c \<in> set (all_items K)"
    and run: "choice_unset_value K n c d = Inr ((), d')"
  shows "good K d' \<and> usr d' = (usr d)\<lparr>u_cho := (u_cho (usr d))(c := None), u_sel := (u_sel (usr d))(c := None)\<rparr>"
proof (cases "ch_user_value d c = None \<and> ch_user_selection d c = None")
  case True
  then have "(ch_user_value d)(c := None) = ch_user_value d" "(ch_user_selection d)(c := None) = ch_user_selection d"
    by auto
  with True run g show ?thesis by (auto simp: choice_unset_value_def monad_defs)
next
  case False
  define d1 where "d1 = d\<lparr>ch_user_value := (ch_user_value d)(c := None),
    ch_user_selection := (ch_user_selection d)(c := None)\<rparr>"
  have 1: "rec_invalidate K n (Cho c) d1 = Inr ((), d')"
    using run False by (auto simp: choice_unset_value_def monad_defs d1_def)
  have "good K d' \<and> usr d' = usr d1"
    by (rule good_new_choice_value [OF r g c _ _ _ _ _ _ _ 1]) (simp_all add: d1_def)
  then show ?thesis by (simp add: d1_def)
qed

section \<open>The operations return\<close>

lemma sym_set_value_returns:
  assumes r: "ready K rk" and n: "length (all_items K) < n"
  shows "\<exists>b d'. sym_set_value K n s v d = Inr (b, d')"
proof -
  have p: "\<exists>d'. rec_invalidate_if_has_prompt K n s e = Inr ((), d')" for e
    by (rule rec_invalidate_if_has_prompt_returns [OF r n])
  have c: "\<exists>d'. rec_invalidate K n (Cho c) e = Inr ((), d')" if "s_choice (k_sym K s) = Some c" for c e
    by (rule item_invalidate_returns [OF r n choice_sym_linked(1) [OF r that]])
  show ?thesis
  proof (cases "s_choice (k_sym K s)")
    case None
    with p [of "d\<lparr>user_value := (user_value d)(s := Some (value_for K s v)), was_set := (was_set d)(s := True)\<rparr>"]
    show ?thesis by (auto simp: sym_set_value_def value_for_def [symmetric] Let_def kwarn_def monad_defs)
  next
    case (Some c)
    with p [of "d\<lparr>user_value := (user_value d)(s := Some (value_for K s v)), was_set := (was_set d)(s := True)\<rparr>"]
      c [OF Some, of "d\<lparr>user_value := (user_value d)(s := Some (value_for K s v)), was_set := (was_set d)(s := True),
        ch_user_selection := (ch_user_selection d)(c := Some s), ch_was_set := (ch_was_set d)(c := True)\<rparr>"]
    show ?thesis by (auto simp: sym_set_value_def value_for_def [symmetric] Let_def kwarn_def monad_defs)
  qed
qed

lemma choice_set_value_returns:
  assumes r: "ready K rk" and n: "length (all_items K) < n" and c: "Cho c \<in> set (all_items K)"
  shows "\<exists>b d'. choice_set_value K n c v d = Inr (b, d')"
  using item_invalidate_returns [OF r n c, of "d\<lparr>ch_user_value := (ch_user_value d)(c := pyval_int (norm_tri v)),
    ch_was_set := (ch_was_set d)(c := True)\<rparr>"]
  by (auto simp: choice_set_value_def Let_def kwarn_def monad_defs)

lemma sym_unset_value_returns:
  assumes r: "ready K rk" and n: "length (all_items K) < n"
  shows "\<exists>d'. sym_unset_value K n s d = Inr ((), d')"
  using rec_invalidate_if_has_prompt_returns [OF r n, of s "d\<lparr>user_value := (user_value d)(s := None)\<rparr>"]
  by (auto simp: sym_unset_value_def monad_defs)

lemma choice_unset_value_returns:
  assumes r: "ready K rk" and n: "length (all_items K) < n" and c: "Cho c \<in> set (all_items K)"
  shows "\<exists>d'. choice_unset_value K n c d = Inr ((), d')"
  using item_invalidate_returns [OF r n c, of "d\<lparr>ch_user_value := (ch_user_value d)(c := None),
    ch_user_selection := (ch_user_selection d)(c := None)\<rparr>"]
  by (auto simp: choice_unset_value_def monad_defs)

section \<open>Sessions\<close>

text \<open>
  A client's calls: assignments, and reads of \<open>visibility\<close>, \<open>tri_value\<close>, \<open>str_value\<close>,
  \<open>assignable\<close> and \<open>selection\<close>, each with what it returns.
\<close>

datatype apicall =
    SetSym symref pyval | UnsetSym symref | SetChoice choiceref pyval | UnsetChoice choiceref
  | ReadVis symref | ReadTri symref | ReadStr symref | ReadAsg symref
  | ReadCVis choiceref | ReadCTri choiceref | ReadSel choiceref | ReadCAsg choiceref

datatype obs = ODone | OBool bool | OTri nat | OStr string | OList "nat list" | OSel "symref option"

fun call :: "kconfig \<Rightarrow> nat \<Rightarrow> apicall \<Rightarrow> obs ev" where
  "call K n (SetSym s v) = bind (sym_set_value K n s v) (\<lambda>b. ret (OBool b))"
| "call K n (UnsetSym s) = bind (sym_unset_value K n s) (\<lambda>_. ret ODone)"
| "call K n (SetChoice c v) = bind (choice_set_value K n c v) (\<lambda>b. ret (OBool b))"
| "call K n (UnsetChoice c) = bind (choice_unset_value K n c) (\<lambda>_. ret ODone)"
| "call K n (ReadVis s) = bind (a_vis (accs K n) s) (\<lambda>v. ret (OTri v))"
| "call K n (ReadTri s) = bind (a_tri (accs K n) s) (\<lambda>v. ret (OTri v))"
| "call K n (ReadStr s) = bind (a_str (accs K n) s) (\<lambda>v. ret (OStr v))"
| "call K n (ReadAsg s) = bind (get_asg K (accs K n) s) (\<lambda>v. ret (OList v))"
| "call K n (ReadCVis c) = bind (a_cvis (accs K n) c) (\<lambda>v. ret (OTri v))"
| "call K n (ReadCTri c) = bind (choice_tri_value K (accs K n) c) (\<lambda>v. ret (OTri v))"
| "call K n (ReadSel c) = bind (a_sel (accs K n) c) (\<lambda>v. ret (OSel v))"
| "call K n (ReadCAsg c) = bind (get_casg K (accs K n) c) (\<lambda>v. ret (OList v))"

fun calls :: "kconfig \<Rightarrow> nat \<Rightarrow> apicall list \<Rightarrow> obs list ev" where
  "calls K n [] = ret []"
| "calls K n (a # as) = bind (call K n a) (\<lambda>x. bind (calls K n as) (\<lambda>xs. ret (x # xs)))"

text \<open>
  The same calls on the specification: there are no caches, and every read is answered from
  the valuation of the current assignments.
\<close>

fun spec_call :: "kconfig \<Rightarrow> (vkey \<Rightarrow> nat) \<Rightarrow> apicall \<Rightarrow> users \<Rightarrow> obs \<times> users" where
  "spec_call K rk (SetSym s v) u =
     (OBool (valid_value (otype K s) (value_for K s v)), assign_sym K s (value_for K s v) u)"
| "spec_call K rk (UnsetSym s) u = (ODone, u\<lparr>u_sym := (u_sym u)(s := None)\<rparr>)"
| "spec_call K rk (SetChoice c v) u =
     (OBool (choice_valid (c_orig_type (k_choice K c)) (norm_tri v)), assign_choice K c (norm_tri v) u)"
| "spec_call K rk (UnsetChoice c) u = (ODone, u\<lparr>u_cho := (u_cho u)(c := None), u_sel := (u_sel u)(c := None)\<rparr>)"
| "spec_call K rk (ReadVis s) u = (OTri (rvis K (solution K u rk) s), u)"
| "spec_call K rk (ReadTri s) u = (OTri (rtri (solution K u rk) s), u)"
| "spec_call K rk (ReadStr s) u = (OStr (rstr (solution K u rk) s), u)"
| "spec_call K rk (ReadAsg s) u = (OList (rasg (solution K u rk) s), u)"
| "spec_call K rk (ReadCVis c) u = (OTri (rcvis (solution K u rk) c), u)"
| "spec_call K rk (ReadCTri c) u = (OTri (ctri_spec K u (solution K u rk) c), u)"
| "spec_call K rk (ReadSel c) u = (OSel (rsel (solution K u rk) c), u)"
| "spec_call K rk (ReadCAsg c) u = (OList (rcasg (solution K u rk) c), u)"

fun spec_calls :: "kconfig \<Rightarrow> (vkey \<Rightarrow> nat) \<Rightarrow> apicall list \<Rightarrow> users \<Rightarrow> obs list \<times> users" where
  "spec_calls K rk [] u = ([], u)"
| "spec_calls K rk (a # as) u =
     (let (x, u1) = spec_call K rk a u; (xs, u2) = spec_calls K rk as u1 in (x # xs, u2))"

fun call_ok :: "kconfig \<Rightarrow> apicall \<Rightarrow> bool" where
  "call_ok K (SetChoice c v) = (c \<in> set (k_unique_choices K))"
| "call_ok K (UnsetChoice c) = (c \<in> set (k_unique_choices K))"
| "call_ok K _ = True"

lemma good_read:
  assumes "ready K rk" and "good K d" and "cps K (usr d) (vals K rk d) m f"
  shows "\<exists>d'. bind m (\<lambda>v. ret (g v)) d = Inr (g (f (vals K rk d)), d') \<and> usr d' = usr d \<and> good K d'"
  using good_calc [OF readyD(1) [OF assms(1)] assms(2,3)] by (auto simp: monad_defs)

lemma call_refines:
  assumes r: "ready K rk" and g: "good K d" and ok: "call_ok K a"
    and n: "length (all_items K) < n" and rk: "\<And>k. rk k < n"
  shows "\<exists>x d'. call K n a d = Inr (x, d') \<and> (x, usr d') = spec_call K rk a (usr d) \<and> good K d'"
proof -
  have cho: "Cho c \<in> set (all_items K)" if "c \<in> set (k_unique_choices K)" for c
    using that by (simp add: all_items_def)
  have ro: "reads_ok K (usr d) (vals K rk d) (accs K n) UNIV"
    using good_reads [OF readyD(1) [OF r] g, of n] rk by simp
  have v: "is_valuation K (usr d) (vals K rk d)"
    using r g by (auto simp: ready_def sound_kconfig_def good_def intro: solution_is_valuation)
  note rd = good_read [OF r g]
  note reads = rd [OF reads_okD(1) [OF ro UNIV_I]] rd [OF reads_okD(2) [OF ro UNIV_I]] rd [OF reads_okD(3) [OF ro UNIV_I]]
    rd [OF reads_okD(4) [OF ro UNIV_I]] rd [OF reads_okD(5) [OF ro UNIV_I]] rd [OF cps_get_asg [OF ro _ v]]
    rd [OF cps_get_casg [OF ro _ v]] rd [OF cps_choice_tri_value [OF ro]]
  show ?thesis
  proof (cases a)
    case (SetSym s v)
    obtain b d' where "sym_set_value K n s v d = Inr (b, d')" using sym_set_value_returns [OF r n] by blast
    with sym_set_value_good [OF r g this] SetSym show ?thesis by (auto simp: monad_defs)
  next
    case (UnsetSym s)
    obtain d' where "sym_unset_value K n s d = Inr ((), d')" using sym_unset_value_returns [OF r n] by blast
    with sym_unset_value_good [OF r g this] UnsetSym show ?thesis by (auto simp: monad_defs)
  next
    case (SetChoice c v)
    with ok cho have c: "Cho c \<in> set (all_items K)" by simp
    obtain b d' where "choice_set_value K n c v d = Inr (b, d')" using choice_set_value_returns [OF r n c] by blast
    with choice_set_value_good [OF r g c this] SetChoice show ?thesis by (auto simp: monad_defs)
  next
    case (UnsetChoice c)
    with ok cho have c: "Cho c \<in> set (all_items K)" by simp
    obtain d' where "choice_unset_value K n c d = Inr ((), d')" using choice_unset_value_returns [OF r n c] by blast
    with choice_unset_value_good [OF r g c this] UnsetChoice show ?thesis by (auto simp: monad_defs)
  qed (use reads in \<open>fastforce\<close>)+
qed

text \<open>Any sequence of calls behaves as on the specification.\<close>

lemma calls_refine:
  assumes r: "ready K rk" and n: "length (all_items K) < n" and rk: "\<And>k. rk k < n"
  shows "good K d \<Longrightarrow> list_all (call_ok K) as \<Longrightarrow>
    \<exists>xs d'. calls K n as d = Inr (xs, d') \<and> (xs, usr d') = spec_calls K rk as (usr d) \<and> good K d'"
proof (induction as arbitrary: d)
  case Nil
  then show ?case by (simp add: ret_def)
next
  case (Cons a as)
  obtain x d1 where 1: "call K n a d = Inr (x, d1)" "(x, usr d1) = spec_call K rk a (usr d)" "good K d1"
    using call_refines [OF r Cons.prems(1) _ n rk, of a] Cons.prems(2) by force
  obtain xs d2 where 2: "calls K n as d1 = Inr (xs, d2)" "(xs, usr d2) = spec_calls K rk as (usr d1)" "good K d2"
    using Cons.IH [OF 1(3)] Cons.prems(2) by force
  have "calls K n (a # as) d = Inr (x # xs, d2)"
    using 1(1) 2(1) by (simp add: monad_defs)
  moreover have "(x # xs, usr d2) = spec_calls K rk (a # as) (usr d)"
    by (simp add: 1(2) [symmetric] 2(2) [symmetric])
  ultimately show ?case using 2(3) by blast
qed

end
