(* ===== verification/Laws.thy ===== *)
theory Laws
  imports Assign
begin

text \<open>
  What the calculated values satisfy, stated on valuations: assignable values take effect,
  a select is a lower bound, a choice has at most one symbol set to \<open>y\<close> and selects one
  when it can, an int or hex value lies in the active range.
\<close>

section \<open>The value of a symbol that is not in a choice\<close>

lemma valuation_tri:
  assumes "is_valuation K u \<rho>" and "nmy_tri s = None" and "bool_tristate (otype K s)"
  shows "rtri \<rho> s = fst (tri_spec K u \<rho> s)"
  using is_valuationD [OF assms(1), of "KTri s"] assms(2,3) by (simp add: rtri_def min_absorb1)

lemma valuation_vis:
  assumes "is_valuation K u \<rho>"
  shows "rvis K \<rho> s = vis_spec K u \<rho> s"
  using is_valuationD [OF assms(1), of "KVis s"] by (simp add: rvis_def vis_spec_promptless min_absorb1)

lemma valuation_sel: "is_valuation K u \<rho> \<Longrightarrow> rsel \<rho> c = sel_spec K u \<rho> c"
  using is_valuationD [of K u \<rho> "KCSel c"] by (simp add: rsel_def)

lemma valuation_asg: "is_valuation K u \<rho> \<Longrightarrow> rasg \<rho> s = asg_spec K u \<rho> s"
  using is_valuationD [of K u \<rho> "KAsg s"] by (simp add: rasg_def)

lemma valuation_str:
  assumes "is_valuation K u \<rho>" and "\<not> bool_tristate (otype K s)" and "otype K s \<noteq> UNKNOWN"
  shows "rstr \<rho> s = fst (str_spec K u \<rho> s)"
  using is_valuationD [OF assms(1), of "KStr s"] assms(2,3) by (simp add: rstr_def)

lemmas tri_defs = tri_spec_def tri_base_spec_def tri_reverse_spec_def tri_promote_spec_def Let_def

text \<open>A symbol visible only as module is a tristate symbol with modules enabled.\<close>

lemma vis_1_tristate:
  assumes "vis_spec K u \<rho> s = 1" and "s_choice (k_sym K s) = None"
  shows "stype_spec K u \<rho> s = TRISTATE"
  using assms by (auto simp: vis_spec_def Let_def split: if_splits)

text \<open>
  The value after assigning \<open>x\<close>: every assignable value takes effect, with one exception
  that \<open>_assignable\<close> overlooks.
\<close>

lemma assignable_value:
  assumes x: "x \<in> set (asg_spec K u \<rho> s)" and nc: "s_choice (k_sym K s) = None"
    and vis: "rvis K \<rho> s = vis_spec K u \<rho> s"
    and gap: "\<not> (rvis K \<rho> s = 1 \<and> ev K u \<rho> (s_rev_dep (k_sym K s)) = 1 \<and> ev K u \<rho> (s_weak_rev_dep (k_sym K s)) = 2)"
  shows "fst (tri_spec K (u\<lparr>u_sym := (u_sym u)(s := Some (PInt x))\<rparr>) \<rho> s) = x"
proof -
  let ?u = "u\<lparr>u_sym := (u_sym u)(s := Some (PInt x))\<rparr>"
  have ctri: "ctri_spec K ?u \<rho> c = ctri_spec K u \<rho> c" for c by (simp add: ctri_spec_def)
  have it: "itri K ?u \<rho> = itri K u \<rho>" by (simp add: itri_def ctri fun_eq_iff split: item.split)
  have st: "stype_spec K ?u \<rho> s = stype_spec K u \<rho> s" by (simp add: stype_spec_def ctri)
  define rev weak where "rev = ev K u \<rho> (s_rev_dep (k_sym K s))" and "weak = ev K u \<rho> (s_weak_rev_dep (k_sym K s))"
  have le: "rev \<le> 2" by (simp add: rev_def iv.eval_le)
  have t1: "rvis K \<rho> s = 1 \<Longrightarrow> stype_spec K u \<rho> s = TRISTATE" using vis nc by (simp add: vis_1_tristate)
  note defs = asg_spec_def tri_defs nc it st rev_def [symmetric] weak_def [symmetric]
  consider "rvis K \<rho> s = 0" | "rvis K \<rho> s = 1" | "rvis K \<rho> s = 2"
    using rvis_le [of K \<rho> s] by linarith
  then show ?thesis
  proof cases
    case 2
    consider "rev = 0" | "rev = 1" | "rev = 2" using le by linarith
    then show ?thesis
      by cases (use x gap 2 t1 in \<open>auto simp: defs split: if_splits\<close>)
  next
    case 3
    consider "rev = 0" | "rev = 1" | "rev = 2" using le by linarith
    then show ?thesis
      by cases (use x gap 3 in \<open>auto simp: defs split: if_splits\<close>)
  qed (use x in \<open>simp add: asg_spec_def Let_def split: if_splits\<close>)
qed

text \<open>The case \<open>_assignable\<close> overlooks: \<open>m\<close> is offered, but the value is \<open>y\<close> whatever is assigned.\<close>

lemma assignable_gap_value:
  assumes nc: "s_choice (k_sym K s) = None" and bt: "bool_tristate (otype K s)"
    and vis: "rvis K \<rho> s = 1" and rev: "ev K u \<rho> (s_rev_dep (k_sym K s)) = 1"
    and weak: "ev K u \<rho> (s_weak_rev_dep (k_sym K s)) = 2"
    and x: "u_sym u s = Some (PInt x)"
  shows "asg_spec K u \<rho> s = [1] \<and> fst (tri_spec K u \<rho> s) = 2"
  using assms by (auto simp: asg_spec_def tri_defs)

text \<open>A select sets a lower bound, whatever the user and the dependencies say.\<close>

lemma select_lower_bound:
  assumes "s_choice (k_sym K s) = None"
  shows "ev K u \<rho> (s_rev_dep (k_sym K s)) \<le> fst (tri_spec K u \<rho> s)"
  using assms iv.eval_le [of "\<lambda>s. otype K s" K u \<rho> "rstr \<rho>" "s_rev_dep (k_sym K s)"]
  by (auto simp: tri_defs le_max_iff_disj)

text \<open>Keys of lower rank do not see a symbol's user value.\<close>

lemma lower_keys_unchanged:
  assumes rk: "ranked K rk" and wu: "wf_users K u" "wf_users K u'"
    and v: "is_valuation K u \<rho>" "is_valuation K u' \<rho>'"
    and bt: "bool_tristate (otype K s)" and u': "u' = u\<lparr>u_sym := (u_sym u)(s := w)\<rparr>"
  shows "rk k < rk (KTri s) \<Longrightarrow> \<rho>' k = \<rho> k"
proof (induction "rk k" arbitrary: k rule: less_induct)
  case less
  have "spec K u' \<rho>' k = spec K u \<rho> k"
  proof (rule spec_users_cong [OF wu(2)])
    show "same_on u' u (vdeps K k) \<rho>' \<rho>"
    proof (unfold same_on_def, intro ballI conjI allI impI)
      fix k' assume "k' \<in> set (vdeps K k)"
      then have "rk k' < rk k" using rankedD [OF rk, of k'] vdeps_rdeps by blast
      with less show "\<rho>' k' = \<rho> k'" by simp
    qed (simp add: u')
    show "same_user K u' u k"
      using less.prems bt by (cases k) (auto simp: u' same_own_def)
  qed
  then show ?case using v by (simp add: is_valuation_def)
qed

lemma assign_takes_effect:
  assumes rk: "ranked K rk" and wu: "wf_users K u" "wf_users K (u\<lparr>u_sym := (u_sym u)(s := Some (PInt x))\<rparr>)"
    and v: "is_valuation K u \<rho>" "is_valuation K (u\<lparr>u_sym := (u_sym u)(s := Some (PInt x))\<rparr>) \<rho>'"
    and x: "x \<in> set (rasg \<rho> s)" and nc: "s_choice (k_sym K s) = None" and nmy: "nmy_tri s = None"
    and gap: "\<not> (rvis K \<rho> s = 1 \<and> ev K u \<rho> (s_rev_dep (k_sym K s)) = 1 \<and> ev K u \<rho> (s_weak_rev_dep (k_sym K s)) = 2)"
  shows "rtri \<rho>' s = x"
proof -
  let ?u = "u\<lparr>u_sym := (u_sym u)(s := Some (PInt x))\<rparr>"
  have bt: "bool_tristate (otype K s)"
    using x by (auto simp: valuation_asg [OF v(1)] asg_spec_def Let_def split: if_splits)
  have "tri_spec K ?u \<rho>' s = tri_spec K ?u \<rho> s"
  proof (rule tri_cong [OF nmy bt])
    show "same_on ?u ?u (rdeps K (KTri s)) \<rho>' \<rho>"
      unfolding same_on_def
      using lower_keys_unchanged [OF rk wu v bt refl] rankedD [OF rk, of _ "KTri s"] by blast
  qed (simp add: same_own_def)
  then show ?thesis
    using assignable_value [OF _ nc valuation_vis [OF v(1)] gap, of x] x
    by (simp add: valuation_tri [OF v(2) nmy bt] valuation_asg [OF v(1)])
qed

section \<open>Choices\<close>

text \<open>In a choice in y mode, a symbol is visible as \<open>y\<close> or not at all.\<close>

lemma choice_sym_vis:
  assumes v: "is_valuation K u \<rho>" and c: "s_choice (k_sym K s) = Some c" "ctri_spec K u \<rho> c = 2"
    and bt: "bool_tristate (otype K s)"
  shows "rvis K \<rho> s = 0 \<or> rvis K \<rho> s = 2"
proof -
  have "vis_spec K u \<rho> s \<noteq> 1"
    using c bt by (auto simp: vis_spec_def Let_def stype_spec_def bool_tristate_def)
  then have "rvis K \<rho> s \<noteq> 1" by (simp add: valuation_vis [OF v])
  then show ?thesis using rvis_le [of K \<rho> s] by linarith
qed

text \<open>When a symbol of a choice is \<open>y\<close>, all others are \<open>n\<close>.\<close>

lemma choice_exclusive:
  assumes v: "is_valuation K u \<rho>" and nmy: "nmy_tri s = None" "nmy_tri t = None"
    and c: "s_choice (k_sym K s) = Some c" "s_choice (k_sym K t) = Some c"
    and y: "rtri \<rho> s = 2" and ne: "s \<noteq> t"
  shows "rtri \<rho> t = 0"
proof -
  have bt: "bool_tristate (otype K s)"
    using is_valuationD [OF v, of "KTri s"] y nmy(1) by (auto simp: rtri_def split: if_splits)
  then have sel: "rsel \<rho> c = Some s"
    using valuation_tri [OF v nmy(1)] c(1) y by (auto simp: tri_spec_def Let_def split: if_splits)
  then have c2: "ctri_spec K u \<rho> c = 2"
    by (auto simp: valuation_sel [OF v] sel_spec_def split: if_splits)
  show ?thesis
  proof (cases "bool_tristate (otype K t)")
    case True
    from choice_sym_vis [OF v c(2) c2 True] show ?thesis
      using valuation_tri [OF v nmy(2) True] sel ne c(2) by (auto simp: tri_spec_def Let_def)
  next
    case False
    then show ?thesis
      using is_valuationD [OF v, of "KTri t"] nmy(2) by (simp add: rtri_def)
  qed
qed

text \<open>A choice in y mode with a visible symbol selects a visible symbol.\<close>

lemma choice_selects:
  assumes v: "is_valuation K u \<rho>" and y: "ctri_spec K u \<rho> c = 2"
    and x: "x \<in> set (c_syms (k_choice K c))" "rvis K \<rho> x \<noteq> 0"
  shows "\<exists>s. rsel \<rho> c = Some s \<and> rvis K \<rho> s \<noteq> 0"
proof -
  have vis: "rvis K \<rho> s \<noteq> 0" if "sel_default_spec K u \<rho> c = Some s" for s
    using firstp_Some [OF that [unfolded sel_default_spec_def]] by (auto split: if_splits expr.splits item.splits)
  have vis2: "rvis K \<rho> s \<noteq> 0" if "firstp (\<lambda>s. if rvis K \<rho> s \<noteq> 0 then Some s else None) (c_syms (k_choice K c)) = Some s" for s
    using firstp_Some [OF that] by (auto split: if_splits)
  have ex: "firstp (\<lambda>s. if rvis K \<rho> s \<noteq> 0 then Some s else None) (c_syms (k_choice K c)) \<noteq> None"
    using x by (auto simp: firstp_None)
  then show ?thesis
    using vis vis2 y
    by (auto simp: valuation_sel [OF v] sel_spec_def sel_from_defaults_spec_def split: option.split)
qed

section \<open>Ranges\<close>

lemma num_or_0_num2str: "t = INT_T \<or> t = HEX \<Longrightarrow> num_or_0 (type_to_base t) (num2str t i) = i"
  by (auto simp: num_or_0_def num2str_def py_int_py_str py_int_py_hex)

lemma num_pick_range:
  assumes "int_hex t" and "low \<le> high"
  shows "low \<le> num_or_0 (type_to_base t) (num_pick t (Some (low, high)) r) \<and>
    num_or_0 (type_to_base t) (num_pick t (Some (low, high)) r) \<le> high"
proof -
  have e: "num_or_0 (type_to_base t) [] = 0"
    using assms(1) by (auto simp: int_hex_def num_or_0_def py_int_def strip_by_def py_uint_def)
  have "t = INT_T \<or> t = HEX" using assms(1) by (simp add: int_hex_def)
  with assms(2) e show ?thesis
    by (cases r) (auto simp: num_pick_def clamp_def Let_def num_or_0_num2str split: option.split)
qed

text \<open>The value of an int or hex symbol lies in the active range.\<close>

lemma value_in_range:
  assumes v: "is_valuation K u \<rho>" and ih: "int_hex (otype K s)"
    and rng: "range_spec K u \<rho> s = Some (low, high)" and "low \<le> high"
  shows "low \<le> num_or_0 (type_to_base (otype K s)) (rstr \<rho> s) \<and> num_or_0 (type_to_base (otype K s)) (rstr \<rho> s) \<le> high"
proof -
  have "\<not> bool_tristate (otype K s)" "otype K s \<noteq> UNKNOWN" using ih by (auto simp: int_hex_def)
  then have r: "rstr \<rho> s = fst (num_spec K u \<rho> s (rvis K \<rho> s))"
    using valuation_str [OF v] ih by (simp add: str_spec_def Let_def)
  show ?thesis
    unfolding r num_spec_def num_defaults_spec_def rng
    using num_pick_range [OF ih \<open>low \<le> high\<close>]
    by (auto simp: in_range_def split: option.split pyval.split)
qed

section \<open>Linked configurations are ready\<close>

lemma wf_kconfig_link: "wf_kconfig (link K) = wf_kconfig K"
  by (simp add: wf_kconfig_def)

lemma wdeps_link [simp]: "wdeps (link K) k = wdeps K k"
  by (cases k) (simp_all add: select_deps_def [abs_def] cong: list.case_cong expr.case_cong item.case_cong)

lemma ready_link:
  assumes "wf_kconfig K" and "ranked K rk" and "tree_ok K"
  shows "ready (link K) rk"
  using assms linked_link [OF assms(3)]
  by (simp add: ready_def sound_kconfig_def wf_kconfig_link ranked_def) (simp add: tree_ok_def)

end
