(* ===== verification/Example.thy ===== *)
theory Example
  imports Laws
begin

text \<open>
  A concrete configuration on which the theorems are exercised: it satisfies the hypotheses
  that \<open>Laws\<close> and \<open>Assign\<close> place on a parsed configuration.
\<close>

section \<open>A small configuration\<close>

text \<open>
  The Kconfig file

    config MODULES: def_bool y;
    config A: bool "A";
    config T: tristate "T" if A, default m, selects S;
    config S: bool;
    config M: tristate "M", implied by nothing, selects G;
    config G: tristate "G" if M, implied by A;
    config N: int "N", range 1 10, default 50;
    choice "C" of type tristate with config X: tristate "X" and config Y: tristate "Y"

  after \<open>_finalize_node\<close>.
\<close>

definition nMODULES :: symref where "nMODULES = SymN ''MODULES''"
definition nA :: symref where "nA = SymN ''A''"
definition nT :: symref where "nT = SymN ''T''"
definition nS :: symref where "nS = SymN ''S''"
definition nM :: symref where "nM = SymN ''M''"
definition nG :: symref where "nG = SymN ''G''"
definition nN :: symref where "nN = SymN ''N''"
definition nX :: symref where "nX = SymN ''X''"
definition nY :: symref where "nY = SymN ''Y''"

lemmas ex_names = nMODULES_def nA_def nT_def nS_def nM_def nG_def nN_def nX_def nY_def

lemma ex_distinct [simp]: "distinct [nMODULES, nA, nT, nS, nM, nG, nN, nX, nY]"
  by (simp add: ex_names)

definition ex_node :: "noderef \<Rightarrow> menunode" where
  "ex_node i =
     (if i = 1 then new_node\<lparr>n_item := NSym nMODULES\<rparr>
      else if i = 2 then new_node\<lparr>n_item := NSym nA, n_prompt := Some (''A'', ky)\<rparr>
      else if i = 3 then new_node\<lparr>n_item := NSym nT, n_prompt := Some (''T'', Item (Sym nA)), n_dep := Item (Sym nA)\<rparr>
      else if i = 4 then new_node\<lparr>n_item := NSym nS\<rparr>
      else if i = 5 then new_node\<lparr>n_item := NSym nM, n_prompt := Some (''M'', ky)\<rparr>
      else if i = 6 then new_node\<lparr>n_item := NSym nG, n_prompt := Some (''G'', Item (Sym nM))\<rparr>
      else if i = 7 then new_node\<lparr>n_item := NSym nN, n_prompt := Some (''N'', ky)\<rparr>
      else if i = 8 then new_node\<lparr>n_item := NCho 0, n_prompt := Some (''C'', ky), n_list := Some 9\<rparr>
      else if i = 9 then new_node\<lparr>n_item := NSym nX, n_prompt := Some (''X'', Item (Cho 0)), n_dep := Item (Cho 0)\<rparr>
      else if i = 10 then new_node\<lparr>n_item := NSym nY, n_prompt := Some (''Y'', Item (Cho 0)), n_dep := Item (Cho 0)\<rparr>
      else new_node)\<lparr>n_next := (if 1 \<le> i \<and> i \<le> 7 \<or> i = 9 then Some (i + 1) else None),
        n_list := (if i = 0 then Some 1 else if i = 8 then Some 9 else None),
        n_parent := (if i = 0 then None else if i < 9 then Some 0 else Some 8)\<rparr>"

definition ex_syms :: "(symref \<times> symbol) list" where
  "ex_syms =
     [(nMODULES, new_symbol\<lparr>s_orig_type := BOOL, s_nodes := [1], s_defaults := [(ky, ky)], s_direct_dep := ky\<rparr>),
      (nA, new_symbol\<lparr>s_orig_type := BOOL, s_nodes := [2], s_direct_dep := ky\<rparr>),
      (nT, new_symbol\<lparr>s_orig_type := TRISTATE, s_nodes := [3], s_defaults := [(km, Item (Sym nA))],
         s_selects := [(nS, ky)], s_direct_dep := Item (Sym nA)\<rparr>),
      (nS, new_symbol\<lparr>s_orig_type := BOOL, s_nodes := [4], s_rev_dep := Item (Sym nT), s_direct_dep := ky\<rparr>),
      (nM, new_symbol\<lparr>s_orig_type := TRISTATE, s_nodes := [5], s_selects := [(nG, ky)], s_direct_dep := ky\<rparr>),
      (nG, new_symbol\<lparr>s_orig_type := TRISTATE, s_nodes := [6], s_rev_dep := Item (Sym nM),
         s_weak_rev_dep := Item (Sym nA), s_direct_dep := ky\<rparr>),
      (nN, new_symbol\<lparr>s_orig_type := INT_T, s_nodes := [7], s_defaults := [(SY ''50'', ky)],
         s_ranges := [(SymN ''1'', SymN ''10'', ky)], s_direct_dep := ky\<rparr>),
      (nX, new_symbol\<lparr>s_orig_type := TRISTATE, s_nodes := [9], s_choice := Some 0, s_direct_dep := Item (Cho 0)\<rparr>),
      (nY, new_symbol\<lparr>s_orig_type := TRISTATE, s_nodes := [10], s_choice := Some 0, s_direct_dep := Item (Cho 0)\<rparr>)]"

definition ex_sym :: "symref \<Rightarrow> symbol" where
  "ex_sym s = (case map_of ex_syms s of Some r \<Rightarrow> r | None \<Rightarrow> init_sym s)"

definition ex_choice :: "choiceref \<Rightarrow> choice" where
  "ex_choice c =
     (if c = 0 then new_choice\<lparr>c_orig_type := TRISTATE, c_nodes := [8], c_syms := [nX, nY], c_direct_dep := ky\<rparr>
      else new_choice)"

definition ex_base :: kconfig where
  "ex_base = \<lparr>k_sym = ex_sym, k_choice = ex_choice, k_node = ex_node,
     k_syms = map sym_name [nMODULES, nA, nT, nS, nM, nG, nN, nX, nY],
     k_defined_syms = [nMODULES, nA, nT, nS, nM, nG, nN, nX, nY], k_choices = [0],
     k_unique_defined_syms = [nMODULES, nA, nT, nS, nM, nG, nN, nX, nY], k_unique_choices = [0],
     k_defconfig_list = None, k_config_prefix = ''CONFIG_'', k_config_header = [], k_header_header = [],
     k_top_node = 0\<rparr>"

definition ex_kconfig :: kconfig where
  "ex_kconfig = link ex_base"

text \<open>A rank for its keys: symbols and choices are on levels, undefined symbols and constants below.\<close>

definition ex_level :: "symref \<Rightarrow> nat option" where
  "ex_level s = map_of [(nMODULES, 0), (nA, 1), (nT, 2), (nS, 3), (nM, 1), (nG, 3), (nN, 1), (nX, 1), (nY, 1)] s"

fun ex_rank :: "vkey \<Rightarrow> nat" where
  "ex_rank (KVis s) = (case ex_level s of Some l \<Rightarrow> 10 * l + 2 | None \<Rightarrow> 8)"
| "ex_rank (KTri s) = (case ex_level s of Some l \<Rightarrow> 10 * l + 4 | None \<Rightarrow> 0)"
| "ex_rank (KStr s) = (case ex_level s of Some l \<Rightarrow> 10 * l + 5 | None \<Rightarrow> 1)"
| "ex_rank (KAsg s) = (case ex_level s of Some l \<Rightarrow> 10 * l + 5 | None \<Rightarrow> 9)"
| "ex_rank (KCVis c) = 11"
| "ex_rank (KCSel c) = 13"
| "ex_rank (KCAsg c) = 13"

lemma ex_rank_bound: "ex_rank k < 40"
  by (cases k) (auto simp: ex_level_def split: option.splits if_splits)

lemma ex_cases:
  obtains "s = nMODULES" | "s = nA" | "s = nT" | "s = nS" | "s = nM" | "s = nG" | "s = nN" | "s = nX" | "s = nY"
    | "s \<notin> {nMODULES, nA, nT, nS, nM, nG, nN, nX, nY}"
  by blast

lemma ex_sym_in: "(s, r) \<in> set ex_syms \<Longrightarrow> ex_sym s = r"
proof -
  have "distinct (map fst ex_syms)" using ex_distinct by (simp add: ex_syms_def)
  moreover assume "(s, r) \<in> set ex_syms"
  ultimately show ?thesis by (simp add: ex_sym_def)
qed

lemma ex_sym_out [simp]: "s \<notin> {nMODULES, nA, nT, nS, nM, nG, nN, nX, nY} \<Longrightarrow> ex_sym s = init_sym s"
  by (simp add: ex_sym_def ex_syms_def)

lemma ex_sym_simps [simp]:
  "ex_sym nMODULES = new_symbol\<lparr>s_orig_type := BOOL, s_nodes := [1], s_defaults := [(ky, ky)], s_direct_dep := ky\<rparr>"
  "ex_sym nA = new_symbol\<lparr>s_orig_type := BOOL, s_nodes := [2], s_direct_dep := ky\<rparr>"
  "ex_sym nT = new_symbol\<lparr>s_orig_type := TRISTATE, s_nodes := [3], s_defaults := [(km, Item (Sym nA))],
        s_selects := [(nS, ky)], s_direct_dep := Item (Sym nA)\<rparr>"
  "ex_sym nS = new_symbol\<lparr>s_orig_type := BOOL, s_nodes := [4], s_rev_dep := Item (Sym nT), s_direct_dep := ky\<rparr>"
  "ex_sym nM = new_symbol\<lparr>s_orig_type := TRISTATE, s_nodes := [5], s_selects := [(nG, ky)], s_direct_dep := ky\<rparr>"
  "ex_sym nG = new_symbol\<lparr>s_orig_type := TRISTATE, s_nodes := [6], s_rev_dep := Item (Sym nM),
        s_weak_rev_dep := Item (Sym nA), s_direct_dep := ky\<rparr>"
  "ex_sym nN = new_symbol\<lparr>s_orig_type := INT_T, s_nodes := [7], s_defaults := [(SY ''50'', ky)],
        s_ranges := [(SymN ''1'', SymN ''10'', ky)], s_direct_dep := ky\<rparr>"
  "ex_sym nX = new_symbol\<lparr>s_orig_type := TRISTATE, s_nodes := [9], s_choice := Some 0, s_direct_dep := Item (Cho 0)\<rparr>"
  "ex_sym nY = new_symbol\<lparr>s_orig_type := TRISTATE, s_nodes := [10], s_choice := Some 0, s_direct_dep := Item (Cho 0)\<rparr>"
  by (rule ex_sym_in, simp add: ex_syms_def)+

lemma ex_sym_const [simp]: "ex_sym (SymC x) = init_sym (SymC x)"
  by (rule ex_sym_out) (simp add: ex_names)

lemma ex_base_simps [simp]: "k_sym ex_base = ex_sym" "k_choice ex_base = ex_choice" "k_node ex_base = ex_node"
  "k_unique_defined_syms ex_base = [nMODULES, nA, nT, nS, nM, nG, nN, nX, nY]" "k_unique_choices ex_base = [0]"
  by (simp_all add: ex_base_def)

lemma ex_nmy [simp]: "nmy_tri nMODULES = None" "nmy_tri nA = None" "nmy_tri nT = None" "nmy_tri nS = None"
  "nmy_tri nM = None" "nmy_tri nG = None" "nmy_tri nN = None" "nmy_tri nX = None" "nmy_tri nY = None"
  by (simp_all add: nmy_tri_def ex_names)

lemma modules_nMODULES [simp]: "modules = nMODULES"
  by (simp add: modules_def nMODULES_def)

lemma ex_prompts [simp]:
  "prompt_conds ex_base [Suc 0] = []" "prompt_conds ex_base [2] = [ky]" "prompt_conds ex_base [3] = [Item (Sym nA)]"
  "prompt_conds ex_base [4] = []" "prompt_conds ex_base [5] = [ky]" "prompt_conds ex_base [6] = [Item (Sym nM)]"
  "prompt_conds ex_base [7] = [ky]" "prompt_conds ex_base [8] = [ky]" "prompt_conds ex_base [9] = [Item (Cho 0)]"
  "prompt_conds ex_base [10] = [Item (Cho 0)]"
  by (simp_all add: prompt_conds_def ex_node_def new_node_def List.map_filter_simps)

lemma init_sym_simps [simp]:
  "s_orig_type (init_sym s) = (if nmy_tri s = None then UNKNOWN else TRISTATE)"
  "s_nodes (init_sym s) = []" "s_defaults (init_sym s) = []" "s_ranges (init_sym s) = []"
  "s_rev_dep (init_sym s) = kn" "s_weak_rev_dep (init_sym s) = kn" "s_direct_dep (init_sym s) = kn"
  "s_choice (init_sym s) = None" "s_env_var (init_sym s) = None"
  by (simp_all add: init_sym_def new_symbol_def split: option.split)

lemma new_symbol_simps [simp]:
  "s_defaults new_symbol = []" "s_ranges new_symbol = []" "s_rev_dep new_symbol = kn"
  "s_weak_rev_dep new_symbol = kn" "s_choice new_symbol = None" "s_env_var new_symbol = None"
  by (simp_all add: new_symbol_def)

lemma ex_wf: "wf_kconfig ex_base"
  unfolding wf_kconfig_def
proof (intro conjI allI)
  fix s :: symref
  show "\<not> bool_tristate (otype ex_base s) \<and> otype ex_base s \<noteq> UNKNOWN \<longrightarrow> (\<forall>(v, c) \<in> set (s_defaults (k_sym ex_base s)). is_sym_expr v)"
    by (rule ex_cases [of s]) (auto simp: is_sym_expr_def)
  show "\<forall>e \<in> set (split_expr (s_rev_dep (k_sym ex_base s)) OpOR). \<exists>a r. split_expr e OpAND = Item (Sym a) # r"
    by (rule ex_cases [of s]) (auto simp: kn_def)
  show "s_choice (k_sym ex_base s) = Some c \<longrightarrow> s \<in> set (c_syms (k_choice ex_base c))" for c
    by (rule ex_cases [of s]) (auto simp: ex_choice_def)
  show "nmy_tri s = Some v \<longrightarrow> otype ex_base s = TRISTATE" for v
    by (rule ex_cases [of s]) auto
next
  show "\<forall>(v, e) \<in> set (c_defaults (k_choice ex_base c)). is_sym_expr v" for c
    by (simp add: ex_choice_def new_choice_def)
qed

lemma ex_tree_ok: "tree_ok ex_base"
  unfolding tree_ok_def
proof (intro conjI allI ballI impI)
  fix s :: symref
  assume "s \<notin> set (k_unique_defined_syms ex_base)"
  then have s: "s \<notin> {nMODULES, nA, nT, nS, nM, nG, nN, nX, nY}" by simp
  show "s_nodes (k_sym ex_base s) = []" "s_choice (k_sym ex_base s) = None"
    "otype ex_base s = (if nmy_tri s = None then UNKNOWN else TRISTATE)"
    using s by simp_all
next
  fix s c assume "s_choice (k_sym ex_base s) = Some c"
  then show "Cho c \<in> set (expr_items (s_direct_dep (k_sym ex_base s)))"
    by (rule_tac ex_cases [of s]) auto
qed (auto simp: ex_choice_def new_choice_def ex_names split: if_splits)

lemma ex_level_simps [simp]: "ex_level nMODULES = Some 0" "ex_level nA = Some 1" "ex_level nT = Some 2" "ex_level nS = Some 3"
  "ex_level nM = Some 1" "ex_level nG = Some 3" "ex_level nN = Some 1" "ex_level nX = Some 1" "ex_level nY = Some 1"
  "ex_level (SymC x) = None" "ex_level (SymN ''1'') = None" "ex_level (SymN ''10'') = None" "ex_level (SymN ''50'') = None"
  "s \<notin> {nMODULES, nA, nT, nS, nM, nG, nN, nX, nY} \<Longrightarrow> ex_level s = None"
  by (simp_all add: ex_level_def) (simp_all add: ex_names)

lemmas ex_deps = pdeps_def chdeps_def tdeps_def cdeps_def ctdeps_def symdef_deps_def select_deps_def knmy_defs
  ex_choice_def new_choice_def

lemma ex_ranked: "ranked ex_base ex_rank"
proof -
  have "\<forall>k' \<in> set (rdeps ex_base k @ wdeps ex_base k). ex_rank k' < ex_rank k" for k
  proof (cases k)
    case (KVis s)
    show ?thesis unfolding KVis by (rule ex_cases [of s]) (auto simp: ex_deps)
  next
    case (KTri s)
    show ?thesis unfolding KTri by (rule ex_cases [of s]) (auto simp: ex_deps)
  next
    case (KStr s)
    show ?thesis unfolding KStr by (rule ex_cases [of s]) (auto simp: ex_deps)
  next
    case (KAsg s)
    show ?thesis unfolding KAsg by (rule ex_cases [of s]) (auto simp: ex_deps)
  qed (auto simp: ex_deps)
  then show ?thesis by (simp add: ranked_def)
qed

lemma ex_ready: "ready ex_kconfig ex_rank"
  unfolding ex_kconfig_def by (rule ready_link [OF ex_wf ex_ranked ex_tree_ok])

section \<open>Its values\<close>

lemma ex_kconfig_simps [simp]:
  "otype ex_kconfig s = s_orig_type (ex_sym s)" "s_nodes (k_sym ex_kconfig s) = s_nodes (ex_sym s)"
  "s_defaults (k_sym ex_kconfig s) = s_defaults (ex_sym s)" "s_ranges (k_sym ex_kconfig s) = s_ranges (ex_sym s)"
  "s_rev_dep (k_sym ex_kconfig s) = s_rev_dep (ex_sym s)" "s_weak_rev_dep (k_sym ex_kconfig s) = s_weak_rev_dep (ex_sym s)"
  "s_direct_dep (k_sym ex_kconfig s) = s_direct_dep (ex_sym s)" "s_choice (k_sym ex_kconfig s) = s_choice (ex_sym s)"
  "s_env_var (k_sym ex_kconfig s) = s_env_var (ex_sym s)"
  "c_orig_type (k_choice ex_kconfig c) = c_orig_type (ex_choice c)" "c_nodes (k_choice ex_kconfig c) = c_nodes (ex_choice c)"
  "c_syms (k_choice ex_kconfig c) = c_syms (ex_choice c)" "c_defaults (k_choice ex_kconfig c) = c_defaults (ex_choice c)"
  "c_is_optional (k_choice ex_kconfig c) = c_is_optional (ex_choice c)"
  "prompt_conds ex_kconfig ns = prompt_conds ex_base ns" "k_defconfig_list ex_kconfig = None"
  "k_unique_choices ex_kconfig = [0]" "k_unique_defined_syms ex_kconfig = [nMODULES, nA, nT, nS, nM, nG, nN, nX, nY]"
  by (simp_all add: ex_kconfig_def) (simp_all add: link_def store_dependents_def ex_base_def)

lemma ex_choice_simps [simp]: "c_orig_type (ex_choice 0) = TRISTATE" "c_nodes (ex_choice 0) = [8]"
  "c_syms (ex_choice 0) = [nX, nY]" "c_defaults (ex_choice 0) = []" "\<not> c_is_optional (ex_choice 0)"
  by (simp_all add: ex_choice_def new_choice_def)

text \<open>\<open>A\<close> is \<open>y\<close> and \<open>M\<close> is \<open>m\<close>; \<open>G\<close> has been set to \<open>m\<close>, and \<open>Y\<close> is selected.\<close>

definition ex_users :: users where
  "ex_users = \<lparr>u_sym = [nA \<mapsto> PInt 2, nM \<mapsto> PInt 1, nG \<mapsto> PInt 1, nN \<mapsto> PStr ''77''], u_cho = [0 \<mapsto> 2],
     u_sel = [0 \<mapsto> nY]\<rparr>"

lemma ex_users_neq: "nA \<noteq> nM" "nG \<noteq> nM" "nA \<noteq> nG" "nA \<noteq> nN" "nM \<noteq> nN" "nG \<noteq> nN" "nX \<noteq> nY"
  "nMODULES \<noteq> nA" "nMODULES \<noteq> nM" "nMODULES \<noteq> nG" "nMODULES \<noteq> nN"
  by (simp_all add: ex_names)

lemma ex_users_simps [simp]: "u_sym ex_users nA = Some (PInt 2)" "u_sym ex_users nM = Some (PInt 1)"
  "u_sym ex_users nG = Some (PInt 1)" "u_sym ex_users nN = Some (PStr ''77'')" "u_sym ex_users nMODULES = None"
  "u_cho ex_users 0 = Some 2" "u_sel ex_users 0 = Some nY"
  using ex_users_neq by (simp_all add: ex_users_def)

lemma ex_wf_users: "wf_users ex_kconfig ex_users"
proof -
  have "is_base_n ''77'' 10" by code_simp
  then show ?thesis by (auto simp: wf_users_def ex_users_def split: if_splits)
qed

definition ex_vals :: valuation where
  "ex_vals = solution ex_kconfig ex_users ex_rank"

lemma ex_valuation: "is_valuation ex_kconfig ex_users ex_vals"
  unfolding ex_vals_def
  by (rule solution_is_valuation [OF _ ex_wf_users]) (use ex_ready in \<open>simp add: ready_def sound_kconfig_def\<close>)

lemma ex_rank_ranked: "ranked ex_kconfig ex_rank"
  using ex_ready by (simp add: ready_def sound_kconfig_def)

lemmas ex_vis = valuation_vis [OF ex_valuation]
lemmas ex_tri = valuation_tri [OF ex_valuation]

lemma ex_vals_const [simp]: "rtri \<rho> (SymC ''y'') = 2" "rtri \<rho> (SymC ''n'') = 0"
  by (simp_all add: rtri_def nmy_tri_def str_to_tri_def)

lemma itri_simps [simp]: "itri K u \<rho> (Sym s) = rtri \<rho> s" "itri K u \<rho> (Cho c) = ctri_spec K u \<rho> c"
  by (simp_all add: itri_def)

declare iv.eval_ky [simp] iv.eval_kn [simp]

lemmas ex_spec = vis_spec_def prompts_spec_def tri_defs tri_default_spec_def stype_spec_def

lemma ex_modules [simp]: "rtri ex_vals nMODULES = 2"
proof -
  have "fst (tri_spec ex_kconfig ex_users ex_vals nMODULES) = 2"
    by (simp add: ex_vis [of nMODULES] ex_spec)
  with ex_tri [of nMODULES] show ?thesis by simp
qed

lemma ex_A [simp]: "rvis ex_kconfig ex_vals nA = 2" "rtri ex_vals nA = 2"
proof -
  show v: "rvis ex_kconfig ex_vals nA = 2" by (simp add: ex_vis [of nA] ex_spec)
  show "rtri ex_vals nA = 2" by (simp add: ex_tri [of nA] v ex_spec)
qed

lemma ex_M [simp]: "rvis ex_kconfig ex_vals nM = 2" "rtri ex_vals nM = 1"
proof -
  show v: "rvis ex_kconfig ex_vals nM = 2" by (simp add: ex_vis [of nM] ex_spec)
  show "rtri ex_vals nM = 1" by (simp add: ex_tri [of nM] v ex_spec)
qed

lemma ex_T [simp]: "rvis ex_kconfig ex_vals nT = 2"
  by (simp add: ex_vis [of nT] ex_spec)

lemma ex_G [simp]: "rvis ex_kconfig ex_vals nG = 1"
  by (simp add: ex_vis [of nG] ex_spec)

lemma ex_C [simp]: "rcvis ex_vals 0 = 2" "ctri_spec ex_kconfig ex_users ex_vals 0 = 2"
proof -
  show v: "rcvis ex_vals 0 = 2"
    using is_valuationD [OF ex_valuation, of "KCVis 0"]
    by (simp add: rcvis_def cvis_spec_def ex_spec ctype_spec_def)
  show "ctri_spec ex_kconfig ex_users ex_vals 0 = 2"
    by (simp add: ctri_spec_def v ctype_spec_def Let_def)
qed

lemma ex_XY [simp]: "rvis ex_kconfig ex_vals nX = 2" "rvis ex_kconfig ex_vals nY = 2" "rsel ex_vals 0 = Some nY"
  "rtri ex_vals nY = 2"
proof -
  show x: "rvis ex_kconfig ex_vals nX = 2" by (simp add: ex_vis [of nX] ex_spec)
  show y: "rvis ex_kconfig ex_vals nY = 2" by (simp add: ex_vis [of nY] ex_spec)
  show s: "rsel ex_vals 0 = Some nY" by (simp add: valuation_sel [OF ex_valuation] sel_spec_def y)
  show "rtri ex_vals nY = 2" by (simp add: ex_tri [of nY] y s ex_spec)
qed

lemma ex_range: "range_spec ex_kconfig ex_users ex_vals nN = Some (1, 10)"
proof -
  have n: "nmy_tri (SymN x) = None" for x by (simp add: nmy_tri_def)
  have "rstr ex_vals (SymN ''1'') = ''1''" "rstr ex_vals (SymN ''10'') = ''10''"
    using is_valuationD [OF ex_valuation, of "KStr (SymN ''1'')"] is_valuationD [OF ex_valuation, of "KStr (SymN ''10'')"]
    by (simp_all add: rstr_def n ex_names)
  moreover have "num_or_0 10 ''1'' = 1" "num_or_0 10 ''10'' = 10" by code_simp+
  ultimately show ?thesis by (simp add: range_spec_def Let_def)
qed

end
