(* ===== verification/ConfigFile.thy ===== *)
theory ConfigFile
  imports Example
begin

text \<open>
  Reading \<^verbatim>\<open>.config\<close> files (\<open>Kconfig.load_config\<close>, \<open>_load_config\<close>, \<open>_undef_assign\<close>,
  \<open>_assigned_twice\<close> in \<^verbatim>\<open>src/scripts/kconfig/kconfiglib.py\<close>). A file is the list of its lines;
  finding and opening it is outside the model. \<open>file_users\<close> says declaratively what the lines of
  a file assign, and \<open>load_replaces\<close> that loading a file assigns just that.
\<close>

section \<open>Loading\<close>

text \<open>\<open>Kconfig.syms.get\<close>\<close>

definition get_sym :: "kconfig \<Rightarrow> string \<Rightarrow> symref option" where
  "get_sym K name = (if name \<in> set (k_syms K) then Some (SymN name) else None)"

text \<open>The symbol a line assigns to: it must have a definition (\<open>not sym or not sym.nodes\<close>).\<close>

definition defined_sym :: "kconfig \<Rightarrow> string \<Rightarrow> symref option" where
  "defined_sym K name = (case get_sym K name of
     None \<Rightarrow> None
   | Some s \<Rightarrow> if s_nodes (k_sym K s) = [] then None else Some s)"

text \<open>\<open>Kconfig._undef_assign\<close>\<close>

definition undef_assign :: "string \<Rightarrow> string \<Rightarrow> nat \<Rightarrow> unit ev" where
  "undef_assign name val linenr =
     bind (modify (\<lambda>d. d\<lparr>missing_syms := missing_syms d @ [(name, val)]\<rparr>)) (\<lambda>_.
     bind (gets warn_assign_undef) (\<lambda>w.
       if w then kwarn (W_undef_assign val name linenr) else ret ()))"

text \<open>
  \<open>Kconfig._assigned_twice\<close>. Looking up a bool or tristate user value of \<open>None\<close> in
  \<open>TRI_TO_STR\<close> is a \<open>KeyError\<close>.
\<close>

definition assigned_twice :: "kconfig \<Rightarrow> symref \<Rightarrow> string \<Rightarrow> nat \<Rightarrow> unit ev" where
  "assigned_twice K s new_val linenr =
     bind (gets (\<lambda>d. user_value d s)) (\<lambda>uv.
     bind (case uv of
             Some (PInt v) \<Rightarrow> if bool_tristate (otype K s) \<and> v \<le> 2 then ret (Some (tri_to_str v)) else raise KeyError
           | Some (PStr x) \<Rightarrow> if bool_tristate (otype K s) then raise KeyError else ret (Some x)
           | None \<Rightarrow> if bool_tristate (otype K s) then raise KeyError else ret None) (\<lambda>user_val.
     bind (gets (\<lambda>d. (warn_assign_redun d, warn_assign_override d))) (\<lambda>(redun, override).
       if user_val = Some new_val then
         (if redun then kwarn (W_assigned_twice s user_val new_val linenr) else ret ())
       else if override then kwarn (W_assigned_twice s user_val new_val linenr) else ret ())))"

text \<open>The check of the first character of a bool or tristate value.\<close>

definition first_char_ok :: "stype \<Rightarrow> string \<Rightarrow> bool" where
  "first_char_ok t val = (t = BOOL \<and> (startswith val ''y'' \<or> startswith val ''n'') \<or>
     t = TRISTATE \<and> (startswith val ''y'' \<or> startswith val ''m'' \<or> startswith val ''n''))"

text \<open>The mode of a choice is inferred from the values assigned to its symbols.\<close>

definition infer_mode :: "kconfig \<Rightarrow> nat \<Rightarrow> symref \<Rightarrow> string \<Rightarrow> nat \<Rightarrow> unit ev" where
  "infer_mode K n s val linenr =
     (case s_choice (k_sym K s) of
        Some c \<Rightarrow>
          if val \<noteq> ''n'' then
            bind (gets (\<lambda>d. ch_user_value d c)) (\<lambda>prev.
            bind (if (\<exists>m. prev = Some m \<and> tri_to_str m \<noteq> val) then kwarn (W_choice_m_and_y linenr) else ret ()) (\<lambda>_.
            bind (choice_set_value K n c (PStr val)) (\<lambda>_. ret ())))
          else ret ()
      | None \<Rightarrow> ret ())"

text \<open>The value a \<^verbatim>\<open>CONFIG_FOO=...\<close> line assigns; \<open>None\<close> when the line is ignored.\<close>

definition parse_value :: "kconfig \<Rightarrow> nat \<Rightarrow> symref \<Rightarrow> string \<Rightarrow> nat \<Rightarrow> string option ev" where
  "parse_value K n s val linenr =
     (if bool_tristate (otype K s) then
        (if \<not> first_char_ok (otype K s) val then
           bind (kwarn (W_config_invalid s val linenr)) (\<lambda>_. ret None)
         else bind (infer_mode K n s [hd val] linenr) (\<lambda>_. ret (Some [hd val])))
      else if otype K s = STRING then
        (case conf_string_match val of
           None \<Rightarrow> bind (kwarn (W_malformed_string s linenr)) (\<lambda>_. ret None)
         | Some x \<Rightarrow> ret (Some (unescape x)))
      else ret (Some val))"

text \<open>Done parsing the assignment: set the value.\<close>

definition assign_parsed :: "kconfig \<Rightarrow> nat \<Rightarrow> symref \<Rightarrow> string \<Rightarrow> nat \<Rightarrow> unit ev" where
  "assign_parsed K n s val linenr =
     bind (gets (\<lambda>d. was_set d s)) (\<lambda>w.
     bind (if w then assigned_twice K s val linenr else ret ()) (\<lambda>_.
     bind (sym_set_value K n s (PStr val)) (\<lambda>_. ret ())))"

text \<open>The body of the loop over the lines in \<open>Kconfig._load_config\<close>.\<close>

definition load_line :: "kconfig \<Rightarrow> nat \<Rightarrow> nat \<Rightarrow> string \<Rightarrow> unit ev" where
  "load_line K n linenr raw =
     (let line = py_rstrip raw in
      case set_match (k_config_prefix K) line of
        Some (name, val) \<Rightarrow>
          (case defined_sym K name of
             None \<Rightarrow> undef_assign name val linenr
           | Some s \<Rightarrow> bind (parse_value K n s val linenr) (\<lambda>r. case r of
               None \<Rightarrow> ret ()
             | Some v \<Rightarrow> assign_parsed K n s v linenr))
      | None \<Rightarrow>
          (case unset_match (k_config_prefix K) line of
             None \<Rightarrow>
               if line \<noteq> [] \<and> \<not> startswith (py_lstrip line) ''#'' then kwarn (W_malformed_line line linenr)
               else ret ()
           | Some name \<Rightarrow>
               (case defined_sym K name of
                  None \<Rightarrow> undef_assign name ''n'' linenr
                | Some s \<Rightarrow> if bool_tristate (otype K s) then assign_parsed K n s ''n'' linenr else ret ())))"

text \<open>\<open>Kconfig._load_config\<close>, on the lines of the file.\<close>

definition load_config_file :: "kconfig \<Rightarrow> nat \<Rightarrow> string list \<Rightarrow> bool \<Rightarrow> unit ev" where
  "load_config_file K n lines replace =
     bind (if replace then modify (\<lambda>d. d\<lparr>missing_syms := [],
             was_set := (\<lambda>s. if s \<in> set (k_unique_defined_syms K) then False else was_set d s),
             ch_was_set := (\<lambda>c. if c \<in> set (k_unique_choices K) then False else ch_was_set d c)\<rparr>)
           else ret ()) (\<lambda>_.
     bind (foldm (\<lambda>(i, line) _. load_line K n i line) (enumerate 1 lines) ()) (\<lambda>_.
     if replace then
       bind (foldm (\<lambda>s _. bind (gets (\<lambda>d. was_set d s)) (\<lambda>w. if w then ret () else sym_unset_value K n s))
          (k_unique_defined_syms K) ()) (\<lambda>_.
       foldm (\<lambda>c _. bind (gets (\<lambda>d. ch_was_set d c)) (\<lambda>w. if w then ret () else choice_unset_value K n c))
          (k_unique_choices K) ())
     else ret ()))"

text \<open>\<open>Kconfig.load_config\<close>, once the file has been found: assignments to symbols without
  prompts are expected in it.\<close>

definition load_config :: "kconfig \<Rightarrow> nat \<Rightarrow> string list \<Rightarrow> bool \<Rightarrow> unit ev" where
  "load_config K n lines replace =
     bind (modify (\<lambda>d. d\<lparr>warn_assign_no_prompt := False\<rparr>)) (\<lambda>_.
     bind (load_config_file K n lines replace) (\<lambda>_.
     modify (\<lambda>d. d\<lparr>warn_assign_no_prompt := True\<rparr>)))"
section \<open>What a line assigns\<close>

text \<open>The assignment on a line, if there is one.\<close>

definition parse_line :: "kconfig \<Rightarrow> string \<Rightarrow> (symref \<times> string) option" where
  "parse_line K raw =
     (let line = py_rstrip raw in
      case set_match (k_config_prefix K) line of
        Some (name, val) \<Rightarrow>
          (case defined_sym K name of
             None \<Rightarrow> None
           | Some s \<Rightarrow>
               if bool_tristate (otype K s) then
                 (if first_char_ok (otype K s) val then Some (s, [hd val]) else None)
               else if otype K s = STRING then map_option (\<lambda>x. (s, unescape x)) (conf_string_match val)
               else Some (s, val))
      | None \<Rightarrow>
          (case unset_match (k_config_prefix K) line of
             None \<Rightarrow> None
           | Some name \<Rightarrow>
               (case defined_sym K name of
                  None \<Rightarrow> None
                | Some s \<Rightarrow> if bool_tristate (otype K s) then Some (s, ''n'') else None)))"

text \<open>Its effect on the user's assignments.\<close>

definition mode_users :: "kconfig \<Rightarrow> symref \<Rightarrow> string \<Rightarrow> users \<Rightarrow> users" where
  "mode_users K s v u =
     (case s_choice (k_sym K s) of
        Some c \<Rightarrow> if bool_tristate (otype K s) \<and> v \<noteq> ''n'' then assign_choice K c (norm_tri (PStr v)) u else u
      | None \<Rightarrow> u)"

definition line_users :: "kconfig \<Rightarrow> string \<Rightarrow> users \<Rightarrow> users" where
  "line_users K raw u =
     (case parse_line K raw of
        None \<Rightarrow> u
      | Some (s, v) \<Rightarrow> assign_sym K s (value_for K s (PStr v)) (mode_users K s v u))"

text \<open>The assignments \<open>e\<close> made on top of the assignments \<open>u\<close>.\<close>

definition over :: "users \<Rightarrow> users \<Rightarrow> users" where
  "over e u = \<lparr>u_sym = (\<lambda>s. case u_sym e s of None \<Rightarrow> u_sym u s | Some v \<Rightarrow> Some v),
     u_cho = (\<lambda>c. case u_cho e c of None \<Rightarrow> u_cho u c | Some v \<Rightarrow> Some v),
     u_sel = (\<lambda>c. case u_sel e c of None \<Rightarrow> u_sel u c | Some v \<Rightarrow> Some v)\<rparr>"

definition no_users :: users where
  "no_users = \<lparr>u_sym = Map.empty, u_cho = Map.empty, u_sel = Map.empty\<rparr>"

lemma over_no_users [simp]: "over no_users u = u"
  by (simp add: over_def no_users_def)

lemma over_sel [simp]:
  "u_sym (over e u) = (\<lambda>s. case u_sym e s of None \<Rightarrow> u_sym u s | Some v \<Rightarrow> Some v)"
  "u_cho (over e u) = (\<lambda>c. case u_cho e c of None \<Rightarrow> u_cho u c | Some v \<Rightarrow> Some v)"
  "u_sel (over e u) = (\<lambda>c. case u_sel e c of None \<Rightarrow> u_sel u c | Some v \<Rightarrow> Some v)"
  by (simp_all add: over_def)

lemma over_sym: "over (e\<lparr>u_sym := (u_sym e)(s := Some v)\<rparr>) u = (over e u)\<lparr>u_sym := (u_sym (over e u))(s := Some v)\<rparr>"
  and over_cho: "over (e\<lparr>u_cho := (u_cho e)(c := Some m)\<rparr>) u = (over e u)\<lparr>u_cho := (u_cho (over e u))(c := Some m)\<rparr>"
  and over_cho_sel: "over (e\<lparr>u_sel := (u_sel e)(c := Some s)\<rparr>) u = (over e u)\<lparr>u_sel := (u_sel (over e u))(c := Some s)\<rparr>"
  by (auto simp: over_def fun_eq_iff)

lemma choice_valid_int: "choice_valid t v \<Longrightarrow> \<exists>m. v = PInt m"
  by (cases "(t, v)" rule: choice_valid.cases) auto

lemma assign_choice_over: "assign_choice K c v (over e u) = over (assign_choice K c v e) u"
proof (cases "choice_valid (c_orig_type (k_choice K c)) v")
  case True
  then obtain m where "v = PInt m" using choice_valid_int by blast
  with True show ?thesis by (simp add: assign_choice_def over_cho)
qed (simp add: assign_choice_def)

lemma assign_sym_over: "assign_sym K s v (over e u) = over (assign_sym K s v e) u"
  by (auto simp: assign_sym_def over_def fun_eq_iff split: option.split)

lemma line_users_over: "line_users K raw (over e u) = over (line_users K raw e) u"
  by (auto simp: line_users_def mode_users_def assign_choice_over assign_sym_over split: option.split)

section \<open>Frames\<close>

lemma clear_frame [simp]: "was_set (clear X d) = was_set d" "ch_was_set (clear X d) = ch_was_set d"
  "user_value (clear X d) = user_value d" "ch_user_value (clear X d) = ch_user_value d"
  "ch_user_selection (clear X d) = ch_user_selection d"
  by (simp_all add: clear_def)

lemma rec_invalidate_frame:
  assumes "closed_deps K" and "x \<in> set (all_items K)" and "rec_invalidate K n x d = Inr ((), d')"
  shows "was_set d' = was_set d \<and> ch_was_set d' = ch_was_set d"
  using rec_invalidate_spec [OF assms] by auto

lemma rec_invalidate_if_has_prompt_frame:
  assumes "ready K rk" and "rec_invalidate_if_has_prompt K n s d = Inr ((), d')"
  shows "was_set d' = was_set d \<and> ch_was_set d' = ch_was_set d"
proof (cases "prompt_conds K (s_nodes (k_sym K s)) = []")
  case True
  with assms(2) show ?thesis
    by (auto simp: rec_invalidate_if_has_prompt_def kwarn_def monad_defs split: if_splits)
next
  case False
  with assms(2) rec_invalidate_frame [OF readyD(4) [OF assms(1)] prompt_defined [OF readyD(3) [OF assms(1)] False]]
  show ?thesis by (simp add: rec_invalidate_if_has_prompt_def)
qed

lemma sym_set_value_flags:
  assumes r: "ready K rk" and run: "sym_set_value K n s v d = Inr (b, d')"
  shows "was_set d' = (if b then (was_set d)(s := True) else was_set d) \<and>
    (\<forall>c. ch_was_set d' c =
       (ch_was_set d c \<or> b \<and> s_choice (k_sym K s) = Some c \<and> value_for K s v = PInt 2))"
proof -
  define w where "w = value_for K s v"
  note sv = sym_set_value_def [of K n s v, folded value_for_def, folded w_def, unfolded Let_def]
  note fr = rec_invalidate_if_has_prompt_frame [OF r]
  show ?thesis
  proof (cases "s_choice (k_sym K s)")
    case None
    with run show ?thesis
      unfolding w_def [symmetric]
      by (auto simp: sv monad_defs kwarn_def split: if_splits sum.splits dest: fr)
  next
    case (Some c)
    note ri = rec_invalidate_frame [OF readyD(4) [OF r] choice_sym_linked(1) [OF r Some]]
    from Some run show ?thesis
      unfolding w_def [symmetric]
      by (auto simp: sv monad_defs kwarn_def split: if_splits sum.splits dest: fr ri)
  qed
qed

lemma choice_set_value_flags:
  assumes r: "ready K rk" and c: "Cho c \<in> set (all_items K)" and run: "choice_set_value K n c v d = Inr (b, d')"
  shows "was_set d' = was_set d \<and> ch_was_set d' = (if b then (ch_was_set d)(c := True) else ch_was_set d)"
proof -
  note ri = rec_invalidate_frame [OF readyD(4) [OF r] c]
  from run show ?thesis
    by (auto simp: choice_set_value_def Let_def monad_defs kwarn_def split: if_splits sum.splits dest: ri)
qed

lemma sym_unset_value_flags:
  assumes r: "ready K rk" and run: "sym_unset_value K n s d = Inr ((), d')"
  shows "was_set d' = was_set d \<and> ch_was_set d' = ch_was_set d"
  using run rec_invalidate_if_has_prompt_frame [OF r]
  by (fastforce simp: sym_unset_value_def monad_defs split: if_splits)

lemma choice_unset_value_flags:
  assumes r: "ready K rk" and c: "Cho c \<in> set (all_items K)" and run: "choice_unset_value K n c d = Inr ((), d')"
  shows "was_set d' = was_set d \<and> ch_was_set d' = ch_was_set d"
  using run rec_invalidate_frame [OF readyD(4) [OF r] c]
  by (fastforce simp: choice_unset_value_def monad_defs split: if_splits)
section \<open>Loading a configuration from scratch\<close>

text \<open>
  While a file is loaded with \<open>replace\<close>: \<open>e\<close> are the assignments the file has made so far,
  on top of the earlier assignments \<open>u\<close>, and \<open>_was_set\<close> tells what it has set.
\<close>

definition loading :: "kconfig \<Rightarrow> users \<Rightarrow> users \<Rightarrow> dyn \<Rightarrow> bool" where
  "loading K u e d = (good K d \<and> usr d = over e u \<and>
     (\<forall>s \<in> set (k_unique_defined_syms K). was_set d s \<longleftrightarrow> u_sym e s \<noteq> None) \<and>
     (\<forall>c \<in> set (k_unique_choices K). ch_was_set d c \<longleftrightarrow> u_cho e c \<noteq> None \<or> u_sel e c \<noteq> None))"

lemma good_missing_syms [simp]: "good K (d\<lparr>missing_syms := x\<rparr>) = good K d"
proof (rule good_same_view)
  show "cached K (d\<lparr>missing_syms := x\<rparr>) = cached K d"
    by (rule ext, case_tac xa; simp split: option.split)
qed (simp_all add: usr_def consts_ok_def)

lemma loading_flags [simp]:
  "loading K u e (d\<lparr>missing_syms := x\<rparr>) = loading K u e d" "loading K u e (d\<lparr>warnings := w\<rparr>) = loading K u e d"
  by (simp_all add: loading_def) (simp_all add: usr_def)

text \<open>Runs that keep going: \<open>m\<close> returns, and the assignments develop as \<open>f\<close> says.\<close>

definition loads :: "kconfig \<Rightarrow> users \<Rightarrow> 'a ev \<Rightarrow> (users \<Rightarrow> users) \<Rightarrow> bool" where
  "loads K u m f = (\<forall>e d. loading K u e d \<longrightarrow> (\<exists>x d'. m d = Inr (x, d') \<and> loading K u (f e) d'))"

lemma loads_ret: "loads K u (ret x) (\<lambda>e. e)"
  by (simp add: loads_def ret_def)

lemma loads_kwarn: "loads K u (kwarn w) (\<lambda>e. e)"
  by (auto simp: loads_def kwarn_def modify_def)

lemma loads_bind:
  assumes "loads K u m f" and "\<And>x. loads K u (g x) h"
  shows "loads K u (bind m g) (\<lambda>e. h (f e))"
  using assms unfolding loads_def bind_def by (metis (mono_tags, lifting) case_prod_conv sum.case(2))

lemma loads_gets: "(\<And>x. loads K u (g x) h) \<Longrightarrow> loads K u (bind (gets q) g) h"
  by (simp add: loads_def bind_def gets_def)

lemma loads_if: "(b \<Longrightarrow> loads K u m f) \<Longrightarrow> (\<not> b \<Longrightarrow> loads K u m' f) \<Longrightarrow> loads K u (if b then m else m') f"
  by simp

lemma defined_symD:
  assumes "defined_sym K name = Some s"
  shows "s_nodes (k_sym K s) \<noteq> []"
  using assms by (auto simp: defined_sym_def split: option.splits if_splits)

lemma nodes_defined: "tree_ok K \<Longrightarrow> s_nodes (k_sym K s) \<noteq> [] \<Longrightarrow> s \<in> set (k_unique_defined_syms K)"
  by (auto simp: tree_ok_def)

lemma valid_int: "valid_value t (PInt m) \<Longrightarrow> m \<le> 2"
  by (cases "(t, PInt m)" rule: valid_value.cases) auto

lemma loads_set_value:
  assumes r: "ready K rk" and n: "length (all_items K) < n"
  shows "loads K u (sym_set_value K n s v) (assign_sym K s (value_for K s v))"
  unfolding loads_def
proof (intro allI impI)
  fix e d assume l: "loading K u e d"
  then have g: "good K d" by (simp add: loading_def)
  obtain b d' where run: "sym_set_value K n s v d = Inr (b, d')" using sym_set_value_returns [OF r n] by blast
  note res = sym_set_value_good [OF r g run] and fl = sym_set_value_flags [OF r run]
  have "loading K u (assign_sym K s (value_for K s v) e) d'"
    unfolding loading_def
  proof (intro conjI)
    show "usr d' = over (assign_sym K s (value_for K s v) e) u"
      using res l by (simp add: loading_def assign_sym_over)
  qed (use res fl l in \<open>auto simp: loading_def assign_sym_def split: option.splits if_splits\<close>)
  with run show "\<exists>x d'. sym_set_value K n s v d = Inr (x, d') \<and> loading K u (assign_sym K s (value_for K s v) e) d'"
    by blast
qed

lemma loads_choice_set_value:
  assumes r: "ready K rk" and n: "length (all_items K) < n" and c: "Cho c \<in> set (all_items K)"
  shows "loads K u (choice_set_value K n c v) (assign_choice K c (norm_tri v))"
  unfolding loads_def
proof (intro allI impI)
  fix e d assume l: "loading K u e d"
  then have g: "good K d" by (simp add: loading_def)
  obtain b d' where run: "choice_set_value K n c v d = Inr (b, d')" using choice_set_value_returns [OF r n c] by blast
  note res = choice_set_value_good [OF r g c run] and fl = choice_set_value_flags [OF r c run]
  have "loading K u (assign_choice K c (norm_tri v) e) d'"
  proof (cases "choice_valid (c_orig_type (k_choice K c)) (norm_tri v)")
    case True
    then obtain m where m: "norm_tri v = PInt m" using choice_valid_int by blast
    with True res fl l show ?thesis
      by (auto simp: loading_def assign_choice_over) (auto simp: assign_choice_def)
  next
    case False
    with res fl l show ?thesis by (auto simp: loading_def assign_choice_def)
  qed
  with run show "\<exists>x d'. choice_set_value K n c v d = Inr (x, d') \<and> loading K u (assign_choice K c (norm_tri v) e) d'"
    by blast
qed

lemma loads_assigned_twice:
  assumes r: "ready K rk" and s: "s \<in> set (k_unique_defined_syms K)"
  shows "loads K u (bind (gets (\<lambda>d. was_set d s)) (\<lambda>w. if w then assigned_twice K s val linenr else ret ())) (\<lambda>e. e)"
  unfolding loads_def
proof (intro allI impI)
  fix e d assume l: "loading K u e d"
  then have "good K d" by (simp add: loading_def)
  then have wu: "wf_users K (usr d)" by (simp add: good_def)
  show "\<exists>x d'. bind (gets (\<lambda>d. was_set d s)) (\<lambda>w. if w then assigned_twice K s val linenr else ret ()) d = Inr (x, d') \<and>
      loading K u e d'"
  proof (cases "was_set d s")
    case True
    then obtain v where "u_sym e s = Some v" using l s by (auto simp: loading_def)
    with l have v: "user_value d s = Some v" by (metis loading_def over_sel(1) option.simps(5) usr_sel(1))
    have ok: "valid_value (otype K s) v" using wf_usersD(1) [OF wu, of s v] v by simp
    show ?thesis
    proof (cases "bool_tristate (otype K s)")
      case bt: True
      obtain m where m: "v = PInt m" using valid_tri [OF ok bt] by blast
      with ok valid_int have "m \<le> 2" by blast
      with bt m v True l show ?thesis by (auto simp: assigned_twice_def monad_defs kwarn_def)
    next
      case bt: False
      obtain x where "v = PStr x" using valid_str [OF ok bt] by blast
      with bt v True l show ?thesis by (auto simp: assigned_twice_def monad_defs kwarn_def)
    qed
  qed (use l in \<open>simp add: monad_defs\<close>)
qed

lemma loads_assign_parsed:
  assumes r: "ready K rk" and n: "length (all_items K) < n" and s: "s \<in> set (k_unique_defined_syms K)"
  shows "loads K u (assign_parsed K n s v i) (assign_sym K s (value_for K s (PStr v)))"
proof -
  have "loads K u (bind (bind (gets (\<lambda>d. was_set d s)) (\<lambda>w. if w then assigned_twice K s v i else ret ()))
      (\<lambda>_. bind (sym_set_value K n s (PStr v)) (\<lambda>_. ret ()))) (assign_sym K s (value_for K s (PStr v)))"
    using loads_bind [OF loads_assigned_twice [OF r s] loads_bind [OF loads_set_value [OF r n] loads_ret]] .
  then show ?thesis by (simp only: assign_parsed_def bind_assoc)
qed

lemma loads_infer_mode:
  assumes r: "ready K rk" and n: "length (all_items K) < n" and bt: "bool_tristate (otype K s)"
  shows "loads K u (infer_mode K n s v i) (mode_users K s v)"
proof (cases "s_choice (k_sym K s)")
  case None
  then show ?thesis by (simp add: infer_mode_def mode_users_def [abs_def] loads_ret)
next
  case (Some c)
  have 1: "loads K u (if b then kwarn w else ret ()) (\<lambda>e. e)" for b w
    by (simp add: loads_kwarn loads_ret)
  note 2 = loads_bind [OF loads_choice_set_value [OF r n choice_sym_linked(1) [OF r Some]] loads_ret]
  have "loads K u (bind (gets (\<lambda>d. ch_user_value d c)) (\<lambda>prev.
      bind (if (\<exists>m. prev = Some m \<and> tri_to_str m \<noteq> v) then kwarn (W_choice_m_and_y i) else ret ()) (\<lambda>_.
      bind (choice_set_value K n c (PStr v)) (\<lambda>_. ret ())))) (assign_choice K c (norm_tri (PStr v)))"
    by (rule loads_gets) (rule loads_bind [OF 1 2])
  then show ?thesis
    using Some bt by (simp add: infer_mode_def mode_users_def [abs_def] loads_ret)
qed

lemma loads_undef_assign: "loads K u (undef_assign a b i) (\<lambda>e. e)"
  by (auto simp: loads_def undef_assign_def monad_defs kwarn_def)

lemma loads_eq: "loads K u m f \<Longrightarrow> (\<And>e. f e = g e) \<Longrightarrow> loads K u m g"
  by (subgoal_tac "f = g") auto

lemma loads_load_line:
  assumes r: "ready K rk" and n: "length (all_items K) < n"
  shows "loads K u (load_line K n i raw) (line_users K raw)"
proof (cases "set_match (k_config_prefix K) (py_rstrip raw)")
  case (Some nv)
  obtain name val where nv: "nv = (name, val)" by (cases nv)
  show ?thesis
  proof (cases "defined_sym K name")
    case None
    then show ?thesis
      using loads_undef_assign
      by (simp add: load_line_def parse_line_def line_users_def [abs_def] Let_def Some nv)
  next
    case (Some s)
    have s: "s \<in> set (k_unique_defined_syms K)"
      by (rule nodes_defined [OF readyD(3) [OF r] defined_symD [OF Some]])
    note ap = loads_assign_parsed [OF r n s]
    have w: "loads K u (bind (bind (kwarn w) (\<lambda>_. ret None)) (\<lambda>r. case r of None \<Rightarrow> ret () | Some v \<Rightarrow> assign_parsed K n s v i)) (\<lambda>e. e)" for w
      by (simp add: bind_assoc loads_kwarn)
    have t: "loads K u (bind (bind (infer_mode K n s v i) (\<lambda>_. ret (Some v)))
        (\<lambda>r. case r of None \<Rightarrow> ret () | Some v \<Rightarrow> assign_parsed K n s v i))
        (\<lambda>e. assign_sym K s (value_for K s (PStr v)) (mode_users K s v e))" if "bool_tristate (otype K s)" for v
      by (simp add: bind_assoc loads_bind [OF loads_infer_mode [OF r n that] ap])
    have mu: "\<not> bool_tristate (otype K s) \<Longrightarrow> mode_users K s v e = e" for v e
      by (simp add: mode_users_def split: option.split)
    show ?thesis
      using w t ap
      by (auto simp: load_line_def parse_line_def line_users_def [abs_def] Let_def nv Some
          \<open>set_match _ _ = Some nv\<close> parse_value_def mu split: option.split)
  qed
next
  case None
  show ?thesis
  proof (cases "unset_match (k_config_prefix K) (py_rstrip raw)")
    case un: None
    show ?thesis
      by (simp add: loads_kwarn loads_ret load_line_def parse_line_def line_users_def [abs_def] Let_def None un)
  next
    case (Some name)
    show ?thesis
    proof (cases "defined_sym K name")
      case un: None
      then show ?thesis
        using loads_undef_assign
        by (simp add: load_line_def parse_line_def line_users_def [abs_def] Let_def None Some)
    next
      case ds: (Some s)
      have s: "s \<in> set (k_unique_defined_syms K)"
        by (rule nodes_defined [OF readyD(3) [OF r] defined_symD [OF ds]])
      have mu: "mode_users K s ''n'' e = e" for e
        by (simp add: mode_users_def split: option.split)
      show ?thesis
        using loads_assign_parsed [OF r n s, of u "''n''" i]
        by (simp add: loads_ret load_line_def parse_line_def line_users_def [abs_def] Let_def None Some ds mu)
    qed
  qed
qed
text \<open>The assignments a file makes.\<close>

definition file_users :: "kconfig \<Rightarrow> string list \<Rightarrow> users" where
  "file_users K lines = fold (line_users K) lines no_users"

text \<open>
  The assignments after loading the file with \<open>replace\<close> on top of \<open>u\<close>: symbols the file does
  not set lose their user value; a choice of which the file sets neither the mode nor the
  selection loses both.
\<close>

definition replace_users :: "kconfig \<Rightarrow> users \<Rightarrow> users \<Rightarrow> users" where
  "replace_users K e u =
     \<lparr>u_sym = (\<lambda>s. if s \<in> set (k_unique_defined_syms K) \<and> u_sym e s = None then None else u_sym (over e u) s),
      u_cho = (\<lambda>c. if c \<in> set (k_unique_choices K) \<and> u_cho e c = None \<and> u_sel e c = None then None
        else u_cho (over e u) c),
      u_sel = (\<lambda>c. if c \<in> set (k_unique_choices K) \<and> u_cho e c = None \<and> u_sel e c = None then None
        else u_sel (over e u) c)\<rparr>"

lemma loads_lines:
  assumes r: "ready K rk" and n: "length (all_items K) < n"
  shows "loads K u (foldm (\<lambda>(i, line) _. load_line K n i line) ls ()) (fold (line_users K) (map snd ls))"
proof (induction ls)
  case Nil
  then show ?case by (simp add: loads_ret id_def)
next
  case (Cons l ls)
  obtain i line where l: "l = (i, line)" by (cases l)
  show ?case
    using loads_bind [OF loads_load_line [OF r n, of u i line], of "\<lambda>_. foldm (\<lambda>(i, line) _. load_line K n i line) ls ()"]
      Cons by (simp add: l comp_def)
qed

text \<open>The loops that unset what the file did not set.\<close>

lemma unset_syms:
  assumes r: "ready K rk" and n: "length (all_items K) < n"
  shows "good K d \<Longrightarrow> \<exists>d'. foldm (\<lambda>s _. bind (gets (\<lambda>d. was_set d s)) (\<lambda>w. if w then ret () else sym_unset_value K n s)) ss () d
      = Inr ((), d') \<and> good K d' \<and> was_set d' = was_set d \<and> ch_was_set d' = ch_was_set d \<and>
      usr d' = (usr d)\<lparr>u_sym := (\<lambda>s. if s \<in> set ss \<and> \<not> was_set d s then None else u_sym (usr d) s)\<rparr>"
proof (induction ss arbitrary: d)
  case Nil
  then show ?case by (simp add: ret_def)
next
  case (Cons s ss)
  let ?step = "bind (gets (\<lambda>d. was_set d s)) (\<lambda>w. if w then ret () else sym_unset_value K n s)"
  have "\<exists>d1. ?step d = Inr ((), d1) \<and> good K d1 \<and> was_set d1 = was_set d \<and> ch_was_set d1 = ch_was_set d \<and>
      usr d1 = (usr d)\<lparr>u_sym := (\<lambda>x. if x = s \<and> \<not> was_set d s then None else u_sym (usr d) x)\<rparr>"
  proof (cases "was_set d s")
    case True
    with Cons.prems show ?thesis by (simp add: monad_defs)
  next
    case False
    obtain d1 where run: "sym_unset_value K n s d = Inr ((), d1)" using sym_unset_value_returns [OF r n] by blast
    have "(u_sym (usr d))(s := None) = (\<lambda>x. if x = s then None else u_sym (usr d) x)" by auto
    with sym_unset_value_good [OF r Cons.prems run] sym_unset_value_flags [OF r run] run False
    show ?thesis by (simp add: monad_defs)
  qed
  then obtain d1 where 1: "?step d = Inr ((), d1)" "good K d1" "was_set d1 = was_set d" "ch_was_set d1 = ch_was_set d"
      "usr d1 = (usr d)\<lparr>u_sym := (\<lambda>x. if x = s \<and> \<not> was_set d s then None else u_sym (usr d) x)\<rparr>" by blast
  from Cons.IH [OF 1(2)] obtain d2 where 2:
    "foldm (\<lambda>s _. bind (gets (\<lambda>d. was_set d s)) (\<lambda>w. if w then ret () else sym_unset_value K n s)) ss () d1 = Inr ((), d2)"
    "good K d2" "was_set d2 = was_set d1" "ch_was_set d2 = ch_was_set d1"
    "usr d2 = (usr d1)\<lparr>u_sym := (\<lambda>s. if s \<in> set ss \<and> \<not> was_set d1 s then None else u_sym (usr d1) s)\<rparr>" by blast
  have "foldm (\<lambda>s _. bind (gets (\<lambda>d. was_set d s)) (\<lambda>w. if w then ret () else sym_unset_value K n s)) (s # ss) () d = Inr ((), d2)"
    using 1(1) 2(1) by (simp add: bind_def [of ?step])
  then show ?case
    using 1 2 by (auto simp: fun_eq_iff)
qed

lemma unset_choices:
  assumes r: "ready K rk" and n: "length (all_items K) < n"
  shows "good K d \<Longrightarrow> set cs \<subseteq> set (k_unique_choices K) \<Longrightarrow>
    \<exists>d'. foldm (\<lambda>c _. bind (gets (\<lambda>d. ch_was_set d c)) (\<lambda>w. if w then ret () else choice_unset_value K n c)) cs () d
      = Inr ((), d') \<and> good K d' \<and> was_set d' = was_set d \<and> ch_was_set d' = ch_was_set d \<and>
      usr d' = (usr d)\<lparr>u_cho := (\<lambda>c. if c \<in> set cs \<and> \<not> ch_was_set d c then None else u_cho (usr d) c),
        u_sel := (\<lambda>c. if c \<in> set cs \<and> \<not> ch_was_set d c then None else u_sel (usr d) c)\<rparr>"
proof (induction cs arbitrary: d)
  case Nil
  then show ?case by (simp add: ret_def)
next
  case (Cons c cs)
  let ?step = "bind (gets (\<lambda>d. ch_was_set d c)) (\<lambda>w. if w then ret () else choice_unset_value K n c)"
  have c: "Cho c \<in> set (all_items K)" using Cons.prems(2) by (simp add: all_items_def)
  have "\<exists>d1. ?step d = Inr ((), d1) \<and> good K d1 \<and> was_set d1 = was_set d \<and> ch_was_set d1 = ch_was_set d \<and>
      usr d1 = (usr d)\<lparr>u_cho := (\<lambda>x. if x = c \<and> \<not> ch_was_set d c then None else u_cho (usr d) x),
        u_sel := (\<lambda>x. if x = c \<and> \<not> ch_was_set d c then None else u_sel (usr d) x)\<rparr>"
  proof (cases "ch_was_set d c")
    case True
    with Cons.prems show ?thesis by (simp add: monad_defs)
  next
    case False
    obtain d1 where run: "choice_unset_value K n c d = Inr ((), d1)" using choice_unset_value_returns [OF r n c] by blast
    have "(u_cho (usr d))(c := None) = (\<lambda>x. if x = c then None else u_cho (usr d) x)"
      "(u_sel (usr d))(c := None) = (\<lambda>x. if x = c then None else u_sel (usr d) x)" by auto
    with choice_unset_value_good [OF r Cons.prems(1) c run] choice_unset_value_flags [OF r c run] run False
    show ?thesis by (simp add: monad_defs)
  qed
  then obtain d1 where 1: "?step d = Inr ((), d1)" "good K d1" "was_set d1 = was_set d" "ch_was_set d1 = ch_was_set d"
      "usr d1 = (usr d)\<lparr>u_cho := (\<lambda>x. if x = c \<and> \<not> ch_was_set d c then None else u_cho (usr d) x),
        u_sel := (\<lambda>x. if x = c \<and> \<not> ch_was_set d c then None else u_sel (usr d) x)\<rparr>" by blast
  from Cons.IH [OF 1(2)] Cons.prems(2) obtain d2 where 2:
    "foldm (\<lambda>c _. bind (gets (\<lambda>d. ch_was_set d c)) (\<lambda>w. if w then ret () else choice_unset_value K n c)) cs () d1 = Inr ((), d2)"
    "good K d2" "was_set d2 = was_set d1" "ch_was_set d2 = ch_was_set d1"
    "usr d2 = (usr d1)\<lparr>u_cho := (\<lambda>c. if c \<in> set cs \<and> \<not> ch_was_set d1 c then None else u_cho (usr d1) c),
        u_sel := (\<lambda>c. if c \<in> set cs \<and> \<not> ch_was_set d1 c then None else u_sel (usr d1) c)\<rparr>" by auto
  have "foldm (\<lambda>c _. bind (gets (\<lambda>d. ch_was_set d c)) (\<lambda>w. if w then ret () else choice_unset_value K n c)) (c # cs) () d = Inr ((), d2)"
    using 1(1) 2(1) by (simp add: bind_def [of ?step])
  then show ?case
    using 1 2 by (auto simp: fun_eq_iff)
qed

lemma load_replaces:
  assumes r: "ready K rk" and n: "length (all_items K) < n" and g: "good K d"
  shows "\<exists>d'. load_config K n lines True d = Inr ((), d') \<and> good K d' \<and>
    usr d' = replace_users K (file_users K lines) (usr d)"
proof -
  let ?reset = "\<lambda>d. d\<lparr>missing_syms := [],
             was_set := (\<lambda>s. if s \<in> set (k_unique_defined_syms K) then False else was_set d s),
             ch_was_set := (\<lambda>c. if c \<in> set (k_unique_choices K) then False else ch_was_set d c)\<rparr>"
  define d0 where "d0 = ?reset (d\<lparr>warn_assign_no_prompt := False\<rparr>)"
  let ?e = "file_users K lines"
  have "good K d0" "usr d0 = usr d" using g by (simp_all add: d0_def)
  then have l0: "loading K (usr d) no_users d0"
    by (simp add: loading_def) (simp add: no_users_def d0_def)
  have "fold (line_users K) (map snd (enumerate 1 lines)) no_users = ?e"
    by (simp add: file_users_def)
  then obtain d1 where 1: "foldm (\<lambda>(i, line) _. load_line K n i line) (enumerate 1 lines) () d0 = Inr ((), d1)"
    "loading K (usr d) ?e d1"
    using loads_lines [OF r n, of "usr d" "enumerate 1 lines"] l0 unfolding loads_def by fastforce
  then have g1: "good K d1" by (simp add: loading_def)
  obtain d2 where 2: "foldm (\<lambda>s _. bind (gets (\<lambda>d. was_set d s)) (\<lambda>w. if w then ret () else sym_unset_value K n s))
      (k_unique_defined_syms K) () d1 = Inr ((), d2)" "good K d2" "ch_was_set d2 = ch_was_set d1"
    "usr d2 = (usr d1)\<lparr>u_sym := (\<lambda>s. if s \<in> set (k_unique_defined_syms K) \<and> \<not> was_set d1 s then None else u_sym (usr d1) s)\<rparr>"
    using unset_syms [OF r n g1, of "k_unique_defined_syms K"] by blast
  obtain d3 where 3: "foldm (\<lambda>c _. bind (gets (\<lambda>d. ch_was_set d c)) (\<lambda>w. if w then ret () else choice_unset_value K n c))
      (k_unique_choices K) () d2 = Inr ((), d3)" "good K d3"
    "usr d3 = (usr d2)\<lparr>u_cho := (\<lambda>c. if c \<in> set (k_unique_choices K) \<and> \<not> ch_was_set d2 c then None else u_cho (usr d2) c),
        u_sel := (\<lambda>c. if c \<in> set (k_unique_choices K) \<and> \<not> ch_was_set d2 c then None else u_sel (usr d2) c)\<rparr>"
    using unset_choices [OF r n 2(2), of "k_unique_choices K"] by blast
  have "load_config_file K n lines True (d\<lparr>warn_assign_no_prompt := False\<rparr>) = Inr ((), d3)"
    unfolding load_config_file_def if_True
    by (rule bind_InrI [where x = "()" and d' = d0], simp add: modify_def d0_def,
        rule bind_InrI, rule 1(1), rule bind_InrI, rule 2(1), rule 3(1))
  then have "bind (load_config_file K n lines True) (\<lambda>_. modify (\<lambda>d. d\<lparr>warn_assign_no_prompt := True\<rparr>))
      (d\<lparr>warn_assign_no_prompt := False\<rparr>) = Inr ((), d3\<lparr>warn_assign_no_prompt := True\<rparr>)"
    by (rule bind_InrI) (simp add: modify_def)
  then have "load_config K n lines True d = Inr ((), d3\<lparr>warn_assign_no_prompt := True\<rparr>)"
    by (simp add: load_config_def modify_then)
  moreover have "usr d3 = replace_users K ?e (usr d)"
    using 1(2) unfolding 2(3,4) 3(3) loading_def replace_users_def
    by (auto simp: fun_eq_iff over_def)
  ultimately show ?thesis using 3(2) by simp
qed

end
