(* ===== verification/Walk.thy ===== *)
theory Walk
  imports State
begin

text \<open>
  The iterative walk over the menu tree that \<open>Kconfig.node_iter\<close> and \<open>Kconfig._config_contents\<close>
  (\<^verbatim>\<open>src/scripts/kconfig/kconfiglib.py\<close>) perform along the \<open>list\<close>, \<open>next\<close> and \<open>parent\<close> links of the
  menu nodes, and the proof that on links that represent a tree it ends and visits the nodes
  in preorder.
\<close>

section \<open>The walk\<close>

text \<open>
  What happens at a node during the walk: it is visited, or it is left because the walk
  climbs up to it from its last descendant.
\<close>

datatype wevent = Visit noderef | Leave noderef

text \<open>
  The inner loop \<open>while node.parent\<close>: the nodes that are left, and the next node to visit if
  there is one. The fuel bounds the number of rounds.
\<close>

fun climb :: "kconfig \<Rightarrow> nat \<Rightarrow> noderef \<Rightarrow> (noderef list \<times> noderef option) option" where
  "climb K 0 x = None"
| "climb K (Suc n) x =
     (case n_parent (k_node K x) of
        None \<Rightarrow> Some ([], None)
      | Some p \<Rightarrow>
          (case n_next (k_node K p) of
             Some q \<Rightarrow> Some ([p], Some q)
           | None \<Rightarrow> map_option (\<lambda>(ls, r). (p # ls, r)) (climb K n p)))"

text \<open>Jump to the next node with an iterative tree walk.\<close>

definition jump :: "kconfig \<Rightarrow> nat \<Rightarrow> noderef \<Rightarrow> (noderef list \<times> noderef option) option" where
  "jump K n x =
     (case n_list (k_node K x) of
        Some l \<Rightarrow> Some ([], Some l)
      | None \<Rightarrow> (case n_next (k_node K x) of Some q \<Rightarrow> Some ([], Some q) | None \<Rightarrow> climb K n x))"

text \<open>The outer loop \<open>while 1\<close>, from the node it has reached.\<close>

fun walk :: "kconfig \<Rightarrow> nat \<Rightarrow> noderef \<Rightarrow> wevent list option" where
  "walk K 0 x = None"
| "walk K (Suc n) x =
     (case jump K n x of
        None \<Rightarrow> None
      | Some (ls, None) \<Rightarrow> Some (map Leave ls)
      | Some (ls, Some y) \<Rightarrow> map_option (\<lambda>es. map Leave ls @ Visit y # es) (walk K n y))"

text \<open>\<open>Kconfig.node_iter\<close>: the nodes the generator yields.\<close>

fun iter_nodes :: "kconfig \<Rightarrow> bool \<Rightarrow> symref list \<Rightarrow> wevent list \<Rightarrow> noderef list" where
  "iter_nodes K unique seen [] = []"
| "iter_nodes K unique seen (Leave x # es) = iter_nodes K unique seen es"
| "iter_nodes K unique seen (Visit x # es) =
     (case n_item (k_node K x) of
        NSym s \<Rightarrow>
          if unique \<and> s \<in> set seen then iter_nodes K unique seen es
          else x # iter_nodes K unique (s # seen) es
      | _ \<Rightarrow> x # iter_nodes K unique seen es)"

definition node_iter :: "kconfig \<Rightarrow> nat \<Rightarrow> bool \<Rightarrow> noderef list option" where
  "node_iter K n unique = map_option (iter_nodes K unique []) (walk K n (k_top_node K))"

section \<open>The tree\<close>

text \<open>
  The menu tree as a datatype, and when the \<open>list\<close>, \<open>next\<close> and \<open>parent\<close> links represent it:
  \<open>repr K p f ts\<close> says that \<open>f\<close> is the first of the siblings \<open>ts\<close> below \<open>p\<close>.
\<close>

datatype ntree = NTree (root: noderef) (subtrees: "ntree list")

fun repr :: "kconfig \<Rightarrow> noderef \<Rightarrow> noderef option \<Rightarrow> ntree list \<Rightarrow> bool" where
  "repr K p f [] = (f = None)"
| "repr K p f (NTree x cs # ts) =
     (f = Some x \<and> n_parent (k_node K x) = Some p \<and> repr K x (n_list (k_node K x)) cs \<and>
      repr K p (n_next (k_node K x)) ts)"

definition menu_tree :: "kconfig \<Rightarrow> ntree list \<Rightarrow> bool" where
  "menu_tree K ts =
     (repr K (k_top_node K) (n_list (k_node K (k_top_node K))) ts \<and>
      n_parent (k_node K (k_top_node K)) = None \<and> n_next (k_node K (k_top_node K)) = None)"

fun nodes_of :: "ntree list \<Rightarrow> noderef list" where
  "nodes_of [] = []"
| "nodes_of (NTree x cs # ts) = x # nodes_of cs @ nodes_of ts"

text \<open>The events of the walk in order: a node, what is below it, and leaving it.\<close>

fun events :: "ntree list \<Rightarrow> wevent list" where
  "events [] = []"
| "events (NTree x cs # ts) =
     Visit x # events cs @ (if cs = [] then [] else [Leave x]) @ events ts"

section \<open>The walk visits the tree in order\<close>

text \<open>The rest of a walk, and the rest of a walk that is about to climb up from a node.\<close>

inductive walks :: "kconfig \<Rightarrow> noderef \<Rightarrow> wevent list \<Rightarrow> bool" and
  climbs :: "kconfig \<Rightarrow> noderef \<Rightarrow> wevent list \<Rightarrow> bool" for K where
  w_list: "n_list (k_node K x) = Some l \<Longrightarrow> walks K l es \<Longrightarrow> walks K x (Visit l # es)"
| w_next: "n_list (k_node K x) = None \<Longrightarrow> n_next (k_node K x) = Some q \<Longrightarrow> walks K q es \<Longrightarrow>
    walks K x (Visit q # es)"
| w_climb: "n_list (k_node K x) = None \<Longrightarrow> n_next (k_node K x) = None \<Longrightarrow> climbs K x es \<Longrightarrow> walks K x es"
| c_top: "n_parent (k_node K x) = None \<Longrightarrow> climbs K x []"
| c_next: "n_parent (k_node K x) = Some p \<Longrightarrow> n_next (k_node K p) = Some q \<Longrightarrow> walks K q es \<Longrightarrow>
    climbs K x (Leave p # Visit q # es)"
| c_up: "n_parent (k_node K x) = Some p \<Longrightarrow> n_next (k_node K p) = None \<Longrightarrow> climbs K p es \<Longrightarrow>
    climbs K x (Leave p # es)"

text \<open>The fuelled walk follows: a little more fuel than there are events is enough.\<close>

lemma walk_complete:
  "walks K x es \<Longrightarrow> (\<And>n. Suc (length es) < n \<Longrightarrow> walk K n x = Some es)"
  "climbs K x es \<Longrightarrow> (\<And>n. length es < n \<Longrightarrow>
     \<exists>ls r. climb K n x = Some (ls, r) \<and>
       (case r of None \<Rightarrow> es = map Leave ls
        | Some y \<Rightarrow> \<exists>es'. es = map Leave ls @ Visit y # es' \<and>
            (\<forall>m. Suc (length es') < m \<longrightarrow> walk K m y = Some es')))"
proof (induction rule: walks_climbs.inducts)
  case (w_list x l es)
  then show ?case by (cases n) (auto simp: jump_def)
next
  case (w_next x q es)
  then show ?case by (cases n) (auto simp: jump_def)
next
  case (w_climb x es)
  obtain n' where n: "n = Suc n'" "length es < n'" using w_climb(5) by (cases n) auto
  from w_climb(4) [OF n(2)] n w_climb(1,2) show ?case
    by (auto simp: jump_def split: option.splits)
next
  case (c_top x)
  then show ?case by (cases n) auto
next
  case (c_next x p q es)
  then show ?case by (cases n) auto
next
  case (c_up x p es)
  then obtain n' where n: "n = Suc n'" "length es < n'" by (cases n) auto
  from c_up(4) [OF n(2)] obtain ls r where 1: "climb K n' p = Some (ls, r)"
    "case r of None \<Rightarrow> es = map Leave ls
        | Some y \<Rightarrow> \<exists>es'. es = map Leave ls @ Visit y # es' \<and>
            (\<forall>m. Suc (length es') < m \<longrightarrow> walk K m y = Some es')" by blast
  then have "climb K n x = Some (p # ls, r)" using c_up(1,2) n by simp
  with 1(2) show ?case by (auto split: option.splits)
qed

text \<open>The walk of a forest, followed by climbing up from its parent.\<close>

lemma walks_repr:
  "repr K p f ts \<Longrightarrow> (\<And>x. n_parent (k_node K x) = Some p \<Longrightarrow> climbs K x es) \<Longrightarrow>
   (case f of None \<Rightarrow> events ts = []
    | Some y \<Rightarrow> \<exists>es'. walks K y es' \<and> events ts @ es = Visit y # es')"
proof (induction K p f ts arbitrary: es rule: repr.induct)
  case (2 K p f x cs ts)
  let ?N = "k_node K x"
  from "2.prems"(1) have r: "f = Some x" "n_parent ?N = Some p" "repr K x (n_list ?N) cs" "repr K p (n_next ?N) ts"
    by simp_all
  note ts = "2.IH"(2) [OF r(4) "2.prems"(2)]
  have up: "climbs K y (Leave x # events ts @ es)" if "n_parent (k_node K y) = Some x" for y
  proof (cases "n_next ?N")
    case None
    then show ?thesis using ts c_up [OF that None "2.prems"(2) [OF r(2)]] by simp
  next
    case (Some q)
    then show ?thesis using ts c_next [OF that Some] by auto
  qed
  have after: "\<exists>es'. walks K x es' \<and> es' = events ts @ es" if "n_list ?N = None"
  proof (cases "n_next ?N")
    case None
    then show ?thesis using ts w_climb [OF that None "2.prems"(2) [OF r(2)]] by simp
  next
    case (Some q)
    then show ?thesis using ts w_next [OF that Some] by auto
  qed
  show ?case
  proof (cases "n_list ?N")
    case None
    then have "cs = []" using r(3) by (cases cs) (auto elim: repr.elims)
    with after [OF None] r(1) show ?thesis by simp
  next
    case (Some l)
    then have cs: "cs \<noteq> []" using r(3) by auto
    from "2.IH"(1) [OF r(3) up] Some obtain es' where
      "walks K l es'" "events cs @ Leave x # events ts @ es = Visit l # es'" by auto
    with w_list [OF Some] cs r(1) show ?thesis by (auto intro!: exI [of _ "Visit l # es'"])
  qed
qed simp

lemma walks_menu_tree:
  assumes "menu_tree K ts"
  shows "walks K (k_top_node K) (events ts @ (if ts = [] then [] else [Leave (k_top_node K)]))"
proof -
  let ?top = "k_top_node K"
  note t = assms [unfolded menu_tree_def]
  have top: "climbs K ?top []" using t by (auto intro: c_top)
  have up: "climbs K x [Leave ?top]" if "n_parent (k_node K x) = Some ?top" for x
    using c_up [OF that _ top] t by simp
  show ?thesis
  proof (cases "n_list (k_node K ?top)")
    case None
    with t top show ?thesis by (cases ts rule: nodes_of.cases) (auto intro: w_climb)
  next
    case (Some l)
    then have "ts \<noteq> []" using t by auto
    with walks_repr [of K ?top "Some l" ts "[Leave ?top]"] t up Some w_list [OF Some] show ?thesis by auto
  qed
qed

lemma walk_menu_tree:
  assumes "menu_tree K ts" and "length (events ts) + 2 < n"
  shows "walk K n (k_top_node K) = Some (events ts @ (if ts = [] then [] else [Leave (k_top_node K)]))"
  by (rule walk_complete(1) [OF walks_menu_tree [OF assms(1)]]) (use assms(2) in auto)

section \<open>What the iterator yields\<close>

lemma events_bound: "length (events ts) \<le> 2 * length (nodes_of ts)"
  by (induction ts rule: events.induct) auto

lemma iter_nodes_append_Leave [simp]: "iter_nodes K b seen (es @ [Leave x]) = iter_nodes K b seen es"
  by (induction K b seen es rule: iter_nodes.induct) (auto split: nitem.split)

lemma iter_nodes_all: "iter_nodes K False seen es = [x. Visit x \<leftarrow> es]"
  by (induction K False seen es rule: iter_nodes.induct) (auto split: nitem.split)

lemma visits_events: "[x. Visit x \<leftarrow> events ts] = nodes_of ts"
  by (induction ts rule: events.induct) auto

lemma node_iter_preorder:
  assumes "menu_tree K ts" and "2 * length (nodes_of ts) + 2 < n"
  shows "node_iter K n False = Some (nodes_of ts)"
proof -
  have "length (events ts) + 2 < n" using assms(2) events_bound [of ts] by simp
  from walk_menu_tree [OF assms(1) this] show ?thesis
    by (simp add: node_iter_def iter_nodes_all visits_events)
qed

text \<open>The items the iterator yields when asked for unique symbols: all of them, but every symbol once.\<close>

lemma iter_nodes_syms:
  "[s. NSym s \<leftarrow> map (\<lambda>x. n_item (k_node K x)) (iter_nodes K True seen es)] =
   ordered_unique_aux seen [s. NSym s \<leftarrow> map (\<lambda>x. n_item (k_node K x)) [x. Visit x \<leftarrow> es]]"
  by (induction K True seen es rule: iter_nodes.induct) (auto split: nitem.splits)

definition syms_of :: "kconfig \<Rightarrow> noderef list \<Rightarrow> symref list" where
  "syms_of K xs = [s. NSym s \<leftarrow> map (\<lambda>x. n_item (k_node K x)) xs]"

lemma node_iter_unique:
  assumes "menu_tree K ts" and "2 * length (nodes_of ts) + 2 < n"
  shows "\<exists>xs. node_iter K n True = Some xs \<and> syms_of K xs = ordered_unique_aux [] (syms_of K (nodes_of ts))"
proof -
  have "length (events ts) + 2 < n" using assms(2) events_bound [of ts] by simp
  from walk_menu_tree [OF assms(1) this] show ?thesis
    using iter_nodes_syms [of K "[]" "events ts"] by (simp add: node_iter_def syms_of_def visits_events)
qed
end
