(* ===== verification/Output.thy ===== *)
theory Output
  imports ConfigFile Walk
begin

text \<open>
  Writing configurations (\<open>Symbol.config_string\<close>, \<open>Kconfig._config_contents\<close>,
  \<open>_min_config_contents\<close>, \<open>_autoconf_contents\<close>, \<open>_old_vals_contents\<close> and \<open>Symbol._str_default\<close> in
  \<^verbatim>\<open>src/scripts/kconfig/kconfiglib.py\<close>), and what their output is in terms of the values of the
  symbols. \<open>yields\<close> lifts the refinement of the calculation to clients that only read values.
\<close>

section \<open>Reading values in a right state\<close>

text \<open>
  \<open>m\<close> yields \<open>x\<close> under the assignments \<open>u\<close>: from every state in which the caches are right it
  returns \<open>x\<close>, keeps the assignments and leaves the caches right.
\<close>

definition yields :: "kconfig \<Rightarrow> users \<Rightarrow> 'a ev \<Rightarrow> 'a \<Rightarrow> bool" where
  "yields K u m x = (\<forall>d. good K d \<longrightarrow> usr d = u \<longrightarrow> (\<exists>d'. m d = Inr (x, d') \<and> usr d' = u \<and> good K d'))"

lemma yieldsE:
  assumes "yields K u m x" and "good K d" and "usr d = u"
  obtains d' where "m d = Inr (x, d')" "usr d' = u" "good K d'"
  using assms by (auto simp: yields_def)

lemma yields_ret: "yields K u (ret x) x"
  by (simp add: yields_def ret_def)

lemma yields_eq: "yields K u m x \<Longrightarrow> x = y \<Longrightarrow> yields K u m y"
  by simp

lemma yields_bind: "yields K u m x \<Longrightarrow> yields K u (f x) y \<Longrightarrow> yields K u (bind m f) y"
  unfolding yields_def bind_def by fastforce

lemma yields_foldm:
  assumes "\<And>x acc. x \<in> set xs \<Longrightarrow> yields K u (f x acc) (g x acc)"
  shows "yields K u (foldm f xs acc) (fold g xs acc)"
  using assms
proof (induction xs arbitrary: acc)
  case (Cons x xs)
  have "yields K u (foldm f xs (g x acc)) (fold g xs (g x acc))"
    by (rule Cons.IH) (simp add: Cons.prems)
  with Cons.prems [of x acc] show ?case by (auto intro: yields_bind)
qed (simp add: yields_ret)

lemma yields_firstm:
  assumes "\<And>x. x \<in> set xs \<Longrightarrow> yields K u (f x) (g x)"
  shows "yields K u (firstm f xs) (firstp g xs)"
  using assms
proof (induction xs)
  case (Cons x xs)
  then have "yields K u (firstm f xs) (firstp g xs)" by simp
  with Cons.prems [of x] show ?case
    by (auto intro!: yields_bind [of K u "f x" "g x"] simp: yields_ret split: option.split)
qed (simp add: yields_ret)

lemma yields_if: "(b \<Longrightarrow> yields K u m x) \<Longrightarrow> (\<not> b \<Longrightarrow> yields K u m' y) \<Longrightarrow>
    yields K u (if b then m else m') (if b then x else y)"
  by simp

text \<open>
  What a client of the values relies on: a configuration without loops, well-formed
  assignments and a call stack that is deep enough.
\<close>

definition reading :: "kconfig \<Rightarrow> (vkey \<Rightarrow> nat) \<Rightarrow> users \<Rightarrow> nat \<Rightarrow> bool" where
  "reading K rk u n = (sound_kconfig K rk \<and> wf_users K u \<and> (\<forall>k. Suc (rk k) < n))"

lemma reading_valuation: "reading K rk u n \<Longrightarrow> is_valuation K u (solution K u rk)"
  by (simp add: reading_def sound_kconfig_def solution_is_valuation)

lemma reading_accs:
  assumes "reading K rk u n"
  shows "reads_ok K u (solution K u rk) (accs K n) UNIV"
    and "reads_ok K u (solution K u rk) (accs K (n - 1)) UNIV"
proof -
  have 1: "{k. rk k < n} = UNIV" and 2: "{k. rk k < n - 1} = UNIV"
    using assms by (auto simp: reading_def less_diff_conv intro: Suc_lessD)
  note * = reads_ok_accs [of K rk u "solution K u rk"] assms [unfolded reading_def sound_kconfig_def]
    reading_valuation [OF assms]
  show "reads_ok K u (solution K u rk) (accs K n) UNIV" using * 1 by metis
  show "reads_ok K u (solution K u rk) (accs K (n - 1)) UNIV" using * 2 by metis
qed

lemma yields_cps:
  "reading K rk u n \<Longrightarrow> cps K u (solution K u rk) m f \<Longrightarrow> yields K u m (f (solution K u rk))"
  unfolding yields_def reading_def by (metis good_calc)

lemma yields_expr: "reading K rk u n \<Longrightarrow> yields K u (expr_value K (accs K n) e) (ev K u (solution K u rk) e)"
  by (rule yields_cps, assumption, rule cps_expr_value, erule reading_accs(1), simp)

lemma yields_reads:
  assumes "reading K rk u n"
  shows "yields K u (a_tri (accs K n) s) (rtri (solution K u rk) s)"
    and "yields K u (a_str (accs K n) s) (rstr (solution K u rk) s)"
    and "yields K u (a_vis (accs K n) s) (rvis K (solution K u rk) s)"
    and "yields K u (a_cvis (accs K n) c) (rcvis (solution K u rk) c)"
    and "yields K u (a_sel (accs K n) c) (rsel (solution K u rk) c)"
  by (rule yields_cps [OF assms], rule reads_okD [OF reading_accs(1) [OF assms]], simp)+

lemma yields_type: "reading K rk u n \<Longrightarrow> yields K u (sym_type K (accs K n) s) (stype_spec K u (solution K u rk) s)"
  by (rule yields_cps, assumption, rule cps_sym_type, erule reading_accs(1), simp)

lemma write_to_conf_read:
  assumes r: "reading K rk u n" and t: "otype K s \<noteq> UNKNOWN" "nmy_tri s = None"
    and d: "good K d" "usr d = u" and run: "a_str (accs K n) s d = Inr (v, d')"
  shows "write_to_conf d' s = rwtc K (solution K u rk) s"
proof -
  let ?\<rho> = "solution K u rk"
  obtain n' where n: "n = Suc n'" using r by (cases n) (auto simp: reading_def)
  have chs: "chs K u ?\<rho> (a_str (accs K n) s) (KStr s)"
    using cps_get_str [of K u ?\<rho> "accs K n'" UNIV s] reading_accs(2) [OF r] reading_valuation [OF r] r n
    by (simp add: reading_def sound_kconfig_def Let_def)
  from run yieldsE [OF yields_reads(2) [OF r] d] have g: "good K d'" "usr d' = u"
    by (metis Inr_inject prod.inject)+
  have coh: "coh (cached K) (must K) (spec K u) ?\<rho> d" "coh (cached K) (must K) (spec K u) ?\<rho> d'"
    and e: "env d = (u, True)"
    using d g reading_valuation [OF r] by (auto simp: good_def env_def)
  have c: "cached K d' (KStr s) \<noteq> None"
    using chs e coh(1) run by (auto simp: caches_def)
  then obtain w where "cached K d' (KStr s) = Some w" by blast
  then have k: "cached K d' (KStr s) = Some (?\<rho> (KStr s))" "\<forall>k \<in> set (must K (KStr s)). cached K d' k \<noteq> None"
    using coh(2) unfolding coh_def by blast+
  show ?thesis
  proof (cases "bool_tristate (otype K s)")
    case True
    then have "cached K d' (KTri s) = Some (?\<rho> (KTri s))"
      using k(2) coh(2) by (fastforce simp: coh_def)
    then have "?\<rho> (KTri s) = VTri (the (cached_tri_val d' s)) (write_to_conf d' s)"
      using t True by (auto split: option.splits)
    then show ?thesis using True by (simp add: rwtc_def)
  next
    case False
    then have "?\<rho> (KStr s) = VStr (the (cached_str_val d' s)) (write_to_conf d' s)"
      using k(1) t by auto
    then show ?thesis using False by (simp add: rwtc_def)
  qed
qed

text \<open>After \<open>str_value\<close> has been read, the hidden flag \<open>_write_to_conf\<close> is right.\<close>

lemma yields_write:
  assumes r: "reading K rk u n" and "otype K s \<noteq> UNKNOWN" and "nmy_tri s = None"
    and f: "yields K u (f (rstr (solution K u rk) s) (rwtc K (solution K u rk) s)) x"
  shows "yields K u (bind (a_str (accs K n) s) (\<lambda>v. bind (gets (\<lambda>d. write_to_conf d s)) (f v))) x"
  unfolding yields_def
proof (intro allI impI)
  fix d assume d: "good K d" "usr d = u"
  obtain d1 where 1: "a_str (accs K n) s d = Inr (rstr (solution K u rk) s, d1)" "usr d1 = u" "good K d1"
    using yieldsE [OF yields_reads(2) [OF r] d] by blast
  obtain d2 where 2: "f (rstr (solution K u rk) s) (rwtc K (solution K u rk) s) d1 = Inr (x, d2)" "usr d2 = u" "good K d2"
    using yieldsE [OF f 1(3,2)] by blast
  have "bind (a_str (accs K n) s) (\<lambda>v. bind (gets (\<lambda>d. write_to_conf d s)) (f v)) d = Inr (x, d2)"
    using 1(1) 2(1) write_to_conf_read [OF r assms(2,3) d 1(1)] by (simp add: monad_defs)
  with 2 show "\<exists>d'. bind (a_str (accs K n) s) (\<lambda>v. bind (gets (\<lambda>d. write_to_conf d s)) (f v)) d = Inr (x, d') \<and>
      usr d' = u \<and> good K d'" by blast
qed
section \<open>Configuration lines\<close>

text \<open>\<open>Symbol.config_string\<close>, for the value of a symbol that is written.\<close>

definition config_line :: "kconfig \<Rightarrow> symref \<Rightarrow> string \<Rightarrow> string" where
  "config_line K s val =
     (let name = k_config_prefix K @ sym_name s in
      if bool_tristate (otype K s) then
        (if val \<noteq> ''n'' then name @ ''='' @ val @ [NL] else ''# '' @ name @ '' is not set'' @ [NL])
      else if int_hex (otype K s) then name @ ''='' @ val @ [NL]
      else name @ ''='' @ [QUOT] @ escape val @ [QUOT, NL])"

definition config_string :: "kconfig \<Rightarrow> acc \<Rightarrow> symref \<Rightarrow> string ev" where
  "config_string K A s =
     bind (a_str A s) (\<lambda>val. bind (gets (\<lambda>d. write_to_conf d s)) (\<lambda>w.
       ret (if w then config_line K s val else [])))"

text \<open>One round of the loop in \<open>Kconfig._autoconf_contents\<close>.\<close>

definition autoconf_line :: "kconfig \<Rightarrow> symref \<Rightarrow> string \<Rightarrow> string" where
  "autoconf_line K s val =
     (let name = k_config_prefix K @ sym_name s in
      if bool_tristate (otype K s) then
        (if val = ''y'' then ''#define '' @ name @ '' 1'' @ [NL]
         else if val = ''m'' then ''#define '' @ name @ ''_MODULE 1'' @ [NL] else [])
      else if otype K s = STRING then ''#define '' @ name @ [SPC, QUOT] @ escape val @ [QUOT, NL]
      else ''#define '' @ name @ [SPC] @
        (if otype K s = HEX \<and> \<not> startswith val ''0x'' \<and> \<not> startswith val ''0X'' then ''0x'' @ val else val) @ [NL])"

definition autoconf_contents :: "kconfig \<Rightarrow> acc \<Rightarrow> string option \<Rightarrow> string ev" where
  "autoconf_contents K A header =
     foldm (\<lambda>s out. bind (a_str A s) (\<lambda>val. bind (gets (\<lambda>d. write_to_conf d s)) (\<lambda>w.
         ret (if w then out @ autoconf_line K s val else out))))
       (k_unique_defined_syms K) (case header of None \<Rightarrow> k_header_header K | Some h \<Rightarrow> h)"

text \<open>\<open>Kconfig._old_vals_contents\<close>\<close>

definition old_vals_contents :: "kconfig \<Rightarrow> acc \<Rightarrow> string ev" where
  "old_vals_contents K A =
     foldm (\<lambda>s out. bind (if bool_tristate (otype K s) then bind (a_tri A s) (\<lambda>t. ret (t = 0)) else ret False)
         (\<lambda>skip. if skip then ret out else bind (config_string K A s) (\<lambda>x. ret (out @ x))))
       (k_unique_defined_syms K) []"

section \<open>The \<open>.config\<close> file\<close>

text \<open>
  One round of the loop in \<open>Kconfig._config_contents\<close>: leaving a menu, or writing a node. The
  loop carries the visited symbols, whether an \<open>end of\<close> comment was just printed, and the output.
  Taking the text of a missing prompt is a \<open>TypeError\<close>.
\<close>

definition prompt_text :: "menunode \<Rightarrow> string ev" where
  "prompt_text N = (case n_prompt N of None \<Rightarrow> raise TypeError | Some (t, _) \<Rightarrow> ret t)"

definition leave_node :: "kconfig \<Rightarrow> acc \<Rightarrow> noderef \<Rightarrow> symref list \<times> bool \<times> string \<Rightarrow> (symref list \<times> bool \<times> string) ev" where
  "leave_node K A x st =
     (let N = k_node K x in
      if n_item N = NMenu then
        bind (expr_value K A (n_dep N)) (\<lambda>d. if d = 0 then ret st else
        bind (expr_value K A (n_visibility N)) (\<lambda>v. if v = 0 \<or> x = k_top_node K then ret st else
        bind (prompt_text N) (\<lambda>t.
          ret (fst st, True, snd (snd st) @ ''# end of '' @ t @ [NL]))))
      else ret st)"

definition visit_node :: "kconfig \<Rightarrow> acc \<Rightarrow> noderef \<Rightarrow> symref list \<times> bool \<times> string \<Rightarrow> (symref list \<times> bool \<times> string) ev" where
  "visit_node K A x st =
     (let N = k_node K x; (visited, after_end, out) = st;
          title = bind (prompt_text N) (\<lambda>t. ret (visited, False, out @ [NL, CHR ''#'', NL] @ ''# '' @ t @ [NL, CHR ''#'', NL]))
      in case n_item N of
        NSym s \<Rightarrow>
          if s \<in> set visited then ret st
          else bind (config_string K A s) (\<lambda>c.
            ret (if c = [] then (s # visited, after_end, out)
                 else (s # visited, False, out @ (if after_end then [NL] else []) @ c)))
      | item \<Rightarrow> bind (expr_value K A (n_dep N)) (\<lambda>d.
          if d = 0 then ret st
          else if item = NMenu then bind (expr_value K A (n_visibility N)) (\<lambda>v. if v = 0 then ret st else title)
          else if item = NComment then title
          else ret st))"

definition write_event :: "kconfig \<Rightarrow> acc \<Rightarrow> wevent \<Rightarrow> symref list \<times> bool \<times> string \<Rightarrow> (symref list \<times> bool \<times> string) ev" where
  "write_event K A e st = (case e of Leave x \<Rightarrow> leave_node K A x st | Visit x \<Rightarrow> visit_node K A x st)"

text \<open>\<open>Kconfig._config_contents\<close>; \<open>n\<close> is the fuel of the walk.\<close>

definition config_contents :: "kconfig \<Rightarrow> nat \<Rightarrow> acc \<Rightarrow> string option \<Rightarrow> string ev" where
  "config_contents K n A header =
     bind (of_option NoReturn (walk K n (k_top_node K))) (\<lambda>es.
     bind (foldm (write_event K A) es ([], False, case header of None \<Rightarrow> k_config_header K | Some h \<Rightarrow> h))
       (\<lambda>st. ret (snd (snd st))))"

section \<open>Minimal configurations\<close>

text \<open>\<open>Symbol._str_default\<close>\<close>

definition str_default :: "kconfig \<Rightarrow> acc \<Rightarrow> symref \<Rightarrow> string ev" where
  "str_default K A s =
     (if bool_tristate (otype K s) then
        (if s_choice (k_sym K s) \<noteq> None then ret (tri_to_str 0)
         else
           bind (tri_default K A s) (\<lambda>r.
           bind (expr_value K A (s_rev_dep (k_sym K s))) (\<lambda>rev.
           bind (expr_value K A (s_weak_rev_dep (k_sym K s))) (\<lambda>weak.
           let val = max (max rev weak) (case r of None \<Rightarrow> 0 | Some v \<Rightarrow> v) in
           if val = 1 then bind (sym_type K A s) (\<lambda>t. ret (tri_to_str (if t = BOOL then 2 else val)))
           else ret (tri_to_str val)))))
      else if otype K s \<noteq> UNKNOWN then
        bind (str_default_val K A s) (\<lambda>r. ret (case r of None \<Rightarrow> [] | Some x \<Rightarrow> x))
      else ret [])"

text \<open>
  One round of the loop in \<open>Kconfig._min_config_contents\<close>: nothing for symbols that cannot be
  changed, have their default value, or are selected by default in a choice.
\<close>

definition min_config_string :: "kconfig \<Rightarrow> acc \<Rightarrow> symref \<Rightarrow> string ev" where
  "min_config_string K A s =
     bind (if s_choice (k_sym K s) = None then
             bind (a_vis A s) (\<lambda>vis. bind (expr_value K A (s_rev_dep (k_sym K s))) (\<lambda>rev. ret (vis \<le> rev)))
           else ret False) (\<lambda>fixed.
     if fixed then ret [] else
     bind (a_str A s) (\<lambda>val. bind (str_default K A s) (\<lambda>dflt.
     if val = dflt then ret [] else
     bind (case s_choice (k_sym K s) of
             None \<Rightarrow> ret False
           | Some c \<Rightarrow>
               if c_is_optional (k_choice K c) then ret False
               else bind (selection_from_defaults K A c) (\<lambda>sel.
                 if sel = Some s \<and> otype K s = BOOL then bind (a_tri A s) (\<lambda>t. ret (t = 2)) else ret False))
       (\<lambda>by_choice. if by_choice then ret [] else config_string K A s))))"

definition min_config_contents :: "kconfig \<Rightarrow> acc \<Rightarrow> string option \<Rightarrow> string ev" where
  "min_config_contents K A header =
     foldm (\<lambda>s out. bind (min_config_string K A s) (\<lambda>x. ret (out @ x)))
       (k_unique_defined_syms K) (case header of None \<Rightarrow> k_config_header K | Some h \<Rightarrow> h)"
section \<open>What is written\<close>

text \<open>The line written for a symbol, and the text of the generated files, under a valuation.\<close>

definition sym_line :: "kconfig \<Rightarrow> valuation \<Rightarrow> symref \<Rightarrow> string" where
  "sym_line K \<rho> s = (if rwtc K \<rho> s then config_line K s (rstr \<rho> s) else [])"

definition autoconf_text :: "kconfig \<Rightarrow> valuation \<Rightarrow> string" where
  "autoconf_text K \<rho> =
     concat (map (\<lambda>s. if rwtc K \<rho> s then autoconf_line K s (rstr \<rho> s) else []) (k_unique_defined_syms K))"

definition old_vals_text :: "kconfig \<Rightarrow> valuation \<Rightarrow> string" where
  "old_vals_text K \<rho> =
     concat (map (\<lambda>s. if bool_tristate (otype K s) \<and> rtri \<rho> s = 0 then [] else sym_line K \<rho> s) (k_unique_defined_syms K))"

definition str_default_value :: "kconfig \<Rightarrow> users \<Rightarrow> valuation \<Rightarrow> symref \<Rightarrow> string" where
  "str_default_value K u \<rho> s =
     (if bool_tristate (otype K s) then
        tri_to_str (if s_choice (k_sym K s) \<noteq> None then 0
          else let val = max (max (ev K u \<rho> (s_rev_dep (k_sym K s))) (ev K u \<rho> (s_weak_rev_dep (k_sym K s))))
                 (case tri_default_spec K u \<rho> s of None \<Rightarrow> 0 | Some v \<Rightarrow> v)
               in if val = 1 \<and> stype_spec K u \<rho> s = BOOL then 2 else val)
      else if otype K s = UNKNOWN then []
      else (case str_default_spec K u \<rho> s of None \<Rightarrow> [] | Some x \<Rightarrow> x))"

definition min_line :: "kconfig \<Rightarrow> users \<Rightarrow> valuation \<Rightarrow> symref \<Rightarrow> string" where
  "min_line K u \<rho> s =
     (if s_choice (k_sym K s) = None \<and> rvis K \<rho> s \<le> ev K u \<rho> (s_rev_dep (k_sym K s)) \<or>
         rstr \<rho> s = str_default_value K u \<rho> s \<or>
         (\<exists>c. s_choice (k_sym K s) = Some c \<and> \<not> c_is_optional (k_choice K c) \<and>
            sel_from_defaults_spec K u \<rho> c = Some s \<and> otype K s = BOOL \<and> rtri \<rho> s = 2)
      then [] else sym_line K \<rho> s)"

text \<open>The lines of a \<open>.config\<close> file: a node whose title is shown, and the two kinds of events.\<close>

definition shown :: "kconfig \<Rightarrow> users \<Rightarrow> valuation \<Rightarrow> noderef \<Rightarrow> bool" where
  "shown K u \<rho> x =
     (let N = k_node K x in ev K u \<rho> (n_dep N) \<noteq> 0 \<and>
        (n_item N = NMenu \<and> ev K u \<rho> (n_visibility N) \<noteq> 0 \<or> n_item N = NComment))"

definition title :: "kconfig \<Rightarrow> noderef \<Rightarrow> string" where
  "title K x = (case n_prompt (k_node K x) of None \<Rightarrow> [] | Some (t, _) \<Rightarrow> t)"

fun event_lines :: "kconfig \<Rightarrow> users \<Rightarrow> valuation \<Rightarrow> wevent \<Rightarrow> symref list \<times> bool \<times> string list \<Rightarrow>
    symref list \<times> bool \<times> string list" where
  "event_lines K u \<rho> (Leave x) (seen, after, ls) =
     (if n_item (k_node K x) = NMenu \<and> shown K u \<rho> x \<and> x \<noteq> k_top_node K
      then (seen, True, ls @ [''# end of '' @ title K x @ [NL]]) else (seen, after, ls))"
| "event_lines K u \<rho> (Visit x) (seen, after, ls) =
     (case n_item (k_node K x) of
        NSym s \<Rightarrow>
          if s \<in> set seen then (seen, after, ls)
          else if rwtc K \<rho> s then (s # seen, False, ls @ (if after then [[NL]] else []) @ [sym_line K \<rho> s])
          else (s # seen, after, ls)
      | _ \<Rightarrow>
          if shown K u \<rho> x then (seen, False, ls @ [[NL], [CHR ''#'', NL], ''# '' @ title K x @ [NL], [CHR ''#'', NL]])
          else (seen, after, ls))"

definition config_lines :: "kconfig \<Rightarrow> users \<Rightarrow> valuation \<Rightarrow> wevent list \<Rightarrow> string list" where
  "config_lines K u \<rho> es = snd (snd (fold (event_lines K u \<rho>) es ([], False, [])))"

text \<open>
  What the tree must be like: every symbol in it has a type and is no constant, and menus and
  comments have a prompt.
\<close>

definition node_ok :: "kconfig \<Rightarrow> noderef \<Rightarrow> bool" where
  "node_ok K x = (case n_item (k_node K x) of
     NSym s \<Rightarrow> otype K s \<noteq> UNKNOWN \<and> nmy_tri s = None
   | NMenu \<Rightarrow> n_prompt (k_node K x) \<noteq> None
   | NComment \<Rightarrow> n_prompt (k_node K x) \<noteq> None
   | _ \<Rightarrow> True)"

definition typed :: "kconfig \<Rightarrow> bool" where
  "typed K = (\<forall>s \<in> set (k_unique_defined_syms K). otype K s \<noteq> UNKNOWN \<and> nmy_tri s = None)"

section \<open>The generators write it\<close>

lemma fold_append: "fold (\<lambda>s out. out @ f s) xs out = out @ concat (map f xs)"
  by (induction xs arbitrary: out) auto

lemma yields_append_loop:
  assumes "\<And>s out. s \<in> set xs \<Longrightarrow> yields K u (f s out) (out @ g s)"
  shows "yields K u (foldm f xs h) (h @ concat (map g xs))"
  using yields_foldm [where f = f and g = "\<lambda>s out. out @ g s" and xs = xs and acc = h and K = K and u = u] assms
  by (simp add: fold_append)

lemma config_line_nonempty [simp]: "config_line K s v \<noteq> []"
  by (simp add: config_line_def Let_def)

lemma yields_config_string:
  assumes "reading K rk u n" and "otype K s \<noteq> UNKNOWN" and "nmy_tri s = None"
  shows "yields K u (config_string K (accs K n) s) (sym_line K (solution K u rk) s)"
  unfolding config_string_def sym_line_def
  by (rule yields_write [OF assms, where f = "\<lambda>val w. ret (if w then config_line K s val else [])"])
    (simp add: yields_ret)

lemma yields_autoconf:
  assumes r: "reading K rk u n" and t: "typed K"
  shows "yields K u (autoconf_contents K (accs K n) h)
    ((case h of None \<Rightarrow> k_header_header K | Some x \<Rightarrow> x) @ autoconf_text K (solution K u rk))"
  unfolding autoconf_contents_def autoconf_text_def
proof (rule yields_append_loop)
  let ?\<rho> = "solution K u rk"
  fix s out assume "s \<in> set (k_unique_defined_syms K)"
  with t show "yields K u (bind (a_str (accs K n) s) (\<lambda>val. bind (gets (\<lambda>d. write_to_conf d s)) (\<lambda>w.
         ret (if w then out @ autoconf_line K s val else out))))
      (out @ (if rwtc K ?\<rho> s then autoconf_line K s (rstr ?\<rho> s) else []))"
    by (intro yields_write [OF r, where f = "\<lambda>val w. ret (if w then out @ autoconf_line K s val else out)"])
      (auto simp: typed_def yields_ret)
qed

lemma yields_old_vals:
  assumes r: "reading K rk u n" and t: "typed K"
  shows "yields K u (old_vals_contents K (accs K n)) (old_vals_text K (solution K u rk))"
proof -
  let ?\<rho> = "solution K u rk"
  let ?skip = "\<lambda>s. bool_tristate (otype K s) \<and> rtri ?\<rho> s = 0"
  have "yields K u (bind (if bool_tristate (otype K s) then bind (a_tri (accs K n) s) (\<lambda>t. ret (t = 0)) else ret False)
         (\<lambda>skip. if skip then ret out else bind (config_string K (accs K n) s) (\<lambda>x. ret (out @ x))))
      (out @ (if ?skip s then [] else sym_line K ?\<rho> s))"
    if s: "s \<in> set (k_unique_defined_syms K)" for s out
  proof -
    have c: "yields K u (config_string K (accs K n) s) (sym_line K ?\<rho> s)"
      using yields_config_string [OF r] t s by (simp add: typed_def)
    have "yields K u (if bool_tristate (otype K s) then bind (a_tri (accs K n) s) (\<lambda>t. ret (t = 0)) else ret False)
        (?skip s)"
      using yields_bind [OF yields_reads(1) [OF r, of s], of "\<lambda>t. ret (t = 0)" "rtri ?\<rho> s = 0"] by (simp add: yields_ret)
    then show ?thesis
      by (rule yields_bind) (use c in \<open>auto intro: yields_bind yields_ret\<close>)
  qed
  from yields_append_loop [where h = "[]", OF this, of "k_unique_defined_syms K"] show ?thesis
    by (simp add: old_vals_contents_def old_vals_text_def)
qed
lemma yields_selection_from_defaults:
  assumes r: "reading K rk u n"
  shows "yields K u (selection_from_defaults K (accs K n) c) (sel_from_defaults_spec K u (solution K u rk) c)"
proof -
  let ?\<rho> = "solution K u rk"
  have wf: "wf_kconfig K" using r by (simp add: reading_def sound_kconfig_def)
  have d: "yields K u (sel_default K (accs K n) c) (sel_default_spec K u ?\<rho> c)"
    by (rule yields_cps [OF r], rule cps_sel_default [OF reading_accs(1) [OF r] wf]) simp
  have "yields K u (bind (a_vis (accs K n) s) (\<lambda>vis. ret (if vis \<noteq> 0 then Some s else None)))
      (if rvis K ?\<rho> s \<noteq> 0 then Some s else None)" for s
    by (rule yields_bind [OF yields_reads(3) [OF r] yields_ret])
  then have "yields K u (firstm (\<lambda>s. bind (a_vis (accs K n) s) (\<lambda>vis. ret (if vis \<noteq> 0 then Some s else None)))
      (c_syms (k_choice K c))) (firstp (\<lambda>s. if rvis K ?\<rho> s \<noteq> 0 then Some s else None) (c_syms (k_choice K c)))"
    by (rule yields_firstm)
  with d show ?thesis
    unfolding selection_from_defaults_def sel_from_defaults_spec_def
    by (auto intro!: yields_bind [OF d] simp: yields_ret split: option.split)
qed

lemma yields_str_default:
  assumes r: "reading K rk u n"
  shows "yields K u (str_default K (accs K n) s) (str_default_value K u (solution K u rk) s)"
proof -
  let ?\<rho> = "solution K u rk"
  have wf: "wf_kconfig K" using r by (simp add: reading_def sound_kconfig_def)
  note ra = reading_accs(1) [OF r]
  have tri: "yields K u (tri_default K (accs K n) s) (tri_default_spec K u ?\<rho> s)"
    by (rule yields_cps [OF r], rule cps_tri_default [OF ra]) simp
  note ex = yields_bind [OF yields_expr [OF r]]
  consider (ch) "bool_tristate (otype K s)" "s_choice (k_sym K s) \<noteq> None"
    | (tri) "bool_tristate (otype K s)" "s_choice (k_sym K s) = None"
    | (str) "\<not> bool_tristate (otype K s)" "otype K s \<noteq> UNKNOWN"
    | (unknown) "\<not> bool_tristate (otype K s)" "otype K s = UNKNOWN" by blast
  then show ?thesis
  proof cases
    case ch
    then show ?thesis by (simp add: str_default_def str_default_value_def yields_ret)
  next
    case tri
    let ?b = "\<lambda>val. if val = 1 then bind (sym_type K (accs K n) s) (\<lambda>t. ret (tri_to_str (if t = BOOL then 2 else val)))
        else ret (tri_to_str val)"
    have b: "yields K u (?b val) (tri_to_str (if val = 1 \<and> stype_spec K u ?\<rho> s = BOOL then 2 else val))" for val
      by (auto intro!: yields_bind [OF yields_type [OF r]] simp: yields_ret)
    show ?thesis
      unfolding str_default_def str_default_value_def Let_def
      using tri by (simp only: if_True not_True_eq_False if_False simp_thms)
        (intro yields_bind [OF \<open>yields K u (tri_default K (accs K n) s) _\<close>] ex, rule yields_eq [OF b], simp)
  next
    case str
    have "yields K u (str_default_val K (accs K n) s) (str_default_spec K u ?\<rho> s)"
      by (rule yields_cps [OF r], rule cps_str_default_val [OF ra wf str]) simp
    with str show ?thesis
      by (auto simp: str_default_def str_default_value_def yields_ret intro!: yields_bind split: option.split)
  next
    case unknown
    then show ?thesis by (simp add: str_default_def str_default_value_def yields_ret)
  qed
qed

lemma yields_min_line:
  assumes r: "reading K rk u n" and t: "otype K s \<noteq> UNKNOWN" "nmy_tri s = None"
  shows "yields K u (min_config_string K (accs K n) s) (min_line K u (solution K u rk) s)"
proof -
  let ?\<rho> = "solution K u rk"
  let ?fixed = "s_choice (k_sym K s) = None \<and> rvis K ?\<rho> s \<le> ev K u ?\<rho> (s_rev_dep (k_sym K s))"
  let ?by = "\<exists>c. s_choice (k_sym K s) = Some c \<and> \<not> c_is_optional (k_choice K c) \<and>
            sel_from_defaults_spec K u ?\<rho> c = Some s \<and> otype K s = BOOL \<and> rtri ?\<rho> s = 2"
  have f: "yields K u (if s_choice (k_sym K s) = None then
             bind (a_vis (accs K n) s) (\<lambda>vis. bind (expr_value K (accs K n) (s_rev_dep (k_sym K s))) (\<lambda>rev. ret (vis \<le> rev)))
           else ret False) ?fixed"
    by (auto intro!: yields_bind [OF yields_reads(3) [OF r]] yields_bind [OF yields_expr [OF r]] simp: yields_ret)
  have b: "yields K u (case s_choice (k_sym K s) of
             None \<Rightarrow> ret False
           | Some c \<Rightarrow>
               if c_is_optional (k_choice K c) then ret False
               else bind (selection_from_defaults K (accs K n) c) (\<lambda>sel.
                 if sel = Some s \<and> otype K s = BOOL then bind (a_tri (accs K n) s) (\<lambda>t. ret (t = 2)) else ret False)) ?by"
    by (auto intro!: yields_bind [OF yields_selection_from_defaults [OF r]] yields_bind [OF yields_reads(1) [OF r]]
        simp: yields_ret split: option.split)
  let ?v = "if ?fixed then [] else if rstr ?\<rho> s = str_default_value K u ?\<rho> s then [] else if ?by then [] else sym_line K ?\<rho> s"
  have v: "?v = min_line K u ?\<rho> s" by (simp only: min_line_def split: if_split) blast
  show ?thesis
    unfolding min_config_string_def v [symmetric]
    by (rule yields_bind [OF f], intro yields_if yields_bind [OF yields_reads(2) [OF r]]
        yields_bind [OF yields_str_default [OF r]] yields_bind [OF b] yields_ret yields_config_string [OF r t])
qed

text \<open>Which symbols a minimal configuration mentions.\<close>

definition min_config_text :: "kconfig \<Rightarrow> users \<Rightarrow> valuation \<Rightarrow> string" where
  "min_config_text K u \<rho> = concat (map (min_line K u \<rho>) (k_unique_defined_syms K))"

lemma yields_min_config:
  assumes r: "reading K rk u n" and t: "typed K"
  shows "yields K u (min_config_contents K (accs K n) h)
    ((case h of None \<Rightarrow> k_config_header K | Some x \<Rightarrow> x) @ min_config_text K u (solution K u rk))"
  unfolding min_config_contents_def min_config_text_def
proof (rule yields_append_loop)
  fix s out assume "s \<in> set (k_unique_defined_syms K)"
  with t show "yields K u (bind (min_config_string K (accs K n) s) (\<lambda>x. ret (out @ x)))
      (out @ min_line K u (solution K u rk) s)"
    by (intro yields_bind [OF yields_min_line [OF r]] yields_ret) (auto simp: typed_def)
qed

section \<open>The \<open>.config\<close> file\<close>

lemma yields_prompt_text: "n_prompt (k_node K x) \<noteq> None \<Longrightarrow> yields K u (prompt_text (k_node K x)) (title K x)"
  by (auto simp: prompt_text_def title_def yields_ret)

text \<open>The output of the loop is the header followed by the lines.\<close>

abbreviation out_of :: "string \<Rightarrow> symref list \<times> bool \<times> string list \<Rightarrow> symref list \<times> bool \<times> string" where
  "out_of h st \<equiv> (fst st, fst (snd st), h @ concat (snd (snd st)))"

lemma yields_leave:
  assumes r: "reading K rk u n" and ok: "node_ok K x \<or> x = k_top_node K"
  shows "yields K u (leave_node K (accs K n) x (out_of h st)) (out_of h (event_lines K u (solution K u rk) (Leave x) st))"
proof (cases "n_item (k_node K x) = NMenu")
  case True
  obtain seen after ls where st: "st = (seen, after, ls)" by (cases st)
  have p: "yields K u (bind (prompt_text (k_node K x)) (\<lambda>t. ret (f t))) (f (title K x))" if "x \<noteq> k_top_node K"
      for f :: "string \<Rightarrow> symref list \<times> bool \<times> string"
    using ok True that by (intro yields_bind [OF yields_prompt_text] yields_ret) (auto simp: node_ok_def)
  show ?thesis
    unfolding leave_node_def Let_def
    using True p
    by (auto simp: st shown_def Let_def intro!: yields_bind [OF yields_expr [OF r]] yields_ret)
qed (cases st; simp add: leave_node_def yields_ret)

lemma yields_visit:
  assumes r: "reading K rk u n" and ok: "node_ok K x"
  shows "yields K u (visit_node K (accs K n) x (out_of h st)) (out_of h (event_lines K u (solution K u rk) (Visit x) st))"
proof -
  let ?\<rho> = "solution K u rk" and ?N = "k_node K x"
  obtain seen after ls where st: "st = (seen, after, ls)" by (cases st)
  show ?thesis
  proof (cases "n_item ?N")
    case (NSym s)
    then have t: "otype K s \<noteq> UNKNOWN" "nmy_tri s = None" using ok by (auto simp: node_ok_def)
    show ?thesis
      using NSym
      by (auto simp: visit_node_def Let_def st sym_line_def yields_ret
          intro!: yields_bind [OF yields_config_string [OF r t]])
  next
    case NMenu
    then have p: "n_prompt ?N \<noteq> None" using ok by (simp add: node_ok_def)
    show ?thesis
      using NMenu
      by (auto simp: visit_node_def Let_def st shown_def yields_ret
          intro!: yields_bind [OF yields_expr [OF r]] yields_bind [OF yields_prompt_text [OF p]])
  next
    case NComment
    then have p: "n_prompt ?N \<noteq> None" using ok by (simp add: node_ok_def)
    show ?thesis
      using NComment
      by (auto simp: visit_node_def Let_def st shown_def yields_ret
          intro!: yields_bind [OF yields_expr [OF r]] yields_bind [OF yields_prompt_text [OF p]])
  qed (auto simp: visit_node_def Let_def st shown_def yields_ret intro!: yields_bind [OF yields_expr [OF r]])
qed

lemma yields_write_events:
  assumes r: "reading K rk u n"
    and ok: "\<And>x. Visit x \<in> set es \<Longrightarrow> node_ok K x" "\<And>x. Leave x \<in> set es \<Longrightarrow> node_ok K x \<or> x = k_top_node K"
  shows "yields K u (foldm (write_event K (accs K n)) es (out_of h st)) (out_of h (fold (event_lines K u (solution K u rk)) es st))"
  using ok
proof (induction es arbitrary: st)
  case (Cons e es)
  have "yields K u (write_event K (accs K n) e (out_of h st)) (out_of h (event_lines K u (solution K u rk) e st))"
    using Cons.prems by (cases e) (auto simp: write_event_def yields_leave [OF r] yields_visit [OF r])
  then show ?case
    unfolding foldm.simps fold_simps by (rule yields_bind) (rule Cons.IH; use Cons.prems in simp)
qed (simp add: yields_ret)

lemma events_Visit: "Visit x \<in> set (events ts) \<longleftrightarrow> x \<in> set (nodes_of ts)"
  by (induction ts rule: events.induct) auto

lemma events_Leave: "Leave x \<in> set (events ts) \<Longrightarrow> x \<in> set (nodes_of ts)"
  by (induction ts rule: events.induct) (auto split: if_splits)

lemma yields_config_contents:
  assumes r: "reading K rk u n" and t: "menu_tree K ts" and ok: "\<And>x. x \<in> set (nodes_of ts) \<Longrightarrow> node_ok K x"
    and m: "2 * length (nodes_of ts) + 2 < m"
  shows "yields K u (config_contents K m (accs K n) h)
    ((case h of None \<Rightarrow> k_config_header K | Some x \<Rightarrow> x) @ concat (config_lines K u (solution K u rk) (events ts)))"
proof -
  let ?h = "case h of None \<Rightarrow> k_config_header K | Some x \<Rightarrow> x"
  let ?es = "events ts @ (if ts = [] then [] else [Leave (k_top_node K)])"
  have "length (events ts) + 2 < m" using m events_bound [of ts] by simp
  then have w: "walk K m (k_top_node K) = Some ?es" by (rule walk_menu_tree [OF t])
  have "yields K u (foldm (write_event K (accs K n)) ?es (out_of ?h ([], False, [])))
      (out_of ?h (fold (event_lines K u (solution K u rk)) ?es ([], False, [])))"
    by (rule yields_write_events [OF r]) (auto simp: events_Visit dest: events_Leave intro: ok split: if_splits)
  moreover have "snd (snd (fold (event_lines K u (solution K u rk)) ?es ([], False, []))) =
      config_lines K u (solution K u rk) (events ts)"
    by (cases "fold (event_lines K u (solution K u rk)) (events ts) ([], False, [])") (simp add: config_lines_def)
  ultimately show ?thesis
    unfolding config_contents_def w of_option_simps bind_ret
    by (auto intro!: yields_bind [where x = "out_of ?h (fold (event_lines K u (solution K u rk)) ?es ([], False, []))"]
        yields_eq [OF yields_ret])
qed

end
