(* ===== verification/Roundtrip.thy ===== *)
theory Roundtrip
  imports Output
begin

text \<open>
  Reading back what \<open>Output\<close> writes: every line of a written configuration parses to the
  assignment it was written for, and loading the file, into any \<open>Kconfig\<close> object for the same
  Kconfig files, restores all values.
\<close>

section \<open>Lines\<close>

text \<open>The lines of a text, as iterating over a file gives them: each with its line end.\<close>

fun lines_of :: "string \<Rightarrow> string list" where
  "lines_of [] = []"
| "lines_of (c # s) =
     (if c = NL then [NL] # lines_of s
      else (case lines_of s of [] \<Rightarrow> [[c]] | l # ls \<Rightarrow> (if s = [] then [c] # l # ls else (c # l) # ls)))"

lemma lines_of_eq_Nil [simp]: "lines_of s = [] \<longleftrightarrow> s = []"
  by (cases s) (auto split: list.split)

lemma lines_of_line: "NL \<notin> set l \<Longrightarrow> lines_of (l @ NL # s) = (l @ [NL]) # lines_of s"
  by (induction l) auto

definition is_line :: "string \<Rightarrow> bool" where
  "is_line l = (\<exists>x. l = x @ [NL] \<and> NL \<notin> set x)"

lemma lines_of_concat: "(\<And>l. l \<in> set ls \<Longrightarrow> is_line l) \<Longrightarrow> lines_of (concat ls) = ls"
  by (induction ls) (fastforce simp: is_line_def lines_of_line)+

lemma concat_lines_of: "concat (lines_of s) = s"
  by (induction s) (auto split: list.split)

section \<open>Reading back a written line\<close>

text \<open>Names of symbols and the prefix consist of letters, digits and underscores.\<close>

definition name_char :: "char \<Rightarrow> bool" where
  "name_char c = (let n = (of_char c :: nat) in
     48 \<le> n \<and> n \<le> 57 \<or> 65 \<le> n \<and> n \<le> 90 \<or> 97 \<le> n \<and> n \<le> 122 \<or> n = 95)"

definition good_prefix :: "string \<Rightarrow> bool" where
  "good_prefix p = (p \<noteq> [] \<and> list_all name_char p \<and> hd p \<noteq> CHR ''e'')"

text \<open>A symbol whose assignments a file can express.\<close>

definition named :: "kconfig \<Rightarrow> symref \<Rightarrow> bool" where
  "named K s = (\<exists>x. s = SymN x \<and> x \<noteq> [] \<and> list_all name_char x \<and> x \<in> set (k_syms K) \<and> s_nodes (k_sym K s) \<noteq> [])"

text \<open>A value that survives being written on a line: no line end, and no white space at the end of a number.\<close>

definition clean_value :: "stype \<Rightarrow> string \<Rightarrow> bool" where
  "clean_value t v =
     (if t = BOOL then v = ''n'' \<or> v = ''y''
      else if t = TRISTATE then v = ''n'' \<or> v = ''m'' \<or> v = ''y''
      else if t = STRING then NL \<notin> set v
      else NL \<notin> set v \<and> (v = [] \<or> \<not> py_isspace (last v)))"

lemma name_charD: "name_char c \<Longrightarrow> c \<noteq> CHR ''='' \<and> c \<noteq> SPC \<and> c \<noteq> NL \<and> c \<noteq> CHR ''#'' \<and> \<not> py_isspace c"
  by (auto simp: name_char_def py_isspace_def Let_def)

lemma py_rstrip_id: "s = [] \<or> \<not> py_isspace (last s) \<Longrightarrow> py_rstrip s = s"
  unfolding py_rstrip_def by (cases s rule: rev_cases) auto

lemma py_rstrip_NL: "py_rstrip (s @ [NL]) = py_rstrip s"
  by (simp add: py_rstrip_def) (simp add: py_isspace_def)

lemma py_rstrip_line: "s = [] \<or> \<not> py_isspace (last s) \<Longrightarrow> py_rstrip (s @ [NL]) = s"
  by (simp add: py_rstrip_NL py_rstrip_id)

lemma startswith_appendI: "startswith (p @ s) (p @ q) = startswith s q"
  by (simp add: startswith_def)

lemma takeWhile_name: "list_all name_char x \<Longrightarrow> takeWhile (\<lambda>c. c \<noteq> CHR ''='') (x @ CHR ''='' # r) = x"
  "list_all name_char x \<Longrightarrow> takeWhile (\<lambda>c. c \<noteq> SPC) (x @ SPC # r) = x"
  "list_all name_char x \<Longrightarrow> dropWhile (\<lambda>c. c \<noteq> CHR ''='') (x @ CHR ''='' # r) = CHR ''='' # r"
  "list_all name_char x \<Longrightarrow> dropWhile (\<lambda>c. c \<noteq> SPC) (x @ SPC # r) = SPC # r"
  by (induction x) (auto dest: name_charD)

lemma set_match_line:
  assumes "list_all name_char x" and "x \<noteq> []" and "NL \<notin> set v"
  shows "set_match p (p @ x @ CHR ''='' # v) = Some (x, v)"
proof -
  have "takeWhile (\<lambda>c. c \<noteq> NL) v = v" using assms(3) by (auto simp: takeWhile_eq_all_conv)
  with assms(1,2) show ?thesis
    by (simp add: set_match_def Let_def takeWhile_name)
qed

lemma unset_match_line:
  assumes "list_all name_char x" and "x \<noteq> []"
  shows "unset_match p (''# '' @ p @ x @ '' is not set'') = Some x"
proof -
  have "startswith (''# '' @ p @ x @ '' is not set'') (''# '' @ p)" by (simp add: startswith_def)
  then show ?thesis
    using assms takeWhile_name(2,4) [of x "''is not set''"]
    by (simp add: unset_match_def Let_def startswith_def)
qed

lemma set_match_comment: "good_prefix p \<Longrightarrow> set_match p (CHR ''#'' # r) = None"
  using name_charD [of "hd p"] by (cases p) (auto simp: set_match_def good_prefix_def startswith_def)

lemma defined_sym_named: "named K s \<Longrightarrow> defined_sym K (sym_name s) = Some s"
  by (auto simp: named_def defined_sym_def get_sym_def)

lemma parse_config_line:
  assumes p: "good_prefix (k_config_prefix K)" and s: "named K s" and t: "otype K s \<noteq> UNKNOWN"
    and v: "clean_value (otype K s) v"
  shows "is_line (config_line K s v) \<and> parse_line K (config_line K s v) = Some (s, v)"
proof -
  let ?p = "k_config_prefix K" and ?x = "sym_name s"
  have x: "list_all name_char ?x" "?x \<noteq> []" using s by (auto simp: named_def)
  have nl: "NL \<notin> set ?p" "NL \<notin> set ?x"
    using p x name_charD by (auto simp: good_prefix_def list_all_iff)
  note ds = defined_sym_named [OF s]
  have eq: "is_line (?p @ ?x @ ''='' @ w @ [NL]) \<and> py_rstrip (?p @ ?x @ ''='' @ w @ [NL]) = ?p @ ?x @ CHR ''='' # w \<and>
      set_match ?p (?p @ ?x @ CHR ''='' # w) = Some (?x, w)"
    if "NL \<notin> set w" "w = [] \<or> \<not> py_isspace (last w)" for w
    using py_rstrip_line [of "?p @ ?x @ CHR ''='' # w"] set_match_line [OF x that(1)] that nl
    by (auto simp: is_line_def py_isspace_def intro!: exI [of _ "?p @ ?x @ CHR ''='' # w"])
  show ?thesis
  proof (cases "bool_tristate (otype K s) \<and> v = ''n''")
    case True
    have l: "config_line K s v = (''# '' @ ?p @ ?x @ '' is not set'') @ [NL]"
      using True by (simp add: config_line_def Let_def)
    have "py_rstrip (config_line K s v) = ''# '' @ ?p @ ?x @ '' is not set''"
      unfolding l by (rule py_rstrip_line) (simp add: py_isspace_def)
    moreover have "is_line (config_line K s v)"
      unfolding l is_line_def using nl by (intro exI [of _ "''# '' @ ?p @ ?x @ '' is not set''"]) auto
    ultimately show ?thesis
      using True ds unset_match_line [OF x, of ?p] set_match_comment [OF p]
      by (simp add: parse_line_def)
  next
    case False
    show ?thesis
    proof (cases "otype K s = STRING")
      case str: True
      have "NL \<notin> set (QUOT # escape v @ [QUOT])"
        using v str escape_no_newline by (auto simp: clean_value_def)
      from eq [OF this] show ?thesis
        using str ds conf_string_match_escape [of v "[]"]
        by (simp add: config_line_def parse_line_def py_isspace_def unescape_escape)
    next
      case num: False
      have "NL \<notin> set v \<and> (v = [] \<or> \<not> py_isspace (last v))"
        using v num by (auto simp: clean_value_def py_isspace_def split: if_splits)
      then show ?thesis
        using eq [of v] v False num t ds
        by (cases "otype K s") (auto simp: config_line_def parse_line_def first_char_ok_def clean_value_def)
    qed
  qed
qed

text \<open>Comments assign nothing.\<close>

lemma unset_match_other:
  assumes "good_prefix p" and "\<not> startswith t p"
  shows "unset_match p (''# '' @ t) = None"
  using assms by (auto simp: unset_match_def startswith_def)

lemma parse_comment:
  assumes "good_prefix (k_config_prefix K)" and "\<not> startswith (py_rstrip t) (k_config_prefix K)"
  shows "parse_line K (''# '' @ t) = None"
proof -
  have "py_rstrip (''# '' @ t) = ''# '' @ py_rstrip t \<or> py_rstrip (''# '' @ t) = ''#''"
    by (auto simp: py_rstrip_def dropWhile_append) (simp add: py_isspace_def)
  moreover have "unset_match (k_config_prefix K) ''#'' = None" by (simp add: unset_match_def startswith_def)
  ultimately show ?thesis
    using unset_match_other [OF assms] set_match_comment [OF assms(1)]
    by (auto simp: parse_line_def Let_def)
qed
section \<open>Reading back a written file\<close>

text \<open>The symbols that are written, with their values, in the order in which they are written.\<close>

definition written :: "kconfig \<Rightarrow> valuation \<Rightarrow> symref list \<Rightarrow> (symref \<times> string) list" where
  "written K \<rho> ss = map (\<lambda>s. (s, rstr \<rho> s)) (filter (rwtc K \<rho>) ss)"

text \<open>What the tree and the values must be like for the file to be read back.\<close>

definition printable_sym :: "kconfig \<Rightarrow> valuation \<Rightarrow> symref \<Rightarrow> bool" where
  "printable_sym K \<rho> s = (named K s \<and> otype K s \<noteq> UNKNOWN \<and> (rwtc K \<rho> s \<longrightarrow> clean_value (otype K s) (rstr \<rho> s)))"

definition printable_title :: "string \<Rightarrow> string \<Rightarrow> bool" where
  "printable_title p t = (NL \<notin> set t \<and> \<not> startswith (py_rstrip t) p)"

definition printable_node :: "kconfig \<Rightarrow> valuation \<Rightarrow> noderef \<Rightarrow> bool" where
  "printable_node K \<rho> x = (case n_item (k_node K x) of
     NSym s \<Rightarrow> printable_sym K \<rho> s
   | NMenu \<Rightarrow> printable_title (k_config_prefix K) (title K x)
   | NComment \<Rightarrow> printable_title (k_config_prefix K) (title K x)
   | _ \<Rightarrow> True)"

lemma map_filter_simps:
  "List.map_filter f (xs @ ys) = List.map_filter f xs @ List.map_filter f ys"
  "List.map_filter f [x] = (case f x of None \<Rightarrow> [] | Some y \<Rightarrow> [y])"
  by (auto simp: List.map_filter_def split: option.split)

lemma end_of_prefix: "good_prefix p \<Longrightarrow> \<not> startswith (''end of '' @ t) p"
  by (cases p) (auto simp: good_prefix_def startswith_def)

lemma rstrip_end_of: "py_rstrip (''end of '' @ t) = ''end of '' @ py_rstrip t \<or> py_rstrip (''end of '' @ t) = ''end of''"
  by (auto simp: py_rstrip_def dropWhile_append) (simp add: py_isspace_def)

lemma parse_blank: "good_prefix (k_config_prefix K) \<Longrightarrow> parse_line K [NL] = None"
  using name_charD [of "hd (k_config_prefix K)"]
  by (cases "k_config_prefix K")
    (auto simp: parse_line_def py_rstrip_def py_isspace_def set_match_def unset_match_def startswith_def good_prefix_def)

lemma parse_hash: "good_prefix (k_config_prefix K) \<Longrightarrow> parse_line K [CHR ''#'', NL] = None"
  using name_charD [of "hd (k_config_prefix K)"]
  by (cases "k_config_prefix K")
    (auto simp: parse_line_def py_rstrip_def py_isspace_def set_match_def unset_match_def startswith_def good_prefix_def)

lemma comment_lines:
  assumes p: "good_prefix (k_config_prefix K)" and t: "printable_title (k_config_prefix K) t"
  shows "is_line (''# '' @ t @ [NL])" "parse_line K (''# '' @ t @ [NL]) = None"
    "is_line (''# end of '' @ t @ [NL])" "parse_line K (''# end of '' @ t @ [NL]) = None"
proof -
  have nl: "NL \<notin> set t" using t by (simp add: printable_title_def)
  show "is_line (''# '' @ t @ [NL])" using nl by (auto simp: is_line_def intro!: exI [of _ "''# '' @ t"])
  show "is_line (''# end of '' @ t @ [NL])" using nl by (auto simp: is_line_def intro!: exI [of _ "''# end of '' @ t"])
  show "parse_line K (''# '' @ t @ [NL]) = None"
    using parse_comment [OF p, of "t @ [NL]"] t by (simp add: py_rstrip_NL printable_title_def)
  have "\<not> startswith (py_rstrip (''end of '' @ t)) (k_config_prefix K)"
    using p rstrip_end_of [of t] by (cases "k_config_prefix K") (auto simp: good_prefix_def startswith_def)
  then show "parse_line K (''# end of '' @ t @ [NL]) = None"
    using parse_comment [OF p, of "''end of '' @ t @ [NL]"] py_rstrip_NL [of "''end of '' @ t"] by simp
qed

definition visit_syms :: "kconfig \<Rightarrow> wevent list \<Rightarrow> symref list" where
  "visit_syms K es = syms_of K [x. Visit x \<leftarrow> es]"

lemma visit_syms_simps [simp]:
  "visit_syms K [] = []" "visit_syms K (Leave x # es) = visit_syms K es"
  "visit_syms K (Visit x # es) = (case n_item (k_node K x) of NSym s \<Rightarrow> s # visit_syms K es | _ \<Rightarrow> visit_syms K es)"
  by (simp_all add: visit_syms_def syms_of_def split: nitem.split)

lemma config_lines_parse_gen:
  assumes p: "good_prefix (k_config_prefix K)"
    and ok: "\<And>x. Visit x \<in> set es \<or> Leave x \<in> set es \<Longrightarrow> printable_node K \<rho> x"
    and ls: "\<And>l. l \<in> set ls \<Longrightarrow> is_line l"
  shows "(\<forall>l \<in> set (snd (snd (fold (event_lines K u \<rho>) es (seen, after, ls)))). is_line l) \<and>
    List.map_filter (parse_line K) (snd (snd (fold (event_lines K u \<rho>) es (seen, after, ls)))) =
      List.map_filter (parse_line K) ls @ written K \<rho> (ordered_unique_aux seen (visit_syms K es))"
  using ok ls
proof (induction es arbitrary: seen after ls)
  case (Cons e es)
  note blank = parse_blank [OF p] parse_hash [OF p]
  have nl: "is_line [NL]" "is_line [CHR ''#'', NL]" by (auto simp: is_line_def)
  have "\<And>x. Visit x \<in> set es \<or> Leave x \<in> set es \<Longrightarrow> printable_node K \<rho> x" using Cons.prems(1) by auto
  note IH = Cons.IH [OF this]
  show ?case
  proof (cases e)
    case (Leave x)
    have px: "printable_node K \<rho> x" using Cons.prems(1) Leave by simp
    show ?thesis
    proof (cases "n_item (k_node K x) = NMenu \<and> shown K u \<rho> x \<and> x \<noteq> k_top_node K")
      case True
      with px have t: "printable_title (k_config_prefix K) (title K x)" by (simp add: printable_node_def)
      show ?thesis
        using IH [of "ls @ [''# end of '' @ title K x @ [NL]]" seen True] Cons.prems(2) comment_lines(3,4) [OF p t] True
        by (auto simp: Leave map_filter_simps simp del: append.append_Cons)
    next
      case False
      then have ev: "event_lines K u \<rho> e (seen, after, ls) = (seen, after, ls)" by (auto simp: Leave)
      have vs: "visit_syms K (e # es) = visit_syms K es" by (simp add: Leave)
      show ?thesis
        using IH [of ls seen after] Cons.prems(2) by (simp add: ev vs del: event_lines.simps visit_syms_simps)
    qed
  next
    case (Visit x)
    have px: "printable_node K \<rho> x" using Cons.prems(1) Visit by simp
    show ?thesis
    proof (cases "\<exists>s. n_item (k_node K x) = NSym s")
      case True
      then obtain s where s: "n_item (k_node K x) = NSym s" by blast
      with px have ps: "printable_sym K \<rho> s" by (simp add: printable_node_def)
      have vs: "visit_syms K (e # es) = s # visit_syms K es" by (simp add: Visit s)
      have ev: "event_lines K u \<rho> e (seen, after, ls) =
          (if s \<in> set seen then (seen, after, ls)
           else if rwtc K \<rho> s then (s # seen, False, ls @ (if after then [[NL]] else []) @ [sym_line K \<rho> s])
           else (s # seen, after, ls))" by (simp add: Visit s)
      consider "s \<in> set seen" | "s \<notin> set seen" "\<not> rwtc K \<rho> s" | "s \<notin> set seen" "rwtc K \<rho> s" by blast
      then show ?thesis
      proof cases
        case 1
        then show ?thesis
          using IH [of ls seen after] Cons.prems(2) by (simp add: ev vs del: event_lines.simps visit_syms_simps)
      next
        case 2
        then show ?thesis
          using IH [of ls "s # seen" after] Cons.prems(2)
          by (simp add: ev vs written_def del: event_lines.simps visit_syms_simps)
      next
        case 3
        then have l: "is_line (sym_line K \<rho> s)" "parse_line K (sym_line K \<rho> s) = Some (s, rstr \<rho> s)"
          using parse_config_line [OF p, of s "rstr \<rho> s"] ps by (auto simp: sym_line_def printable_sym_def)
        let ?ls = "ls @ (if after then [[NL]] else []) @ [sym_line K \<rho> s]"
        have "List.map_filter (parse_line K) ?ls = List.map_filter (parse_line K) ls @ [(s, rstr \<rho> s)]"
          using l(2) blank by (auto simp: map_filter_simps)
        moreover have "\<And>l. l \<in> set ?ls \<Longrightarrow> is_line l" using Cons.prems(2) l(1) nl by (auto split: if_splits)
        ultimately show ?thesis
          using IH [of ?ls "s # seen" False] 3
          by (simp add: ev vs written_def del: event_lines.simps visit_syms_simps)
      qed
    next
      case False
      let ?ls = "ls @ [[NL], [CHR ''#'', NL], ''# '' @ title K x @ [NL], [CHR ''#'', NL]]"
      have ev: "event_lines K u \<rho> e (seen, after, ls) = (if shown K u \<rho> x then (seen, False, ?ls) else (seen, after, ls))"
        and vs: "visit_syms K (e # es) = visit_syms K es"
        using False by (auto simp: Visit split: nitem.split)
      show ?thesis
      proof (cases "shown K u \<rho> x")
        case True
        with px False have t: "printable_title (k_config_prefix K) (title K x)"
          by (auto simp: printable_node_def shown_def Let_def split: nitem.splits)
        have "List.map_filter (parse_line K) ?ls = List.map_filter (parse_line K) ls"
          using comment_lines(2) [OF p t] blank by (simp add: map_filter_simps List.map_filter_def)
        then show ?thesis
          using IH [of ?ls seen False] Cons.prems(2) comment_lines(1) [OF p t] nl True
          by (auto simp: ev vs simp del: event_lines.simps visit_syms_simps append.append_Cons)
      qed (use IH [of ls seen after] Cons.prems(2) in \<open>simp add: ev vs del: event_lines.simps visit_syms_simps\<close>)
    qed
  qed
qed (simp add: written_def)

text \<open>The lines of the file assign the written values to the written symbols, every symbol once.\<close>

lemma config_lines_parse:
  assumes "good_prefix (k_config_prefix K)" and "\<And>x. x \<in> set (nodes_of ts) \<Longrightarrow> printable_node K \<rho> x"
  shows "lines_of (concat (config_lines K u \<rho> (events ts))) = config_lines K u \<rho> (events ts) \<and>
    List.map_filter (parse_line K) (config_lines K u \<rho> (events ts)) =
      written K \<rho> (ordered_unique_aux [] (syms_of K (nodes_of ts)))"
proof -
  have "\<And>x. Visit x \<in> set (events ts) \<or> Leave x \<in> set (events ts) \<Longrightarrow> printable_node K \<rho> x"
    using assms(2) events_Visit events_Leave by blast
  from config_lines_parse_gen [where ls = "[]" and seen = "[]" and after = False and u = u, OF assms(1) this]
  show ?thesis
    using lines_of_concat by (simp add: config_lines_def visit_syms_def visits_events List.map_filter_def)
qed
section \<open>What the assignments of a written file are\<close>

definition assign_pair :: "kconfig \<Rightarrow> symref \<times> string \<Rightarrow> users \<Rightarrow> users" where
  "assign_pair K p e = assign_sym K (fst p) (value_for K (fst p) (PStr (snd p))) (mode_users K (fst p) (snd p) e)"

lemma file_users_pairs: "file_users K ls = fold (assign_pair K) (List.map_filter (parse_line K) ls) no_users"
proof -
  have "fold (line_users K) ls e = fold (assign_pair K) (List.map_filter (parse_line K) ls) e" for e
    by (induction ls arbitrary: e)
      (auto simp: line_users_def assign_pair_def List.map_filter_def split: option.split)
  then show ?thesis by (simp add: file_users_def)
qed

text \<open>The value an assignment gives its symbol, when it is valid.\<close>

definition given :: "kconfig \<Rightarrow> symref \<times> string \<Rightarrow> pyval option" where
  "given K p = (let v = value_for K (fst p) (PStr (snd p)) in if valid_value (otype K (fst p)) v then Some v else None)"

lemma mode_users_sym [simp]: "u_sym (mode_users K s v e) = u_sym e" "u_sel (mode_users K s v e) = u_sel e"
  by (auto simp: mode_users_def assign_choice_def split: option.split)

lemma assign_sym_cho [simp]: "u_cho (assign_sym K s v e) = u_cho e"
  by (simp add: assign_sym_def)

lemma pairs_sym:
  assumes "distinct (map fst L)"
  shows "u_sym (fold (assign_pair K) L e) s =
    (case map_of L s of None \<Rightarrow> u_sym e s | Some v \<Rightarrow> (case given K (s, v) of None \<Rightarrow> u_sym e s | Some w \<Rightarrow> Some w))"
  using assms
proof (induction L arbitrary: e)
  case (Cons p L)
  obtain t v where p: "p = (t, v)" by (cases p)
  have "map_of L t = None" using Cons.prems p by (auto simp: map_of_eq_None_iff)
  then show ?case
    using Cons by (auto simp: p assign_pair_def assign_sym_def given_def Let_def split: option.split)
qed simp

lemma pairs_cho:
  assumes "u_cho (fold (assign_pair K) L e) c = Some m" and "u_cho e c = None"
  shows "\<exists>s v. (s, v) \<in> set L \<and> s_choice (k_sym K s) = Some c \<and> v \<noteq> ''n'' \<and> norm_tri (PStr v) = PInt m"
  using assms
proof (induction L arbitrary: e)
  case (Cons p L)
  obtain t v where p: "p = (t, v)" by (cases p)
  show ?case
  proof (cases "u_cho (assign_pair K p e) c")
    case None
    with Cons show ?thesis by fastforce
  next
    case (Some m')
    show ?thesis
    proof (cases "\<exists>s v. (s, v) \<in> set L \<and> s_choice (k_sym K s) = Some c \<and> v \<noteq> ''n'' \<and> norm_tri (PStr v) = PInt m")
      case False
      have keep: "u_cho (fold (assign_pair K) L e') c = Some m \<Longrightarrow> u_cho e' c = Some m" for e'
        using False
      proof (induction L arbitrary: e')
        case (Cons q L)
        obtain t v where q: "q = (t, v)" by (cases q)
        have "u_cho (assign_pair K q e') c = Some m" using Cons by auto
        moreover have "u_cho (assign_pair K q e') c = Some m \<Longrightarrow> u_cho e' c = Some m"
          using Cons.prems(2)
          by (auto simp: q assign_pair_def mode_users_def assign_choice_def norm_tri_def
              split: option.splits if_splits)
        ultimately show ?case by blast
      qed simp
      from Cons.prems(1) keep have "u_cho (assign_pair K p e) c = Some m" by simp
      with Cons.prems(2) have "s_choice (k_sym K t) = Some c \<and> v \<noteq> ''n'' \<and> norm_tri (PStr v) = PInt m"
        by (auto simp: p assign_pair_def mode_users_def assign_choice_def norm_tri_def split: option.splits if_splits)
      then show ?thesis using p by auto
    qed auto
  qed
qed simp

lemma pairs_cho_keep: "u_cho e c \<noteq> None \<Longrightarrow> u_cho (fold (assign_pair K) L e) c \<noteq> None"
proof (induction L arbitrary: e)
  case (Cons p L)
  have "u_cho (assign_pair K p e) c \<noteq> None"
    using Cons.prems choice_valid_int
    by (fastforce simp: assign_pair_def mode_users_def assign_choice_def split: option.split)
  then show ?case using Cons.IH by simp
qed simp

lemma pairs_cho_set:
  assumes "(s, v) \<in> set L" and "s_choice (k_sym K s) = Some c" and "bool_tristate (otype K s)" and "v \<noteq> ''n''"
    and "norm_tri (PStr v) = PInt m" and "choice_valid (c_orig_type (k_choice K c)) (PInt m)"
  shows "u_cho (fold (assign_pair K) L e) c \<noteq> None"
  using assms(1)
proof (induction L arbitrary: e)
  case (Cons p L)
  show ?case
  proof (cases "p = (s, v)")
    case True
    then have "u_cho (assign_pair K p e) c \<noteq> None"
      using assms(2-) by (simp add: assign_pair_def mode_users_def assign_choice_def)
    then show ?thesis using pairs_cho_keep by simp
  qed (use Cons in auto)
qed simp

lemma pairs_sel:
  assumes "u_sel (fold (assign_pair K) L e) c = Some s" and "u_sel e c = None"
  shows "\<exists>v. (s, v) \<in> set L \<and> s_choice (k_sym K s) = Some c \<and> value_for K s (PStr v) = PInt 2"
  using assms
proof (induction L arbitrary: e)
  case (Cons p L)
  obtain t v where p: "p = (t, v)" by (cases p)
  show ?case
  proof (cases "\<exists>v. (s, v) \<in> set L \<and> s_choice (k_sym K s) = Some c \<and> value_for K s (PStr v) = PInt 2")
    case False
    have keep: "u_sel (fold (assign_pair K) L e') c = Some s \<Longrightarrow> u_sel e' c = Some s" for e'
      using False
    proof (induction L arbitrary: e')
      case (Cons q L)
      obtain t v where q: "q = (t, v)" by (cases q)
      have "u_sel (assign_pair K q e') c = Some s" using Cons by auto
      moreover have "u_sel (assign_pair K q e') c = Some s \<Longrightarrow> u_sel e' c = Some s"
        using Cons.prems(2) by (auto simp: q assign_pair_def assign_sym_def split: option.splits if_splits)
      ultimately show ?case by blast
    qed simp
    from Cons.prems(1) keep have "u_sel (assign_pair K p e) c = Some s" by simp
    with Cons.prems(2) show ?thesis
      by (auto simp: p assign_pair_def assign_sym_def split: option.splits if_splits)
  qed auto
qed simp

lemma pairs_sel_keep: "u_sel e c \<noteq> None \<Longrightarrow> u_sel (fold (assign_pair K) L e) c \<noteq> None"
proof (induction L arbitrary: e)
  case (Cons p L)
  have "u_sel (assign_pair K p e) c \<noteq> None"
    using Cons.prems by (auto simp: assign_pair_def assign_sym_def split: option.split)
  then show ?case using Cons.IH by simp
qed simp

lemma pairs_sel_set:
  assumes "(s, v) \<in> set L" and "s_choice (k_sym K s) = Some c" and "given K (s, v) = Some (PInt 2)"
  shows "u_sel (fold (assign_pair K) L e) c \<noteq> None"
  using assms(1)
proof (induction L arbitrary: e)
  case (Cons p L)
  show ?case
  proof (cases "p = (s, v)")
    case True
    then have "u_sel (assign_pair K p e) c \<noteq> None"
      using assms(2-) by (auto simp: assign_pair_def assign_sym_def given_def Let_def split: if_splits)
    then show ?thesis using pairs_sel_keep by simp
  qed (use Cons in auto)
qed simp
section \<open>Loading a written file restores the values\<close>

text \<open>
  The cases in which a written file does not determine the values it was written from are
  excluded here: values of symbols with \<open>option env\<close> or \<open>option defconfig_list\<close> (they are not
  written), defaults of \<open>y\<close> for symbols the user may only set to \<open>m\<close> (assigning \<open>y\<close> gives \<open>m\<close>),
  and choice modes that do not show in the values of the choice's symbols.
\<close>

definition restorable :: "kconfig \<Rightarrow> users \<Rightarrow> valuation \<Rightarrow> bool" where
  "restorable K u \<rho> =
     ((\<forall>s \<in> set (k_unique_defined_syms K). otype K s \<noteq> UNKNOWN \<and> nmy_tri s = None \<and>
        (s_env_var (k_sym K s) \<noteq> None \<or> k_defconfig_list K = Some (NSym s) \<longrightarrow> bool_tristate (otype K s) \<or> u_sym u s = None) \<and>
        (s_choice (k_sym K s) = None \<and> rvis K \<rho> s = 1 \<and> rtri \<rho> s = 2 \<longrightarrow>
           ev K u \<rho> (s_rev_dep (k_sym K s)) = 2 \<or> ev K u \<rho> (s_weak_rev_dep (k_sym K s)) = 2) \<and>
        (s_choice (k_sym K s) \<noteq> None \<longrightarrow> bool_tristate (otype K s))) \<and>
      (\<forall>c \<in> set (k_unique_choices K).
        (ctri_spec K u \<rho> c = 2 \<and> bool_tristate (c_orig_type (k_choice K c)) \<and>
           (\<exists>s \<in> set (k_unique_defined_syms K). rsel \<rho> c = Some s \<and> s_choice (k_sym K s) = Some c)) \<or>
        ctri_spec K u \<rho> c = 1 \<and> \<not> c_is_optional (k_choice K c) \<or> rcvis \<rho> c = 0))"

text \<open>Equations that only depend on the choices' modes.\<close>

lemma same_modes:
  assumes "\<And>c. ctri_spec K u' \<rho> c = ctri_spec K u \<rho> c"
  shows "ev K u' \<rho> = ev K u \<rho>" and "stype_spec K u' \<rho> = stype_spec K u \<rho>"
    and "vis_spec K u' \<rho> = vis_spec K u \<rho>" and "cvis_spec K u' \<rho> = cvis_spec K u \<rho>"
    and "asg_spec K u' \<rho> = asg_spec K u \<rho>" and "tri_default_spec K u' \<rho> = tri_default_spec K u \<rho>"
    and "range_spec K u' \<rho> = range_spec K u \<rho>" and "str_default_spec K u' \<rho> = str_default_spec K u \<rho>"
    and "sel_from_defaults_spec K u' \<rho> = sel_from_defaults_spec K u \<rho>"
proof -
  show e: "ev K u' \<rho> = ev K u \<rho>"
    by (rule arg_cong [where f = "\<lambda>t. eval (\<lambda>s. otype K s) t (rstr \<rho>)"])
      (simp add: fun_eq_iff itri_def assms split: item.split)
  show t: "stype_spec K u' \<rho> = stype_spec K u \<rho>"
    by (simp add: fun_eq_iff stype_spec_def assms)
  have p: "prompts_spec K u' \<rho> = prompts_spec K u \<rho>"
    by (simp add: fun_eq_iff prompts_spec_def e)
  show "vis_spec K u' \<rho> = vis_spec K u \<rho>" by (rule ext) (auto simp: vis_spec_def Let_def p t assms split: option.split)
  show "cvis_spec K u' \<rho> = cvis_spec K u \<rho>" by (simp add: fun_eq_iff cvis_spec_def p)
  show "asg_spec K u' \<rho> = asg_spec K u \<rho>" by (simp add: fun_eq_iff asg_spec_def e t)
  show "tri_default_spec K u' \<rho> = tri_default_spec K u \<rho>" by (simp add: fun_eq_iff tri_default_spec_def e cong: if_cong)
  show "range_spec K u' \<rho> = range_spec K u \<rho>" by (simp add: fun_eq_iff range_spec_def e)
  show "str_default_spec K u' \<rho> = str_default_spec K u \<rho>" by (simp add: fun_eq_iff str_default_spec_def e)
  show "sel_from_defaults_spec K u' \<rho> = sel_from_defaults_spec K u \<rho>"
    by (simp add: fun_eq_iff sel_from_defaults_spec_def sel_default_spec_def e)
qed

text \<open>A written bool or tristate value, assigned again, has the same effect.\<close>

lemma tri_restored:
  assumes v: "is_valuation K u \<rho>" and bt: "bool_tristate (otype K s)" "nmy_tri s = None" and nc: "s_choice (k_sym K s) = None"
    and m: "\<And>c. ctri_spec K u' \<rho> c = ctri_spec K u \<rho> c"
    and gap: "rvis K \<rho> s = 1 \<and> rtri \<rho> s = 2 \<Longrightarrow>
      ev K u \<rho> (s_rev_dep (k_sym K s)) = 2 \<or> ev K u \<rho> (s_weak_rev_dep (k_sym K s)) = 2"
    and u': "rvis K \<rho> s \<noteq> 0 \<Longrightarrow> u_sym u' s = Some (PInt (rtri \<rho> s))"
  shows "tri_spec K u' \<rho> s = tri_spec K u \<rho> s"
proof (cases "rvis K \<rho> s = 0")
  case True
  then show ?thesis using nc by (simp add: tri_defs same_modes [OF m])
next
  case False
  define rev weak where "rev = ev K u \<rho> (s_rev_dep (k_sym K s))" and "weak = ev K u \<rho> (s_weak_rev_dep (k_sym K s))"
  have val: "rtri \<rho> s = fst (tri_spec K u \<rho> s)" by (rule valuation_tri [OF v bt(2,1)])
  have t1: "rvis K \<rho> s = 1 \<Longrightarrow> stype_spec K u \<rho> s = TRISTATE"
    using vis_1_tristate [OF _ nc] valuation_vis [OF v] by simp
  define b where "b = tri_base_spec K u \<rho> s (rvis K \<rho> s)"
  have w: "snd b = True" using False by (auto simp: b_def tri_base_spec_def Let_def split: option.split pyval.split)
  define P where "P = (\<lambda>v. tri_promote_spec K u \<rho> s v)"
  have P: "P v = (if v = 1 \<and> (stype_spec K u \<rho> s = BOOL \<or> weak = 2) then 2 else v)" for v
    by (simp add: P_def tri_promote_spec_def weak_def)
  have le: "fst b \<le> 2" "rev \<le> 2"
    by (simp_all add: b_def tri_base_spec_le rev_def iv.eval_le)
  have tu: "tri_spec K u \<rho> s = (P (if rev \<noteq> 0 then max rev (fst b) else fst b), True)"
    using nc w by (simp add: tri_spec_def tri_reverse_spec_def Let_def b_def [symmetric] rev_def [symmetric] P_def split: if_split)
  have "tri_base_spec K u' \<rho> s (rvis K \<rho> s) = (min (rtri \<rho> s) (rvis K \<rho> s), True)"
    using u' False by (simp add: tri_base_spec_def)
  moreover have "tri_reverse_spec K u' \<rho> s = tri_reverse_spec K u \<rho> s" "tri_promote_spec K u' \<rho> s = tri_promote_spec K u \<rho> s"
    by (simp_all add: fun_eq_iff tri_reverse_spec_def tri_promote_spec_def same_modes [OF m])
  ultimately have tu': "tri_spec K u' \<rho> s =
      (P (if rev \<noteq> 0 then max rev (min (rtri \<rho> s) (rvis K \<rho> s)) else min (rtri \<rho> s) (rvis K \<rho> s)), True)"
    using nc by (simp add: tri_spec_def Let_def P_def tri_reverse_spec_def rev_def [symmetric] split del: if_split)
      (simp split: if_split)
  have vis: "rvis K \<rho> s = 1 \<or> rvis K \<rho> s = 2" using False rvis_le [of K \<rho> s] by linarith
  have rt: "rtri \<rho> s = P (if rev \<noteq> 0 then max rev (fst b) else fst b)" using val tu by simp
  show ?thesis
    using vis
  proof
    assume "rvis K \<rho> s = 2"
    then show ?thesis
      unfolding tu tu' rt P using le by (auto simp: min_def max_def split: if_splits)
  next
    assume one: "rvis K \<rho> s = 1"
    have g: "rtri \<rho> s = 2 \<Longrightarrow> rev = 2 \<or> weak = 2" using gap one by (simp add: rev_def weak_def)
    have "P (if rev \<noteq> 0 then max rev (min (rtri \<rho> s) 1) else min (rtri \<rho> s) 1) = rtri \<rho> s"
      using le g t1 [OF one] unfolding rt P by (auto simp: min_def max_def split: if_splits)
    then show ?thesis unfolding tu' tu one rt by simp
  qed
qed
text \<open>A written number or string, assigned again, has the same effect.\<close>

lemma str_restored:
  assumes wu: "wf_users K u" and t: "\<not> bool_tristate (otype K s)" "otype K s \<noteq> UNKNOWN"
    and m: "\<And>c. ctri_spec K u' \<rho> c = ctri_spec K u \<rho> c"
    and env: "s_env_var (k_sym K s) \<noteq> None \<or> k_defconfig_list K = Some (NSym s) \<Longrightarrow> u_sym u s = None"
    and u': "u_sym u' s = (if snd (str_spec K u \<rho> s) then given K (s, fst (str_spec K u \<rho> s)) else None)"
  shows "str_spec K u' \<rho> s = str_spec K u \<rho> s"
proof -
  let ?vis = "rvis K \<rho> s"
  define special where "special = (s_env_var (k_sym K s) \<noteq> None \<or> k_defconfig_list K = Some (NSym s))"
  note eqs = same_modes [OF m]
  have g: "given K (s, v) = (if valid_value (otype K s) (PStr v) then Some (PStr v) else None)" for v
    using t by (simp add: given_def value_for_def)
  show ?thesis
  proof (cases "int_hex (otype K s)")
    case True
    define D where "D = num_defaults_spec K u \<rho> s (?vis \<noteq> 0)"
    have D: "num_defaults_spec K u' \<rho> s (?vis \<noteq> 0) = D"
      by (simp add: D_def num_defaults_spec_def eqs)
    have U: "num_spec K w \<rho> s ?vis = (case u_sym w s of
        Some (PStr x) \<Rightarrow> if ?vis \<noteq> 0 \<and> x \<noteq> [] \<and> in_range (range_spec K u \<rho> s) (num_or_0 (type_to_base (otype K s)) x)
          then (x, True) else D
      | _ \<Rightarrow> D)" if "w = u \<or> w = u'" for w
      using that D by (auto simp: num_spec_def D_def eqs split: option.split pyval.split)
    have DT: "?vis \<noteq> 0 \<Longrightarrow> snd D" by (simp add: D_def num_defaults_spec_def)
    have sp: "str_spec K w \<rho> s = (fst (num_spec K w \<rho> s ?vis), if special then False else snd (num_spec K w \<rho> s ?vis))" for w
      using True by (simp add: str_spec_def special_def)
    have "num_spec K u' \<rho> s ?vis = num_spec K u \<rho> s ?vis"
    proof (cases "?vis = 0 \<or> special")
      case True
      then show ?thesis
        using env u' by (auto simp: U sp special_def split: option.split pyval.split)
    next
      case False
      have *: "snd (num_spec K u \<rho> s ?vis)"
        using DT False by (auto simp: U split: option.split pyval.split)
      then have u2: "u_sym u' s = given K (s, fst (num_spec K u \<rho> s ?vis))" using u' False by (simp add: sp)
      show ?thesis
      proof (cases "num_spec K u \<rho> s ?vis = D")
        case True
        show ?thesis
          using u2 DT False unfolding True by (cases D) (auto simp: U [of u'] g)
      next
        case ne: False
        then obtain x where x: "u_sym u s = Some (PStr x)" "num_spec K u \<rho> s ?vis = (x, True)"
          by (auto simp: U [of u] split: option.splits pyval.splits if_splits)
        then have "u_sym u' s = Some (PStr x)"
          using u2 wf_usersD(1) [OF wu x(1)] by (simp add: g)
        with x show ?thesis by (simp add: U)
      qed
    qed
    then show ?thesis by (simp add: sp)
  next
    case False
    then have st: "otype K s = STRING" using t by (cases "otype K s") auto
    have sp: "str_spec K w \<rho> s = (fst (string_spec K w \<rho> s ?vis), if special then False else snd (string_spec K w \<rho> s ?vis))" for w
      using False by (simp add: str_spec_def special_def)
    have "string_spec K u' \<rho> s ?vis = string_spec K u \<rho> s ?vis"
    proof (cases "?vis = 0 \<or> special")
      case True
      then show ?thesis using env u' by (auto simp: string_spec_def eqs sp special_def)
    next
      case vis: False
      have *: "snd (string_spec K u \<rho> s ?vis)"
        using vis by (auto simp: string_spec_def split: option.split pyval.split)
      then have "u_sym u' s = Some (PStr (fst (string_spec K u \<rho> s ?vis)))" using u' vis by (simp add: sp g st)
      then have "string_spec K u' \<rho> s ?vis = (fst (string_spec K u \<rho> s ?vis), True)"
        using vis by (simp add: string_spec_def)
      then show ?thesis using * by (metis prod.collapse)
    qed
    then show ?thesis by (simp add: sp)
  qed
qed
lemma valuation_wtc:
  assumes "is_valuation K u \<rho>" and "otype K s \<noteq> UNKNOWN" and "nmy_tri s = None"
  shows "rwtc K \<rho> s = (if bool_tristate (otype K s) then snd (tri_spec K u \<rho> s) else snd (str_spec K u \<rho> s))"
  using is_valuationD [OF assms(1), of "KTri s"] is_valuationD [OF assms(1), of "KStr s"] assms(2,3)
  by (simp add: rwtc_def)

lemma vis_1_type: "vis_spec K u \<rho> s = 1 \<Longrightarrow> stype_spec K u \<rho> s = TRISTATE"
  by (cases "s_choice (k_sym K s)") (auto simp: vis_spec_def Let_def split: if_splits)

text \<open>The value of a bool symbol is not \<open>m\<close>; a choice symbol has the value \<open>m\<close> only in mode \<open>m\<close>.\<close>

lemma bool_not_m:
  assumes v: "is_valuation K u \<rho>" and b: "otype K s = BOOL" and "nmy_tri s = None"
  shows "rtri \<rho> s \<noteq> 1"
proof -
  have st: "stype_spec K u \<rho> s = BOOL" using b by (simp add: stype_spec_def)
  have "rvis K \<rho> s \<noteq> 1" using vis_1_type [of K u \<rho> s] st valuation_vis [OF v] by auto
  then have "rvis K \<rho> s = 0 \<or> rvis K \<rho> s = 2" using rvis_le [of K \<rho> s] by linarith
  then show ?thesis
    using valuation_tri [OF v assms(3)] b st
    by (auto simp: tri_spec_def tri_promote_spec_def Let_def split: option.split)
qed

lemma choice_sym_values:
  assumes v: "is_valuation K u \<rho>" and bt: "bool_tristate (otype K s)" "nmy_tri s = None" and c: "s_choice (k_sym K s) = Some c"
  shows "rtri \<rho> s = 2 \<Longrightarrow> rvis K \<rho> s = 2 \<and> rsel \<rho> c = Some s"
    and "rtri \<rho> s = 1 \<Longrightarrow> ctri_spec K u \<rho> c \<noteq> 2"
proof -
  have val: "rtri \<rho> s = fst (tri_spec K u \<rho> s)" by (rule valuation_tri [OF v bt(2,1)])
  then show "rtri \<rho> s = 2 \<Longrightarrow> rvis K \<rho> s = 2 \<and> rsel \<rho> c = Some s"
    using c by (auto simp: tri_spec_def Let_def split: if_splits)
  assume "rtri \<rho> s = 1"
  with val have "fst (tri_spec K u \<rho> s) = 1" by simp
  then have "rvis K \<rho> s \<noteq> 0" "rvis K \<rho> s \<noteq> 2" using c by (auto simp: tri_spec_def Let_def split: if_splits)
  then have "vis_spec K u \<rho> s = 1" using rvis_le [of K \<rho> s] valuation_vis [OF v, of s] by linarith
  from vis_1_type [OF this] show "ctri_spec K u \<rho> c \<noteq> 2"
    using c by (simp add: stype_spec_def split: if_splits)
qed

lemma tri_value_given:
  assumes v: "is_valuation K u \<rho>" and bt: "bool_tristate (otype K s)" "nmy_tri s = None"
  shows "rstr \<rho> s = tri_to_str (rtri \<rho> s)" and "norm_tri (PStr (rstr \<rho> s)) = PInt (rtri \<rho> s)"
    and "given K (s, rstr \<rho> s) = Some (PInt (rtri \<rho> s))" and "clean_value (otype K s) (rstr \<rho> s)"
proof -
  show *: "rstr \<rho> s = tri_to_str (rtri \<rho> s)"
    using valuation_str [OF v] is_valuationD [OF v, of "KStr s"] bt by (simp add: rstr_def)
  show n: "norm_tri (PStr (rstr \<rho> s)) = PInt (rtri \<rho> s)"
    by (simp add: * norm_tri_def str_to_tri_tri_to_str)
  have le: "rtri \<rho> s \<le> 2" by simp
  have b: "otype K s = BOOL \<Longrightarrow> rtri \<rho> s = 0 \<or> rtri \<rho> s = 2"
    using bool_not_m [OF v _ bt(2)] le by linarith
  from le show "given K (s, rstr \<rho> s) = Some (PInt (rtri \<rho> s))"
    using b bt(1) n
    by (cases "otype K s") (auto simp: given_def value_for_def)
  show "clean_value (otype K s) (rstr \<rho> s)"
    using b bt(1) le
    by (cases "otype K s") (auto simp: * clean_value_def tri_to_str_def)
qed

lemma map_of_written:
  "map_of (written K \<rho> ss) s = (if s \<in> set ss \<and> rwtc K \<rho> s then Some (rstr \<rho> s) else None)"
  by (induction ss) (auto simp: written_def)

lemma distinct_written: "distinct ss \<Longrightarrow> distinct (map fst (written K \<rho> ss))"
  by (simp add: written_def comp_def)

lemma modes_restored:
  assumes t: "tree_ok K" and v: "is_valuation K u \<rho>" and wu: "wf_users K u" "wf_users K u'" and rs: "restorable K u \<rho>"
    and ss: "set ss = set (k_unique_defined_syms K)"
    and e: "e = fold (assign_pair K) (written K \<rho> ss) no_users" and u': "u' = replace_users K e u0"
  shows "ctri_spec K u' \<rho> c = ctri_spec K u \<rho> c \<and> sel_spec K u' \<rho> c = sel_spec K u \<rho> c"
proof (cases "c \<in> set (k_unique_choices K)")
  case False
  with t have ct: "c_orig_type (k_choice K c) = UNKNOWN" "c_syms (k_choice K c) = []" by (simp_all add: tree_ok_def)
  have "u_cho w c = None \<and> u_sel w c = None" if "wf_users K w" for w
    using wf_usersD(2,3) [OF that, of c] ct by (cases "u_cho w c"; cases "u_sel w c") auto
  with wu have *: "u_cho u' c = None \<and> u_sel u' c = None" "u_cho u c = None \<and> u_sel u c = None" by blast+
  have "ctri_spec K u' \<rho> c = 0 \<or> ctri_spec K u' \<rho> c = ctri_spec K u \<rho> c" by (simp add: ctri_spec_def *)
  moreover have "sel_default_spec K w \<rho> c = None" for w
    using t False by (simp add: sel_default_spec_def tree_ok_def)
  ultimately show ?thesis by (simp add: ctri_spec_def sel_spec_def sel_from_defaults_spec_def * ct)
next
  case True
  let ?L = "written K \<rho> ss"
  have nn: "u_cho no_users c = None" "u_sel no_users c = None" by (simp_all add: no_users_def)
  have inL: "s \<in> set (k_unique_defined_syms K) \<and> rwtc K \<rho> s \<and> x = rstr \<rho> s" if "(s, x) \<in> set ?L" for s x
    using that ss by (auto simp: written_def)
  have sym: "otype K s \<noteq> UNKNOWN" "nmy_tri s = None" "s_choice (k_sym K s) \<noteq> None \<Longrightarrow> bool_tristate (otype K s)"
    if "s \<in> set (k_unique_defined_syms K)" for s
    using rs that by (simp_all add: restorable_def)
  have cho: "\<exists>s. s \<in> set (k_unique_defined_syms K) \<and> s_choice (k_sym K s) = Some c \<and> rtri \<rho> s = k \<and> k \<noteq> 0"
    if "u_cho e c = Some k" for k
  proof -
    from pairs_cho [of K ?L no_users c k] that nn e obtain s x where
      "(s, x) \<in> set ?L" "s_choice (k_sym K s) = Some c" "x \<noteq> ''n''" "norm_tri (PStr x) = PInt k" by blast
    moreover have "s \<in> set (k_unique_defined_syms K)" "x = rstr \<rho> s" using calculation inL by blast+
    ultimately show ?thesis
      using tri_value_given [OF v, of s] sym [of s] by (intro exI [of _ s]) (auto simp: tri_to_str_def split: if_splits)
  qed
  have sel: "s \<in> set (k_unique_defined_syms K) \<and> s_choice (k_sym K s) = Some c \<and> rtri \<rho> s = 2" if "u_sel e c = Some s" for s
  proof -
    from pairs_sel [of K ?L no_users c s] that nn e obtain x where
      "(s, x) \<in> set ?L" "s_choice (k_sym K s) = Some c" "value_for K s (PStr x) = PInt 2" by blast
    moreover have "s \<in> set (k_unique_defined_syms K)" "x = rstr \<rho> s" using calculation inL by blast+
    ultimately show ?thesis
      using tri_value_given [OF v, of s] sym [of s] by (auto simp: value_for_def)
  qed
  have sel2: "ctri_spec K u \<rho> c = 2 \<and> rsel \<rho> c = Some s" if "u_sel e c = Some s" for s
  proof -
    from sel [OF that] have "rsel \<rho> c = Some s" using choice_sym_values(1) [OF v, of s c] sym [of s] by simp
    then show ?thesis using valuation_sel [OF v, of c] by (auto simp: sel_spec_def split: if_splits)
  qed
  consider (y) s where "ctri_spec K u \<rho> c = 2" "bool_tristate (c_orig_type (k_choice K c))" "rsel \<rho> c = Some s"
      "s_choice (k_sym K s) = Some c" "s \<in> set (k_unique_defined_syms K)"
    | (m) "ctri_spec K u \<rho> c = 1" "\<not> c_is_optional (k_choice K c)" | (n) "rcvis \<rho> c = 0"
    using rs True by (auto simp: restorable_def)
  then show ?thesis
  proof cases
    case (y s)
    have bt: "bool_tristate (otype K s)" "nmy_tri s = None" using sym [OF y(5)] y(4) by auto
    have vis: "rvis K \<rho> s \<noteq> 0"
      using y(1,3) valuation_sel [OF v, of c]
      by (auto simp: sel_spec_def sel_from_defaults_spec_def sel_default_spec_def
          dest!: firstp_Some split: option.splits if_splits expr.splits item.splits)
    have r: "rvis K \<rho> s = 2"
    proof -
      have "vis_spec K u \<rho> s \<noteq> 1"
        using y(1,4) vis_1_type [of K u \<rho> s] by (auto simp: stype_spec_def split: if_splits)
      then show ?thesis using vis rvis_le [of K \<rho> s] valuation_vis [OF v, of s] by linarith
    qed
    then have tri: "tri_spec K u \<rho> s = (2, True)" using y(3,4) by (simp add: tri_spec_def Let_def)
    then have s2: "rtri \<rho> s = 2" using valuation_tri [OF v bt(2,1)] by simp
    have "rwtc K \<rho> s" using valuation_wtc [OF v _ bt(2)] bt(1) tri by (auto simp: sym(1) [OF y(5)])
    then have L: "(s, rstr \<rho> s) \<in> set ?L" using y(5) ss by (auto simp: written_def)
    have "choice_valid (c_orig_type (k_choice K c)) (PInt 2)"
      using y(2) by (cases "c_orig_type (k_choice K c)") auto
    with pairs_cho_set [OF L y(4) bt(1), of 2 no_users] tri_value_given [OF v bt] s2
    have "u_cho e c \<noteq> None" by (simp add: e tri_to_str_def)
    then obtain k where k: "u_cho e c = Some k" by blast
    from cho [OF k] obtain s' where s': "s_choice (k_sym K s') = Some c" "rtri \<rho> s' = k" "k \<noteq> 0"
      "s' \<in> set (k_unique_defined_syms K)" by blast
    have "k \<noteq> 1" using choice_sym_values(2) [OF v _ _ s'(1)] sym [OF s'(4)] s' y(1) by auto
    moreover have "k \<le> 2" using rtri_le [of \<rho> s'] s'(2) by simp
    ultimately have k2: "u_cho e c = Some 2" using k s'(3) by (cases "k = 2") auto
    have "u_sel e c \<noteq> None"
      using pairs_sel_set [OF L y(4)] tri_value_given [OF v bt] s2 by (simp add: e)
    then have sel': "u_sel e c = Some s" using sel2 y(3) by auto
    have u: "u_cho u' c = Some 2" "u_sel u' c = Some s" using True k2 sel' by (auto simp: u' replace_users_def)
    have "ctri_spec K u' \<rho> c = 2"
      using y(1) rcvis_le [of \<rho> c] u(1) by (auto simp: ctri_spec_def Let_def min_def max_def split: if_splits option.splits)
    with y(1,3) u(2) vis valuation_sel [OF v, of c] show ?thesis by (simp add: sel_spec_def)
  next
    case m
    have "u_cho e c = None \<or> u_cho e c = Some 1"
    proof (rule ccontr)
      assume "\<not> ?thesis"
      then obtain k where k: "u_cho e c = Some k" "k \<noteq> 1" by auto
      from cho [OF k(1)] obtain s' where s': "s_choice (k_sym K s') = Some c" "rtri \<rho> s' = k" "k \<noteq> 0"
        "s' \<in> set (k_unique_defined_syms K)" by blast
      then have "rtri \<rho> s' = 2" using k(2) rtri_le [of \<rho> s'] by linarith
      then have "rsel \<rho> c = Some s'" using choice_sym_values(1) [OF v _ _ s'(1)] sym [OF s'(4)] s'(1) by auto
      then show False using m(1) valuation_sel [OF v, of c] by (simp add: sel_spec_def)
    qed
    moreover have "u_sel e c = None" using sel2 m(1) by fastforce
    ultimately have "u_cho u' c = None \<or> u_cho u' c = Some 1" using True by (auto simp: u' replace_users_def)
    then have "ctri_spec K u' \<rho> c = 1"
      using m by (auto simp: ctri_spec_def Let_def min_def max_def split: if_splits option.splits)
    with m(1) show ?thesis by (simp add: sel_spec_def)
  next
    case n
    then show ?thesis by (simp add: ctri_spec_def sel_spec_def)
  qed
qed
text \<open>The values under which the file was written satisfy the equations under the loaded assignments.\<close>

lemma written_restores:
  assumes t: "tree_ok K" and v: "is_valuation K u \<rho>" and wu: "wf_users K u" "wf_users K u'" and rs: "restorable K u \<rho>"
    and ss: "distinct ss" "set ss = set (k_unique_defined_syms K)"
    and e: "e = fold (assign_pair K) (written K \<rho> ss) no_users" and u': "u' = replace_users K e u0"
  shows "is_valuation K u' \<rho>"
proof -
  note mr = modes_restored [OF t v wu rs ss(2) e u']
  have m: "ctri_spec K u' \<rho> c = ctri_spec K u \<rho> c" for c using mr [of c] by blast
  note eqs = same_modes [OF m]
  have usym: "u_sym u' s = (if rwtc K \<rho> s then given K (s, rstr \<rho> s) else None)"
    if "s \<in> set (k_unique_defined_syms K)" for s
    using that pairs_sym [OF distinct_written [OF ss(1)], of K K \<rho> no_users s]
    by (auto simp: u' e replace_users_def map_of_written ss(2) no_users_def split: option.splits)
  have undef: "otype K s = (if nmy_tri s = None then UNKNOWN else TRISTATE)" if "s \<notin> set (k_unique_defined_syms K)" for s
    using t that by (auto simp: tree_ok_def)
  have tri: "tri_spec K u' \<rho> s = tri_spec K u \<rho> s" if bt: "bool_tristate (otype K s)" "nmy_tri s = None" for s
  proof -
    have s: "s \<in> set (k_unique_defined_syms K)" using undef [of s] bt by (cases "s \<in> set (k_unique_defined_syms K)") auto
    note us = usym [OF s] tri_value_given [OF v bt]
    have wtc: "rwtc K \<rho> s = snd (tri_spec K u \<rho> s)" using valuation_wtc [OF v _ bt(2)] bt(1) by fastforce
    show ?thesis
    proof (cases "s_choice (k_sym K s)")
      case None
      show ?thesis
      proof (rule tri_restored [OF v bt None m])
        show "rvis K \<rho> s \<noteq> 0 \<Longrightarrow> u_sym u' s = Some (PInt (rtri \<rho> s))"
          using us wtc None by (auto simp: tri_spec_def tri_reverse_spec_def tri_base_spec_def Let_def split: option.split pyval.split)
      qed (use rs s None in \<open>auto simp: restorable_def\<close>)
    next
      case (Some c)
      show ?thesis
      proof (cases "rvis K \<rho> s = 0 \<or> rvis K \<rho> s = 2")
        case False
        then have "tri_spec K u \<rho> s = (if truthy (u_sym u s) then 1 else 0, True)" using Some by (simp add: tri_spec_def Let_def)
        moreover have "u_sym u' s = Some (PInt (rtri \<rho> s))" using us wtc calculation by simp
        moreover have "rtri \<rho> s = fst (tri_spec K u \<rho> s)" by (rule valuation_tri [OF v bt(2,1)])
        ultimately show ?thesis using False Some by (simp add: tri_spec_def Let_def)
      qed (use Some in \<open>auto simp: tri_spec_def Let_def\<close>)
    qed
  qed
  have str: "str_spec K u' \<rho> s = str_spec K u \<rho> s" if st: "\<not> bool_tristate (otype K s)" "otype K s \<noteq> UNKNOWN" for s
  proof -
    have s: "s \<in> set (k_unique_defined_syms K)" using undef [of s] st by (cases "s \<in> set (k_unique_defined_syms K)") (auto split: if_splits)
    have nmy: "nmy_tri s = None" using rs s by (simp add: restorable_def)
    have "rstr \<rho> s = fst (str_spec K u \<rho> s)"
      using is_valuationD [OF v, of "KStr s"] st by (simp add: rstr_def)
    moreover have "rwtc K \<rho> s = snd (str_spec K u \<rho> s)" using valuation_wtc [OF v st(2) nmy] st(1) by simp
    ultimately show ?thesis
      using rs s st(1) usym [OF s] by (intro str_restored [OF wu(1) st m]) (auto simp: restorable_def)
  qed
  have "spec K u' \<rho> k = spec K u \<rho> k" for k
    by (cases k) (auto simp: eqs tri str mr split: option.split)
  with v show ?thesis by (simp add: is_valuation_def)
qed

text \<open>What the configuration and its values must be like for the file to be read back.\<close>

definition writable :: "kconfig \<Rightarrow> users \<Rightarrow> valuation \<Rightarrow> ntree list \<Rightarrow> bool" where
  "writable K u \<rho> ts =
     (good_prefix (k_config_prefix K) \<and> menu_tree K ts \<and>
      (\<forall>x \<in> set (nodes_of ts). node_ok K x \<and> printable_node K \<rho> x) \<and>
      set (syms_of K (nodes_of ts)) = set (k_unique_defined_syms K) \<and> restorable K u \<rho>)"

definition comment_text :: "kconfig \<Rightarrow> string \<Rightarrow> bool" where
  "comment_text K h = (\<forall>l \<in> set (lines_of h). is_line l \<and> parse_line K l = None)"

lemma write_load:
  assumes r: "ready K rk" and rd: "reading K rk (usr d) n" and k: "length (all_items K) < n'"
    and g: "good K d" "good K d0" and w: "writable K (usr d) (vals K rk d) ts" and h: "comment_text K (k_config_header K)"
    and m: "2 * length (nodes_of ts) + 2 < m"
  shows "\<exists>out d1 d2. config_contents K m (accs K n) None d = Inr (out, d1) \<and>
    load_config K n' (lines_of out) True d0 = Inr ((), d2) \<and> good K d2 \<and> vals K rk d2 = vals K rk d"
proof -
  let ?\<rho> = "vals K rk d" and ?ss = "ordered_unique_aux [] (syms_of K (nodes_of ts))"
  let ?ls = "config_lines K (usr d) ?\<rho> (events ts)"
  define out where "out = k_config_header K @ concat ?ls"
  note w' = w [unfolded writable_def]
  have "yields K (usr d) (config_contents K m (accs K n) None) out"
    using yields_config_contents [OF rd _ _ m, of None] w' by (simp add: out_def)
  from yieldsE [OF this g(1) refl] obtain d1 where 1: "config_contents K m (accs K n) None d = Inr (out, d1)" by blast
  have ls: "\<forall>l \<in> set ?ls. is_line l" "List.map_filter (parse_line K) ?ls = written K ?\<rho> ?ss"
    using config_lines_parse_gen [of K "events ts" ?\<rho> "[]" "usr d" "[]" False] config_lines_parse [of K ts ?\<rho> "usr d"] w'
      events_Visit events_Leave by (fastforce simp: config_lines_def)+
  have hl: "lines_of out = lines_of (k_config_header K) @ ?ls"
  proof -
    have "lines_of (concat (lines_of (k_config_header K) @ ?ls)) = lines_of (k_config_header K) @ ?ls"
      using h ls(1) by (intro lines_of_concat) (auto simp: comment_text_def)
    then show ?thesis by (simp add: out_def concat_lines_of)
  qed
  have "List.map_filter (parse_line K) (lines_of (k_config_header K)) = []"
    using h by (auto simp: comment_text_def List.map_filter_def)
  then have fu: "file_users K (lines_of out) = fold (assign_pair K) (written K ?\<rho> ?ss) no_users"
    by (simp add: file_users_pairs hl map_filter_simps ls(2))
  obtain d2 where 2: "load_config K n' (lines_of out) True d0 = Inr ((), d2)" "good K d2"
    "usr d2 = replace_users K (file_users K (lines_of out)) (usr d0)"
    using load_replaces [OF r k g(2)] by blast
  have rk: "ranked K rk" and t: "tree_ok K" using r by (simp_all add: ready_def sound_kconfig_def)
  have wu: "wf_users K (usr d)" "wf_users K (usr d2)" using g(1) 2(2) by (simp_all add: good_def)
  have v: "is_valuation K (usr d) ?\<rho>" by (rule solution_is_valuation [OF rk wu(1)])
  have rs: "restorable K (usr d) ?\<rho>" and ss: "set ?ss = set (k_unique_defined_syms K)"
    using w' by (simp_all add: set_ordered_unique_aux)
  have "is_valuation K (usr d2) ?\<rho>"
    by (rule written_restores [OF t v wu rs distinct_ordered_unique_aux ss fu 2(3)])
  then have "vals K rk d2 = ?\<rho>"
    using valuation_unique [OF rk wu(2)] solution_is_valuation [OF rk wu(2)] by blast
  with 1 2 show ?thesis by blast
qed

end
