(* ===== verification/Files.thy ===== *)
theory Files
  imports Roundtrip
begin

text \<open>
  The methods of \<open>Kconfig\<close> that read and write files (\<open>write_config\<close>, \<open>write_autoconf\<close>,
  \<open>write_min_config\<close>, \<open>load_config\<close>, \<open>sync_deps\<close> and their helpers, and the function
  \<open>load_allconfig\<close> in \<^verbatim>\<open>src/scripts/kconfig/kconfiglib.py\<close>), on a file system that is a map from
  paths to texts. Decoding errors and reading errors other than a missing file are outside the
  model. \<open>sync_deps_run\<close> says which files are written, \<open>sync_deps_twice\<close> and
  \<open>write_config_twice\<close> that nothing is written when nothing has changed.
\<close>

section \<open>The world\<close>

text \<open>
  What a tool works on: the \<open>Kconfig\<close> object, the environment variables, the files with their
  text, the directories, the symbolic links, the paths that cannot be written to (writing them
  is an \<open>OSError\<close>), and \<open>Kconfig.srctree\<close>. \<open>w_touched\<close> records the files that are written, in
  order; it stands for their modification times.
\<close>

record world =
  w_dyn :: dyn
  w_env :: "string \<Rightarrow> string option"
  w_files :: "string \<Rightarrow> string option"
  w_dirs :: "string \<Rightarrow> bool"
  w_links :: "string \<Rightarrow> bool"
  w_denied :: "string \<Rightarrow> bool"
  w_srctree :: string
  w_touched :: "string list"

type_synonym 'a io = "(world, 'a) eff"

text \<open>A computation on the \<open>Kconfig\<close> object alone.\<close>

definition lift :: "'a ev \<Rightarrow> 'a io" where
  "lift m = (\<lambda>w. case m (w_dyn w) of Inl e \<Rightarrow> Inl e | Inr (x, d) \<Rightarrow> Inr (x, w\<lparr>w_dyn := d\<rparr>))"

lemma lift_InrI: "m (w_dyn w) = Inr (x, d) \<Longrightarrow> lift m w = Inr (x, w\<lparr>w_dyn := d\<rparr>)"
  by (simp add: lift_def)

text \<open>Python's text files: \<^verbatim>\<open>\r\n\<close> and \<^verbatim>\<open>\r\<close> are read as \<^verbatim>\<open>\n\<close>.\<close>

fun newlines :: "string \<Rightarrow> string" where
  "newlines [] = []"
| "newlines (c # s) =
     (if c = CHR 0x0D then NL # (case s of [] \<Rightarrow> [] | d # r \<Rightarrow> if d = NL then newlines r else newlines s)
      else c # newlines s)"

lemma newlines_id: "CHR 0x0D \<notin> set s \<Longrightarrow> newlines s = s"
  by (induction s rule: newlines.induct) auto

definition read_file :: "string \<Rightarrow> string option io" where
  "read_file path = gets (\<lambda>w. map_option newlines (w_files w path))"

definition put_file :: "string \<Rightarrow> string \<Rightarrow> unit io" where
  "put_file path contents =
     bind (gets (\<lambda>w. w_denied w path)) (\<lambda>denied.
     if denied then raise (OSError path)
     else modify (\<lambda>w. w\<lparr>w_files := (w_files w)(path := Some contents), w_touched := w_touched w @ [path]\<rparr>))"

text \<open>\<open>str.lower\<close>\<close>

definition lower_char :: "char \<Rightarrow> char" where
  "lower_char c = (let n = (of_char c :: nat) in if 65 \<le> n \<and> n \<le> 90 \<or> 192 \<le> n \<and> n \<le> 222 \<and> n \<noteq> 215 then char_of (n + 32) else c)"

text \<open>The directories on the way to \<open>p\<close>.\<close>

definition parents :: "string \<Rightarrow> string list" where
  "parents p = [take i p. i \<leftarrow> [1..<Suc (length p)], i = length p \<or> p ! i = CHR ''/'']"

definition exists_path :: "world \<Rightarrow> string \<Rightarrow> bool" where
  "exists_path w p = (w_dirs w p \<or> w_files w p \<noteq> None)"

section \<open>Writing files\<close>

text \<open>\<open>Kconfig._contents_eq\<close>: reads one character more than expected.\<close>

definition contents_eq :: "string \<Rightarrow> string \<Rightarrow> bool io" where
  "contents_eq path contents =
     bind (read_file path) (\<lambda>t. ret (case t of None \<Rightarrow> False | Some x \<Rightarrow> take (length contents + 1) x = contents))"

text \<open>\<open>Kconfig._write_if_changed\<close>\<close>

definition write_if_changed :: "string \<Rightarrow> string \<Rightarrow> bool io" where
  "write_if_changed path contents =
     bind (contents_eq path contents) (\<lambda>same.
     if same then ret False else bind (put_file path contents) (\<lambda>_. ret True))"

text \<open>\<open>_save_old\<close>: a link is copied, a file is renamed; errors are ignored.\<close>

definition save_old :: "string \<Rightarrow> unit io" where
  "save_old path =
     modify (\<lambda>w. case w_files w path of
         None \<Rightarrow> w
       | Some t \<Rightarrow>
           if w_denied w (path @ ''.old'') then w
           else if w_links w path then w\<lparr>w_files := (w_files w)(path @ ''.old'' := Some t), w_touched := w_touched w @ [path @ ''.old'']\<rparr>
           else w\<lparr>w_files := (w_files w)(path @ ''.old'' := Some t, path := None)\<rparr>)"

text \<open>\<open>standard_config_filename\<close>\<close>

definition standard_config_filename :: "string io" where
  "standard_config_filename = gets (\<lambda>w. case w_env w ''KCONFIG_CONFIG'' of None \<Rightarrow> ''.config'' | Some x \<Rightarrow> x)"

text \<open>\<open>Kconfig.write_autoconf\<close>, \<open>Kconfig.write_min_config\<close> and \<open>Kconfig.write_config\<close> return a message.\<close>

definition write_autoconf :: "kconfig \<Rightarrow> acc \<Rightarrow> string option \<Rightarrow> string option \<Rightarrow> string io" where
  "write_autoconf K A filename header =
     bind (gets (\<lambda>w. case filename of
         Some f \<Rightarrow> f
       | None \<Rightarrow> (case w_env w ''KCONFIG_AUTOHEADER'' of None \<Rightarrow> ''include/generated/zephyr/autoconf.h'' | Some x \<Rightarrow> x))) (\<lambda>f.
     bind (lift (autoconf_contents K A header)) (\<lambda>contents.
     bind (write_if_changed f contents) (\<lambda>changed.
       ret (if changed then quoted ''Kconfig header saved to '' f else quoted ''No change to Kconfig header in '' f))))"

definition write_min_config :: "kconfig \<Rightarrow> acc \<Rightarrow> string \<Rightarrow> string option \<Rightarrow> string io" where
  "write_min_config K A f header =
     bind (lift (min_config_contents K A header)) (\<lambda>contents.
     bind (write_if_changed f contents) (\<lambda>changed.
       ret (if changed then quoted ''Minimal configuration saved to '' f
            else quoted ''No change to minimal configuration in '' f)))"

definition write_config :: "kconfig \<Rightarrow> nat \<Rightarrow> acc \<Rightarrow> string option \<Rightarrow> string option \<Rightarrow> bool \<Rightarrow> string io" where
  "write_config K n A filename header save =
     bind (case filename of None \<Rightarrow> standard_config_filename | Some f \<Rightarrow> ret f) (\<lambda>f.
     bind (lift (config_contents K n A header)) (\<lambda>contents.
     bind (contents_eq f contents) (\<lambda>same.
     if same then ret (quoted ''No change to configuration in '' f)
     else
       bind (if save then save_old f else ret ()) (\<lambda>_.
       bind (put_file f contents) (\<lambda>_. ret (quoted ''Configuration saved to '' f))))))"

section \<open>Loading files\<close>

text \<open>\<open>Kconfig._open_config\<close>: the file, or the file below \<open>srctree\<close>.\<close>

definition open_config :: "string \<Rightarrow> (string \<times> string) option io" where
  "open_config f =
     bind (read_file f) (\<lambda>t. case t of
       Some x \<Rightarrow> ret (Some (f, x))
     | None \<Rightarrow>
         bind (gets w_srctree) (\<lambda>src. bind (read_file (py_join src f)) (\<lambda>t. ret (map_option (Pair (py_join src f)) t))))"

text \<open>\<open>Kconfig.defconfig_filename\<close>: the first file that can be opened among the active defaults.\<close>

definition defconfig_filename :: "kconfig \<Rightarrow> acc \<Rightarrow> string option io" where
  "defconfig_filename K A =
     (case k_defconfig_list K of
        None \<Rightarrow> ret None
      | Some item \<Rightarrow>
          bind (case item of NSym s \<Rightarrow> ret (s_defaults (k_sym K s)) | NCho c \<Rightarrow> ret (c_defaults (k_choice K c))
            | _ \<Rightarrow> raise AttributeError) (\<lambda>defaults.
          firstm (\<lambda>(dflt, cond). bind (lift (expr_value K A cond)) (\<lambda>c.
            if c = 0 then ret None
            else bind (lift (case dflt of Item (Sym x) \<Rightarrow> a_str A x | _ \<Rightarrow> raise AttributeError)) (\<lambda>f.
              bind (open_config f) (\<lambda>r. ret (map_option fst r)))))
          defaults))"

text \<open>
  \<open>Kconfig.load_config\<close>: without a file name, the standard file or else the default
  configuration is loaded, if there is one.
\<close>

definition load_named :: "kconfig \<Rightarrow> nat \<Rightarrow> string \<Rightarrow> string \<Rightarrow> bool \<Rightarrow> string io" where
  "load_named K n f msg replace =
     bind (open_config f) (\<lambda>r. case r of
       None \<Rightarrow> raise (OSError f)
     | Some (_, t) \<Rightarrow> bind (lift (load_config K n (lines_of t) replace)) (\<lambda>_.
         ret ((if replace then ''Loaded'' else ''Merged'') @ msg)))"

definition load_config_io :: "kconfig \<Rightarrow> nat \<Rightarrow> acc \<Rightarrow> string option \<Rightarrow> bool \<Rightarrow> string io" where
  "load_config_io K n A filename replace =
     (case filename of
        Some f \<Rightarrow> load_named K n f (quoted '' configuration '' f) replace
      | None \<Rightarrow>
          bind standard_config_filename (\<lambda>f.
          bind (gets (\<lambda>w. exists_path w f \<or> exists_path w (py_join (w_srctree w) f))) (\<lambda>found.
          if found then load_named K n f (quoted '' configuration '' f) replace
          else bind (defconfig_filename K A) (\<lambda>dc. case dc of
              None \<Rightarrow> ret (quoted ''Using default symbol values (no '' f @ '')'')
            | Some g \<Rightarrow> load_named K n g (quoted '' default configuration '' g @ quoted '' (no '' f @ '')'') replace))))"

text \<open>
  \<open>load_allconfig\<close>: the warnings about repeated assignments are off while the file named by
  \<open>KCONFIG_ALLCONFIG\<close>, the given file or else \<open>all.config\<close>, is merged.
\<close>

definition try_load :: "kconfig \<Rightarrow> nat \<Rightarrow> string \<Rightarrow> bool io" where
  "try_load K n f =
     bind (open_config f) (\<lambda>r. case r of
       None \<Rightarrow> ret False
     | Some (_, t) \<Rightarrow> bind (lift (load_config K n (lines_of t) False)) (\<lambda>_. ret True))"

definition load_allconfig :: "kconfig \<Rightarrow> nat \<Rightarrow> string \<Rightarrow> unit io" where
  "load_allconfig K n filename =
     bind (gets (\<lambda>w. w_env w ''KCONFIG_ALLCONFIG'')) (\<lambda>allconfig. case allconfig of
       None \<Rightarrow> ret ()
     | Some a \<Rightarrow>
         bind (gets (\<lambda>w. (warn_assign_override (w_dyn w), warn_assign_redun (w_dyn w)))) (\<lambda>(override, redun).
         bind (lift (modify (\<lambda>d. d\<lparr>warn_assign_override := False, warn_assign_redun := False\<rparr>))) (\<lambda>_.
         bind (if a = [] \<or> a = ''1'' then
                 bind (try_load K n filename) (\<lambda>ok. if ok then ret () else
                 bind (try_load K n ''all.config'') (\<lambda>ok. if ok then ret () else raise (SystemExit filename)))
               else bind (try_load K n a) (\<lambda>ok. if ok then ret () else raise (SystemExit a))) (\<lambda>_.
         lift (modify (\<lambda>d. d\<lparr>warn_assign_override := override, warn_assign_redun := redun\<rparr>))))))"
section \<open>Incremental builds\<close>

text \<open>\<open>_touch_dep_file\<close>: the file of a symbol.\<close>

definition dep_path :: "string \<Rightarrow> string \<Rightarrow> string" where
  "dep_path path name =
     path @ ''/'' @ map (\<lambda>c. if c = CHR ''_'' then CHR ''/'' else c) (map lower_char name) @ ''.h''"

definition make_dirs :: "string \<Rightarrow> unit io" where
  "make_dirs p = modify (\<lambda>w. w\<lparr>w_dirs := (\<lambda>q. w_dirs w q \<or> q \<in> set (parents p))\<rparr>)"

definition touch_dep_file :: "string \<Rightarrow> string \<Rightarrow> unit io" where
  "touch_dep_file path name =
     (let f = dep_path path name in
      bind (gets (\<lambda>w. exists_path w (dirname f))) (\<lambda>e.
      bind (if e then ret () else make_dirs (dirname f)) (\<lambda>_. put_file f [])))"

text \<open>
  \<open>Kconfig._load_old_vals\<close>: the value the old \<^verbatim>\<open>auto.conf\<close> gives each symbol; the files of
  symbols that no longer exist are touched.
\<close>

definition old_val :: "kconfig \<Rightarrow> string \<Rightarrow> (string \<times> string option) option" where
  "old_val K line =
     (case set_match (k_config_prefix K) line of
        None \<Rightarrow> None
      | Some (name, val) \<Rightarrow>
          (case get_sym K name of
             None \<Rightarrow> Some (name, None)
           | Some s \<Rightarrow>
               if otype K s = STRING then map_option (\<lambda>x. (name, Some (unescape x))) (conf_string_match val)
               else Some (name, Some val)))"

definition load_old_line :: "kconfig \<Rightarrow> string \<Rightarrow> string \<Rightarrow> (symref \<Rightarrow> string option) \<Rightarrow> (symref \<Rightarrow> string option) io" where
  "load_old_line K path line old =
     (case old_val K line of
        None \<Rightarrow> ret old
      | Some (name, None) \<Rightarrow> bind (touch_dep_file path name) (\<lambda>_. ret old)
      | Some (name, Some v) \<Rightarrow> ret (old(SymN name := Some v)))"

definition load_old_vals :: "kconfig \<Rightarrow> string \<Rightarrow> (symref \<Rightarrow> string option) io" where
  "load_old_vals K path =
     bind (read_file (py_join path ''auto.conf'')) (\<lambda>t. case t of
       None \<Rightarrow> ret (\<lambda>_. None)
     | Some x \<Rightarrow> foldm (load_old_line K path) (lines_of x) (\<lambda>_. None))"

text \<open>\<open>Kconfig._write_old_vals\<close>\<close>

definition write_old_vals :: "kconfig \<Rightarrow> acc \<Rightarrow> string \<Rightarrow> unit io" where
  "write_old_vals K A path =
     bind (lift (old_vals_contents K A)) (\<lambda>x. bind (write_if_changed (py_join path ''auto.conf'') x) (\<lambda>_. ret ()))"

text \<open>Whether a symbol with the old value \<open>old\<close> has changed.\<close>

definition sym_changed :: "kconfig \<Rightarrow> symref \<Rightarrow> string option \<Rightarrow> string \<Rightarrow> bool \<Rightarrow> bool" where
  "sym_changed K s old val w =
     (if w then \<not> (old = None \<and> bool_tristate (otype K s) \<and> val = ''n'') \<and> Some val \<noteq> old else old \<noteq> None)"

text \<open>\<open>Kconfig.sync_deps\<close>\<close>

definition sync_deps :: "kconfig \<Rightarrow> acc \<Rightarrow> string \<Rightarrow> unit io" where
  "sync_deps K A path =
     bind (gets (\<lambda>w. exists_path w path)) (\<lambda>e.
     bind (if e then ret ()
           else bind (gets (\<lambda>w. dirname path = [] \<or> exists_path w (dirname path))) (\<lambda>ok.
             if ok then modify (\<lambda>w. w\<lparr>w_dirs := (w_dirs w)(path := True)\<rparr>) else raise (OSError path))) (\<lambda>_.
     bind (load_old_vals K path) (\<lambda>old.
     bind (foldm (\<lambda>s _. bind (lift (a_str A s)) (\<lambda>val. bind (lift (gets (\<lambda>d. write_to_conf d s))) (\<lambda>w.
             if sym_changed K s (old s) val w then touch_dep_file path (sym_name s) else ret ())))
           (k_unique_defined_syms K) ()) (\<lambda>_.
     write_old_vals K A path))))"

section \<open>Unchanged files are left alone\<close>

lemma contents_eq_same:
  assumes "w_files w f = Some c" and "CHR 0x0D \<notin> set c"
  shows "contents_eq f c w = Inr (True, w)"
  using assms by (simp add: contents_eq_def read_file_def monad_defs newlines_id)

lemma take_Suc_length_eq: "take (Suc (length c)) x = c \<longleftrightarrow> x = c"
  by (metis length_take lessI min_def not_less_eq_eq order_refl take_all_iff nat_less_le)

lemma contents_eq_iff:
  assumes "CHR 0x0D \<notin> set c"
  shows "contents_eq f c w = Inr (\<exists>t. w_files w f = Some t \<and> newlines t = c, w)"
  by (auto simp: contents_eq_def read_file_def monad_defs take_Suc_length_eq split: option.split)

lemma write_if_changed_run:
  assumes "CHR 0x0D \<notin> set c" and "\<not> w_denied w f"
  shows "write_if_changed f c w =
    (if \<exists>t. w_files w f = Some t \<and> newlines t = c then Inr (False, w)
     else Inr (True, w\<lparr>w_files := (w_files w)(f := Some c), w_touched := w_touched w @ [f]\<rparr>))"
  using assms by (auto simp: write_if_changed_def bind_def contents_eq_iff put_file_def gets_def modify_def ret_def)
section \<open>What \<open>sync_deps\<close> touches\<close>

text \<open>\<open>w'\<close> differs from \<open>w\<close> in that the files \<open>fs\<close> have been written, in this order; the state of the
  \<open>Kconfig\<close> object may differ in its caches.\<close>

definition touches :: "kconfig \<Rightarrow> users \<Rightarrow> world \<Rightarrow> string list \<Rightarrow> world \<Rightarrow> bool" where
  "touches K u w fs w' =
     (good K (w_dyn w') \<and> usr (w_dyn w') = u \<and> w_denied w' = w_denied w \<and> w_touched w' = w_touched w @ fs \<and>
      (\<forall>p. p \<notin> set fs \<longrightarrow> w_files w' p = w_files w p) \<and> (\<forall>p. exists_path w p \<longrightarrow> exists_path w' p))"

lemma touches_refl: "good K (w_dyn w) \<Longrightarrow> usr (w_dyn w) = u \<Longrightarrow> touches K u w [] w"
  by (simp add: touches_def)

lemma touches_trans: "touches K u w fs w1 \<Longrightarrow> touches K u w1 gs w2 \<Longrightarrow> touches K u w (fs @ gs) w2"
  by (auto simp: touches_def)

lemma lift_yields:
  assumes "yields K u m x" and "good K (w_dyn w)" and "usr (w_dyn w) = u"
  shows "\<exists>w'. lift m w = Inr (x, w') \<and> touches K u w [] w' \<and> w_files w' = w_files w"
proof -
  obtain d where "m (w_dyn w) = Inr (x, d)" "usr d = u" "good K d" by (rule yieldsE [OF assms])
  then show ?thesis by (auto simp: lift_def touches_def exists_path_def)
qed

lemma touch_run:
  assumes "good K (w_dyn w)" and "usr (w_dyn w) = u" and "w_denied w = (\<lambda>_. False)"
  shows "\<exists>w'. touch_dep_file path name w = Inr ((), w') \<and> touches K u w [dep_path path name] w'"
  using assms
  by (auto simp: touch_dep_file_def Let_def monad_defs make_dirs_def put_file_def touches_def exists_path_def)

lemma touch_loop:
  assumes "\<And>x w. x \<in> set xs \<Longrightarrow> good K (w_dyn w) \<Longrightarrow> usr (w_dyn w) = u \<Longrightarrow> w_denied w = (\<lambda>_. False) \<Longrightarrow>
      \<exists>w'. f x () w = Inr ((), w') \<and> touches K u w (g x) w'"
    and "good K (w_dyn w)" and "usr (w_dyn w) = u" and "w_denied w = (\<lambda>_. False)"
  shows "\<exists>w'. foldm f xs () w = Inr ((), w') \<and> touches K u w (concat (map g xs)) w'"
  using assms
proof (induction xs arbitrary: w)
  case Nil
  then show ?case by (simp add: ret_def touches_refl)
next
  case (Cons x xs)
  from Cons.prems obtain w1 where 1: "f x () w = Inr ((), w1)" "touches K u w (g x) w1" by fastforce
  then have "good K (w_dyn w1)" "usr (w_dyn w1) = u" "w_denied w1 = (\<lambda>_. False)"
    using Cons.prems(4) by (simp_all add: touches_def)
  from Cons.IH [OF _ this] Cons.prems(1) obtain w2 where 2: "foldm f xs () w1 = Inr ((), w2)"
    "touches K u w1 (concat (map g xs)) w2" by fastforce
  have "foldm f (x # xs) () w = Inr ((), w2)" using 1(1) 2(1) by (simp add: bind_def)
  with touches_trans [OF 1(2) 2(2)] show ?case by auto
qed

text \<open>The old values a file gives, and the names in it that are no symbols any more.\<close>

definition old_values :: "kconfig \<Rightarrow> string list \<Rightarrow> symref \<Rightarrow> string option" where
  "old_values K ls = fold (\<lambda>l old. case old_val K l of Some (x, Some v) \<Rightarrow> old(SymN x := Some v) | _ \<Rightarrow> old) ls (\<lambda>_. None)"

definition gone :: "kconfig \<Rightarrow> string list \<Rightarrow> string list" where
  "gone K ls = List.map_filter (\<lambda>l. case old_val K l of Some (x, None) \<Rightarrow> Some x | _ \<Rightarrow> None) ls"

lemma load_old_lines:
  assumes "good K (w_dyn w)" and "usr (w_dyn w) = u" and "w_denied w = (\<lambda>_. False)"
  shows "\<exists>w'. foldm (load_old_line K path) ls old w =
      Inr (fold (\<lambda>l old. case old_val K l of Some (x, Some v) \<Rightarrow> old(SymN x := Some v) | _ \<Rightarrow> old) ls old, w') \<and>
    touches K u w (map (dep_path path) (gone K ls)) w'"
  using assms
proof (induction ls arbitrary: old w)
  case Nil
  then show ?case by (simp add: ret_def gone_def List.map_filter_def touches_refl)
next
  case (Cons l ls)
  let ?F = "\<lambda>l old. case old_val K l of Some (x, Some v) \<Rightarrow> old(SymN x := Some v) | _ \<Rightarrow> old"
  have "\<exists>w1. load_old_line K path l old w = Inr (?F l old, w1) \<and> touches K u w (map (dep_path path) (gone K [l])) w1"
  proof (cases "\<exists>x. old_val K l = Some (x, None)")
    case True
    then obtain x where x: "old_val K l = Some (x, None)" by blast
    obtain w1 where "touch_dep_file path x w = Inr ((), w1)" "touches K u w [dep_path path x] w1"
      using touch_run [OF Cons.prems] by blast
    with x show ?thesis by (simp add: load_old_line_def gone_def List.map_filter_def bind_def ret_def)
  qed (use Cons.prems in \<open>auto simp: load_old_line_def gone_def List.map_filter_def ret_def touches_refl split: option.split\<close>)
  then obtain w1 where 1: "load_old_line K path l old w = Inr (?F l old, w1)" "touches K u w (map (dep_path path) (gone K [l])) w1"
    by blast
  then have "good K (w_dyn w1)" "usr (w_dyn w1) = u" "w_denied w1 = (\<lambda>_. False)"
    using Cons.prems(3) by (simp_all add: touches_def)
  from Cons.IH [OF this, of "?F l old"] obtain w2 where 2: "foldm (load_old_line K path) ls (?F l old) w1 = Inr (fold ?F ls (?F l old), w2)"
    "touches K u w1 (map (dep_path path) (gone K ls)) w2" by blast
  have "foldm (load_old_line K path) (l # ls) old w = Inr (fold ?F (l # ls) old, w2)"
    using 1(1) 2(1) by (simp add: bind_def)
  moreover have "gone K (l # ls) = gone K [l] @ gone K ls" by (simp add: gone_def List.map_filter_def split: option.split)
  ultimately show ?case using touches_trans [OF 1(2) 2(2)] by auto
qed

text \<open>The lines of the old \<^verbatim>\<open>auto.conf\<close>, if there is one.\<close>

definition old_lines :: "string \<Rightarrow> world \<Rightarrow> string list" where
  "old_lines path w = (case w_files w (py_join path ''auto.conf'') of None \<Rightarrow> [] | Some t \<Rightarrow> lines_of (newlines t))"

definition changed_syms :: "kconfig \<Rightarrow> valuation \<Rightarrow> string list \<Rightarrow> symref list" where
  "changed_syms K \<rho> ls = filter (\<lambda>s. sym_changed K s (old_values K ls s) (rstr \<rho> s) (rwtc K \<rho> s)) (k_unique_defined_syms K)"

lemma dep_path_not_auto_conf: "dep_path path x \<noteq> py_join path ''auto.conf''"
proof
  assume eq: "dep_path path x = py_join path ''auto.conf''"
  have "last (dep_path path x) = CHR ''h''" by (simp add: dep_path_def)
  moreover have "last (py_join path ''auto.conf'') = CHR ''f''" by (simp add: py_join_def)
  ultimately show False unfolding eq by simp
qed

lemma concat_if_single: "concat (map (\<lambda>s. if P s then [f s] else []) xs) = map f (filter P xs)"
  by (induction xs) auto

lemma sync_deps_run:
  assumes r: "reading K rk u n" and t: "typed K" and g: "good K (w_dyn w)" "usr (w_dyn w) = u"
    and nd: "w_denied w = (\<lambda>_. False)" and p: "exists_path w path"
    and cr: "CHR 0x0D \<notin> set (old_vals_text K (solution K u rk))"
  shows "\<exists>w'. sync_deps K (accs K n) path w = Inr ((), w') \<and>
    newlines (the (w_files w' (py_join path ''auto.conf''))) = old_vals_text K (solution K u rk) \<and>
    w_files w' (py_join path ''auto.conf'') \<noteq> None \<and>
    touches K u w (map (dep_path path) (gone K (old_lines path w)) @
      map (dep_path path \<circ> sym_name) (changed_syms K (solution K u rk) (old_lines path w)) @
      (if map_option newlines (w_files w (py_join path ''auto.conf'')) = Some (old_vals_text K (solution K u rk))
       then [] else [py_join path ''auto.conf''])) w'"
proof -
  let ?\<rho> = "solution K u rk" and ?ac = "py_join path ''auto.conf''"
  define ls where "ls = old_lines path w"
  define old where "old = old_values K ls"
  let ?gone = "map (dep_path path) (gone K ls)"
  have "\<exists>w1. load_old_vals K path w = Inr (old, w1) \<and> touches K u w ?gone w1"
  proof (cases "w_files w ?ac")
    case None
    then show ?thesis
      using g by (simp add: load_old_vals_def read_file_def gets_def bind_def ret_def old_def ls_def old_lines_def
          old_values_def gone_def List.map_filter_def touches_refl)
  next
    case (Some c)
    with load_old_lines [OF g nd, of path "lines_of (newlines c)" "\<lambda>_. None"] show ?thesis
      by (simp add: load_old_vals_def read_file_def gets_def bind_def ret_def old_def ls_def old_lines_def old_values_def)
  qed
  then obtain w1 where 1: "load_old_vals K path w = Inr (old, w1)" "touches K u w ?gone w1" by blast
  let ?body = "\<lambda>s _. bind (lift (a_str (accs K n) s)) (\<lambda>val. bind (lift (gets (\<lambda>d. write_to_conf d s))) (\<lambda>w.
             if sym_changed K s (old s) val w then touch_dep_file path (sym_name s) else ret ()))"
  let ?g = "\<lambda>s. if sym_changed K s (old s) (rstr ?\<rho> s) (rwtc K ?\<rho> s) then [dep_path path (sym_name s)] else []"
  have body: "\<exists>w'. ?body s () w = Inr ((), w') \<and> touches K u w (?g s) w'"
    if s: "s \<in> set (k_unique_defined_syms K)" and w: "good K (w_dyn w)" "usr (w_dyn w) = u" "w_denied w = (\<lambda>_. False)" for s w
  proof -
    have ty: "otype K s \<noteq> UNKNOWN" "nmy_tri s = None" using t s by (simp_all add: typed_def)
    obtain d1 where 1: "a_str (accs K n) s (w_dyn w) = Inr (rstr ?\<rho> s, d1)" "usr d1 = u" "good K d1"
      by (rule yieldsE [OF yields_reads(2) [OF r] w(1,2)])
    have wc: "write_to_conf d1 s = rwtc K ?\<rho> s" by (rule write_to_conf_read [OF r ty w(1,2) 1(1)])
    define v where "v = w\<lparr>w_dyn := d1\<rparr>"
    have v: "good K (w_dyn v)" "usr (w_dyn v) = u" "w_denied v = (\<lambda>_. False)" using 1 w(3) by (simp_all add: v_def)
    have wv: "touches K u w [] v" using 1 by (simp add: v_def touches_def exists_path_def)
    have run: "?body s () w = (if sym_changed K s (old s) (rstr ?\<rho> s) (rwtc K ?\<rho> s) then touch_dep_file path (sym_name s) else ret ()) v"
      using 1 wc by (simp add: bind_def lift_def gets_def v_def)
    show ?thesis
    proof (cases "sym_changed K s (old s) (rstr ?\<rho> s) (rwtc K ?\<rho> s)")
      case True
      obtain w' where "touch_dep_file path (sym_name s) v = Inr ((), w')" "touches K u v [dep_path path (sym_name s)] w'"
        using touch_run [OF v] by blast
      with touches_trans [OF wv] True show ?thesis unfolding run by auto
    qed (use wv in \<open>auto simp: run ret_def\<close>)
  qed
  have "good K (w_dyn w1)" "usr (w_dyn w1) = u" "w_denied w1 = (\<lambda>_. False)" using 1(2) nd by (simp_all add: touches_def)
  from touch_loop [of "k_unique_defined_syms K" K u ?body ?g, OF body this] obtain w2 where
    2: "foldm ?body (k_unique_defined_syms K) () w1 = Inr ((), w2)"
      "touches K u w1 (concat (map ?g (k_unique_defined_syms K))) w2" by blast
  have cg: "concat (map ?g (k_unique_defined_syms K)) = map (dep_path path \<circ> sym_name) (changed_syms K ?\<rho> ls)"
    by (simp add: changed_syms_def old_def concat_if_single comp_def)
  note 12 = touches_trans [OF 1(2) 2(2) [unfolded cg]]
  have g2: "good K (w_dyn w2)" "usr (w_dyn w2) = u" using 2(2) by (simp_all add: touches_def)
  obtain d3 where 3: "old_vals_contents K (accs K n) (w_dyn w2) = Inr (old_vals_text K ?\<rho>, d3)" "usr d3 = u" "good K d3"
    by (rule yieldsE [OF yields_old_vals [OF r t] g2])
  define w3 where "w3 = w2\<lparr>w_dyn := d3\<rparr>"
  have w3: "touches K u w2 [] w3" "\<not> w_denied w3 ?ac" "w_files w3 = w_files w2"
    using 3 12 nd by (simp_all add: w3_def touches_def exists_path_def)
  have "?ac \<notin> set (?gone @ map (dep_path path \<circ> sym_name) (changed_syms K ?\<rho> ls))"
    using dep_path_not_auto_conf [of path] by (auto simp: eq_commute [of ?ac])
  then have same: "w_files w3 ?ac = w_files w ?ac"
    using 12 w3(3) unfolding touches_def by metis
  define P where "P = (\<exists>t. w_files w3 ?ac = Some t \<and> newlines t = old_vals_text K ?\<rho>)"
  define w4 where "w4 = (if P then w3
     else w3\<lparr>w_files := (w_files w3)(?ac := Some (old_vals_text K ?\<rho>)), w_touched := w_touched w3 @ [?ac]\<rparr>)"
  have run4: "write_old_vals K (accs K n) path w2 = Inr ((), w4)"
    using write_if_changed_run [OF cr w3(2), folded P_def] lift_InrI [of "old_vals_contents K (accs K n)" w2, OF 3(1)]
    by (simp add: write_old_vals_def bind_def ret_def w3_def [symmetric] w4_def)
  have t4: "touches K u w3 (if map_option newlines (w_files w ?ac) = Some (old_vals_text K ?\<rho>) then [] else [?ac]) w4"
    using 3 same by (auto simp: w4_def P_def touches_def w3_def exists_path_def)
  have "sync_deps K (accs K n) path w = Inr ((), w4)"
    using p 1(1) 2(1) run4 by (simp add: sync_deps_def bind_def gets_def ret_def)
  moreover have "w_files w4 ?ac \<noteq> None \<and> newlines (the (w_files w4 ?ac)) = old_vals_text K ?\<rho>"
    using newlines_id [OF cr] by (auto simp: w4_def P_def)
  ultimately show ?thesis
    using touches_trans [OF touches_trans [OF 12 w3(1)] t4] by (auto simp: ls_def)
qed
section \<open>A second run touches nothing\<close>

lemma old_val_config_line:
  assumes p: "good_prefix (k_config_prefix K)" and s: "named K s" and t: "otype K s \<noteq> UNKNOWN"
    and v: "clean_value (otype K s) v" and n: "\<not> (bool_tristate (otype K s) \<and> v = ''n'')"
  shows "old_val K (config_line K s v) = Some (sym_name s, Some v)"
proof -
  have x: "list_all name_char (sym_name s)" "sym_name s \<noteq> []" and gs: "get_sym K (sym_name s) = Some s"
    using s by (auto simp: named_def get_sym_def)
  have m: "set_match (k_config_prefix K) (k_config_prefix K @ sym_name s @ CHR ''='' # w @ [NL]) = Some (sym_name s, w)"
    if "NL \<notin> set w" for w
  proof -
    have "takeWhile (\<lambda>c. c \<noteq> NL) (w @ [NL]) = w" using that by (auto simp: takeWhile_append takeWhile_eq_all_conv)
    with x show ?thesis by (simp add: set_match_def Let_def takeWhile_name)
  qed
  show ?thesis
  proof (cases "otype K s = STRING")
    case True
    have "NL \<notin> set (QUOT # escape v @ [QUOT])" using v True escape_no_newline by (auto simp: clean_value_def)
    from m [OF this] True gs conf_string_match_escape [of v "[]"] show ?thesis
      by (simp add: old_val_def config_line_def unescape_escape)
  next
    case False
    then have "NL \<notin> set v" using v by (auto simp: clean_value_def split: if_splits)
    from m [OF this] False gs n t show ?thesis
      by (cases "otype K s") (auto simp: old_val_def config_line_def)
  qed
qed

text \<open>The lines of \<^verbatim>\<open>auto.conf\<close> and the old values they give.\<close>

definition auto_syms :: "kconfig \<Rightarrow> valuation \<Rightarrow> symref list" where
  "auto_syms K \<rho> = filter (\<lambda>s. rwtc K \<rho> s \<and> \<not> (bool_tristate (otype K s) \<and> rtri \<rho> s = 0)) (k_unique_defined_syms K)"

lemma old_vals_text_lines: "old_vals_text K \<rho> = concat (map (\<lambda>s. config_line K s (rstr \<rho> s)) (auto_syms K \<rho>))"
proof -
  have "concat (map (\<lambda>s. if bool_tristate (otype K s) \<and> rtri \<rho> s = 0 then [] else sym_line K \<rho> s) xs) =
      concat (map (\<lambda>s. config_line K s (rstr \<rho> s)) (filter (\<lambda>s. rwtc K \<rho> s \<and> \<not> (bool_tristate (otype K s) \<and> rtri \<rho> s = 0)) xs))" for xs
    by (induction xs) (auto simp: sym_line_def)
  then show ?thesis by (simp add: old_vals_text_def auto_syms_def)
qed

lemma fold_old_values:
  assumes "\<And>s. s \<in> set ss \<Longrightarrow> old_val K (l s) = Some (sym_name s, Some (v s))" and "\<And>s. s \<in> set ss \<Longrightarrow> SymN (sym_name s) = s"
  shows "fold (\<lambda>l old. case old_val K l of Some (x, Some v) \<Rightarrow> old(SymN x := Some v) | _ \<Rightarrow> old) (map l ss) old =
    (\<lambda>s. if s \<in> set ss then Some (v s) else old s)"
  using assms by (induction ss arbitrary: old) (auto simp: fun_eq_iff)

lemma unchanged_after_sync:
  assumes p: "good_prefix (k_config_prefix K)" and v: "is_valuation K u \<rho>"
    and ok: "\<And>s. s \<in> set (k_unique_defined_syms K) \<Longrightarrow> printable_sym K \<rho> s \<and> nmy_tri s = None"
    and w: "map_option newlines (w_files w (py_join path ''auto.conf'')) = Some (old_vals_text K \<rho>)"
  shows "gone K (old_lines path w) = [] \<and> changed_syms K \<rho> (old_lines path w) = []"
proof -
  let ?l = "\<lambda>s. config_line K s (rstr \<rho> s)" and ?ss = "auto_syms K \<rho>"
  have s: "s \<in> set (k_unique_defined_syms K) \<and> named K s \<and> otype K s \<noteq> UNKNOWN \<and> clean_value (otype K s) (rstr \<rho> s)"
    if "s \<in> set ?ss" for s
    using that ok by (auto simp: auto_syms_def printable_sym_def)
  have tri: "rstr \<rho> s = ''n'' \<longleftrightarrow> rtri \<rho> s = 0" if "s \<in> set (k_unique_defined_syms K)" "bool_tristate (otype K s)" for s
    using tri_value_given(1) [OF v that(2)] ok [OF that(1)] by (auto simp: tri_to_str_def)
  have ov: "old_val K (?l s) = Some (sym_name s, Some (rstr \<rho> s))" if "s \<in> set ?ss" for s
    using s [OF that] tri [of s] that by (intro old_val_config_line [OF p]) (auto simp: auto_syms_def)
  have nm: "SymN (sym_name s) = s" if "s \<in> set ?ss" for s using s [OF that] by (auto simp: named_def)
  have lines: "old_lines path w = map ?l ?ss"
  proof -
    obtain t where t: "w_files w (py_join path ''auto.conf'') = Some t" "newlines t = old_vals_text K \<rho>" using w by auto
    have "lines_of (concat (map ?l ?ss)) = map ?l ?ss"
      using parse_config_line [OF p] s by (intro lines_of_concat) auto
    with t show ?thesis by (simp add: old_lines_def old_vals_text_lines)
  qed
  have old: "old_values K (old_lines path w) = (\<lambda>s. if s \<in> set ?ss then Some (rstr \<rho> s) else None)"
    unfolding lines old_values_def by (rule fold_old_values [OF ov nm])
  have "gone K (map ?l ss) = []" if "set ss \<subseteq> set ?ss" for ss
    using that by (induction ss) (auto simp: gone_def List.map_filter_def ov)
  moreover have "\<not> sym_changed K s (old_values K (old_lines path w) s) (rstr \<rho> s) (rwtc K \<rho> s)"
    if "s \<in> set (k_unique_defined_syms K)" for s
    using that tri [OF that] unfolding old by (auto simp: sym_changed_def auto_syms_def)
  ultimately show ?thesis by (simp add: lines changed_syms_def filter_empty_conv)
qed

text \<open>Running \<open>sync_deps\<close> a second time, with the same values, touches no file.\<close>

lemma sync_deps_twice:
  assumes r: "reading K rk u n" and p: "good_prefix (k_config_prefix K)"
    and ok: "\<And>s. s \<in> set (k_unique_defined_syms K) \<Longrightarrow> printable_sym K (solution K u rk) s \<and> nmy_tri s = None"
    and g: "good K (w_dyn w)" "usr (w_dyn w) = u" and nd: "w_denied w = (\<lambda>_. False)" and e: "exists_path w path"
    and cr: "CHR 0x0D \<notin> set (old_vals_text K (solution K u rk))"
  shows "\<exists>w1 w2. sync_deps K (accs K n) path w = Inr ((), w1) \<and> sync_deps K (accs K n) path w1 = Inr ((), w2) \<and>
    w_touched w2 = w_touched w1"
proof -
  let ?\<rho> = "solution K u rk"
  have t: "typed K" using ok by (simp add: typed_def printable_sym_def)
  obtain w1 where 1: "sync_deps K (accs K n) path w = Inr ((), w1)"
    "map_option newlines (w_files w1 (py_join path ''auto.conf'')) = Some (old_vals_text K ?\<rho>)"
    "good K (w_dyn w1)" "usr (w_dyn w1) = u" "w_denied w1 = (\<lambda>_. False)" "exists_path w1 path"
  proof -
    from sync_deps_run [OF r t g nd e cr] obtain w1 fs where *: "sync_deps K (accs K n) path w = Inr ((), w1)"
      "w_files w1 (py_join path ''auto.conf'') \<noteq> None"
      "newlines (the (w_files w1 (py_join path ''auto.conf''))) = old_vals_text K ?\<rho>" "touches K u w fs w1" by blast
    from *(2,3) have "map_option newlines (w_files w1 (py_join path ''auto.conf'')) = Some (old_vals_text K ?\<rho>)" by auto
    with *(1,4) nd e show thesis by (intro that [of w1]) (simp_all add: touches_def)
  qed
  obtain w2 where 2: "sync_deps K (accs K n) path w1 = Inr ((), w2)"
    "w_touched w2 = w_touched w1 @ (map (dep_path path) (gone K (old_lines path w1)) @
      map (dep_path path \<circ> sym_name) (changed_syms K ?\<rho> (old_lines path w1)))"
    using sync_deps_run [OF r t 1(3-6) cr] unfolding touches_def if_P [OF 1(2)] append_Nil2 by blast
  have "w_touched w2 = w_touched w1"
    using 2(2) unchanged_after_sync [OF p reading_valuation [OF r] ok 1(2)] by simp
  with 1(1) 2(1) show ?thesis by blast
qed

text \<open>Writing the configuration a second time, with the same values, touches no file.\<close>

lemma write_config_twice:
  assumes y: "yields K u (config_contents K m A h) c" and cr: "CHR 0x0D \<notin> set c"
    and g: "good K (w_dyn w)" "usr (w_dyn w) = u" and nd: "\<not> w_denied w f"
  shows "\<exists>msg w1 w2. write_config K m A (Some f) h b w = Inr (msg, w1) \<and> w_files w1 f \<noteq> None \<and>
    write_config K m A (Some f) h b w1 = Inr (quoted ''No change to configuration in '' f, w2) \<and>
    w_touched w2 = w_touched w1 \<and> w_files w2 = w_files w1"
proof -
  obtain w' where 1: "lift (config_contents K m A h) w = Inr (c, w')" "touches K u w [] w'" "w_files w' = w_files w"
    using lift_yields [OF y g] by blast
  have nd': "\<not> w_denied w' f" using 1(2) nd by (simp add: touches_def)
  have "\<exists>msg w1. write_config K m A (Some f) h b w = Inr (msg, w1) \<and> map_option newlines (w_files w1 f) = Some c \<and>
      good K (w_dyn w1) \<and> usr (w_dyn w1) = u"
  proof (cases "\<exists>t. w_files w' f = Some t \<and> newlines t = c")
    case True
    then show ?thesis
      using 1(1,2) contents_eq_iff [OF cr, of f w'] by (auto simp: write_config_def bind_def ret_def touches_def)
  next
    case False
    then have "contents_eq f c w' = Inr (False, w')" using contents_eq_iff [OF cr, of f w'] by simp
    then show ?thesis
      using 1(1,2) nd' newlines_id [OF cr]
      by (auto simp: write_config_def bind_def ret_def touches_def save_old_def modify_def put_file_def gets_def split: option.split)
  qed
  then obtain msg w1 where w1: "write_config K m A (Some f) h b w = Inr (msg, w1)" "map_option newlines (w_files w1 f) = Some c"
    "good K (w_dyn w1)" "usr (w_dyn w1) = u" by blast
  obtain w2 where 2: "lift (config_contents K m A h) w1 = Inr (c, w2)" "touches K u w1 [] w2" "w_files w2 = w_files w1"
    using lift_yields [OF y w1(3,4)] by blast
  have "contents_eq f c w2 = Inr (True, w2)" using contents_eq_iff [OF cr, of f w2] w1(2) 2(3) by auto
  with 2 have "write_config K m A (Some f) h b w1 = Inr (quoted ''No change to configuration in '' f, w2)"
    by (simp add: write_config_def bind_def ret_def)
  with w1 2 show ?thesis by (auto simp: touches_def)
qed

end
