(* ===== verification/ExampleFiles.thy ===== *)
theory ExampleFiles
  imports Files
begin

text \<open>
  The example configuration with a menu tree and a state in which assignments have been made:
  it satisfies the hypotheses of the theorems about files.
\<close>

section \<open>A right state with given assignments\<close>

text \<open>The state after parsing, in which the user has made the assignments \<open>u\<close>.\<close>

definition start :: "users \<Rightarrow> dyn" where
  "start u = init_dyn\<lparr>user_value := u_sym u, ch_user_value := u_cho u, ch_user_selection := u_sel u\<rparr>"

lemma usr_start [simp]: "usr (start u) = u"
  by (simp add: start_def usr_def)

lemma good_start: "wf_users K u \<Longrightarrow> good K (start u)"
proof -
  assume wu: "wf_users K u"
  have "coh (cached K) (must K) (spec K u) \<rho> (start u)" if "is_valuation K u \<rho>" for \<rho>
    unfolding coh_def
  proof (intro allI impI)
    fix k v assume "cached K (start u) k = Some v"
    then obtain s n where "k = KTri s" "nmy_tri s = Some n" "v = VTri n False"
      using cached_init_dyn [of K k v] by (auto simp: start_def)
    then show "v = \<rho> k \<and> (\<forall>k' \<in> set (must K k). cached K (start u) k' \<noteq> None) \<and>
        (\<forall>\<sigma>. agree (cached K) \<rho> \<sigma> (start u) \<longrightarrow> spec K u \<sigma> k = spec K u \<rho> k)"
      using is_valuationD [OF that, of k] by simp
  qed
  moreover have "consts_ok (start u)" using consts_ok_init_dyn by (simp add: start_def)
  ultimately show ?thesis using wu by (simp add: good_def)
qed

section \<open>The tree of the example\<close>

definition ex_tree :: "ntree list" where
  "ex_tree = map (\<lambda>i. NTree i []) [1..<8] @ [NTree 8 [NTree 9 [], NTree 10 []]]"

lemma ex_tree_simp: "ex_tree = [NTree 1 [], NTree 2 [], NTree 3 [], NTree 4 [], NTree 5 [], NTree 6 [], NTree 7 [],
    NTree 8 [NTree 9 [], NTree 10 []]]"
  by (simp add: ex_tree_def upt_rec)

lemma ex_kconfig_more [simp]: "k_node ex_kconfig = ex_node" "k_top_node ex_kconfig = 0" "k_config_prefix ex_kconfig = ''CONFIG_''"
  "k_config_header ex_kconfig = []" "k_header_header ex_kconfig = []"
  "k_syms ex_kconfig = map sym_name [nMODULES, nA, nT, nS, nM, nG, nN, nX, nY]"
  by (simp_all add: ex_kconfig_def link_def store_dependents_def ex_base_def)

lemma ex_menu_tree: "menu_tree ex_kconfig ex_tree"
  by (simp add: menu_tree_def ex_tree_simp ex_node_def new_node_def)

lemma ex_nodes: "nodes_of ex_tree = [1, 2, 3, 4, 5, 6, 7, 8, 9, 10]"
  by (simp add: ex_tree_simp)

lemma ex_items: "x \<in> set (nodes_of ex_tree) \<Longrightarrow> n_item (ex_node x) = NCho 0 \<or>
    (\<exists>s \<in> {nMODULES, nA, nT, nS, nM, nG, nN, nX, nY}. n_item (ex_node x) = NSym s)"
  by (auto simp: ex_nodes ex_node_def new_node_def)

lemma ex_syms_of: "syms_of ex_kconfig (nodes_of ex_tree) = [nMODULES, nA, nT, nS, nM, nG, nN, nX, nY]"
  by (simp add: syms_of_def ex_nodes ex_node_def new_node_def)

lemma ex_reading: "reading ex_kconfig ex_rank ex_users 42"
proof -
  have "Suc (ex_rank k) < 42" for k using ex_rank_bound [of k] by simp
  then show ?thesis using ex_ready ex_wf_users by (simp add: reading_def ready_def)
qed

lemma ex_typed: "typed ex_kconfig"
  by (simp add: typed_def)

lemma ex_named: "s \<in> {nMODULES, nA, nT, nS, nM, nG, nN, nX, nY} \<Longrightarrow> named ex_kconfig s"
proof -
  assume s: "s \<in> {nMODULES, nA, nT, nS, nM, nG, nN, nX, nY}"
  then have "s_nodes (ex_sym s) \<noteq> []" "sym_name s \<in> set (k_syms ex_kconfig)" by auto
  moreover have "s = SymN (sym_name s) \<and> sym_name s \<noteq> [] \<and> list_all name_char (sym_name s)"
    using s by (elim insertE emptyE) (simp_all add: ex_names, simp_all add: name_char_def)
  ultimately show ?thesis unfolding named_def by (metis ex_kconfig_simps(2))
qed

lemma ex_N: "rstr ex_vals nN = ''10''"
proof -
  have n: "nmy_tri (SymN x) = None" for x by (simp add: nmy_tri_def)
  have d: "rstr ex_vals (SymN ''50'') = ''50''"
    using is_valuationD [OF ex_valuation, of "KStr (SymN ''50'')"] by (simp add: rstr_def n ex_names)
  have v: "rvis ex_kconfig ex_vals nN = 2" by (simp add: ex_vis [of nN] ex_spec)
  have num: "num_or_0 10 ''77'' = 77" "num_or_0 10 ''50'' = 50" "num2str INT_T 10 = ''10''" by code_simp+
  have "str_default_spec ex_kconfig ex_users ex_vals nN = Some ''50''" using d by (simp add: str_default_spec_def)
  then have "num_spec ex_kconfig ex_users ex_vals nN 2 = (''10'', True)"
    by (simp add: num_spec_def in_range_def ex_range num num_defaults_spec_def num_pick_def clamp_def)
  then show ?thesis
    using is_valuationD [OF ex_valuation, of "KStr nN"] v by (simp add: rstr_def str_spec_def)
qed

lemma ex_printable: "s \<in> {nMODULES, nA, nT, nS, nM, nG, nN, nX, nY} \<Longrightarrow> printable_sym ex_kconfig ex_vals s"
proof -
  assume s: "s \<in> {nMODULES, nA, nT, nS, nM, nG, nN, nX, nY}"
  have t: "otype ex_kconfig s \<noteq> UNKNOWN" using s by auto
  have "clean_value (otype ex_kconfig s) (rstr ex_vals s)"
  proof (cases "s = nN")
    case True
    then show ?thesis by (simp add: ex_N clean_value_def) (simp add: py_isspace_def)
  next
    case False
    then have "bool_tristate (otype ex_kconfig s)" "nmy_tri s = None" using s by auto
    then show ?thesis by (rule tri_value_given(4) [OF ex_valuation])
  qed
  with ex_named [OF s] t show ?thesis by (simp add: printable_sym_def)
qed

lemma ex_restorable: "restorable ex_kconfig ex_users ex_vals"
proof -
  have "rvis ex_kconfig ex_vals nMODULES \<noteq> 1" "rvis ex_kconfig ex_vals nS \<noteq> 1" "rvis ex_kconfig ex_vals nN \<noteq> 1"
    by (simp_all add: rvis_def ex_vis [of nN] ex_spec) (simp add: is_valuationD [OF ex_valuation, of "KVis nN"] ex_spec)
  then show ?thesis by (simp add: restorable_def)
qed

lemma ex_prefix: "good_prefix ''CONFIG_''"
  by (simp add: good_prefix_def) (simp add: name_char_def)

lemma ex_writable: "writable ex_kconfig ex_users ex_vals ex_tree"
proof -
  have "node_ok ex_kconfig x \<and> printable_node ex_kconfig ex_vals x" if x: "x \<in> set (nodes_of ex_tree)" for x
  proof -
    consider "n_item (ex_node x) = NCho 0"
      | s where "s \<in> {nMODULES, nA, nT, nS, nM, nG, nN, nX, nY}" "n_item (ex_node x) = NSym s"
      using ex_items [OF x] by blast
    then show ?thesis
    proof cases
      case (2 s)
      have "printable_sym ex_kconfig ex_vals s" by (rule ex_printable [OF 2(1)])
      moreover have "nmy_tri s = None" "s_orig_type (ex_sym s) \<noteq> UNKNOWN" using 2(1) by auto
      ultimately show ?thesis using 2(2) by (simp add: node_ok_def printable_node_def)
    qed (simp add: node_ok_def printable_node_def)
  qed
  then show ?thesis
    using ex_prefix ex_menu_tree ex_restorable by (simp add: writable_def ex_syms_of)
qed

section \<open>A world\<close>

text \<open>A world with the example's configuration and no files.\<close>

definition ex_world :: world where
  "ex_world = \<lparr>w_dyn = start ex_users, w_env = Map.empty, w_files = Map.empty, w_dirs = (\<lambda>p. p = ''out''), w_links = (\<lambda>_. False),
     w_denied = (\<lambda>_. False), w_srctree = [], w_touched = []\<rparr>"

lemma ex_world_ok: "good ex_kconfig (w_dyn ex_world)" "usr (w_dyn ex_world) = ex_users" "w_denied ex_world = (\<lambda>_. False)"
  "exists_path ex_world ''out''"
  using good_start [OF ex_wf_users] by (simp_all add: ex_world_def exists_path_def)

lemma ex_line_no_cr:
  assumes s: "s \<in> {nMODULES, nA, nT, nS, nM, nG, nN, nX, nY}"
  shows "CHR 0x0D \<notin> set (config_line ex_kconfig s (rstr ex_vals s))"
proof (cases "s = nN")
  case True
  then show ?thesis by (simp add: config_line_def ex_N) (simp add: nN_def)
next
  case False
  then have "rstr ex_vals s = tri_to_str (rtri ex_vals s)" "bool_tristate (otype ex_kconfig s)"
    using s tri_value_given(1) [OF ex_valuation, of s] by auto
  moreover have "CHR 0x0D \<notin> set (sym_name s)" using s by (auto simp: ex_names)
  ultimately show ?thesis by (simp add: config_line_def tri_to_str_def)
qed

lemma ex_no_cr: "CHR 0x0D \<notin> set (old_vals_text ex_kconfig (solution ex_kconfig ex_users ex_rank))"
  using ex_line_no_cr by (auto simp: old_vals_text_lines auto_syms_def ex_vals_def [symmetric])

lemma config_lines_syms:
  assumes "\<And>x. Visit x \<in> set es \<or> Leave x \<in> set es \<Longrightarrow> n_item (k_node K x) \<noteq> NMenu \<and> n_item (k_node K x) \<noteq> NComment"
  shows "set (snd (snd (fold (event_lines K u \<rho>) es st))) \<subseteq>
    set (snd (snd st)) \<union> {[NL]} \<union> {config_line K s (rstr \<rho> s) | s. s \<in> set (visit_syms K es)}"
  using assms
proof (induction es arbitrary: st)
  case (Cons e es)
  obtain seen after ls where st: "st = (seen, after, ls)" by (cases st)
  have "set (snd (snd (event_lines K u \<rho> e st))) \<subseteq>
      set ls \<union> {[NL]} \<union> {config_line K s (rstr \<rho> s) | s. s \<in> set (visit_syms K [e])}"
    using Cons.prems by (cases e) (auto simp: st shown_def sym_line_def split: nitem.splits)
  moreover have "set (visit_syms K (e # es)) = set (visit_syms K [e]) \<union> set (visit_syms K es)"
    by (cases e) (auto split: nitem.splits)
  moreover have "\<And>x. Visit x \<in> set es \<or> Leave x \<in> set es \<Longrightarrow> n_item (k_node K x) \<noteq> NMenu \<and> n_item (k_node K x) \<noteq> NComment"
    using Cons.prems by auto
  note Cons.IH [OF this, of "event_lines K u \<rho> e st"]
  ultimately show ?case by (fastforce simp: st)
qed auto

lemma ex_no_cr_config:
  "CHR 0x0D \<notin> set (concat (config_lines ex_kconfig ex_users (solution ex_kconfig ex_users ex_rank) (events ex_tree)))"
proof -
  have items: "n_item (k_node ex_kconfig x) \<noteq> NMenu \<and> n_item (k_node ex_kconfig x) \<noteq> NComment"
    if "Visit x \<in> set (events ex_tree) \<or> Leave x \<in> set (events ex_tree)" for x
  proof -
    have "x \<in> set (nodes_of ex_tree)" using that events_Visit events_Leave by blast
    from ex_items [OF this] show ?thesis by (metis ex_kconfig_more(1) nitem.distinct)
  qed
  have vs: "visit_syms ex_kconfig (events ex_tree) = [nMODULES, nA, nT, nS, nM, nG, nN, nX, nY]"
    unfolding visit_syms_def visits_events by (rule ex_syms_of)
  have "CHR 0x0D \<notin> set l" if "l \<in> set (config_lines ex_kconfig ex_users ex_vals (events ex_tree))" for l
  proof -
    from subsetD [OF config_lines_syms [OF items, where u = ex_users and \<rho> = ex_vals and st = "([], False, [])"], of "events ex_tree" l] that
    consider "l = [NL]" | s where "s \<in> set (visit_syms ex_kconfig (events ex_tree))" "l = config_line ex_kconfig s (rstr ex_vals s)"
      unfolding config_lines_def by auto
    then show ?thesis
    proof cases
      case (2 s)
      have "s \<in> {nMODULES, nA, nT, nS, nM, nG, nN, nX, nY}" using 2(1) unfolding vs by simp
      from ex_line_no_cr [OF this] 2(2) show ?thesis by simp
    qed simp
  qed
  then show ?thesis by (simp add: ex_vals_def [symmetric])
qed

end
