(* ===== verification/Tokens.thy ===== *)
theory Tokens
  imports State
begin

text \<open>
  The tokens of Kconfig files and the regular expressions of the tokenizer and the preprocessor
  (\<^verbatim>\<open>src/scripts/kconfig/kconfiglib.py\<close>, \<open>Global constants\<close>). A compiled expression is modelled by
  the function that its matching method computes; positions are indices into the string.
\<close>

section \<open>Tokens\<close>

datatype kw =
    T_ALLNOCONFIG_Y | T_AND | T_BOOL | T_CHOICE | T_CLOSE_PAREN | T_COMMENT | T_CONFIG
  | T_CONFIGDEFAULT | T_DEFAULT | T_DEFCONFIG_LIST | T_DEF_BOOL | T_DEF_HEX | T_DEF_INT
  | T_DEF_STRING | T_DEF_TRISTATE | T_DEPENDS | T_ENDCHOICE | T_ENDIF | T_ENDMENU | T_ENV
  | T_EQUAL | T_GREATER | T_GREATER_EQUAL | T_HELP | T_HEX | T_IF | T_IMPLY | T_INT | T_LESS
  | T_LESS_EQUAL | T_MAINMENU | T_MENU | T_MENUCONFIG | T_MODULES | T_NOT | T_ON | T_OPEN_PAREN
  | T_OPTION | T_OPTIONAL | T_OR | T_ORSOURCE | T_OSOURCE | T_PROMPT | T_RANGE | T_RSOURCE
  | T_SELECT | T_SOURCE | T_STRING | T_TRISTATE | T_UNEQUAL | T_VISIBLE

text \<open>A token is a keyword or operator, a symbol, a string, or the \<open>None\<close> at the end of the list.\<close>

datatype token = TNone | TKw kw | TSym symref | TStr string

text \<open>\<open>_get_keyword\<close>\<close>

definition keyword_table :: "(string \<times> kw) list" where
  "keyword_table =
     [(''---help---'', T_HELP), (''allnoconfig_y'', T_ALLNOCONFIG_Y), (''bool'', T_BOOL),
      (''boolean'', T_BOOL), (''choice'', T_CHOICE), (''comment'', T_COMMENT), (''config'', T_CONFIG),
      (''configdefault'', T_CONFIGDEFAULT), (''def_bool'', T_DEF_BOOL), (''def_hex'', T_DEF_HEX),
      (''def_int'', T_DEF_INT), (''def_string'', T_DEF_STRING), (''def_tristate'', T_DEF_TRISTATE),
      (''default'', T_DEFAULT), (''defconfig_list'', T_DEFCONFIG_LIST), (''depends'', T_DEPENDS),
      (''endchoice'', T_ENDCHOICE), (''endif'', T_ENDIF), (''endmenu'', T_ENDMENU), (''env'', T_ENV),
      (''grsource'', T_ORSOURCE), (''gsource'', T_OSOURCE), (''help'', T_HELP), (''hex'', T_HEX),
      (''if'', T_IF), (''imply'', T_IMPLY), (''int'', T_INT), (''mainmenu'', T_MAINMENU),
      (''menu'', T_MENU), (''menuconfig'', T_MENUCONFIG), (''modules'', T_MODULES), (''on'', T_ON),
      (''option'', T_OPTION), (''optional'', T_OPTIONAL), (''orsource'', T_ORSOURCE),
      (''osource'', T_OSOURCE), (''prompt'', T_PROMPT), (''range'', T_RANGE), (''rsource'', T_RSOURCE),
      (''select'', T_SELECT), (''source'', T_SOURCE), (''string'', T_STRING),
      (''tristate'', T_TRISTATE), (''visible'', T_VISIBLE)]"

definition get_keyword :: "string \<Rightarrow> kw option" where
  "get_keyword = map_of keyword_table"

text \<open>
  Node, expression and type constants are the tokens themselves in the source; here they are
  constructors of other types, and these functions are the identification.
\<close>

definition tok_rel :: "token \<Rightarrow> relop option" where
  "tok_rel t = (case t of TKw k \<Rightarrow>
       (if k = T_EQUAL then Some EQUAL else if k = T_UNEQUAL then Some UNEQUAL
        else if k = T_LESS then Some LESS else if k = T_LESS_EQUAL then Some LESS_EQUAL
        else if k = T_GREATER then Some GREATER else if k = T_GREATER_EQUAL then Some GREATER_EQUAL
        else None)
     | _ \<Rightarrow> None)"

text \<open>\<open>_TYPE_TOKENS\<close> and \<open>_DEF_TOKEN_TO_TYPE\<close>\<close>

definition type_token :: "token \<Rightarrow> stype option" where
  "type_token t = (case t of TKw k \<Rightarrow>
       (if k = T_BOOL then Some BOOL else if k = T_TRISTATE then Some TRISTATE
        else if k = T_INT then Some INT_T else if k = T_HEX then Some HEX
        else if k = T_STRING then Some STRING else None)
     | _ \<Rightarrow> None)"

definition def_token_to_type :: "token \<Rightarrow> stype option" where
  "def_token_to_type t = (case t of TKw k \<Rightarrow>
       (if k = T_DEF_BOOL then Some BOOL else if k = T_DEF_HEX then Some HEX
        else if k = T_DEF_INT then Some INT_T else if k = T_DEF_STRING then Some STRING
        else if k = T_DEF_TRISTATE then Some TRISTATE else None)
     | _ \<Rightarrow> None)"

text \<open>\<open>_STRING_LEX\<close>: tokens after which strings are expected.\<close>

definition string_lex :: "token \<Rightarrow> bool" where
  "string_lex t = (t \<in> TKw ` {T_BOOL, T_CHOICE, T_COMMENT, T_HEX, T_INT, T_MAINMENU, T_MENU,
     T_ORSOURCE, T_OSOURCE, T_PROMPT, T_RSOURCE, T_SOURCE, T_STRING, T_TRISTATE})"

text \<open>\<open>_SOURCE_TOKENS\<close>, \<open>_REL_SOURCE_TOKENS\<close> and \<open>_OBL_SOURCE_TOKENS\<close>\<close>

definition source_token :: "token \<Rightarrow> bool" where
  "source_token t = (t \<in> TKw ` {T_SOURCE, T_RSOURCE, T_OSOURCE, T_ORSOURCE})"

definition rel_source_token :: "token \<Rightarrow> bool" where
  "rel_source_token t = (t \<in> TKw ` {T_RSOURCE, T_ORSOURCE})"

definition obl_source_token :: "token \<Rightarrow> bool" where
  "obl_source_token t = (t \<in> TKw ` {T_SOURCE, T_RSOURCE})"

section \<open>Characters and regular expressions\<close>

text \<open>\<^verbatim>\<open>\s\<close> with \<open>re.ASCII\<close>\<close>

definition re_space :: "char \<Rightarrow> bool" where
  "re_space c = (let n = (of_char c :: nat) in 9 \<le> n \<and> n \<le> 13 \<or> n = 32)"

definition alnum_us :: "char \<Rightarrow> bool" where
  "alnum_us c = (let n = (of_char c :: nat) in
     48 \<le> n \<and> n \<le> 57 \<or> 65 \<le> n \<and> n \<le> 90 \<or> 97 \<le> n \<and> n \<le> 122 \<or> n = 95)"

definition command_char :: "char \<Rightarrow> bool" where
  "command_char c = (alnum_us c \<or> c = CHR ''$'' \<or> c = CHR ''-'')"

definition id_char :: "char \<Rightarrow> bool" where
  "id_char c = (alnum_us c \<or> c \<in> set ''$/.-'')"

definition lhs_char :: "char \<Rightarrow> bool" where
  "lhs_char c = (alnum_us c \<or> c = CHR ''-'')"

text \<open>The end of the longest run of characters satisfying \<open>p\<close> that starts at \<open>i\<close>.\<close>

definition span_end :: "(char \<Rightarrow> bool) \<Rightarrow> string \<Rightarrow> nat \<Rightarrow> nat" where
  "span_end p s i = i + length (takeWhile p (drop i s))"

text \<open>The slice \<open>s[i:j]\<close>.\<close>

definition slice :: "string \<Rightarrow> nat \<Rightarrow> nat \<Rightarrow> string" where
  "slice s i j = take (j - i) (drop i s)"

text \<open>\<open>_command_match\<close>: \<^verbatim>\<open>\s*([A-Za-z0-9_$-]+)\s*\<close>; the group and the end.\<close>

definition command_match :: "string \<Rightarrow> (string \<times> nat) option" where
  "command_match s =
     (let a = span_end re_space s 0; b = span_end command_char s a
      in if b = a then None else Some (slice s a b, span_end re_space s b))"

text \<open>\<open>_id_keyword_match\<close>: \<^verbatim>\<open>([A-Za-z0-9_$/.-]+)\s*\<close> at \<open>i\<close>.\<close>

definition id_keyword_match :: "string \<Rightarrow> nat \<Rightarrow> (string \<times> nat) option" where
  "id_keyword_match s i =
     (let b = span_end id_char s i in if b = i then None else Some (slice s i b, span_end re_space s b))"

text \<open>
  \<open>_assignment_rhs_match\<close>: \<^verbatim>\<open>\s*(=|:=|\+=)\s*(.*)\<close> at \<open>i\<close>; the operator and the value, which
  ends before a newline.
\<close>

definition assignment_rhs_match :: "string \<Rightarrow> nat \<Rightarrow> (string \<times> string) option" where
  "assignment_rhs_match s i =
     (let r = dropWhile re_space (drop i s);
          value = (\<lambda>n. takeWhile (\<lambda>c. c \<noteq> NL) (dropWhile re_space (drop n r)))
      in if startswith r ''='' then Some (''='', value 1)
         else if startswith r '':='' then Some ('':='', value 2)
         else if startswith r ''+='' then Some (''+='', value 2)
         else None)"

text \<open>
  Searching: the first position from \<open>i\<close> on at which \<open>p\<close>, applied to the rest of the string,
  gives a match.
\<close>

fun search :: "(string \<Rightarrow> string option) \<Rightarrow> nat \<Rightarrow> string \<Rightarrow> (string \<times> nat) option" where
  "search p i [] = map_option (\<lambda>g. (g, i)) (p [])"
| "search p i (c # r) = (case p (c # r) of Some g \<Rightarrow> Some (g, i) | None \<Rightarrow> search p (Suc i) r)"

definition search_from :: "(string \<Rightarrow> string option) \<Rightarrow> string \<Rightarrow> nat \<Rightarrow> (string \<times> nat) option" where
  "search_from p s i = search p i (drop i s)"

text \<open>\<open>_macro_special_search\<close>, \<open>_string_special_search\<close> and \<open>_name_special_search\<close>\<close>

definition macro_special :: "string \<Rightarrow> string option" where
  "macro_special r =
     (if startswith r ''('' then Some ''('' else if startswith r '')'' then Some '')''
      else if startswith r '','' then Some '','' else if startswith r ''$('' then Some ''$('' else None)"

definition string_special :: "string \<Rightarrow> string option" where
  "string_special r =
     (if startswith r [QUOT] then Some [QUOT] else if startswith r [CHR 0x27] then Some [CHR 0x27]
      else if startswith r [BSL] then Some [BSL] else if startswith r ''$('' then Some ''$('' else None)"

definition name_special :: "string \<Rightarrow> string option" where
  "name_special r = (case r of
     [] \<Rightarrow> Some []
   | c # _ \<Rightarrow> if \<not> id_char c then Some [c] else if startswith r ''$('' then Some ''$('' else None)"

text \<open>\<open>str.find\<close> from an index on\<close>

definition find_from :: "string \<Rightarrow> string \<Rightarrow> nat \<Rightarrow> nat option" where
  "find_from p s i = map_option snd (search_from (\<lambda>r. if startswith r p then Some p else None) s i)"

section \<open>Library functions\<close>

text \<open>\<open>str.isspace\<close>, which is false for the empty string, and \<open>str.strip\<close>\<close>

definition isspace :: "string \<Rightarrow> bool" where
  "isspace s = (s \<noteq> [] \<and> list_all py_isspace s)"

definition py_strip :: "string \<Rightarrow> string" where
  "py_strip s = strip_by py_isspace s"

text \<open>\<open>str.replace\<close>, for a nonempty pattern\<close>

function replace_all :: "string \<Rightarrow> string \<Rightarrow> string \<Rightarrow> string" where
  "replace_all p r s =
     (if p = [] then s
      else if startswith s p then r @ replace_all p r (drop (length p) s)
      else case s of [] \<Rightarrow> [] | c # t \<Rightarrow> c # replace_all p r t)"
  by pat_completeness auto
termination
  by (relation "measure (\<lambda>(p, r, s). length s)") (auto elim: startswithE)

declare replace_all.simps [simp del]

text \<open>
  \<open>os.path.expandvars\<close>: \<^verbatim>\<open>$name\<close> and \<^verbatim>\<open>${name}\<close> are replaced by environment variables, unless
  they are not set.
\<close>

definition var_match :: "string \<Rightarrow> (string \<times> nat) option" where
  "var_match r =
     (if startswith r ''$'' then
        (if startswith r ''${'' then
           (let x = takeWhile (\<lambda>c. c \<noteq> CHR ''}'') (drop 2 r)
            in if 2 + length x < length r then Some (x, 3 + length x) else None)
         else (let x = takeWhile alnum_us (drop 1 r) in if x = [] then None else Some (x, 1 + length x)))
      else None)"

lemma var_match_pos: "var_match r = Some (x, n) \<Longrightarrow> 0 < n"
  by (auto simp: var_match_def Let_def split: if_splits)

function expandvars :: "(string \<Rightarrow> string option) \<Rightarrow> string \<Rightarrow> string" where
  "expandvars env s = (case s of
     [] \<Rightarrow> []
   | c # t \<Rightarrow> (case var_match s of
       None \<Rightarrow> c # expandvars env t
     | Some (x, n) \<Rightarrow> (case env x of
         None \<Rightarrow> take n s @ expandvars env (drop n s)
       | Some v \<Rightarrow> v @ expandvars env (drop n s))))"
  by pat_completeness auto
termination
  by (relation "measure (\<lambda>(env, s). length s)") (auto dest: var_match_pos)

declare expandvars.simps [simp del]

text \<open>
  \<open>str.splitlines\<close>, without the line ends; \<open>cr\<close> says that the character before was a carriage
  return, which forms one line end with a newline.
\<close>

definition line_end :: "char \<Rightarrow> bool" where
  "line_end c = (let n = (of_char c :: nat) in 10 \<le> n \<and> n \<le> 13 \<or> 28 \<le> n \<and> n \<le> 30 \<or> n = 133)"

fun splitlines_aux :: "bool \<Rightarrow> string \<Rightarrow> string \<Rightarrow> string list" where
  "splitlines_aux cr acc [] = (if acc = [] then [] else [acc])"
| "splitlines_aux cr acc (c # s) =
     (if cr \<and> c = NL then splitlines_aux False acc s
      else if line_end c then acc # splitlines_aux (c = CHR 0x0D) [] s
      else splitlines_aux False (acc @ [c]) s)"

definition splitlines :: "string \<Rightarrow> string list" where
  "splitlines s = splitlines_aux False [] s"

text \<open>\<open>str.expandtabs\<close>, with tab stops every 8 columns\<close>

fun expandtabs_aux :: "nat \<Rightarrow> string \<Rightarrow> string" where
  "expandtabs_aux col [] = []"
| "expandtabs_aux col (c # s) =
     (if c = CHR 0x09 then replicate (8 - col mod 8) SPC @ expandtabs_aux (col + (8 - col mod 8)) s
      else c # expandtabs_aux (if c = NL \<or> c = CHR 0x0D then 0 else col + 1) s)"

definition expandtabs :: "string \<Rightarrow> string" where
  "expandtabs s = expandtabs_aux 0 s"

section \<open>Positions\<close>

lemma span_end_ge: "i \<le> span_end p s i"
  by (simp add: span_end_def)

lemma span_end_append: "span_end p (a @ r) (length a) = length a + length (takeWhile p r)"
  by (simp add: span_end_def)

lemma slice_append: "slice (a @ b @ r) (length a) (length a + length b) = b"
  by (simp add: slice_def)

lemma search_pos: "search p i s = Some (g, j) \<Longrightarrow> i \<le> j \<and> j \<le> i + length s \<and> p (drop (j - i) s) = Some g"
proof (induction s arbitrary: i)
  case (Cons c s)
  show ?case
  proof (cases "p (c # s)")
    case None
    with Cons.prems have "search p (Suc i) s = Some (g, j)" by simp
    from Cons.IH [OF this] show ?thesis by (auto simp: drop_Cons')
  next
    case (Some g')
    with Cons.prems show ?thesis by simp
  qed
qed auto

lemma search_from_pos:
  assumes "search_from p s i = Some (g, j)"
  shows "i \<le> j" and "i \<le> length s \<Longrightarrow> j \<le> length s" and "p (drop j s) = Some g"
  using search_pos [of p i "drop i s" g j] assms by (auto simp: search_from_def)

end
