(* ===== verification/Preproc.thy ===== *)
theory Preproc
  imports Tokens
begin

text \<open>
  The state of the parser and the preprocessor of \<^verbatim>\<open>src/scripts/kconfig/kconfiglib.py\<close>: reading
  lines, raising errors, and expanding macros (\<open>_expand_whole\<close>, \<open>_expand_macro\<close>, \<open>_fn_val\<close>, ...). The
  proof that expansion ends is in \<open>Expansion\<close>.
\<close>

section \<open>The state of the parser\<close>

text \<open>\<open>Variable\<close>\<close>

record variable =
  v_value :: string
  v_is_recursive :: bool
  v_n_expansions :: nat

text \<open>
  The surroundings: environment variables, the text of the files, the results of \<open>glob\<close>, the
  standard output and error of shell commands, \<open>os.uname\<close>, \<open>srctree\<close> and \<open>_srctree_prefix\<close>, and
  the user-defined preprocessor functions with the number of arguments they take.
\<close>

record penv =
  e_environ :: "string \<Rightarrow> string option"
  e_files :: "string \<Rightarrow> string option"
  e_glob :: "string \<Rightarrow> string list"
  e_shell :: "string \<Rightarrow> string \<times> string"
  e_uname_release :: string
  e_srctree :: string
  e_srctree_prefix :: string
  e_functions :: "string \<Rightarrow> ((string list \<Rightarrow> pyexc + string) \<times> nat \<times> nat option) option"

text \<open>
  The attributes of \<open>Kconfig\<close> that parsing works on. The objects themselves are in \<open>p_kc\<close> and
  \<open>p_dyn\<close>; new menu nodes and choices get the numbers \<open>p_new_node\<close> and \<open>p_new_choice\<close>. An open file
  is the text not read yet; \<open>p_filename\<close> is \<open>None\<close> in \<open>eval_string\<close>.
\<close>

record pstate =
  p_kc :: kconfig
  p_dyn :: dyn
  p_const_syms :: "string list"
  p_parsing :: bool
  p_variables :: "string \<Rightarrow> variable option"
  p_env_vars :: "string list"
  p_named_choices :: "string \<Rightarrow> choiceref option"
  p_menus :: "noderef list"
  p_comments :: "noderef list"
  p_new_node :: nat
  p_new_choice :: nat
  p_kconfig_filenames :: "string list"
  p_filestack :: "((string \<times> nat) list \<times> string) list"
  p_include_path :: "(string \<times> nat) list"
  p_filename :: "string option"
  p_linenr :: nat
  p_rest :: string
  p_tokens :: "token list"
  p_i :: nat
  p_reuse_tokens :: bool
  p_line :: string

type_synonym 'a pp = "(pstate, 'a) eff"

text \<open>A computation on the values, and the warning functions.\<close>

definition on_dyn :: "'a ev \<Rightarrow> 'a pp" where
  "on_dyn m = (\<lambda>p. case m (p_dyn p) of Inl e \<Rightarrow> Inl e | Inr (x, d) \<Rightarrow> Inr (x, p\<lparr>p_dyn := d\<rparr>))"

definition warn_text :: "string \<Rightarrow> unit pp" where
  "warn_text msg = on_dyn (kwarn (W_text msg None))"

definition warn_here :: "string \<Rightarrow> unit pp" where
  "warn_here msg = bind (gets (\<lambda>p. map_option (\<lambda>f. (f, p_linenr p)) (p_filename p))) (\<lambda>loc.
     on_dyn (kwarn (W_text msg loc)))"

text \<open>\<open>Kconfig._parse_error\<close> and \<open>Kconfig._trailing_tokens_error\<close>\<close>

definition nat_str :: "nat \<Rightarrow> string" where
  "nat_str n = py_str (int n)"

definition here :: "pstate \<Rightarrow> string" where
  "here p = (case p_filename p of None \<Rightarrow> ''None'' | Some f \<Rightarrow> f) @ '':'' @ nat_str (p_linenr p)"

definition parse_error :: "string \<Rightarrow> 'a pp" where
  "parse_error msg = bind (gets (\<lambda>p. (if p_filename p = None then [] else here p @ '': '') @
       quoted (''error: couldn'' @ [CHR 0x27] @ ''t parse '') (py_strip (p_line p)) @ '': '' @ msg)) (\<lambda>t. raise (KconfigError t))"

definition trailing_tokens_error :: "'a pp" where
  "trailing_tokens_error = parse_error ''extra tokens at end of line''"

section \<open>Predefined preprocessor functions\<close>

text \<open>
  \<open>_filename_fn\<close>, \<open>_lineno_fn\<close>, \<open>_info_fn\<close> (whose output on the terminal is not modelled),
  \<open>_warning_if_fn\<close>, \<open>_error_if_fn\<close> and \<open>_shell_fn\<close>
\<close>

definition filename_fn :: "string pp" where
  "filename_fn = bind (gets p_filename) (\<lambda>f. of_option TypeError f)"

definition lineno_fn :: "string pp" where
  "lineno_fn = gets (\<lambda>p. nat_str (p_linenr p))"

definition info_fn :: "string \<Rightarrow> string pp" where
  "info_fn msg = ret []"

definition warning_if_fn :: "string \<Rightarrow> string \<Rightarrow> string pp" where
  "warning_if_fn cond msg = bind (if cond = ''y'' then warn_here msg else ret ()) (\<lambda>_. ret [])"

definition error_if_fn :: "string \<Rightarrow> string \<Rightarrow> string pp" where
  "error_if_fn cond msg =
     (if cond = ''y'' then bind (gets (\<lambda>p. here p @ '': '' @ msg)) (\<lambda>t. raise (KconfigError t)) else ret [])"

definition shell_output :: "string \<Rightarrow> string" where
  "shell_output stdout =
     replace_all [NL] [SPC] (rev (dropWhile (\<lambda>c. c = NL) (rev (py_joins [NL] (splitlines stdout)))))"

definition shell_fn :: "penv \<Rightarrow> string \<Rightarrow> string pp" where
  "shell_fn E command =
     (let (stdout, stderr) = e_shell E command in
      bind (if stderr \<noteq> [] then warn_here (quoted [] command @ '' wrote to stderr: '' @ py_joins [NL] (splitlines stderr))
            else ret ()) (\<lambda>_. ret (shell_output stdout)))"

text \<open>
  \<open>Kconfig._functions\<close>: the functions with the least and largest number of arguments;
  user-defined functions come after the predefined ones and override them.
\<close>

definition lookup_fn :: "penv \<Rightarrow> string \<Rightarrow> ((string list \<Rightarrow> string pp) \<times> nat \<times> nat option) option" where
  "lookup_fn E fn =
     (case e_functions E fn of
        Some (f, lo, hi) \<Rightarrow> Some (\<lambda>args. case f args of Inl e \<Rightarrow> raise e | Inr v \<Rightarrow> ret v, lo, hi)
      | None \<Rightarrow>
          (if fn = ''info'' then Some (\<lambda>args. info_fn (args ! 1), 1, Some 1)
           else if fn = ''error-if'' then Some (\<lambda>args. error_if_fn (args ! 1) (args ! 2), 2, Some 2)
           else if fn = ''filename'' then Some (\<lambda>_. filename_fn, 0, Some 0)
           else if fn = ''lineno'' then Some (\<lambda>_. lineno_fn, 0, Some 0)
           else if fn = ''shell'' then Some (\<lambda>args. shell_fn E (args ! 1), 1, Some 1)
           else if fn = ''warning-if'' then Some (\<lambda>args. warning_if_fn (args ! 1) (args ! 2), 2, Some 2)
           else None))"

section \<open>Macro expansion\<close>

text \<open>The argument that \<open>args[int(t)]\<close> gives, if \<open>t\<close> is a number and the argument exists.\<close>

definition macro_arg :: "string list \<Rightarrow> string \<Rightarrow> string option" where
  "macro_arg args t =
     (case py_int 10 t of
        None \<Rightarrow> None
      | Some k \<Rightarrow>
          if 0 \<le> k \<and> k < int (length args) then Some (args ! nat k)
          else if - int (length args) \<le> k \<and> k < 0 then Some (args ! nat (int (length args) + k))
          else None)"

definition add_expansions :: "string \<Rightarrow> (nat \<Rightarrow> nat) \<Rightarrow> unit pp" where
  "add_expansions fn f = modify (\<lambda>p. p\<lparr>p_variables := (p_variables p)(fn :=
     map_option (\<lambda>v. v\<lparr>v_n_expansions := f (v_n_expansions v)\<rparr>) (p_variables p fn))\<rparr>)"

text \<open>\<open>Kconfig._fn_val\<close> for functions that are not variables: built-in or user-defined, or the environment.\<close>

definition expected_args :: "nat \<Rightarrow> nat option \<Rightarrow> string" where
  "expected_args lo hi =
     (case hi of
        None \<Rightarrow> nat_str lo @ '' or more''
      | Some h \<Rightarrow> if lo = h then nat_str lo else nat_str lo @ ''-'' @ nat_str h)"

definition call_fn :: "penv \<Rightarrow> string list \<Rightarrow> string pp" where
  "call_fn E args =
     (let fn = hd args; m = length args - 1 in
      case lookup_fn E fn of
        Some (py_fn, lo, hi) \<Rightarrow>
          if m < lo \<or> (case hi of None \<Rightarrow> False | Some h \<Rightarrow> h < m) then
            bind (gets (\<lambda>p. here p @ '': bad number of arguments in call to '' @ fn @ '', expected '' @
              expected_args lo hi @ '', got '' @ nat_str m)) (\<lambda>t. raise (KconfigError t))
          else py_fn args
      | None \<Rightarrow>
          (case e_environ E fn of
             Some v \<Rightarrow> bind (modify (\<lambda>p. p\<lparr>p_env_vars := List.insert fn (p_env_vars p)\<rparr>)) (\<lambda>_. ret v)
           | None \<Rightarrow> ret []))"

text \<open>
  \<open>Kconfig._expand_whole\<close>, from index \<open>i\<close> on; \<open>Kconfig._expand_macro\<close> and its loop over the special
  characters, with the text before the macro, the position, the start of the current argument, the
  arguments so far and the nesting of parentheses; \<open>Kconfig._fn_val\<close>. The fuel bounds calls and
  rounds together.
\<close>

function (sequential) expand_whole :: "penv \<Rightarrow> nat \<Rightarrow> string \<Rightarrow> nat \<Rightarrow> string list \<Rightarrow> string pp"
  and expand_macro :: "penv \<Rightarrow> nat \<Rightarrow> string \<Rightarrow> nat \<Rightarrow> string list \<Rightarrow> (string \<times> nat) pp"
  and macro_loop :: "penv \<Rightarrow> nat \<Rightarrow> string list \<Rightarrow> string \<Rightarrow> string \<Rightarrow> nat \<Rightarrow> nat \<Rightarrow> string list \<Rightarrow> nat \<Rightarrow> (string \<times> nat) pp"
  and fn_val :: "penv \<Rightarrow> nat \<Rightarrow> string list \<Rightarrow> string pp"
where
  "expand_whole E 0 s i args = raise NoReturn"
| "expand_whole E (Suc n) s i args =
     (case find_from ''$('' s i of
        None \<Rightarrow> ret s
      | Some j \<Rightarrow> bind (expand_macro E n s j args) (\<lambda>(s, i). expand_whole E n s i args))"
| "expand_macro E 0 s i args = raise NoReturn"
| "expand_macro E (Suc n) s i args = macro_loop E n args (take i s) s (i + 2) (i + 2) [] 0"
| "macro_loop E 0 args res s i arg_start new_args nesting = raise NoReturn"
| "macro_loop E (Suc n) args res s i arg_start new_args nesting =
     (case search_from macro_special s i of
        None \<Rightarrow> parse_error ''missing end parenthesis in macro expansion''
      | Some (g, j) \<Rightarrow>
          if g = ''('' then macro_loop E n args res s (j + 1) arg_start new_args (nesting + 1)
          else if g = '')'' then
            (if nesting \<noteq> 0 then macro_loop E n args res s (j + 1) arg_start new_args (nesting - 1)
             else
               let new_args = new_args @ [slice s arg_start j] in
               bind (case macro_arg args (hd new_args) of Some a \<Rightarrow> ret a | None \<Rightarrow> fn_val E n new_args) (\<lambda>v.
                 ret (res @ v @ drop (j + 1) s, length (res @ v))))
          else if g = '','' then
            (if nesting \<noteq> 0 then macro_loop E n args res s (j + 1) arg_start new_args nesting
             else macro_loop E n args res s (j + 1) (j + 1) (new_args @ [slice s arg_start j]) nesting)
          else bind (expand_macro E n s j args) (\<lambda>(s, i). macro_loop E n args res s i arg_start new_args nesting))"
| "fn_val E 0 args = raise NoReturn"
| "fn_val E (Suc n) args =
     (let fn = hd args in
      bind (gets (\<lambda>p. p_variables p fn)) (\<lambda>var. case var of
        Some v \<Rightarrow>
          if length args = 1 \<and> v_n_expansions v \<noteq> 0 then
            parse_error (''Preprocessor variable '' @ fn @ '' recursively references itself'')
          else if length args \<noteq> 1 \<and> v_n_expansions v > 100 then
            parse_error (''Preprocessor function '' @ fn @ '' seems stuck in infinite recursion'')
          else
            bind (add_expansions fn (\<lambda>k. k + 1)) (\<lambda>_.
            bind (expand_whole E n (v_value v) 0 args) (\<lambda>res.
            bind (add_expansions fn (\<lambda>k. k - 1)) (\<lambda>_. ret res)))
      | None \<Rightarrow> call_fn E args))"
  by pat_completeness auto
termination
  by (relation "measure (case_sum (case_sum (\<lambda>(E, n, _). n) (\<lambda>(E, n, _). n)) (case_sum (\<lambda>(E, n, _). n) (\<lambda>(E, n, _). n)))")
    simp_all

text \<open>\<open>Variable.expanded_value_w_args\<close>\<close>

definition expanded_value_w_args :: "penv \<Rightarrow> nat \<Rightarrow> string \<Rightarrow> string list \<Rightarrow> string pp" where
  "expanded_value_w_args E n name args = fn_val E n (name # args)"

section \<open>Expansion within tokens\<close>

text \<open>\<open>Kconfig._expand_name_iter\<close> and \<open>Kconfig._expand_name\<close>\<close>

fun expand_name_iter :: "penv \<Rightarrow> nat \<Rightarrow> string \<Rightarrow> nat \<Rightarrow> (string \<times> nat) pp" where
  "expand_name_iter E 0 s i = raise NoReturn"
| "expand_name_iter E (Suc n) s i =
     bind (of_option AttributeError (search_from name_special s i)) (\<lambda>(g, j).
     if g \<noteq> ''$('' then ret (s, j)
     else bind (expand_macro E n s j []) (\<lambda>(s, i). expand_name_iter E n s i))"

definition expand_name :: "penv \<Rightarrow> nat \<Rightarrow> string \<Rightarrow> nat \<Rightarrow> (string \<times> string \<times> nat) pp" where
  "expand_name E n s i =
     bind (expand_name_iter E n s i) (\<lambda>(s, end_i).
     let name = slice s i end_i in
     if py_strip name = [] then parse_error ''macro expanded to blank string''
     else ret (name, s, span_end py_isspace s end_i))"

text \<open>\<open>Kconfig._expand_str\<close>: the loop, from the character after the quote.\<close>

fun expand_str_loop :: "penv \<Rightarrow> nat \<Rightarrow> char \<Rightarrow> string \<Rightarrow> nat \<Rightarrow> (string \<times> nat) pp" where
  "expand_str_loop E 0 quote s i = raise NoReturn"
| "expand_str_loop E (Suc n) quote s i =
     (case search_from string_special s i of
        None \<Rightarrow> parse_error ''unterminated string''
      | Some (g, j) \<Rightarrow>
          if g = [quote] then ret (s, j + 1)
          else if g = [BSL] then expand_str_loop E n quote (take j s @ drop (j + 1) s) (j + 1)
          else if g = ''$('' then bind (expand_macro E n s j []) (\<lambda>(s, i). expand_str_loop E n quote s i)
          else expand_str_loop E n quote s (i + 1))"

definition expand_string :: "penv \<Rightarrow> nat \<Rightarrow> string \<Rightarrow> nat \<Rightarrow> (string \<times> nat) pp" where
  "expand_string E n s i = expand_str_loop E n (s ! i) s (i + 1)"

section \<open>Assignments\<close>

text \<open>The loop over the left-hand side in \<open>Kconfig._parse_assignment\<close>.\<close>

fun assignment_lhs :: "penv \<Rightarrow> nat \<Rightarrow> string \<Rightarrow> nat \<Rightarrow> (string \<times> nat) pp" where
  "assignment_lhs E 0 s i = raise NoReturn"
| "assignment_lhs E (Suc n) s i =
     (let i = span_end lhs_char s i in
      if startswith (drop i s) ''$('' then bind (expand_macro E n s i []) (\<lambda>(s, i). assignment_lhs E n s i)
      else ret (s, i))"

definition set_variable :: "string \<Rightarrow> variable \<Rightarrow> unit pp" where
  "set_variable name v = modify (\<lambda>p. p\<lparr>p_variables := (p_variables p)(name := Some v)\<rparr>)"

text \<open>\<open>Kconfig._parse_assignment\<close>\<close>

definition assign_variable :: "penv \<Rightarrow> nat \<Rightarrow> string \<Rightarrow> string \<Rightarrow> string \<Rightarrow> unit pp" where
  "assign_variable E n name op val =
     bind (gets (\<lambda>p. p_variables p name)) (\<lambda>old.
     let op = (if old = None \<and> op = ''+='' then ''='' else op);
         var = (case old of Some v \<Rightarrow> v | None \<Rightarrow> \<lparr>v_value = [], v_is_recursive = False, v_n_expansions = 0\<rparr>)
     in if op = ''='' then set_variable name (var\<lparr>v_is_recursive := True, v_value := val\<rparr>)
        else if op = '':='' then
          bind (expand_whole E n val 0 []) (\<lambda>x. set_variable name (var\<lparr>v_is_recursive := False, v_value := x\<rparr>))
        else
          bind (if v_is_recursive var then ret val else expand_whole E n val 0 []) (\<lambda>x.
            set_variable name (var\<lparr>v_value := v_value var @ [SPC] @ x\<rparr>)))"

definition parse_assignment :: "penv \<Rightarrow> nat \<Rightarrow> string \<Rightarrow> unit pp" where
  "parse_assignment E n s =
     bind (assignment_lhs E n (py_lstrip s) 0) (\<lambda>(s, i).
     if isspace s then ret ()
     else case assignment_rhs_match s i of
       None \<Rightarrow> parse_error ''syntax error''
     | Some (op, val) \<Rightarrow> assign_variable E n (take i s) op val)"

end
