(* ===== verification/Lexer.thy ===== *)
theory Lexer
  imports Preproc
begin

text \<open>
  The tokenizer (\<open>Kconfig._tokenize\<close>), the symbol tables it fills, and reading lines from the
  current file (\<open>_next_line\<close>, \<open>_line_after_help\<close>, \<open>_enter_file\<close>, \<open>_leave_file\<close>).
\<close>

section \<open>Symbol tables\<close>

text \<open>
  \<open>Kconfig._lookup_sym\<close> and \<open>Kconfig._lookup_const_sym\<close>. A symbol that is not registered is given by
  its name all the same: \<open>k_sym\<close> of it is a new symbol.
\<close>

definition lookup_sym :: "string \<Rightarrow> symref pp" where
  "lookup_sym name =
     bind (gets (\<lambda>p. (name \<in> set (k_syms (p_kc p)), p_parsing p))) (\<lambda>(known, parsing).
     bind (if known then ret ()
           else if parsing then modify (\<lambda>p. p\<lparr>p_kc := (p_kc p)\<lparr>k_syms := k_syms (p_kc p) @ [name]\<rparr>\<rparr>)
           else warn_text (''no symbol '' @ name @ '' in configuration'')) (\<lambda>_.
     ret (SymN name)))"

definition lookup_const_sym :: "string \<Rightarrow> symref pp" where
  "lookup_const_sym name =
     bind (gets (\<lambda>p. (name \<in> set (p_const_syms p), p_parsing p))) (\<lambda>(known, parsing).
     bind (if \<not> known \<and> parsing then modify (\<lambda>p. p\<lparr>p_const_syms := p_const_syms p @ [name]\<rparr>) else ret ()) (\<lambda>_.
     ret (SymC name)))"

section \<open>Tokenizing a line\<close>

text \<open>An identifier or keyword after the first token, given the previous token.\<close>

definition word_token :: "penv \<Rightarrow> nat \<Rightarrow> string \<Rightarrow> nat \<Rightarrow> token \<Rightarrow> string \<Rightarrow> nat \<Rightarrow> (token \<times> string \<times> nat) pp" where
  "word_token E n s i prev name match_end =
     (case get_keyword name of
        Some k \<Rightarrow> ret (TKw k, s, match_end)
      | None \<Rightarrow>
          if \<not> string_lex prev then
            bind (if CHR ''$'' \<in> set name then expand_name E n s i else ret (name, s, match_end)) (\<lambda>(name, s, i).
            bind (if str_to_tri name \<noteq> None then ret (SymC name) else lookup_sym name) (\<lambda>sym.
            ret (TSym sym, s, i)))
          else
            bind (if prev \<noteq> TKw T_CHOICE then
                    bind (gets p_line) (\<lambda>line. warn_here (quoted (quoted ''style: quotes recommended around '' name @ '' in '') (py_strip line)))
                  else ret ()) (\<lambda>_.
            ret (TStr name, s, match_end)))"

text \<open>A quoted string: without \<open>$\<close> and backslashes in the line, up to the next quote.\<close>

definition string_token :: "penv \<Rightarrow> nat \<Rightarrow> string \<Rightarrow> nat \<Rightarrow> token \<Rightarrow> token \<Rightarrow> (token \<times> string \<times> nat) pp" where
  "string_token E n s i prev t0 =
     bind (if CHR ''$'' \<notin> set s \<and> BSL \<notin> set s then
             (case find_from [s ! i] s (i + 1) of
                None \<Rightarrow> parse_error ''unterminated string''
              | Some j \<Rightarrow> ret (slice s (i + 1) j, s, j + 1))
           else
             bind (expand_string E n s i) (\<lambda>(s, end_i).
               ret (expandvars (e_environ E) (replace_all ''$UNAME_RELEASE'' (e_uname_release E) (slice s (i + 1) (end_i - 1))),
                 s, end_i))) (\<lambda>(val, s, i).
     bind (if string_lex prev \<or> t0 = TKw T_OPTION then ret (TStr val)
           else bind (lookup_const_sym val) (\<lambda>c. ret (TSym c))) (\<lambda>tok.
     ret (tok, s, i)))"

text \<open>Operators, with their length.\<close>

definition op_token :: "string \<Rightarrow> (kw \<times> nat) option" where
  "op_token r =
     (if startswith r ''&&'' then Some (T_AND, 2)
      else if startswith r ''||'' then Some (T_OR, 2)
      else if startswith r ''='' then Some (T_EQUAL, 1)
      else if startswith r ''!='' then Some (T_UNEQUAL, 2)
      else if startswith r ''!'' then Some (T_NOT, 1)
      else if startswith r ''('' then Some (T_OPEN_PAREN, 1)
      else if startswith r '')'' then Some (T_CLOSE_PAREN, 1)
      else if startswith r ''<='' then Some (T_LESS_EQUAL, 2)
      else if startswith r ''<'' then Some (T_LESS, 1)
      else if startswith r ''>='' then Some (T_GREATER_EQUAL, 2)
      else if startswith r ''>'' then Some (T_GREATER, 1)
      else None)"

text \<open>One round of the tokenization loop; \<open>None\<close> at a comment.\<close>

definition next_token :: "penv \<Rightarrow> nat \<Rightarrow> string \<Rightarrow> nat \<Rightarrow> token \<Rightarrow> token \<Rightarrow> (token \<times> string \<times> nat) option pp" where
  "next_token E n s i prev t0 =
     (case id_keyword_match s i of
        Some (name, e) \<Rightarrow> bind (word_token E n s i prev name e) (\<lambda>x. ret (Some x))
      | None \<Rightarrow>
          if s ! i = CHR ''#'' then ret None
          else
            bind (if s ! i = QUOT \<or> s ! i = CHR 0x27 then string_token E n s i prev t0
                  else case op_token (drop i s) of
                    Some (k, l) \<Rightarrow> ret (TKw k, s, i + l)
                  | None \<Rightarrow> parse_error ''unknown tokens in line'') (\<lambda>(tok, s, i).
            ret (Some (tok, s, span_end py_isspace s i))))"

fun token_loop :: "penv \<Rightarrow> nat \<Rightarrow> string \<Rightarrow> nat \<Rightarrow> token list \<Rightarrow> token list pp" where
  "token_loop E 0 s i toks = raise NoReturn"
| "token_loop E (Suc n) s i toks =
     (if length s \<le> i then ret toks
      else bind (next_token E n s i (last toks) (hd toks)) (\<lambda>r. case r of
        None \<Rightarrow> ret toks
      | Some (tok, s, i) \<Rightarrow> token_loop E n s i (toks @ [tok])))"

text \<open>\<open>Kconfig._tokenize\<close>\<close>

definition help_line :: "string \<Rightarrow> bool" where
  "help_line s = (strip_by (\<lambda>c. c \<in> {SPC, CHR 0x09, NL, CHR ''-''}) s = ''help'')"

definition tokenize :: "penv \<Rightarrow> nat \<Rightarrow> string \<Rightarrow> token list pp" where
  "tokenize E n s =
     bind (modify (\<lambda>p. p\<lparr>p_line := s\<rparr>)) (\<lambda>_.
     case command_match s of
       None \<Rightarrow>
         if isspace s \<or> startswith (py_lstrip s) ''#'' then ret [TNone]
         else parse_error ''unknown token at start of line''
     | Some (name, i) \<Rightarrow>
         (case get_keyword name of
            None \<Rightarrow>
              if help_line s then ret [TKw T_HELP, TNone]
              else bind (parse_assignment E n s) (\<lambda>_. ret [TNone])
          | Some k \<Rightarrow> bind (token_loop E n s i [TKw k]) (\<lambda>toks. ret (toks @ [TNone]))))"

section \<open>Reading lines\<close>

text \<open>The next line of a file, with its line end, and the rest; an empty line at the end of the file.\<close>

fun split_line :: "string \<Rightarrow> string \<times> string" where
  "split_line [] = ([], [])"
| "split_line (c # s) = (if c = NL then ([NL], s) else (let (l, r) = split_line s in (c # l, r)))"

definition readline :: "string pp" where
  "readline = (\<lambda>p. let (l, r) = split_line (p_rest p) in Inr (l, p\<lparr>p_rest := r\<rparr>))"

definition incr_linenr :: "nat \<Rightarrow> unit pp" where
  "incr_linenr k = modify (\<lambda>p. p\<lparr>p_linenr := p_linenr p + k\<rparr>)"

text \<open>Handle line joining.\<close>

definition continued :: "string \<Rightarrow> bool" where
  "continued line = (2 \<le> length line \<and> drop (length line - 2) line = [BSL, NL])"

fun join_lines :: "nat \<Rightarrow> string \<Rightarrow> string pp" where
  "join_lines 0 line = raise NoReturn"
| "join_lines (Suc n) line =
     (if continued line then
        bind readline (\<lambda>next. bind (incr_linenr 1) (\<lambda>_. join_lines n (take (length line - 2) line @ next)))
      else ret line)"

text \<open>\<open>Kconfig._next_line\<close> and \<open>Kconfig._line_after_help\<close>\<close>

definition set_tokens :: "token list \<Rightarrow> unit pp" where
  "set_tokens toks = modify (\<lambda>p. p\<lparr>p_tokens := toks\<rparr>)"

definition next_line :: "penv \<Rightarrow> nat \<Rightarrow> bool pp" where
  "next_line E n =
     bind (gets p_reuse_tokens) (\<lambda>reuse.
     if reuse then bind (modify (\<lambda>p. p\<lparr>p_reuse_tokens := False\<rparr>)) (\<lambda>_. ret True)
     else
       bind readline (\<lambda>line.
       if line = [] then ret False
       else
         bind (incr_linenr 1) (\<lambda>_.
         bind (join_lines n line) (\<lambda>line.
         bind (tokenize E n line) (\<lambda>toks.
         bind (set_tokens toks) (\<lambda>_.
         bind (modify (\<lambda>p. p\<lparr>p_i := 1\<rparr>)) (\<lambda>_. ret True)))))))"

definition line_after_help :: "penv \<Rightarrow> nat \<Rightarrow> string \<Rightarrow> unit pp" where
  "line_after_help E n line =
     bind (join_lines n line) (\<lambda>line.
     bind (tokenize E n line) (\<lambda>toks.
     bind (set_tokens toks) (\<lambda>_. modify (\<lambda>p. p\<lparr>p_reuse_tokens := True\<rparr>))))"

section \<open>Sourced files\<close>

text \<open>
  \<open>Kconfig._enter_file\<close> and \<open>Kconfig._leave_file\<close>. The files that are open are the rests of their
  texts; reading universal newlines is part of \<open>e_files\<close>.
\<close>

definition rel_filename :: "penv \<Rightarrow> string \<Rightarrow> string" where
  "rel_filename E filename =
     (if startswith filename (e_srctree_prefix E) then drop (length (e_srctree_prefix E)) filename else filename)"

definition the_filename :: "pstate \<Rightarrow> string" where
  "the_filename p = (case p_filename p of None \<Rightarrow> [] | Some f \<Rightarrow> f)"

definition enter_file :: "penv \<Rightarrow> string \<Rightarrow> unit pp" where
  "enter_file E filename =
     (let rel = rel_filename E filename in
      bind (modify (\<lambda>p. p\<lparr>p_kconfig_filenames := p_kconfig_filenames p @ [rel],
        p_filestack := (p_include_path p, p_rest p) # p_filestack p,
        p_include_path := p_include_path p @ [(the_filename p, p_linenr p)]\<rparr>)) (\<lambda>_.
      bind (gets p_include_path) (\<lambda>path.
      if rel \<in> set (map fst path) then
        bind (gets (\<lambda>p. [NL] @ here p @ quoted '': recursive '' ''source'' @ quoted '' of '' rel @
          '' detected. Check that environment variables are set correctly.'' @ [NL] @ ''Include path:'' @ [NL] @
          py_joins [NL] (map (\<lambda>(f, l). f @ '':'' @ nat_str l) path))) (\<lambda>t. raise (KconfigError t))
      else
        bind (of_option (OSError filename) (e_files E filename)) (\<lambda>text.
        modify (\<lambda>p. p\<lparr>p_rest := text, p_filename := Some rel, p_linenr := 0\<rparr>)))))"

definition leave_file :: "unit pp" where
  "leave_file =
     bind (gets p_filestack) (\<lambda>stack.
     case stack of
       [] \<Rightarrow> raise IndexError
     | (path, rest) # stack \<Rightarrow>
         modify (\<lambda>p. p\<lparr>p_filename := Some (fst (last (p_include_path p))), p_linenr := snd (last (p_include_path p)),
           p_include_path := path, p_rest := rest, p_filestack := stack\<rparr>))"

end
