(* ===== verification/ParseExpr.thy ===== *)
theory ParseExpr
  imports Lexer Eval
begin

text \<open>
  Fetching tokens and parsing expressions (\<open>_expect_sym\<close>, \<open>_check_token\<close>, \<open>_parse_expr\<close>, ...), and
  \<open>Kconfig.eval_string\<close>. The expressions that are accepted are those of the grammar in the comment of
  \<open>_parse_expr\<close>.
\<close>

section \<open>Fetching tokens\<close>

text \<open>\<open>self._tokens[i]\<close>\<close>

definition token_at :: "nat \<Rightarrow> token pp" where
  "token_at i = bind (gets p_tokens) (\<lambda>toks. if i < length toks then ret (toks ! i) else raise IndexError)"

definition peek :: "token pp" where
  "peek = bind (gets p_i) token_at"

definition advance :: "unit pp" where
  "advance = modify (\<lambda>p. p\<lparr>p_i := p_i p + 1\<rparr>)"

definition fetch :: "token pp" where
  "fetch = bind peek (\<lambda>t. bind advance (\<lambda>_. ret t))"

text \<open>\<open>_check_token\<close>, \<open>_expect_sym\<close>, \<open>_expect_nonconst_sym\<close> and \<open>_expect_str_and_eol\<close>\<close>

definition check_token :: "kw \<Rightarrow> bool pp" where
  "check_token k = bind peek (\<lambda>t. if t = TKw k then bind advance (\<lambda>_. ret True) else ret False)"

definition expect_sym :: "symref pp" where
  "expect_sym = bind fetch (\<lambda>t. case t of TSym s \<Rightarrow> ret s | _ \<Rightarrow> parse_error ''expected symbol'')"

definition expect_nonconst_sym :: "symref pp" where
  "expect_nonconst_sym =
     bind (token_at 1) (\<lambda>t. bind (modify (\<lambda>p. p\<lparr>p_i := 2\<rparr>)) (\<lambda>_.
     case t of TSym s \<Rightarrow> if is_constant s then parse_error ''expected nonconstant symbol'' else ret s
     | _ \<Rightarrow> parse_error ''expected nonconstant symbol''))"

definition expect_eol :: "unit pp" where
  "expect_eol = bind peek (\<lambda>t. if t \<noteq> TNone then trailing_tokens_error else ret ())"

definition expect_str_and_eol :: "string pp" where
  "expect_str_and_eol =
     bind fetch (\<lambda>t. case t of TStr x \<Rightarrow> bind expect_eol (\<lambda>_. ret x) | _ \<Rightarrow> parse_error ''expected string'')"

section \<open>Expressions\<close>

text \<open>
  \<open>_parse_expr\<close>, \<open>_parse_and_expr\<close> and \<open>_parse_factor\<close>, with \<open>transform_m\<close>; the fuel is the depth of
  the call stack.
\<close>

function (sequential) parse_expr :: "nat \<Rightarrow> bool \<Rightarrow> expr pp"
  and parse_and_expr :: "nat \<Rightarrow> bool \<Rightarrow> expr pp"
  and parse_factor :: "nat \<Rightarrow> bool \<Rightarrow> expr pp"
where
  "parse_expr 0 tm = raise RecursionError"
| "parse_expr (Suc n) tm =
     bind (parse_and_expr n tm) (\<lambda>a. bind (check_token T_OR) (\<lambda>c.
       if c then bind (parse_expr n tm) (\<lambda>b. ret (OR a b)) else ret a))"
| "parse_and_expr 0 tm = raise RecursionError"
| "parse_and_expr (Suc n) tm =
     bind (parse_factor n tm) (\<lambda>a. bind (check_token T_AND) (\<lambda>c.
       if c then bind (parse_and_expr n tm) (\<lambda>b. ret (AND a b)) else ret a))"
| "parse_factor 0 tm = raise RecursionError"
| "parse_factor (Suc n) tm =
     bind fetch (\<lambda>t. case t of
       TSym s \<Rightarrow>
         bind peek (\<lambda>u. case tok_rel u of
           None \<Rightarrow> ret (if tm \<and> s = SymC ''m'' then AND km (Item (Sym modules)) else Item (Sym s))
         | Some r \<Rightarrow> bind advance (\<lambda>_. bind expect_sym (\<lambda>s'. ret (Rel r s s'))))
     | TKw k \<Rightarrow>
         if k = T_NOT then bind (parse_factor n tm) (\<lambda>e. ret (NOT e))
         else if k = T_OPEN_PAREN then
           bind (parse_expr n tm) (\<lambda>e. bind (check_token T_CLOSE_PAREN) (\<lambda>c.
             if c then ret e else parse_error ''malformed expression''))
         else parse_error ''malformed expression''
     | _ \<Rightarrow> parse_error ''malformed expression'')"
  by pat_completeness auto
termination
  by (relation "measure (case_sum fst (case_sum fst fst))") simp_all

text \<open>\<open>_expect_expr_and_eol\<close> and \<open>_parse_cond\<close>\<close>

definition expect_expr_and_eol :: "nat \<Rightarrow> expr pp" where
  "expect_expr_and_eol n = bind (parse_expr n True) (\<lambda>e. bind expect_eol (\<lambda>_. ret e))"

definition parse_cond :: "nat \<Rightarrow> expr pp" where
  "parse_cond n =
     bind (check_token T_IF) (\<lambda>c. bind (if c then parse_expr n True else ret ky) (\<lambda>e.
     bind expect_eol (\<lambda>_. ret e)))"

text \<open>\<open>Kconfig.eval_string\<close>; \<open>A\<close> gives the values of the symbols.\<close>

definition eval_string :: "penv \<Rightarrow> nat \<Rightarrow> acc \<Rightarrow> string \<Rightarrow> nat pp" where
  "eval_string E n A s =
     bind (modify (\<lambda>p. p\<lparr>p_filename := None\<rparr>)) (\<lambda>_.
     bind (tokenize E n (''if '' @ s)) (\<lambda>toks.
     bind (set_tokens toks) (\<lambda>_.
     bind (modify (\<lambda>p. p\<lparr>p_line := s, p_i := 1\<rparr>)) (\<lambda>_.
     bind (expect_expr_and_eol n) (\<lambda>e.
     bind (gets p_kc) (\<lambda>K. on_dyn (expr_value K A e)))))))"

section \<open>The grammar\<close>

text \<open>The grammar in the comment of \<open>_parse_expr\<close>, with the expression each phrase stands for.\<close>

definition sym_expr :: "bool \<Rightarrow> symref \<Rightarrow> expr" where
  "sym_expr tm s = (if tm \<and> s = SymC ''m'' then AND km (Item (Sym modules)) else Item (Sym s))"

inductive is_expr :: "bool \<Rightarrow> token list \<Rightarrow> expr \<Rightarrow> bool"
  and is_and :: "bool \<Rightarrow> token list \<Rightarrow> expr \<Rightarrow> bool"
  and is_factor :: "bool \<Rightarrow> token list \<Rightarrow> expr \<Rightarrow> bool"
where
  expr_and: "is_and tm ts a \<Longrightarrow> is_expr tm ts a"
| expr_or: "is_and tm ts a \<Longrightarrow> is_expr tm us b \<Longrightarrow> is_expr tm (ts @ TKw T_OR # us) (OR a b)"
| and_factor: "is_factor tm ts a \<Longrightarrow> is_and tm ts a"
| and_and: "is_factor tm ts a \<Longrightarrow> is_and tm us b \<Longrightarrow> is_and tm (ts @ TKw T_AND # us) (AND a b)"
| factor_sym: "is_factor tm [TSym s] (sym_expr tm s)"
| factor_rel: "tok_rel t = Some r \<Longrightarrow> is_factor tm [TSym s, t, TSym s'] (Rel r s s')"
| factor_not: "is_factor tm ts a \<Longrightarrow> is_factor tm (TKw T_NOT # ts) (NOT a)"
| factor_paren: "is_expr tm ts a \<Longrightarrow> is_factor tm (TKw T_OPEN_PAREN # ts @ [TKw T_CLOSE_PAREN]) a"

lemmas is_expr_induct = is_expr_is_and_is_factor.inducts

subsection \<open>Moving through the tokens\<close>

text \<open>The tokens that are left, and the state after \<open>k\<close> of them.\<close>

definition left :: "pstate \<Rightarrow> token list" where
  "left p = drop (p_i p) (p_tokens p)"

definition step :: "nat \<Rightarrow> pstate \<Rightarrow> pstate" where
  "step k p = p\<lparr>p_i := p_i p + k\<rparr>"

lemma left_step [simp]: "left (step k p) = drop k (left p)"
  by (simp add: left_def step_def add.commute)

lemma step_step [simp]: "step j (step k p) = step (k + j) p"
  by (simp add: step_def add.assoc)

lemma step_0 [simp]: "step 0 p = p"
  by (simp add: step_def)

lemma left_Cons: "left p = t # ts \<Longrightarrow> p_i p < length (p_tokens p) \<and> p_tokens p ! p_i p = t"
  unfolding left_def by (metis drop_eq_Nil hd_drop_conv_nth leI list.distinct(1) list.sel(1))

lemma peek_Cons [simp]: "left p = t # ts \<Longrightarrow> peek p = Inr (t, p)"
  using left_Cons by (simp add: peek_def token_at_def monad_defs)

lemma fetch_Cons [simp]: "left p = t # ts \<Longrightarrow> fetch p = Inr (t, step 1 p)"
  by (simp add: fetch_def advance_def monad_defs step_def)

lemma check_token_Cons [simp]:
  "left p = t # ts \<Longrightarrow> check_token k p = (if t = TKw k then Inr (True, step 1 p) else Inr (False, p))"
  by (simp add: check_token_def advance_def monad_defs step_def)

lemma expect_sym_Cons: "left p = TSym s # ts \<Longrightarrow> expect_sym p = Inr (s, step 1 p)"
  by (simp add: expect_sym_def monad_defs)

lemma parse_error_is: "\<exists>m. parse_error msg p = Inl (KconfigError m)"
  by (simp add: parse_error_def monad_defs)

lemma advance_is [simp]: "advance p = Inr ((), step 1 p)"
  by (simp add: advance_def monad_defs step_def)

lemma tok_rel_simps [simp]:
  "tok_rel (TKw T_OR) = None" "tok_rel (TKw T_AND) = None" "tok_rel (TKw T_CLOSE_PAREN) = None" "tok_rel TNone = None"
  by (simp_all add: tok_rel_def)

subsection \<open>Every phrase of the grammar is parsed\<close>

lemma parse_complete:
  "is_expr tm ts e \<Longrightarrow> left p = ts @ r # rest \<Longrightarrow> tok_rel r = None \<Longrightarrow> r \<noteq> TKw T_AND \<Longrightarrow> r \<noteq> TKw T_OR \<Longrightarrow>
     3 * length ts + 3 \<le> n \<Longrightarrow> parse_expr n tm p = Inr (e, step (length ts) p)"
  "is_and tm ts e \<Longrightarrow> left p = ts @ r # rest \<Longrightarrow> tok_rel r = None \<Longrightarrow> r \<noteq> TKw T_AND \<Longrightarrow>
     3 * length ts + 2 \<le> n \<Longrightarrow> parse_and_expr n tm p = Inr (e, step (length ts) p)"
  "is_factor tm ts e \<Longrightarrow> left p = ts @ r # rest \<Longrightarrow> tok_rel r = None \<Longrightarrow>
     3 * length ts + 1 \<le> n \<Longrightarrow> parse_factor n tm p = Inr (e, step (length ts) p)"
proof (induction arbitrary: p r rest n and p r rest n and p r rest n rule: is_expr_induct)
  case (expr_and tm ts a)
  then obtain n' where n: "n = Suc n'" by (cases n) auto
  have "parse_and_expr n' tm p = Inr (a, step (length ts) p)"
    using expr_and.IH [OF expr_and.prems(1,2,3)] expr_and.prems n by simp
  moreover have "left (step (length ts) p) = r # rest" using expr_and.prems by simp
  ultimately show ?case using n expr_and.prems(4) by (simp add: bind_def ret_def)
next
  case (expr_or tm ts a us b)
  then obtain n' where n: "n = Suc n'" by (cases n) auto
  have 1: "parse_and_expr n' tm p = Inr (a, step (length ts) p)"
    using expr_or.IH(1) [of p "TKw T_OR" "us @ r # rest" n'] expr_or.prems n by simp
  have 2: "left (step (length ts) p) = TKw T_OR # us @ r # rest" using expr_or.prems by simp
  then have 3: "left (step (Suc (length ts)) p) = us @ r # rest" by (simp add: drop_Suc drop_tl)
  have "parse_expr n' tm (step (Suc (length ts)) p) = Inr (b, step (length us) (step (Suc (length ts)) p))"
    by (rule expr_or.IH(2) [OF 3]) (use expr_or.prems n in auto)
  with 1 2 show ?case using n by (simp add: bind_def ret_def)
next
  case (and_factor tm ts a)
  then obtain n' where n: "n = Suc n'" by (cases n) auto
  have "parse_factor n' tm p = Inr (a, step (length ts) p)"
    using and_factor.IH [OF and_factor.prems(1,2)] and_factor.prems n by simp
  moreover have "left (step (length ts) p) = r # rest" using and_factor.prems by simp
  ultimately show ?case using n and_factor.prems(3) by (simp add: bind_def ret_def)
next
  case (and_and tm ts a us b)
  then obtain n' where n: "n = Suc n'" by (cases n) auto
  have 1: "parse_factor n' tm p = Inr (a, step (length ts) p)"
    using and_and.IH(1) [of p "TKw T_AND" "us @ r # rest" n'] and_and.prems n by simp
  have 2: "left (step (length ts) p) = TKw T_AND # us @ r # rest" using and_and.prems by simp
  then have 3: "left (step (Suc (length ts)) p) = us @ r # rest" by (simp add: drop_Suc drop_tl)
  have "parse_and_expr n' tm (step (Suc (length ts)) p) = Inr (b, step (length us) (step (Suc (length ts)) p))"
    by (rule and_and.IH(2) [OF 3]) (use and_and.prems n in auto)
  with 1 2 show ?case using n by (simp add: bind_def ret_def)
next
  case (factor_sym tm s)
  then obtain n' where n: "n = Suc n'" by (cases n) auto
  have "left (step 1 p) = r # rest" using factor_sym.prems by simp
  then show ?case using n factor_sym.prems by (simp add: bind_def ret_def sym_expr_def)
next
  case (factor_rel t x tm s s')
  then obtain n' where n: "n = Suc n'" by (cases n) auto
  have 1: "left (step 1 p) = t # TSym s' # r # rest" and "left (step 2 p) = TSym s' # r # rest"
    using factor_rel.prems by simp_all
  then have 2: "expect_sym (step 2 p) = Inr (s', step 3 p)" using expect_sym_Cons [of "step 2 p"] by simp
  from 1 have "peek (step 1 p) = Inr (t, step 1 p)" by (rule peek_Cons)
  with 2 show ?case using n factor_rel by (simp add: bind_def ret_def numeral_eq_Suc)
next
  case (factor_not tm ts a)
  then obtain n' where n: "n = Suc n'" by (cases n) auto
  have 1: "left (step 1 p) = ts @ r # rest" using factor_not.prems by simp
  have "parse_factor n' tm (step 1 p) = Inr (a, step (length ts) (step 1 p))"
    by (rule factor_not.IH [OF 1]) (use factor_not.prems n in auto)
  then show ?case using n factor_not.prems by (simp add: bind_def ret_def)
next
  case (factor_paren tm ts a)
  then obtain n' where n: "n = Suc n'" by (cases n) auto
  have 1: "left (step 1 p) = ts @ TKw T_CLOSE_PAREN # r # rest" using factor_paren.prems by simp
  have 2: "left (step (length ts) (step 1 p)) = TKw T_CLOSE_PAREN # r # rest"
    using factor_paren.prems by simp
  have "parse_expr n' tm (step 1 p) = Inr (a, step (length ts) (step 1 p))"
    by (rule factor_paren.IH [OF 1]) (use factor_paren.prems n in auto)
  with 2 show ?case using n factor_paren.prems by (simp add: bind_def ret_def)
qed

subsection \<open>Only phrases of the grammar are parsed\<close>

text \<open>
  On tokens that end with \<open>None\<close>, a parser with enough fuel either raises a \<open>KconfigError\<close>, or
  consumes a phrase.
\<close>

definition parses :: "(bool \<Rightarrow> token list \<Rightarrow> expr \<Rightarrow> bool) \<Rightarrow> expr pp \<Rightarrow> bool \<Rightarrow> token list \<Rightarrow> pstate \<Rightarrow> bool" where
  "parses G m tm ts p =
     ((\<exists>msg. m p = Inl (KconfigError msg)) \<or>
      (\<exists>e us vs. ts = us @ vs \<and> G tm us e \<and> m p = Inr (e, step (length us) p)))"

lemma parsesE:
  assumes "parses G m tm ts p"
  obtains msg where "m p = Inl (KconfigError msg)"
  | e us vs where "ts = us @ vs" "G tm us e" "m p = Inr (e, step (length us) p)"
  using assms unfolding parses_def by blast

lemma parses_error: "m p = parse_error msg q \<Longrightarrow> parses G m tm ts p"
  using parse_error_is [of msg q] by (auto simp: parses_def)

lemma parses_raised: "m p = Inl (KconfigError msg) \<Longrightarrow> parses G m tm ts p"
  by (auto simp: parses_def)

lemma parsesI: "m p = Inr (e, step (length us) p) \<Longrightarrow> ts = us @ vs \<Longrightarrow> G tm us e \<Longrightarrow> parses G m tm ts p"
  unfolding parses_def by blast

text \<open>A phrase, then possibly an operator and a phrase of the same kind.\<close>

lemma parses_chain:
  assumes "parses G f tm ts p" and left: "left p = ts @ [TNone]"
    and "\<And>us vs. ts = us @ TKw k # vs \<Longrightarrow> parses H g tm vs (step (length us + 1) p)"
    and "\<And>us e. G tm us e \<Longrightarrow> H tm us e"
    and "\<And>us vs a b. G tm us a \<Longrightarrow> H tm vs b \<Longrightarrow> H tm (us @ TKw k # vs) (c a b)"
  shows "parses H (bind f (\<lambda>a. bind (check_token k) (\<lambda>x. if x then bind g (\<lambda>b. ret (c a b)) else ret a))) tm ts p"
  using assms(1)
proof (cases rule: parsesE)
  case (1 msg)
  then show ?thesis by (intro parses_raised) (simp add: bind_def)
next
  case (2 e us vs)
  show ?thesis
  proof (cases "\<exists>ws. vs = TKw k # ws")
    case True
    then obtain ws where vs: "vs = TKw k # ws" by blast
    then have l: "left (step (length us) p) = TKw k # ws @ [TNone]" using left 2 by simp
    have "parses H g tm ws (step (length us + 1) p)" using assms(3) 2 vs by blast
    then show ?thesis
    proof (cases rule: parsesE)
      case (1 msg)
      then show ?thesis using 2 l by (intro parses_raised) (simp add: bind_def)
    next
      case (2 b us' vs')
      show ?thesis
        by (rule parsesI [where us = "us @ TKw k # us'" and vs = vs'])
          (use 2 \<open>f p = _\<close> \<open>ts = _\<close> \<open>G tm us e\<close> l vs assms(5) in \<open>simp_all add: bind_def ret_def\<close>)
    qed
  next
    case False
    obtain t rest where l: "left (step (length us) p) = t # rest" and "t \<noteq> TKw k"
      using left 2 False by (cases vs) auto
    then show ?thesis using 2 assms(4) by (intro parsesI [OF _ 2(1)]) (simp_all add: bind_def ret_def)
  qed
qed

lemma parse_sound:
  "left p = ts @ [TNone] \<Longrightarrow> TNone \<notin> set ts \<Longrightarrow> 3 * length ts + 3 \<le> n \<Longrightarrow> parses is_expr (parse_expr n tm) tm ts p"
  "left p = ts @ [TNone] \<Longrightarrow> TNone \<notin> set ts \<Longrightarrow> 3 * length ts + 2 \<le> n \<Longrightarrow> parses is_and (parse_and_expr n tm) tm ts p"
  "left p = ts @ [TNone] \<Longrightarrow> TNone \<notin> set ts \<Longrightarrow> 3 * length ts + 1 \<le> n \<Longrightarrow> parses is_factor (parse_factor n tm) tm ts p"
proof (induction n tm and n tm and n tm arbitrary: p ts and p ts and p ts rule: parse_expr_parse_and_expr_parse_factor.induct)
  case (2 n tm)
  show ?case unfolding parse_expr.simps
  proof (rule parses_chain [OF _ 2(3)])
    show "parses is_and (parse_and_expr n tm) tm ts p" by (rule 2(1)) (use 2 in auto)
    show "parses is_expr (parse_expr n tm) tm vs (step (length us + 1) p)" if "ts = us @ TKw T_OR # vs" for us vs
      by (rule 2(2)) (use 2 that in auto)
  qed (auto intro: is_expr_is_and_is_factor.intros)
next
  case (4 n tm)
  show ?case unfolding parse_and_expr.simps
  proof (rule parses_chain [OF _ 4(3)])
    show "parses is_factor (parse_factor n tm) tm ts p" by (rule 4(1)) (use 4 in auto)
    show "parses is_and (parse_and_expr n tm) tm vs (step (length us + 1) p)" if "ts = us @ TKw T_AND # vs" for us vs
      by (rule 4(2)) (use 4 that in auto)
  qed (auto intro: is_expr_is_and_is_factor.intros)
next
  case (6 n tm)
  show ?case
  proof (cases ts)
    case Nil
    then have "left p = [TNone]" using 6 by simp
    then show ?thesis by (intro parses_error) (simp add: bind_def)
  next
    case (Cons t us)
    then have l: "left p = t # us @ [TNone]" and l1: "left (step 1 p) = us @ [TNone]" using 6 by simp_all
    show ?thesis
    proof (cases t)
      case TNone
      with 6 Cons show ?thesis by simp
    next
      case (TStr x)
      with l show ?thesis by (intro parses_error) (simp add: bind_def)
    next
      case (TSym s)
      obtain u vs where u: "left (step 1 p) = u # vs" using l1 by (cases us) auto
      show ?thesis
      proof (cases "tok_rel u")
        case None
        then have "parse_factor (Suc n) tm p = Inr (sym_expr tm s, step (length [TSym s]) p)"
          using l u TSym by (simp add: bind_def ret_def sym_expr_def)
        then show ?thesis by (rule parsesI [where vs = us]) (simp_all only: Cons TSym factor_sym append.simps)
      next
        case (Some r)
        then have "u \<noteq> TNone" by auto
        with u l1 obtain us' where us: "us = u # us'" "vs = us' @ [TNone]" by (cases us) auto
        then have l2: "left (step 2 p) = us' @ [TNone]" using l by (simp add: numeral_eq_Suc)
        show ?thesis
        proof (cases "\<exists>s' ws. us' = TSym s' # ws")
          case True
          then obtain s' ws where us': "us' = TSym s' # ws" by blast
          then have "expect_sym (step 2 p) = Inr (s', step 3 p)" using expect_sym_Cons [of "step 2 p"] l2 by simp
          then show ?thesis using l u TSym Cons us us' Some
            by (intro parsesI [where e = "Rel r s s'" and us = "[TSym s, u, TSym s']" and vs = ws])
              (simp_all add: bind_def ret_def factor_rel numeral_eq_Suc)
        next
          case False
          then obtain v vs' where v: "left (step 2 p) = v # vs'" "\<And>s'. v \<noteq> TSym s'"
            using l2 by (cases us'; cases "hd us'") auto
          then have "expect_sym (step 2 p) = parse_error ''expected symbol'' (step 3 p)"
            by (cases v) (auto simp: expect_sym_def bind_def)
          then obtain m where "expect_sym (step 2 p) = Inl (KconfigError m)" using parse_error_is by metis
          then show ?thesis using l u TSym Some by (intro parses_raised) (simp add: bind_def numeral_eq_Suc)
        qed
      qed
    next
      case (TKw k)
      consider "k = T_NOT" | "k = T_OPEN_PAREN" | "k \<noteq> T_NOT" "k \<noteq> T_OPEN_PAREN" by blast
      then show ?thesis
      proof cases
        case 1
        have "parses is_factor (parse_factor n tm) tm us (step 1 p)" by (rule 6(1)) (use 6 Cons TKw 1 l1 in auto)
        then show ?thesis
        proof (cases rule: parsesE)
          case (1 msg)
          then show ?thesis using l TKw \<open>k = T_NOT\<close> by (intro parses_raised) (simp add: bind_def)
        next
          case (2 e us' vs)
          then show ?thesis using l TKw \<open>k = T_NOT\<close> Cons
            by (intro parsesI [where e = "NOT e" and us = "TKw T_NOT # us'" and vs = vs]) (simp_all add: bind_def ret_def factor_not)
        qed
      next
        case 2
        have "parses is_expr (parse_expr n tm) tm us (step 1 p)" by (rule 6(2)) (use 6 Cons TKw 2 l1 in auto)
        then show ?thesis
        proof (cases rule: parsesE)
          case (1 msg)
          then show ?thesis using l TKw \<open>k = T_OPEN_PAREN\<close> by (intro parses_raised) (simp add: bind_def)
        next
          case (2 e us' vs)
          then have l': "left (step (Suc (length us')) p) = vs @ [TNone]" using l by simp
          show ?thesis
          proof (cases "\<exists>ws. vs = TKw T_CLOSE_PAREN # ws")
            case True
            then obtain ws where "vs = TKw T_CLOSE_PAREN # ws" by blast
            then show ?thesis using 2 l l' TKw \<open>k = T_OPEN_PAREN\<close> Cons
              by (intro parsesI [where e = e and us = "TKw T_OPEN_PAREN # us' @ [TKw T_CLOSE_PAREN]" and vs = ws])
                (simp_all add: bind_def ret_def factor_paren)
          next
            case False
            then obtain t' rest where "left (step (Suc (length us')) p) = t' # rest" "t' \<noteq> TKw T_CLOSE_PAREN"
              using l' by (cases vs) auto
            then show ?thesis using 2 l TKw \<open>k = T_OPEN_PAREN\<close>
              by (intro parses_error) (simp add: bind_def)
          qed
        qed
      next
        case 3
        with l TKw show ?thesis by (intro parses_error) (simp add: bind_def)
      qed
    qed
  qed
qed simp_all

lemma parse_error_case:
  "(case parse_error msg p of Inl e \<Rightarrow> Inl e | Inr (x, q) \<Rightarrow> f x q) = parse_error msg p"
  by (simp add: parse_error_def monad_defs)

lemma expect_expr_iff:
  assumes "left p = ts @ [TNone]" and "TNone \<notin> set ts" and "3 * length ts + 3 \<le> n"
  shows "expect_expr_and_eol n p = Inr (e, p') \<longleftrightarrow> is_expr True ts e \<and> p' = step (length ts) p"
    and "(\<nexists>e. is_expr True ts e) \<Longrightarrow> \<exists>msg. expect_expr_and_eol n p = Inl (KconfigError msg)"
proof -
  have good: "expect_expr_and_eol n p = Inr (e, step (length ts) p)" if "is_expr True ts e" for e
  proof -
    have "parse_expr n True p = Inr (e, step (length ts) p)"
      by (rule parse_complete(1) [OF that, of p TNone "[]"]) (use assms in auto)
    moreover have "left (step (length ts) p) = [TNone]" using assms by simp
    ultimately show ?thesis by (simp add: expect_expr_and_eol_def expect_eol_def bind_def ret_def)
  qed
  have bad: "\<exists>msg. expect_expr_and_eol n p = Inl (KconfigError msg)" if "\<nexists>e. is_expr True ts e"
    using parse_sound(1) [OF assms, of True]
  proof (rule parsesE)
    fix msg assume "parse_expr n True p = Inl (KconfigError msg)"
    then show ?thesis by (simp add: expect_expr_and_eol_def bind_def)
  next
    fix e us vs assume *: "ts = us @ vs" "is_expr True us e" "parse_expr n True p = Inr (e, step (length us) p)"
    with that have "vs \<noteq> []" by auto
    then obtain v ws where "vs = v # ws" by (cases vs) auto
    then have "peek (step (length us) p) = Inr (v, step (length us) p)" "v \<noteq> TNone"
      using * assms peek_Cons [of "step (length us) p" v] by auto
    then have "expect_expr_and_eol n p = parse_error ''extra tokens at end of line'' (step (length us) p)"
      using * by (simp add: expect_expr_and_eol_def expect_eol_def trailing_tokens_error_def bind_def parse_error_case)
    then show ?thesis using parse_error_is by metis
  qed
  show "(\<nexists>e. is_expr True ts e) \<Longrightarrow> \<exists>msg. expect_expr_and_eol n p = Inl (KconfigError msg)" by (rule bad)
  show "expect_expr_and_eol n p = Inr (e, p') \<longleftrightarrow> is_expr True ts e \<and> p' = step (length ts) p"
  proof
    assume run: "expect_expr_and_eol n p = Inr (e, p')"
    then obtain e' where "is_expr True ts e'" using bad by fastforce
    with good [of e'] run show "is_expr True ts e \<and> p' = step (length ts) p" by simp
  next
    assume "is_expr True ts e \<and> p' = step (length ts) p"
    then show "expect_expr_and_eol n p = Inr (e, p')" using good by simp
  qed
qed

section \<open>The tokens of a printed expression\<close>

definition rel_tok :: "relop \<Rightarrow> token" where
  "rel_tok r = TKw (case r of EQUAL \<Rightarrow> T_EQUAL | UNEQUAL \<Rightarrow> T_UNEQUAL | LESS \<Rightarrow> T_LESS
     | LESS_EQUAL \<Rightarrow> T_LESS_EQUAL | GREATER \<Rightarrow> T_GREATER | GREATER_EQUAL \<Rightarrow> T_GREATER_EQUAL)"

lemma tok_rel_rel_tok [simp]: "tok_rel (rel_tok r) = Some r"
  by (cases r) (simp_all add: tok_rel_def rel_tok_def)

fun item_tok :: "item \<Rightarrow> token" where
  "item_tok (Sym s) = TSym s"
| "item_tok (Cho c) = TNone"

abbreviation paren :: "bool \<Rightarrow> token list \<Rightarrow> token list" where
  "paren b ts \<equiv> (if b then TKw T_OPEN_PAREN # ts @ [TKw T_CLOSE_PAREN] else ts)"

fun expr_toks :: "expr \<Rightarrow> token list" where
  "expr_toks (Item x) = [item_tok x]"
| "expr_toks (AND a b) = paren (is_op OpOR a) (expr_toks a) @ TKw T_AND # paren (is_op OpOR b) (expr_toks b)"
| "expr_toks (OR a b) = paren (is_op OpAND a) (expr_toks a) @ TKw T_OR # paren (is_op OpAND b) (expr_toks b)"
| "expr_toks (NOT a) = TKw T_NOT # paren (is_tuple a) (expr_toks a)"
| "expr_toks (Rel r x y) = [TSym x, rel_tok r, TSym y]"

text \<open>Expressions over symbols, and what \<open>m\<close> means in a condition.\<close>

definition over_syms :: "expr \<Rightarrow> bool" where
  "over_syms e = (\<forall>c. Cho c \<notin> set (expr_items e))"

fun m_modules :: "expr \<Rightarrow> expr" where
  "m_modules (Item x) = (if x = Sym (SymC ''m'') then AND km (Item (Sym modules)) else Item x)"
| "m_modules (AND a b) = AND (m_modules a) (m_modules b)"
| "m_modules (OR a b) = OR (m_modules a) (m_modules b)"
| "m_modules (NOT a) = NOT (m_modules a)"
| "m_modules (Rel r x y) = Rel r x y"

definition same_value :: "expr \<Rightarrow> expr \<Rightarrow> bool" where
  "same_value a b = (\<forall>ty tv sv. eval ty tv sv a = eval ty tv sv b)"

lemma same_value_intros [intro]:
  "same_value a a" "same_value a b \<Longrightarrow> same_value c d \<Longrightarrow> same_value (AND a c) (AND b d)"
  "same_value a b \<Longrightarrow> same_value c d \<Longrightarrow> same_value (OR a c) (OR b d)" "same_value a b \<Longrightarrow> same_value (NOT a) (NOT b)"
  by (simp_all add: same_value_def)

lemma same_value_trans: "same_value a b \<Longrightarrow> same_value b c \<Longrightarrow> same_value a c"
  by (simp add: same_value_def)

text \<open>Chains of \<open>&&\<close> and \<open>||\<close> are parsed to the right, whatever the shape of the printed expression.\<close>

lemma chain_append:
  "is_expr tm ts a \<Longrightarrow> is_expr tm us b \<Longrightarrow> \<exists>c. is_expr tm (ts @ TKw T_OR # us) c \<and> same_value c (OR a b)"
  "is_and tm ts a \<Longrightarrow> is_and tm us b \<Longrightarrow> \<exists>c. is_and tm (ts @ TKw T_AND # us) c \<and> same_value c (AND a b)"
  "is_factor tm ts a \<Longrightarrow> True"
proof (induction arbitrary: us b and us b rule: is_expr_induct)
  case (expr_or tm ts a vs d)
  then obtain c where c: "is_expr tm (vs @ TKw T_OR # us) c" "same_value c (OR d b)" by blast
  have "is_expr tm (ts @ TKw T_OR # vs @ TKw T_OR # us) (OR a c)"
    using is_expr_is_and_is_factor.expr_or [OF expr_or.hyps(1) c(1)] by simp
  moreover have "same_value (OR a c) (OR (OR a d) b)" using c(2) by (auto simp: same_value_def max.assoc)
  ultimately show ?case by auto
next
  case (and_and tm ts a vs d)
  then obtain c where c: "is_and tm (vs @ TKw T_AND # us) c" "same_value c (AND d b)" by blast
  have "is_and tm (ts @ TKw T_AND # vs @ TKw T_AND # us) (AND a c)"
    using is_expr_is_and_is_factor.and_and [OF and_and.hyps(1) c(1)] by simp
  moreover have "same_value (AND a c) (AND (AND a d) b)" using c(2) by (auto simp: same_value_def min.assoc)
  ultimately show ?case by auto
qed (auto intro: is_expr_is_and_is_factor.intros)

lemma over_syms_simps [simp]:
  "over_syms (AND a b) \<longleftrightarrow> over_syms a \<and> over_syms b" "over_syms (OR a b) \<longleftrightarrow> over_syms a \<and> over_syms b"
  "over_syms (NOT a) = over_syms a" "over_syms (Rel r x y)" "over_syms (Item i) \<longleftrightarrow> (\<exists>s. i = Sym s)"
  by (auto simp: over_syms_def intro: item.exhaust)

lemma is_op_simps [simp]:
  "is_op op (AND a b) \<longleftrightarrow> op = OpAND" "is_op op (OR a b) \<longleftrightarrow> op = OpOR" "\<not> is_op op (Item i)"
  "\<not> is_op op (NOT a)" "\<not> is_op op (Rel r x y)"
  by (auto simp: is_op_def)

lemma paren_phrase:
  assumes "\<exists>c. is_expr tm (expr_toks a) c \<and> same_value c v" and "\<not> b \<Longrightarrow> \<exists>c. is_and tm (expr_toks a) c \<and> same_value c v"
  shows "\<exists>c. is_and tm (paren b (expr_toks a)) c \<and> same_value c v"
  using assms by (cases b) (auto intro!: and_factor factor_paren)

lemma printed_phrase:
  "over_syms e \<Longrightarrow>
     (\<exists>c. is_expr True (expr_toks e) c \<and> same_value c (m_modules e)) \<and>
     (\<not> is_op OpOR e \<longrightarrow> (\<exists>c. is_and True (expr_toks e) c \<and> same_value c (m_modules e))) \<and>
     (\<not> is_op OpOR e \<longrightarrow> \<not> is_op OpAND e \<longrightarrow> (\<exists>c. is_factor True (expr_toks e) c \<and> same_value c (m_modules e)))"
proof (induction e)
  case (Item x)
  then obtain s where x: "x = Sym s" by auto
  have "is_factor True (expr_toks (Item x)) (m_modules (Item x))"
    using factor_sym [of True s] by (simp add: x sym_expr_def)
  then show ?case by (blast intro: is_expr_is_and_is_factor.intros)
next
  case (AND a b)
  have "\<exists>c. is_and True (paren (is_op OpOR a) (expr_toks a)) c \<and> same_value c (m_modules a)"
    by (rule paren_phrase) (use AND in \<open>simp_all only: over_syms_simps simp_thms\<close>)
  moreover have "\<exists>c. is_and True (paren (is_op OpOR b) (expr_toks b)) c \<and> same_value c (m_modules b)"
    by (rule paren_phrase) (use AND in \<open>simp_all only: over_syms_simps simp_thms\<close>)
  ultimately obtain c d where c: "is_and True (paren (is_op OpOR a) (expr_toks a)) c" "same_value c (m_modules a)"
    "is_and True (paren (is_op OpOR b) (expr_toks b)) d" "same_value d (m_modules b)" by blast
  obtain f where "is_and True (expr_toks (AND a b)) f" "same_value f (AND c d)"
    using chain_append(2) [OF c(1,3)] by auto
  then have "is_and True (expr_toks (AND a b)) f \<and> same_value f (m_modules (AND a b))"
    using same_value_trans [OF _ same_value_intros(2) [OF c(2,4)]] by simp
  then show ?case by (metis expr_and is_op_simps(1))
next
  case (OR a b)
  have par: "\<exists>c. is_expr True (paren (is_op OpAND e) (expr_toks e)) c \<and> same_value c v"
    if "\<exists>c. is_expr True (expr_toks e) c \<and> same_value c v" for e v
    using that by (auto intro!: expr_and and_factor factor_paren)
  obtain c d where c: "is_expr True (paren (is_op OpAND a) (expr_toks a)) c" "same_value c (m_modules a)"
    "is_expr True (paren (is_op OpAND b) (expr_toks b)) d" "same_value d (m_modules b)"
    using par OR by (metis over_syms_simps(2))
  obtain f where "is_expr True (expr_toks (OR a b)) f" "same_value f (OR c d)"
    using chain_append(1) [OF c(1,3)] by auto
  then have "is_expr True (expr_toks (OR a b)) f \<and> same_value f (m_modules (OR a b))"
    using same_value_trans [OF _ same_value_intros(3) [OF c(2,4)]] by simp
  then show ?case by (metis is_op_simps(2))
next
  case (NOT a)
  have "\<exists>c. is_factor True (paren (is_tuple a) (expr_toks a)) c \<and> same_value c (m_modules a)"
  proof (cases "is_tuple a")
    case True
    moreover obtain c where "is_expr True (expr_toks a) c" "same_value c (m_modules a)" using NOT by auto
    ultimately show ?thesis using factor_paren by auto
  next
    case False
    then have "\<not> is_op OpOR a" "\<not> is_op OpAND a" by (cases a; simp add: is_tuple_def)+
    with False NOT show ?thesis by auto
  qed
  then obtain c where "is_factor True (paren (is_tuple a) (expr_toks a)) c" "same_value c (m_modules a)" by blast
  then have "is_factor True (expr_toks (NOT a)) (NOT c) \<and> same_value (NOT c) (m_modules (NOT a))"
    using factor_not [of True "paren (is_tuple a) (expr_toks a)" c] by (simp add: same_value_def)
  then show ?case by (blast intro: is_expr_is_and_is_factor.intros)
next
  case (Rel r x y)
  have "is_factor True (expr_toks (Rel r x y)) (m_modules (Rel r x y))"
    by (simp add: factor_rel)
  then show ?case by (blast intro: is_expr_is_and_is_factor.intros)
qed

end
