(* ===== verification/PrintParse.thy ===== *)
theory PrintParse
  imports ParseExpr Output
begin

text \<open>
  Printing an expression with \<open>expr_str\<close> and evaluating the text with \<open>Kconfig.eval_string\<close>: the text
  is tokenized into the symbols and operators of the expression, parsed into an expression of the same
  value, and evaluated.
\<close>

section \<open>Names\<close>

text \<open>
  The symbols that the text can name: registered symbols with the characters of an identifier, and
  constant symbols. Macros are expanded in strings, so a constant must not contain \<^verbatim>\<open>$\<close>.
\<close>

definition nameable :: "string list \<Rightarrow> symref \<Rightarrow> bool" where
  "nameable syms s = (case s of
     SymN x \<Rightarrow> x \<noteq> [] \<and> list_all id_char x \<and> CHR ''$'' \<notin> set x \<and> get_keyword x = None \<and> str_to_tri x = None \<and>
       x \<in> set syms
   | SymC x \<Rightarrow> CHR ''$'' \<notin> set x)"

definition printable_expr :: "string list \<Rightarrow> expr \<Rightarrow> bool" where
  "printable_expr syms e = (\<forall>i \<in> set (expr_items e). \<exists>s. i = Sym s \<and> nameable syms s)"

abbreviation sc_str :: "item \<Rightarrow> string" where
  "sc_str \<equiv> standard_sc_expr_str (\<lambda>_. None)"

lemma printable_over_syms: "printable_expr syms e \<Longrightarrow> over_syms e"
  by (force simp: printable_expr_def over_syms_def)

lemma printable_simps [simp]:
  "printable_expr syms (AND a b) \<longleftrightarrow> printable_expr syms a \<and> printable_expr syms b"
  "printable_expr syms (OR a b) \<longleftrightarrow> printable_expr syms a \<and> printable_expr syms b"
  "printable_expr syms (NOT a) = printable_expr syms a"
  "printable_expr syms (Rel r x y) \<longleftrightarrow> nameable syms x \<and> nameable syms y"
  "printable_expr syms (Item i) \<longleftrightarrow> (\<exists>s. i = Sym s \<and> nameable syms s)"
  by (auto simp: printable_expr_def)

section \<open>Strings without macros\<close>

lemma replace_all_id: "p \<noteq> [] \<Longrightarrow> hd p \<notin> set s \<Longrightarrow> replace_all p r s = s"
proof (induction s)
  case Nil
  then show ?case by (subst replace_all.simps) (auto simp: startswith_def)
next
  case (Cons c s)
  then have "\<not> startswith (c # s) p" by (cases p) auto
  with Cons show ?case by (subst replace_all.simps) simp
qed

lemma expandvars_id: "CHR ''$'' \<notin> set s \<Longrightarrow> expandvars f s = s"
proof (induction s)
  case Nil
  then show ?case by (subst expandvars.simps) simp
next
  case (Cons c s)
  then have "c \<noteq> CHR ''$''" by auto
  with Cons show ?case by (subst expandvars.simps) (simp add: var_match_def)
qed

text \<open>Characters that are not special are skipped by a search.\<close>

lemma search_skip:
  assumes "\<And>a b. x = a @ b \<Longrightarrow> b \<noteq> [] \<Longrightarrow> p (b @ t) = None"
  shows "search p i (x @ t) = search p (i + length x) t"
  using assms
proof (induction x arbitrary: i)
  case (Cons c x)
  have "p ((c # x) @ t) = None" by (rule Cons.prems [of "[]"]) auto
  moreover have "search p (Suc i) (x @ t) = search p (Suc i + length x) t"
    by (rule Cons.IH) (use Cons.prems [of "c # a" for a] in auto)
  ultimately show ?case by simp
qed simp

lemma search_from_skip:
  assumes "\<And>a b. x = a @ b \<Longrightarrow> b \<noteq> [] \<Longrightarrow> p (b @ t) = None"
  shows "search_from p (pre @ x @ t) (length pre) = search p (length pre + length x) t"
proof -
  have "search p (length pre) (x @ t) = search p (length pre + length x) t" by (rule search_skip) (rule assms)
  then show ?thesis by (simp add: search_from_def)
qed

lemma string_special_None:
  "b \<noteq> [] \<Longrightarrow> hd b \<noteq> QUOT \<Longrightarrow> hd b \<noteq> CHR 0x27 \<Longrightarrow> hd b \<noteq> BSL \<Longrightarrow> hd b \<noteq> CHR ''$'' \<Longrightarrow>
    string_special (b @ t) = None"
  by (cases b) (simp_all add: string_special_def)

definition plain_char :: "char \<Rightarrow> bool" where
  "plain_char c = (c \<noteq> QUOT \<and> c \<noteq> CHR 0x27 \<and> c \<noteq> BSL \<and> c \<noteq> CHR ''$'')"

lemma search_string:
  assumes "list_all plain_char x"
  shows "search_from string_special (pre @ x @ t) (length pre) = search string_special (length pre + length x) t"
proof (rule search_from_skip)
  fix a b assume "x = a @ b" "b \<noteq> []"
  with assms show "string_special (b @ t) = None"
    by (intro string_special_None) (auto simp: plain_char_def neq_Nil_conv)
qed

text \<open>Reading an escaped string back.\<close>

lemma escape_split: "\<exists>x1 x2. x = x1 @ x2 \<and> list_all plain_char x1 \<and> (x2 = [] \<or> \<not> plain_char (hd x2))"
proof (intro exI conjI)
  show "x = takeWhile plain_char x @ dropWhile plain_char x" by simp
  show "list_all plain_char (takeWhile plain_char x)" by (auto simp: list_all_iff dest: set_takeWhileD)
  show "dropWhile plain_char x = [] \<or> \<not> plain_char (hd (dropWhile plain_char x))" using hd_dropWhile by blast
qed

lemma escape_plain: "list_all plain_char x \<Longrightarrow> escape x = x"
  by (induction x) (auto simp: plain_char_def)

lemma escape_append: "escape (x @ y) = escape x @ escape y"
  by (induction x) auto

lemma expand_str_loop_escape:
  assumes "CHR ''$'' \<notin> set x" and "length (escape x) < n"
  shows "expand_str_loop E n QUOT (pre @ escape x @ QUOT # r) (length pre) p =
    Inr ((pre @ x @ QUOT # r, length pre + length x + 1), p)"
  using assms
proof (induction n arbitrary: pre x)
  case (Suc n)
  obtain x1 x2 where x: "x = x1 @ x2" "list_all plain_char x1" "x2 = [] \<or> \<not> plain_char (hd x2)"
    using escape_split by blast
  have s: "search_from string_special (pre @ escape x @ QUOT # r) (length pre) =
      search string_special (length pre + length x1) (escape x2 @ QUOT # r)"
    using search_string [OF x(2), of pre "escape x2 @ QUOT # r"] x by (simp add: escape_append escape_plain)
  show ?case
  proof (cases x2)
    case Nil
    with s x show ?thesis by (simp add: string_special_def escape_plain ret_def)
  next
    case (Cons c y)
    then consider "c = BSL \<or> c = QUOT" | "c = CHR 0x27" using x Suc.prems by (auto simp: plain_char_def)
    then show ?thesis
    proof cases
      case 1
      with s Cons have "search_from string_special (pre @ escape x @ QUOT # r) (length pre) =
          Some ([BSL], length pre + length x1)" by (auto simp: string_special_def)
      moreover have "take (length pre + length x1) (pre @ escape x @ QUOT # r) @ drop (length pre + length x1 + 1) (pre @ escape x @ QUOT # r)
          = (pre @ x1 @ [c]) @ escape y @ QUOT # r"
        using 1 x Cons by (auto simp: escape_append escape_plain)
      ultimately show ?thesis
        using Suc.IH [of y "pre @ x1 @ [c]"] Suc.prems x Cons 1
        by (auto simp: escape_append escape_plain)
    next
      case 2
      with s Cons have g: "search_from string_special (pre @ escape x @ QUOT # r) (length pre) =
          Some ([CHR 0x27], length pre + length x1)" by (auto simp: string_special_def)
      obtain d z where z: "x = d # z" "escape x = d # escape z"
        using x Cons 2 by (cases x1) (auto simp: plain_char_def escape_append)
      have "expand_str_loop E n QUOT ((pre @ [d]) @ escape z @ QUOT # r) (length (pre @ [d])) p =
          Inr (((pre @ [d]) @ z @ QUOT # r, length (pre @ [d]) + length z + 1), p)"
        by (rule Suc.IH) (use Suc.prems z in auto)
      with g z show ?thesis by simp
    qed
  qed
qed simp

section \<open>One token at a time\<close>

text \<open>
  \<open>lexes E p w r ts\<close>: with the text \<open>r\<close> after it, the text \<open>w\<close> is tokenized into \<open>ts\<close>, without an
  effect on the state \<open>p\<close>.
\<close>

definition lexes :: "penv \<Rightarrow> pstate \<Rightarrow> string \<Rightarrow> string \<Rightarrow> token list \<Rightarrow> bool" where
  "lexes E p w r ts =
     ((\<forall>t \<in> set ts. \<not> string_lex t) \<and>
      (\<forall>n pre toks. CHR ''$'' \<notin> set pre \<longrightarrow> toks \<noteq> [] \<longrightarrow> hd toks \<noteq> TKw T_OPTION \<longrightarrow> \<not> string_lex (last toks) \<longrightarrow>
         length w + length r < n \<longrightarrow>
         (\<exists>m pre'. CHR ''$'' \<notin> set pre' \<and> length r < m \<and>
           token_loop E n (pre @ w @ r) (length pre) toks p = token_loop E m (pre' @ r) (length pre') (toks @ ts) p)))"

lemma lexesI:
  assumes "\<And>t. t \<in> set ts \<Longrightarrow> \<not> string_lex t"
    and "\<And>n pre toks. CHR ''$'' \<notin> set pre \<Longrightarrow> toks \<noteq> [] \<Longrightarrow> hd toks \<noteq> TKw T_OPTION \<Longrightarrow> \<not> string_lex (last toks) \<Longrightarrow>
       length w + length r < n \<Longrightarrow> (\<exists>m pre'. CHR ''$'' \<notin> set pre' \<and> length r < m \<and>
         token_loop E n (pre @ w @ r) (length pre) toks p = token_loop E m (pre' @ r) (length pre') (toks @ ts) p)"
  shows "lexes E p w r ts"
  using assms by (simp add: lexes_def)

lemma lexes_append:
  assumes "lexes E p v (w @ r) ts" and "lexes E p w r us"
  shows "lexes E p (v @ w) r (ts @ us)"
proof (rule lexesI)
  show "\<not> string_lex t" if "t \<in> set (ts @ us)" for t using that assms by (auto simp: lexes_def)
next
  fix n pre toks
  assume a: "CHR ''$'' \<notin> set pre" "toks \<noteq> []" "hd toks \<noteq> TKw T_OPTION" "\<not> string_lex (last toks)" "length (v @ w) + length r < n"
  then obtain m pre' where m: "CHR ''$'' \<notin> set pre'" "length (w @ r) < m"
    "token_loop E n (pre @ v @ w @ r) (length pre) toks p = token_loop E m (pre' @ w @ r) (length pre') (toks @ ts) p"
    using assms(1) unfolding lexes_def by (metis (no_types, lifting) add.assoc length_append)
  have "hd (toks @ ts) \<noteq> TKw T_OPTION" "\<not> string_lex (last (toks @ ts))"
    using a assms(1) by (cases ts rule: rev_cases; simp add: lexes_def)+
  then obtain m' pre'' where "CHR ''$'' \<notin> set pre''" "length r < m'"
    "token_loop E m (pre' @ w @ r) (length pre') (toks @ ts) p = token_loop E m' (pre'' @ r) (length pre'') ((toks @ ts) @ us) p"
    using assms(2) m a(2) unfolding lexes_def by (metis append_is_Nil_conv length_append)
  with m(3) show "\<exists>m pre'. CHR ''$'' \<notin> set pre' \<and> length r < m \<and>
      token_loop E n (pre @ (v @ w) @ r) (length pre) toks p = token_loop E m (pre' @ r) (length pre') (toks @ ts @ us) p" by auto
qed

text \<open>A token: it is recognized, and so is the space after it.\<close>

lemma lexes_token:
  assumes t: "\<not> string_lex t" and w: "w \<noteq> []" "CHR ''$'' \<notin> set w"
    and next_tok: "\<And>n pre prev t0. CHR ''$'' \<notin> set pre \<Longrightarrow> \<not> string_lex prev \<Longrightarrow> t0 \<noteq> TKw T_OPTION \<Longrightarrow> length w \<le> n \<Longrightarrow>
      \<exists>pre'. CHR ''$'' \<notin> set pre' \<and>
        next_token E n (pre @ w @ r) (length pre) prev t0 p = Inr (Some (t, pre' @ r, length pre'), p)"
  shows "lexes E p w r [t]"
proof (rule lexesI)
  fix n pre toks
  assume a: "CHR ''$'' \<notin> set pre" "toks \<noteq> []" "hd toks \<noteq> TKw T_OPTION" "\<not> string_lex (last toks)" "length w + length r < n"
  then obtain n' where n: "n = Suc n'" by (cases n) auto
  obtain pre' where pre': "CHR ''$'' \<notin> set pre'"
    "next_token E n' (pre @ w @ r) (length pre) (last toks) (hd toks) p = Inr (Some (t, pre' @ r, length pre'), p)"
    using next_tok [of pre "last toks" "hd toks" n'] a n by auto
  have "token_loop E n (pre @ w @ r) (length pre) toks p = token_loop E n' (pre' @ r) (length pre') (toks @ [t]) p"
    using pre' w n by (simp add: bind_def)
  moreover have "length r < n'" using a w n by (cases w) auto
  ultimately show "\<exists>m pre'. CHR ''$'' \<notin> set pre' \<and> length r < m \<and>
      token_loop E n (pre @ w @ r) (length pre) toks p = token_loop E m (pre' @ r) (length pre') (toks @ [t]) p"
    using pre' by blast
qed (use t in auto)

section \<open>Symbols and operators\<close>

text \<open>A space or none, then the rest of the text, which does not continue a word.\<close>

definition spaced :: "string \<Rightarrow> string \<Rightarrow> bool" where
  "spaced sp r = ((sp = [] \<or> sp = [SPC]) \<and> (r = [] \<or> \<not> py_isspace (hd r)) \<and> (sp = [] \<longrightarrow> r = [] \<or> \<not> id_char (hd r)))"

lemma spaced_SPC [simp]: "spaced [SPC] r \<longleftrightarrow> r = [] \<or> \<not> py_isspace (hd r)"
  by (simp add: spaced_def)

lemma space_chars [simp]:
  "py_isspace SPC" "re_space SPC" "\<not> id_char SPC" "\<not> id_char QUOT" "\<not> py_isspace QUOT" "\<not> re_space QUOT"
  "\<not> id_char (CHR ''('')" "\<not> id_char (CHR '')'')" "\<not> id_char (CHR ''!'')" "\<not> id_char (CHR ''&'')"
  "\<not> id_char (CHR ''|'')" "\<not> id_char (CHR ''='')" "\<not> id_char (CHR ''<'')" "\<not> id_char (CHR ''>'')"
  "\<not> py_isspace (CHR ''('')" "\<not> py_isspace (CHR '')'')" "\<not> py_isspace (CHR ''!'')" "\<not> py_isspace (CHR ''&'')"
  "\<not> py_isspace (CHR ''|'')" "\<not> py_isspace (CHR ''='')" "\<not> py_isspace (CHR ''<'')" "\<not> py_isspace (CHR ''>'')"
  by (simp_all add: py_isspace_def re_space_def id_char_def alnum_us_def Let_def)

lemma id_char_not_space: "id_char c \<Longrightarrow> \<not> py_isspace c"
  by (auto simp: py_isspace_def id_char_def alnum_us_def Let_def)

lemma re_space_isspace: "re_space c \<Longrightarrow> py_isspace c"
  by (auto simp: py_isspace_def re_space_def Let_def)

lemma spaced_takeWhile:
  assumes "spaced sp r"
  shows "takeWhile py_isspace (sp @ r) = sp" and "takeWhile re_space (sp @ r) = sp"
proof -
  have "takeWhile py_isspace r = []" "takeWhile re_space r = []"
    using assms re_space_isspace by (cases r; auto simp: spaced_def)+
  moreover have "sp = [] \<or> sp = [SPC]" using assms by (simp add: spaced_def)
  ultimately show "takeWhile py_isspace (sp @ r) = sp" "takeWhile re_space (sp @ r) = sp" by auto
qed

lemma span_spaced:
  assumes "spaced sp r"
  shows "span_end py_isspace (pre @ sp @ r) (length pre) = length pre + length sp"
    and "span_end re_space (pre @ sp @ r) (length pre) = length pre + length sp"
  using spaced_takeWhile [OF assms] by (simp_all add: span_end_append)

lemma takeWhile_word:
  assumes "list_all id_char x" and "spaced sp r"
  shows "takeWhile id_char (x @ sp @ r) = x"
proof -
  have "takeWhile id_char (sp @ r) = []" using assms(2) by (cases r) (auto simp: spaced_def)
  moreover have "\<forall>c \<in> set x. id_char c" using assms(1) by (simp add: list_all_iff)
  ultimately show ?thesis by (simp add: takeWhile_append2)
qed

lemma id_keyword_match_word:
  assumes "x \<noteq> []" and "list_all id_char x" and "spaced sp r"
  shows "id_keyword_match (pre @ x @ sp @ r) (length pre) = Some (x, length (pre @ x @ sp))"
proof -
  have "span_end id_char (pre @ x @ sp @ r) (length pre) = length pre + length x"
    using takeWhile_word [OF assms(2,3)] by (simp add: span_end_append)
  moreover have "span_end re_space ((pre @ x) @ sp @ r) (length (pre @ x)) = length (pre @ x) + length sp"
    by (rule span_spaced(2) [OF assms(3)])
  ultimately show ?thesis using assms(1)
    by (simp add: id_keyword_match_def Let_def slice_append)
qed

lemma next_token_word:
  assumes x: "x \<noteq> []" "list_all id_char x" "CHR ''$'' \<notin> set x" "get_keyword x = None" and s: "spaced sp r" "\<not> string_lex prev"
    and sym: "(if str_to_tri x \<noteq> None then ret (SymC x) else lookup_sym x) p = Inr (sy, p)"
  shows "next_token E n (pre @ (x @ sp) @ r) (length pre) prev t0 p = Inr (Some (TSym sy, (pre @ x @ sp) @ r, length (pre @ x @ sp)), p)"
  using id_keyword_match_word [OF x(1,2) s(1), of pre] assms
  by (simp add: next_token_def word_token_def bind_def ret_def)

lemma nameable_word:
  assumes x: "x \<noteq> []" "list_all id_char x" "CHR ''$'' \<notin> set x" "get_keyword x = None" and s: "spaced sp r"
    and sym: "(if str_to_tri x \<noteq> None then ret (SymC x) else lookup_sym x) p = Inr (sy, p)"
  shows "lexes E p (x @ sp) r [TSym sy]"
proof (rule lexes_token)
  have "CHR ''$'' \<notin> set sp" using s by (auto simp: spaced_def)
  with x show "x @ sp \<noteq> []" "CHR ''$'' \<notin> set (x @ sp)" by auto
  then have "CHR ''$'' \<notin> set x \<union> set sp" by simp
  then show "\<exists>pre'. CHR ''$'' \<notin> set pre' \<and> next_token E n (pre @ (x @ sp) @ r) (length pre) prev t0 p =
      Inr (Some (TSym sy, pre' @ r, length pre'), p)"
    if "CHR ''$'' \<notin> set pre" "\<not> string_lex prev" for n pre prev t0
    using next_token_word [OF x s that(2) sym, of E n pre t0] that(1)
    by (intro exI [of _ "pre @ x @ sp"]) auto
qed (simp add: string_lex_def image_iff)

lemma lexes_op:
  assumes o: "op_token (w @ sp @ r) = Some (k, length w)" and w: "w \<noteq> []" "CHR ''$'' \<notin> set w" "\<not> id_char (hd w)"
      "hd w \<notin> {QUOT, CHR 0x27, CHR ''#''}" "\<not> string_lex (TKw k)"
    and s: "sp = [] \<or> sp = [SPC]" "r = [] \<or> \<not> py_isspace (hd r)"
  shows "lexes E p (w @ sp) r [TKw k]"
proof (rule lexes_token)
  obtain c w' where c: "w = c # w'" using w by (cases w) auto
  have sp: "takeWhile py_isspace (sp @ r) = sp" using s by (cases r) auto
  show "w @ sp \<noteq> []" "CHR ''$'' \<notin> set (w @ sp)" using w s by auto
  show "\<exists>pre'. CHR ''$'' \<notin> set pre' \<and> next_token E n (pre @ (w @ sp) @ r) (length pre) prev t0 p =
      Inr (Some (TKw k, pre' @ r, length pre'), p)"
    if "CHR ''$'' \<notin> set pre" for n pre prev t0
  proof (intro exI [of _ "pre @ w @ sp"] conjI)
    have "id_keyword_match (pre @ w @ sp @ r) (length pre) = None"
      using w c by (simp add: id_keyword_match_def span_end_append Let_def)
    moreover have "span_end py_isspace (pre @ w @ sp @ r) (length pre + length w) = length pre + length w + length sp"
      using span_end_append [of py_isspace "pre @ w" "sp @ r"] sp by simp
    ultimately show "next_token E n (pre @ (w @ sp) @ r) (length pre) prev t0 p =
        Inr (Some (TKw k, (pre @ w @ sp) @ r, length (pre @ w @ sp)), p)"
      using o w c by (simp add: next_token_def bind_def ret_def nth_append)
    show "CHR ''$'' \<notin> set (pre @ w @ sp)" using that w s by auto
  qed
qed (use w in simp)

lemma next_token_string:
  assumes x: "CHR ''$'' \<notin> set x" and r: "CHR ''$'' \<notin> set r" and pre: "CHR ''$'' \<notin> set pre" and s: "spaced sp r" "\<not> string_lex prev"
    and t0: "t0 \<noteq> TKw T_OPTION" and p: "\<not> p_parsing p" and n: "length (escape x) < n"
  shows "\<exists>pre'. CHR ''$'' \<notin> set pre' \<and>
    next_token E n (pre @ (QUOT # escape x @ QUOT # sp) @ r) (length pre) prev t0 p =
      Inr (Some (TSym (SymC x), pre' @ r, length pre'), p)"
proof -
  let ?s = "pre @ (QUOT # escape x @ QUOT # sp) @ r"
  have esc: "CHR ''$'' \<notin> set (escape x)" using x by (induction x) auto
  have sp: "CHR ''$'' \<notin> set sp" using s by (auto simp: spaced_def)
  have nd: "CHR ''$'' \<notin> set ?s" using esc r pre sp by auto
  have no_id: "id_keyword_match ?s (length pre) = None"
    by (simp add: id_keyword_match_def span_end_append Let_def)
  have look: "lookup_const_sym x p = Inr (SymC x, p)" using p by (simp add: lookup_const_sym_def monad_defs)
  have str: "\<exists>pre1. CHR ''$'' \<notin> set pre1 \<and>
      string_token E n ?s (length pre) prev t0 p = Inr ((TSym (SymC x), pre1 @ sp @ r, length pre1), p)"
  proof (cases "BSL \<in> set ?s")
    case False
    then have e: "escape x = x" "QUOT \<notin> set x"
      by (induction x) (auto split: if_splits)
    have "search_from (\<lambda>u. if startswith u [QUOT] then Some [QUOT] else None) ((pre @ [QUOT]) @ x @ QUOT # sp @ r) (length (pre @ [QUOT]))
        = search (\<lambda>u. if startswith u [QUOT] then Some [QUOT] else None) (length (pre @ [QUOT]) + length x) (QUOT # sp @ r)"
      by (rule search_from_skip) (use e(2) in \<open>auto simp: neq_Nil_conv\<close>)
    then have f: "find_from [QUOT] ?s (length pre + 1) = Some (length pre + 1 + length x)"
      using e by (simp add: find_from_def)
    have sl: "slice ?s (length pre + 1) (length pre + 1 + length x) = x"
      using slice_append [of "pre @ [QUOT]" x "QUOT # sp @ r"] e by simp
    have "string_token E n ?s (length pre) prev t0 p =
        Inr ((TSym (SymC x), (pre @ QUOT # x @ [QUOT]) @ sp @ r, length (pre @ QUOT # x @ [QUOT])), p)"
      using False nd s t0 look f sl e by (simp add: string_token_def bind_def ret_def)
    then show ?thesis using x pre by (intro exI [of _ "pre @ QUOT # x @ [QUOT]"]) auto
  next
    case True
    have "expand_string E n ?s (length pre) p = expand_str_loop E n QUOT ((pre @ [QUOT]) @ escape x @ QUOT # sp @ r) (length (pre @ [QUOT])) p"
      by (simp add: expand_string_def)
    also have "\<dots> = Inr (((pre @ [QUOT]) @ x @ QUOT # sp @ r, length (pre @ [QUOT]) + length x + 1), p)"
      by (rule expand_str_loop_escape [OF x n])
    finally have f: "expand_string E n ?s (length pre) p =
        Inr (((pre @ [QUOT]) @ x @ QUOT # sp @ r, length (pre @ [QUOT]) + length x + 1), p)" .
    have sl: "slice ((pre @ [QUOT]) @ x @ QUOT # sp @ r) (length pre + 1) (length (pre @ [QUOT]) + length x + 1 - 1) = x"
      using slice_append [of "pre @ [QUOT]" x "QUOT # sp @ r"] by simp
    have id: "expandvars (e_environ E) (replace_all ''$UNAME_RELEASE'' (e_uname_release E) x) = x"
      using x by (simp add: replace_all_id expandvars_id)
    have "string_token E n ?s (length pre) prev t0 p =
        Inr ((TSym (SymC x), (pre @ QUOT # x @ [QUOT]) @ sp @ r, length (pre @ QUOT # x @ [QUOT])), p)"
      using True s t0 look f sl id by (simp add: string_token_def bind_def ret_def)
    then show ?thesis using x pre by (intro exI [of _ "pre @ QUOT # x @ [QUOT]"]) auto
  qed
  then obtain pre1 where 1: "CHR ''$'' \<notin> set pre1"
    "string_token E n ?s (length pre) prev t0 p = Inr ((TSym (SymC x), pre1 @ sp @ r, length pre1), p)" by blast
  have "next_token E n ?s (length pre) prev t0 p = Inr (Some (TSym (SymC x), (pre1 @ sp) @ r, length (pre1 @ sp)), p)"
    using no_id 1(2) span_spaced(1) [OF s(1), of pre1]
    by (simp add: next_token_def bind_def ret_def nth_append)
  moreover have "CHR ''$'' \<notin> set (pre1 @ sp)" using 1 s by (auto simp: spaced_def)
  ultimately show ?thesis by blast
qed

lemma lexes_string:
  assumes x: "CHR ''$'' \<notin> set x" and r: "CHR ''$'' \<notin> set r" and s: "spaced sp r" and p: "\<not> p_parsing p"
  shows "lexes E p (QUOT # escape x @ QUOT # sp) r [TSym (SymC x)]"
proof (rule lexes_token)
  have esc: "CHR ''$'' \<notin> set (escape x)" using x by (induction x) auto
  then show "QUOT # escape x @ QUOT # sp \<noteq> []" "CHR ''$'' \<notin> set (QUOT # escape x @ QUOT # sp)"
    using s by (auto simp: spaced_def)
  show "\<exists>pre'. CHR ''$'' \<notin> set pre' \<and>
      next_token E n (pre @ (QUOT # escape x @ QUOT # sp) @ r) (length pre) prev t0 p =
        Inr (Some (TSym (SymC x), pre' @ r, length pre'), p)"
    if "CHR ''$'' \<notin> set pre" "\<not> string_lex prev" "t0 \<noteq> TKw T_OPTION" "length (QUOT # escape x @ QUOT # sp) \<le> n"
    for n pre prev t0
    using next_token_string [OF x r that(1) s that(2,3) p, of n E] that(4) by simp
qed (simp add: string_lex_def image_iff)

section \<open>Expressions\<close>

lemma nmy_words [simp]:
  "get_keyword ''n'' = None" "get_keyword ''m'' = None" "get_keyword ''y'' = None" "get_keyword ''if'' = Some T_IF"
  by (simp_all add: get_keyword_def keyword_table_def)

lemma str_to_tri_set: "str_to_tri x \<noteq> None \<longleftrightarrow> x \<in> {''n'', ''m'', ''y''}"
  by (simp add: str_to_tri_def)

lemma sc_str_Sym: "sc_str (Sym s) = (case s of
    SymN x \<Rightarrow> x
  | SymC x \<Rightarrow> if x \<in> {''n'', ''m'', ''y''} then x else QUOT # escape x @ [QUOT])"
  by (cases s) (simp_all add: standard_sc_expr_str_def)

lemma lexes_sym:
  assumes s: "nameable (k_syms (p_kc p)) s" and sp: "spaced sp r" and r: "CHR ''$'' \<notin> set r" and p: "\<not> p_parsing p"
  shows "lexes E p (sc_str (Sym s) @ sp) r [TSym s]"
proof (cases s)
  case (SymN x)
  with s have x: "x \<noteq> []" "list_all id_char x" "CHR ''$'' \<notin> set x" "get_keyword x = None" "str_to_tri x = None"
    "x \<in> set (k_syms (p_kc p))" by (simp_all add: nameable_def)
  then have "(if str_to_tri x \<noteq> None then ret (SymC x) else lookup_sym x) p = Inr (SymN x, p)"
    by (simp add: lookup_sym_def monad_defs)
  from nameable_word [OF x(1-4) sp this] SymN show ?thesis by (simp add: sc_str_Sym)
next
  case (SymC x)
  show ?thesis
  proof (cases "x \<in> {''n'', ''m'', ''y''}")
    case True
    then have x: "x \<noteq> []" "list_all id_char x" "CHR ''$'' \<notin> set x" "get_keyword x = None" "str_to_tri x \<noteq> None"
      by (auto simp: id_char_def alnum_us_def str_to_tri_def)
    then have "(if str_to_tri x \<noteq> None then ret (SymC x) else lookup_sym x) p = Inr (SymC x, p)"
      by (simp add: ret_def)
    from nameable_word [OF x(1-4) sp this] SymC True show ?thesis by (simp add: sc_str_Sym)
  next
    case False
    have "lexes E p (QUOT # escape x @ QUOT # sp) r [TSym (SymC x)]"
      by (rule lexes_string) (use s SymC sp r p in \<open>auto simp: nameable_def\<close>)
    with SymC False show ?thesis by (simp add: sc_str_Sym)
  qed
qed

lemma sc_str_start: "nameable syms s \<Longrightarrow> \<exists>c w. sc_str (Sym s) = c # w \<and> (id_char c \<or> c = QUOT)"
  by (cases s) (auto simp: sc_str_Sym nameable_def neq_Nil_conv id_char_def alnum_us_def)

lemma sc_str_no_dollar: "nameable syms s \<Longrightarrow> CHR ''$'' \<notin> set (sc_str (Sym s))"
proof -
  have "CHR ''$'' \<notin> set x \<Longrightarrow> CHR ''$'' \<notin> set (escape x)" for x by (induction x) auto
  then show "nameable syms s \<Longrightarrow> CHR ''$'' \<notin> set (sc_str (Sym s))"
    by (cases s) (auto simp: sc_str_Sym nameable_def)
qed

lemma expr_str_start:
  "printable_expr syms e \<Longrightarrow> \<exists>c w. expr_str sc_str e = c # w \<and> (id_char c \<or> c = QUOT \<or> c = CHR ''('' \<or> c = CHR ''!'')"
proof (induction e)
  case (Item i)
  then obtain s where "i = Sym s" "nameable syms s" by auto
  with sc_str_start [of syms s] show ?case by auto
next
  case (Rel r x y)
  with sc_str_start [of syms x] show ?case by auto
qed (fastforce split: if_splits)+

lemma expr_str_no_dollar: "printable_expr syms e \<Longrightarrow> CHR ''$'' \<notin> set (expr_str sc_str e)"
proof (induction e)
  case (Rel r x y)
  then show ?case using sc_str_no_dollar [of syms x] sc_str_no_dollar [of syms y] by (cases r) auto
qed (auto dest: sc_str_no_dollar)

text \<open>What follows an operator is the start of an operand.\<close>

lemma start_not_space: "printable_expr syms e \<Longrightarrow> \<not> py_isspace (hd (expr_str sc_str e)) \<and> expr_str sc_str e \<noteq> []"
  using expr_str_start [of syms e] by (auto dest: id_char_not_space)

lemma lexes_paren:
  assumes "\<And>sp r. spaced sp r \<Longrightarrow> CHR ''$'' \<notin> set r \<Longrightarrow> lexes E p (w @ sp) r ts" and w: "w \<noteq> []" "\<not> py_isspace (hd w)" "CHR ''$'' \<notin> set w"
    and r: "sp = [] \<or> sp = [SPC]" "r = [] \<or> \<not> py_isspace (hd r)" "CHR ''$'' \<notin> set r"
  shows "lexes E p ((CHR ''('' # w @ '')'') @ sp) r (TKw T_OPEN_PAREN # ts @ [TKw T_CLOSE_PAREN])"
proof -
  have close: "lexes E p ('')'' @ sp) r [TKw T_CLOSE_PAREN]"
    by (rule lexes_op) (use r in \<open>auto simp: op_token_def string_lex_def\<close>)
  have "lexes E p (w @ []) (('')'' @ sp) @ r) ts"
    by (rule assms(1)) (use r in \<open>auto simp: spaced_def\<close>)
  from lexes_append [OF this close] have inner: "lexes E p (w @ '')'' @ sp) r (ts @ [TKw T_CLOSE_PAREN])" by simp
  have "lexes E p (''('' @ []) ((w @ '')'' @ sp) @ r) [TKw T_OPEN_PAREN]"
    by (rule lexes_op) (use w in \<open>auto simp: op_token_def string_lex_def\<close>)
  from lexes_append [OF this inner] show ?thesis by simp
qed

text \<open>An operand, a binary operator and another operand.\<close>

lemma lexes_binary:
  assumes a: "\<And>sp r. spaced sp r \<Longrightarrow> CHR ''$'' \<notin> set r \<Longrightarrow> lexes E p (v @ sp) r ts"
    and b: "\<And>sp r. spaced sp r \<Longrightarrow> CHR ''$'' \<notin> set r \<Longrightarrow> lexes E p (w @ sp) r us"
    and o: "\<And>r. op_token (op @ SPC # r) = Some (k, length op)" "op \<noteq> []" "CHR ''$'' \<notin> set op" "\<not> id_char (hd op)"
      "hd op \<notin> {QUOT, CHR 0x27, CHR ''#''}" "\<not> py_isspace (hd op)" "\<not> string_lex (TKw k)"
    and w: "w \<noteq> []" "\<not> py_isspace (hd w)" "CHR ''$'' \<notin> set w" and r: "spaced sp r" "CHR ''$'' \<notin> set r"
  shows "lexes E p ((v @ SPC # op @ SPC # w) @ sp) r (ts @ TKw k # us)"
proof -
  have sp: "CHR ''$'' \<notin> set sp" using r by (auto simp: spaced_def)
  have 1: "lexes E p (w @ sp) r us" by (rule b [OF r])
  have "lexes E p (op @ [SPC]) ((w @ sp) @ r) [TKw k]"
    by (rule lexes_op) (use o w in auto)
  from lexes_append [OF this 1] have 2: "lexes E p (op @ SPC # w @ sp) r (TKw k # us)" by simp
  have "lexes E p (v @ [SPC]) ((op @ SPC # w @ sp) @ r) ts"
    by (rule a) (use o w sp r in auto)
  from lexes_append [OF this 2] show ?thesis by simp
qed

lemma spacedD: "spaced sp r \<Longrightarrow> (sp = [] \<or> sp = [SPC]) \<and> (r = [] \<or> \<not> py_isspace (hd r))"
  by (simp add: spaced_def)

lemma lexes_operand:
  assumes "\<And>sp r. spaced sp r \<Longrightarrow> CHR ''$'' \<notin> set r \<Longrightarrow> lexes E p (expr_str sc_str e @ sp) r (expr_toks e)"
    and "printable_expr syms e" and "spaced sp r" and "CHR ''$'' \<notin> set r"
  shows "lexes E p ((if b then ''('' @ expr_str sc_str e @ '')'' else expr_str sc_str e) @ sp) r (paren b (expr_toks e))"
  using assms(1,3,4) lexes_paren [OF assms(1)] start_not_space [OF assms(2)] expr_str_no_dollar [OF assms(2)] spacedD [OF assms(3)]
  by (cases b) simp_all

lemma lexes_rel:
  assumes "nameable (k_syms (p_kc p)) x" "nameable (k_syms (p_kc p)) y" "\<not> p_parsing p" "spaced sp r" "CHR ''$'' \<notin> set r"
  shows "lexes E p ((sc_str (Sym x) @ SPC # rel_to_str q @ SPC # sc_str (Sym y)) @ sp) r ([TSym x] @ rel_tok q # [TSym y])"
proof -
  have y: "sc_str (Sym y) \<noteq> []" "\<not> py_isspace (hd (sc_str (Sym y)))" "CHR ''$'' \<notin> set (sc_str (Sym y))"
    using sc_str_start [OF assms(2)] sc_str_no_dollar [OF assms(2)] by (auto dest: id_char_not_space)
  note * = lexes_binary [OF _ _ _ _ _ _ _ _ _ y assms(4,5), where ts = "[TSym x]" and us = "[TSym y]" and v = "sc_str (Sym x)" and p = p and E = E]
  show ?thesis unfolding rel_tok_def
    by (rule *; (rule lexes_sym)?; cases q) (use assms in \<open>simp_all add: op_token_def string_lex_def\<close>)
qed

lemma lexes_expr:
  assumes "\<not> p_parsing p"
  shows "printable_expr (k_syms (p_kc p)) e \<Longrightarrow> spaced sp r \<Longrightarrow> CHR ''$'' \<notin> set r \<Longrightarrow>
    lexes E p (expr_str sc_str e @ sp) r (expr_toks e)"
proof (induction e arbitrary: sp r)
  case (Item i)
  then show ?case using lexes_sym assms by auto
next
  case (AND a b)
  let ?w = "if is_op OpOR b then ''('' @ expr_str sc_str b @ '')'' else expr_str sc_str b"
  have b: "?w \<noteq> []" "\<not> py_isspace (hd ?w)" "CHR ''$'' \<notin> set ?w"
    using start_not_space [of "k_syms (p_kc p)" b] expr_str_no_dollar [of "k_syms (p_kc p)" b] AND by auto
  have "lexes E p (((if is_op OpOR a then ''('' @ expr_str sc_str a @ '')'' else expr_str sc_str a) @ SPC # ''&&'' @ SPC # ?w) @ sp) r
      (paren (is_op OpOR a) (expr_toks a) @ TKw T_AND # paren (is_op OpOR b) (expr_toks b))"
  proof (rule lexes_binary [OF _ _ _ _ _ _ _ _ _ b AND.prems(2,3)])
    show "lexes E p ((if is_op OpOR a then ''('' @ expr_str sc_str a @ '')'' else expr_str sc_str a) @ sp') r' (paren (is_op OpOR a) (expr_toks a))"
      if "spaced sp' r'" "CHR ''$'' \<notin> set r'" for sp' r'
      by (rule lexes_operand [OF AND.IH(1)]) (use AND.prems that in auto)
    show "lexes E p (?w @ sp') r' (paren (is_op OpOR b) (expr_toks b))" if "spaced sp' r'" "CHR ''$'' \<notin> set r'" for sp' r'
      by (rule lexes_operand [OF AND.IH(2)]) (use AND.prems that in auto)
  qed (simp_all add: op_token_def string_lex_def)
  then show ?case by simp
next
  case (OR a b)
  let ?w = "if is_op OpAND b then ''('' @ expr_str sc_str b @ '')'' else expr_str sc_str b"
  have b: "?w \<noteq> []" "\<not> py_isspace (hd ?w)" "CHR ''$'' \<notin> set ?w"
    using start_not_space [of "k_syms (p_kc p)" b] expr_str_no_dollar [of "k_syms (p_kc p)" b] OR by auto
  have "lexes E p (((if is_op OpAND a then ''('' @ expr_str sc_str a @ '')'' else expr_str sc_str a) @ SPC # ''||'' @ SPC # ?w) @ sp) r
      (paren (is_op OpAND a) (expr_toks a) @ TKw T_OR # paren (is_op OpAND b) (expr_toks b))"
  proof (rule lexes_binary [OF _ _ _ _ _ _ _ _ _ b OR.prems(2,3)])
    show "lexes E p ((if is_op OpAND a then ''('' @ expr_str sc_str a @ '')'' else expr_str sc_str a) @ sp') r' (paren (is_op OpAND a) (expr_toks a))"
      if "spaced sp' r'" "CHR ''$'' \<notin> set r'" for sp' r'
      by (rule lexes_operand [OF OR.IH(1)]) (use OR.prems that in auto)
    show "lexes E p (?w @ sp') r' (paren (is_op OpAND b) (expr_toks b))" if "spaced sp' r'" "CHR ''$'' \<notin> set r'" for sp' r'
      by (rule lexes_operand [OF OR.IH(2)]) (use OR.prems that in auto)
  qed (simp_all add: op_token_def string_lex_def)
  then show ?case by simp
next
  case (NOT a)
  let ?w = "if is_tuple a then ''('' @ expr_str sc_str a @ '')'' else expr_str sc_str a"
  have 1: "lexes E p (?w @ sp) r (paren (is_tuple a) (expr_toks a))"
    by (rule lexes_operand [OF NOT.IH]) (use NOT.prems in auto)
  obtain c w where w: "?w @ sp = c # w" "c \<noteq> CHR ''=''" "\<not> py_isspace c"
  proof -
    obtain c w where c: "?w = c # w" "id_char c \<or> c = QUOT \<or> c = CHR ''('' \<or> c = CHR ''!''"
      using expr_str_start [of "k_syms (p_kc p)" a] NOT.prems by (cases "is_tuple a") auto
    then have "c \<noteq> CHR ''=''" "\<not> py_isspace c" using id_char_not_space by auto
    with c that show thesis by auto
  qed
  have "lexes E p (''!'' @ []) ((?w @ sp) @ r) [TKw T_NOT]"
    by (rule lexes_op) (use w in \<open>simp_all add: op_token_def string_lex_def\<close>)
  from lexes_append [OF this 1] show ?case by (cases "is_tuple a") simp_all
next
  case (Rel q x y)
  then show ?case using lexes_rel [of p x y sp r E q] assms by simp
qed

lemma lexesD:
  assumes "lexes E p w r ts" and "CHR ''$'' \<notin> set pre" and "toks \<noteq> []" and "hd toks \<noteq> TKw T_OPTION"
    and "\<not> string_lex (last toks)" and "length w + length r < n"
  obtains m pre' where "length r < m" "token_loop E n (pre @ w @ r) (length pre) toks p =
    token_loop E m (pre' @ r) (length pre') (toks @ ts) p"
  using assms unfolding lexes_def by blast

section \<open>Evaluating the text\<close>

lemma command_match_if:
  assumes "w = [] \<or> \<not> re_space (hd w)"
  shows "command_match (''if '' @ w) = Some (''if'', 3)"
proof -
  have "takeWhile re_space w = []" using assms by (cases w) auto
  moreover have "command_char (CHR ''i'')" "command_char (CHR ''f'')" "\<not> command_char SPC" "\<not> re_space (CHR ''i'')"
    by (simp_all add: command_char_def alnum_us_def re_space_def)
  ultimately show ?thesis by (simp add: command_match_def span_end_def slice_def Let_def numeral_eq_Suc)
qed

lemma tokenize_printed:
  assumes e: "printable_expr (k_syms (p_kc p)) e" and "\<not> p_parsing p" and n: "length (expr_str sc_str e) + 1 < n"
  shows "tokenize E n (''if '' @ expr_str sc_str e) p = Inr (TKw T_IF # expr_toks e @ [TNone], p\<lparr>p_line := ''if '' @ expr_str sc_str e\<rparr>)"
proof -
  let ?q = "p\<lparr>p_line := ''if '' @ expr_str sc_str e\<rparr>"
  let ?w = "expr_str sc_str e"
  have cm: "command_match (''if '' @ ?w) = Some (''if'', 3)"
    by (rule command_match_if) (use start_not_space [OF e] re_space_isspace in auto)
  have "lexes E ?q (?w @ []) [] (expr_toks e)"
    by (rule lexes_expr) (use assms in \<open>auto simp: spaced_def\<close>)
  then obtain m pre' where "length [] < m" "token_loop E n (''if '' @ (?w @ []) @ []) (length ''if '') [TKw T_IF] ?q =
      token_loop E m (pre' @ []) (length pre') ([TKw T_IF] @ expr_toks e) ?q"
    by (rule lexesD [where pre = "''if ''" and toks = "[TKw T_IF]" and n = n]) (use n in \<open>simp_all add: string_lex_def\<close>)
  moreover then obtain m' where "m = Suc m'" by (cases m) auto
  ultimately have "token_loop E n (''if '' @ ?w) 3 [TKw T_IF] ?q = Inr (TKw T_IF # expr_toks e, ?q)"
    by (simp add: ret_def numeral_eq_Suc)
  with cm show ?thesis by (simp add: tokenize_def bind_def modify_def ret_def)
qed

lemma expr_toks_length: "over_syms e \<Longrightarrow> length (expr_toks e) \<ge> 1 \<and> TNone \<notin> set (expr_toks e)"
  by (induction e) (auto simp: rel_tok_def)

lemma eval_string_run:
  assumes e: "printable_expr (k_syms (p_kc p)) e" and p: "\<not> p_parsing p"
    and n: "length (expr_str sc_str e) + 1 < n" "3 * length (expr_toks e) + 3 \<le> n"
  shows "\<exists>e' p'. eval_string E n A (expr_str sc_str e) p = on_dyn (expr_value (p_kc p) A e') p' \<and>
    same_value e' (m_modules e) \<and> p_dyn p' = p_dyn p \<and> p_kc p' = p_kc p"
proof -
  let ?w = "expr_str sc_str e"
  let ?p1 = "p\<lparr>p_filename := None\<rparr>"
  let ?p2 = "?p1\<lparr>p_line := ''if '' @ ?w, p_tokens := TKw T_IF # expr_toks e @ [TNone], p_line := ?w, p_i := 1\<rparr>"
  have os: "over_syms e" by (rule printable_over_syms [OF e])
  have 1: "tokenize E n (''if '' @ ?w) ?p1 = Inr (TKw T_IF # expr_toks e @ [TNone], ?p1\<lparr>p_line := ''if '' @ ?w\<rparr>)"
    by (rule tokenize_printed) (use assms in auto)
  obtain e' where e': "is_expr True (expr_toks e) e'" "same_value e' (m_modules e)"
    using printed_phrase [OF os] by blast
  have "left ?p2 = expr_toks e @ [TNone]" by (simp add: left_def)
  then have 2: "expect_expr_and_eol n ?p2 = Inr (e', step (length (expr_toks e)) ?p2)"
    using expect_expr_iff(1) [of ?p2 "expr_toks e" n e'] expr_toks_length [OF os] n e' by simp
  have "eval_string E n A ?w p = on_dyn (expr_value (p_kc p) A e') (step (length (expr_toks e)) ?p2)"
    unfolding eval_string_def using 1 2
    by (simp add: bind_def modify_def gets_def set_tokens_def step_def)
  moreover have "p_dyn (step (length (expr_toks e)) ?p2) = p_dyn p" "p_kc (step (length (expr_toks e)) ?p2) = p_kc p"
    by (simp_all add: step_def)
  ultimately show ?thesis using e' by blast
qed

lemma eval_string_printed:
  assumes "printable_expr (k_syms (p_kc p)) e" and "\<not> p_parsing p"
    and "length (expr_str sc_str e) + 1 < n" "3 * length (expr_toks e) + 3 \<le> n"
    and "reading (p_kc p) rk u k" and "good (p_kc p) (p_dyn p)" and "usr (p_dyn p) = u"
  shows "\<exists>p'. eval_string E n (accs (p_kc p) k) (expr_str sc_str e) p =
      Inr (ev (p_kc p) u (solution (p_kc p) u rk) (m_modules e), p') \<and> usr (p_dyn p') = u \<and> p_kc p' = p_kc p"
proof -
  obtain e' p1 where 1: "eval_string E n (accs (p_kc p) k) (expr_str sc_str e) p = on_dyn (expr_value (p_kc p) (accs (p_kc p) k) e') p1"
    "same_value e' (m_modules e)" "p_dyn p1 = p_dyn p" "p_kc p1 = p_kc p"
    using eval_string_run [OF assms(1-4)] by blast
  obtain d' where "expr_value (p_kc p) (accs (p_kc p) k) e' (p_dyn p) = Inr (ev (p_kc p) u (solution (p_kc p) u rk) e', d')" "usr d' = u"
    using yieldsE [OF yields_expr [OF assms(5), of e'] assms(6,7)] by metis
  with 1 show ?thesis by (simp add: on_dyn_def same_value_def)
qed

end
