(* ===== verification/Expansion.thy ===== *)
theory Expansion
  imports ParseExpr
begin

text \<open>
  Macro expansion and tokenization end: with enough fuel they have a result, whatever the variables,
  because a variable is not expanded within itself more often than \<open>_fn_val\<close> allows, and because the
  rest of the text behind the current position gets shorter with every round.
\<close>

section \<open>Results that do not depend on the fuel\<close>

text \<open>
  \<open>settles P m p\<close>: with enough fuel, \<open>m\<close> always has the same result from \<open>p\<close>, which is an exception
  of Python or a value satisfying \<open>P\<close> with the variables unchanged.
\<close>

definition settles :: "('a \<Rightarrow> bool) \<Rightarrow> (nat \<Rightarrow> 'a pp) \<Rightarrow> pstate \<Rightarrow> bool" where
  "settles P m p = (\<exists>n0 r. (\<forall>n \<ge> n0. m n p = r) \<and> r \<noteq> Inl NoReturn \<and>
     (\<forall>x p'. r = Inr (x, p') \<longrightarrow> p_variables p' = p_variables p \<and> P x))"

lemma settlesE:
  assumes "settles P m p"
  obtains n0 e where "\<And>n. n0 \<le> n \<Longrightarrow> m n p = Inl e" "e \<noteq> NoReturn"
  | n0 x p' where "\<And>n. n0 \<le> n \<Longrightarrow> m n p = Inr (x, p')" "p_variables p' = p_variables p" "P x"
proof -
  from assms obtain n0 r where r: "\<forall>n \<ge> n0. m n p = r" "r \<noteq> Inl NoReturn"
    "\<forall>x p'. r = Inr (x, p') \<longrightarrow> p_variables p' = p_variables p \<and> P x" by (auto simp: settles_def)
  show thesis
  proof (cases r)
    case (Inl e)
    then show thesis using r that(1) [of n0 e] by blast
  next
    case (Inr y)
    obtain x p' where "y = (x, p')" by (cases y)
    then show thesis using r Inr that(2) [of n0 x p'] by blast
  qed
qed

lemma settles_error: "(\<And>n. n0 \<le> n \<Longrightarrow> m n p = Inl e) \<Longrightarrow> e \<noteq> NoReturn \<Longrightarrow> settles P m p"
  unfolding settles_def by (intro exI [of _ n0] exI [of _ "Inl e"]) auto

lemma settles_value:
  "(\<And>n. n0 \<le> n \<Longrightarrow> m n p = Inr (x, p')) \<Longrightarrow> p_variables p' = p_variables p \<Longrightarrow> P x \<Longrightarrow> settles P m p"
  unfolding settles_def by (intro exI [of _ n0] exI [of _ "Inr (x, p')"]) auto

lemma settles_Suc:
  assumes "\<And>n. m (Suc n) p = m' n p" and "settles P m' p"
  shows "settles P m p"
  using assms(2)
proof (cases rule: settlesE)
  case (1 n0 e)
  have "m n p = Inl e" if "Suc n0 \<le> n" for n using 1(1) [of "n - 1"] assms(1) [of "n - 1"] that by simp
  then show ?thesis using 1(2) by (rule settles_error)
next
  case (2 n0 x p')
  have "m n p = Inr (x, p')" if "Suc n0 \<le> n" for n using 2(1) [of "n - 1"] assms(1) [of "n - 1"] that by simp
  then show ?thesis using 2(2,3) by (rule settles_value)
qed

lemma settles_bind:
  assumes "settles P m p"
    and f: "\<And>x p'. P x \<Longrightarrow> p_variables p' = p_variables p \<Longrightarrow> settles Q (\<lambda>n. f n x) p'"
  shows "settles Q (\<lambda>n. bind (m n) (f n)) p"
  using assms(1)
proof (cases rule: settlesE)
  case (1 n0 e)
  then show ?thesis by (intro settles_error [of n0 _ _ e]) (auto simp: bind_def)
next
  case (2 n0 x p')
  from f [OF 2(3,2)] show ?thesis
  proof (cases rule: settlesE)
    case (1 n1 e)
    then show ?thesis using 2 by (intro settles_error [of "max n0 n1" _ _ e]) (auto simp: bind_def)
  next
    case (2 n1 y p'')
    then show ?thesis using \<open>p_variables p' = p_variables p\<close> \<open>\<And>n. n0 \<le> n \<Longrightarrow> m n p = Inr (x, p')\<close>
      by (intro settles_value [of "max n0 n1" _ _ y p'']) (auto simp: bind_def)
  qed
qed

lemma settles_weaken: "settles P m p \<Longrightarrow> (\<And>x. P x \<Longrightarrow> Q x) \<Longrightarrow> settles Q m p"
  unfolding settles_def by blast

lemma settles_ret: "P x \<Longrightarrow> settles P (\<lambda>n. ret x) p"
  by (rule settles_value [of 0]) (auto simp: ret_def)

lemma settles_raise: "e \<noteq> NoReturn \<Longrightarrow> settles P (\<lambda>n. raise e) p"
  by (rule settles_error [of 0]) (auto simp: raise_def)

lemma settles_parse_error: "settles P (\<lambda>n. parse_error msg) p"
  using parse_error_is [of msg p] by (auto intro: settles_error [of 0])

lemma settles_gets: "P (f p) \<Longrightarrow> settles P (\<lambda>n. gets f) p"
  by (rule settles_value [of 0]) (auto simp: gets_def)

lemma settles_gets_bind: "settles P (\<lambda>n. k n (f p)) p \<Longrightarrow> settles P (\<lambda>n. bind (gets f) (k n)) p"
  by (simp add: settles_def bind_def gets_def)

lemma settles_if: "(b \<Longrightarrow> settles P m p) \<Longrightarrow> (\<not> b \<Longrightarrow> settles P m' p) \<Longrightarrow> settles P (\<lambda>n. if b then m n else m' n) p"
  by (cases b) simp_all

text \<open>Computations without fuel that do not touch the variables.\<close>

definition harmless :: "'a pp \<Rightarrow> bool" where
  "harmless m = (\<forall>p. m p \<noteq> Inl NoReturn \<and> (\<forall>x p'. m p = Inr (x, p') \<longrightarrow> p_variables p' = p_variables p))"

lemma settles_harmless: "harmless m \<Longrightarrow> settles (\<lambda>_. True) (\<lambda>n. m) p"
  unfolding settles_def harmless_def by blast

lemma harmless_bind: "harmless m \<Longrightarrow> (\<And>x. harmless (f x)) \<Longrightarrow> harmless (bind m f)"
  unfolding harmless_def bind_def by (fastforce split: sum.splits)

lemma harmless_simps [simp]:
  "harmless (ret x)" "harmless (gets f)" "harmless (parse_error msg)" "e \<noteq> NoReturn \<Longrightarrow> harmless (raise e)"
  by (auto simp: harmless_def parse_error_def monad_defs)

lemma harmless_modify: "(\<And>p. p_variables (f p) = p_variables p) \<Longrightarrow> harmless (modify f)"
  by (auto simp: harmless_def modify_def)

lemma harmless_warn [simp]: "harmless (warn_text msg)" "harmless (warn_here msg)"
  by (auto simp: harmless_def warn_text_def warn_here_def on_dyn_def kwarn_def monad_defs)

lemma harmless_lookup [simp]: "harmless (lookup_sym name)" "harmless (lookup_const_sym name)"
  by (auto simp: lookup_sym_def lookup_const_sym_def intro!: harmless_bind harmless_modify)

section \<open>Calls\<close>

text \<open>User-defined functions return.\<close>

definition functions_return :: "penv \<Rightarrow> bool" where
  "functions_return E = (\<forall>fn f lo hi args. e_functions E fn = Some (f, lo, hi) \<longrightarrow> f args \<noteq> Inl NoReturn)"

lemma harmless_lookup_fn:
  assumes "functions_return E" and "lookup_fn E fn = Some (f, lo, hi)"
  shows "harmless (f args)"
proof (cases "e_functions E fn")
  case None
  with assms(2) show ?thesis
    by (auto simp: lookup_fn_def filename_fn_def lineno_fn_def info_fn_def warning_if_fn_def error_if_fn_def shell_fn_def
        of_option_def split: if_splits option.split prod.split intro!: harmless_bind)
next
  case (Some g)
  then obtain h where h: "e_functions E fn = Some (h, lo, hi)" "f args = (case h args of Inl e \<Rightarrow> raise e | Inr v \<Rightarrow> ret v)"
    using assms(2) by (cases g) (auto simp: lookup_fn_def)
  then have "h args \<noteq> Inl NoReturn" using assms(1) unfolding functions_return_def by blast
  with h(2) show ?thesis by (cases "h args") auto
qed

lemma harmless_call_fn:
  assumes "functions_return E"
  shows "harmless (call_fn E args)"
proof (cases "lookup_fn E (hd args)")
  case None
  then show ?thesis
    by (cases "e_environ E (hd args)") (auto simp: call_fn_def intro!: harmless_bind harmless_modify)
next
  case (Some g)
  obtain f lo hi where g: "g = (f, lo, hi)" by (cases g)
  have "harmless (f args)" by (rule harmless_lookup_fn [OF assms Some [unfolded g]])
  then show ?thesis using Some g by (simp add: call_fn_def Let_def harmless_bind)
qed

section \<open>Macro expansion\<close>

text \<open>The length of the text behind a position.\<close>

abbreviation rest :: "string \<Rightarrow> nat \<Rightarrow> nat" where
  "rest s i \<equiv> length s - i"

abbreviation shorter :: "string \<Rightarrow> nat \<Rightarrow> string \<times> nat \<Rightarrow> bool" where
  "shorter s i \<equiv> \<lambda>(s', i'). i' \<le> length s' \<and> rest s' i' < rest s i"

lemma startswith_length: "startswith r p \<Longrightarrow> length p \<le> length r"
  by (auto elim: startswithE)

lemma special_pos:
  assumes "search_from f s i = Some (g, j)" and "\<And>r g. f r = Some g \<Longrightarrow> startswith r g"
  shows "i \<le> j" and "g = [] \<or> j + length g \<le> length s"
proof -
  show "i \<le> j" using search_from_pos [OF assms(1)] by blast
  have "startswith (drop j s) g" using search_from_pos(3) [OF assms(1)] assms(2) by blast
  then have "length g \<le> length s - j" using startswith_length by fastforce
  then show "g = [] \<or> j + length g \<le> length s" by (cases g) auto
qed

lemma special_startswith:
  "macro_special r = Some g \<Longrightarrow> startswith r g" "string_special r = Some g \<Longrightarrow> startswith r g"
  "name_special r = Some g \<Longrightarrow> startswith r g"
  by (auto simp: macro_special_def string_special_def name_special_def split: if_splits list.splits)

lemmas macro_special_pos = special_pos [OF _ special_startswith(1)]
lemmas string_special_pos = special_pos [OF _ special_startswith(2)]
lemmas name_special_pos = special_pos [OF _ special_startswith(3)]

lemma macro_special_cases:
  "search_from macro_special s i = Some (g, j) \<Longrightarrow> g \<in> {''('', '')'', '','', ''$(''}"
  using search_from_pos(3) [of macro_special s i g j] by (auto simp: macro_special_def split: if_splits)

text \<open>The loop over the special characters, when function values settle.\<close>

lemma settles_macro_loop:
  assumes fnv: "\<And>p args. p_variables p = V \<Longrightarrow> settles (\<lambda>_. True) (\<lambda>n. fn_val E n args) p"
  shows "p_variables p = V \<Longrightarrow>
    settles (shorter s i) (\<lambda>n. macro_loop E n args res s i arg_start new_args nesting) p"
proof (induction "rest s i" arbitrary: s i args res arg_start new_args nesting p rule: less_induct)
  case less
  show ?case
  proof (rule settles_Suc [where m = "\<lambda>n. macro_loop E n args res s i arg_start new_args nesting"], rule macro_loop.simps(2) [THEN fun_cong])
    show "settles (shorter s i) (\<lambda>n. case search_from macro_special s i of
        None \<Rightarrow> parse_error ''missing end parenthesis in macro expansion''
      | Some (g, j) \<Rightarrow>
          if g = ''('' then macro_loop E n args res s (j + 1) arg_start new_args (nesting + 1)
          else if g = '')'' then
            (if nesting \<noteq> 0 then macro_loop E n args res s (j + 1) arg_start new_args (nesting - 1)
             else
               let new_args = new_args @ [slice s arg_start j] in
               bind (case macro_arg args (hd new_args) of Some a \<Rightarrow> ret a | None \<Rightarrow> fn_val E n new_args) (\<lambda>v.
                 ret (res @ v @ drop (j + 1) s, length (res @ v))))
          else if g = '','' then
            (if nesting \<noteq> 0 then macro_loop E n args res s (j + 1) arg_start new_args nesting
             else macro_loop E n args res s (j + 1) (j + 1) (new_args @ [slice s arg_start j]) nesting)
          else bind (expand_macro E n s j args) (\<lambda>(s, i). macro_loop E n args res s i arg_start new_args nesting)) p"
    proof (cases "search_from macro_special s i")
      case None
      then show ?thesis by (simp add: settles_parse_error)
    next
      case (Some gj)
      obtain g j where gj: "gj = (g, j)" by (cases gj)
      note f = Some [unfolded gj]
      have g: "g \<in> {''('', '')'', '','', ''$(''}" by (rule macro_special_cases [OF f])
      have j: "i \<le> j" "j + length g \<le> length s" using macro_special_pos [OF f] g by auto
      have next_char: "settles (shorter s i) (\<lambda>n. macro_loop E n args res s (j + 1) a b c) p" if "length g = 1" for a b c
      proof (rule settles_weaken)
        show "settles (shorter s (j + 1)) (\<lambda>n. macro_loop E n args res s (j + 1) a b c) p"
          by (rule less.hyps) (use j that less.prems in auto)
      qed (use j that in auto)
      consider "g = ''(''" | "g = '')''" "nesting \<noteq> 0" | "g = '')''" "nesting = 0" | "g = '',''" | "g = ''$(''"
        using g by auto
      then show ?thesis
      proof cases
        case 3
        have v: "settles (\<lambda>_. True) (\<lambda>n. case macro_arg args a of Some a \<Rightarrow> ret a | None \<Rightarrow> fn_val E n new) p" for a new
          using fnv [OF less.prems] by (cases "macro_arg args a") (simp_all add: settles_ret)
        show ?thesis using f 3 j
          by (auto simp: Let_def intro!: settles_bind [OF v] settles_ret)
      next
        case 5
        have m: "settles (shorter s (j + 2)) (\<lambda>n. macro_loop E n args (take j s) s (j + 2) (j + 2) [] 0) p"
          by (rule less.hyps) (use j 5 less.prems in auto)
        have e: "settles (shorter s (j + 2)) (\<lambda>n. expand_macro E n s j args) p"
          by (rule settles_Suc [OF _ m]) simp
        have "settles (shorter s i) (\<lambda>n. bind (expand_macro E n s j args) (\<lambda>(s, i). macro_loop E n args res s i arg_start new_args nesting)) p"
        proof (rule settles_bind [OF e])
          fix x and p' :: pstate assume x: "shorter s (j + 2) x" "p_variables p' = p_variables p"
          obtain s' i' where x': "x = (s', i')" by (cases x)
          have "settles (shorter s' i') (\<lambda>n. macro_loop E n args res s' i' arg_start new_args nesting) p'"
            by (rule less.hyps) (use j x x' less.prems 5 in auto)
          then show "settles (shorter s i) (\<lambda>n. (\<lambda>(s, i). macro_loop E n args res s i arg_start new_args nesting) x) p'"
            using x x' j by (auto elim!: settles_weaken)
        qed
        with f 5 show ?thesis by simp
      next
        case 4
        with f next_char show ?thesis by (cases "nesting = 0") simp_all
      qed (use f next_char in \<open>simp_all\<close>)
    qed
  qed
qed

lemma settles_expand_macro:
  assumes "\<And>p args. p_variables p = V \<Longrightarrow> settles (\<lambda>_. True) (\<lambda>n. fn_val E n args) p"
    and "p_variables p = V" and "i + 2 \<le> length s"
  shows "settles (shorter s i) (\<lambda>n. expand_macro E n s i args) p"
proof (rule settles_weaken)
  show "settles (shorter s (i + 2)) (\<lambda>n. expand_macro E n s i args) p"
    by (rule settles_Suc [OF _ settles_macro_loop [OF assms(1,2)]]) simp
qed (use assms(3) in auto)

lemma find_macro_pos: "find_from ''$('' s i = Some j \<Longrightarrow> i \<le> j \<and> j + 2 \<le> length s"
proof -
  assume "find_from ''$('' s i = Some j"
  then obtain g where g: "search_from (\<lambda>r. if startswith r ''$('' then Some ''$('' else None) s i = Some (g, j)"
    by (auto simp: find_from_def)
  then have "g = ''$(''" using search_from_pos(3) [OF g] by (auto split: if_splits)
  moreover have "startswith r h" if "(if startswith r ''$('' then Some ''$('' else None) = Some h" for r h
    using that by (simp split: if_splits)
  note special_pos [OF g this]
  ultimately show ?thesis by simp
qed

lemma settles_expand_whole:
  assumes fnv: "\<And>p args. p_variables p = V \<Longrightarrow> settles (\<lambda>_. True) (\<lambda>n. fn_val E n args) p"
  shows "p_variables p = V \<Longrightarrow> settles (\<lambda>_. True) (\<lambda>n. expand_whole E n s i args) p"
proof (induction "rest s i" arbitrary: s i p rule: less_induct)
  case less
  show ?case
  proof (rule settles_Suc [where m = "\<lambda>n. expand_whole E n s i args"], rule expand_whole.simps(2) [THEN fun_cong])
    show "settles (\<lambda>_. True) (\<lambda>n. case find_from ''$('' s i of
        None \<Rightarrow> ret s
      | Some j \<Rightarrow> bind (expand_macro E n s j args) (\<lambda>(s, i). expand_whole E n s i args)) p"
    proof (cases "find_from ''$('' s i")
      case None
      then show ?thesis by (simp add: settles_ret)
    next
      case (Some j)
      have j: "i \<le> j" "j + 2 \<le> length s" using find_macro_pos [OF Some] by auto
      have "settles (\<lambda>_. True) (\<lambda>n. bind (expand_macro E n s j args) (\<lambda>(s, i). expand_whole E n s i args)) p"
      proof (rule settles_bind [OF settles_expand_macro [OF fnv less.prems j(2)]])
        fix x and p' :: pstate assume x: "shorter s j x" "p_variables p' = p_variables p"
        obtain s' i' where x': "x = (s', i')" by (cases x)
        show "settles (\<lambda>_. True) (\<lambda>n. (\<lambda>(s, i). expand_whole E n s i args) x) p'"
          using less.hyps [of s' i' p'] x x' j less.prems by auto
      qed
      with Some show ?thesis by simp
    qed
  qed
qed

section \<open>Function values\<close>

text \<open>How often variables may still be expanded.\<close>

definition budget :: "(string \<Rightarrow> variable option) \<Rightarrow> nat" where
  "budget V = (\<Sum>x \<in> dom V. 102 - v_n_expansions (the (V x)))"

lemma budget_less:
  assumes "finite (dom V)" and "V x = Some v" and "v_n_expansions v \<le> 100"
  shows "budget (V(x := Some (v\<lparr>v_n_expansions := v_n_expansions v + 1\<rparr>))) < budget V"
proof -
  let ?W = "V(x := Some (v\<lparr>v_n_expansions := v_n_expansions v + 1\<rparr>))"
  have dom: "dom ?W = dom V" using assms(2) by auto
  have x: "x \<in> dom V" using assms(2) by auto
  have "budget ?W = (102 - (v_n_expansions v + 1)) + (\<Sum>y \<in> dom V - {x}. 102 - v_n_expansions (the (?W y)))"
    unfolding budget_def dom by (subst sum.remove [OF assms(1) x]) simp
  also have "(\<Sum>y \<in> dom V - {x}. 102 - v_n_expansions (the (?W y))) = (\<Sum>y \<in> dom V - {x}. 102 - v_n_expansions (the (V y)))"
    by (rule sum.cong) auto
  finally have "budget ?W = (102 - (v_n_expansions v + 1)) + (\<Sum>y \<in> dom V - {x}. 102 - v_n_expansions (the (V y)))" .
  moreover have "budget V = (102 - v_n_expansions v) + (\<Sum>y \<in> dom V - {x}. 102 - v_n_expansions (the (V y)))"
    unfolding budget_def using assms(2) by (subst sum.remove [OF assms(1) x]) simp
  ultimately show ?thesis using assms(3) by simp
qed

lemma settles_fn_val:
  assumes E: "functions_return E"
  shows "finite (dom V) \<Longrightarrow> p_variables p = V \<Longrightarrow> settles (\<lambda>_. True) (\<lambda>n. fn_val E n args) p"
proof (induction "budget V" arbitrary: V p args rule: less_induct)
  case less
  let ?fn = "hd args"
  show ?case
  proof (cases "V ?fn")
    case None
    have "settles (\<lambda>_. True) (\<lambda>n. call_fn E args) p" by (rule settles_harmless [OF harmless_call_fn [OF E]])
    then show ?thesis
      by (rule settles_Suc [rotated]) (use None less.prems in \<open>simp add: bind_def gets_def Let_def\<close>)
  next
    case (Some v)
    consider (stuck) msg where "\<And>n. fn_val E (Suc n) args p = parse_error msg p"
      | (ok) "v_n_expansions v \<le> 100" "\<And>n. fn_val E (Suc n) args p =
          bind (add_expansions ?fn (\<lambda>k. k + 1)) (\<lambda>_. bind (expand_whole E n (v_value v) 0 args) (\<lambda>res.
          bind (add_expansions ?fn (\<lambda>k. k - 1)) (\<lambda>_. ret res))) p"
    proof -
      have u: "fn_val E (Suc n) args p =
          (if length args = 1 \<and> v_n_expansions v \<noteq> 0 then
            parse_error (''Preprocessor variable '' @ ?fn @ '' recursively references itself'') p
          else if length args \<noteq> 1 \<and> v_n_expansions v > 100 then
            parse_error (''Preprocessor function '' @ ?fn @ '' seems stuck in infinite recursion'') p
          else bind (add_expansions ?fn (\<lambda>k. k + 1)) (\<lambda>_. bind (expand_whole E n (v_value v) 0 args) (\<lambda>res.
            bind (add_expansions ?fn (\<lambda>k. k - 1)) (\<lambda>_. ret res))) p)" for n
        using Some less.prems(2) by (simp add: bind_def gets_def Let_def)
      show thesis
      proof (cases "length args = 1 \<and> v_n_expansions v \<noteq> 0 \<or> length args \<noteq> 1 \<and> v_n_expansions v > 100")
        case True
        then show thesis using u stuck by (cases "length args = 1") auto
      next
        case False
        then have "v_n_expansions v \<le> 100" by auto
        then show thesis by (rule ok) (simp only: u, use False in auto)
      qed
    qed
    then show ?thesis
    proof cases
      case stuck
      then show ?thesis by (intro settles_Suc [OF _ settles_parse_error])
    next
      case ok
      let ?W = "V(?fn := Some (v\<lparr>v_n_expansions := v_n_expansions v + 1\<rparr>))"
      let ?q = "p\<lparr>p_variables := ?W\<rparr>"
      have add: "add_expansions ?fn (\<lambda>k. k + 1) p = Inr ((), ?q)"
        using Some less.prems(2) by (simp add: add_expansions_def modify_def)
      have "settles (\<lambda>_. True) (\<lambda>n. expand_whole E n (v_value v) 0 args) ?q"
      proof (rule settles_expand_whole [where V = ?W])
        show "settles (\<lambda>_. True) (\<lambda>n. fn_val E n args') p'" if "p_variables p' = ?W" for p' args'
          by (rule less.hyps [OF budget_less [OF less.prems(1) Some ok(1)] _ that]) (use less.prems(1) in auto)
      qed simp
      then show ?thesis
      proof (cases rule: settlesE)
        case (1 n0 e)
        then have *: "fn_val E n args p = Inl e" if "Suc n0 \<le> n" for n
          using that ok(2) [of "n - 1"] add by (simp add: bind_def)
        with 1 show ?thesis
          by (intro settles_error [of "Suc n0" _ _ e] *) simp
      next
        case (2 n0 x p')
        let ?r = "p'\<lparr>p_variables := V\<rparr>"
        have "V = ?W(?fn := map_option (\<lambda>v. v\<lparr>v_n_expansions := v_n_expansions v - 1\<rparr>) (?W ?fn))"
          using Some by (auto simp: fun_eq_iff)
        then have sub: "add_expansions ?fn (\<lambda>k. k - 1) p' = Inr ((), ?r)"
          using 2(2) by (simp add: add_expansions_def modify_def)
        then have "fn_val E n args p = Inr (x, ?r)" if "Suc n0 \<le> n" for n
          using that 2(1) [of "n - 1"] ok(2) [of "n - 1"] add by (simp add: bind_def ret_def)
        then show ?thesis by (rule settles_value) (use less.prems in auto)
      qed
    qed
  qed
qed

section \<open>Tokenizing a line\<close>

lemma settles_macro:
  assumes "functions_return E" and "finite (dom (p_variables p))" and "i + 2 \<le> length s"
  shows "settles (shorter s i) (\<lambda>n. expand_macro E n s i args) p"
  using settles_expand_macro [OF settles_fn_val [OF assms(1,2)] refl assms(3)] by blast

lemma search_name_special: "i \<le> length s \<Longrightarrow> \<exists>g j. search_from name_special s i = Some (g, j)"
proof -
  have "\<exists>g j. search name_special i r = Some (g, j)" for r i
    by (induction r arbitrary: i) (auto simp: name_special_def)
  then show ?thesis by (auto simp: search_from_def)
qed

lemma settles_expand_name_iter:
  assumes E: "functions_return E"
  shows "finite (dom (p_variables p)) \<Longrightarrow> i \<le> length s \<Longrightarrow>
    settles (\<lambda>(s', i'). i' \<le> length s' \<and> rest s' i' \<le> rest s i \<and> (i < length s \<longrightarrow> id_char (s ! i) \<longrightarrow> rest s' i' < rest s i))
      (\<lambda>n. expand_name_iter E n s i) p"
proof (induction "rest s i" arbitrary: s i p rule: less_induct)
  case less
  obtain g j where f: "search_from name_special s i = Some (g, j)" using search_name_special [OF less.prems(2)] by blast
  have j: "i \<le> j" "j \<le> length s" using search_from_pos [OF f] less.prems(2) by auto
  show ?case
  proof (rule settles_Suc [where m = "\<lambda>n. expand_name_iter E n s i"], rule expand_name_iter.simps(2) [THEN fun_cong])
    let ?P = "\<lambda>(s', i'). i' \<le> length s' \<and> rest s' i' \<le> rest s i \<and> (i < length s \<longrightarrow> id_char (s ! i) \<longrightarrow> rest s' i' < rest s i)"
    show "settles ?P (\<lambda>n. bind (of_option AttributeError (search_from name_special s i)) (\<lambda>(g, j).
        if g \<noteq> ''$('' then ret (s, j) else bind (expand_macro E n s j []) (\<lambda>(s, i). expand_name_iter E n s i))) p"
    proof (cases "g = ''$(''")
      case False
      have "j \<noteq> i" if "i < length s" "id_char (s ! i)"
      proof
        assume "j = i"
        with search_from_pos(3) [OF f] have "name_special (drop i s) = Some g" by simp
        moreover have "drop i s = s ! i # drop (Suc i) s" using that(1) by (simp add: Cons_nth_drop_Suc)
        ultimately show False using that(2) False by (simp add: name_special_def split: if_splits)
      qed
      then have "?P (s, j)" using j less.prems by auto
      then show ?thesis using f False by (simp add: settles_ret)
    next
      case True
      then have j2: "j + 2 \<le> length s" using name_special_pos(2) [OF f] by simp
      have "settles ?P (\<lambda>n. bind (expand_macro E n s j []) (\<lambda>(s, i). expand_name_iter E n s i)) p"
      proof (rule settles_bind [OF settles_macro [OF E less.prems(1) j2]])
        fix x and p' :: pstate assume x: "shorter s j x" "p_variables p' = p_variables p"
        obtain s' i' where x': "x = (s', i')" by (cases x)
        show "settles ?P (\<lambda>n. (\<lambda>(s, i). expand_name_iter E n s i) x) p'"
        proof (cases "i' \<le> length s'")
          case True
          have "settles (\<lambda>(s'', i''). i'' \<le> length s'' \<and> rest s'' i'' \<le> rest s' i' \<and>
              (i' < length s' \<longrightarrow> id_char (s' ! i') \<longrightarrow> rest s'' i'' < rest s' i')) (\<lambda>n. expand_name_iter E n s' i') p'"
            by (rule less.hyps) (use True x x' j less.prems in auto)
          then show ?thesis unfolding x' by (auto elim!: settles_weaken) (use x x' j in auto)
        qed (use x x' in auto)
      qed
      with f True show ?thesis by simp
    qed
  qed
qed

lemma settles_expand_name:
  assumes E: "functions_return E" and "finite (dom (p_variables p))" and "i < length s" and "id_char (s ! i)"
  shows "settles (\<lambda>(name, s', i'). i' \<le> length s' \<and> rest s' i' < rest s i) (\<lambda>n. expand_name E n s i) p"
  unfolding expand_name_def
proof (rule settles_bind [OF settles_expand_name_iter [OF E assms(2) less_imp_le [OF assms(3)]]])
  fix x and p' :: pstate
  assume x: "case x of (s', i') \<Rightarrow> i' \<le> length s' \<and> rest s' i' \<le> rest s i \<and> (i < length s \<longrightarrow> id_char (s ! i) \<longrightarrow> rest s' i' < rest s i)"
  obtain s' e where x': "x = (s', e)" by (cases x)
  have "e \<le> span_end py_isspace s' e" "span_end py_isspace s' e \<le> length s'"
    using x x' length_takeWhile_le [of py_isspace "drop e s'"] by (auto simp: span_end_def)
  then have "case (slice s' i e, s', span_end py_isspace s' e) of (name, s', i') \<Rightarrow> i' \<le> length s' \<and> rest s' i' < rest s i"
    using x x' assms(3,4) by auto
  then show "settles (\<lambda>(name, s', i'). i' \<le> length s' \<and> rest s' i' < rest s i)
      (\<lambda>n. (\<lambda>(s, end_i). let name = slice s i end_i in
        if py_strip name = [] then parse_error ''macro expanded to blank string''
        else ret (name, s, span_end py_isspace s end_i)) x) p'"
    unfolding x' Let_def prod.case by (intro settles_if settles_parse_error settles_ret) auto
qed

lemma settles_expand_str_loop:
  assumes E: "functions_return E"
  shows "finite (dom (p_variables p)) \<Longrightarrow> i \<le> length s \<Longrightarrow> settles (\<lambda>(s', i'). i' \<le> length s' \<and> rest s' i' \<le> rest s i) (\<lambda>n. expand_str_loop E n q s i) p"
proof (induction "rest s i" arbitrary: s i p rule: less_induct)
  case less
  let ?P = "\<lambda>(s', i'). i' \<le> length s' \<and> rest s' i' \<le> rest s i"
  show ?case
  proof (cases "search_from string_special s i")
    case None
    have "settles ?P (\<lambda>n. parse_error ''unterminated string'') p" by (rule settles_parse_error)
    then show ?thesis by (rule settles_Suc [rotated]) (simp add: None)
  next
    case (Some gj)
    obtain g j where gj: "gj = (g, j)" by (cases gj)
    note f = Some [unfolded gj]
    have g: "g \<in> {[QUOT], [CHR 0x27], [BSL], ''$(''}"
      using search_from_pos(3) [OF f] by (auto simp: string_special_def split: if_splits)
    have j: "i \<le> j" "j + length g \<le> length s" using string_special_pos [OF f] g by auto
    consider "g = [q]" | "g \<noteq> [q]" "g = [BSL]" | "g \<noteq> [q]" "g = ''$(''" | "g \<noteq> [q]" "g \<noteq> [BSL]" "g \<noteq> ''$(''" by blast
    then show ?thesis
    proof cases
      case 1
      have "settles ?P (\<lambda>n. ret (s, j + 1)) p" by (rule settles_ret) (use 1 j in auto)
      then show ?thesis by (rule settles_Suc [rotated]) (simp add: f 1)
    next
      case 2
      let ?s = "take j s @ drop (j + 1) s"
      show ?thesis
      proof (cases "j + 1 \<le> length ?s")
        case True
        have "settles (\<lambda>(s', i'). i' \<le> length s' \<and> rest s' i' \<le> rest ?s (j + 1)) (\<lambda>n. expand_str_loop E n q ?s (j + 1)) p"
          by (rule less.hyps) (use j 2 True less.prems in auto)
        then have "settles ?P (\<lambda>n. expand_str_loop E n q ?s (j + 1)) p" by (rule settles_weaken) (use j 2 in auto)
        then show ?thesis by (rule settles_Suc [rotated]) (use f 2 in simp)
      next
        case False
        have "search_from string_special ?s (j + 1) = None"
          using False by (simp add: search_from_def string_special_def startswith_def)
        then have *: "expand_str_loop E (Suc n) q ?s (j + 1) = parse_error ''unterminated string''" for n by simp
        have "settles ?P (\<lambda>n. parse_error ''unterminated string'') p" by (rule settles_parse_error)
        then have "settles ?P (\<lambda>n. expand_str_loop E n q ?s (j + 1)) p" by (rule settles_Suc [rotated]) (simp only: *)
        then show ?thesis by (rule settles_Suc [rotated]) (use f 2 in simp)
      qed
    next
      case 3
      then have j2: "j + 2 \<le> length s" using j by simp
      have "settles ?P (\<lambda>n. bind (expand_macro E n s j []) (\<lambda>(s, i). expand_str_loop E n q s i)) p"
      proof (rule settles_bind [OF settles_macro [OF E less.prems(1) j2]])
        fix x and p' :: pstate assume x: "shorter s j x" "p_variables p' = p_variables p"
        obtain s' i' where x': "x = (s', i')" by (cases x)
        have "settles (\<lambda>(s'', i''). i'' \<le> length s'' \<and> rest s'' i'' \<le> rest s' i') (\<lambda>n. expand_str_loop E n q s' i') p'"
          by (rule less.hyps) (use x x' j less.prems in auto)
        then show "settles ?P (\<lambda>n. (\<lambda>(s, i). expand_str_loop E n q s i) x) p'"
          unfolding x' prod.case by (rule settles_weaken) (use x x' j in auto)
      qed
      then show ?thesis by (rule settles_Suc [rotated]) (use f 3 in simp)
    next
      case 4
      have "i < length s" using j g by auto
      then have "settles (\<lambda>(s', i'). i' \<le> length s' \<and> rest s' i' \<le> rest s (i + 1)) (\<lambda>n. expand_str_loop E n q s (i + 1)) p"
        by (intro less.hyps) (use less.prems in auto)
      then have "settles ?P (\<lambda>n. expand_str_loop E n q s (i + 1)) p" by (rule settles_weaken) auto
      then show ?thesis by (rule settles_Suc [rotated]) (use f 4 in simp)
    qed
  qed
qed

lemma span_end_le: "i \<le> length s \<Longrightarrow> span_end f s i \<le> length s"
  using length_takeWhile_le [of f "drop i s"] by (simp add: span_end_def)

lemma id_keyword_match_pos:
  assumes "id_keyword_match s i = Some (name, e)" and "i < length s"
  shows "i < e" and "e \<le> length s" and "id_char (s ! i)"
proof -
  have b: "i < span_end id_char s i" using assms(1) span_end_ge [of i id_char s]
    by (auto simp: id_keyword_match_def Let_def split: if_splits)
  have e: "e = span_end re_space s (span_end id_char s i)" using assms(1) by (auto simp: id_keyword_match_def Let_def split: if_splits)
  then show "i < e" using b span_end_ge [of "span_end id_char s i" re_space s] by simp
  show "e \<le> length s" unfolding e using assms(2) by (intro span_end_le) simp
  have "takeWhile id_char (drop i s) \<noteq> []" using b by (auto simp: span_end_def)
  then show "id_char (s ! i)" using assms(2) by (auto simp: Cons_nth_drop_Suc [symmetric] split: if_splits)
qed

text \<open>Every token shortens the rest of the line.\<close>

abbreviation token_post :: "string \<Rightarrow> nat \<Rightarrow> token \<times> string \<times> nat \<Rightarrow> bool" where
  "token_post s i \<equiv> \<lambda>(t, s', i'). i' \<le> length s' \<and> rest s' i' < rest s i"

lemma settles_word_token:
  assumes E: "functions_return E" and p: "finite (dom (p_variables p))" and m: "id_keyword_match s i = Some (name, e)" and i: "i < length s"
  shows "settles (token_post s i) (\<lambda>n. word_token E n s i prev name e) p"
proof -
  note e = id_keyword_match_pos [OF m i]
  have sym: "settles (token_post s i) (\<lambda>n. bind (if str_to_tri x \<noteq> None then ret (SymC x) else lookup_sym x) (\<lambda>sym. ret (TSym sym, s', i'))) p'"
    if "i' \<le> length s'" "rest s' i' < rest s i" for x s' i' p'
    by (rule settles_bind [OF settles_harmless]) (use that in \<open>auto intro: settles_ret\<close>)
  consider k where "get_keyword name = Some k" | "get_keyword name = None" "\<not> string_lex prev" | "get_keyword name = None" "string_lex prev"
    by fastforce
  then show ?thesis
  proof cases
    case 1
    with e i show ?thesis by (auto simp: word_token_def intro!: settles_ret)
  next
    case 2
    have "settles (\<lambda>(name, s', i'). i' \<le> length s' \<and> rest s' i' < rest s i)
        (\<lambda>n. if CHR ''$'' \<in> set name then expand_name E n s i else ret (name, s, e)) p"
      by (rule settles_if) (use settles_expand_name [OF E p i e(3)] e i in \<open>auto intro: settles_ret\<close>)
    from settles_bind [OF this, of "token_post s i" "\<lambda>n (name, s, i). bind (if str_to_tri name \<noteq> None then ret (SymC name) else lookup_sym name) (\<lambda>sym. ret (TSym sym, s, i))"]
    show ?thesis using 2 sym by (auto simp: word_token_def)
  next
    case 3
    let ?w = "if prev \<noteq> TKw T_CHOICE then
        bind (gets p_line) (\<lambda>line. warn_here (quoted (quoted ''style: quotes recommended around '' name @ '' in '') (py_strip line)))
      else ret ()"
    have w: "settles (\<lambda>_. True) (\<lambda>n. ?w) p" by (rule settles_harmless) (simp add: harmless_bind)
    have eq: "word_token E n s i prev name e = bind ?w (\<lambda>_. ret (TStr name, s, e))" for n
      using 3 by (simp add: word_token_def)
    show ?thesis unfolding eq by (rule settles_bind [OF w]) (use e i in \<open>auto intro!: settles_ret\<close>)
  qed
qed

lemma find_char_pos: "find_from [c] s i = Some j \<Longrightarrow> i \<le> j \<and> j + 1 \<le> length s"
proof -
  assume "find_from [c] s i = Some j"
  then obtain g where g: "search_from (\<lambda>r. if startswith r [c] then Some [c] else None) s i = Some (g, j)"
    by (auto simp: find_from_def)
  then have "g = [c]" using search_from_pos(3) [OF g] by (auto split: if_splits)
  moreover have "startswith r h" if "(if startswith r [c] then Some [c] else None) = Some h" for r h
    using that by (simp split: if_splits)
  note special_pos [OF g this]
  ultimately show ?thesis by simp
qed

lemma settles_string_token:
  assumes E: "functions_return E" and p: "finite (dom (p_variables p))" and i: "i < length s"
  shows "settles (token_post s i) (\<lambda>n. string_token E n s i prev t0) p"
  unfolding string_token_def
proof (rule settles_bind)
  let ?P = "\<lambda>(val, s', i'). i' \<le> length s' \<and> rest s' i' < rest s i"
  show "settles ?P (\<lambda>n. if CHR ''$'' \<notin> set s \<and> BSL \<notin> set s then
        (case find_from [s ! i] s (i + 1) of None \<Rightarrow> parse_error ''unterminated string'' | Some j \<Rightarrow> ret (slice s (i + 1) j, s, j + 1))
      else bind (expand_string E n s i) (\<lambda>(s, end_i).
        ret (expandvars (e_environ E) (replace_all ''$UNAME_RELEASE'' (e_uname_release E) (slice s (i + 1) (end_i - 1))), s, end_i))) p"
  proof (rule settles_if)
    show "settles ?P (\<lambda>n. case find_from [s ! i] s (i + 1) of None \<Rightarrow> parse_error ''unterminated string''
        | Some j \<Rightarrow> ret (slice s (i + 1) j, s, j + 1)) p"
      using find_char_pos [of "s ! i" s "i + 1"] i
      by (cases "find_from [s ! i] s (i + 1)") (auto intro!: settles_parse_error settles_ret)
    have "settles (\<lambda>(s', i'). i' \<le> length s' \<and> rest s' i' \<le> rest s (i + 1)) (\<lambda>n. expand_string E n s i) p"
      unfolding expand_string_def using settles_expand_str_loop [OF E p, of "i + 1" s "s ! i"] i by simp
    then show "settles ?P (\<lambda>n. bind (expand_string E n s i) (\<lambda>(s, end_i).
        ret (expandvars (e_environ E) (replace_all ''$UNAME_RELEASE'' (e_uname_release E) (slice s (i + 1) (end_i - 1))), s, end_i))) p"
      by (rule settles_bind) (use i in \<open>auto intro!: settles_ret\<close>)
  qed
next
  fix x :: "string \<times> string \<times> nat" and p' :: pstate assume x: "case x of (val, s', i') \<Rightarrow> i' \<le> length s' \<and> rest s' i' < rest s i"
  obtain v s' i' where x': "x = (v, s', i')" by (cases x)
  have h: "settles (\<lambda>_. True) (\<lambda>n. if string_lex prev \<or> t0 = TKw T_OPTION then ret (TStr v) else bind (lookup_const_sym v) (\<lambda>c. ret (TSym c))) p'"
    by (rule settles_harmless) (simp add: harmless_bind)
  show "settles (token_post s i) (\<lambda>n. (\<lambda>(val, s, i). bind (if string_lex prev \<or> t0 = TKw T_OPTION then ret (TStr val)
           else bind (lookup_const_sym val) (\<lambda>c. ret (TSym c))) (\<lambda>tok. ret (tok, s, i))) x) p'"
    unfolding x' prod.case by (rule settles_bind [OF h]) (use x x' in \<open>auto intro!: settles_ret\<close>)
qed

lemma op_token_length: "op_token r = Some (k, l) \<Longrightarrow> 0 < l \<and> l \<le> length r"
  by (auto simp: op_token_def split: if_splits dest!: startswith_length)

lemma settles_next_token:
  assumes E: "functions_return E" and p: "finite (dom (p_variables p))" and i: "i < length s"
  shows "settles (\<lambda>r. case r of None \<Rightarrow> True | Some x \<Rightarrow> token_post s i x) (\<lambda>n. next_token E n s i prev t0) p"
    (is "settles ?P _ _")
proof (cases "id_keyword_match s i")
  case (Some x)
  obtain name e where x: "x = (name, e)" by (cases x)
  have "settles ?P (\<lambda>n. bind (word_token E n s i prev name e) (\<lambda>x. ret (Some x))) p"
    by (rule settles_bind [OF settles_word_token [OF E p Some [unfolded x] i]]) (auto intro!: settles_ret)
  with Some x show ?thesis by (simp add: next_token_def)
next
  case None
  show ?thesis
  proof (cases "s ! i = CHR ''#''")
    case True
    with None show ?thesis by (simp add: next_token_def settles_ret)
  next
    case False
    have tok: "settles (token_post s i) (\<lambda>n. if s ! i = QUOT \<or> s ! i = CHR 0x27 then string_token E n s i prev t0
        else case op_token (drop i s) of Some (k, l) \<Rightarrow> ret (TKw k, s, i + l) | None \<Rightarrow> parse_error ''unknown tokens in line'') p"
    proof (rule settles_if)
      show "settles (token_post s i) (\<lambda>n. case op_token (drop i s) of Some (k, l) \<Rightarrow> ret (TKw k, s, i + l)
          | None \<Rightarrow> parse_error ''unknown tokens in line'') p"
        using op_token_length [of "drop i s"] i
        by (cases "op_token (drop i s)") (auto intro!: settles_parse_error settles_ret)
    qed (rule settles_string_token [OF E p i])
    have "settles ?P (\<lambda>n. bind (if s ! i = QUOT \<or> s ! i = CHR 0x27 then string_token E n s i prev t0
        else case op_token (drop i s) of Some (k, l) \<Rightarrow> ret (TKw k, s, i + l) | None \<Rightarrow> parse_error ''unknown tokens in line'')
        (\<lambda>(tok, s, i). ret (Some (tok, s, span_end py_isspace s i)))) p"
    proof (rule settles_bind [OF tok])
      fix x and p' :: pstate assume x: "token_post s i x"
      obtain t s' i' where x': "x = (t, s', i')" by (cases x)
      show "settles ?P (\<lambda>n. (\<lambda>(tok, s, i). ret (Some (tok, s, span_end py_isspace s i))) x) p'"
        using x span_end_ge [of i' py_isspace s'] span_end_le [of i' s' py_isspace] by (auto simp: x' intro!: settles_ret)
    qed
    with None False show ?thesis by (simp add: next_token_def)
  qed
qed

lemma settles_token_loop:
  assumes E: "functions_return E"
  shows "finite (dom (p_variables p)) \<Longrightarrow> settles (\<lambda>_. True) (\<lambda>n. token_loop E n s i toks) p"
proof (induction "rest s i" arbitrary: s i toks p rule: less_induct)
  case less
  show ?case
  proof (cases "length s \<le> i")
    case True
    then show ?thesis by (intro settles_Suc [OF _ settles_ret]) simp_all
  next
    case False
    then have i: "i < length s" by simp
    have "settles (\<lambda>_. True) (\<lambda>n. bind (next_token E n s i (last toks) (hd toks)) (\<lambda>r. case r of
        None \<Rightarrow> ret toks | Some (tok, s, i) \<Rightarrow> token_loop E n s i (toks @ [tok]))) p"
    proof (rule settles_bind [OF settles_next_token [OF E less.prems i]])
      fix r and p' :: pstate assume r: "case r of None \<Rightarrow> True | Some x \<Rightarrow> token_post s i x" "p_variables p' = p_variables p"
      show "settles (\<lambda>_. True) (\<lambda>n. case r of None \<Rightarrow> ret toks | Some (tok, s, i) \<Rightarrow> token_loop E n s i (toks @ [tok])) p'"
      proof (cases r)
        case (Some x)
        obtain t s' i' where x: "x = (t, s', i')" by (cases x)
        show ?thesis using less.hyps [of s' i' p' "toks @ [t]"] r less.prems by (simp add: Some x)
      qed (simp add: settles_ret)
    qed
    then show ?thesis by (rule settles_Suc [rotated]) (use False in simp)
  qed
qed

section \<open>Assignments\<close>

lemma settles_assignment_lhs:
  assumes E: "functions_return E"
  shows "finite (dom (p_variables p)) \<Longrightarrow> i \<le> length s \<Longrightarrow> settles (\<lambda>_. True) (\<lambda>n. assignment_lhs E n s i) p"
proof (induction "rest s i" arbitrary: s i p rule: less_induct)
  case less
  let ?j = "span_end lhs_char s i"
  show ?case
  proof (cases "startswith (drop ?j s) ''$(''")
    case False
    then show ?thesis by (intro settles_Suc [OF _ settles_ret]) (simp_all add: Let_def)
  next
    case True
    then have j: "?j + 2 \<le> length s" "i \<le> ?j"
      using startswith_length [OF True] span_end_ge [of i lhs_char s] by auto
    have "settles (\<lambda>_. True) (\<lambda>n. bind (expand_macro E n s ?j []) (\<lambda>(s, i). assignment_lhs E n s i)) p"
    proof (rule settles_bind [OF settles_macro [OF E less.prems(1) j(1)]])
      fix x and p' :: pstate assume x: "shorter s ?j x" "p_variables p' = p_variables p"
      show "settles (\<lambda>_. True) (\<lambda>n. (\<lambda>(s, i). assignment_lhs E n s i) x) p'"
        using less.hyps [of "fst x" "snd x" p'] x j less.prems by (auto simp: split_beta)
    qed
    then show ?thesis by (rule settles_Suc [rotated]) (use True in \<open>simp add: Let_def\<close>)
  qed
qed

text \<open>Assignments change one variable, so there are finitely many variables afterwards.\<close>

definition ends :: "(nat \<Rightarrow> 'a pp) \<Rightarrow> pstate \<Rightarrow> bool" where
  "ends m p = (\<exists>n0 r. (\<forall>n \<ge> n0. m n p = r) \<and> r \<noteq> Inl NoReturn \<and>
     (\<forall>x p'. r = Inr (x, p') \<longrightarrow> finite (dom (p_variables p'))))"

lemma ends_value: "(\<And>n. m n p = Inr (x, q)) \<Longrightarrow> finite (dom (p_variables q)) \<Longrightarrow> ends m p"
  unfolding ends_def by (intro exI [of _ 0] exI [of _ "Inr (x, q)"]) auto

lemma ends_settles: "settles P m p \<Longrightarrow> finite (dom (p_variables p)) \<Longrightarrow> ends m p"
  unfolding settles_def ends_def by metis

lemma ends_bind:
  assumes "settles P m p" and f: "\<And>x p'. P x \<Longrightarrow> p_variables p' = p_variables p \<Longrightarrow> ends (\<lambda>n. f n x) p'"
  shows "ends (\<lambda>n. bind (m n) (f n)) p"
  using assms(1)
proof (cases rule: settlesE)
  case (1 n0 e)
  then show ?thesis unfolding ends_def
    by (intro exI [of _ n0] exI [of _ "Inl e"]) (auto simp: bind_def)
next
  case (2 n0 x p')
  from f [OF 2(3,2)] obtain n1 r where r: "\<forall>n \<ge> n1. f n x p' = r" "r \<noteq> Inl NoReturn"
    "\<forall>y q. r = Inr (y, q) \<longrightarrow> finite (dom (p_variables q))" unfolding ends_def by blast
  have "\<forall>n \<ge> max n0 n1. bind (m n) (f n) p = r" using 2 r by (simp add: bind_def)
  with r show ?thesis unfolding ends_def by blast
qed

lemma ends_set_variable: "finite (dom (p_variables p)) \<Longrightarrow> ends (\<lambda>n. set_variable x v) p"
  by (rule ends_value [where q = "p\<lparr>p_variables := (p_variables p)(x := Some v)\<rparr>"]) (simp_all add: set_variable_def modify_def)

lemma ends_gets_bind: "ends (\<lambda>n. k n (f p)) p \<Longrightarrow> ends (\<lambda>n. bind (gets f) (k n)) p"
  by (simp add: ends_def bind_def gets_def)

lemma ends_if: "(b \<Longrightarrow> ends m p) \<Longrightarrow> (\<not> b \<Longrightarrow> ends m' p) \<Longrightarrow> ends (\<lambda>n. if b then m n else m' n) p"
  by (cases b) simp_all

lemma ends_assign_variable:
  assumes E: "functions_return E" and p: "finite (dom (p_variables p))"
  shows "ends (\<lambda>n. assign_variable E n name op val) p"
proof -
  have w: "settles (\<lambda>_. True) (\<lambda>n. expand_whole E n v i args) p" for v i args
    by (rule settles_expand_whole [OF settles_fn_val [OF E p] refl])
  have s: "ends (\<lambda>n. set_variable name v) p'" if "p_variables p' = p_variables p" for v p'
    using ends_set_variable [of p'] that p by simp
  note wb = ends_bind [OF w, OF s]
  have vb: "ends (\<lambda>n. bind (if b then ret val else expand_whole E n val 0 []) (\<lambda>x. set_variable name (f x))) p" for b f
    by (cases b) (simp_all add: s wb)
  show ?thesis
    unfolding assign_variable_def Let_def
    by (intro ends_gets_bind ends_if s wb vb refl)
qed

lemma ends_parse_assignment:
  assumes E: "functions_return E" and p: "finite (dom (p_variables p))"
  shows "ends (\<lambda>n. parse_assignment E n s) p"
  unfolding parse_assignment_def
proof (rule ends_bind [OF settles_assignment_lhs [OF E p]])
  fix x :: "string \<times> nat" and p' :: pstate assume v: "p_variables p' = p_variables p"
  obtain s' i where x: "x = (s', i)" by (cases x)
  have e: "ends (\<lambda>n. parse_error msg) p'" for msg :: string
    by (rule ends_settles [OF settles_parse_error]) (use v p in simp)
  have "ends (\<lambda>n. case assignment_rhs_match s' i of None \<Rightarrow> parse_error ''syntax error''
      | Some (op, val) \<Rightarrow> assign_variable E n (take i s') op val) p'"
    using e ends_assign_variable [OF E, of p'] v p by (cases "assignment_rhs_match s' i") auto
  moreover have "ends (\<lambda>n. ret ()) p'" by (rule ends_value [where q = p']) (use v p in \<open>simp_all add: ret_def\<close>)
  ultimately show "ends (\<lambda>n. (\<lambda>(s, i). if isspace s then ret () else case assignment_rhs_match s i of
        None \<Rightarrow> parse_error ''syntax error'' | Some (op, val) \<Rightarrow> assign_variable E n (take i s) op val) x) p'"
    by (cases "isspace s'") (simp_all add: x)
qed simp

lemma ends_tokenize:
  assumes E: "functions_return E" and p: "finite (dom (p_variables p))"
  shows "ends (\<lambda>n. tokenize E n s) p"
proof -
  have r: "ends (\<lambda>n. ret x) p'" if "p_variables p' = p_variables p" for x p'
    by (rule ends_value [where x = x and q = p']) (use that p in \<open>simp_all add: ret_def\<close>)
  have m: "settles (\<lambda>_. True) (\<lambda>n. modify (\<lambda>p. p\<lparr>p_line := s\<rparr>)) p" by (rule settles_harmless [OF harmless_modify]) simp
  show ?thesis unfolding tokenize_def
  proof (rule ends_bind [OF m])
    fix p' :: pstate assume v: "p_variables p' = p_variables p"
    then have p': "finite (dom (p_variables p'))" using p by simp
    have e: "ends (\<lambda>n. parse_error msg) p'" for msg :: string
      by (rule ends_settles [OF settles_parse_error p'])
    have a: "ends (\<lambda>n. bind (parse_assignment E n s) (\<lambda>_. ret ts)) p'" for ts
    proof -
      obtain n0 q where q: "\<forall>n \<ge> n0. parse_assignment E n s p' = q" "q \<noteq> Inl NoReturn"
        "\<forall>y p''. q = Inr (y, p'') \<longrightarrow> finite (dom (p_variables p''))"
        using ends_parse_assignment [OF E p', of s] unfolding ends_def by blast
      then show ?thesis unfolding ends_def
        by (intro exI [of _ n0] exI [of _ "case q of Inl e \<Rightarrow> Inl e | Inr (x, p'') \<Rightarrow> Inr (ts, p'')"])
          (auto simp: bind_def ret_def split: sum.splits)
    qed
    have t: "ends (\<lambda>n. bind (token_loop E n s i [TKw k]) (\<lambda>toks. ret (toks @ [TNone]))) p'" for i k
      by (rule ends_bind [OF settles_token_loop [OF E p']]) (use r v in simp)
    show "ends (\<lambda>n. case command_match s of
         None \<Rightarrow> if isspace s \<or> startswith (py_lstrip s) ''#'' then ret [TNone] else parse_error ''unknown token at start of line''
       | Some (name, i) \<Rightarrow> (case get_keyword name of
            None \<Rightarrow> if help_line s then ret [TKw T_HELP, TNone] else bind (parse_assignment E n s) (\<lambda>_. ret [TNone])
          | Some k \<Rightarrow> bind (token_loop E n s i [TKw k]) (\<lambda>toks. ret (toks @ [TNone])))) p'"
    proof (cases "command_match s")
      case None
      then show ?thesis by (simp add: r [OF v] e)
    next
      case (Some x)
      then show ?thesis by (cases x; cases "get_keyword (fst x)") (auto intro!: ends_if r [OF v] a t)
    qed
  qed
qed

end
