(* ===== verification/Parser.thy ===== *)
theory Parser
  imports ParseExpr
begin

text \<open>
  Parsing Kconfig files: menu nodes with their properties (\<open>_parse_props\<close>, \<open>_parse_prompt\<close>,
  \<open>_parse_help\<close>, ...) and the blocks that contain them (\<open>_parse_block\<close>). The result is the menu tree in
  \<open>p_kc\<close>, linked by \<open>next\<close>, \<open>list\<close> and \<open>parent\<close>, before \<open>_finalize_node\<close> processes it.
\<close>

section \<open>Objects\<close>

definition upd_kc :: "(kconfig \<Rightarrow> kconfig) \<Rightarrow> unit pp" where
  "upd_kc f = modify (\<lambda>p. p\<lparr>p_kc := f (p_kc p)\<rparr>)"

definition set_node :: "noderef \<Rightarrow> (menunode \<Rightarrow> menunode) \<Rightarrow> kconfig \<Rightarrow> kconfig" where
  "set_node x f K = K\<lparr>k_node := (k_node K)(x := f (k_node K x))\<rparr>"

definition set_sym :: "symref \<Rightarrow> (symbol \<Rightarrow> symbol) \<Rightarrow> kconfig \<Rightarrow> kconfig" where
  "set_sym s f K = K\<lparr>k_sym := (k_sym K)(s := f (k_sym K s))\<rparr>"

definition set_choice :: "choiceref \<Rightarrow> (choice \<Rightarrow> choice) \<Rightarrow> kconfig \<Rightarrow> kconfig" where
  "set_choice c f K = K\<lparr>k_choice := (k_choice K)(c := f (k_choice K c))\<rparr>"

definition upd_node :: "noderef \<Rightarrow> (menunode \<Rightarrow> menunode) \<Rightarrow> unit pp" where
  "upd_node x f = upd_kc (set_node x f)"

definition get_node :: "noderef \<Rightarrow> menunode pp" where
  "get_node x = gets (\<lambda>p. k_node (p_kc p) x)"

text \<open>\<open>MenuNode()\<close>, with the attributes that are set from the current location.\<close>

definition new_menunode :: "nitem \<Rightarrow> noderef \<Rightarrow> noderef pp" where
  "new_menunode item parent =
     (\<lambda>p. let x = p_new_node p in
       Inr (x, p\<lparr>p_new_node := x + 1, p_kc := set_node x (\<lambda>_. new_node\<lparr>n_item := item, n_parent := Some parent,
         n_filename := the_filename p, n_linenr := p_linenr p, n_include_path := p_include_path p\<rparr>) (p_kc p)\<rparr>))"

text \<open>\<open>Choice()\<close>\<close>

definition create_choice :: "string option \<Rightarrow> choiceref pp" where
  "create_choice name =
     (\<lambda>p. let c = p_new_choice p in
       Inr (c, p\<lparr>p_new_choice := c + 1, p_kc := set_choice c (\<lambda>_. new_choice\<lparr>c_name := name\<rparr>) (p_kc p)\<rparr>))"

text \<open>\<open>name_and_loc\<close> of the item of a menu node, which only symbols and choices have.\<close>

definition item_name_and_loc :: "nitem \<Rightarrow> string pp" where
  "item_name_and_loc item =
     (case item of
        NSym s \<Rightarrow> gets (\<lambda>p. sym_name_and_loc (p_kc p) s)
      | NCho c \<Rightarrow> gets (\<lambda>p. choice_name_and_loc (p_kc p) c)
      | _ \<Rightarrow> raise AttributeError)"

definition item_name :: "nitem \<Rightarrow> string pp" where
  "item_name item =
     (case item of
        NSym s \<Rightarrow> ret (sym_name s)
      | NCho c \<Rightarrow> gets (\<lambda>p. case c_name (k_choice (p_kc p) c) of None \<Rightarrow> ''None'' | Some x \<Rightarrow> x)
      | _ \<Rightarrow> raise AttributeError)"

section \<open>Properties\<close>

text \<open>\<open>Kconfig._set_type\<close>\<close>

definition warn_retyped :: "nitem \<Rightarrow> stype \<Rightarrow> stype \<Rightarrow> unit pp" where
  "warn_retyped item old new =
     (if old \<noteq> UNKNOWN \<and> old \<noteq> new then
        bind (item_name_and_loc item) (\<lambda>x.
          warn_text (x @ '' defined with multiple types, '' @ type_to_str new @ '' will be used''))
      else ret ())"

definition set_type :: "nitem \<Rightarrow> stype \<Rightarrow> unit pp" where
  "set_type item new =
     (case item of
        NSym s \<Rightarrow>
          bind (gets (\<lambda>p. otype (p_kc p) s)) (\<lambda>old. bind (warn_retyped item old new) (\<lambda>_.
            upd_kc (set_sym s (\<lambda>r. r\<lparr>s_orig_type := new\<rparr>))))
      | NCho c \<Rightarrow>
          bind (gets (\<lambda>p. c_orig_type (k_choice (p_kc p) c))) (\<lambda>old. bind (warn_retyped item old new) (\<lambda>_.
            upd_kc (set_choice c (\<lambda>r. r\<lparr>c_orig_type := new\<rparr>))))
      | _ \<Rightarrow> raise AttributeError)"

text \<open>\<open>Kconfig._parse_prompt\<close>\<close>

definition parse_prompt :: "nat \<Rightarrow> noderef \<Rightarrow> unit pp" where
  "parse_prompt n x =
     bind (get_node x) (\<lambda>N.
     bind (if n_prompt N \<noteq> None then
             bind (item_name_and_loc (n_item N)) (\<lambda>l. warn_text (l @ '' defined with multiple prompts in single location''))
           else ret ()) (\<lambda>_.
     bind (token_at 1) (\<lambda>t. bind (modify (\<lambda>p. p\<lparr>p_i := 2\<rparr>)) (\<lambda>_.
     case t of
       TStr prompt \<Rightarrow>
         bind (if prompt \<noteq> py_strip prompt then
                 bind (item_name_and_loc (n_item N)) (\<lambda>l. warn_text (l @ '' has leading or trailing whitespace in its prompt''))
               else ret ()) (\<lambda>_.
         bind (parse_cond n) (\<lambda>cond. upd_node x (\<lambda>N. N\<lparr>n_prompt := Some (py_strip prompt, cond)\<rparr>)))
     | _ \<Rightarrow> parse_error ''expected prompt string''))))"

text \<open>\<open>Kconfig._empty_help\<close> and \<open>Kconfig._parse_help\<close>\<close>

definition empty_help :: "penv \<Rightarrow> nat \<Rightarrow> noderef \<Rightarrow> string \<Rightarrow> unit pp" where
  "empty_help E n x line =
     bind (get_node x) (\<lambda>N.
     bind (item_name_and_loc (n_item N)) (\<lambda>l.
     bind (warn_text (l @ '' has '' @ quoted [] ''help'' @ '' but empty help text'')) (\<lambda>_.
     bind (upd_node x (\<lambda>N. N\<lparr>n_help := Some []\<rparr>)) (\<lambda>_.
     if line \<noteq> [] then line_after_help E n line else ret ()))))"

text \<open>The first line that is not all space.\<close>

fun help_first :: "nat \<Rightarrow> string pp" where
  "help_first 0 = raise NoReturn"
| "help_first (Suc n) =
     bind readline (\<lambda>line. bind (incr_linenr 1) (\<lambda>_.
     if line = [] \<or> \<not> isspace line then ret line else help_first n))"

definition indentation :: "string \<Rightarrow> nat" where
  "indentation expline = length expline - length (py_lstrip expline)"

text \<open>The lines up to the first one with less indentation, which is returned too.\<close>

fun help_lines :: "nat \<Rightarrow> nat \<Rightarrow> string list \<Rightarrow> (string list \<times> string) pp" where
  "help_lines 0 indent ls = raise NoReturn"
| "help_lines (Suc n) indent ls =
     bind readline (\<lambda>line.
     if isspace line then help_lines n indent (ls @ [[NL]])
     else if line = [] then ret (ls, line)
     else
       let expline = expandtabs line in
       if indentation expline < indent then ret (ls, line)
       else help_lines n indent (ls @ [drop indent expline]))"

definition parse_help :: "penv \<Rightarrow> nat \<Rightarrow> noderef \<Rightarrow> unit pp" where
  "parse_help E n x =
     bind (get_node x) (\<lambda>N.
     bind (item_name_and_loc (n_item N)) (\<lambda>l.
     bind (if n_help N \<noteq> None then
             warn_text (l @ '' defined with more than one help text -- only the last one will be used'')
           else ret ()) (\<lambda>_.
     bind (help_first n) (\<lambda>line.
     if line = [] then empty_help E n x line
     else
       let expline = expandtabs line; indent = indentation expline in
       if indent = 0 then empty_help E n x line
       else
         bind (help_lines n indent [drop indent expline]) (\<lambda>(ls, line).
         bind (incr_linenr (length ls)) (\<lambda>_.
         bind (upd_node x (\<lambda>N. N\<lparr>n_help := Some (py_rstrip (concat ls))\<rparr>)) (\<lambda>_.
         if line \<noteq> [] then line_after_help E n line else ret ())))))))"

text \<open>The options of a symbol.\<close>

definition parse_env_option :: "penv \<Rightarrow> noderef \<Rightarrow> unit pp" where
  "parse_env_option E x =
     bind (check_token T_EQUAL) (\<lambda>eq. if \<not> eq then parse_error (''expected '' @ quoted [] ''='' @ '' after '' @ quoted [] ''env'') else
     bind expect_str_and_eol (\<lambda>env_var.
     bind (get_node x) (\<lambda>N. case n_item N of
       NSym s \<Rightarrow>
         bind (upd_kc (set_sym s (\<lambda>r. r\<lparr>s_env_var := Some env_var\<rparr>))) (\<lambda>_.
         bind (case e_environ E env_var of
                 Some v \<Rightarrow> bind (lookup_const_sym v) (\<lambda>c.
                   upd_node x (\<lambda>N. N\<lparr>n_defaults := n_defaults N @ [(Item (Sym c), ky)]\<rparr>))
               | None \<Rightarrow> warn_here (sym_name s @ '' has '' @ quoted [] (''option env='' @ [QUOT] @ env_var @ [QUOT]) @
                   '', but the environment variable '' @ env_var @ '' is not set'')) (\<lambda>_.
         if env_var \<noteq> sym_name s then
           warn_here (''Kconfiglib expands environment variables in strings directly, meaning you do not need '' @
             quoted [] ''option env=...'' @ '' '' @ [QUOT] @ ''bounce'' @ [QUOT] @
             '' symbols. For compatibility with the C tools, rename '' @ sym_name s @ '' to '' @ env_var @
             '' (so that the symbol name matches the environment variable name).'')
         else ret ()))
     | _ \<Rightarrow> raise AttributeError)))"

definition defconfig_option :: "noderef \<Rightarrow> unit pp" where
  "defconfig_option x =
     bind (get_node x) (\<lambda>N. bind (gets (\<lambda>p. k_defconfig_list (p_kc p))) (\<lambda>old. case old of
       None \<Rightarrow> upd_kc (\<lambda>K. K\<lparr>k_defconfig_list := Some (n_item N)\<rparr>)
     | Some item \<Rightarrow>
         bind (item_name item) (\<lambda>a. bind (item_name (n_item N)) (\<lambda>b.
           warn_here (quoted [] ''option defconfig_list'' @ '' set on multiple symbols ('' @ a @ '' and '' @ b @ ''). Only '' @
             a @ '' will be used.'')))))"

definition modules_option :: "noderef \<Rightarrow> unit pp" where
  "modules_option x =
     bind (get_node x) (\<lambda>N. if n_item N = NSym modules then ret () else
       warn_here (''the '' @ quoted [] ''modules'' @ '' option is not supported. Let me know if this is a problem for you, '' @
         ''as it wouldn'' @ [CHR 0x27] @ ''t be that hard to implement. Note that modules are supported -- '' @
         ''Kconfiglib just assumes the symbol name MODULES, like older versions of the C implementation did when '' @
         quoted [] ''option modules'' @ '' wasn'' @ [CHR 0x27] @ ''t used.''))"

definition parse_option :: "penv \<Rightarrow> noderef \<Rightarrow> unit pp" where
  "parse_option E x =
     bind (check_token T_ENV) (\<lambda>c. if c then parse_env_option E x else
     bind (check_token T_DEFCONFIG_LIST) (\<lambda>c. if c then defconfig_option x else
     bind (check_token T_MODULES) (\<lambda>c. if c then modules_option x else
     bind (check_token T_ALLNOCONFIG_Y) (\<lambda>c. if c then
       bind (get_node x) (\<lambda>N. case n_item N of
         NSym s \<Rightarrow> upd_kc (set_sym s (\<lambda>r. r\<lparr>s_is_allnoconfig_y := True\<rparr>))
       | _ \<Rightarrow> parse_error (''the '' @ quoted [] ''allnoconfig_y'' @ '' option is only valid for symbols''))
     else parse_error ''unrecognized option''))))"

text \<open>
  One round of the loop in \<open>Kconfig._parse_props\<close>, on the first token of the line; false when the line
  is not a property, and its tokens are used again.
\<close>

definition is_sym_item :: "nitem \<Rightarrow> bool" where
  "is_sym_item item = (case item of NSym _ \<Rightarrow> True | _ \<Rightarrow> False)"

definition parse_default :: "nat \<Rightarrow> noderef \<Rightarrow> unit pp" where
  "parse_default n x =
     bind (parse_expr n False) (\<lambda>e. bind (parse_cond n) (\<lambda>cond.
       upd_node x (\<lambda>N. N\<lparr>n_defaults := n_defaults N @ [(e, cond)]\<rparr>)))"

definition parse_prop :: "penv \<Rightarrow> nat \<Rightarrow> noderef \<Rightarrow> token \<Rightarrow> bool pp" where
  "parse_prop E n x t0 =
     bind (get_node x) (\<lambda>N.
     case type_token t0 of
       Some t \<Rightarrow>
         bind (set_type (n_item N) t) (\<lambda>_. bind (token_at 1) (\<lambda>t1.
         bind (if t1 \<noteq> TNone then parse_prompt n x else ret ()) (\<lambda>_. ret True)))
     | None \<Rightarrow>
     if t0 = TKw T_DEPENDS then
       bind (check_token T_ON) (\<lambda>c. if \<not> c then parse_error (''expected '' @ quoted [] ''on'' @ '' after '' @ quoted [] ''depends'') else
       bind (expect_expr_and_eol n) (\<lambda>e.
       bind (upd_node x (\<lambda>N. N\<lparr>n_dep := make_and (n_dep N) e\<rparr>)) (\<lambda>_. ret True)))
     else if t0 = TKw T_HELP then bind (parse_help E n x) (\<lambda>_. ret True)
     else if t0 = TKw T_SELECT then
       (if \<not> is_sym_item (n_item N) then parse_error ''only symbols can select''
        else bind expect_nonconst_sym (\<lambda>s. bind (parse_cond n) (\<lambda>cond.
          bind (upd_node x (\<lambda>N. N\<lparr>n_selects := n_selects N @ [(s, cond)]\<rparr>)) (\<lambda>_. ret True))))
     else if t0 = TNone then ret True
     else if t0 = TKw T_DEFAULT then bind (parse_default n x) (\<lambda>_. ret True)
     else (case def_token_to_type t0 of
       Some t \<Rightarrow> bind (set_type (n_item N) t) (\<lambda>_. bind (parse_default n x) (\<lambda>_. ret True))
     | None \<Rightarrow>
     if t0 = TKw T_PROMPT then bind (parse_prompt n x) (\<lambda>_. ret True)
     else if t0 = TKw T_RANGE then
       bind expect_sym (\<lambda>lo. bind expect_sym (\<lambda>hi. bind (parse_cond n) (\<lambda>cond.
       bind (upd_node x (\<lambda>N. N\<lparr>n_ranges := n_ranges N @ [(lo, hi, cond)]\<rparr>)) (\<lambda>_. ret True))))
     else if t0 = TKw T_IMPLY then
       (if \<not> is_sym_item (n_item N) then parse_error ''only symbols can imply''
        else bind expect_nonconst_sym (\<lambda>s. bind (parse_cond n) (\<lambda>cond.
          bind (upd_node x (\<lambda>N. N\<lparr>n_implies := n_implies N @ [(s, cond)]\<rparr>)) (\<lambda>_. ret True))))
     else if t0 = TKw T_VISIBLE then
       bind (check_token T_IF) (\<lambda>c. if \<not> c then parse_error (''expected '' @ quoted [] ''if'' @ '' after '' @ quoted [] ''visible'') else
       if n_item N \<noteq> NMenu then raise AttributeError
       else bind (expect_expr_and_eol n) (\<lambda>e.
         bind (upd_node x (\<lambda>N. N\<lparr>n_visibility := make_and (n_visibility N) e\<rparr>)) (\<lambda>_. ret True)))
     else if t0 = TKw T_OPTION then bind (parse_option E x) (\<lambda>_. ret True)
     else if t0 = TKw T_OPTIONAL then
       (case n_item N of
          NCho c \<Rightarrow> bind (upd_kc (set_choice c (\<lambda>r. r\<lparr>c_is_optional := True\<rparr>))) (\<lambda>_. ret True)
        | _ \<Rightarrow> parse_error ([QUOT] @ ''optional'' @ [QUOT] @ '' is only valid for choices''))
     else bind (modify (\<lambda>p. p\<lparr>p_reuse_tokens := True\<rparr>)) (\<lambda>_. ret False)))"

text \<open>\<open>Kconfig._parse_props\<close>\<close>

fun props_loop :: "penv \<Rightarrow> nat \<Rightarrow> noderef \<Rightarrow> unit pp" where
  "props_loop E 0 x = raise NoReturn"
| "props_loop E (Suc n) x =
     bind (next_line E n) (\<lambda>more. if \<not> more then ret () else
     bind (token_at 0) (\<lambda>t0. bind (parse_prop E n x t0) (\<lambda>prop.
     if prop then props_loop E n x else ret ())))"

definition parse_props :: "penv \<Rightarrow> nat \<Rightarrow> noderef \<Rightarrow> unit pp" where
  "parse_props E n x = bind (upd_node x (\<lambda>N. N\<lparr>n_dep := ky\<rparr>)) (\<lambda>_. props_loop E n x)"

section \<open>Blocks\<close>

text \<open>
  The pieces of \<open>Kconfig._parse_block\<close>: the nodes of symbols, menus, comments and choices, as far as
  they are complete before the block inside is parsed.
\<close>

definition config_token :: "token \<Rightarrow> bool" where
  "config_token t = (t \<in> TKw ` {T_CONFIG, T_MENUCONFIG, T_CONFIGDEFAULT})"

definition check_configdefault :: "noderef \<Rightarrow> unit pp" where
  "check_configdefault x =
     bind (get_node x) (\<lambda>N.
     if n_is_configdefault N \<and> (n_prompt N \<noteq> None \<or> n_dep N \<noteq> ky \<or> n_ranges N \<noteq> [] \<or> n_selects N \<noteq> [] \<or> n_implies N \<noteq> [])
     then parse_error ''configdefault can only contain `default`'' else ret ())"

definition parse_config :: "penv \<Rightarrow> nat \<Rightarrow> token \<Rightarrow> noderef \<Rightarrow> noderef pp" where
  "parse_config E n t0 parent =
     bind (token_at 1) (\<lambda>t.
     case t of
       TSym s \<Rightarrow>
         if is_constant s then parse_error ''missing or bad symbol name''
         else
           bind (token_at 2) (\<lambda>t2. if t2 \<noteq> TNone then trailing_tokens_error else
           bind (upd_kc (\<lambda>K. K\<lparr>k_defined_syms := k_defined_syms K @ [s]\<rparr>)) (\<lambda>_.
           bind (new_menunode (NSym s) parent) (\<lambda>x.
           bind (upd_node x (\<lambda>N. N\<lparr>n_is_menuconfig := (t0 = TKw T_MENUCONFIG), n_is_configdefault := (t0 = TKw T_CONFIGDEFAULT)\<rparr>)) (\<lambda>_.
           bind (upd_kc (set_sym s (\<lambda>r. r\<lparr>s_nodes := s_nodes r @ [x]\<rparr>))) (\<lambda>_.
           bind (parse_props E n x) (\<lambda>_.
           bind (check_configdefault x) (\<lambda>_.
           bind (get_node x) (\<lambda>N.
           bind (if n_is_menuconfig N \<and> n_prompt N = None then
                   bind (item_name_and_loc (NSym s)) (\<lambda>l. warn_text (''the menuconfig symbol '' @ l @ '' has no prompt''))
                 else ret ()) (\<lambda>_. ret x)))))))))
     | _ \<Rightarrow> parse_error ''missing or bad symbol name'')"

definition parse_menu :: "penv \<Rightarrow> nat \<Rightarrow> noderef \<Rightarrow> noderef pp" where
  "parse_menu E n parent =
     bind (new_menunode NMenu parent) (\<lambda>x.
     bind expect_str_and_eol (\<lambda>title.
     bind (upd_node x (\<lambda>N. N\<lparr>n_is_menuconfig := True, n_prompt := Some (title, ky), n_visibility := ky\<rparr>)) (\<lambda>_.
     bind (modify (\<lambda>p. p\<lparr>p_menus := p_menus p @ [x]\<rparr>)) (\<lambda>_.
     bind (parse_props E n x) (\<lambda>_. ret x)))))"

definition parse_comment :: "penv \<Rightarrow> nat \<Rightarrow> noderef \<Rightarrow> noderef pp" where
  "parse_comment E n parent =
     bind (new_menunode NComment parent) (\<lambda>x.
     bind expect_str_and_eol (\<lambda>title.
     bind (upd_node x (\<lambda>N. N\<lparr>n_is_menuconfig := False, n_prompt := Some (title, ky)\<rparr>)) (\<lambda>_.
     bind (modify (\<lambda>p. p\<lparr>p_comments := p_comments p @ [x]\<rparr>)) (\<lambda>_.
     bind (parse_props E n x) (\<lambda>_. ret x)))))"

definition the_choice :: "choiceref pp" where
  "the_choice =
     bind (token_at 1) (\<lambda>t. if t = TNone then create_choice None else
     bind expect_str_and_eol (\<lambda>name.
     bind (gets (\<lambda>p. p_named_choices p name)) (\<lambda>old. case old of
       Some c \<Rightarrow> ret c
     | None \<Rightarrow> bind (create_choice (Some name)) (\<lambda>c.
         bind (modify (\<lambda>p. p\<lparr>p_named_choices := (p_named_choices p)(name := Some c)\<rparr>)) (\<lambda>_. ret c)))))"

definition parse_choice :: "penv \<Rightarrow> nat \<Rightarrow> noderef \<Rightarrow> noderef pp" where
  "parse_choice E n parent =
     bind the_choice (\<lambda>c.
     bind (upd_kc (\<lambda>K. K\<lparr>k_choices := k_choices K @ [c]\<rparr>)) (\<lambda>_.
     bind (new_menunode (NCho c) parent) (\<lambda>x.
     bind (upd_node x (\<lambda>N. N\<lparr>n_is_menuconfig := True\<rparr>)) (\<lambda>_.
     bind (upd_kc (set_choice c (\<lambda>r. r\<lparr>c_nodes := c_nodes r @ [x]\<rparr>))) (\<lambda>_.
     bind (parse_props E n x) (\<lambda>_. ret x))))))"

definition parse_if :: "nat \<Rightarrow> noderef \<Rightarrow> noderef pp" where
  "parse_if n parent =
     bind (new_menunode NIf parent) (\<lambda>x.
     bind (expect_expr_and_eol n) (\<lambda>e.
     bind (upd_node x (\<lambda>N. N\<lparr>n_dep := e\<rparr>)) (\<lambda>_. ret x)))"

text \<open>The files a \<open>source\<close> line names.\<close>

definition source_files :: "penv \<Rightarrow> token \<Rightarrow> string list pp" where
  "source_files E t0 =
     bind expect_str_and_eol (\<lambda>pattern.
     bind (gets the_filename) (\<lambda>file.
     let pattern = (if rel_source_token t0 then py_join (dirname file) pattern else pattern);
         filenames = sort (e_glob E (py_join (e_srctree_prefix E) pattern))
     in if filenames = [] \<and> obl_source_token t0 then
          bind (gets (\<lambda>p. here p @ quoted '': '' pattern @ quoted '' not found (in '' (py_strip (p_line p)) @
            ''). Check that environment variables are set correctly (e.g. $srctree, which is '' @
            (if e_srctree E \<noteq> [] then quoted ''set to '' (e_srctree E) else ''unset or blank'') @
            ''). Also note that unset environment variables expand to the empty string.'')) (\<lambda>t. raise (KconfigError t))
        else ret filenames))"

text \<open>The keyword that is missing, at a line that starts no construct and at the end of the file.\<close>

definition block_error :: "token \<Rightarrow> 'a pp" where
  "block_error t0 =
     parse_error
       (if t0 = TKw T_ENDCHOICE then quoted ''no corresponding '' ''choice''
        else if t0 = TKw T_ENDIF then quoted ''no corresponding '' ''if''
        else if t0 = TKw T_ENDMENU then quoted ''no corresponding '' ''menu'' else ''unrecognized construct'')"

definition end_error :: "kw \<Rightarrow> 'a pp" where
  "end_error k =
     bind (gets (\<lambda>p. quoted ''error: expected '' (if k = T_ENDCHOICE then ''endchoice'' else if k = T_ENDIF then ''endif'' else ''endmenu'') @
       quoted '' at end of '' (the_filename p))) (\<lambda>t. raise (KconfigError t))"

text \<open>\<open>prev.next = prev = node\<close> and \<open>node.list = node.next\<close>\<close>

definition link_next :: "noderef \<Rightarrow> noderef option \<Rightarrow> unit pp" where
  "link_next x y = upd_node x (\<lambda>N. N\<lparr>n_next := y\<rparr>)"

definition tilt :: "noderef \<Rightarrow> unit pp" where
  "tilt x = upd_node x (\<lambda>N. N\<lparr>n_list := n_next N\<rparr>)"

text \<open>
  \<open>Kconfig._parse_block\<close>: \<open>end_token\<close> is \<open>None\<close> for files. The fuel bounds the number of lines and the
  nesting of blocks and files together.
\<close>

fun parse_block :: "penv \<Rightarrow> nat \<Rightarrow> kw option \<Rightarrow> noderef \<Rightarrow> noderef \<Rightarrow> noderef pp" where
  "parse_block E 0 end_token parent prev = raise NoReturn"
| "parse_block E (Suc n) end_token parent prev =
     bind (next_line E n) (\<lambda>more.
     if \<not> more then (case end_token of Some k \<Rightarrow> end_error k | None \<Rightarrow> ret prev)
     else
     bind (token_at 0) (\<lambda>t0.
     let continue_with = (\<lambda>x. bind (link_next prev (Some x)) (\<lambda>_. parse_block E n end_token parent x));
         block = (\<lambda>k x. bind (parse_block E n (Some k) x x) (\<lambda>_. bind (tilt x) (\<lambda>_. continue_with x)))
     in
     if config_token t0 then bind (parse_config E n t0 parent) continue_with
     else if t0 = TNone then parse_block E n end_token parent prev
     else if source_token t0 then
       bind (source_files E t0) (\<lambda>filenames.
       bind (foldm (\<lambda>f prev. bind (enter_file E f) (\<lambda>_.
           bind (parse_block E n None parent prev) (\<lambda>x. bind leave_file (\<lambda>_. ret x)))) filenames prev)
         (parse_block E n end_token parent))
     else if (case end_token of None \<Rightarrow> False | Some k \<Rightarrow> t0 = TKw k) then
       bind (token_at 1) (\<lambda>t1. if t1 \<noteq> TNone then trailing_tokens_error else
       bind (link_next prev None) (\<lambda>_. ret prev))
     else if t0 = TKw T_IF then bind (parse_if n parent) (block T_ENDIF)
     else if t0 = TKw T_MENU then bind (parse_menu E n parent) (block T_ENDMENU)
     else if t0 = TKw T_COMMENT then bind (parse_comment E n parent) continue_with
     else if t0 = TKw T_CHOICE then bind (parse_choice E n parent) (block T_ENDCHOICE)
     else if t0 = TKw T_MAINMENU then
       bind expect_str_and_eol (\<lambda>title.
       bind (gets (\<lambda>p. k_top_node (p_kc p))) (\<lambda>top.
       bind (upd_node top (\<lambda>N. N\<lparr>n_prompt := Some (title, ky)\<rparr>)) (\<lambda>_.
       parse_block E n end_token parent prev)))
     else block_error t0))"

section \<open>Parsing all files\<close>

text \<open>The state before parsing in \<open>Kconfig._init\<close>, and parsing from the top-level file on.\<close>

definition init_kconfig :: "penv \<Rightarrow> string \<Rightarrow> kconfig" where
  "init_kconfig E filename =
     \<lparr>k_sym = init_sym, k_choice = (\<lambda>_. new_choice),
      k_node = (\<lambda>_. new_node)(0 := new_node\<lparr>n_item := NMenu, n_is_menuconfig := True, n_visibility := ky,
        n_prompt := Some (''Main menu'', ky), n_dep := ky, n_filename := filename, n_linenr := 1\<rparr>),
      k_syms = [''MODULES''], k_defined_syms = [], k_choices = [], k_unique_defined_syms = [], k_unique_choices = [],
      k_defconfig_list = None,
      k_config_prefix = (case e_environ E ''CONFIG_'' of None \<Rightarrow> ''CONFIG_'' | Some x \<Rightarrow> x),
      k_config_header = (case e_environ E ''KCONFIG_CONFIG_HEADER'' of None \<Rightarrow> [] | Some x \<Rightarrow> x),
      k_header_header = (case e_environ E ''KCONFIG_AUTOHEADER_HEADER'' of None \<Rightarrow> [] | Some x \<Rightarrow> x),
      k_top_node = 0\<rparr>"

definition init_pstate :: "penv \<Rightarrow> string \<Rightarrow> bool \<Rightarrow> pstate" where
  "init_pstate E filename w =
     \<lparr>p_kc = init_kconfig E filename,
      p_dyn = init_dyn\<lparr>warn := w, warn_assign_undef := (e_environ E ''KCONFIG_WARN_UNDEF_ASSIGN'' = Some ''y'')\<rparr>,
      p_const_syms = [''n'', ''m'', ''y''], p_parsing = True, p_variables = (\<lambda>_. None), p_env_vars = [],
      p_named_choices = (\<lambda>_. None), p_menus = [], p_comments = [], p_new_node = 1, p_new_choice = 0,
      p_kconfig_filenames = [filename], p_filestack = [], p_include_path = [], p_filename = Some filename,
      p_linenr = 0, p_rest = [], p_tokens = [], p_i = 0, p_reuse_tokens = False, p_line = []\<rparr>"

definition parse_kconfig :: "penv \<Rightarrow> nat \<Rightarrow> string \<Rightarrow> unit pp" where
  "parse_kconfig E n filename =
     bind (of_option (OSError filename) (e_files E (py_join (e_srctree E) filename))) (\<lambda>text.
     bind (modify (\<lambda>p. p\<lparr>p_rest := text\<rparr>)) (\<lambda>_.
     bind (gets (\<lambda>p. k_top_node (p_kc p))) (\<lambda>top.
     bind (parse_block E n None top top) (\<lambda>last.
     bind (link_next last None) (\<lambda>_.
     bind (tilt top) (\<lambda>_.
     bind (link_next top None) (\<lambda>_. modify (\<lambda>p. p\<lparr>p_parsing := False\<rparr>))))))))"

end
