(* ===== verification/Finalize.thy ===== *)
theory Finalize
  imports Parser Walk
begin

text \<open>
  What happens to the menu tree after parsing (\<^verbatim>\<open>src/scripts/kconfig/kconfiglib.py\<close>): dependencies are
  propagated to the children (\<open>_propagate_deps\<close>), properties are copied to the symbols
  (\<open>_add_props_to_sym\<close>), implicit menus are created, nodes without prompts are flattened (\<open>_flatten\<close>,
  \<open>_remove_ifs\<close>) and choices are completed (\<open>_finalize_choice\<close>), all by \<open>_finalize_node\<close>;
  \<open>_finalize_sym\<close> adds the defaults of \<open>configdefault\<close> entries.
\<close>

section \<open>The objects\<close>

text \<open>Computations on the \<open>Kconfig\<close> object; they raise no exceptions but run out of fuel.\<close>

type_synonym 'a kp = "(kconfig, 'a) eff"

abbreviation mod_node :: "noderef \<Rightarrow> (menunode \<Rightarrow> menunode) \<Rightarrow> unit kp" where
  "mod_node x f \<equiv> modify (set_node x f)"

abbreviation node :: "noderef \<Rightarrow> menunode kp" where
  "node x \<equiv> gets (\<lambda>K. k_node K x)"

section \<open>Propagating dependencies\<close>

text \<open>\<open>Kconfig._propagate_deps\<close>: what happens to a child node.\<close>

definition propagate_to :: "expr \<Rightarrow> expr \<Rightarrow> menunode \<Rightarrow> menunode" where
  "propagate_to basedep visible_if N =
     (let dep = make_and (n_dep N) basedep in
      case n_item N of
        NSym _ \<Rightarrow> N\<lparr>n_dep := dep,
          n_prompt := map_option (\<lambda>(t, c). (t, make_and c (make_and visible_if dep))) (n_prompt N),
          n_defaults := map (\<lambda>(v, c). (v, make_and c dep)) (n_defaults N),
          n_ranges := map (\<lambda>(l, h, c). (l, h, make_and c dep)) (n_ranges N),
          n_selects := map (\<lambda>(s, c). (s, make_and c dep)) (n_selects N),
          n_implies := map (\<lambda>(s, c). (s, make_and c dep)) (n_implies N)\<rparr>
      | NCho _ \<Rightarrow> N\<lparr>n_dep := dep,
          n_prompt := map_option (\<lambda>(t, c). (t, make_and c (make_and visible_if dep))) (n_prompt N),
          n_defaults := map (\<lambda>(v, c). (v, make_and c dep)) (n_defaults N),
          n_ranges := map (\<lambda>(l, h, c). (l, h, make_and c dep)) (n_ranges N),
          n_selects := map (\<lambda>(s, c). (s, make_and c dep)) (n_selects N),
          n_implies := map (\<lambda>(s, c). (s, make_and c dep)) (n_implies N)\<rparr>
      | _ \<Rightarrow> N\<lparr>n_dep := dep, n_prompt := map_option (\<lambda>(t, c). (t, make_and c dep)) (n_prompt N)\<rparr>)"

fun propagate_loop :: "nat \<Rightarrow> expr \<Rightarrow> expr \<Rightarrow> noderef option \<Rightarrow> unit kp" where
  "propagate_loop 0 basedep visible_if cur = raise NoReturn"
| "propagate_loop (Suc n) basedep visible_if None = ret ()"
| "propagate_loop (Suc n) basedep visible_if (Some x) =
     bind (mod_node x (propagate_to basedep visible_if)) (\<lambda>_.
     bind (node x) (\<lambda>N. propagate_loop n basedep visible_if (n_next N)))"

definition propagate_deps :: "nat \<Rightarrow> noderef \<Rightarrow> expr \<Rightarrow> unit kp" where
  "propagate_deps n x visible_if =
     bind (node x) (\<lambda>N.
     propagate_loop n (case n_item N of NCho c \<Rightarrow> Item (Cho c) | _ \<Rightarrow> n_dep N) visible_if (n_list N))"

section \<open>Properties of symbols\<close>

text \<open>\<open>Kconfig._add_props_to_sym\<close>\<close>

definition add_rev_dep :: "symref \<Rightarrow> symref \<times> expr \<Rightarrow> kconfig \<Rightarrow> kconfig" where
  "add_rev_dep s = (\<lambda>(target, cond). set_sym target (\<lambda>r. r\<lparr>s_rev_dep := make_or (s_rev_dep r) (make_and (Item (Sym s)) cond)\<rparr>))"

definition add_weak_rev_dep :: "symref \<Rightarrow> symref \<times> expr \<Rightarrow> kconfig \<Rightarrow> kconfig" where
  "add_weak_rev_dep s = (\<lambda>(target, cond). set_sym target (\<lambda>r. r\<lparr>s_weak_rev_dep := make_or (s_weak_rev_dep r) (make_and (Item (Sym s)) cond)\<rparr>))"

definition add_props_to_sym :: "symref \<Rightarrow> menunode \<Rightarrow> kconfig \<Rightarrow> kconfig" where
  "add_props_to_sym s N K =
     (if n_is_configdefault N then
        set_sym s (\<lambda>r. r\<lparr>s_configdefaults := s_configdefaults r @ [(length (s_defaults r), n_defaults N)]\<rparr>) K
      else
        fold (add_weak_rev_dep s) (n_implies N) (fold (add_rev_dep s) (n_selects N)
          (set_sym s (\<lambda>r. r\<lparr>s_direct_dep := make_or (s_direct_dep r) (n_dep N),
             s_defaults := s_defaults r @ n_defaults N, s_ranges := s_ranges r @ n_ranges N,
             s_selects := s_selects r @ n_selects N, s_implies := s_implies r @ n_implies N\<rparr>) K)))"

text \<open>\<open>Kconfig._finalize_sym\<close>: the defaults of \<open>configdefault\<close> entries go where they stood.\<close>

definition insert_at :: "nat \<Rightarrow> 'a \<Rightarrow> 'a list \<Rightarrow> 'a list" where
  "insert_at i x xs = take i xs @ x # drop i xs"

definition insert_default :: "expr \<Rightarrow> nat \<Rightarrow> expr \<times> expr \<Rightarrow> nat \<times> (expr \<times> expr) list \<Rightarrow> nat \<times> (expr \<times> expr) list" where
  "insert_default direct_dep idx d st =
     (let (inserted, defaults) = st in
      (inserted + 1, insert_at (inserted + idx) (fst d, make_and direct_dep (snd d)) defaults))"

definition finalized_defaults :: "expr \<Rightarrow> (nat \<times> (expr \<times> expr) list) list \<Rightarrow> (expr \<times> expr) list \<Rightarrow> (expr \<times> expr) list" where
  "finalized_defaults direct_dep configdefaults defaults =
     snd (fold (\<lambda>(idx, ds). fold (insert_default direct_dep idx) ds) configdefaults (0, defaults))"

definition finalize_sym :: "symref \<Rightarrow> kconfig \<Rightarrow> kconfig" where
  "finalize_sym s =
     set_sym s (\<lambda>r. r\<lparr>s_defaults := finalized_defaults (s_direct_dep r) (s_configdefaults r) (s_defaults r)\<rparr>)"

section \<open>Menus\<close>

text \<open>\<open>_auto_menu_dep\<close>\<close>

definition auto_menu_dep :: "kconfig \<Rightarrow> noderef \<Rightarrow> noderef \<Rightarrow> bool" where
  "auto_menu_dep K x y =
     (let e = (case n_prompt (k_node K y) of Some (_, c) \<Rightarrow> c | None \<Rightarrow> n_dep (k_node K y)) in
      case n_item (k_node K x) of NSym s \<Rightarrow> expr_depends_on e (Sym s) | NCho c \<Rightarrow> expr_depends_on e (Cho c) | _ \<Rightarrow> False)"

text \<open>\<open>_flatten\<close>: the inner loop gives the children the parent of the node, and yields the last one.\<close>

fun reparent :: "nat \<Rightarrow> noderef option \<Rightarrow> noderef \<Rightarrow> noderef kp" where
  "reparent 0 parent x = raise NoReturn"
| "reparent (Suc n) parent x =
     bind (mod_node x (\<lambda>N. N\<lparr>n_parent := parent\<rparr>)) (\<lambda>_.
     bind (node x) (\<lambda>N. case n_next N of None \<Rightarrow> ret x | Some y \<Rightarrow> reparent n parent y))"

definition is_choice_item :: "nitem \<Rightarrow> bool" where
  "is_choice_item item = (case item of NCho _ \<Rightarrow> True | _ \<Rightarrow> False)"

definition flatten_node :: "nat \<Rightarrow> noderef \<Rightarrow> unit kp" where
  "flatten_node n x =
     bind (node x) (\<lambda>N. case n_list N of
       None \<Rightarrow> ret ()
     | Some l \<Rightarrow>
         if n_prompt N = None \<and> \<not> is_choice_item (n_item N) then
           bind (reparent n (n_parent N) l) (\<lambda>last.
           bind (mod_node last (\<lambda>L. L\<lparr>n_next := n_next N\<rparr>)) (\<lambda>_.
           mod_node x (\<lambda>N. N\<lparr>n_next := n_list N, n_list := None\<rparr>)))
         else ret ())"

fun flatten :: "nat \<Rightarrow> noderef option \<Rightarrow> unit kp" where
  "flatten 0 cur = raise NoReturn"
| "flatten (Suc n) None = ret ()"
| "flatten (Suc n) (Some x) =
     bind (flatten_node n x) (\<lambda>_. bind (node x) (\<lambda>N. flatten n (n_next N)))"

text \<open>\<open>_remove_ifs\<close>\<close>

fun skip_ifs :: "nat \<Rightarrow> noderef option \<Rightarrow> noderef option kp" where
  "skip_ifs 0 cur = raise NoReturn"
| "skip_ifs (Suc n) None = ret None"
| "skip_ifs (Suc n) (Some x) =
     bind (node x) (\<lambda>N. if n_item N = NIf then skip_ifs n (n_next N) else ret (Some x))"

fun remove_ifs_loop :: "nat \<Rightarrow> noderef option \<Rightarrow> unit kp" where
  "remove_ifs_loop 0 cur = raise NoReturn"
| "remove_ifs_loop (Suc n) None = ret ()"
| "remove_ifs_loop (Suc n) (Some x) =
     bind (node x) (\<lambda>N. bind (skip_ifs n (n_next N)) (\<lambda>next.
     bind (mod_node x (\<lambda>N. N\<lparr>n_next := next\<rparr>)) (\<lambda>_. remove_ifs_loop n next)))"

definition remove_ifs :: "nat \<Rightarrow> noderef \<Rightarrow> unit kp" where
  "remove_ifs n x =
     bind (node x) (\<lambda>N. bind (skip_ifs n (n_list N)) (\<lambda>cur.
     bind (mod_node x (\<lambda>N. N\<lparr>n_list := cur\<rparr>)) (\<lambda>_. remove_ifs_loop n cur)))"

section \<open>Choices\<close>

text \<open>\<open>_finalize_choice\<close>\<close>

fun add_choice_syms :: "nat \<Rightarrow> choiceref \<Rightarrow> noderef option \<Rightarrow> unit kp" where
  "add_choice_syms 0 c cur = raise NoReturn"
| "add_choice_syms (Suc n) c None = ret ()"
| "add_choice_syms (Suc n) c (Some x) =
     bind (node x) (\<lambda>N.
     bind (case n_item N of
             NSym s \<Rightarrow> modify (set_choice c (\<lambda>r. r\<lparr>c_syms := c_syms r @ [s]\<rparr>) \<circ> set_sym s (\<lambda>r. r\<lparr>s_choice := Some c\<rparr>))
           | _ \<Rightarrow> ret ()) (\<lambda>_.
     add_choice_syms n c (n_next N)))"

definition infer_choice_type :: "choiceref \<Rightarrow> kconfig \<Rightarrow> kconfig" where
  "infer_choice_type c K =
     (if c_orig_type (k_choice K c) \<noteq> UNKNOWN then K
      else case find (\<lambda>s. otype K s \<noteq> UNKNOWN) (c_syms (k_choice K c)) of
        None \<Rightarrow> K
      | Some s \<Rightarrow> set_choice c (\<lambda>r. r\<lparr>c_orig_type := otype K s\<rparr>) K)"

definition infer_sym_types :: "choiceref \<Rightarrow> kconfig \<Rightarrow> kconfig" where
  "infer_sym_types c K =
     fold (\<lambda>s K. if otype K s \<noteq> UNKNOWN then K else set_sym s (\<lambda>r. r\<lparr>s_orig_type := c_orig_type (k_choice K c)\<rparr>) K)
       (c_syms (k_choice K c)) K"

definition finalize_choice :: "nat \<Rightarrow> choiceref \<Rightarrow> noderef \<Rightarrow> unit kp" where
  "finalize_choice n c x =
     bind (node x) (\<lambda>N. bind (add_choice_syms n c (n_list N)) (\<lambda>_.
     modify (infer_sym_types c \<circ> infer_choice_type c)))"

section \<open>All nodes\<close>

text \<open>The final steps of \<open>_finalize_node\<close> on a node.\<close>

definition finish_node :: "nat \<Rightarrow> noderef \<Rightarrow> unit kp" where
  "finish_node n x =
     bind (node x) (\<lambda>N.
     bind (if n_list N \<noteq> None then bind (flatten n (n_list N)) (\<lambda>_. remove_ifs n x) else ret ()) (\<lambda>_.
     bind (node x) (\<lambda>N. case n_item N of
       NCho c \<Rightarrow>
         bind (modify (set_choice c (\<lambda>r. r\<lparr>c_direct_dep := make_or (c_direct_dep r) (n_dep N), c_defaults := c_defaults r @ n_defaults N\<rparr>))) (\<lambda>_.
         finalize_choice n c x)
     | _ \<Rightarrow> ret ())))"

text \<open>Tilting the nodes from \<open>next\<close> of the symbol up to \<open>cur\<close> into its menu.\<close>

definition tilt_menu :: "noderef \<Rightarrow> noderef \<Rightarrow> unit kp" where
  "tilt_menu x cur =
     (if cur = x then ret ()
      else bind (node cur) (\<lambda>C.
        bind (mod_node x (\<lambda>N. N\<lparr>n_list := n_next N, n_next := n_next C\<rparr>)) (\<lambda>_.
        mod_node cur (\<lambda>C. C\<lparr>n_next := None\<rparr>))))"

text \<open>
  \<open>Kconfig._finalize_node\<close>, its loop over the nodes of an implicit menu, which yields the last one, and its
  loop over the children. The fuel bounds rounds and calls together.
\<close>

function (sequential) finalize_node :: "nat \<Rightarrow> noderef \<Rightarrow> expr \<Rightarrow> unit kp"
  and implicit_menu :: "nat \<Rightarrow> noderef \<Rightarrow> noderef \<Rightarrow> expr \<Rightarrow> noderef kp"
  and finalize_children :: "nat \<Rightarrow> noderef option \<Rightarrow> expr \<Rightarrow> unit kp"
where
  "finalize_node 0 x visible_if = raise NoReturn"
| "finalize_node (Suc n) x visible_if =
     bind (node x) (\<lambda>N.
     bind (case n_item N of
             NSym s \<Rightarrow>
               bind (modify (add_props_to_sym s N)) (\<lambda>_.
               bind (implicit_menu n x x visible_if) (tilt_menu x))
           | item \<Rightarrow>
               if n_list N = None then ret ()
               else
                 let visible_if = (if item = NMenu then make_and visible_if (n_visibility N) else visible_if) in
                 bind (propagate_deps n x visible_if) (\<lambda>_. finalize_children n (n_list N) visible_if)) (\<lambda>_.
     finish_node n x))"
| "implicit_menu 0 x cur visible_if = raise NoReturn"
| "implicit_menu (Suc n) x cur visible_if =
     bind (node cur) (\<lambda>C. case n_next C of
       None \<Rightarrow> ret cur
     | Some y \<Rightarrow>
         bind (gets (\<lambda>K. auto_menu_dep K x y)) (\<lambda>dep.
         if \<not> dep then ret cur
         else bind (finalize_node n y visible_if) (\<lambda>_.
           bind (mod_node y (\<lambda>N. N\<lparr>n_parent := Some x\<rparr>)) (\<lambda>_. implicit_menu n x y visible_if))))"
| "finalize_children 0 cur visible_if = raise NoReturn"
| "finalize_children (Suc n) None visible_if = ret ()"
| "finalize_children (Suc n) (Some x) visible_if =
     bind (finalize_node n x visible_if) (\<lambda>_. bind (node x) (\<lambda>N. finalize_children n (n_next N) visible_if))"
  by pat_completeness auto
termination
  by (relation "measure (case_sum fst (case_sum fst fst))") simp_all

text \<open>Post-processing in \<open>Kconfig._init\<close>: the tree, the symbols, and the lists without duplicates.\<close>

definition unique_lists :: "kconfig \<Rightarrow> kconfig" where
  "unique_lists K = K\<lparr>k_unique_defined_syms := ordered_unique_aux [] (k_defined_syms K),
     k_unique_choices := ordered_unique_aux [] (k_choices K)\<rparr>"

definition finalize :: "nat \<Rightarrow> unit kp" where
  "finalize n =
     bind (gets k_top_node) (\<lambda>top. bind (finalize_node n top ky) (\<lambda>_.
     bind (modify (\<lambda>K. fold finalize_sym (map SymN (k_syms K)) K)) (\<lambda>_. modify unique_lists)))"

end
