(* ===== verification/Describe.thy ===== *)
theory Describe
  imports Lexer Eval
begin

text \<open>
  Symbols, choices and menu nodes as text, in the syntax of Kconfig files (\<open>custom_str\<close>) and as
  summaries (\<open>__repr__\<close>), and the original properties without propagated dependencies (\<open>orig_prompt\<close>,
  \<open>orig_defaults\<close>, ...) of \<^verbatim>\<open>src/scripts/kconfig/kconfiglib.py\<close>.
\<close>

section \<open>Original properties\<close>

text \<open>
  \<open>MenuNode._strip_dep\<close>. The source compares tuples by identity; since \<open>_propagate_deps\<close> puts the
  very object \<open>node.dep\<close> into the conditions, equality gives the same answer.
\<close>

definition strip_dep :: "menunode \<Rightarrow> expr \<Rightarrow> expr" where
  "strip_dep N e =
     (if n_dep N = e then ky
      else case e of AND a b \<Rightarrow> if b = n_dep N then a else e | _ \<Rightarrow> e)"

definition orig_prompt :: "menunode \<Rightarrow> (string \<times> expr) option" where
  "orig_prompt N = map_option (\<lambda>(t, c). (t, strip_dep N c)) (n_prompt N)"

definition orig_defaults :: "menunode \<Rightarrow> (expr \<times> expr) list" where
  "orig_defaults N = map (\<lambda>(v, c). (v, strip_dep N c)) (n_defaults N)"

definition orig_selects :: "menunode \<Rightarrow> (symref \<times> expr) list" where
  "orig_selects N = map (\<lambda>(s, c). (s, strip_dep N c)) (n_selects N)"

definition orig_implies :: "menunode \<Rightarrow> (symref \<times> expr) list" where
  "orig_implies N = map (\<lambda>(s, c). (s, strip_dep N c)) (n_implies N)"

definition orig_ranges :: "menunode \<Rightarrow> (symref \<times> symref \<times> expr) list" where
  "orig_ranges N = map (\<lambda>(l, h, c). (l, h, strip_dep N c)) (n_ranges N)"

text \<open>The same over all nodes of a symbol.\<close>

definition sym_orig_defaults :: "kconfig \<Rightarrow> symref \<Rightarrow> (expr \<times> expr) list" where
  "sym_orig_defaults K s = concat (map (\<lambda>x. orig_defaults (k_node K x)) (s_nodes (k_sym K s)))"

definition sym_orig_selects :: "kconfig \<Rightarrow> symref \<Rightarrow> (symref \<times> expr) list" where
  "sym_orig_selects K s = concat (map (\<lambda>x. orig_selects (k_node K x)) (s_nodes (k_sym K s)))"

definition sym_orig_implies :: "kconfig \<Rightarrow> symref \<Rightarrow> (symref \<times> expr) list" where
  "sym_orig_implies K s = concat (map (\<lambda>x. orig_implies (k_node K x)) (s_nodes (k_sym K s)))"

definition sym_orig_ranges :: "kconfig \<Rightarrow> symref \<Rightarrow> (symref \<times> symref \<times> expr) list" where
  "sym_orig_ranges K s = concat (map (\<lambda>x. orig_ranges (k_node K x)) (s_nodes (k_sym K s)))"

text \<open>\<open>MenuNode.referenced\<close>, as the list of the items in the set.\<close>

definition referenced :: "menunode \<Rightarrow> item list" where
  "referenced N =
     expr_items (n_dep N) @
     (case n_prompt N of None \<Rightarrow> [] | Some (_, c) \<Rightarrow> expr_items c) @
     (if n_item N = NMenu then expr_items (n_visibility N) else []) @
     concat (map (\<lambda>(v, c). expr_items v @ expr_items c) (n_defaults N)) @
     concat (map (\<lambda>(s, c). Sym s # expr_items c) (n_selects N)) @
     concat (map (\<lambda>(s, c). Sym s # expr_items c) (n_implies N)) @
     concat (map (\<lambda>(l, h, c). Sym l # Sym h # expr_items c) (n_ranges N))"

section \<open>Definitions as text\<close>

abbreviation TAB :: char where "TAB \<equiv> CHR 0x09"

abbreviation std_str :: "kconfig \<Rightarrow> item \<Rightarrow> string" where
  "std_str K \<equiv> standard_sc_expr_str (\<lambda>c. c_name (k_choice K c))"

text \<open>\<open>MenuNode._menu_comment_node_str\<close>; menus and comments have a prompt.\<close>

definition menu_comment_node_str :: "(item \<Rightarrow> string) \<Rightarrow> menunode \<Rightarrow> string" where
  "menu_comment_node_str f N =
     (if n_item N = NMenu then ''menu'' else ''comment'') @ [SPC, QUOT] @ fst (the (n_prompt N)) @ [QUOT] @
     (if n_dep N \<noteq> ky then [NL, TAB] @ ''depends on '' @ expr_str f (n_dep N) else []) @
     (if n_item N = NMenu \<and> n_visibility N \<noteq> ky then [NL, TAB] @ ''visible if '' @ expr_str f (n_visibility N) else [])"

text \<open>\<open>MenuNode._sym_choice_node_str\<close>: the lines, with \<open>indent_add\<close> and \<open>indent_add_cond\<close>.\<close>

definition ind :: "string \<Rightarrow> string list" where
  "ind s = [TAB # s]"

definition ind_cond :: "(item \<Rightarrow> string) \<Rightarrow> string \<Rightarrow> expr \<Rightarrow> string list" where
  "ind_cond f s cond = ind (if cond \<noteq> ky then s @ '' if '' @ expr_str f cond else s)"

definition node_head :: "kconfig \<Rightarrow> menunode \<Rightarrow> string" where
  "node_head K N =
     (case n_item N of
        NSym s \<Rightarrow> (if n_is_menuconfig N then ''menuconfig '' else if n_is_configdefault N then ''configdefault ''
          else ''config '') @ sym_name s
      | NCho c \<Rightarrow> (case c_name (k_choice K c) of None \<Rightarrow> ''choice'' | Some x \<Rightarrow> if x \<noteq> [] then ''choice '' @ x else ''choice'')
      | _ \<Rightarrow> [])"

definition item_type :: "kconfig \<Rightarrow> nitem \<Rightarrow> stype" where
  "item_type K it = (case it of NSym s \<Rightarrow> otype K s | NCho c \<Rightarrow> c_orig_type (k_choice K c) | _ \<Rightarrow> UNKNOWN)"

definition prompt_lines :: "(item \<Rightarrow> string) \<Rightarrow> stype \<Rightarrow> menunode \<Rightarrow> string list" where
  "prompt_lines f t N =
     (case orig_prompt N of
        None \<Rightarrow> if t \<noteq> UNKNOWN then ind (type_to_str t) else []
      | Some (txt, cond) \<Rightarrow>
          ind_cond f ((if t \<noteq> UNKNOWN then type_to_str t else ''prompt'') @ [SPC, QUOT] @ escape txt @ [QUOT]) cond)"

definition sym_option_lines :: "kconfig \<Rightarrow> (item \<Rightarrow> string) \<Rightarrow> menunode \<Rightarrow> symref \<Rightarrow> string list" where
  "sym_option_lines K f N s =
     (if s_is_allnoconfig_y (k_sym K s) then ind ''option allnoconfig_y'' else []) @
     (if k_defconfig_list K = Some (NSym s) then ind ''option defconfig_list'' else []) @
     (case s_env_var (k_sym K s) of None \<Rightarrow> [] | Some v \<Rightarrow> ind (''option env='' @ [QUOT] @ v @ [QUOT])) @
     (if s = modules then ind ''option modules'' else []) @
     concat (map (\<lambda>(l, h, c). ind_cond f (''range '' @ f (Sym l) @ [SPC] @ f (Sym h)) c) (orig_ranges N))"

definition sym_choice_node_str :: "kconfig \<Rightarrow> (item \<Rightarrow> string) \<Rightarrow> menunode \<Rightarrow> string" where
  "sym_choice_node_str K f N =
     (let sel = (\<lambda>word. concat \<circ> map (\<lambda>(s, c). ind_cond f (word @ f (Sym s)) c)) in
      py_joins [NL]
       ([node_head K N] @
        prompt_lines f (item_type K (n_item N)) N @
        (case n_item N of NSym s \<Rightarrow> sym_option_lines K f N s | _ \<Rightarrow> []) @
        concat (map (\<lambda>(v, c). ind_cond f (''default '' @ expr_str f v) c) (orig_defaults N)) @
        (case n_item N of NCho c \<Rightarrow> if c_is_optional (k_choice K c) then ind ''optional'' else [] | _ \<Rightarrow> []) @
        (case n_item N of NSym s \<Rightarrow> sel ''select '' (orig_selects N) @ sel ''imply '' (orig_implies N) | _ \<Rightarrow> []) @
        (if n_dep N \<noteq> ky then ind (''depends on '' @ expr_str f (n_dep N)) else []) @
        (case n_help N of None \<Rightarrow> [] | Some h \<Rightarrow> ind ''help'' @ concat (map (\<lambda>l. ind (SPC # SPC # l)) (splitlines h)))))"

text \<open>\<open>MenuNode.custom_str\<close>, \<open>Symbol.custom_str\<close> and \<open>Choice.custom_str\<close>\<close>

definition node_str :: "kconfig \<Rightarrow> (item \<Rightarrow> string) \<Rightarrow> noderef \<Rightarrow> string" where
  "node_str K f x =
     (let N = k_node K x in
      if n_item N = NMenu \<or> n_item N = NComment then menu_comment_node_str f N else sym_choice_node_str K f N)"

definition item_str :: "kconfig \<Rightarrow> (item \<Rightarrow> string) \<Rightarrow> item \<Rightarrow> string" where
  "item_str K f it =
     py_joins [NL, NL] (map (node_str K f) (case it of Sym s \<Rightarrow> s_nodes (k_sym K s) | Cho c \<Rightarrow> c_nodes (k_choice K c)))"

section \<open>Summaries\<close>

definition loc_fields :: "kconfig \<Rightarrow> noderef list \<Rightarrow> string list" where
  "loc_fields K ns = map (\<lambda>x. n_filename (k_node K x) @ '':'' @ py_str (int (n_linenr (k_node K x)))) ns"

definition prompt_fields :: "kconfig \<Rightarrow> noderef list \<Rightarrow> string list" where
  "prompt_fields K ns =
     concat (map (\<lambda>x. case n_prompt (k_node K x) of None \<Rightarrow> [] | Some (t, _) \<Rightarrow> [[QUOT] @ t @ [QUOT]]) ns)"

definition summary :: "string list \<Rightarrow> string" where
  "summary fs = ''<'' @ py_joins '', '' fs @ ''>''"

text \<open>\<open>Symbol.__repr__\<close>. The user value of a bool or tristate symbol is looked up in \<open>TRI_TO_STR\<close>.\<close>

definition user_value_field :: "kconfig \<Rightarrow> symref \<Rightarrow> string list ev" where
  "user_value_field K s =
     bind (gets (\<lambda>d. user_value d s)) (\<lambda>uv. case uv of
       None \<Rightarrow> ret []
     | Some (PInt v) \<Rightarrow> if bool_tristate (otype K s) \<and> v \<le> 2 then ret [''user value '' @ tri_to_str v]
         else if bool_tristate (otype K s) then raise KeyError
         else ret [''user value '' @ [QUOT] @ py_str (int v) @ [QUOT]]
     | Some (PStr x) \<Rightarrow> if bool_tristate (otype K s) then raise KeyError else ret [''user value '' @ [QUOT] @ x @ [QUOT]])"

definition sym_repr :: "kconfig \<Rightarrow> acc \<Rightarrow> symref \<Rightarrow> string ev" where
  "sym_repr K A s =
     (let S = k_sym K s in
      bind (sym_type K A s) (\<lambda>t.
      bind (a_str A s) (\<lambda>v.
      bind (if is_constant s then ret [] else
        bind (user_value_field K s) (\<lambda>user.
        bind (a_vis A s) (\<lambda>vis.
        bind (expr_value K A (s_direct_dep S)) (\<lambda>dep.
        ret (user @ [''visibility '' @ tri_to_str vis] @
          (if s_choice S \<noteq> None then [''choice symbol''] else []) @
          (if s_is_allnoconfig_y S then [''allnoconfig_y''] else []) @
          (if k_defconfig_list K = Some (NSym s) then [''is the defconfig_list symbol''] else []) @
          (case s_env_var S of None \<Rightarrow> [] | Some e \<Rightarrow> [''from environment variable '' @ e]) @
          (if s = modules then [''is the modules symbol''] else []) @
          [''direct deps '' @ tri_to_str dep]))))) (\<lambda>mid.
      ret (summary ([''symbol '' @ sym_name s, type_to_str t] @ prompt_fields K (s_nodes S) @
        [''value '' @ (if bool_tristate (otype K s) then v else [QUOT] @ v @ [QUOT])] @ mid @
        (if s_nodes S \<noteq> [] then loc_fields K (s_nodes S) else [if is_constant s then ''constant'' else ''undefined''])))))))"

text \<open>\<open>Choice.__repr__\<close>\<close>

definition choice_repr :: "kconfig \<Rightarrow> acc \<Rightarrow> choiceref \<Rightarrow> string ev" where
  "choice_repr K A c =
     (let C = k_choice K c in
      bind (choice_type K A c) (\<lambda>t.
      bind (choice_tri_value K A c) (\<lambda>mode.
      bind (gets (\<lambda>d. (ch_user_value d c, ch_user_selection d c))) (\<lambda>(uv, us).
      bind (a_sel A c) (\<lambda>sel.
      bind (a_cvis A c) (\<lambda>vis.
      ret (summary ([case c_name C of None \<Rightarrow> ''choice'' | Some x \<Rightarrow> if x \<noteq> [] then ''choice '' @ x else ''choice'', type_to_str t] @
        prompt_fields K (c_nodes C) @ [''mode '' @ tri_to_str mode] @
        (case uv of None \<Rightarrow> [] | Some v \<Rightarrow> [''user mode '' @ tri_to_str v]) @
        (case sel of None \<Rightarrow> [] | Some s \<Rightarrow> [sym_name s @ '' selected'']) @
        (case us of None \<Rightarrow> [] | Some u \<Rightarrow> [sym_name u @ '' selected by user'' @ (if sel \<noteq> Some u then '' (overridden)'' else [])]) @
        [''visibility '' @ tri_to_str vis] @
        (if c_is_optional C then [''optional''] else []) @ loc_fields K (c_nodes C)))))))))"

text \<open>\<open>MenuNode.__repr__\<close>\<close>

definition node_repr :: "kconfig \<Rightarrow> acc \<Rightarrow> noderef \<Rightarrow> string ev" where
  "node_repr K A x =
     (let N = k_node K x; item = n_item N; sc = (case item of NSym _ \<Rightarrow> True | NCho _ \<Rightarrow> True | _ \<Rightarrow> False) in
      bind (case n_prompt N of None \<Rightarrow> ret []
            | Some (t, c) \<Rightarrow> bind (expr_value K A c) (\<lambda>v. ret [''prompt '' @ [QUOT] @ t @ [QUOT] @ '' (visibility '' @ tri_to_str v @ '')''])) (\<lambda>prompt.
      bind (expr_value K A (n_dep N)) (\<lambda>dep.
      bind (if item = NMenu then bind (expr_value K A (n_visibility N)) (\<lambda>v. ret [quoted [] ''visible if'' @ '' deps '' @ tri_to_str v]) else ret []) (\<lambda>vis.
      ret (summary ([case item of NSym s \<Rightarrow> ''menu node for symbol '' @ sym_name s
          | NCho c \<Rightarrow> ''menu node for choice'' @ (case c_name (k_choice K c) of None \<Rightarrow> [] | Some y \<Rightarrow> SPC # y)
          | NMenu \<Rightarrow> ''menu node for menu'' | _ \<Rightarrow> ''menu node for comment''] @ prompt @
        (case item of NSym _ \<Rightarrow> if n_is_menuconfig N then [''is menuconfig''] else [] | _ \<Rightarrow> []) @
        [''deps '' @ tri_to_str dep] @ vis @
        (if sc \<and> n_help N \<noteq> None then [''has help''] else []) @
        (if n_list N \<noteq> None then [''has child''] else []) @
        (if n_next N \<noteq> None then [''has next''] else []) @ loc_fields K [x]))))))"

end
