(* ===== verification/Sanity.thy ===== *)
theory Sanity
  imports Describe Walk Preproc
begin

text \<open>
  The checks after parsing: \<open>_check_sym_sanity\<close>, \<open>_check_choice_sanity\<close> and \<open>_check_undef_syms\<close>
  (\<^verbatim>\<open>src/scripts/kconfig/kconfiglib.py\<close>). They warn, and raise \<open>KconfigError\<close> on malformed defaults.
\<close>

section \<open>Symbols\<close>

text \<open>\<open>num_ok\<close> in \<open>_check_sym_sanity\<close>\<close>

definition num_ok :: "kconfig \<Rightarrow> stype \<Rightarrow> symref \<Rightarrow> bool" where
  "num_ok K t s =
     (if s_nodes (k_sym K s) = [] then is_base_n (sym_name s) (type_to_base t) else otype K s = t)"

text \<open>\<open>str.isupper\<close>, on code points below 256\<close>

definition upper_char :: "char \<Rightarrow> bool" where
  "upper_char c = (let n = (of_char c :: nat) in 65 \<le> n \<and> n \<le> 90 \<or> 192 \<le> n \<and> n \<le> 222 \<and> n \<noteq> 215)"

definition lower_case_char :: "char \<Rightarrow> bool" where
  "lower_case_char c = (let n = (of_char c :: nat) in
     97 \<le> n \<and> n \<le> 122 \<or> n = 170 \<or> n = 181 \<or> n = 186 \<or> 223 \<le> n \<and> n \<le> 255 \<and> n \<noteq> 247)"

definition isupper :: "string \<Rightarrow> bool" where
  "isupper s = (list_ex upper_char s \<and> \<not> list_ex lower_case_char s)"

text \<open>Selects and implies of a bool or tristate symbol.\<close>

definition check_target :: "symref \<Rightarrow> string \<Rightarrow> symref \<times> expr \<Rightarrow> unit pp" where
  "check_target s verb = (\<lambda>(target, _).
     bind (gets p_kc) (\<lambda>K.
     if otype K target \<notin> {BOOL, TRISTATE, UNKNOWN} then
       warn_text (sym_name_and_loc K s @ verb @ type_to_str (otype K target) @ '' symbol '' @
         sym_name_and_loc K target @ '', which is not bool or tristate'')
     else ret ()))"

text \<open>A default of a string, int or hex symbol.\<close>

definition check_default :: "symref \<Rightarrow> expr \<times> expr \<Rightarrow> unit pp" where
  "check_default s = (\<lambda>(dflt, _).
     bind (gets p_kc) (\<lambda>K.
     let t = otype K s in
     case dflt of
       Item (Sym d) \<Rightarrow>
         if t = STRING then
           (if \<not> is_constant d \<and> s_nodes (k_sym K d) = [] \<and> \<not> isupper (sym_name d) then
              warn_text (''style: quotes recommended around default value for string symbol '' @ sym_name_and_loc K s)
            else ret ())
         else if \<not> num_ok K t d then
           warn_text (''the '' @ type_to_str t @ '' symbol '' @ sym_name_and_loc K s @ '' has a non-'' @ type_to_str t @
             '' default '' @ sym_name_and_loc K d)
         else ret ()
     | _ \<Rightarrow> raise (KconfigError (''the '' @ type_to_str t @ '' symbol '' @ sym_name_and_loc K s @
         '' has a malformed default '' @ expr_str (std_str K) dflt @ '' -- expected a single symbol''))))"

definition check_range :: "symref \<Rightarrow> symref \<times> symref \<times> expr \<Rightarrow> unit pp" where
  "check_range s = (\<lambda>(low, high, _).
     bind (gets p_kc) (\<lambda>K.
     let t = otype K s in
     if \<not> num_ok K t low \<or> \<not> num_ok K t high then
       warn_text (''the '' @ type_to_str t @ '' symbol '' @ sym_name_and_loc K s @ '' has a non-'' @ type_to_str t @
         '' range ['' @ sym_name_and_loc K low @ '', '' @ sym_name_and_loc K high @ '']'')
     else ret ()))"

definition each :: "('x \<Rightarrow> ('s, unit) eff) \<Rightarrow> 'x list \<Rightarrow> ('s, unit) eff" where
  "each f xs = foldm (\<lambda>x _. f x) xs ()"

definition check_sym :: "symref \<Rightarrow> unit pp" where
  "check_sym s =
     bind (gets p_kc) (\<lambda>K.
     let S = k_sym K s; t = s_orig_type S in
     bind (if bool_tristate t then
             bind (each (check_target s '' selects the '') (s_selects S)) (\<lambda>_.
             each (check_target s '' implies the '') (s_implies S))
           else if t \<noteq> UNKNOWN then
             bind (each (check_default s) (s_defaults S)) (\<lambda>_.
             if s_selects S \<noteq> [] \<or> s_implies S \<noteq> [] then
               warn_text (''the '' @ type_to_str t @ '' symbol '' @ sym_name_and_loc K s @ '' has selects or implies'')
             else ret ())
           else warn_text (sym_name_and_loc K s @ '' defined without a type'')) (\<lambda>_.
     if s_ranges S = [] then ret ()
     else if \<not> int_hex t then
       warn_text (''the '' @ type_to_str t @ '' symbol '' @ sym_name_and_loc K s @ '' has ranges, but is not int or hex'')
     else each (check_range s) (s_ranges S)))"

text \<open>\<open>Kconfig._check_sym_sanity\<close>\<close>

definition check_sym_sanity :: "unit pp" where
  "check_sym_sanity = bind (gets (\<lambda>p. k_unique_defined_syms (p_kc p))) (each check_sym)"

section \<open>Choices\<close>

text \<open>
  \<open>warn_select_imply\<close>. The first factor of each summand is the selecting symbol; anything else has no
  \<open>name_and_loc\<close>, except a choice.
\<close>

definition si_name :: "kconfig \<Rightarrow> expr \<Rightarrow> string pp" where
  "si_name K si =
     (case split_expr si OpAND of
        Item (Sym s) # _ \<Rightarrow> ret (sym_name_and_loc K s)
      | Item (Cho c) # _ \<Rightarrow> ret (choice_name_and_loc K c)
      | _ \<Rightarrow> raise AttributeError)"

definition warn_select_imply :: "symref \<Rightarrow> expr \<Rightarrow> string \<Rightarrow> unit pp" where
  "warn_select_imply s e expr_type =
     bind (gets p_kc) (\<lambda>K.
     bind (foldm (\<lambda>si msg. bind (si_name K si) (\<lambda>x. ret (msg @ [NL] @ '' - '' @ x))) (split_expr e OpOR)
       (''the choice symbol '' @ sym_name_and_loc K s @ '' is '' @ expr_type @
        '' by the following symbols, but select/imply has no effect on choice symbols'')) warn_text)"

definition check_choice_default :: "choiceref \<Rightarrow> expr \<times> expr \<Rightarrow> unit pp" where
  "check_choice_default c = (\<lambda>(dflt, _).
     bind (gets p_kc) (\<lambda>K.
     case dflt of
       Item (Sym d) \<Rightarrow>
         if s_choice (k_sym K d) \<noteq> Some c then
           warn_text (''the default selection '' @ sym_name_and_loc K d @ '' of '' @ choice_name_and_loc K c @
             '' is not contained in the choice'')
         else ret ()
     | _ \<Rightarrow> raise (KconfigError (choice_name_and_loc K c @ '' has a malformed default '' @ expr_str (std_str K) dflt))))"

definition check_choice_sym_node :: "choiceref \<Rightarrow> symref \<Rightarrow> noderef \<Rightarrow> unit pp" where
  "check_choice_sym_node c s x =
     bind (gets p_kc) (\<lambda>K.
     let N = k_node K x in
     if (case n_parent N of None \<Rightarrow> False | Some q \<Rightarrow> n_item (k_node K q) = NCho c) then
       (if n_prompt N = None then warn_text (''the choice symbol '' @ sym_name_and_loc K s @ '' has no prompt'') else ret ())
     else if n_prompt N \<noteq> None then
       warn_text (''the choice symbol '' @ sym_name_and_loc K s @ '' is defined with a prompt outside the choice'')
     else ret ())"

definition check_choice_sym :: "choiceref \<Rightarrow> symref \<Rightarrow> unit pp" where
  "check_choice_sym c s =
     bind (gets p_kc) (\<lambda>K.
     let S = k_sym K s in
     bind (if s_defaults S \<noteq> [] then
             warn_text (''default on the choice symbol '' @ sym_name_and_loc K s @
               '' will have no effect, as defaults do not affect choice symbols'') else ret ()) (\<lambda>_.
     bind (if s_rev_dep S \<noteq> kn then warn_select_imply s (s_rev_dep S) ''selected'' else ret ()) (\<lambda>_.
     bind (if s_weak_rev_dep S \<noteq> kn then warn_select_imply s (s_weak_rev_dep S) ''implied'' else ret ()) (\<lambda>_.
     each (check_choice_sym_node c s) (s_nodes S)))))"

definition check_choice :: "choiceref \<Rightarrow> unit pp" where
  "check_choice c =
     bind (gets p_kc) (\<lambda>K.
     let C = k_choice K c in
     bind (if \<not> bool_tristate (c_orig_type C) then
             warn_text (choice_name_and_loc K c @ '' defined with type '' @ type_to_str (c_orig_type C)) else ret ()) (\<lambda>_.
     bind (if list_all (\<lambda>x. n_prompt (k_node K x) = None) (c_nodes C) then
             warn_text (choice_name_and_loc K c @ '' defined without a prompt'') else ret ()) (\<lambda>_.
     bind (each (check_choice_default c) (c_defaults C)) (\<lambda>_.
     each (check_choice_sym c) (c_syms C)))))"

text \<open>\<open>Kconfig._check_choice_sanity\<close>\<close>

definition check_choice_sanity :: "unit pp" where
  "check_choice_sanity = bind (gets (\<lambda>p. k_unique_choices (p_kc p))) (each check_choice)"

section \<open>Undefined symbols\<close>

text \<open>\<open>is_num\<close> in \<open>_check_undef_syms\<close>\<close>

definition is_num :: "string \<Rightarrow> bool" where
  "is_num s = (is_base_n s 10 \<or> (startswith s ''0x'' \<or> startswith s ''0X'') \<and> is_base_n s 16)"

text \<open>\<open>Kconfig._check_undef_syms\<close>; \<open>n\<close> is the fuel of the walk.\<close>

definition undef_sym_message :: "kconfig \<Rightarrow> noderef list \<Rightarrow> symref \<Rightarrow> string" where
  "undef_sym_message K xs s =
     ''undefined symbol '' @ sym_name s @ '':'' @
     concat (map (\<lambda>x. let N = k_node K x in
       if Sym s \<in> set (referenced N) then
         [NL, NL] @ ''- Referenced at '' @ n_filename N @ '':'' @ nat_str (n_linenr N) @ '':'' @ [NL, NL] @ node_str K (std_str K) x
       else []) xs)"

definition check_undef_sym :: "nat \<Rightarrow> string \<Rightarrow> unit pp" where
  "check_undef_sym n name =
     bind (gets p_kc) (\<lambda>K.
     if s_nodes (k_sym K (SymN name)) = [] \<and> \<not> is_num name \<and> name \<noteq> ''MODULES'' then
       bind (of_option NoReturn (node_iter K n False)) (\<lambda>xs. warn_text (undef_sym_message K xs (SymN name)))
     else ret ())"

definition check_undef_syms :: "nat \<Rightarrow> unit pp" where
  "check_undef_syms n = bind (gets (\<lambda>p. k_syms (p_kc p))) (each (check_undef_sym n))"

end
