(* ===== verification/DepLoop.thy ===== *)
theory DepLoop
  imports Describe
begin

text \<open>
  The detection of dependency loops (\<open>_check_dep_loop_sym\<close>, \<open>_check_dep_loop_choice\<close> and
  \<open>_found_dep_loop\<close> of \<^verbatim>\<open>src/scripts/kconfig/kconfiglib.py\<close>), a depth-first search over the dependents.
\<close>

section \<open>The search\<close>

text \<open>
  \<open>_visited\<close> of the symbols and choices: 0 unvisited, 1 on the stack, 2 finished. A search yields the
  part of a loop found so far.
\<close>

type_synonym visits = "item \<Rightarrow> nat"
type_synonym 'a search = "(visits, 'a) eff"

definition visit :: "item \<Rightarrow> nat \<Rightarrow> unit search" where
  "visit x v = modify (\<lambda>vis. vis(x := v))"

text \<open>
  The message of \<open>_found_dep_loop\<close>. The line on imply-related dependencies prints \<open>rev_dep\<close>, as the
  source does.
\<close>

definition item_loc :: "kconfig \<Rightarrow> item \<Rightarrow> string" where
  "item_loc K it = (case it of Sym s \<Rightarrow> sym_name_and_loc K s | Cho c \<Rightarrow> choice_name_and_loc K c)"

definition loop_item_text :: "kconfig \<Rightarrow> item \<Rightarrow> item \<Rightarrow> string" where
  "loop_item_text K first it =
     (if it \<noteq> first then
        ''...depends on '' @
        (case it of Sym s \<Rightarrow> if s_choice (k_sym K s) \<noteq> None then ''the choice symbol '' else [] | _ \<Rightarrow> [])
      else []) @
     item_loc K it @ '', with definition...'' @ [NL, NL] @ item_str K (std_str K) it @ [NL, NL] @
     (case it of
        Sym s \<Rightarrow>
          (if s_rev_dep (k_sym K s) \<noteq> kn then
             ''(select-related dependencies: '' @ expr_str (std_str K) (s_rev_dep (k_sym K s)) @ '')'' @ [NL, NL] else []) @
          (if s_weak_rev_dep (k_sym K s) \<noteq> kn then
             ''(imply-related dependencies: '' @ expr_str (std_str K) (s_rev_dep (k_sym K s)) @ '')'' @ [NL, NL] else [])
      | _ \<Rightarrow> [])"

definition loop_message :: "kconfig \<Rightarrow> item list \<Rightarrow> string" where
  "loop_message K loop =
     [NL] @ ''Dependency loop'' @ [NL] @ ''==============='' @ [NL, NL] @
     concat (map (loop_item_text K (hd loop)) loop) @ ''...depends again on '' @ item_loc K (hd loop)"

text \<open>\<open>_found_dep_loop\<close>\<close>

definition found_dep_loop :: "kconfig \<Rightarrow> item list \<Rightarrow> item \<Rightarrow> item list option search" where
  "found_dep_loop K loop cur =
     (if cur \<noteq> hd loop then ret (Some (loop @ [cur])) else raise (KconfigError (loop_message K loop)))"

text \<open>
  The searches from a symbol and from a choice; the fuel is the depth of the call stack. The loops over
  the dependents and the choice symbols leave when a loop is found.
\<close>

fun check_dep_loop_sym :: "kconfig \<Rightarrow> nat \<Rightarrow> symref \<Rightarrow> bool \<Rightarrow> item list option search"
  and check_dep_loop_choice :: "kconfig \<Rightarrow> nat \<Rightarrow> choiceref \<Rightarrow> symref option \<Rightarrow> item list option search"
where
  "check_dep_loop_sym K 0 s ignore_choice = raise RecursionError"
| "check_dep_loop_sym K (Suc n) s ignore_choice =
     bind (gets (\<lambda>vis. vis (Sym s))) (\<lambda>v.
     if v = 0 then
       bind (visit (Sym s) 1) (\<lambda>_.
       bind (firstm (\<lambda>dep. case dep of
           Cho c \<Rightarrow> check_dep_loop_choice K n c None
         | Sym t \<Rightarrow> check_dep_loop_sym K n t False) (s_dependents (k_sym K s))) (\<lambda>loop.
       case loop of
         Some l \<Rightarrow> found_dep_loop K l (Sym s)
       | None \<Rightarrow>
           bind (case s_choice (k_sym K s) of
                   Some c \<Rightarrow> if ignore_choice then ret None else check_dep_loop_choice K n c (Some s)
                 | None \<Rightarrow> ret None) (\<lambda>loop.
           case loop of
             Some l \<Rightarrow> found_dep_loop K l (Sym s)
           | None \<Rightarrow> bind (visit (Sym s) 2) (\<lambda>_. ret None))))
     else if v = 2 then ret None
     else ret (Some [Sym s]))"
| "check_dep_loop_choice K 0 c skip = raise RecursionError"
| "check_dep_loop_choice K (Suc n) c skip =
     bind (gets (\<lambda>vis. vis (Cho c))) (\<lambda>v.
     if v = 0 then
       bind (visit (Cho c) 1) (\<lambda>_.
       bind (firstm (\<lambda>s. if Some s = skip then ret None else check_dep_loop_sym K n s True) (c_syms (k_choice K c))) (\<lambda>loop.
       case loop of
         Some l \<Rightarrow> found_dep_loop K l (Cho c)
       | None \<Rightarrow> bind (visit (Cho c) 2) (\<lambda>_. ret None)))
     else if v = 2 then ret None
     else ret (Some [Cho c]))"

text \<open>The loop over the symbols in \<open>Kconfig._init\<close>.\<close>

definition check_dep_loops :: "kconfig \<Rightarrow> nat \<Rightarrow> unit search" where
  "check_dep_loops K n =
     foldm (\<lambda>s _. bind (check_dep_loop_sym K n s False) (\<lambda>_. ret ())) (k_unique_defined_syms K) ()"

section \<open>The graph\<close>

text \<open>
  A call of the search: from a symbol, with \<open>ignore_choice\<close>, or from a choice, with \<open>skip\<close>. One call
  makes another for every dependent, for the choice of a symbol and for the symbols of a choice; the
  flags keep it from going back from a choice to the symbol through which it was entered.
\<close>

datatype search_call = SymCall symref bool | ChoCall choiceref "symref option"

fun call_item :: "search_call \<Rightarrow> item" where
  "call_item (SymCall s _) = Sym s"
| "call_item (ChoCall c _) = Cho c"

fun makes_call :: "kconfig \<Rightarrow> search_call \<Rightarrow> search_call \<Rightarrow> bool" where
  "makes_call K (SymCall s _) (SymCall t ic) = (Sym t \<in> set (s_dependents (k_sym K s)) \<and> \<not> ic)"
| "makes_call K (SymCall s ic) (ChoCall c skip) =
     (Cho c \<in> set (s_dependents (k_sym K s)) \<and> skip = None \<or>
      \<not> ic \<and> s_choice (k_sym K s) = Some c \<and> skip = Some s)"
| "makes_call K (ChoCall c skip) (SymCall t ic) = (t \<in> set (c_syms (k_choice K c)) \<and> skip \<noteq> Some t \<and> ic)"
| "makes_call K (ChoCall _ _) (ChoCall _ _) = False"

text \<open>
  A loop, in the order in which the message lists it: every item depends on the next, the last one on
  the first.
\<close>

abbreviation call_chain :: "kconfig \<Rightarrow> search_call list \<Rightarrow> bool" where
  "call_chain K \<equiv> successively (\<lambda>a b. makes_call K b a)"

definition is_loop :: "kconfig \<Rightarrow> item list \<Rightarrow> bool" where
  "is_loop K l = (\<exists>fs g. fs \<noteq> [] \<and> call_chain K fs \<and> makes_call K g (last fs) \<and>
     l = map call_item fs \<and> call_item g = call_item (hd fs))"

definition loop_part :: "kconfig \<Rightarrow> visits \<Rightarrow> item list \<Rightarrow> search_call \<Rightarrow> bool" where
  "loop_part K vis l f = (\<exists>fs. fs \<noteq> [] \<and> call_chain K fs \<and> last fs = f \<and> l = map call_item fs \<and> vis (hd l) = 1)"

text \<open>
  Finished items, the last one first: the dependents of a symbol are finished before it, and so are the
  symbols of the choices among them.
\<close>

fun finish_order :: "kconfig \<Rightarrow> item list \<Rightarrow> bool" where
  "finish_order K [] = True"
| "finish_order K (x # xs) =
     (x \<notin> set xs \<and> finish_order K xs \<and>
      (case x of
         Sym s \<Rightarrow> set (s_dependents (k_sym K s)) \<subseteq> set xs \<and>
           (\<forall>c. Cho c \<in> set (s_dependents (k_sym K s)) \<longrightarrow> Sym ` set (c_syms (k_choice K c)) \<subseteq> set xs)
       | Cho _ \<Rightarrow> True))"

section \<open>What a search returns\<close>

text \<open>
  Between searches: the symbols of a finished choice are finished, except for the one through which
  the choice has just been entered.
\<close>

definition visits_ok :: "kconfig \<Rightarrow> (choiceref \<times> symref) option \<Rightarrow> visits \<Rightarrow> bool" where
  "visits_ok K ex vis =
     ((\<forall>x. vis x \<le> 2) \<and>
      (\<forall>c t. vis (Cho c) = 2 \<longrightarrow> t \<in> set (c_syms (k_choice K c)) \<longrightarrow> vis (Sym t) = 2 \<or> ex = Some (c, t)) \<and>
      (\<exists>L. finish_order K L \<and> set L = {x. vis x = 2}))"

definition later :: "visits \<Rightarrow> visits \<Rightarrow> bool" where
  "later vis v = (\<forall>y. (v y = 1 \<longleftrightarrow> vis y = 1) \<and> (vis y = 2 \<longrightarrow> v y = 2))"

lemma later_refl [simp]: "later v v"
  by (simp add: later_def)

lemma later_trans: "later u v \<Longrightarrow> later v w \<Longrightarrow> later u w"
  by (simp add: later_def)

fun skipped :: "search_call \<Rightarrow> (choiceref \<times> symref) option" where
  "skipped (ChoCall c (Some s)) = Some (c, s)"
| "skipped _ = None"

definition finds :: "kconfig \<Rightarrow> visits \<Rightarrow> search_call \<Rightarrow> pyexc + (item list option \<times> visits) \<Rightarrow> bool" where
  "finds K vis f r = (case r of
     Inl e \<Rightarrow> e = RecursionError \<or> (\<exists>l. is_loop K l \<and> e = KconfigError (loop_message K l))
   | Inr (None, v) \<Rightarrow> v (call_item f) = 2 \<and> later vis v \<and> visits_ok K (skipped f) v
   | Inr (Some l, v) \<Rightarrow> loop_part K vis l f)"

lemma findsE:
  assumes "finds K vis f r"
  obtains "r = Inl RecursionError"
  | l where "is_loop K l" "r = Inl (KconfigError (loop_message K l))"
  | v where "r = Inr (None, v)" "v (call_item f) = 2" "later vis v" "visits_ok K (skipped f) v"
  | l v where "r = Inr (Some l, v)" "loop_part K vis l f"
  using assms unfolding finds_def by (auto split: sum.splits prod.splits option.splits)

lemma finds_simps [simp]:
  "finds K vis f (Inl RecursionError)" "is_loop K l \<Longrightarrow> finds K vis f (Inl (KconfigError (loop_message K l)))"
  "finds K vis f (Inr (None, v)) \<longleftrightarrow> v (call_item f) = 2 \<and> later vis v \<and> visits_ok K (skipped f) v"
  "finds K vis f (Inr (Some l, v)) \<longleftrightarrow> loop_part K vis l f"
  by (auto simp: finds_def)

lemma loop_part_later: "loop_part K v l f \<Longrightarrow> later vis v \<Longrightarrow> loop_part K vis l f"
  by (auto simp: loop_part_def later_def)

text \<open>The loops over dependents and choice symbols.\<close>

definition finds_all :: "kconfig \<Rightarrow> visits \<Rightarrow> search_call set \<Rightarrow> pyexc + (item list option \<times> visits) \<Rightarrow> bool" where
  "finds_all K vis F r = (case r of
     Inl e \<Rightarrow> e = RecursionError \<or> (\<exists>l. is_loop K l \<and> e = KconfigError (loop_message K l))
   | Inr (None, v) \<Rightarrow> (\<forall>f \<in> F. v (call_item f) = 2) \<and> later vis v \<and> visits_ok K None v
   | Inr (Some l, v) \<Rightarrow> (\<exists>f \<in> F. loop_part K vis l f))"

lemma finds_all_firstm:
  assumes "\<And>y u. y \<in> set ys \<Longrightarrow> g y \<noteq> None \<Longrightarrow> visits_ok K None u \<Longrightarrow> later vis u \<Longrightarrow> finds K u (the (g y)) (f y u)"
    and "\<And>y. y \<in> set ys \<Longrightarrow> g y = None \<Longrightarrow> f y = ret None"
    and "\<And>y. y \<in> set ys \<Longrightarrow> g y \<noteq> None \<Longrightarrow> skipped (the (g y)) = None"
    and "visits_ok K None u" and "later vis u"
  shows "finds_all K vis (\<Union>y \<in> set ys. set_option (g y)) (firstm f ys u)"
  using assms
proof (induction ys arbitrary: u vis)
  case Nil
  then show ?case by (simp add: finds_all_def ret_def)
next
  case (Cons y ys)
  show ?case
  proof (cases "g y")
    case None
    then have "f y = ret None" by (intro Cons.prems(2)) simp_all
    then have "firstm f (y # ys) u = firstm f ys u" by simp
    moreover have "finds_all K vis (\<Union>y \<in> set ys. set_option (g y)) (firstm f ys u)"
      by (rule Cons.IH) (simp_all add: Cons.prems)
    ultimately show ?thesis using None by simp
  next
    case (Some x)
    have "finds K u (the (g y)) (f y u)" by (rule Cons.prems(1)) (simp_all add: Some Cons.prems(4,5))
    then have "finds K u x (f y u)" by (simp only: Some option.sel)
    then show ?thesis
    proof (cases rule: findsE)
      case 1
      then show ?thesis by (simp add: bind_def finds_all_def)
    next
      case (2 l)
      then show ?thesis by (auto simp: bind_def finds_all_def)
    next
      case (3 v)
      have ok: "visits_ok K None v" using 3(4) Cons.prems(3) [of y] Some by simp
      have "later vis v" by (rule later_trans [OF Cons.prems(5) 3(3)])
      then have "finds_all K vis (\<Union>y \<in> set ys. set_option (g y)) (firstm f ys v)"
        by (intro Cons.IH) (simp_all add: Cons.prems(1,2,3) ok)
      moreover have "later v w" if "firstm f ys v = Inr (None, w)" for w
      proof -
        have "finds_all K v (\<Union>y \<in> set ys. set_option (g y)) (firstm f ys v)"
          by (rule Cons.IH) (simp_all add: Cons.prems(1,2,3) ok later_trans [OF \<open>later vis v\<close>])
        with that show ?thesis by (simp add: finds_all_def)
      qed
      ultimately show ?thesis using 3(1,2) ok Some
        by (auto simp: bind_def finds_all_def later_def split: sum.splits option.splits prod.splits)
    next
      case (4 l v)
      have "loop_part K vis l x" by (rule loop_part_later [OF 4(2) Cons.prems(5)])
      with 4(1) Some show ?thesis by (auto simp: bind_def finds_all_def ret_def)
    qed
  qed
qed

text \<open>Unwinding with a loop that has been found below.\<close>

lemma finds_unwind:
  assumes "loop_part K u l h" and "makes_call K f h" and "u = vis(call_item f := 1)" and "vis (call_item f) = 0"
  shows "finds K vis f (found_dep_loop K l (call_item f) v)"
proof -
  obtain fs where fs: "fs \<noteq> []" "call_chain K fs" "last fs = h" "l = map call_item fs" "u (hd l) = 1"
    using assms(1) unfolding loop_part_def by blast
  show ?thesis
  proof (cases "call_item f = hd l")
    case True
    have "is_loop K l" unfolding is_loop_def using fs assms(2) True by (metis list.map_sel(1))
    then show ?thesis using True by (simp add: found_dep_loop_def raise_def)
  next
    case False
    have "loop_part K vis (l @ [call_item f]) f" unfolding loop_part_def
      using fs assms(2,3) False by (intro exI [of _ "fs @ [f]"]) (auto simp: successively_append_iff)
    then show ?thesis using False by (simp add: found_dep_loop_def ret_def)
  qed
qed

text \<open>Starting and finishing an item.\<close>

lemma visits_ok_start:
  assumes "visits_ok K ex vis" and "vis x = 0"
  shows "visits_ok K ex (vis(x := 1))"
proof -
  have "{y. (vis(x := 1)) y = 2} = {y. vis y = 2}" using assms(2) by auto
  then show ?thesis using assms unfolding visits_ok_def by (auto split: if_splits)
qed

lemma later_finish: "later (vis(x := 1)) v \<Longrightarrow> vis x = 0 \<Longrightarrow> later vis (v(x := 2))"
  by (auto simp: later_def split: if_splits)

lemma visits_ok_finish:
  assumes ok: "visits_ok K ex v" and "v x = 1"
    and x: "\<And>s. x = Sym s \<Longrightarrow> (\<forall>y \<in> set (s_dependents (k_sym K s)). v y = 2 \<and>
        (\<forall>c. y = Cho c \<longrightarrow> (\<forall>t \<in> set (c_syms (k_choice K c)). v (Sym t) = 2)))"
    and ex: "\<And>c t. ex = Some (c, t) \<Longrightarrow> x = Sym t \<or> ex' = Some (c, t)"
    and c: "\<And>c t. x = Cho c \<Longrightarrow> t \<in> set (c_syms (k_choice K c)) \<Longrightarrow> v (Sym t) = 2 \<or> ex' = Some (c, t)"
  shows "visits_ok K ex' (v(x := 2))"
proof -
  obtain L where L: "finish_order K L" "set L = {y. v y = 2}" using ok by (auto simp: visits_ok_def)
  have "finish_order K (x # L)"
    using L assms(2) x by (cases x) (auto simp: subset_iff image_subset_iff)
  moreover have "set (x # L) = {y. (v(x := 2)) y = 2}" using L by auto
  moreover have "\<forall>y. (v(x := 2)) y \<le> 2" using ok by (auto simp: visits_ok_def)
  moreover have "(v(x := 2)) (Sym t) = 2 \<or> ex' = Some (c', t)"
    if "(v(x := 2)) (Cho c') = 2" "t \<in> set (c_syms (k_choice K c'))" for c' t
  proof (cases "x = Cho c'")
    case True
    with c [of c' t] that(2) show ?thesis by auto
  next
    case False
    then have "v (Sym t) = 2 \<or> ex = Some (c', t)" using ok that unfolding visits_ok_def by auto
    with ex show ?thesis by auto
  qed
  ultimately show ?thesis unfolding visits_ok_def by blast
qed


lemma finds_allE:
  assumes "finds_all K vis F r"
  obtains "r = Inl RecursionError"
  | l where "is_loop K l" "r = Inl (KconfigError (loop_message K l))"
  | v where "r = Inr (None, v)" "\<forall>f \<in> F. v (call_item f) = 2" "later vis v" "visits_ok K None v"
  | l v f where "r = Inr (Some l, v)" "f \<in> F" "loop_part K vis l f"
  using assms unfolding finds_all_def by (auto split: sum.splits prod.splits option.splits)

lemma visits_ok_weaken: "visits_ok K None v \<Longrightarrow> visits_ok K ex v"
  by (auto simp: visits_ok_def)

lemma loop_part_stack: "vis (call_item f) = 1 \<Longrightarrow> loop_part K vis [call_item f] f"
  unfolding loop_part_def by (intro exI [of _ "[f]"]) simp

lemma visits_ok_cases:
  assumes "visits_ok K ex vis"
  obtains "vis x = 0" | "vis x = 1" | "vis x = 2"
proof -
  have "vis x \<le> 2" using assms by (simp add: visits_ok_def)
  then have "vis x = 0 \<or> vis x = 1 \<or> vis x = 2" by arith
  then show thesis by (elim disjE) (rule that, assumption)+
qed

section \<open>The search is right\<close>

text \<open>Calls of the search are right up to a depth of the stack.\<close>

definition search_ok :: "kconfig \<Rightarrow> nat \<Rightarrow> bool" where
  "search_ok K n =
     ((\<forall>s ic vis. visits_ok K None vis \<longrightarrow> finds K vis (SymCall s ic) (check_dep_loop_sym K n s ic vis)) \<and>
      (\<forall>c skip vis. visits_ok K None vis \<longrightarrow> (\<forall>t. skip = Some t \<longrightarrow> vis (Sym t) = 1) \<longrightarrow>
        finds K vis (ChoCall c skip) (check_dep_loop_choice K n c skip vis)))"

lemma search_ok_choice_step:
  assumes ok: "search_ok K n" and vis: "visits_ok K None vis" "\<forall>t. skip = Some t \<longrightarrow> vis (Sym t) = 1"
  shows "finds K vis (ChoCall c skip) (check_dep_loop_choice K (Suc n) c skip vis)"
  using vis(1)
proof (cases rule: visits_ok_cases [of _ _ _ "Cho c"])
  case 1
  let ?u = "vis(Cho c := 1)"
  let ?f = "\<lambda>s. if Some s = skip then ret None else check_dep_loop_sym K n s True"
  let ?g = "\<lambda>s. if Some s = skip then None else Some (SymCall s True)"
  let ?r = "firstm ?f (c_syms (k_choice K c)) ?u"
  have u: "visits_ok K None ?u" by (rule visits_ok_start [OF vis(1) 1])
  have run: "check_dep_loop_choice K (Suc n) c skip vis =
      (case ?r of Inl e \<Rightarrow> Inl e
       | Inr (Some l, v) \<Rightarrow> found_dep_loop K l (Cho c) v
       | Inr (None, v) \<Rightarrow> Inr (None, v(Cho c := 2)))"
    using 1 by (simp add: bind_def gets_def visit_def modify_def ret_def split: sum.split prod.split option.split)
  have "finds_all K ?u (\<Union>s \<in> set (c_syms (k_choice K c)). set_option (?g s)) ?r"
    by (rule finds_all_firstm) (use ok u in \<open>simp_all add: search_ok_def split: if_splits\<close>)
  then show ?thesis
  proof (cases rule: finds_allE)
    case (3 v)
    have st: "v (Cho c) = 1" "later vis (v(Cho c := 2))"
      using 3(3) 1 by (auto simp: later_def split: if_splits)
    have "visits_ok K (skipped (ChoCall c skip)) (v(Cho c := 2))"
      by (rule visits_ok_finish [OF 3(4) st(1)]) (use 3(2) in \<open>cases skip; force\<close>)+
    then show ?thesis unfolding run using 3(1) st by simp
  next
    case (4 l v f)
    have "finds K vis (ChoCall c skip) (found_dep_loop K l (call_item (ChoCall c skip)) v)"
      by (rule finds_unwind [OF 4(3)]) (use 4(2) 1 in \<open>auto split: if_splits\<close>)
    then show ?thesis unfolding run using 4(1) by simp
  qed (simp_all add: run del: check_dep_loop_sym.simps check_dep_loop_choice.simps)
next
  case 2
  then show ?thesis using loop_part_stack [of vis "ChoCall c skip" K] by (simp add: bind_def gets_def ret_def)
next
  case 3
  then show ?thesis using visits_ok_weaken [OF vis(1)] by (simp add: bind_def gets_def ret_def)
qed

abbreviation dep_call :: "item \<Rightarrow> search_call" where
  "dep_call dep \<equiv> (case dep of Cho c \<Rightarrow> ChoCall c None | Sym t \<Rightarrow> SymCall t False)"

lemma makes_call_dep: "dep \<in> set (s_dependents (k_sym K s)) \<Longrightarrow> makes_call K (SymCall s ic) (dep_call dep)"
  by (cases dep) auto

lemma search_ok_sym_step:
  assumes ok: "search_ok K n" and vis: "visits_ok K None vis"
  shows "finds K vis (SymCall s ic) (check_dep_loop_sym K (Suc n) s ic vis)"
  using vis
proof (cases rule: visits_ok_cases [of _ _ _ "Sym s"])
  case 1
  let ?u = "vis(Sym s := 1)"
  let ?deps = "s_dependents (k_sym K s)"
  let ?r = "firstm (\<lambda>dep. case dep of Cho c \<Rightarrow> check_dep_loop_choice K n c None
      | Sym t \<Rightarrow> check_dep_loop_sym K n t False) ?deps ?u"
  let ?m = "case s_choice (k_sym K s) of
      Some c \<Rightarrow> if ic then ret None else check_dep_loop_choice K n c (Some s) | None \<Rightarrow> ret None"
  have u: "visits_ok K None ?u" by (rule visits_ok_start [OF vis 1])
  have run: "check_dep_loop_sym K (Suc n) s ic vis =
      (case ?r of Inl e \<Rightarrow> Inl e
       | Inr (Some l, v) \<Rightarrow> found_dep_loop K l (Sym s) v
       | Inr (None, v) \<Rightarrow> (case ?m v of Inl e \<Rightarrow> Inl e
           | Inr (Some l, w) \<Rightarrow> found_dep_loop K l (Sym s) w
           | Inr (None, w) \<Rightarrow> Inr (None, w(Sym s := 2))))"
    using 1 by (simp add: bind_def gets_def visit_def modify_def ret_def split: sum.split prod.split option.split)
  have "finds_all K ?u (\<Union>dep \<in> set ?deps. set_option (Some (dep_call dep))) ?r"
    by (rule finds_all_firstm) (use ok u in \<open>simp_all add: search_ok_def split: item.splits\<close>)
  then show ?thesis
  proof (cases rule: finds_allE)
    case (3 v)
    have run': "check_dep_loop_sym K (Suc n) s ic vis = (case ?m v of Inl e \<Rightarrow> Inl e
           | Inr (Some l, w) \<Rightarrow> found_dep_loop K l (Sym s) w
           | Inr (None, w) \<Rightarrow> Inr (None, w(Sym s := 2)))"
      unfolding run 3(1) by simp
    have v: "v (Sym s) = 1" using 3(3) by (simp add: later_def)
    have deps: "\<forall>y \<in> set ?deps. v y = 2" using 3(2) by (simp split: item.splits) (metis item.exhaust)
    have m: "?m v = Inr (None, v) \<or> (\<exists>c. s_choice (k_sym K s) = Some c \<and> \<not> ic \<and> ?m v = check_dep_loop_choice K n c (Some s) v \<and>
        finds K v (ChoCall c (Some s)) (?m v))"
      using ok 3(4) v by (cases "s_choice (k_sym K s)") (auto simp: ret_def search_ok_def)
    have fin: "finds K vis (SymCall s ic) (Inr (None, w(Sym s := 2)))"
      if w: "later v w" "visits_ok K ex w" "\<And>c t. ex = Some (c, t) \<Longrightarrow> t = s" for w ex
    proof -
      have "visits_ok K None (w(Sym s := 2))"
      proof (rule visits_ok_finish [OF w(2)])
        show "w (Sym s) = 1" using w(1) v by (simp add: later_def)
        show "\<forall>y \<in> set (s_dependents (k_sym K s')). w y = 2 \<and>
            (\<forall>c. y = Cho c \<longrightarrow> (\<forall>t \<in> set (c_syms (k_choice K c)). w (Sym t) = 2))"
          if "Sym s = Sym s'" for s'
          using that deps 3(4) w(1) by (auto simp: visits_ok_def later_def)
      qed (use w(3) in auto)
      moreover have "later vis (w(Sym s := 2))"
        by (rule later_finish [OF later_trans [OF 3(3) w(1)] 1])
      ultimately show ?thesis by simp
    qed
    show ?thesis
    proof (cases "?m v = Inr (None, v)")
      case True
      then show ?thesis unfolding run' True using fin [OF later_refl 3(4)] by simp
    next
      case False
      then obtain c where c: "s_choice (k_sym K s) = Some c" "\<not> ic" "finds K v (ChoCall c (Some s)) (?m v)"
        using m by blast
      from c(3) show ?thesis
      proof (cases rule: findsE)
        case (3 w)
        then show ?thesis unfolding run' using fin [of w "Some (c, s)"] by simp
      next
        case (4 l w)
        have "loop_part K ?u l (ChoCall c (Some s))" by (rule loop_part_later [OF 4(2) 3(3)])
        then have "finds K vis (SymCall s ic) (found_dep_loop K l (call_item (SymCall s ic)) w)"
          by (rule finds_unwind) (use c 1 in auto)
        then show ?thesis unfolding run' using 4(1) by simp
      qed (simp_all add: run' del: check_dep_loop_sym.simps check_dep_loop_choice.simps)
    qed
  next
    case (4 l v f)
    have "finds K vis (SymCall s ic) (found_dep_loop K l (call_item (SymCall s ic)) v)"
      by (rule finds_unwind [OF 4(3)]) (use 4(2) 1 makes_call_dep in auto)
    then show ?thesis unfolding run using 4(1) by simp
  qed (simp_all add: run del: check_dep_loop_sym.simps check_dep_loop_choice.simps)
next
  case 2
  then show ?thesis using loop_part_stack [of vis "SymCall s ic" K] by (simp add: bind_def gets_def ret_def)
next
  case 3
  then show ?thesis using vis by (simp add: bind_def gets_def ret_def)
qed


lemma search_ok: "search_ok K n"
proof (induction n)
  case 0
  then show ?case by (simp add: search_ok_def raise_def)
next
  case (Suc n)
  then show ?case using search_ok_sym_step search_ok_choice_step unfolding search_ok_def [of K "Suc n"] by blast
qed


section \<open>All symbols\<close>

definition unvisited :: visits where
  "unvisited = (\<lambda>_. 0)"

lemma visits_ok_unvisited: "visits_ok K None unvisited"
proof -
  have "finish_order K []" "set [] = {x. unvisited x = 2}" by (simp_all add: unvisited_def)
  then show ?thesis unfolding visits_ok_def by (auto simp: unvisited_def)
qed

text \<open>Between the searches of \<open>_init\<close> no item is on the stack, so a search finds no part of a loop only.\<close>

definition idle :: "kconfig \<Rightarrow> visits \<Rightarrow> bool" where
  "idle K vis = (visits_ok K None vis \<and> (\<forall>x. vis x \<noteq> 1))"

lemma search_idle:
  assumes "idle K vis"
  shows "check_dep_loop_sym K n s False vis = Inl RecursionError \<or>
    (\<exists>l. is_loop K l \<and> check_dep_loop_sym K n s False vis = Inl (KconfigError (loop_message K l))) \<or>
    (\<exists>v. check_dep_loop_sym K n s False vis = Inr (None, v) \<and> idle K v \<and> v (Sym s) = 2 \<and> later vis v)"
proof -
  have "finds K vis (SymCall s False) (check_dep_loop_sym K n s False vis)"
    using search_ok [of K n] assms by (simp add: search_ok_def idle_def)
  then show ?thesis
  proof (cases rule: findsE)
    case (3 v)
    moreover have "idle K v" using 3 assms by (simp add: idle_def later_def)
    ultimately show ?thesis by simp
  next
    case (4 l v)
    then show ?thesis using assms by (auto simp: loop_part_def idle_def)
  qed auto
qed

lemma check_loop_run:
  assumes "idle K vis"
  shows "case foldm (\<lambda>s _. bind (check_dep_loop_sym K n s False) (\<lambda>_. ret ())) ss () vis of
      Inl e \<Rightarrow> e = RecursionError \<or> (\<exists>l. is_loop K l \<and> e = KconfigError (loop_message K l))
    | Inr (_, v) \<Rightarrow> idle K v \<and> (\<forall>s \<in> set ss. v (Sym s) = 2) \<and> later vis v"
  using assms
proof (induction ss arbitrary: vis)
  case Nil
  then show ?case by (simp add: ret_def)
next
  case (Cons s ss)
  from search_idle [OF Cons.prems, of n s] show ?case
  proof (elim disjE exE conjE)
    fix v
    assume v: "check_dep_loop_sym K n s False vis = Inr (None, v)" "idle K v" "v (Sym s) = 2" "later vis v"
    have "foldm (\<lambda>s _. bind (check_dep_loop_sym K n s False) (\<lambda>_. ret ())) (s # ss) () vis =
        foldm (\<lambda>s _. bind (check_dep_loop_sym K n s False) (\<lambda>_. ret ())) ss () v"
      using v(1) by (simp add: bind_def ret_def)
    moreover have "later vis w \<and> w (Sym s) = 2" if "later v w" for w
      using that v(3,4) by (simp add: later_def)
    ultimately show ?thesis using Cons.IH [OF v(2)] by (simp split: sum.splits prod.splits) 
  qed (auto simp: bind_def)
qed

lemma idle_unvisited: "idle K unvisited"
  by (simp add: idle_def visits_ok_unvisited) (simp add: unvisited_def)

lemma check_dep_loops_run:
  "case check_dep_loops K n unvisited of
      Inl e \<Rightarrow> e = RecursionError \<or> (\<exists>l. is_loop K l \<and> e = KconfigError (loop_message K l))
    | Inr (_, v) \<Rightarrow> idle K v \<and> (\<forall>s \<in> set (k_unique_defined_syms K). v (Sym s) = 2)"
  using check_loop_run [OF idle_unvisited, where K = K and n = n and ss = "k_unique_defined_syms K"]
  by (auto simp: check_dep_loops_def split: sum.splits)

text \<open>The rank of an item is its position in the finish order.\<close>

fun finish_rank :: "item list \<Rightarrow> item \<Rightarrow> nat" where
  "finish_rank [] y = 0"
| "finish_rank (x # xs) y = (if y = x then Suc (length xs) else finish_rank xs y)"

lemma finish_rank_le: "finish_rank xs y \<le> length xs"
  by (induction xs) auto

lemma finish_rank_less:
  assumes "finish_order K L" and "Sym s \<in> set L" and "y \<in> set (s_dependents (k_sym K s))"
  shows "y \<in> set L \<and> finish_rank L y < finish_rank L (Sym s) \<and>
    (\<forall>c t. y = Cho c \<longrightarrow> t \<in> set (c_syms (k_choice K c)) \<longrightarrow>
      Sym t \<in> set L \<and> finish_rank L (Sym t) < finish_rank L (Sym s))"
  using assms
proof (induction L)
  case (Cons x L)
  show ?case
  proof (cases "x = Sym s")
    case True
    have below: "finish_rank (x # L) z < finish_rank (x # L) (Sym s)" if "z \<in> set L" for z
      using that Cons.prems(1) True finish_rank_le [of L z] by (auto simp: less_Suc_eq_le)
    have "y \<in> set L" using True Cons.prems(1,3) by auto
    moreover have "Sym t \<in> set L" if "y = Cho c" "t \<in> set (c_syms (k_choice K c))" for c t
      using True Cons.prems(1,3) that by auto
    ultimately show ?thesis using below by (auto simp del: finish_rank.simps)
  next
    case False
    then have IH: "y \<in> set L \<and> finish_rank L y < finish_rank L (Sym s) \<and>
      (\<forall>c t. y = Cho c \<longrightarrow> t \<in> set (c_syms (k_choice K c)) \<longrightarrow>
        Sym t \<in> set L \<and> finish_rank L (Sym t) < finish_rank L (Sym s))"
      using Cons by auto
    have "x \<notin> set L" using Cons.prems(1) by simp
    with IH False show ?thesis by auto
  qed
qed simp


section \<open>The search ends\<close>

text \<open>A finite set of items that the calls of the search do not leave.\<close>

definition search_closed :: "kconfig \<Rightarrow> item set \<Rightarrow> bool" where
  "search_closed K X = (finite X \<and> (\<forall>f g. call_item f \<in> X \<longrightarrow> makes_call K f g \<longrightarrow> call_item g \<in> X))"

definition open_items :: "item set \<Rightarrow> visits \<Rightarrow> nat" where
  "open_items X vis = card {x \<in> X. vis x = 0}"

lemma open_items_later: "finite X \<Longrightarrow> later vis v \<Longrightarrow> \<forall>x. v x \<le> 2 \<Longrightarrow> \<forall>x. vis x \<le> 2 \<Longrightarrow> open_items X v \<le> open_items X vis"
  unfolding open_items_def
proof (rule card_mono)
  assume a: "later vis v" "\<forall>x. v x \<le> 2" "\<forall>x. vis x \<le> 2"
  have "vis x = 0" if "v x = 0" for x
  proof -
    have "vis x \<noteq> 1" "vis x \<noteq> 2" "vis x \<le> 2" using a that by (force simp: later_def)+
    then show ?thesis by linarith
  qed
  then show "{x \<in> X. v x = 0} \<subseteq> {x \<in> X. vis x = 0}" by blast
qed simp

lemma open_items_start:
  assumes "finite X" "x \<in> X" "vis x = 0"
  shows "open_items X (vis(x := 1)) < open_items X vis"
  unfolding open_items_def by (rule psubset_card_mono) (use assms in auto)

lemma visits_ok_le: "visits_ok K ex v \<Longrightarrow> \<forall>x. v x \<le> 2"
  by (simp add: visits_ok_def)

lemma firstm_returns:
  assumes "\<And>y u. y \<in> set ys \<Longrightarrow> g y \<noteq> None \<Longrightarrow> visits_ok K None u \<Longrightarrow> later vis u \<Longrightarrow>
      finds K u (the (g y)) (f y u) \<and> f y u \<noteq> Inl RecursionError"
    and "\<And>y. y \<in> set ys \<Longrightarrow> g y = None \<Longrightarrow> f y = ret None"
    and "\<And>y. y \<in> set ys \<Longrightarrow> g y \<noteq> None \<Longrightarrow> skipped (the (g y)) = None"
    and "visits_ok K None u" and "later vis u"
  shows "firstm f ys u \<noteq> Inl RecursionError"
  using assms
proof (induction ys arbitrary: u)
  case (Cons y ys)
  have IH: "firstm f ys v \<noteq> Inl RecursionError" if "visits_ok K None v" "later vis v" for v
    by (rule Cons.IH) (simp_all add: Cons.prems(1,2,3) that)
  show ?case
  proof (cases "g y")
    case None
    then have "f y = ret None" by (intro Cons.prems(2)) simp_all
    then show ?thesis using IH [OF Cons.prems(4,5)] by simp
  next
    case (Some x)
    have "finds K u (the (g y)) (f y u) \<and> f y u \<noteq> Inl RecursionError"
      by (rule Cons.prems(1)) (simp_all add: Some Cons.prems(4,5))
    then have f: "finds K u x (f y u)" "f y u \<noteq> Inl RecursionError" by (simp_all only: Some option.sel simp_thms)
    have sk: "skipped x = None" using Cons.prems(3) [of y] Some by simp
    from f(1) show ?thesis
    proof (cases rule: findsE)
      case (3 v)
      have "visits_ok K None v" using 3(4) sk by simp
      from IH [OF this later_trans [OF Cons.prems(5) 3(3)]] 3(1) show ?thesis by (simp add: bind_def)
    qed (use f(2) in \<open>simp_all add: bind_def ret_def\<close>)
  qed
qed (simp add: ret_def)

definition returns_ok :: "kconfig \<Rightarrow> item set \<Rightarrow> nat \<Rightarrow> bool" where
  "returns_ok K X n =
     ((\<forall>s ic vis. visits_ok K None vis \<longrightarrow> Sym s \<in> X \<longrightarrow> open_items X vis < n \<longrightarrow>
        check_dep_loop_sym K n s ic vis \<noteq> Inl RecursionError) \<and>
      (\<forall>c skip vis. visits_ok K None vis \<longrightarrow> (\<forall>t. skip = Some t \<longrightarrow> vis (Sym t) = 1) \<longrightarrow> Cho c \<in> X \<longrightarrow>
        open_items X vis < n \<longrightarrow> check_dep_loop_choice K n c skip vis \<noteq> Inl RecursionError))"

lemma found_dep_loop_returns: "found_dep_loop K l x v \<noteq> Inl RecursionError"
  by (simp add: found_dep_loop_def ret_def raise_def)

lemma returns_ok_choice_step:
  assumes X: "search_closed K X" and ok: "returns_ok K X n"
    and vis: "visits_ok K None vis" "Cho c \<in> X" "open_items X vis < Suc n"
  shows "check_dep_loop_choice K (Suc n) c skip vis \<noteq> Inl RecursionError"
proof (cases "vis (Cho c) = 0")
  case True
  let ?u = "vis(Cho c := 1)"
  let ?f = "\<lambda>s. if Some s = skip then ret None else check_dep_loop_sym K n s True"
  let ?g = "\<lambda>s. if Some s = skip then None else Some (SymCall s True)"
  let ?r = "firstm ?f (c_syms (k_choice K c)) ?u"
  have fin: "finite X" using X by (simp add: search_closed_def)
  have u: "visits_ok K None ?u" by (rule visits_ok_start [OF vis(1) True])
  have small: "open_items X w < n" if "visits_ok K None w" "later ?u w" for w
    using open_items_later [OF fin that(2) visits_ok_le [OF that(1)] visits_ok_le [OF u]]
      open_items_start [of X "Cho c" vis, OF fin vis(2) True] vis(3) by linarith
  have inX: "Sym t \<in> X" if "t \<in> set (c_syms (k_choice K c))" "Some t \<noteq> skip" for t
  proof -
    have "makes_call K (ChoCall c skip) (SymCall t True)" using that by auto
    with X vis(2) show ?thesis unfolding search_closed_def by (metis call_item.simps)
  qed
  have "?r \<noteq> Inl RecursionError"
    by (rule firstm_returns [where g = ?g and vis = ?u and K = K])
      (use search_ok [of K n] ok u small inX in \<open>simp_all add: search_ok_def returns_ok_def split: if_splits\<close>)
  moreover have run: "check_dep_loop_choice K (Suc n) c skip vis =
      (case ?r of Inl e \<Rightarrow> Inl e
       | Inr (Some l, v) \<Rightarrow> found_dep_loop K l (Cho c) v
       | Inr (None, v) \<Rightarrow> Inr (None, v(Cho c := 2)))"
    using True by (simp add: bind_def gets_def visit_def modify_def ret_def split: sum.split prod.split option.split)
  ultimately show ?thesis unfolding run using found_dep_loop_returns
    by (cases ?r) (auto simp del: fun_upd_apply split: option.splits)
qed (simp add: bind_def gets_def ret_def)

lemma returns_ok_sym_step:
  assumes X: "search_closed K X" and ok: "returns_ok K X n"
    and vis: "visits_ok K None vis" "Sym s \<in> X" "open_items X vis < Suc n"
  shows "check_dep_loop_sym K (Suc n) s ic vis \<noteq> Inl RecursionError"
proof (cases "vis (Sym s) = 0")
  case True
  let ?u = "vis(Sym s := 1)"
  let ?deps = "s_dependents (k_sym K s)"
  let ?r = "firstm (\<lambda>dep. case dep of Cho c \<Rightarrow> check_dep_loop_choice K n c None
      | Sym t \<Rightarrow> check_dep_loop_sym K n t False) ?deps ?u"
  have fin: "finite X" using X by (simp add: search_closed_def)
  have u: "visits_ok K None ?u" by (rule visits_ok_start [OF vis(1) True])
  have small: "open_items X w < n" if "visits_ok K None w" "later ?u w" for w
    using open_items_later [OF fin that(2) visits_ok_le [OF that(1)] visits_ok_le [OF u]]
      open_items_start [of X "Sym s" vis, OF fin vis(2) True] vis(3) by linarith
  have inX: "call_item g \<in> X" if "makes_call K (SymCall s ic) g" for g
    using X vis(2) that unfolding search_closed_def by (metis call_item.simps(1))
  have dep: "dep \<in> X" if "dep \<in> set ?deps" for dep
    using inX [OF makes_call_dep [OF that]] by (cases dep) auto
  have r: "?r \<noteq> Inl RecursionError"
  proof (rule firstm_returns [where g = "\<lambda>dep. Some (dep_call dep)" and vis = ?u and K = K])
    fix y w
    assume y: "y \<in> set ?deps" and w: "visits_ok K None w" "later ?u w"
    show "finds K w (the (Some (dep_call y))) ((case y of Cho c \<Rightarrow> check_dep_loop_choice K n c None
        | Sym t \<Rightarrow> check_dep_loop_sym K n t False) w) \<and>
      (case y of Cho c \<Rightarrow> check_dep_loop_choice K n c None | Sym t \<Rightarrow> check_dep_loop_sym K n t False) w \<noteq> Inl RecursionError"
      using search_ok [of K n] ok w(1) small [OF w] dep [OF y]
      by (cases y) (simp_all add: search_ok_def returns_ok_def)
  qed (use u in \<open>simp_all split: item.splits\<close>)
  have m: "check_dep_loop_choice K n c (Some s) v \<noteq> Inl RecursionError"
    if "?r = Inr (None, v)" "s_choice (k_sym K s) = Some c" "\<not> ic" for c v
  proof -
    have "finds_all K ?u (\<Union>dep \<in> set ?deps. set_option (Some (dep_call dep))) ?r"
      by (rule finds_all_firstm) (use search_ok [of K n] u in \<open>simp_all add: search_ok_def split: item.splits\<close>)
    then have v: "visits_ok K None v" "later ?u v" using that(1) by (auto simp: finds_all_def)
    then have "v (Sym s) = 1" by (simp add: later_def)
    moreover have "Cho c \<in> X" using inX [of "ChoCall c (Some s)"] that by simp
    ultimately show ?thesis using ok v small [OF v] by (simp add: returns_ok_def)
  qed
  let ?m = "case s_choice (k_sym K s) of
      Some c \<Rightarrow> if ic then ret None else check_dep_loop_choice K n c (Some s) | None \<Rightarrow> ret None"
  have run: "check_dep_loop_sym K (Suc n) s ic vis =
      (case ?r of Inl e \<Rightarrow> Inl e
       | Inr (Some l, v) \<Rightarrow> found_dep_loop K l (Sym s) v
       | Inr (None, v) \<Rightarrow> (case ?m v of Inl e \<Rightarrow> Inl e
           | Inr (Some l, w) \<Rightarrow> found_dep_loop K l (Sym s) w
           | Inr (None, w) \<Rightarrow> Inr (None, w(Sym s := 2))))"
    using True by (simp add: bind_def gets_def visit_def modify_def ret_def split: sum.split prod.split option.split)
  have m': "?m v \<noteq> Inl RecursionError" if "?r = Inr (None, v)" for v
    using m [OF that] by (cases "s_choice (k_sym K s)") (simp_all add: ret_def)
  show ?thesis unfolding run using r m' found_dep_loop_returns
    by (cases ?r) (auto simp del: fun_upd_apply split: option.splits sum.splits)
qed (simp add: bind_def gets_def ret_def)

lemma returns_ok: "search_closed K X \<Longrightarrow> returns_ok K X n"
proof (induction n)
  case 0
  then show ?case by (simp add: returns_ok_def)
next
  case (Suc n)
  then show ?case using returns_ok_sym_step returns_ok_choice_step unfolding returns_ok_def [of K X "Suc n"] by blast
qed

lemma check_dep_loops_returns:
  assumes X: "search_closed K X" and sub: "Sym ` set ss \<subseteq> X" and n: "card X < n" and "idle K vis"
  shows "foldm (\<lambda>s _. bind (check_dep_loop_sym K n s False) (\<lambda>_. ret ())) ss () vis \<noteq> Inl RecursionError"
  using sub \<open>idle K vis\<close>
proof (induction ss arbitrary: vis)
  case Nil
  then show ?case by (simp add: ret_def)
next
  case (Cons s ss)
  have "open_items X vis \<le> card X"
    unfolding open_items_def by (rule card_mono) (use X in \<open>auto simp: search_closed_def\<close>)
  then have "check_dep_loop_sym K n s False vis \<noteq> Inl RecursionError"
    using returns_ok [OF X, of n] Cons.prems n by (auto simp: returns_ok_def idle_def)
  with search_idle [OF Cons.prems(2), of n s] Cons.IH Cons.prems(1) show ?case
    by (auto simp: bind_def ret_def)
qed

end
