(* ===== verification/Init.thy ===== *)
theory Init
  imports Finalize Sanity DepLoop Invalidate
begin

text \<open>
  \<open>Kconfig._init\<close> (\<^verbatim>\<open>src/scripts/kconfig/kconfiglib.py\<close>) as a whole: parsing, finalization, the sanity
  checks, the dependents and the search for dependency loops.
\<close>

definition on_kc :: "'a kp \<Rightarrow> 'a pp" where
  "on_kc m = (\<lambda>p. case m (p_kc p) of Inl e \<Rightarrow> Inl e | Inr (x, K) \<Rightarrow> Inr (x, p\<lparr>p_kc := K\<rparr>))"

text \<open>\<open>_visited\<close> is 0 in all symbols and choices before the search and not used after it.\<close>

definition search_loops :: "nat \<Rightarrow> unit pp" where
  "search_loops n = (\<lambda>p. case check_dep_loops (p_kc p) n unvisited of Inl e \<Rightarrow> Inl e | Inr _ \<Rightarrow> Inr ((), p))"

definition add_dependents :: "kconfig \<Rightarrow> kconfig" where
  "add_dependents K = store_dependents (add_choice_deps K (dependents K)) K"

definition warn_undef :: "penv \<Rightarrow> bool" where
  "warn_undef E = (e_environ E ''KCONFIG_WARN_UNDEF'' = Some ''y'' \<or> e_environ E ''KCONFIG_STRICT'' = Some ''y'')"

text \<open>
  The part after the initial assignments, which are those of \<open>init_pstate\<close>. The fuel \<open>n\<close> bounds the
  length of loops and the depth of recursions.
\<close>

definition kconfig_init :: "penv \<Rightarrow> nat \<Rightarrow> string \<Rightarrow> unit pp" where
  "kconfig_init E n filename =
     bind (parse_kconfig E n filename) (\<lambda>_.
     bind (on_kc (finalize n)) (\<lambda>_.
     bind check_sym_sanity (\<lambda>_.
     bind check_choice_sanity (\<lambda>_.
     bind (if warn_undef E then check_undef_syms n else ret ()) (\<lambda>_.
     bind (upd_kc (\<lambda>K. store_dependents (build_dep K) K)) (\<lambda>_.
     bind (search_loops n) (\<lambda>_.
     upd_kc add_dependents)))))))"

end
