(* ===== verification/LoopCheck.thy ===== *)
theory LoopCheck
  imports Init Laws
begin

text \<open>
  What a successful search for dependency loops (\<open>DepLoop\<close>) means for the calculation of values
  (\<open>Valuation\<close>): without choices, no value depends on itself; with choices, loops can be missed.
\<close>

section \<open>Configurations without choices\<close>

text \<open>
  \<open>MODULES\<close> decides the type of all tristate symbols, which \<open>_build_dep\<close> does not record: its own value
  must rest on constants and undefined symbols. Undefined symbols have no dependencies.
\<close>

definition plain_modules :: "kconfig \<Rightarrow> bool" where
  "plain_modules K =
     (otype K modules \<noteq> TRISTATE \<and>
      (\<forall>e \<in> set (sym_dep_exprs K modules). \<forall>x \<in> set (expr_items e). x \<notin> Sym ` set (k_unique_defined_syms K)))"

definition choiceless :: "kconfig \<Rightarrow> bool" where
  "choiceless K = (k_unique_choices K = [] \<and> (\<forall>s. s_choice (k_sym K s) = None) \<and>
     (\<forall>s. s \<notin> set (k_unique_defined_syms K) \<longrightarrow> s_direct_dep (k_sym K s) = kn))"

text \<open>The keys a calculation reads, by the symbol they belong to.\<close>

definition outside_key :: "vkey \<Rightarrow> bool" where
  "outside_key k = (case k of KTri _ \<Rightarrow> True | KStr _ \<Rightarrow> True | KCVis _ \<Rightarrow> True | _ \<Rightarrow> False)"

lemma edeps_outside: "k \<in> set (edeps K e) \<Longrightarrow> outside_key k"
  by (induction K e rule: edeps.induct) (auto simp: outside_key_def cdeps_def ctdeps_def split: if_splits)

lemma edeps_mention:
  assumes "k \<in> set (edeps K e)" and "k_unique_choices K = []" and "tree_ok K"
  shows "item_of k \<in> set (expr_items e) \<and> outside_key k"
  using assms
  by (induction K e rule: edeps.induct) (auto simp: outside_key_def cdeps_def ctdeps_def tree_ok_def split: if_splits)

fun key_off :: "vkey \<Rightarrow> nat" where
  "key_off (KVis _) = 0" | "key_off (KTri _) = 1" | "key_off (KStr _) = 2" | "key_off (KAsg _) = 3"
| "key_off (KCVis _) = 0" | "key_off (KCSel _) = 1" | "key_off (KCAsg _) = 1"

text \<open>A read is of the same symbol, of \<open>MODULES\<close>, or of an item that an expression of the symbol mentions.\<close>

definition expr_read :: "kconfig \<Rightarrow> symref \<Rightarrow> vkey \<Rightarrow> bool" where
  "expr_read K s k = (outside_key k \<and> (\<exists>e \<in> set (sym_dep_exprs K s). item_of k \<in> set (expr_items e)))"

lemma expr_readI:
  assumes "e \<in> set (sym_dep_exprs K s)" and "k \<in> set (edeps K e)" and "k_unique_choices K = []" and "tree_ok K"
  shows "expr_read K s k"
  using edeps_mention [OF assms(2-4)] assms(1) by (auto simp: expr_read_def)

lemma pdeps_read:
  assumes "k \<in> set (pdeps K (s_nodes (k_sym K s)))" and "k_unique_choices K = []" and "tree_ok K"
  shows "expr_read K s k"
  using assms expr_readI [OF sym_dep_exprsI(1)] by (auto simp: pdeps_def)

lemma choiceless_reads:
  assumes c: "choiceless K" and t: "tree_ok K" and k': "k' \<in> set (rdeps K k)" and s: "item_of k = Sym s"
  shows "item_of k' = Sym s \<and> key_off k' < key_off k \<or> k' = KTri modules \<and> otype K s = TRISTATE \<or> expr_read K s k'"
proof -
  have nc: "k_unique_choices K = []" "s_choice (k_sym K s) = None" using c by (simp_all add: choiceless_def)
  note rd = expr_readI [OF _ _ nc(1) t] and pr = pdeps_read [OF _ nc(1) t]
  have td: "k' = KTri modules \<and> otype K s = TRISTATE" if "k' \<in> set (tdeps K s)"
    using that nc(2) by (auto simp: tdeps_def chdeps_def split: if_splits)
  have ch: "chdeps K s = []" using nc(2) by (simp add: chdeps_def)
  show ?thesis
  proof (cases k)
    case (KVis x)
    then show ?thesis using k' s ch td pr by auto
  next
    case (KTri x)
    then have [simp]: "x = s" using s by simp
    show ?thesis
      using k' nc(2) td rd [OF sym_dep_exprsI(2)] rd [OF sym_dep_exprsI(3)] rd [OF sym_dep_exprsI(4)] rd [OF sym_dep_exprsI(6)]
      by (fastforce simp: KTri split: if_splits)
  next
    case (KStr x)
    then have [simp]: "x = s" using s by simp
    have rng: "expr_read K s (KStr l)" "expr_read K s (KStr h)" if "(l, h, e) \<in> set (s_ranges (k_sym K s))" for l h e
      using sym_dep_exprsI(5) [OF that] by (force simp: expr_read_def outside_key_def)+
    have dfl: "expr_read K s (KStr y)" if "(Item (Sym y), e) \<in> set (s_defaults (k_sym K s))" for y e
      using sym_dep_exprsI(2) [OF that] by (force simp: expr_read_def outside_key_def)
    have r: "expr_read K s k'" if "(l, h, e) \<in> set (s_ranges (k_sym K s))" "k' = KStr l \<or> k' = KStr h \<or> k' \<in> set (edeps K e)" for l h e
      using that(2) rng [OF that(1)] rd [OF sym_dep_exprsI(5) [OF that(1), of e]] by auto
    have d: "expr_read K s k'" if "(v, e) \<in> set (s_defaults (k_sym K s))" "k' \<in> set (symdef_deps v KStr) \<or> k' \<in> set (edeps K e)" for v e
      using that(2) dfl [of _ e] rd [OF sym_dep_exprsI(2) [OF that(1), of e]] that(1) by (auto dest!: symdef_deps_items)
    have "k' = KTri s \<and> bool_tristate (otype K s) \<or> k' = KVis s \<or> expr_read K s k'"
      using k' unfolding KStr by (auto split: if_splits intro: r rng d)
    then show ?thesis using KStr by auto
  next
    case (KAsg x)
    then have [simp]: "x = s" using s by simp
    show ?thesis
      using k' td rd [OF sym_dep_exprsI(3)] rd [OF sym_dep_exprsI(4)]
      by (fastforce simp: KAsg split: if_splits)
  qed (use s in simp_all)
qed

text \<open>Warnings about selects read the value and the direct dependencies of the selecting symbols.\<close>

lemma select_deps_items:
  assumes "e \<in> set (split_expr r OpOR)" and "k \<in> set (select_deps K e)"
  shows "\<exists>a. Sym a \<in> set (expr_items r) \<and> (k = KStr a \<or> k \<in> set (edeps K (s_direct_dep (k_sym K a))))"
proof -
  obtain a xs where a: "split_expr e OpAND = Item (Sym a) # xs" "k \<in> set (KStr a # edeps K (s_direct_dep (k_sym K a)))"
  proof (cases "split_expr e OpAND")
    case Nil
    with assms(2) show thesis by (simp add: select_deps_def)
  next
    case (Cons y ys)
    show thesis
    proof (cases y)
      case (Item x)
      then show thesis using assms(2) that Cons by (cases x) (auto simp: select_deps_def)
    qed (use assms(2) Cons in \<open>simp_all add: select_deps_def\<close>)
  qed
  have "set (expr_items x) \<subseteq> set (expr_items y)" if "x \<in> set (split_expr y q)" for x y q
    using that by (induction y q rule: split_expr.induct) (auto split: if_splits)
  from this [OF assms(1)] this [of "Item (Sym a)" e OpAND] a show ?thesis by auto
qed


section \<open>A successful search gives a rank\<close>

definition loops_checked :: "kconfig \<Rightarrow> nat \<Rightarrow> bool" where
  "loops_checked K n = (\<exists>v. check_dep_loops (store_dependents (build_dep K) K) n unvisited = Inr ((), v))"

lemma loops_checked_order:
  assumes "loops_checked K n"
  obtains L where "\<And>s t e. s \<in> set (k_unique_defined_syms K) \<Longrightarrow> t \<in> set (k_unique_defined_syms K) \<Longrightarrow> \<not> is_constant t \<Longrightarrow>
      e \<in> set (sym_dep_exprs K s) \<Longrightarrow> Sym t \<in> set (expr_items e) \<Longrightarrow> finish_rank L (Sym s) < finish_rank L (Sym t)"
proof -
  let ?K = "store_dependents (build_dep K) K"
  obtain v where "check_dep_loops ?K n unvisited = Inr ((), v)" using assms by (auto simp: loops_checked_def)
  then have v: "idle ?K v" "\<forall>s \<in> set (k_unique_defined_syms ?K). v (Sym s) = 2"
    using check_dep_loops_run [of ?K n] by simp_all
  then obtain L where L: "finish_order ?K L" "set L = {x. v x = 2}" by (auto simp: idle_def visits_ok_def)
  show thesis
  proof (rule that)
    fix s t e
    assume s: "s \<in> set (k_unique_defined_syms K)" and t: "t \<in> set (k_unique_defined_syms K)" "\<not> is_constant t"
      and e: "e \<in> set (sym_dep_exprs K s)" "Sym t \<in> set (expr_items e)"
    have "Sym s \<in> set (build_dep K (Sym t))" using s t(2) e by (auto simp: build_dep_set)
    then have "Sym s \<in> set (s_dependents (k_sym ?K t))" by (simp add: store_dependents_def)
    moreover have "Sym t \<in> set L" using v(2) t(1) L(2) by (simp add: store_dependents_def)
    ultimately show "finish_rank L (Sym s) < finish_rank L (Sym t)" using finish_rank_less [OF L(1)] by blast
  qed
qed

definition level :: "kconfig \<Rightarrow> item list \<Rightarrow> symref \<Rightarrow> nat" where
  "level K L s = (if s \<notin> set (k_unique_defined_syms K) then 0 else if s = modules then 1
     else 2 + (length L - finish_rank L (Sym s)))"

definition loop_rank :: "kconfig \<Rightarrow> item list \<Rightarrow> vkey \<Rightarrow> nat" where
  "loop_rank K L k = (case item_of k of
     Sym s \<Rightarrow> (if s \<notin> set (k_unique_defined_syms K) \<and> \<not> outside_key k then 4 * (length L + 3) else 4 * level K L s) + key_off k
   | Cho _ \<Rightarrow> key_off k)"

lemma level_le: "level K L s \<le> length L + 2"
  by (simp add: level_def)

lemma key_off_le: "key_off k \<le> 3"
  by (cases k) simp_all

lemma loop_rank_outside: "outside_key k \<Longrightarrow> loop_rank K L k < 4 * (length L + 3)"
  using key_off_le [of k]
proof (cases "item_of k")
  case (Sym s)
  assume "outside_key k"
  with Sym level_le [of K L s] key_off_le [of k] show ?thesis by (simp add: loop_rank_def)
qed (simp add: loop_rank_def)

lemma loop_rank_outside_sym: "outside_key k \<Longrightarrow> item_of k = Sym s \<Longrightarrow> loop_rank K L k = 4 * level K L s + key_off k \<and> key_off k \<le> 2"
  by (cases k) (auto simp: loop_rank_def outside_key_def)

lemma no_choices_ranked:
  assumes c: "choiceless K" and t: "tree_ok K" and m: "plain_modules K" and chk: "loops_checked K n"
  shows "\<exists>rk N. ranked K rk \<and> (\<forall>k. rk k < N)"
proof -
  let ?D = "set (k_unique_defined_syms K)"
  obtain L where L: "\<And>s t e. s \<in> ?D \<Longrightarrow> t \<in> ?D \<Longrightarrow> \<not> is_constant t \<Longrightarrow>
      e \<in> set (sym_dep_exprs K s) \<Longrightarrow> Sym t \<in> set (expr_items e) \<Longrightarrow> finish_rank L (Sym s) < finish_rank L (Sym t)"
    using loops_checked_order [OF chk] by blast
  have nconst: "\<not> is_constant s" if "s \<in> ?D" for s using t that by (simp add: tree_ok_def)
  have lower: "level K L x < level K L s" if "s \<in> ?D" "e \<in> set (sym_dep_exprs K s)" "Sym x \<in> set (expr_items e)" for s x e
  proof (cases "x \<in> ?D")
    case True
    then have "s \<noteq> modules" using m that by (auto simp: plain_modules_def)
    moreover have "finish_rank L (Sym s) < finish_rank L (Sym x)" by (rule L [OF that(1) True nconst [OF True] that(2,3)])
    moreover have "finish_rank L (Sym x) \<le> length L" by (rule finish_rank_le)
    ultimately show ?thesis using that(1) True by (auto simp: level_def)
  qed (use that in \<open>simp add: level_def\<close>)
  have read: "loop_rank K L k' < 4 * level K L s" if "s \<in> ?D" "expr_read K s k'" for s k'
  proof (cases "item_of k'")
    case (Sym x)
    with that lower [OF that(1), of _ x] have "level K L x < level K L s" by (auto simp: expr_read_def)
    moreover have "loop_rank K L k' = 4 * level K L x + key_off k' \<and> key_off k' \<le> 2"
      by (rule loop_rank_outside_sym [OF _ Sym]) (use that(2) in \<open>simp add: expr_read_def\<close>)
    ultimately show ?thesis by linarith
  next
    case (Cho c)
    with that have "key_off k' = 0" by (cases k') (auto simp: expr_read_def outside_key_def)
    then show ?thesis using that(1) Cho by (simp add: loop_rank_def level_def)
  qed
  have reads: "loop_rank K L k' < loop_rank K L k" if k': "k' \<in> set (rdeps K k)" for k k'
  proof (cases "item_of k")
    case (Sym s)
    show ?thesis
    proof (cases "s \<in> ?D")
      case True
      then have rk: "loop_rank K L k = 4 * level K L s + key_off k" using Sym by (simp add: loop_rank_def)
      from choiceless_reads [OF c t k' Sym] show ?thesis
      proof (elim disjE conjE)
        assume "item_of k' = Sym s" "key_off k' < key_off k"
        then show ?thesis using True rk by (simp add: loop_rank_def)
      next
        assume a: "k' = KTri modules" "otype K s = TRISTATE"
        then have "s \<noteq> modules" using m by (auto simp: plain_modules_def)
        then have "level K L s \<ge> 2" using True by (simp add: level_def)
        moreover have "loop_rank K L k' \<le> 5" by (simp add: a(1) loop_rank_def level_def outside_key_def)
        ultimately show ?thesis using rk by linarith
      next
        assume "expr_read K s k'"
        then show ?thesis using read [OF True] rk by fastforce
      qed
    next
      case False
      then have u: "s_nodes (k_sym K s) = []" "s_choice (k_sym K s) = None"
          "otype K s = (if nmy_tri s = None then UNKNOWN else TRISTATE)"
        using t by (auto simp: tree_ok_def)
      have out: "outside_key k' \<Longrightarrow> \<not> outside_key k \<Longrightarrow> ?thesis"
        using loop_rank_outside [of k' K L] False Sym by (simp add: loop_rank_def)
      have e: "k' \<in> set (edeps K e) \<Longrightarrow> \<not> outside_key k \<Longrightarrow> ?thesis" for e using out edeps_outside by blast
      have tm: "outside_key (KTri modules)" by (simp add: outside_key_def)
      show ?thesis
      proof (cases k)
        case (KVis x)
        then show ?thesis using k' u Sym out tm by (auto simp: pdeps_def chdeps_def tdeps_def outside_key_def split: if_splits)
      next
        case (KTri x)
        then show ?thesis using k' u Sym by (auto split: if_splits)
      next
        case (KStr x)
        then show ?thesis using k' u Sym False by (auto simp: loop_rank_def outside_key_def level_def split: if_splits)
      next
        case (KAsg x)
        then have nk: "\<not> outside_key k" by (simp add: outside_key_def)
        have "k' = KVis s \<or> k' = KTri modules \<or> (\<exists>e. k' \<in> set (edeps K e))"
          using k' KAsg u Sym by (auto simp: tdeps_def chdeps_def split: if_splits)
        then show ?thesis using out [OF _ nk] tm e [OF _ nk] False Sym KAsg by (auto simp: loop_rank_def outside_key_def)
      qed (use Sym in simp_all)
    qed
  next
    case (Cho d)
    have "c_nodes (k_choice K d) = [] \<and> c_orig_type (k_choice K d) = UNKNOWN \<and> c_syms (k_choice K d) = [] \<and> c_defaults (k_choice K d) = []"
      using t c by (auto simp: tree_ok_def choiceless_def)
    then show ?thesis using k' Cho by (cases k) (auto simp: pdeps_def ctdeps_def cdeps_def loop_rank_def)
  qed
  have wreads: "loop_rank K L k' < loop_rank K L k" if k': "k' \<in> set (wdeps K k)" for k k'
  proof (cases k)
    case (KTri s)
    with k' have b: "nmy_tri s = None" "bool_tristate (otype K s)" by (auto split: if_splits)
    then have s: "s \<in> ?D" using t by (auto simp: tree_ok_def bool_tristate_def)
    have rk: "loop_rank K L k = 4 * level K L s + 1" using KTri s by (simp add: loop_rank_def)
    obtain e where e: "e \<in> set (split_expr (s_rev_dep (k_sym K s)) OpOR)" "k' \<in> set (select_deps K e)"
      using k' KTri by (auto split: if_splits)
    obtain a where a: "Sym a \<in> set (expr_items (s_rev_dep (k_sym K s)))"
        "k' = KStr a \<or> k' \<in> set (edeps K (s_direct_dep (k_sym K a)))"
      using select_deps_items [OF e] by blast
    have la: "level K L a < level K L s" by (rule lower [OF s sym_dep_exprsI(3) a(1)])
    show ?thesis
    proof (cases "k' = KStr a")
      case True
      then have "expr_read K s k'" using a(1) sym_dep_exprsI(3) by (force simp: expr_read_def outside_key_def)
      then show ?thesis using read [OF s] rk by fastforce
    next
      case False
      then have d: "k' \<in> set (edeps K (s_direct_dep (k_sym K a)))" using a(2) by blast
      show ?thesis
      proof (cases "a \<in> ?D")
        case True
        have "expr_read K a k'" by (rule expr_readI [OF sym_dep_exprsI(6) d _ t]) (use c in \<open>simp add: choiceless_def\<close>)
        then show ?thesis using read [OF True, of k'] la rk by linarith
      next
        case und: False
        then have "k' = KTri (SymC ''n'')" using d c by (auto simp: choiceless_def kn_def)
        moreover have "SymC ''n'' \<notin> ?D" using nconst [of "SymC ''n''"] by (auto simp: is_constant_def)
        ultimately show ?thesis using rk la by (simp add: loop_rank_def level_def outside_key_def)
      qed
    qed
  qed (use k' in simp_all)
  have "loop_rank K L k < 4 * (length L + 3) + 4" for k
  proof (cases "item_of k")
    case (Sym s)
    with level_le [of K L s] key_off_le [of k] show ?thesis by (simp add: loop_rank_def)
  qed (use key_off_le [of k] in \<open>simp add: loop_rank_def\<close>)
  moreover have "ranked K (loop_rank K L)" using reads wreads by (auto simp: ranked_def)
  ultimately show ?thesis by blast
qed

text \<open>Then the API returns, on a deep enough call stack.\<close>

lemma checked_returns:
  assumes "wf_kconfig K" and "choiceless K" and "tree_ok K" and "plain_modules K" and "loops_checked K m"
  shows "\<exists>N. \<forall>n \<ge> N. \<forall>as. list_all (call_ok (link K)) as \<longrightarrow> (\<exists>vs d'. calls (link K) n as init_dyn = Inr (vs, d'))"
proof -
  obtain rk N where rk: "ranked K rk" "\<And>k. rk k < N" using no_choices_ranked [OF assms(2-5)] by blast
  have r: "ready (link K) rk" by (rule ready_link [OF assms(1) rk(1) assms(3)])
  show ?thesis
  proof (intro exI [of _ "Suc (length (all_items (link K)) + N)"] allI impI)
    fix n as
    assume n: "Suc (length (all_items (link K)) + N) \<le> n" and as: "list_all (call_ok (link K)) as"
    have "rk k < n" for k using rk(2) [of k] n by linarith
    moreover have "length (all_items (link K)) < n" using n by linarith
    ultimately show "\<exists>vs d'. calls (link K) n as init_dyn = Inr (vs, d')"
      using calls_refine [OF r _ _ good_init_dyn as, of n] by blast
  qed
qed


section \<open>The composition in \<open>_init\<close>\<close>

lemma add_dependents_link: "add_dependents (store_dependents (build_dep K) K) = link K"
proof -
  have "dependents (store_dependents (build_dep K) K) = build_dep K"
  proof (rule ext)
    fix x show "dependents (store_dependents (build_dep K) K) x = build_dep K x"
      by (cases x) (simp_all add: store_dependents_def)
  qed
  then show ?thesis
    by (simp add: add_dependents_def link_def add_choice_deps_def store_dependents_def)
qed

text \<open>An object that \<open>_init\<close> returns has passed the search, and its dependents are complete.\<close>

lemma kconfig_init_checked:
  assumes "kconfig_init E n filename p = Inr ((), p')"
  obtains K where "p_kc p' = link K" "loops_checked K n"
proof -
  obtain p1 p2 p3 where p: "upd_kc (\<lambda>K. store_dependents (build_dep K) K) p1 = Inr ((), p2)"
      "search_loops n p2 = Inr ((), p3)" "upd_kc add_dependents p3 = Inr ((), p')"
    using assms unfolding kconfig_init_def by (elim bind_InrE) auto
  let ?K = "p_kc p1"
  have p2: "p_kc p2 = store_dependents (build_dep ?K) ?K" using p(1) by (auto simp: upd_kc_def modify_def)
  obtain v where v: "check_dep_loops (p_kc p2) n unvisited = Inr ((), v)" and "p3 = p2"
    using p(2) by (auto simp: search_loops_def split: sum.splits)
  then have "p_kc p' = link ?K" using p(3) by (auto simp: upd_kc_def modify_def p2 add_dependents_link)
  moreover have "loops_checked ?K n" using v by (auto simp: loops_checked_def p2)
  ultimately show thesis by (rule that)
qed

end
