(* ===== verification/Steps.thy ===== *)
theory Steps
  imports Parser
begin

text \<open>
  What a computation does to the state: \<open>within R m\<close> says that every run of \<open>m\<close> that returns leads to a state
  related to the first one by \<open>R\<close>. For reflexive and transitive relations that follows from the parts of
  \<open>m\<close>, which is proved once, in the locale \<open>step_rel\<close>. Up to the parser's properties, computations
  do not change the symbols, choices and menu nodes at all (\<open>steady\<close>).
\<close>

section \<open>Relations between states\<close>

definition within :: "('s \<Rightarrow> 's \<Rightarrow> bool) \<Rightarrow> ('s, 'a) eff \<Rightarrow> bool" where
  "within R m = (\<forall>p x q. m p = Inr (x, q) \<longrightarrow> R p q)"

lemma withinD: "within R m \<Longrightarrow> m p = Inr (x, q) \<Longrightarrow> R p q"
  by (simp add: within_def)

locale step_rel =
  fixes R :: "'s \<Rightarrow> 's \<Rightarrow> bool"
  assumes refl: "R p p" and trans: "R p q \<Longrightarrow> R q r \<Longrightarrow> R p r"
begin

lemma within_ret: "within R (ret x)"
  by (simp add: within_def ret_def refl)

lemma within_raise: "within R (raise e)"
  by (simp add: within_def raise_def)

lemma within_gets: "within R (gets f)"
  by (simp add: within_def gets_def refl)

lemma within_modify: "(\<And>p. R p (f p)) \<Longrightarrow> within R (modify f)"
  by (simp add: within_def modify_def)

lemma within_bind:
  assumes "within R m" and "\<And>x. within R (f x)"
  shows "within R (bind m f)"
  unfolding within_def
proof (intro allI impI)
  fix p x r assume "bind m f p = Inr (x, r)"
  then obtain y q where 1: "m p = Inr (y, q)" "f y q = Inr (x, r)" by (auto simp: bind_def split: sum.splits)
  from trans [OF withinD [OF assms(1) 1(1)] withinD [OF assms(2) 1(2)]] show "R p r" .
qed

lemma within_foldm: "(\<And>x a. within R (f x a)) \<Longrightarrow> within R (foldm f xs acc)"
  by (induction xs arbitrary: acc) (simp_all add: within_ret within_bind)

lemma within_of_option: "within R (of_option e x)"
  by (cases x) (simp_all add: within_ret within_raise)

lemma within_cases:
  "within R a \<Longrightarrow> within R b \<Longrightarrow> within R (if c then a else b)"
  "within R a \<Longrightarrow> (\<And>y. within R (f y)) \<Longrightarrow> within R (case x of None \<Rightarrow> a | Some y \<Rightarrow> f y)"
  "(\<And>y z. within R (g y z)) \<Longrightarrow> within R (case w of (y, z) \<Rightarrow> g y z)"
  "within R a \<Longrightarrow> (\<And>k. within R (h k)) \<Longrightarrow> (\<And>s. within R (i s)) \<Longrightarrow> (\<And>x. within R (j x)) \<Longrightarrow>
     within R (case t of TNone \<Rightarrow> a | TKw k \<Rightarrow> h k | TSym s \<Rightarrow> i s | TStr x \<Rightarrow> j x)"
  "(\<And>s. within R (i s)) \<Longrightarrow> (\<And>c. within R (k c)) \<Longrightarrow> within R a \<Longrightarrow> within R b \<Longrightarrow> within R d \<Longrightarrow>
     within R (case it of NSym s \<Rightarrow> i s | NCho c \<Rightarrow> k c | NMenu \<Rightarrow> a | NComment \<Rightarrow> b | NIf \<Rightarrow> d)"
  "within R a \<Longrightarrow> (\<And>y ys. within R (l y ys)) \<Longrightarrow> within R (case xs of [] \<Rightarrow> a | y # ys \<Rightarrow> l y ys)"
  by (auto split: option.split prod.split token.split nitem.split list.split)

lemmas within_rules = within_ret within_raise within_gets within_bind within_of_option within_foldm within_cases

end

section \<open>Steady computations\<close>

definition sview :: "pstate \<Rightarrow> kconfig \<times> nat \<times> nat \<times> dyn" where
  "sview p = ((p_kc p)\<lparr>k_syms := []\<rparr>, p_new_node p, p_new_choice p, (p_dyn p)\<lparr>warnings := []\<rparr>)"

definition steady :: "'a pp \<Rightarrow> bool" where
  "steady = within (\<lambda>p q. sview q = sview p)"

lemma steady_sview: "step_rel (\<lambda>p q. sview q = sview p)"
  by unfold_locales auto

interpretation sv: step_rel "\<lambda>p q. sview q = sview p"
  by (rule steady_sview)

named_theorems steady_rules \<open>computations that do not change the objects\<close>

lemmas steady_within [steady_rules] = sv.within_rules [folded steady_def]
lemmas steady_modify = sv.within_modify [folded steady_def]

lemma steadyD: "steady m \<Longrightarrow> m p = Inr (x, q) \<Longrightarrow> sview q = sview p"
  unfolding steady_def by (rule withinD)

lemma sview_update [simp]:
  "sview (p\<lparr>p_const_syms := a\<rparr>) = sview p" "sview (p\<lparr>p_variables := b\<rparr>) = sview p" "sview (p\<lparr>p_env_vars := e\<rparr>) = sview p"
  "sview (p\<lparr>p_named_choices := c\<rparr>) = sview p" "sview (p\<lparr>p_menus := f\<rparr>) = sview p" "sview (p\<lparr>p_comments := f\<rparr>) = sview p"
  "sview (p\<lparr>p_kconfig_filenames := g\<rparr>) = sview p"
  "sview (p\<lparr>p_filestack := h\<rparr>) = sview p" "sview (p\<lparr>p_include_path := j\<rparr>) = sview p"
  "sview (p\<lparr>p_filename := k\<rparr>) = sview p" "sview (p\<lparr>p_linenr := i\<rparr>) = sview p" "sview (p\<lparr>p_rest := l\<rparr>) = sview p"
  "sview (p\<lparr>p_tokens := t\<rparr>) = sview p" "sview (p\<lparr>p_i := i\<rparr>) = sview p" "sview (p\<lparr>p_reuse_tokens := q\<rparr>) = sview p"
  "sview (p\<lparr>p_line := l\<rparr>) = sview p" "sview (p\<lparr>p_parsing := q\<rparr>) = sview p"
  "sview (p\<lparr>p_kc := K\<lparr>k_syms := ss\<rparr>\<rparr>) = sview (p\<lparr>p_kc := K\<rparr>)" "sview (p\<lparr>p_dyn := d\<lparr>warnings := w\<rparr>\<rparr>) = sview (p\<lparr>p_dyn := d\<rparr>)"
  by (simp_all add: sview_def)

section \<open>The operations below the parser\<close>

lemma steady_on_dyn_kwarn [steady_rules]: "steady (on_dyn (kwarn w))"
  unfolding steady_def within_def by (auto simp: on_dyn_def kwarn_def modify_def sview_def)

lemma steady_errors [steady_rules]: "steady (warn_text m)" "steady (warn_here m)" "steady (parse_error m)" "steady trailing_tokens_error"
  by (auto simp: warn_text_def warn_here_def parse_error_def trailing_tokens_error_def intro!: steady_rules)

lemma steady_lookup_fn: "lookup_fn E fn = Some (f, lo, hi) \<Longrightarrow> steady (f args)"
  by (auto simp: lookup_fn_def info_fn_def error_if_fn_def filename_fn_def lineno_fn_def shell_fn_def warning_if_fn_def Let_def
    intro!: steady_rules split: option.splits sum.splits if_splits prod.splits)

lemma steady_call_fn [steady_rules]: "steady (call_fn E args)"
proof (cases "lookup_fn E (hd args)")
  case None
  then show ?thesis by (auto simp: call_fn_def Let_def intro!: steady_rules steady_modify)
next
  case (Some r)
  moreover obtain f lo hi where "r = (f, lo, hi)" by (cases r)
  ultimately show ?thesis using steady_lookup_fn [of E "hd args" f lo hi args]
    by (auto simp: call_fn_def Let_def intro!: steady_rules)
qed

lemma steady_expand:
  "steady (expand_whole E n s i args)" "steady (expand_macro E n s i args)"
  "steady (macro_loop E n args res s i j new_args nesting)" "steady (fn_val E n args)"
proof (induction n arbitrary: s i j args res new_args nesting)
  case (Suc n)
  { case 1 show ?case using Suc by (auto intro!: steady_rules) }
  { case 2 show ?case using Suc by (auto intro!: steady_rules) }
  { case 3 show ?case unfolding macro_loop.simps Let_def by (intro steady_rules Suc) }
  { case 4 show ?case unfolding fn_val.simps Let_def add_expansions_def by (intro steady_rules steady_modify Suc) simp_all }
qed (simp_all add: steady_within)

declare steady_expand [steady_rules]


lemma steady_expand_name_iter [steady_rules]: "steady (expand_name_iter E n s i)"
  by (induction E n s i rule: expand_name_iter.induct) (auto intro!: steady_rules split: prod.split)

lemma steady_expand_str_loop [steady_rules]: "steady (expand_str_loop E n q s i)"
  by (induction E n q s i rule: expand_str_loop.induct) (auto intro!: steady_rules split: option.split prod.split)

lemma steady_assignment_lhs [steady_rules]: "steady (assignment_lhs E n s i)"
  by (induction E n s i rule: assignment_lhs.induct) (auto simp: Let_def intro!: steady_rules split: prod.split)

lemma steady_parse_assignment [steady_rules]: "steady (parse_assignment E n s)"
  unfolding parse_assignment_def assign_variable_def set_variable_def Let_def
  by (rule steady_rules steady_modify | simp)+

lemma steady_lookup_syms [steady_rules]: "steady (lookup_sym x)" "steady (lookup_const_sym x)"
  unfolding lookup_sym_def lookup_const_sym_def Let_def
  by (rule steady_rules steady_modify | simp)+

lemma steady_next_token [steady_rules]: "steady (next_token E n s i prev t0)"
  unfolding next_token_def word_token_def string_token_def expand_name_def expand_string_def Let_def
  by (rule steady_rules steady_modify | simp)+

lemma steady_token_loop [steady_rules]: "steady (token_loop E n s i toks)"
  by (induction E n s i toks rule: token_loop.induct) (auto intro!: steady_rules split: prod.split option.split)

lemma steady_tokenize [steady_rules]: "steady (tokenize E n s)"
  unfolding tokenize_def Let_def
  by (rule steady_rules steady_modify | simp)+

lemma steady_readline [steady_rules]: "steady readline"
  by (auto simp: steady_def within_def readline_def split: prod.splits)

lemma steady_incr_linenr [steady_rules]: "steady (incr_linenr k)"
  by (simp add: incr_linenr_def steady_modify)

lemma steady_join_lines [steady_rules]: "steady (join_lines n l)"
  by (induction n l rule: join_lines.induct) (auto intro!: steady_rules)

lemma steady_next_line [steady_rules]: "steady (next_line E n)"
  unfolding next_line_def set_tokens_def Let_def
  by (rule steady_rules steady_modify | simp)+

lemma steady_line_after_help [steady_rules]: "steady (line_after_help E n l)"
  unfolding line_after_help_def set_tokens_def Let_def
  by (rule steady_rules steady_modify | simp)+

lemma steady_files [steady_rules]: "steady (enter_file E f)" "steady leave_file"
  unfolding enter_file_def leave_file_def Let_def
  by (rule steady_rules steady_modify | simp)+

lemma steady_tokens [steady_rules]:
  "steady (token_at i)" "steady peek" "steady advance" "steady fetch" "steady (check_token k)" "steady expect_sym"
  "steady expect_nonconst_sym" "steady expect_eol" "steady expect_str_and_eol"
  unfolding token_at_def peek_def advance_def fetch_def check_token_def expect_sym_def expect_nonconst_sym_def
    expect_eol_def expect_str_and_eol_def Let_def
  by (rule steady_rules steady_modify | simp)+

lemma steady_parse_expr [steady_rules]:
  "steady (parse_expr n tm)" "steady (parse_and_expr n tm)" "steady (parse_factor n tm)"
  by (induction n tm and n tm and n tm rule: parse_expr_parse_and_expr_parse_factor.induct)
    (auto intro!: steady_rules split: token.split option.split)

lemma steady_expect_expr [steady_rules]: "steady (expect_expr_and_eol n)" "steady (parse_cond n)"
  unfolding expect_expr_and_eol_def parse_cond_def Let_def
  by (rule steady_rules steady_modify | simp)+

lemma steady_item_name [steady_rules]: "steady (item_name_and_loc it)" "steady (item_name it)"
  unfolding item_name_and_loc_def item_name_def Let_def
  by (rule steady_rules steady_modify | simp)+

lemma steady_help_first [steady_rules]: "steady (help_first n)"
  by (induction n) (auto intro!: steady_rules)

lemma steady_help_lines [steady_rules]: "steady (help_lines n i ls)"
proof (induction n arbitrary: ls)
  case (Suc n)
  show ?case unfolding help_lines.simps Let_def by (rule steady_rules Suc | simp)+
qed (simp add: steady_within)


text \<open>The operations that the parser of blocks and properties calls.\<close>

lemmas steady_ops = steady_on_dyn_kwarn steady_errors steady_lookup_syms steady_tokenize steady_readline steady_incr_linenr
  steady_next_line steady_line_after_help steady_files steady_tokens steady_parse_expr steady_expect_expr steady_item_name
  steady_help_first steady_help_lines

end
