(* ===== verification/MenuTree.thy ===== *)
theory MenuTree
  imports LoopCheck Steps
begin

text \<open>
  The menu tree that parsing builds: the nodes that \<open>_parse_block\<close> adds form a list of siblings with the
  right parents, properties do not touch the links, and the links are those of a tree when all files
  are parsed (\<open>parse_kconfig_tree\<close>).
\<close>

section \<open>What keeps the links\<close>

definition links :: "kconfig \<Rightarrow> noderef \<Rightarrow> noderef option \<times> noderef option \<times> noderef option" where
  "links K y = (n_next (k_node K y), n_list (k_node K y), n_parent (k_node K y))"

definition tview :: "pstate \<Rightarrow> (noderef \<Rightarrow> noderef option \<times> noderef option \<times> noderef option) \<times> nat \<times> noderef" where
  "tview p = (links (p_kc p), p_new_node p, k_top_node (p_kc p))"

definition keeps :: "'a pp \<Rightarrow> bool" where
  "keeps = within (\<lambda>p q. tview q = tview p)"

interpretation tv: step_rel "\<lambda>p q. tview q = tview p"
  by unfold_locales auto

named_theorems keeps_rules \<open>computations that keep the links of the menu nodes\<close>

lemmas keeps_within [keeps_rules] = tv.within_rules [folded keeps_def]
lemmas keeps_modify = tv.within_modify [folded keeps_def]
lemmas keeps_gets = tv.within_gets [folded keeps_def]
lemmas keeps_raise = tv.within_raise [folded keeps_def]

lemma keepsD: "keeps m \<Longrightarrow> m p = Inr (x, p') \<Longrightarrow> tview p' = tview p"
  unfolding keeps_def by (rule withinD)

lemma keeps_bind: "keeps m \<Longrightarrow> (\<And>x. keeps (f x)) \<Longrightarrow> keeps (bind m f)"
  by (rule keeps_rules)

lemma tview_update [simp]:
  "tview (p\<lparr>p_const_syms := a\<rparr>) = tview p" "tview (p\<lparr>p_variables := b\<rparr>) = tview p" "tview (p\<lparr>p_env_vars := e\<rparr>) = tview p"
  "tview (p\<lparr>p_named_choices := c\<rparr>) = tview p" "tview (p\<lparr>p_menus := f\<rparr>) = tview p" "tview (p\<lparr>p_comments := f\<rparr>) = tview p"
  "tview (p\<lparr>p_new_choice := i\<rparr>) = tview p" "tview (p\<lparr>p_kconfig_filenames := g\<rparr>) = tview p"
  "tview (p\<lparr>p_filestack := h\<rparr>) = tview p" "tview (p\<lparr>p_include_path := j\<rparr>) = tview p"
  "tview (p\<lparr>p_filename := k\<rparr>) = tview p" "tview (p\<lparr>p_linenr := i\<rparr>) = tview p" "tview (p\<lparr>p_rest := l\<rparr>) = tview p"
  "tview (p\<lparr>p_tokens := t\<rparr>) = tview p" "tview (p\<lparr>p_i := i\<rparr>) = tview p" "tview (p\<lparr>p_reuse_tokens := q\<rparr>) = tview p"
  "tview (p\<lparr>p_line := l\<rparr>) = tview p" "tview (p\<lparr>p_parsing := q\<rparr>) = tview p"
  by (simp_all add: tview_def)

lemma keeps_upd_kc: "(\<And>K. links (f K) = links K \<and> k_top_node (f K) = k_top_node K) \<Longrightarrow> keeps (upd_kc f)"
  unfolding upd_kc_def by (rule keeps_modify) (simp add: tview_def)

lemma links_simps [simp]:
  "links (K\<lparr>k_defined_syms := a\<rparr>) = links K" "links (K\<lparr>k_choices := b\<rparr>) = links K" "links (K\<lparr>k_syms := c\<rparr>) = links K"
  "links (K\<lparr>k_defconfig_list := d\<rparr>) = links K" "links (set_sym s f K) = links K" "links (set_choice e g K) = links K"
  "k_top_node (set_sym s f K) = k_top_node K" "k_top_node (set_choice e g K) = k_top_node K"
  "k_top_node (set_node x h K) = k_top_node K"
  by (auto simp: links_def set_sym_def set_choice_def set_node_def fun_eq_iff)

lemma keeps_upd_node:
  assumes "\<And>N. n_next (f N) = n_next N \<and> n_list (f N) = n_list N \<and> n_parent (f N) = n_parent N"
  shows "keeps (upd_node x f)"
  unfolding upd_node_def by (rule keeps_upd_kc) (use assms in \<open>auto simp: links_def set_node_def fun_eq_iff\<close>)

lemma keeps_get_node [keeps_rules]: "keeps (get_node x)"
  by (simp add: get_node_def keeps_rules)

lemmas keeps_updates = keeps_modify keeps_upd_kc keeps_upd_node

section \<open>The operations of the parser\<close>

lemma tview_sview: "sview q = sview p \<Longrightarrow> tview q = tview p"
proof -
  assume "sview q = sview p"
  then have v: "(p_kc q)\<lparr>k_syms := []\<rparr> = (p_kc p)\<lparr>k_syms := []\<rparr>" "p_new_node q = p_new_node p" by (simp_all add: sview_def)
  have "links (p_kc q) = links (p_kc p)" "k_top_node (p_kc q) = k_top_node (p_kc p)"
    using arg_cong [OF v(1), of links] arg_cong [OF v(1), of k_top_node] by simp_all
  with v(2) show ?thesis unfolding tview_def by (simp only:)
qed

lemma keeps_steady: "steady m \<Longrightarrow> keeps m"
  unfolding keeps_def within_def by (intro allI impI, rule tview_sview, rule steadyD)

lemmas keeps_ops [keeps_rules] = steady_ops [THEN keeps_steady]
lemmas keeps_next_line = steady_next_line [THEN keeps_steady]
lemmas keeps_files = steady_files [THEN keeps_steady]
lemmas keeps_tokens = steady_tokens [THEN keeps_steady]

lemma keeps_set_type [keeps_rules]: "keeps (set_type it t)"
  unfolding set_type_def warn_retyped_def Let_def
  by (rule keeps_rules keeps_updates | simp add: tview_def)+

lemma keeps_parse_prompt [keeps_rules]: "keeps (parse_prompt n x)"
  unfolding parse_prompt_def Let_def
  by (rule keeps_rules keeps_updates | simp add: tview_def)+

lemma keeps_parse_help [keeps_rules]: "keeps (parse_help E n x)"
  unfolding parse_help_def empty_help_def Let_def
  by (rule keeps_rules keeps_updates | simp add: tview_def)+

lemma keeps_parse_option [keeps_rules]: "keeps (parse_option E x)"
  unfolding parse_option_def parse_env_option_def defconfig_option_def modules_option_def Let_def
  by (rule keeps_rules keeps_updates | simp add: tview_def)+

lemma keeps_parse_prop [keeps_rules]: "keeps (parse_prop E n x t0)"
  unfolding parse_prop_def parse_default_def Let_def
  by (rule keeps_rules keeps_updates | simp add: tview_def)+

lemma keeps_parse_props [keeps_rules]: "keeps (parse_props E n x)"
proof -
  have props: "keeps (props_loop E n x)" by (induction E n x rule: props_loop.induct) (auto intro!: keeps_rules)
  show ?thesis unfolding parse_props_def by (rule keeps_rules keeps_updates props | simp)+
qed

lemma keeps_blocks [keeps_rules]: "keeps (source_files E t)" "keeps (block_error t)" "keeps (end_error k)" "keeps (check_configdefault x)"
  unfolding source_files_def block_error_def end_error_def check_configdefault_def Let_def
  by (rule keeps_rules keeps_updates | simp add: tview_def)+

lemma keeps_the_choice [keeps_rules]: "keeps the_choice"
proof -
  have cr: "keeps (create_choice c)" for c by (simp add: keeps_def within_def create_choice_def Let_def tview_def)
  show ?thesis unfolding the_choice_def by (rule keeps_rules keeps_updates cr | simp)+
qed


section \<open>Adding a node\<close>

type_synonym linkmap = "noderef \<Rightarrow> noderef option \<times> noderef option \<times> noderef option"
type_synonym treestate = "linkmap \<times> nat \<times> noderef"

abbreviation nxt :: "linkmap \<Rightarrow> noderef \<Rightarrow> noderef option" where "nxt L y \<equiv> fst (L y)"
abbreviation lst :: "linkmap \<Rightarrow> noderef \<Rightarrow> noderef option" where "lst L y \<equiv> fst (snd (L y))"
abbreviation par :: "linkmap \<Rightarrow> noderef \<Rightarrow> noderef option" where "par L y \<equiv> snd (snd (L y))"

fun add_node :: "noderef \<Rightarrow> treestate \<Rightarrow> treestate" where
  "add_node p (L, N, r) = (L(N := (None, None, Some p)), Suc N, r)"

definition news :: "noderef \<Rightarrow> noderef pp \<Rightarrow> bool" where
  "news p m = (\<forall>s x s'. m s = Inr (x, s') \<longrightarrow> x = p_new_node s \<and> tview s' = add_node p (tview s))"

definition keeps_with :: "noderef \<Rightarrow> noderef pp \<Rightarrow> bool" where
  "keeps_with x m = (\<forall>s y s'. m s = Inr (y, s') \<longrightarrow> y = x \<and> tview s' = tview s)"

lemma tview_new_node: "tview s = tview s' \<Longrightarrow> p_new_node s = p_new_node s'"
  by (simp add: tview_def)

lemma keeps_with_rules:
  "keeps_with x (ret x)" "keeps m \<Longrightarrow> (\<And>y. keeps_with x (f y)) \<Longrightarrow> keeps_with x (bind m f)"
  unfolding keeps_with_def keeps_def within_def ret_def bind_def by (simp, fastforce split: sum.splits)

lemma parse_error_Inl [simp]: "parse_error msg s \<noteq> Inr r" "trailing_tokens_error s \<noteq> Inr r"
  by (simp_all add: trailing_tokens_error_def parse_error_def bind_def gets_def raise_def)

lemma news_new: "news p (new_menunode item p)"
  by (auto simp: news_def new_menunode_def tview_def links_def set_node_def new_node_def Let_def)

lemma news_fails: "news p (raise e)" "news p (parse_error msg)" "news p trailing_tokens_error"
  by (simp_all add: news_def raise_def)

lemma news_cases:
  "news p a \<Longrightarrow> news p b \<Longrightarrow> news p (if c then a else b)"
  "news p a \<Longrightarrow> (\<And>k. news p (h k)) \<Longrightarrow> (\<And>s. news p (i s)) \<Longrightarrow> (\<And>x. news p (j x)) \<Longrightarrow>
     news p (case t of TNone \<Rightarrow> a | TKw k \<Rightarrow> h k | TSym s \<Rightarrow> i s | TStr x \<Rightarrow> j x)"
  by (auto split: token.split)

lemmas news_rules = news_new news_fails news_cases

lemma news_bind_keeps:
  assumes "keeps m" and "\<And>y. news p (f y)"
  shows "news p (bind m f)"
  unfolding news_def
proof (intro allI impI)
  fix s x s' assume "bind m f s = Inr (x, s')"
  then obtain y s1 where "m s = Inr (y, s1)" "f y s1 = Inr (x, s')" by (rule bind_InrE)
  then show "x = p_new_node s \<and> tview s' = add_node p (tview s)"
    using keepsD [OF assms(1)] assms(2) [of y] tview_new_node unfolding news_def by metis
qed

lemma news_bind_with:
  assumes "news p m" and "\<And>x. keeps_with x (f x)"
  shows "news p (bind m f)"
  unfolding news_def
proof (intro allI impI)
  fix s x s' assume "bind m f s = Inr (x, s')"
  then obtain y s1 where "m s = Inr (y, s1)" "f y s1 = Inr (x, s')" by (rule bind_InrE)
  then show "x = p_new_node s \<and> tview s' = add_node p (tview s)"
    using assms(1) assms(2) [of y] unfolding news_def keeps_with_def by metis
qed

lemma news_parse:
  "news p (parse_config E n t0 p)" "news p (parse_menu E n p)" "news p (parse_comment E n p)" "news p (parse_choice E n p)"
  "news p (parse_if n p)"
  unfolding parse_config_def parse_menu_def parse_comment_def parse_choice_def parse_if_def
  by (rule news_rules keeps_with_rules keeps_rules news_bind_with news_bind_keeps keeps_updates | simp)+

section \<open>Siblings in the making\<close>

text \<open>\<open>Walk.repr\<close> on the links alone; \<open>seg L p h ts\<close>: the siblings \<open>ts\<close> follow \<open>h\<close>, the last one is not linked further yet.\<close>

fun rep :: "linkmap \<Rightarrow> noderef \<Rightarrow> noderef option \<Rightarrow> ntree list \<Rightarrow> bool" where
  "rep L p f [] = (f = None)"
| "rep L p f (NTree x cs # ts) = (f = Some x \<and> par L x = Some p \<and> rep L x (lst L x) cs \<and> rep L p (nxt L x) ts)"

lemma repr_rep: "repr K p f ts = rep (links K) p f ts"
  by (induction K p f ts rule: repr.induct) (auto simp: links_def)

fun seg :: "linkmap \<Rightarrow> noderef \<Rightarrow> noderef \<Rightarrow> ntree list \<Rightarrow> bool" where
  "seg L p h [] = True"
| "seg L p h (NTree x cs # ts) = (nxt L h = Some x \<and> par L x = Some p \<and> rep L x (lst L x) cs \<and> seg L p x ts)"

fun last_node :: "noderef \<Rightarrow> ntree list \<Rightarrow> noderef" where
  "last_node h [] = h"
| "last_node h (NTree x cs # ts) = last_node x ts"

lemma nodes_of_append [simp]: "nodes_of (ts @ us) = nodes_of ts @ nodes_of us"
  by (induction ts rule: nodes_of.induct) auto

lemma seg_append [simp]: "seg L p h (ts @ us) \<longleftrightarrow> seg L p h ts \<and> seg L p (last_node h ts) us"
  by (induction L p h ts rule: seg.induct) auto

lemma last_node_append [simp]: "last_node h (ts @ us) = last_node (last_node h ts) us"
  by (induction h ts rule: last_node.induct) auto

lemma last_node_in: "last_node h ts = h \<or> last_node h ts \<in> set (nodes_of ts)"
  by (induction h ts rule: last_node.induct) auto

lemma rep_cong: "(\<And>y. y \<in> set (nodes_of ts) \<Longrightarrow> L y = L' y) \<Longrightarrow> rep L p f ts = rep L' p f ts"
  by (induction L p f ts rule: rep.induct) auto

lemma seg_cong:
  assumes "seg L p h ts" and "distinct (h # nodes_of ts)"
    and "\<And>y. y \<in> set (h # nodes_of ts) \<Longrightarrow> snd (L' y) = snd (L y) \<and> (y \<noteq> last_node h ts \<longrightarrow> nxt L' y = nxt L y)"
  shows "seg L' p h ts"
  using assms
proof (induction L p h ts rule: seg.induct)
  case (2 L p h x cs ts)
  have l: "last_node x ts = x \<or> last_node x ts \<in> set (nodes_of ts)" by (rule last_node_in)
  have same: "L' y = L y" if "y \<in> set (nodes_of cs)" for y
    using 2(4) [of y] 2(3) l that by (auto intro: prod_eqI)
  have "rep L' x (lst L' x) cs"
    using 2(2) 2(4) [of x] rep_cong [of cs L L' x "lst L x", OF same [symmetric]] by auto
  moreover have "seg L' p x ts" by (rule 2(1)) (use 2 in auto)
  ultimately show ?case using 2(2) 2(3) 2(4) [of h] 2(4) [of x] l by auto
qed simp

lemma seg_close: "seg L p h ts \<Longrightarrow> nxt L (last_node h ts) = None \<Longrightarrow> rep L p (nxt L h) ts"
  by (induction L p h ts rule: seg.induct) auto


section \<open>Blocks\<close>

text \<open>
  From one state to another, siblings were added after \<open>h\<close> below \<open>p\<close>, the last of them being \<open>l\<close>; the
  links of older nodes are the same, except for \<open>next\<close> of \<open>h\<close>.
\<close>

fun block_ok :: "noderef \<Rightarrow> noderef \<Rightarrow> treestate \<Rightarrow> noderef \<Rightarrow> treestate \<Rightarrow> bool" where
  "block_ok p h (L, N, r) l (L', N', r') =
     (\<exists>ts. seg L' p h ts \<and> l = last_node h ts \<and> distinct (nodes_of ts) \<and> set (nodes_of ts) \<subseteq> {N..<N'} \<and>
       N \<le> N' \<and> r' = r \<and> (\<forall>y < N. snd (L' y) = snd (L y) \<and> (y \<noteq> h \<longrightarrow> nxt L' y = nxt L y)))"

abbreviation fresh_from :: "treestate \<Rightarrow> nat" where "fresh_from v \<equiv> fst (snd v)"

lemma fresh_tview [simp]: "fresh_from (tview s) = p_new_node s"
  by (simp add: tview_def)

lemma block_okE:
  assumes "block_ok p h v l v'"
  obtains ts where "seg (fst v') p h ts" "l = last_node h ts" "distinct (nodes_of ts)"
    "set (nodes_of ts) \<subseteq> {fresh_from v..<fresh_from v'}" "fresh_from v \<le> fresh_from v'" "snd (snd v') = snd (snd v)"
    "\<And>y. y < fresh_from v \<Longrightarrow> snd (fst v' y) = snd (fst v y) \<and> (y \<noteq> h \<longrightarrow> nxt (fst v') y = nxt (fst v) y)"
  using assms by (cases v; cases v') auto

lemma block_okI:
  assumes "seg (fst v') p h ts" "l = last_node h ts" "distinct (nodes_of ts)"
    "set (nodes_of ts) \<subseteq> {fresh_from v..<fresh_from v'}" "fresh_from v \<le> fresh_from v'" "snd (snd v') = snd (snd v)"
    "\<And>y. y < fresh_from v \<Longrightarrow> snd (fst v' y) = snd (fst v y) \<and> (y \<noteq> h \<longrightarrow> nxt (fst v') y = nxt (fst v) y)"
  shows "block_ok p h v l v'"
  using assms by (cases v; cases v') auto

lemma block_ok_refl: "block_ok p h v h v"
  by (rule block_okI [where ts = "[]"]) auto

lemma block_ok_fresh: "block_ok p h v l v' \<Longrightarrow> fresh_from v \<le> fresh_from v'"
  by (erule block_okE)

lemma block_ok_last: "block_ok p h v l v' \<Longrightarrow> h < fresh_from v \<Longrightarrow> l < fresh_from v'"
proof (elim block_okE)
  fix ts assume "l = last_node h ts" "set (nodes_of ts) \<subseteq> {fresh_from v..<fresh_from v'}" "fresh_from v \<le> fresh_from v'"
    "h < fresh_from v"
  then show "l < fresh_from v'" using last_node_in [of h ts] by auto
qed

lemma block_ok_trans:
  assumes "block_ok p h v l v1" and "block_ok p l v1 l' v2" and h: "h < fresh_from v"
  shows "block_ok p h v l' v2"
proof -
  obtain ts where ts: "seg (fst v1) p h ts" "l = last_node h ts" "distinct (nodes_of ts)"
      "set (nodes_of ts) \<subseteq> {fresh_from v..<fresh_from v1}" "fresh_from v \<le> fresh_from v1" "snd (snd v1) = snd (snd v)"
      and g1: "\<And>y. y < fresh_from v \<Longrightarrow> snd (fst v1 y) = snd (fst v y) \<and> (y \<noteq> h \<longrightarrow> nxt (fst v1) y = nxt (fst v) y)"
    using block_okE [OF assms(1)] by metis
  obtain us where us: "seg (fst v2) p l us" "l' = last_node l us" "distinct (nodes_of us)"
      "set (nodes_of us) \<subseteq> {fresh_from v1..<fresh_from v2}" "fresh_from v1 \<le> fresh_from v2" "snd (snd v2) = snd (snd v1)"
      and g2: "\<And>y. y < fresh_from v1 \<Longrightarrow> snd (fst v2 y) = snd (fst v1 y) \<and> (y \<noteq> l \<longrightarrow> nxt (fst v2) y = nxt (fst v1) y)"
    using block_okE [OF assms(2)] by metis
  show ?thesis
  proof (rule block_okI [where ts = "ts @ us"])
    have "seg (fst v2) p h ts"
    proof (rule seg_cong [OF ts(1)])
      show "distinct (h # nodes_of ts)" using ts(3,4) h by auto
      fix y assume "y \<in> set (h # nodes_of ts)"
      then have "y < fresh_from v1" using ts(4,5) h by auto
      with g2 [of y] ts(2) show "snd (fst v2 y) = snd (fst v1 y) \<and> (y \<noteq> last_node h ts \<longrightarrow> nxt (fst v2) y = nxt (fst v1) y)"
        by simp
    qed
    then show "seg (fst v2) p h (ts @ us)" using us(1) ts(2) by simp
    show "distinct (nodes_of (ts @ us))" using ts(3,4) us(3,4) by fastforce
    show "snd (fst v2 y) = snd (fst v y) \<and> (y \<noteq> h \<longrightarrow> nxt (fst v2) y = nxt (fst v) y)" if y: "y < fresh_from v" for y
    proof -
      have "y \<noteq> l" if "y \<noteq> h" using last_node_in [of h ts] ts(2,4) y that by auto
      with g1 [OF y] g2 [of y] y ts(5) show ?thesis by auto
    qed
  qed (use ts us in auto)
qed

text \<open>One node, with what has been parsed below it.\<close>

fun set_links :: "noderef \<Rightarrow> (noderef option \<times> noderef option \<times> noderef option \<Rightarrow> noderef option \<times> noderef option \<times> noderef option) \<Rightarrow>
    treestate \<Rightarrow> treestate" where
  "set_links x f (L, N, r) = (L(x := f (L x)), N, r)"

abbreviation link_to :: "noderef option \<Rightarrow> noderef option \<times> noderef option \<times> noderef option \<Rightarrow> noderef option \<times> noderef option \<times> noderef option" where
  "link_to y \<equiv> (\<lambda>w. (y, snd w))"

lemma links_set_node:
  "links (set_node x f K) = (links K)(x := let N = f (k_node K x) in (n_next N, n_list N, n_parent N))"
  by (rule ext) (simp add: links_def set_node_def Let_def)

lemma tview_link_next: "link_next x y s = Inr (u, s') \<Longrightarrow> tview s' = set_links x (link_to y) (tview s)"
  by (auto simp: link_next_def upd_node_def upd_kc_def modify_def tview_def links_set_node Let_def) (simp_all add: links_def)

lemma tview_tilt: "tilt x s = Inr (u, s') \<Longrightarrow> tview s' = set_links x (\<lambda>w. (fst w, fst w, snd (snd w))) (tview s)"
  by (auto simp: tilt_def upd_node_def upd_kc_def modify_def tview_def links_set_node Let_def) (simp_all add: links_def)

lemma block_ok_leaf:
  assumes "h < fresh_from v"
  shows "block_ok p h v (fresh_from v) (set_links h (link_to (Some (fresh_from v))) (add_node p v))"
  using assms by (cases v) (intro block_okI [where ts = "[NTree (fresh_from v) []]"]; auto)

lemma block_ok_end: "h < fresh_from v \<Longrightarrow> block_ok p h v h (set_links h (link_to None) v)"
  by (cases v) (intro block_okI [where ts = "[]"]; auto)

lemma block_ok_node:
  assumes h: "h < fresh_from v" and x: "x = fresh_from v" and b: "block_ok x x (add_node p v) l v2" and l: "nxt (fst v2) l = None"
  shows "block_ok p h v x (set_links h (link_to (Some x)) (set_links x (\<lambda>w. (fst w, fst w, snd (snd w))) v2))"
proof -
  obtain L N r where v: "v = (L, N, r)" by (cases v)
  obtain L2 N2 r2 where v2: "v2 = (L2, N2, r2)" by (cases v2)
  obtain cs where cs: "seg L2 x x cs" "l = last_node x cs" "distinct (nodes_of cs)" "set (nodes_of cs) \<subseteq> {Suc N..<N2}"
      "Suc N \<le> N2" "r2 = r"
      and g: "\<And>y. y < Suc N \<Longrightarrow> snd (L2 y) = snd ((L(N := (None, None, Some p))) y) \<and> (y \<noteq> x \<longrightarrow> nxt L2 y = nxt (L(N := (None, None, Some p))) y)"
    using block_okE [OF b] unfolding v v2 by (auto simp del: fun_upd_apply)
  let ?L = "fst (set_links h (link_to (Some x)) (set_links x (\<lambda>w. (fst w, fst w, snd (snd w))) v2))"
  have hx: "h < x" "x = N" using h x v by auto
  have L: "?L y = (if y = h then (Some x, snd (L2 h)) else if y = x then (nxt L2 x, nxt L2 x, par L2 x) else L2 y)" for y
    using hx by (auto simp: v2 split: prod.splits)
  have "rep L2 x (nxt L2 x) cs" by (rule seg_close [OF cs(1)]) (use l cs(2) v2 in simp)
  moreover have "L2 y = ?L y" if "y \<in> set (nodes_of cs)" for y
  proof -
    have "y \<noteq> h" "y \<noteq> x" using cs(4) that hx by auto
    then show ?thesis by (subst L) simp
  qed
  ultimately have "rep ?L x (nxt L2 x) cs" using rep_cong [of cs L2 ?L] by simp
  moreover have "par L2 x = Some p" using g [of x] hx by simp
  moreover have "?L h = (Some x, snd (L2 h))" by (subst L) simp
  moreover have "?L x = (nxt L2 x, nxt L2 x, par L2 x)" by (subst L) (use hx(1) in simp)
  ultimately have "seg ?L p h [NTree x cs]" by (simp only: seg.simps fst_conv snd_conv simp_thms)
  then show ?thesis
  proof (rule block_okI)
    show "distinct (nodes_of [NTree x cs])" using cs(3,4) hx by auto
    show "set (nodes_of [NTree x cs]) \<subseteq> {fresh_from v..<fresh_from (set_links h (link_to (Some x)) (set_links x (\<lambda>w. (fst w, fst w, snd (snd w))) v2))}"
      using cs(4,5) hx by (auto simp: v v2)
    show "snd (?L y) = snd (fst v y) \<and> (y \<noteq> h \<longrightarrow> nxt ?L y = nxt (fst v) y)" if "y < fresh_from v" for y
      using g [of y] that hx unfolding L by (auto simp: v)
  qed (use cs v v2 in auto)
qed



section \<open>Parsing builds a tree\<close>

lemma end_error_Inl [simp]: "end_error k s \<noteq> Inr r"
  by (simp add: end_error_def bind_def gets_def raise_def)

lemma block_error_Inl [simp]: "block_error t s \<noteq> Inr r"
  by (simp add: block_error_def)

definition builds :: "noderef \<Rightarrow> noderef \<Rightarrow> bool \<Rightarrow> noderef pp \<Rightarrow> bool" where
  "builds p h closed m = (\<forall>s l s'. m s = Inr (l, s') \<longrightarrow> h < p_new_node s \<longrightarrow>
     block_ok p h (tview s) l (tview s') \<and> (closed \<longrightarrow> nxt (fst (tview s')) l = None))"

lemma buildsD:
  assumes "builds p h closed m" and "m s = Inr (l, s')" and "h < p_new_node s"
  shows "block_ok p h (tview s) l (tview s')" and "closed \<Longrightarrow> nxt (fst (tview s')) l = None"
  using assms by (auto simp: builds_def)

lemma builds_keeps:
  assumes "keeps m" and "\<And>y. builds p h closed (f y)"
  shows "builds p h closed (bind m f)"
  unfolding builds_def
proof (intro allI impI)
  fix s l s' assume "bind m f s = Inr (l, s')" and h: "h < p_new_node s"
  then obtain y s1 where 1: "m s = Inr (y, s1)" "f y s1 = Inr (l, s')" by (elim bind_InrE)
  have "tview s1 = tview s" by (rule keepsD [OF assms(1) 1(1)])
  then show "block_ok p h (tview s) l (tview s') \<and> (closed \<longrightarrow> nxt (fst (tview s')) l = None)"
    using buildsD [OF assms(2) 1(2)] h tview_new_node by metis
qed

lemma builds_fails: "(\<And>s r. m s \<noteq> Inr r) \<Longrightarrow> builds p h closed m"
  by (simp add: builds_def)

lemma builds_ret: "builds p h False (ret h)"
  by (simp add: builds_def ret_def block_ok_refl)

lemma builds_trans:
  assumes "builds p h False m" and "\<And>l. builds p l closed (f l)"
  shows "builds p h closed (bind m f)"
  unfolding builds_def
proof (intro allI impI)
  fix s l s' assume "bind m f s = Inr (l, s')" and h: "h < p_new_node s"
  then obtain y s1 where 1: "m s = Inr (y, s1)" "f y s1 = Inr (l, s')" by (elim bind_InrE)
  have b: "block_ok p h (tview s) y (tview s1)" by (rule buildsD(1) [OF assms(1) 1(1) h])
  then have "y < p_new_node s1" using block_ok_last [OF b] h by simp
  from buildsD [OF assms(2) 1(2) this] block_ok_trans [OF b] h
  show "block_ok p h (tview s) l (tview s') \<and> (closed \<longrightarrow> nxt (fst (tview s')) l = None)" by simp
qed

lemma builds_end: "builds p h closed (bind (link_next h None) (\<lambda>_. ret h))"
  unfolding builds_def
proof (intro allI impI)
  fix s l s' assume "bind (link_next h None) (\<lambda>_. ret h) s = Inr (l, s')" and h: "h < p_new_node s"
  then obtain u where 1: "link_next h None s = Inr (u, s')" "l = h" by (elim bind_InrE) (auto simp: ret_def)
  have "tview s' = set_links h (link_to None) (tview s)" by (rule tview_link_next [OF 1(1)])
  moreover have "nxt (fst (set_links h (link_to None) (tview s))) h = None" by (cases "tview s") simp
  ultimately show "block_ok p h (tview s) l (tview s') \<and> (closed \<longrightarrow> nxt (fst (tview s')) l = None)"
    using block_ok_end [of h "tview s" p] h 1(2) by simp
qed

text \<open>A node without a block, and one with a block.\<close>

lemma builds_leaf:
  assumes "news p m"
  shows "builds p h False (bind m (\<lambda>x. bind (link_next h (Some x)) (\<lambda>_. ret x)))"
  unfolding builds_def
proof (intro allI impI)
  fix s l s' assume "bind m (\<lambda>x. bind (link_next h (Some x)) (\<lambda>_. ret x)) s = Inr (l, s')" and h: "h < p_new_node s"
  then obtain x s1 u where 1: "m s = Inr (x, s1)" "link_next h (Some x) s1 = Inr (u, s')" "l = x"
    by (elim bind_InrE) (auto simp: ret_def)
  have "x = p_new_node s" "tview s1 = add_node p (tview s)" using assms 1(1) by (auto simp: news_def)
  then show "block_ok p h (tview s) l (tview s') \<and> (False \<longrightarrow> nxt (fst (tview s')) l = None)"
    using tview_link_next [OF 1(2)] block_ok_leaf [of h "tview s" p] h 1(3) by simp
qed

lemma builds_block:
  assumes "news p m" and "\<And>x. builds x x True (b x)"
  shows "builds p h False (bind m (\<lambda>x. bind (b x) (\<lambda>_. bind (tilt x) (\<lambda>_. bind (link_next h (Some x)) (\<lambda>_. ret x)))))"
  unfolding builds_def
proof (intro allI impI)
  fix s l s' assume "bind m (\<lambda>x. bind (b x) (\<lambda>_. bind (tilt x) (\<lambda>_. bind (link_next h (Some x)) (\<lambda>_. ret x)))) s = Inr (l, s')"
    and h: "h < p_new_node s"
  then obtain x s1 y s2 u s3 w where 1: "m s = Inr (x, s1)" "b x s1 = Inr (y, s2)" "tilt x s2 = Inr (u, s3)"
      "link_next h (Some x) s3 = Inr (w, s')" "l = x"
    by (elim bind_InrE) (auto simp: ret_def)
  have x: "x = p_new_node s" "tview s1 = add_node p (tview s)" using assms(1) 1(1) by (auto simp: news_def)
  then have "x < p_new_node s1" by (cases "tview s1"; cases "tview s") (auto simp: tview_def)
  from buildsD [OF assms(2) 1(2) this] x(2)
  have "block_ok x x (add_node p (tview s)) y (tview s2)" "nxt (fst (tview s2)) y = None" by simp_all
  from block_ok_node [OF _ _ this] h x(1) tview_link_next [OF 1(4)] tview_tilt [OF 1(3)] 1(5)
  show "block_ok p h (tview s) l (tview s') \<and> (False \<longrightarrow> nxt (fst (tview s')) l = None)" by simp
qed


lemma builds_leaf_then:
  assumes "news p m" and "\<And>x. builds p x closed (f x)"
  shows "builds p h closed (bind m (\<lambda>x. bind (link_next h (Some x)) (\<lambda>_. f x)))"
  using builds_trans [OF builds_leaf [OF assms(1)], where ?f = f and ?closed = closed and ?h = h] assms(2) by (simp add: bind_assoc)

lemma builds_block_then:
  assumes "news p m" and "\<And>x. builds x x True (b x)" and "\<And>x. builds p x closed (f x)"
  shows "builds p h closed (bind m (\<lambda>x. bind (b x) (\<lambda>_. bind (tilt x) (\<lambda>_. bind (link_next h (Some x)) (\<lambda>_. f x)))))"
  using builds_trans [OF builds_block [OF assms(1,2)], where ?f = f and ?closed = closed and ?h = h] assms(3) by (simp add: bind_assoc)

lemma builds_files:
  assumes "\<And>h. builds p h False (f h)"
  shows "builds p h False (foldm (\<lambda>x h. bind (enter_file E x) (\<lambda>_. bind (f h) (\<lambda>y. bind leave_file (\<lambda>_. ret y)))) xs h)"
proof (induction xs arbitrary: h)
  case Nil
  then show ?case by (simp add: builds_ret)
next
  case (Cons x xs)
  have "builds p h False (bind (f h) (\<lambda>y. bind leave_file (\<lambda>_. ret y)))"
    by (rule builds_trans [OF assms builds_keeps [OF keeps_files(2) builds_ret]])
  then have "builds p h False (bind (enter_file E x) (\<lambda>_. bind (f h) (\<lambda>y. bind leave_file (\<lambda>_. ret y))))"
    by (rule builds_keeps [OF keeps_files(1)])
  then show ?case unfolding foldm.simps by (rule builds_trans) (rule Cons.IH)
qed

lemma builds_cases:
  "builds p h closed a \<Longrightarrow> builds p h closed b \<Longrightarrow> builds p h closed (if c then a else b)"
  by simp

lemma parse_block_builds: "builds p h (et \<noteq> None) (parse_block E n et p h)"
proof (induction n arbitrary: et p h)
  case 0
  then show ?case by (simp add: builds_def raise_def)
next
  case (Suc n)
  let ?c = "et \<noteq> None"
  let ?again = "parse_block E n et p"
  have leaf: "builds p h ?c (bind m (\<lambda>x. bind (link_next h (Some x)) (\<lambda>_. ?again x)))" if "news p m" for m
    by (rule builds_leaf_then [OF that Suc])
  have nested: "builds x x True (parse_block E n (Some k) x x)" for x k using Suc [of x x "Some k"] by simp
  have block: "builds p h ?c (bind m (\<lambda>x. bind (parse_block E n (Some k) x x) (\<lambda>_. bind (tilt x) (\<lambda>_.
      bind (link_next h (Some x)) (\<lambda>_. ?again x)))))" if "news p m" for m k
    by (rule builds_block_then [OF that nested Suc])
  have sub: "builds p h False (parse_block E n None p h)" for h using Suc [of p h None] by simp
  have source: "builds p h ?c (bind (source_files E t) (\<lambda>xs. bind (foldm (\<lambda>f prev. bind (enter_file E f) (\<lambda>_.
      bind (parse_block E n None p prev) (\<lambda>x. bind leave_file (\<lambda>_. ret x)))) xs h) ?again))" for t
    by (rule builds_keeps [OF keeps_blocks(1) builds_trans [OF builds_files [OF sub] Suc]])
  have main: "builds p h ?c (bind expect_str_and_eol (\<lambda>title. bind (gets (\<lambda>p. k_top_node (p_kc p))) (\<lambda>top.
      bind (upd_node top (\<lambda>N. N\<lparr>n_prompt := Some (title, ky)\<rparr>)) (\<lambda>_. ?again h))))"
    by (rule builds_keeps [OF keeps_tokens(9) builds_keeps [OF keeps_gets builds_keeps [OF keeps_upd_node Suc]]]) simp
  have fin: "builds p h ?c (bind (token_at 1) (\<lambda>t1. if t1 \<noteq> TNone then trailing_tokens_error else
      bind (link_next h None) (\<lambda>_. ret h)))"
    by (rule builds_keeps [OF keeps_tokens(1) builds_cases [OF builds_fails builds_end]]) simp
  have eof: "builds p h ?c (case et of None \<Rightarrow> ret h | Some k \<Rightarrow> end_error k)"
    by (cases et) (simp_all add: builds_ret builds_fails)
  have bad: "builds p h ?c (block_error t)" for t by (simp add: builds_fails)
  show ?case unfolding parse_block.simps Let_def
    by (rule builds_keeps [OF keeps_next_line] builds_cases eof builds_keeps [OF keeps_tokens(1)])+
      (rule builds_cases leaf [OF news_parse(1)] Suc source fin block [OF news_parse(5)] block [OF news_parse(2)]
        leaf [OF news_parse(3)] block [OF news_parse(4)] main bad)+
qed

lemma init_links: "links (init_kconfig E filename) y = (None, None, None)"
  by (simp add: links_def init_kconfig_def new_node_def)

lemma parse_kconfig_tree:
  assumes "parse_kconfig E n filename (init_pstate E filename w) = Inr ((), s)"
  shows "\<exists>ts. menu_tree (p_kc s) ts \<and> distinct (k_top_node (p_kc s) # nodes_of ts) \<and>
    set (nodes_of ts) \<subseteq> {..<p_new_node s}"
proof -
  let ?s = "init_pstate E filename w"
  have v: "tview ?s = (\<lambda>_. (None, None, None), 1, 0)"
    by (auto simp: tview_def init_pstate_def init_links) (simp add: init_kconfig_def)
  have top: "k_top_node (p_kc ?s) = 0" by (simp add: init_pstate_def init_kconfig_def)
  obtain body where body: "e_files E (py_join (e_srctree E) filename) = Some body"
    using assms by (cases "e_files E (py_join (e_srctree E) filename)") (simp_all add: parse_kconfig_def bind_def raise_def)
  obtain l s1 s2 s3 s4 where run: "parse_block E n None 0 0 (?s\<lparr>p_rest := body\<rparr>) = Inr (l, s1)"
      "link_next l None s1 = Inr ((), s2)" "tilt 0 s2 = Inr ((), s3)" "link_next 0 None s3 = Inr ((), s4)"
      "s = s4\<lparr>p_parsing := False\<rparr>"
    using assms unfolding parse_kconfig_def body of_option_simps bind_ret modify_then
    by (elim bind_InrE) (auto simp: gets_def modify_def top)
  have b: "block_ok 0 0 (\<lambda>_. (None, None, None), 1, 0) l (tview s1)"
  proof -
    have "0 < p_new_node (?s\<lparr>p_rest := body\<rparr>)" by (simp add: init_pstate_def)
    from buildsD(1) [OF parse_block_builds run(1) this] show ?thesis by (simp only: tview_update v)
  qed
  obtain L N r where v1: "tview s1 = (L, N, r)" by (cases "tview s1")
  obtain ts where ts: "seg L 0 0 ts" "l = last_node 0 ts" "distinct (nodes_of ts)" "set (nodes_of ts) \<subseteq> {1..<N}" "r = 0"
      "snd (L 0) = (None, None)"
    using b unfolding v1 by auto
  define L1 where "L1 = L(l := (None, snd (L l)))"
  have "seg L1 0 0 ts" by (rule seg_cong [OF ts(1)]) (use ts in \<open>auto simp: L1_def\<close>)
  then have rep1: "rep L1 0 (nxt L1 0) ts" by (rule seg_close) (simp add: ts(2) [symmetric] L1_def)
  have v4: "tview s4 = (L1(0 := (None, nxt L1 0, None)), N, 0)"
    using tview_link_next [OF run(2)] tview_tilt [OF run(3)] tview_link_next [OF run(4)] ts(5,6) v1
    by (simp add: L1_def)
  have "rep (L1(0 := (None, nxt L1 0, None))) 0 (nxt L1 0) ts"
  proof -
    have "L1 y = (L1(0 := (None, nxt L1 0, None))) y" if "y \<in> set (nodes_of ts)" for y using ts(4) that by auto
    then show ?thesis using rep_cong [of ts L1 "L1(0 := (None, nxt L1 0, None))" 0 "nxt L1 0"] rep1 by blast
  qed
  moreover have l: "links (p_kc s) = L1(0 := (None, nxt L1 0, None))" "k_top_node (p_kc s) = 0" "p_new_node s = N"
    using v4 run(5) by (simp_all add: tview_def)
  moreover have "n_list (k_node (p_kc s) 0) = nxt L1 0" "n_parent (k_node (p_kc s) 0) = None" "n_next (k_node (p_kc s) 0) = None"
    using fun_cong [OF l(1), of 0] by (simp_all add: links_def)
  ultimately have "menu_tree (p_kc s) ts" by (simp add: menu_tree_def repr_rep)
  moreover have "distinct (0 # nodes_of ts)" "set (nodes_of ts) \<subseteq> {..<p_new_node s}" using ts(3,4) l(3) by auto
  ultimately show ?thesis using l(2) by auto
qed

end
