(* ===== verification/Running.thy ===== *)
theory Running
  imports LoopCheck
begin

text \<open>
  Running the model on a Kconfig text with the simplifier: \<open>simp add: run_rules cong: run_congs\<close> evaluates
  the parser, the finalization and the checks on concrete texts. The congruence rules keep the simplifier
  out of the rest of a computation until the state it runs in is known. The fuel has to be written with \<open>Suc\<close>.
\<close>

lemma bind_run: "bind m f d = (case m d of Inl e \<Rightarrow> Inl e | Inr (x, d') \<Rightarrow> f x d')"
  by (simp add: bind_def)

lemma ret_run: "ret x d = Inr (x, d)"
  by (simp add: ret_def)

lemma raise_run: "raise e d = Inl e"
  by (simp add: raise_def)

lemma gets_run: "gets f d = Inr (f d, d)"
  by (simp add: gets_def)

lemma modify_run: "modify f d = Inr ((), f d)"
  by (simp add: modify_def)

lemma bind_run_cong: "m = m' \<Longrightarrow> d = d' \<Longrightarrow> bind m f d = bind m' f d'"
  by simp

lemma foldm_run_cong: "xs = xs' \<Longrightarrow> a = a' \<Longrightarrow> d = d' \<Longrightarrow> foldm f xs a d = foldm f xs' a' d'"
  by simp

lemmas run_congs = bind_run_cong foldm_run_cong let_weak_cong

lemmas run_rules = bind_run ret_run raise_run gets_run modify_run Let_def
  token_at_def peek_def advance_def fetch_def check_token_def expect_sym_def expect_nonconst_sym_def expect_eol_def expect_str_and_eol_def expect_expr_and_eol_def parse_cond_def
  seqm_def of_option_def is_constant_def kn_def km_def ky_def make_and_def make_or_def
  standard_sc_expr_str_def is_op_def is_tuple_def bool_tristate_def int_hex_def tri_to_str_def str_to_tri_def
  sym_num_def rel_comp_def py_isspace_def int_isspace_def strip_by_def py_rstrip_def py_lstrip_def
  startswith_def digit_val_def digit_char_def scan_body_def py_uint_def py_int_def is_base_n_def num_str_def
  py_str_def py_hex_def strcmp_def replace_char_def escape_def conf_string_match_def set_match_def
  unset_match_def py_join_def dirname_def quoted_def keyword_table_def get_keyword_def tok_rel_def
  type_token_def def_token_to_type_def string_lex_def source_token_def rel_source_token_def
  obl_source_token_def re_space_def alnum_us_def command_char_def id_char_def lhs_char_def span_end_def
  slice_def command_match_def id_keyword_match_def assignment_rhs_match_def search_from_def macro_special_def
  string_special_def name_special_def find_from_def isspace_def py_strip_def var_match_def line_end_def
  splitlines_def expandtabs_def on_dyn_def warn_text_def warn_here_def nat_str_def here_def parse_error_def
  trailing_tokens_error_def filename_fn_def lineno_fn_def info_fn_def warning_if_fn_def error_if_fn_def
  shell_output_def shell_fn_def lookup_fn_def macro_arg_def add_expansions_def expected_args_def call_fn_def
  expanded_value_w_args_def expand_name_def expand_string_def set_variable_def assign_variable_def
  parse_assignment_def lookup_sym_def lookup_const_sym_def word_token_def string_token_def op_token_def
  next_token_def help_line_def tokenize_def readline_def incr_linenr_def continued_def set_tokens_def
  next_line_def line_after_help_def rel_filename_def the_filename_def enter_file_def leave_file_def upd_kc_def
  set_node_def set_sym_def set_choice_def upd_node_def get_node_def new_menunode_def create_choice_def
  item_name_and_loc_def item_name_def warn_retyped_def set_type_def parse_prompt_def empty_help_def
  indentation_def parse_help_def parse_env_option_def defconfig_option_def modules_option_def parse_option_def
  is_sym_item_def parse_default_def parse_prop_def parse_props_def config_token_def check_configdefault_def
  parse_config_def parse_menu_def parse_comment_def the_choice_def parse_choice_def parse_if_def
  source_files_def block_error_def end_error_def link_next_def tilt_def init_kconfig_def init_pstate_def
  parse_kconfig_def strip_dep_def orig_prompt_def orig_defaults_def orig_selects_def orig_implies_def
  orig_ranges_def sym_orig_defaults_def sym_orig_selects_def sym_orig_implies_def sym_orig_ranges_def
  referenced_def menu_comment_node_str_def ind_def ind_cond_def node_head_def item_type_def prompt_lines_def
  sym_option_lines_def sym_choice_node_str_def node_str_def item_str_def loc_fields_def prompt_fields_def
  summary_def user_value_field_def sym_repr_def choice_repr_def node_repr_def propagate_to_def
  propagate_deps_def add_rev_dep_def add_weak_rev_dep_def add_props_to_sym_def insert_at_def
  insert_default_def finalized_defaults_def finalize_sym_def auto_menu_dep_def is_choice_item_def
  flatten_node_def remove_ifs_def infer_choice_type_def infer_sym_types_def finalize_choice_def
  finish_node_def tilt_menu_def unique_lists_def finalize_def upper_char_def lower_case_char_def isupper_def
  check_target_def check_default_def check_range_def each_def check_sym_def check_sym_sanity_def si_name_def
  warn_select_imply_def check_choice_default_def check_choice_sym_node_def check_choice_sym_def
  check_choice_def check_choice_sanity_def is_num_def undef_sym_message_def check_undef_sym_def
  check_undef_syms_def visit_def item_loc_def loop_item_text_def loop_message_def found_dep_loop_def
  check_dep_loops_def unvisited_def on_kc_def search_loops_def add_dependents_def warn_undef_def
  kconfig_init_def new_symbol_def new_choice_def new_node_def nmy_tri_def init_sym_def locs_def
  sym_name_and_loc_def choice_name_and_loc_def modules_def init_dyn_def kwarn_def prompt_conds_def

lemma run_fuel: "(12 :: nat) = Suc (Suc (Suc (Suc (Suc (Suc (Suc (Suc (Suc (Suc (Suc (Suc 0)))))))))))"
  by simp

lemma ran_unitE:
  assumes "case r of Inl e \<Rightarrow> False | Inr ((x :: unit), s) \<Rightarrow> P s"
  obtains s where "r = Inr ((), s)" "P s"
  using assms by (cases r) auto

text \<open>What remains to be shown of \<open>Kconfig._init\<close> when the steps up to the checks have been run.\<close>

lemma init_accepts:
  assumes "case parse_kconfig E n f (init_pstate E f w) of Inl e \<Rightarrow> False
   | Inr (_, s) \<Rightarrow> (case on_kc (finalize n) s of Inl e \<Rightarrow> False
     | Inr (_, s) \<Rightarrow> (case bind check_sym_sanity (\<lambda>_. check_choice_sanity) s of Inl e \<Rightarrow> False
       | Inr (_, s) \<Rightarrow> p_kc s = K \<and> p_dyn s = d))"
    and "loops_checked K n" and quiet: "\<not> warn_undef E"
  shows "\<exists>s. kconfig_init E n f (init_pstate E f w) = Inr ((), s) \<and> p_kc s = link K \<and> p_dyn s = d"
proof -
  obtain s0 s1 s2 where run: "parse_kconfig E n f (init_pstate E f w) = Inr ((), s0)"
      "on_kc (finalize n) s0 = Inr ((), s1)" "bind check_sym_sanity (\<lambda>_. check_choice_sanity) s1 = Inr ((), s2)"
      "p_kc s2 = K" "p_dyn s2 = d"
    using assms(1) by (elim ran_unitE conjE)
  then obtain s3 where checks: "check_sym_sanity s1 = Inr ((), s3)" "check_choice_sanity s3 = Inr ((), s2)"
    by (elim bind_InrE) auto
  obtain v where v: "check_dep_loops (store_dependents (build_dep K) K) n unvisited = Inr ((), v)"
    using assms(2) unfolding loops_checked_def by blast
  let ?s = "s2\<lparr>p_kc := store_dependents (build_dep K) K\<rparr>"
  have "kconfig_init E n f (init_pstate E f w) = Inr ((), ?s\<lparr>p_kc := add_dependents (p_kc ?s)\<rparr>)"
    unfolding kconfig_init_def upd_kc_def search_loops_def modify_def using quiet run(1,2,4) checks v
    by (simp only: bind_run if_False ret_run sum.case prod.case pstate.simps) simp
  then show ?thesis by (simp add: add_dependents_link run(5))
qed

end
