(* ===== verification/MissedLoop.thy ===== *)
theory MissedLoop
  imports Running
begin

text \<open>
  A Kconfig file whose dependency loop the search does not find: the parser, the finalization and the
  checks accept it, and reading the value of one of its symbols exhausts every call stack.
\<close>

section \<open>The file\<close>

text \<open>
  \<open>T2\<close> is \<open>y\<close> when the choice selects it, which needs the visibility of \<open>T3\<close>, which depends on \<open>W\<close>, which
  depends on \<open>T2\<close>. The search starts with \<open>T1\<close>, finishes \<open>T3\<close> before it comes to \<open>T2\<close>, and does not enter
  the choice again. \<open>lp_base\<close> is the configuration after \<open>_finalize_node\<close>.
\<close>

definition lp_text :: string where
  "lp_text = concat (map (\<lambda>l. l @ [NL])
     [''choice'', ''prompt '' @ [QUOT] @ ''c'' @ [QUOT],
      ''config T1'', ''bool '' @ [QUOT] @ ''1'' @ [QUOT] @ '' if n'',
      ''config T3'', ''bool '' @ [QUOT] @ ''3'' @ [QUOT], ''depends on W'',
      ''config T2'', ''bool '' @ [QUOT] @ ''2'' @ [QUOT],
      ''endchoice'',
      ''config W'', ''bool '' @ [QUOT] @ ''w'' @ [QUOT], ''depends on T2''])"

definition lp_env :: penv where
  "lp_env = \<lparr>e_environ = (\<lambda>_. None), e_files = (\<lambda>f. if f = ''Kconfig'' then Some lp_text else None), e_glob = (\<lambda>_. []),
    e_shell = (\<lambda>_. ([], [])), e_uname_release = [], e_srctree = [], e_srctree_prefix = ''/'', e_functions = (\<lambda>_. None)\<rparr>"

definition nT1 :: symref where "nT1 = SymN ''T1''"
definition nT2 :: symref where "nT2 = SymN ''T2''"
definition nT3 :: symref where "nT3 = SymN ''T3''"
definition nW :: symref where "nW = SymN ''W''"

lemmas lp_names = nT1_def nT2_def nT3_def nW_def

abbreviation wc :: expr where "wc \<equiv> AND (Item (Sym nW)) (Item (Cho 0))"

definition lp_node :: "noderef \<Rightarrow> menunode" where
  "lp_node i =
     (if i = 0 then new_node\<lparr>n_item := NMenu, n_prompt := Some (''Main menu'', ky), n_is_menuconfig := True,
        n_list := Some 1, n_filename := ''Kconfig'', n_linenr := 1\<rparr>
      else if i = 1 then new_node\<lparr>n_item := NCho 0, n_prompt := Some (''c'', ky), n_is_menuconfig := True,
        n_list := Some 2, n_next := Some 5, n_parent := Some 0, n_filename := ''Kconfig'', n_linenr := 1\<rparr>
      else if i = 2 then new_node\<lparr>n_item := NSym nT1, n_prompt := Some (''1'', kn), n_dep := Item (Cho 0),
        n_next := Some 3, n_parent := Some 1, n_filename := ''Kconfig'', n_linenr := 3\<rparr>
      else if i = 3 then new_node\<lparr>n_item := NSym nT3, n_prompt := Some (''3'', wc), n_dep := wc,
        n_next := Some 4, n_parent := Some 1, n_filename := ''Kconfig'', n_linenr := 5\<rparr>
      else if i = 4 then new_node\<lparr>n_item := NSym nT2, n_prompt := Some (''2'', Item (Cho 0)), n_dep := Item (Cho 0),
        n_parent := Some 1, n_filename := ''Kconfig'', n_linenr := 8\<rparr>
      else if i = 5 then new_node\<lparr>n_item := NSym nW, n_prompt := Some (''w'', Item (Sym nT2)), n_dep := Item (Sym nT2),
        n_parent := Some 0, n_filename := ''Kconfig'', n_linenr := 11\<rparr>
      else new_node)"

definition lp_sym :: "symref \<Rightarrow> symbol" where
  "lp_sym s =
     (if s = nT1 then new_symbol\<lparr>s_orig_type := BOOL, s_nodes := [2], s_choice := Some 0, s_direct_dep := Item (Cho 0)\<rparr>
      else if s = nT3 then new_symbol\<lparr>s_orig_type := BOOL, s_nodes := [3], s_choice := Some 0, s_direct_dep := wc\<rparr>
      else if s = nT2 then new_symbol\<lparr>s_orig_type := BOOL, s_nodes := [4], s_choice := Some 0, s_direct_dep := Item (Cho 0)\<rparr>
      else if s = nW then new_symbol\<lparr>s_orig_type := BOOL, s_nodes := [5], s_direct_dep := Item (Sym nT2)\<rparr>
      else init_sym s)"

definition lp_choice :: "choiceref \<Rightarrow> choice" where
  "lp_choice c = (if c = 0 then new_choice\<lparr>c_orig_type := BOOL, c_nodes := [1], c_syms := [nT1, nT3, nT2], c_direct_dep := ky\<rparr>
     else new_choice)"

definition lp_base :: kconfig where
  "lp_base = \<lparr>k_sym = lp_sym, k_choice = lp_choice, k_node = lp_node, k_syms = [''MODULES'', ''T1'', ''T3'', ''W'', ''T2''],
     k_defined_syms = [nT1, nT3, nT2, nW], k_choices = [0], k_unique_defined_syms = [nT1, nT3, nT2, nW],
     k_unique_choices = [0], k_defconfig_list = None, k_config_prefix = ''CONFIG_'', k_config_header = [],
     k_header_header = [], k_top_node = 0\<rparr>"

lemma lp_distinct [simp]: "nT1 \<noteq> nT2" "nT1 \<noteq> nT3" "nT1 \<noteq> nW" "nT2 \<noteq> nT1" "nT2 \<noteq> nT3" "nT2 \<noteq> nW"
  "nT3 \<noteq> nT1" "nT3 \<noteq> nT2" "nT3 \<noteq> nW" "nW \<noteq> nT1" "nW \<noteq> nT2" "nW \<noteq> nT3"
  by (simp_all add: lp_names)

lemma lp_const [simp]: "is_constant nT1 = False" "is_constant nT2 = False" "is_constant nT3 = False" "is_constant nW = False"
  "is_constant (SymC x)" "nmy_tri nT1 = None" "nmy_tri nT2 = None" "nmy_tri nT3 = None" "nmy_tri nW = None"
  by (simp_all add: lp_names is_constant_def nmy_tri_def)

lemma lp_simps [simp]:
  "k_sym lp_base = lp_sym" "k_choice lp_base = lp_choice" "k_node lp_base = lp_node"
  "k_unique_defined_syms lp_base = [nT1, nT3, nT2, nW]" "k_unique_choices lp_base = [0]"
  by (simp_all add: lp_base_def)

lemma lp_sym_simps [simp]:
  "lp_sym nT1 = new_symbol\<lparr>s_orig_type := BOOL, s_nodes := [2], s_choice := Some 0, s_direct_dep := Item (Cho 0)\<rparr>"
  "lp_sym nT3 = new_symbol\<lparr>s_orig_type := BOOL, s_nodes := [3], s_choice := Some 0, s_direct_dep := wc\<rparr>"
  "lp_sym nT2 = new_symbol\<lparr>s_orig_type := BOOL, s_nodes := [4], s_choice := Some 0, s_direct_dep := Item (Cho 0)\<rparr>"
  "lp_sym nW = new_symbol\<lparr>s_orig_type := BOOL, s_nodes := [5], s_direct_dep := Item (Sym nT2)\<rparr>"
  by (simp_all add: lp_sym_def)

lemma lp_prompts [simp]:
  "prompt_conds lp_base [Suc 0] = [ky]" "prompt_conds lp_base [2] = [kn]" "prompt_conds lp_base [3] = [wc]"
  "prompt_conds lp_base [4] = [Item (Cho 0)]" "prompt_conds lp_base [5] = [Item (Sym nT2)]"
  by (simp_all add: prompt_conds_def List.map_filter_simps lp_node_def)

lemma lp_build:
  "build_dep lp_base = (\<lambda>_. [])(Cho 0 := [Sym nT2, Sym nT3, Sym nT1], Sym nT2 := [Sym nW], Sym nW := [Sym nT3])"
  unfolding build_dep_def
  by (rule ext) (simp add: sym_dep_exprs_def choice_dep_exprs_def Let_def lp_choice_def new_symbol_def new_choice_def
    depend_on_item_def add_dependent_def kn_def ky_def)

lemma lp_checked: "loops_checked lp_base 12"
  unfolding loops_checked_def lp_build
  by (simp add: check_dep_loops_def store_dependents_def numeral_eq_Suc unvisited_def bind_def gets_def visit_def modify_def ret_def
    lp_choice_def new_choice_def new_symbol_def)


subsection \<open>Reading \<open>W\<close> never ends\<close>

definition lp_state :: "dyn \<Rightarrow> bool" where
  "lp_state d =
     (cached_tri_val d (SymC ''n'') = Some 0 \<and> cached_tri_val d (SymC ''y'') = Some 2 \<and>
      cached_tri_val d nT2 = None \<and> cached_tri_val d nW = None \<and> cached_vis d nT3 = None \<and> cached_vis d nW = None \<and>
      cached_vis d nT1 \<in> {None, Some 0} \<and> cached_vis d nT2 \<in> {None, Some 2} \<and> ch_cached_vis d 0 \<in> {None, Some 2} \<and>
      ch_cached_selection d 0 = None \<and> ch_user_value d 0 = None \<and> ch_user_selection d 0 = None)"

definition stuck :: "'a ev \<Rightarrow> bool" where
  "stuck m = (\<forall>d. lp_state d \<longrightarrow> m d = Inl RecursionError)"

definition gives :: "'a ev \<Rightarrow> 'a \<Rightarrow> bool" where
  "gives m v = (\<forall>d. lp_state d \<longrightarrow> m d = Inl RecursionError \<or> (\<exists>d'. m d = Inr (v, d') \<and> lp_state d'))"

lemma stuck_raise [simp]: "stuck (raise RecursionError)"
  by (simp add: stuck_def raise_def)

lemma gives_raise [simp]: "gives (raise RecursionError) v"
  by (simp add: gives_def raise_def)

lemma gives_ret [simp]: "gives (ret v) v"
  by (simp add: gives_def ret_def)

lemma stuck_bind: "stuck m \<Longrightarrow> stuck (bind m f)"
  by (simp add: stuck_def bind_def)

lemma gives_then_stuck: "gives m v \<Longrightarrow> stuck (f v) \<Longrightarrow> stuck (bind m f)"
  unfolding gives_def stuck_def bind_def by (metis (no_types, lifting) old.sum.simps(5,6) case_prod_conv)

lemma gives_bind: "gives m v \<Longrightarrow> gives (f v) w \<Longrightarrow> gives (bind m f) w"
  unfolding gives_def bind_def by (metis (no_types, lifting) old.sum.simps(5,6) case_prod_conv)

lemma gives_gets: "(\<And>d. lp_state d \<Longrightarrow> g d = x) \<Longrightarrow> gives (gets g) x"
  by (simp add: gives_def gets_def)

lemma gives_modify: "(\<And>d. lp_state d \<Longrightarrow> lp_state (h d)) \<Longrightarrow> gives (modify h) ()"
  by (simp add: gives_def modify_def)

text \<open>A cached read: the cache holds the value or nothing.\<close>

lemma gives_cached:
  assumes "\<And>d. lp_state d \<Longrightarrow> g d = None \<or> g d = Some v" and "gives m v" and "\<And>d. lp_state d \<Longrightarrow> lp_state (h v d)"
  shows "gives (bind (gets g) (\<lambda>cached. case cached of Some v \<Rightarrow> ret v
    | None \<Rightarrow> bind m (\<lambda>v. bind (modify (h v)) (\<lambda>_. ret v)))) v"
proof -
  have "gives (bind m (\<lambda>v. bind (modify (h v)) (\<lambda>_. ret v))) v"
  proof (rule gives_bind [OF assms(2)])
    show "gives (bind (modify (h v)) (\<lambda>_. ret v)) v"
      by (rule gives_bind [where v = "()"]) (simp_all add: gives_modify assms(3))
  qed
  then show ?thesis using assms(1)
    unfolding gives_def bind_def gets_def ret_def by (metis (no_types, lifting) case_prod_conv old.sum.simps(6) option.simps(4,5))
qed

lemma foldm_Nil_ret: "foldm f [] = ret"
  by (rule ext) simp

lemma lp_prompts_value:
  "prompt_conds lp_base ns = [e] \<Longrightarrow> prompts_value (link lp_base) A ns = expr_value (link lp_base) A e"
  by (simp add: prompts_value_def foldm_Nil_ret)

lemma lp_optional [simp]: "c_is_optional (k_choice (link lp_base) 0) = False"
  by (simp add: link_def store_dependents_def lp_choice_def new_choice_def)

lemma lp_const_tri:
  assumes "x = ''y'' \<and> v = 2 \<or> x = ''n'' \<and> v = 0"
  shows "gives (a_tri (accs (link lp_base) n) (SymC x)) v"
proof (cases n)
  case (Suc k)
  have "gives (gets (\<lambda>d. cached_tri_val d (SymC x))) (Some v)" by (rule gives_gets) (use assms in \<open>auto simp: lp_state_def\<close>)
  then show ?thesis unfolding Suc accs.simps Let_def acc.simps get_tri_def by (rule gives_bind) simp
qed simp

lemma lp_cvis: "gives (a_cvis (accs (link lp_base) n) 0) 2"
proof (cases n)
  case (Suc m)
  have "gives (expr_value (link lp_base) (accs (link lp_base) m) ky) 2" by (simp add: ky_def lp_const_tri)
  then have "gives (choice_visibility (link lp_base) (accs (link lp_base) m) 0) 2"
    unfolding choice_visibility_def by (intro gives_bind [where v = 2]) (simp_all add: lp_choice_def lp_prompts_value)
  then show ?thesis unfolding Suc accs.simps Let_def acc.simps get_cvis_def
    by (intro gives_cached) (auto simp: lp_state_def)
qed simp

lemma lp_mode: "gives (choice_tri_value (link lp_base) (accs (link lp_base) n) 0) 2"
  unfolding choice_tri_value_def
proof (rule gives_bind [OF gives_gets [where x = None]])
  show "ch_user_value d 0 = None" if "lp_state d" for d using that by (simp add: lp_state_def)
qed (simp add: Let_def, rule gives_bind [OF lp_cvis], simp add: choice_type_def lp_choice_def)

lemma lp_vis:
  assumes "s = nT1 \<and> v = 0 \<or> s = nT2 \<and> v = 2"
  shows "gives (a_vis (accs (link lp_base) n) s) v"
proof (cases n)
  case (Suc m)
  let ?A = "accs (link lp_base) m"
  have "gives (prompts_value (link lp_base) ?A (s_nodes (lp_sym s))) v"
    using assms lp_mode [of m] lp_const_tri [of "''n''" 0 m] by (auto simp: lp_prompts_value kn_def)
  then have "gives (sym_visibility (link lp_base) ?A s) v"
    unfolding sym_visibility_def by (intro gives_bind [where v = v]) (use assms in \<open>auto simp: Let_def lp_choice_def\<close>)
  then show ?thesis unfolding Suc accs.simps Let_def acc.simps get_vis_def
    by (intro gives_cached) (use assms in \<open>auto simp: lp_state_def\<close>)
qed simp

lemma lp_uncached:
  assumes "\<And>d. lp_state d \<Longrightarrow> g d = None" and "stuck (f None)"
  shows "stuck (bind (gets g) f)"
  by (rule gives_then_stuck [OF gives_gets [where x = None]]) (use assms in simp_all)

text \<open>Every value on the loop is read by the one before it.\<close>

lemma lp_stuck:
  "stuck (a_tri (accs (link lp_base) n) nW) \<and> stuck (a_vis (accs (link lp_base) n) nW) \<and>
   stuck (a_tri (accs (link lp_base) n) nT2) \<and> stuck (a_sel (accs (link lp_base) n) 0) \<and>
   stuck (a_vis (accs (link lp_base) n) nT3)"
proof (induction n)
  case (Suc n)
  let ?K = "link lp_base" and ?A = "accs (link lp_base) n"
  have tri: "stuck (get_tri ?K ?A s)" if "stuck (tri_compute ?K ?A s)" "s \<in> {nW, nT2}" for s
    unfolding get_tri_def by (rule lp_uncached) (use that in \<open>auto simp: lp_state_def bool_tristate_def intro: stuck_bind\<close>)
  have vis: "stuck (get_vis ?K ?A s)" if "stuck (expr_value ?K ?A e)" "prompt_conds lp_base (s_nodes (lp_sym s)) = [e]"
    "s \<in> {nW, nT3}" for s e
    unfolding get_vis_def sym_visibility_def
    by (rule lp_uncached) (use that in \<open>auto simp: lp_state_def lp_prompts_value intro!: stuck_bind\<close>)
  have W: "stuck (get_tri ?K ?A nW)" by (rule tri) (use Suc in \<open>auto simp: tri_compute_def intro: stuck_bind\<close>)
  have T2: "stuck (get_tri ?K ?A nT2)"
  proof (rule tri)
    have "gives (a_vis ?A nT2) 2" by (rule lp_vis) simp
    then show "stuck (tri_compute ?K ?A nT2)"
      unfolding tri_compute_def by (rule gives_then_stuck) (use Suc in \<open>simp add: stuck_bind\<close>)
  qed simp
  have vW: "stuck (get_vis ?K ?A nW)" by (rule vis [where e = "Item (Sym nT2)"]) (use Suc in simp_all)
  have vT3: "stuck (get_vis ?K ?A nT3)"
    by (rule vis [where e = wc]) (use Suc in \<open>auto intro: stuck_bind\<close>)
  have "stuck (selection_from_defaults ?K ?A 0)"
    unfolding selection_from_defaults_def sel_default_def
    using Suc by (simp add: lp_choice_def new_choice_def bind_assoc)
      (rule gives_then_stuck [OF lp_vis [where v = 0]], simp, simp add: stuck_bind)
  then have "stuck (choice_selection ?K ?A 0)"
    unfolding choice_selection_def
    by (intro gives_then_stuck [OF lp_mode]) (simp, rule lp_uncached, simp_all add: lp_state_def)
  then have "stuck (get_sel ?K ?A 0)"
    unfolding get_sel_def by (intro lp_uncached) (simp_all add: lp_state_def stuck_bind)
  with W T2 vW vT3 show ?case by (simp add: Let_def)
qed simp

lemma lp_init: "lp_state init_dyn"
  by (simp add: lp_state_def init_dyn_def nmy_tri_def str_to_tri_def lp_names)

lemma lp_not_read: "a_tri (accs (link lp_base) n) nW init_dyn = Inl RecursionError"
  using lp_stuck [of n] lp_init by (simp add: stuck_def)

section \<open>The file is accepted\<close>

lemma lp_parses:
  "case parse_kconfig lp_env 12 ''Kconfig'' (init_pstate lp_env ''Kconfig'' True) of Inl e \<Rightarrow> False
   | Inr (_, s) \<Rightarrow> (case on_kc (finalize 12) s of Inl e \<Rightarrow> False
     | Inr (_, s) \<Rightarrow> (case bind check_sym_sanity (\<lambda>_. check_choice_sanity) s of Inl e \<Rightarrow> False
       | Inr (_, s) \<Rightarrow> p_kc s = lp_base \<and> p_dyn s = init_dyn))"
  unfolding run_fuel
  apply (simp add: lp_env_def lp_text_def run_rules cong: run_congs)
  apply (rule kconfig.equality; simp add: lp_base_def lp_names)
    apply (rule ext; simp add: lp_sym_def lp_names init_sym_def nmy_tri_def new_symbol_def ky_def kn_def)
   apply (rule ext; simp add: lp_choice_def lp_names new_choice_def ky_def kn_def)
  apply (rule ext; simp add: lp_node_def lp_names new_node_def ky_def kn_def)
  done

lemma lp_accepted:
  "\<exists>s. kconfig_init lp_env 12 ''Kconfig'' (init_pstate lp_env ''Kconfig'' True) = Inr ((), s) \<and>
    p_kc s = link lp_base \<and> p_dyn s = init_dyn"
  by (rule init_accepts [OF lp_parses lp_checked]) (simp add: warn_undef_def lp_env_def)

end
