(* ===== verification/LoopExamples.thy ===== *)
theory LoopExamples
  imports Running
begin

text \<open>
  Two configurations for the search for dependency loops: \<open>ch_base\<close>, which is the result of parsing and
  finalizing the file \<open>ch_text\<close> and passes, and \<open>cyc_base\<close>, with a loop of two symbols.
\<close>

section \<open>A configuration that passes\<close>

text \<open>\<open>Q\<close> is in an implicit menu of \<open>P\<close>.\<close>

definition ch_text :: string where
  "ch_text = concat (map (\<lambda>l. l @ [NL])
     [''config P'', ''bool '' @ [QUOT] @ ''p'' @ [QUOT],
      ''config Q'', ''bool '' @ [QUOT] @ ''q'' @ [QUOT], ''depends on P'', ''select R'',
      ''config R'', ''bool '' @ [QUOT] @ ''r'' @ [QUOT]])"

definition ch_env :: penv where
  "ch_env = \<lparr>e_environ = (\<lambda>_. None), e_files = (\<lambda>f. if f = ''Kconfig'' then Some ch_text else None), e_glob = (\<lambda>_. []),
    e_shell = (\<lambda>_. ([], [])), e_uname_release = [], e_srctree = [], e_srctree_prefix = ''/'', e_functions = (\<lambda>_. None)\<rparr>"

definition nP :: symref where "nP = SymN ''P''"
definition nQ :: symref where "nQ = SymN ''Q''"
definition nR :: symref where "nR = SymN ''R''"

lemmas ch_names = nP_def nQ_def nR_def

definition ch_node :: "noderef \<Rightarrow> menunode" where
  "ch_node i =
     (if i = 0 then new_node\<lparr>n_item := NMenu, n_prompt := Some (''Main menu'', ky), n_is_menuconfig := True,
        n_list := Some 1, n_filename := ''Kconfig'', n_linenr := 1\<rparr>
      else if i = 1 then new_node\<lparr>n_item := NSym nP, n_prompt := Some (''p'', ky), n_list := Some 2, n_next := Some 3,
        n_parent := Some 0, n_filename := ''Kconfig'', n_linenr := 1\<rparr>
      else if i = 2 then new_node\<lparr>n_item := NSym nQ, n_prompt := Some (''q'', Item (Sym nP)), n_dep := Item (Sym nP),
        n_selects := [(nR, Item (Sym nP))], n_parent := Some 1, n_filename := ''Kconfig'', n_linenr := 3\<rparr>
      else if i = 3 then new_node\<lparr>n_item := NSym nR, n_prompt := Some (''r'', ky),
        n_parent := Some 0, n_filename := ''Kconfig'', n_linenr := 7\<rparr>
      else new_node)"

definition ch_sym :: "symref \<Rightarrow> symbol" where
  "ch_sym s =
     (if s = nP then new_symbol\<lparr>s_orig_type := BOOL, s_nodes := [1], s_direct_dep := ky\<rparr>
      else if s = nQ then new_symbol\<lparr>s_orig_type := BOOL, s_nodes := [2], s_selects := [(nR, Item (Sym nP))],
        s_direct_dep := Item (Sym nP)\<rparr>
      else if s = nR then new_symbol\<lparr>s_orig_type := BOOL, s_nodes := [3],
        s_rev_dep := AND (Item (Sym nQ)) (Item (Sym nP)), s_direct_dep := ky\<rparr>
      else init_sym s)"

definition ch_base :: kconfig where
  "ch_base = \<lparr>k_sym = ch_sym, k_choice = (\<lambda>_. new_choice), k_node = ch_node, k_syms = [''MODULES'', ''P'', ''Q'', ''R''],
     k_defined_syms = [nP, nQ, nR], k_choices = [], k_unique_defined_syms = [nP, nQ, nR], k_unique_choices = [],
     k_defconfig_list = None, k_config_prefix = ''CONFIG_'', k_config_header = [], k_header_header = [], k_top_node = 0\<rparr>"

lemma ch_distinct [simp]: "nP \<noteq> nQ" "nP \<noteq> nR" "nQ \<noteq> nP" "nQ \<noteq> nR" "nR \<noteq> nP" "nR \<noteq> nQ"
  "modules \<noteq> nP" "modules \<noteq> nQ" "modules \<noteq> nR" "nP \<noteq> modules" "nQ \<noteq> modules" "nR \<noteq> modules"
  by (simp_all add: nP_def nQ_def nR_def modules_def)

lemma ch_const [simp]: "is_constant nP = False" "is_constant nQ = False" "is_constant nR = False"
  "SymC x \<noteq> nP" "SymC x \<noteq> nQ" "SymC x \<noteq> nR" "nmy_tri nP = None" "nmy_tri nQ = None" "nmy_tri nR = None" "nmy_tri modules = None"
  by (simp_all add: nP_def nQ_def nR_def modules_def is_constant_def nmy_tri_def)

lemma ch_simps [simp]:
  "k_sym ch_base = ch_sym" "k_choice ch_base = (\<lambda>_. new_choice)" "k_node ch_base = ch_node"
  "k_unique_defined_syms ch_base = [nP, nQ, nR]" "k_unique_choices ch_base = []"
  by (simp_all add: ch_base_def)

lemma ch_sym_simps [simp]:
  "ch_sym nP = new_symbol\<lparr>s_orig_type := BOOL, s_nodes := [1], s_direct_dep := ky\<rparr>"
  "ch_sym nQ = new_symbol\<lparr>s_orig_type := BOOL, s_nodes := [2], s_selects := [(nR, Item (Sym nP))], s_direct_dep := Item (Sym nP)\<rparr>"
  "ch_sym nR = new_symbol\<lparr>s_orig_type := BOOL, s_nodes := [3], s_rev_dep := AND (Item (Sym nQ)) (Item (Sym nP)), s_direct_dep := ky\<rparr>"
  "s \<noteq> nP \<Longrightarrow> s \<noteq> nQ \<Longrightarrow> s \<noteq> nR \<Longrightarrow> ch_sym s = init_sym s"
  by (simp_all add: ch_sym_def)

lemma ch_prompts [simp]:
  "prompt_conds ch_base [Suc 0] = [ky]" "prompt_conds ch_base [2] = [Item (Sym nP)]" "prompt_conds ch_base [3] = [ky]"
  by (simp_all add: prompt_conds_def List.map_filter_simps ch_node_def)

lemma init_sym_fields:
  "s_orig_type (init_sym s) = (if nmy_tri s = None then UNKNOWN else TRISTATE)" "s_nodes (init_sym s) = []"
  "s_defaults (init_sym s) = []" "s_rev_dep (init_sym s) = kn" "s_choice (init_sym s) = None"
  "s_weak_rev_dep (init_sym s) = kn" "s_ranges (init_sym s) = []" "s_direct_dep (init_sym s) = kn"
  by (auto simp: init_sym_def new_symbol_def split: option.split)

lemma ch_tree_ok: "tree_ok ch_base"
  by (auto simp: tree_ok_def init_sym_fields new_choice_def new_symbol_def ch_sym_def)

lemma ch_wf: "wf_kconfig ch_base"
  unfolding wf_kconfig_def
  by (auto simp: init_sym_fields new_choice_def new_symbol_def ch_sym_def bool_tristate_def kn_def)

lemma ch_choiceless: "choiceless ch_base"
  by (auto simp: choiceless_def init_sym_fields ch_sym_def new_symbol_def)

lemma ch_modules: "plain_modules ch_base"
  by (auto simp: plain_modules_def init_sym_fields sym_dep_exprs_def Let_def kn_def)

lemma ch_checked: "loops_checked ch_base 12"
proof -
  have "build_dep ch_base = (\<lambda>_. [])(Sym nP := [Sym nR, Sym nQ], Sym nQ := [Sym nR])"
    unfolding build_dep_def
    by (rule ext) (simp add: sym_dep_exprs_def Let_def new_symbol_def depend_on_item_def add_dependent_def kn_def ky_def)
  then show ?thesis
    unfolding loops_checked_def
    by (simp add: check_dep_loops_def store_dependents_def numeral_eq_Suc unvisited_def bind_def gets_def visit_def modify_def
      ret_def new_symbol_def)
qed

lemma ch_parses:
  "case parse_kconfig ch_env 12 ''Kconfig'' (init_pstate ch_env ''Kconfig'' True) of Inl e \<Rightarrow> False
   | Inr (_, s) \<Rightarrow> (case on_kc (finalize 12) s of Inl e \<Rightarrow> False
     | Inr (_, s) \<Rightarrow> (case bind check_sym_sanity (\<lambda>_. check_choice_sanity) s of Inl e \<Rightarrow> False
       | Inr (_, s) \<Rightarrow> p_kc s = ch_base \<and> p_dyn s = init_dyn))"
  unfolding run_fuel
  apply (simp add: ch_env_def ch_text_def run_rules cong: run_congs)
  apply (rule kconfig.equality; simp add: ch_base_def ch_names)
    apply (rule ext; simp add: ch_sym_def ch_names init_sym_def nmy_tri_def new_symbol_def ky_def kn_def)
   apply (rule ext; simp add: new_choice_def ky_def kn_def)
  apply (rule ext; simp add: ch_node_def ch_names new_node_def ky_def kn_def)
  done

lemma ch_accepted:
  "\<exists>s. kconfig_init ch_env 12 ''Kconfig'' (init_pstate ch_env ''Kconfig'' True) = Inr ((), s) \<and>
    p_kc s = link ch_base \<and> p_dyn s = init_dyn"
  by (rule init_accepts [OF ch_parses ch_checked]) (simp add: warn_undef_def ch_env_def)

section \<open>A loop\<close>

text \<open>Two symbols that depend on each other, for the message of the search.\<close>

definition cyc_base :: kconfig where
  "cyc_base = store_dependents ((\<lambda>_. [])(Sym nP := [Sym nQ], Sym nQ := [Sym nP])) ch_base"

lemma cyc_reported:
  "check_dep_loops cyc_base 5 unvisited = Inl (KconfigError (loop_message cyc_base [Sym nP, Sym nQ])) \<or>
   check_dep_loops cyc_base 5 unvisited = Inl (KconfigError (loop_message cyc_base [Sym nQ, Sym nP]))"
  by (simp add: check_dep_loops_def cyc_base_def store_dependents_def numeral_eq_Suc unvisited_def bind_def gets_def visit_def modify_def ret_def found_dep_loop_def raise_def new_symbol_def)

lemma cyc_closed: "search_closed cyc_base {Sym nP, Sym nQ, Sym nR}"
  unfolding search_closed_def
proof (intro conjI allI impI)
  fix f g assume "call_item f \<in> {Sym nP, Sym nQ, Sym nR}" "makes_call cyc_base f g"
  then show "call_item g \<in> {Sym nP, Sym nQ, Sym nR}"
    by (cases f; cases g) (auto simp: cyc_base_def store_dependents_def new_symbol_def split: if_splits)
qed simp

end
