(* ===== verification/Parsed.thy ===== *)
theory Parsed
  imports Steps
begin

text \<open>
  What parsing makes of the symbols and choices: symbols that are not defined have no nodes, the items of
  the menu nodes are defined, and the properties that \<open>_finalize_node\<close> collects are still empty
  (\<open>parse_kconfig_parsed\<close>). The values and caches are those of a new \<open>Kconfig\<close> object.
\<close>

section \<open>The invariant\<close>

definition init_type :: "symref \<Rightarrow> stype" where
  "init_type s = (if nmy_tri s = None then UNKNOWN else TRISTATE)"

definition plain_sym :: "symbol \<Rightarrow> bool" where
  "plain_sym S = (s_choice S = None \<and> s_rev_dep S = kn \<and> s_defaults S = [] \<and> s_configdefaults S = [] \<and> s_direct_dep S = kn)"

definition item_defined :: "kconfig \<Rightarrow> nitem \<Rightarrow> bool" where
  "item_defined K it =
     (case it of NSym s \<Rightarrow> s \<in> set (k_defined_syms K) | NCho c \<Rightarrow> c \<in> set (k_choices K) | _ \<Rightarrow> True)"

definition parsed :: "kconfig \<Rightarrow> bool" where
  "parsed K =
     ((\<forall>x. item_defined K (n_item (k_node K x))) \<and>
      (\<forall>s \<in> set (k_defined_syms K). \<not> is_constant s) \<and>
      (\<forall>s. plain_sym (k_sym K s)) \<and>
      (\<forall>s. s \<notin> set (k_defined_syms K) \<longrightarrow> s_nodes (k_sym K s) = [] \<and> otype K s = init_type s) \<and>
      (\<forall>c. c_syms (k_choice K c) = [] \<and> c_defaults (k_choice K c) = []) \<and>
      (\<forall>c. c \<notin> set (k_choices K) \<longrightarrow> c_orig_type (k_choice K c) = UNKNOWN \<and> c_nodes (k_choice K c) = []))"

definition quiet_dyn :: "pstate \<Rightarrow> dyn" where
  "quiet_dyn p = (p_dyn p)\<lparr>warnings := []\<rparr>"

text \<open>A step of the parser that works on the item \<open>it\<close> of a menu node.\<close>

definition parse_step :: "nitem \<Rightarrow> pstate \<Rightarrow> pstate \<Rightarrow> bool" where
  "parse_step it p q =
     (quiet_dyn q = quiet_dyn p \<and>
      (parsed (p_kc p) \<and> item_defined (p_kc p) it \<longrightarrow>
         parsed (p_kc q) \<and> set (k_defined_syms (p_kc p)) \<subseteq> set (k_defined_syms (p_kc q)) \<and>
         set (k_choices (p_kc p)) \<subseteq> set (k_choices (p_kc q))))"

definition safe :: "nitem \<Rightarrow> 'a pp \<Rightarrow> bool" where
  "safe it = within (parse_step it)"

lemma item_defined_mono:
  "item_defined K it \<Longrightarrow> set (k_defined_syms K) \<subseteq> set (k_defined_syms K') \<Longrightarrow> set (k_choices K) \<subseteq> set (k_choices K') \<Longrightarrow>
     item_defined K' it"
  by (auto simp: item_defined_def split: nitem.splits)

lemma item_defined_simps [simp]:
  "item_defined K (NSym s) \<longleftrightarrow> s \<in> set (k_defined_syms K)" "item_defined K (NCho c) \<longleftrightarrow> c \<in> set (k_choices K)"
  "item_defined K NMenu" "item_defined K NComment" "item_defined K NIf"
  by (simp_all add: item_defined_def)

lemma parse_step_rel: "step_rel (parse_step it)"
proof
  show "parse_step it p p" for p by (simp add: parse_step_def)
  show "parse_step it p r" if "parse_step it p q" "parse_step it q r" for p q r
    using that item_defined_mono [of "p_kc p" it "p_kc q"] unfolding parse_step_def by auto
qed

interpretation ps: step_rel "parse_step it" for it
  by (rule parse_step_rel)

named_theorems safe_rules \<open>computations that preserve what parsing establishes\<close>

lemmas safe_within [safe_rules] = ps.within_rules [folded safe_def]
lemmas safe_modify = ps.within_modify [folded safe_def]

lemma safeD: "safe it m \<Longrightarrow> m p = Inr (x, q) \<Longrightarrow> parse_step it p q"
  unfolding safe_def by (rule withinD)

lemma item_defined_updates [simp]:
  "item_defined (K\<lparr>k_syms := ss\<rparr>) it = item_defined K it" "item_defined (set_sym s f K) it = item_defined K it"
  "item_defined (set_choice c g K) it = item_defined K it" "item_defined (set_node x h K) it = item_defined K it"
  "item_defined (K\<lparr>k_defconfig_list := l\<rparr>) it = item_defined K it"
  by (cases it; simp add: set_sym_def set_choice_def set_node_def)+

lemma parsed_syms [simp]: "parsed (K\<lparr>k_syms := ss\<rparr>) = parsed K" "parsed (K\<lparr>k_defconfig_list := l\<rparr>) = parsed K"
  by (simp_all add: parsed_def)

lemma safe_steady: "steady m \<Longrightarrow> safe it m"
  unfolding safe_def within_def
proof (intro allI impI)
  fix p x q assume "steady m" "m p = Inr (x, q)"
  then have v: "sview q = sview p" by (rule steadyD)
  then have K: "(p_kc q)\<lparr>k_syms := []\<rparr> = (p_kc p)\<lparr>k_syms := []\<rparr>" and d: "quiet_dyn q = quiet_dyn p"
    by (simp_all add: sview_def quiet_dyn_def)
  have "parsed (p_kc q) = parsed (p_kc p)" "k_defined_syms (p_kc q) = k_defined_syms (p_kc p)" "k_choices (p_kc q) = k_choices (p_kc p)"
    using arg_cong [OF K, of parsed] arg_cong [OF K, of k_defined_syms] arg_cong [OF K, of k_choices] by simp_all
  with d show "parse_step it p q" by (simp add: parse_step_def)
qed

lemmas safe_ops [safe_rules] = steady_ops [THEN safe_steady]

text \<open>The item can be forgotten, and the item of a node is defined.\<close>

lemma safe_any: "safe NMenu m \<Longrightarrow> safe it m"
  unfolding safe_def within_def parse_step_def by (metis item_defined_simps(3))

lemma safe_get_node:
  assumes "\<And>N. safe (n_item N) (f N)"
  shows "safe it (bind (get_node x) f)"
  unfolding safe_def within_def
proof (intro allI impI)
  fix p y q assume "bind (get_node x) f p = Inr (y, q)"
  then have "f (k_node (p_kc p) x) p = Inr (y, q)" by (simp add: get_node_def bind_def gets_def)
  then have "parse_step (n_item (k_node (p_kc p) x)) p q" by (rule safeD [OF assms])
  then show "parse_step it p q" by (auto simp: parse_step_def parsed_def)
qed


section \<open>Updates of the objects\<close>

lemma object_simps [simp]:
  "k_sym (set_sym s f K) t = (if t = s then f (k_sym K s) else k_sym K t)" "k_choice (set_sym s f K) = k_choice K"
  "k_node (set_sym s f K) = k_node K" "k_defined_syms (set_sym s f K) = k_defined_syms K" "k_choices (set_sym s f K) = k_choices K"
  "k_choice (set_choice c g K) e = (if e = c then g (k_choice K c) else k_choice K e)" "k_sym (set_choice c g K) = k_sym K"
  "k_node (set_choice c g K) = k_node K" "k_defined_syms (set_choice c g K) = k_defined_syms K" "k_choices (set_choice c g K) = k_choices K"
  "k_node (set_node x h K) y = (if y = x then h (k_node K x) else k_node K y)" "k_sym (set_node x h K) = k_sym K"
  "k_choice (set_node x h K) = k_choice K" "k_defined_syms (set_node x h K) = k_defined_syms K" "k_choices (set_node x h K) = k_choices K"
  by (simp_all add: set_sym_def set_choice_def set_node_def)

lemma parsed_set_sym:
  assumes "parsed K" and "plain_sym (f (k_sym K s))"
    and "s \<notin> set (k_defined_syms K) \<Longrightarrow> s_nodes (f (k_sym K s)) = s_nodes (k_sym K s) \<and> s_orig_type (f (k_sym K s)) = s_orig_type (k_sym K s)"
  shows "parsed (set_sym s f K)"
  using assms unfolding parsed_def by simp

lemma parsed_set_choice:
  assumes "parsed K" and "c_syms (g (k_choice K c)) = []" "c_defaults (g (k_choice K c)) = []"
    and "c \<notin> set (k_choices K) \<Longrightarrow> c_orig_type (g (k_choice K c)) = UNKNOWN \<and> c_nodes (g (k_choice K c)) = []"
  shows "parsed (set_choice c g K)"
  using assms unfolding parsed_def by simp

lemma parsed_set_node:
  assumes "parsed K" and "item_defined K (n_item (h (k_node K x)))"
  shows "parsed (set_node x h K)"
  using assms unfolding parsed_def by simp

lemma parsed_sym: "parsed K \<Longrightarrow> plain_sym (k_sym K s)"
  by (simp add: parsed_def)

lemma parsed_choice: "parsed K \<Longrightarrow> c_syms (k_choice K c) = [] \<and> c_defaults (k_choice K c) = []"
  by (simp add: parsed_def)

lemma parsed_undefined_choice:
  "parsed K \<Longrightarrow> c \<notin> set (k_choices K) \<Longrightarrow> c_orig_type (k_choice K c) = UNKNOWN \<and> c_nodes (k_choice K c) = []"
  by (simp add: parsed_def)

lemma parsed_node: "parsed K \<Longrightarrow> item_defined K (n_item (k_node K x))"
  by (simp add: parsed_def)

lemma safe_upd_kc:
  assumes "\<And>K. parsed K \<Longrightarrow> item_defined K it \<Longrightarrow> parsed (f K)"
    and "\<And>K. k_defined_syms (f K) = k_defined_syms K" "\<And>K. k_choices (f K) = k_choices K"
  shows "safe it (upd_kc f)"
  unfolding upd_kc_def by (rule safe_modify) (use assms in \<open>auto simp: parse_step_def quiet_dyn_def\<close>)

lemma safe_upd_node:
  assumes "\<And>N. n_item (h N) = n_item N"
  shows "safe it (upd_node x h)"
  unfolding upd_node_def by (rule safe_upd_kc) (simp_all add: parsed_set_node assms parsed_node)

lemma safe_upd_sym:
  assumes "\<And>S. plain_sym S \<Longrightarrow> plain_sym (f S)" and "\<And>S. s_nodes (f S) = s_nodes S \<and> s_orig_type (f S) = s_orig_type S"
  shows "safe it (upd_kc (set_sym s f))"
  by (rule safe_upd_kc) (simp_all add: parsed_set_sym assms parsed_sym)

lemma safe_upd_defined_sym:
  assumes "\<And>S. plain_sym S \<Longrightarrow> plain_sym (f S)"
  shows "safe (NSym s) (upd_kc (set_sym s f))"
  by (rule safe_upd_kc) (auto intro!: parsed_set_sym assms parsed_sym)

lemma safe_upd_choice:
  assumes "\<And>C. c_syms (g C) = c_syms C \<and> c_defaults (g C) = c_defaults C" "\<And>C. c_orig_type (g C) = c_orig_type C \<and> c_nodes (g C) = c_nodes C"
  shows "safe it (upd_kc (set_choice c g))"
proof (rule safe_upd_kc)
  fix K assume p: "parsed K"
  show "parsed (set_choice c g K)"
    by (rule parsed_set_choice [OF p]) (simp_all add: assms parsed_choice [OF p] parsed_undefined_choice [OF p])
qed simp_all

lemma safe_upd_defined_choice:
  assumes "\<And>C. c_syms (g C) = c_syms C \<and> c_defaults (g C) = c_defaults C"
  shows "safe (NCho c) (upd_kc (set_choice c g))"
proof (rule safe_upd_kc)
  fix K assume p: "parsed K" "item_defined K (NCho c)"
  show "parsed (set_choice c g K)"
    by (rule parsed_set_choice [OF p(1)]) (use p(2) in \<open>simp_all add: assms parsed_choice [OF p(1)]\<close>)
qed simp_all

text \<open>New objects.\<close>

lemma safe_define:
  assumes "\<not> is_constant s" and "safe (NSym s) (f ())"
  shows "safe it (bind (upd_kc (\<lambda>K. K\<lparr>k_defined_syms := k_defined_syms K @ [s]\<rparr>)) f)"
  unfolding safe_def within_def
proof (intro allI impI)
  fix p x r assume "bind (upd_kc (\<lambda>K. K\<lparr>k_defined_syms := k_defined_syms K @ [s]\<rparr>)) f p = Inr (x, r)"
  then obtain q where q: "q = p\<lparr>p_kc := (p_kc p)\<lparr>k_defined_syms := k_defined_syms (p_kc p) @ [s]\<rparr>\<rparr>" "f () q = Inr (x, r)"
    by (simp add: upd_kc_def bind_def modify_def)
  have "parse_step (NSym s) q r" by (rule safeD [OF assms(2) q(2)])
  moreover have "parsed (p_kc p) \<Longrightarrow> parsed (p_kc q)"
    using assms(1) item_defined_mono [of "p_kc p" _ "p_kc q"] by (auto simp: q(1) parsed_def)
  moreover have "quiet_dyn q = quiet_dyn p" by (simp add: q(1) quiet_dyn_def)
  ultimately show "parse_step it p r" unfolding parse_step_def by (auto simp: q(1))
qed

lemma safe_add_choice:
  assumes "safe (NCho c) (f ())"
  shows "safe it (bind (upd_kc (\<lambda>K. K\<lparr>k_choices := k_choices K @ [c]\<rparr>)) f)"
  unfolding safe_def within_def
proof (intro allI impI)
  fix p x r assume "bind (upd_kc (\<lambda>K. K\<lparr>k_choices := k_choices K @ [c]\<rparr>)) f p = Inr (x, r)"
  then obtain q where q: "q = p\<lparr>p_kc := (p_kc p)\<lparr>k_choices := k_choices (p_kc p) @ [c]\<rparr>\<rparr>" "f () q = Inr (x, r)"
    by (simp add: upd_kc_def bind_def modify_def)
  have "parse_step (NCho c) q r" by (rule safeD [OF assms q(2)])
  moreover have "parsed (p_kc p) \<Longrightarrow> parsed (p_kc q)"
    using item_defined_mono [of "p_kc p" _ "p_kc q"] by (auto simp: q(1) parsed_def)
  moreover have "quiet_dyn q = quiet_dyn p" by (simp add: q(1) quiet_dyn_def)
  ultimately show "parse_step it p r" unfolding parse_step_def by (auto simp: q(1))
qed

lemma safe_new_menunode: "safe it (new_menunode it parent)"
  unfolding safe_def within_def
  by (auto simp: new_menunode_def Let_def parse_step_def quiet_dyn_def new_node_def intro!: parsed_set_node)

lemma safe_new_menunode_any [safe_rules]:
  "safe it (new_menunode NMenu parent)" "safe it (new_menunode NComment parent)" "safe it (new_menunode NIf parent)"
  unfolding safe_def within_def
  by (auto simp: new_menunode_def Let_def parse_step_def quiet_dyn_def new_node_def intro!: parsed_set_node)

lemma safe_create_choice [safe_rules]: "safe it (create_choice name)"
  unfolding safe_def within_def
  by (auto simp: create_choice_def Let_def parse_step_def quiet_dyn_def new_choice_def intro!: parsed_set_choice)


section \<open>The operations of the parser\<close>

lemmas safe_updates = safe_modify safe_upd_node safe_upd_sym safe_upd_choice

lemma parse_step_dyn [simp]: "parse_step it p (p\<lparr>p_i := i\<rparr>)" "parse_step it p (p\<lparr>p_rest := l\<rparr>)"
  "parse_step it p (p\<lparr>p_parsing := b\<rparr>)" "parse_step it p (p\<lparr>p_reuse_tokens := b\<rparr>)" "parse_step it p (p\<lparr>p_menus := f\<rparr>)"
  "parse_step it p (p\<lparr>p_comments := f\<rparr>)" "parse_step it p (p\<lparr>p_named_choices := g\<rparr>)"
  by (simp_all add: parse_step_def quiet_dyn_def)

lemma safe_set_type: "safe it (set_type it t)"
proof (cases it)
  case (NSym s)
  have "safe (NSym s) (upd_kc (set_sym s (\<lambda>r. r\<lparr>s_orig_type := t\<rparr>)))"
    by (rule safe_upd_defined_sym) (simp add: plain_sym_def)
  then show ?thesis unfolding NSym set_type_def warn_retyped_def by (auto intro!: safe_rules)
next
  case (NCho c)
  have "safe (NCho c) (upd_kc (set_choice c (\<lambda>r. r\<lparr>c_orig_type := t\<rparr>)))" by (rule safe_upd_defined_choice) simp
  then show ?thesis unfolding NCho set_type_def warn_retyped_def by (auto intro!: safe_rules)
qed (simp_all add: set_type_def safe_rules)

lemma safe_get [safe_rules]: "safe it (get_node x)"
  by (simp add: get_node_def safe_rules)

lemma safe_parse_prompt [safe_rules]: "safe it (parse_prompt n x)"
  unfolding parse_prompt_def Let_def
  by (rule safe_rules safe_updates | simp)+

lemma safe_parse_help [safe_rules]: "safe it (parse_help E n x)"
  unfolding parse_help_def empty_help_def Let_def
  by (rule safe_rules safe_updates | simp)+

lemma safe_parse_option [safe_rules]: "safe it (parse_option E x)"
  unfolding parse_option_def parse_env_option_def defconfig_option_def modules_option_def Let_def
  by (rule safe_rules safe_updates | simp add: plain_sym_def | rule safe_upd_kc, simp, simp, simp)+

lemma safe_parse_prop [safe_rules]: "safe it (parse_prop E n x t0)"
  unfolding parse_prop_def parse_default_def Let_def
  by (rule safe_get_node, rule safe_rules) (rule safe_set_type safe_rules safe_updates | simp)+

lemma safe_parse_props [safe_rules]: "safe it (parse_props E n x)"
proof -
  have props: "safe it (props_loop E n x)" by (induction E n x rule: props_loop.induct) (auto intro!: safe_rules)
  show ?thesis unfolding parse_props_def by (rule safe_rules safe_updates props | simp)+
qed

lemma safe_blocks [safe_rules]: "safe it (source_files E t)" "safe it (block_error t)" "safe it (end_error k)" "safe it (check_configdefault x)"
  unfolding source_files_def block_error_def end_error_def check_configdefault_def Let_def
  by (rule safe_rules safe_updates | simp)+

lemma safe_the_choice [safe_rules]: "safe it the_choice"
  unfolding the_choice_def by (rule safe_rules safe_updates | simp)+

lemma safe_parse_config [safe_rules]: "safe it (parse_config E n t0 p)"
proof -
  have s: "safe (NSym s) (upd_kc (set_sym s (\<lambda>r. r\<lparr>s_nodes := s_nodes r @ [x]\<rparr>)))" for s x
    by (rule safe_upd_defined_sym) (simp add: plain_sym_def)
  have guarded: "(c \<Longrightarrow> safe it a) \<Longrightarrow> (\<not> c \<Longrightarrow> safe it b) \<Longrightarrow> safe it (if c then a else b)" for c and a b :: "'a pp" by simp
  show ?thesis unfolding parse_config_def
    by (assumption | rule safe_define safe_new_menunode s guarded safe_rules safe_updates | simp)+
qed

lemma safe_parse_choice [safe_rules]: "safe it (parse_choice E n p)"
proof -
  have c: "safe (NCho c) (upd_kc (set_choice c (\<lambda>r. r\<lparr>c_nodes := c_nodes r @ [x]\<rparr>)))" for c x
    by (rule safe_upd_defined_choice) simp
  show ?thesis unfolding parse_choice_def
    by (rule safe_add_choice safe_new_menunode c safe_rules safe_updates | simp)+
qed

lemma safe_parse_menus [safe_rules]: "safe it (parse_menu E n p)" "safe it (parse_comment E n p)" "safe it (parse_if n p)"
  unfolding parse_menu_def parse_comment_def parse_if_def
  by (rule safe_rules safe_updates | simp)+

lemma safe_links [safe_rules]: "safe it (link_next x y)" "safe it (tilt x)"
  unfolding link_next_def tilt_def by (rule safe_upd_node; simp)+

lemma safe_parse_block [safe_rules]: "safe it (parse_block E n et p h)"
proof (induction n arbitrary: et p h)
  case (Suc n)
  show ?case unfolding parse_block.simps Let_def
    by (rule Suc safe_rules safe_updates | simp)+
qed (simp add: safe_rules)

lemma safe_parse_kconfig: "safe it (parse_kconfig E n filename)"
  unfolding parse_kconfig_def by (rule safe_rules safe_updates | simp)+

lemma parsed_init: "parsed (p_kc (init_pstate E filename w))"
  by (simp add: parsed_def init_pstate_def init_kconfig_def init_sym_def new_symbol_def new_choice_def new_node_def plain_sym_def
    init_type_def split: option.split)

lemma parse_kconfig_parsed:
  assumes "parse_kconfig E n filename (init_pstate E filename w) = Inr ((), s)"
  shows "parsed (p_kc s)" and "quiet_dyn s = quiet_dyn (init_pstate E filename w)"
  using safeD [OF safe_parse_kconfig [of NMenu] assms] parsed_init by (simp_all add: parse_step_def)

end
