(* ===== verification/Collected.thy ===== *)
theory Collected
  imports Parsed Init
begin

text \<open>
  What \<open>_finalize_node\<close> makes of the symbols and choices, and what the checks after it add: the result of
  \<open>Kconfig._init\<close> is well formed (\<open>wf_kconfig\<close>), and so is its tree (\<open>tree_ok\<close>) as far as
  choices allow (\<open>kconfig_init_wf\<close>).
\<close>

section \<open>Reverse dependencies\<close>

text \<open>Every summand starts with the selecting symbol.\<close>

definition selected_by :: "expr \<Rightarrow> bool" where
  "selected_by e = (\<forall>e' \<in> set (split_expr e OpOR). \<exists>a r. split_expr e' OpAND = Item (Sym a) # r)"

lemma selected_item [simp]: "selected_by (Item (Sym s))"
  by (simp add: selected_by_def)

lemma selected_kn [simp]: "selected_by kn" "selected_by ky"
  by (simp_all add: kn_def ky_def)

lemma selected_make_or: "selected_by a \<Longrightarrow> selected_by b \<Longrightarrow> selected_by (make_or a b)"
  by (auto simp: make_or_def selected_by_def kn_def ky_def)

lemma selected_make_and: "\<not> is_constant s \<Longrightarrow> selected_by (make_and (Item (Sym s)) c)"
  by (auto simp: make_and_def selected_by_def kn_def ky_def is_constant_def)

section \<open>The invariant\<close>

definition untouched :: "symref \<Rightarrow> symbol \<Rightarrow> bool" where
  "untouched s S = (s_nodes S = [] \<and> s_orig_type S = init_type s \<and> s_choice S = None \<and> s_defaults S = [] \<and>
     s_configdefaults S = [] \<and> s_direct_dep S = kn)"

definition untouched_choice :: "choice \<Rightarrow> bool" where
  "untouched_choice C = (c_orig_type C = UNKNOWN \<and> c_nodes C = [] \<and> c_syms C = [] \<and> c_defaults C = [])"

definition collected :: "kconfig \<Rightarrow> bool" where
  "collected K =
     ((\<forall>x. item_defined K (n_item (k_node K x))) \<and>
      (\<forall>s \<in> set (k_defined_syms K). \<not> is_constant s) \<and>
      (\<forall>s. s \<notin> set (k_defined_syms K) \<longrightarrow> untouched s (k_sym K s)) \<and>
      (\<forall>s. selected_by (s_rev_dep (k_sym K s))) \<and>
      (\<forall>s c. s_choice (k_sym K s) = Some c \<longrightarrow> s \<in> set (c_syms (k_choice K c))) \<and>
      (\<forall>c. set (c_syms (k_choice K c)) \<subseteq> set (k_defined_syms K)) \<and>
      (\<forall>c. c \<notin> set (k_choices K) \<longrightarrow> untouched_choice (k_choice K c)))"

lemma collectedD:
  assumes "collected K"
  shows "item_defined K (n_item (k_node K x))" and "s \<in> set (k_defined_syms K) \<Longrightarrow> \<not> is_constant s"
    and "s \<notin> set (k_defined_syms K) \<Longrightarrow> untouched s (k_sym K s)" and "selected_by (s_rev_dep (k_sym K s))"
    and "s_choice (k_sym K s) = Some c \<Longrightarrow> s \<in> set (c_syms (k_choice K c))"
    and "set (c_syms (k_choice K c)) \<subseteq> set (k_defined_syms K)" and "c \<notin> set (k_choices K) \<Longrightarrow> untouched_choice (k_choice K c)"
  using assms unfolding collected_def by blast+

lemma parsed_collected: "parsed K \<Longrightarrow> collected K"
  unfolding parsed_def collected_def plain_sym_def untouched_def untouched_choice_def by auto

text \<open>A step of the finalization that works on some items.\<close>

definition fin_step :: "nitem list \<Rightarrow> kconfig \<Rightarrow> kconfig \<Rightarrow> bool" where
  "fin_step I K K' =
     (collected K \<and> list_all (item_defined K) I \<longrightarrow>
        collected K' \<and> k_defined_syms K' = k_defined_syms K \<and> k_choices K' = k_choices K)"

definition collects :: "nitem list \<Rightarrow> 'a kp \<Rightarrow> bool" where
  "collects I = within (fin_step I)"

lemma item_defined_same:
  "k_defined_syms K' = k_defined_syms K \<Longrightarrow> k_choices K' = k_choices K \<Longrightarrow> item_defined K' = item_defined K"
  by (rule ext) (simp add: item_defined_def cong: nitem.case_cong)

interpretation fs: step_rel "fin_step I" for I
proof
  show "fin_step I K K" for K by (simp add: fin_step_def)
  show "fin_step I K M" if "fin_step I K L" "fin_step I L M" for K L M
    using that item_defined_same [of L K] unfolding fin_step_def by auto
qed

named_theorems collects_rules \<open>computations of the finalization\<close>

lemmas collects_within [collects_rules] = fs.within_rules [folded collects_def]
lemmas collects_modify = fs.within_modify [folded collects_def]

lemma collectsD: "collects I m \<Longrightarrow> m K = Inr (x, K') \<Longrightarrow> fin_step I K K'"
  unfolding collects_def by (rule withinD)

lemma collects_node:
  assumes "\<And>N. collects (n_item N # I) (f N)"
  shows "collects I (bind (node x) f)"
  unfolding collects_def within_def
proof (intro allI impI)
  fix K y K' assume "bind (node x) f K = Inr (y, K')"
  then have "f (k_node K x) K = Inr (y, K')" by (simp add: bind_def gets_def)
  then have "fin_step (n_item (k_node K x) # I) K K'" by (rule collectsD [OF assms])
  then show "fin_step I K K'" by (auto simp: fin_step_def collectedD(1))
qed

lemma collects_more: "collects I m \<Longrightarrow> set I \<subseteq> set J \<Longrightarrow> collects J m"
  unfolding collects_def within_def fin_step_def list_all_iff by blast

lemma collects_drop: "collects I m \<Longrightarrow> collects (i # I) m"
  by (erule collects_more) auto

section \<open>Updates\<close>

lemma collects_update:
  assumes "\<And>K. collected K \<Longrightarrow> list_all (item_defined K) I \<Longrightarrow>
    collected (f K) \<and> k_defined_syms (f K) = k_defined_syms K \<and> k_choices (f K) = k_choices K"
  shows "collects I (modify f)"
  by (rule collects_modify) (use assms in \<open>simp add: fin_step_def\<close>)

lemma collected_set_node:
  assumes "collected K" and "item_defined K (n_item (h (k_node K x)))"
  shows "collected (set_node x h K)"
  using assms unfolding collected_def by simp

lemma collects_mod_node:
  assumes "\<And>N. n_item (h N) = n_item N"
  shows "collects I (mod_node x h)"
  by (rule collects_update) (simp add: collected_set_node assms collectedD(1))

lemma collected_set_sym:
  assumes "collected K" and "selected_by (s_rev_dep (f (k_sym K s)))" and "s \<notin> set (k_defined_syms K) \<Longrightarrow> untouched s (f (k_sym K s))"
    and "\<And>c. s_choice (f (k_sym K s)) = Some c \<Longrightarrow> s \<in> set (c_syms (k_choice K c))"
  shows "collected (set_sym s f K)"
  using assms unfolding collected_def by simp

lemma collected_set_choice:
  assumes "collected K" and "set (c_syms (k_choice K c)) \<subseteq> set (c_syms (g (k_choice K c)))"
    and "set (c_syms (g (k_choice K c))) \<subseteq> set (k_defined_syms K)"
    and "c \<notin> set (k_choices K) \<Longrightarrow> untouched_choice (g (k_choice K c))"
  shows "collected (set_choice c g K)"
  using assms unfolding collected_def by auto


section \<open>The operations of the finalization\<close>

lemma collects_propagate [collects_rules]: "collects I (propagate_deps n x v)"
proof -
  have "n_item (propagate_to b v N) = n_item N" for b N by (simp add: propagate_to_def Let_def split: nitem.split)
  then have "collects I (propagate_loop n b v cur)" for b cur
    by (induction n b v cur rule: propagate_loop.induct) (auto intro!: collects_rules collects_mod_node)
  then show ?thesis unfolding propagate_deps_def by (auto intro!: collects_rules)
qed

lemma collected_add_rev_dep:
  assumes "collected K" and "\<not> is_constant s"
  shows "collected (add_rev_dep s d K) \<and> k_defined_syms (add_rev_dep s d K) = k_defined_syms K \<and>
    k_choices (add_rev_dep s d K) = k_choices K"
proof (cases d)
  case (Pair t c)
  have "collected (set_sym t (\<lambda>r. r\<lparr>s_rev_dep := make_or (s_rev_dep r) (make_and (Item (Sym s)) c)\<rparr>) K)"
    by (rule collected_set_sym [OF assms(1)])
      (use assms collectedD [OF assms(1)] in \<open>auto simp: selected_make_or selected_make_and untouched_def\<close>)
  then show ?thesis by (simp add: Pair add_rev_dep_def)
qed

lemma collected_add_weak_rev_dep:
  assumes "collected K"
  shows "collected (add_weak_rev_dep s d K) \<and> k_defined_syms (add_weak_rev_dep s d K) = k_defined_syms K \<and>
    k_choices (add_weak_rev_dep s d K) = k_choices K"
proof (cases d)
  case (Pair t c)
  have "collected (set_sym t (\<lambda>r. r\<lparr>s_weak_rev_dep := make_or (s_weak_rev_dep r) (make_and (Item (Sym s)) c)\<rparr>) K)"
    by (rule collected_set_sym [OF assms(1)]) (use collectedD [OF assms(1)] in \<open>auto simp: untouched_def\<close>)
  then show ?thesis by (simp add: Pair add_weak_rev_dep_def)
qed

lemma collected_fold:
  assumes "\<And>x K. collected K \<Longrightarrow> collected (f x K) \<and> k_defined_syms (f x K) = k_defined_syms K \<and> k_choices (f x K) = k_choices K"
    and "collected K"
  shows "collected (fold f xs K) \<and> k_defined_syms (fold f xs K) = k_defined_syms K \<and> k_choices (fold f xs K) = k_choices K"
  using assms(2) by (induction xs arbitrary: K) (simp_all add: assms(1))

lemma collects_add_props: "NSym s \<in> set I \<Longrightarrow> collects I (modify (add_props_to_sym s N))"
proof (rule collects_update)
  fix K assume K: "collected K" "list_all (item_defined K) I" and I: "NSym s \<in> set I"
  then have s: "s \<in> set (k_defined_syms K)" by (force simp: list_all_iff)
  note c = collectedD [OF K(1)]
  have conf: "collected (set_sym s (\<lambda>r. r\<lparr>s_configdefaults := s_configdefaults r @ [(length (s_defaults r), n_defaults N)]\<rparr>) K)"
    by (rule collected_set_sym [OF K(1)]) (use s c in auto)
  let ?K = "set_sym s (\<lambda>r. r\<lparr>s_direct_dep := make_or (s_direct_dep r) (n_dep N),
      s_defaults := s_defaults r @ n_defaults N, s_ranges := s_ranges r @ n_ranges N,
      s_selects := s_selects r @ n_selects N, s_implies := s_implies r @ n_implies N\<rparr>) K"
  have K': "collected ?K" by (rule collected_set_sym [OF K(1)]) (use s c in auto)
  have ns: "\<not> is_constant s" using c(2) s by blast
  note sel = collected_fold [of "add_rev_dep s" ?K "n_selects N", OF collected_add_rev_dep [OF _ ns] K']
  note imp = collected_fold [of "add_weak_rev_dep s" "fold (add_rev_dep s) (n_selects N) ?K" "n_implies N",
      OF collected_add_weak_rev_dep conjunct1 [OF sel]]
  show "collected (add_props_to_sym s N K) \<and> k_defined_syms (add_props_to_sym s N K) = k_defined_syms K \<and>
      k_choices (add_props_to_sym s N K) = k_choices K"
    unfolding add_props_to_sym_def using conf sel imp by (simp split: if_split)
qed

lemma collects_flatten [collects_rules]: "collects I (flatten n cur)"
proof -
  have r: "collects I (reparent n p x)" for n p x
  proof (induction n arbitrary: x)
    case (Suc n)
    then show ?case by (auto intro!: collects_rules collects_mod_node)
  qed (simp add: collects_rules)
  show ?thesis
    by (induction n cur rule: flatten.induct)
      (auto simp: flatten_node_def intro!: collects_rules collects_mod_node r)
qed

lemma collects_remove_ifs [collects_rules]: "collects I (remove_ifs n x)"
proof -
  have s: "collects I (skip_ifs n cur)" for n cur
  proof (induction n arbitrary: cur)
    case (Suc n)
    then show ?case by (cases cur) (auto intro!: collects_rules)
  qed (simp add: collects_rules)
  have "collects I (remove_ifs_loop n cur)" for cur
    by (induction n cur rule: remove_ifs_loop.induct) (auto intro!: collects_rules collects_mod_node s)
  then show ?thesis unfolding remove_ifs_def by (auto intro!: collects_rules collects_mod_node s)
qed

lemma collects_add_choice_syms: "NCho c \<in> set I \<Longrightarrow> collects I (add_choice_syms n c cur)"
proof (induction n c cur arbitrary: I rule: add_choice_syms.induct)
  case (3 n c x)
  have step: "collects (NSym s # I) (modify (set_choice c (\<lambda>r. r\<lparr>c_syms := c_syms r @ [s]\<rparr>) \<circ> set_sym s (\<lambda>r. r\<lparr>s_choice := Some c\<rparr>)))" for s
  proof (rule collects_update)
    fix K assume K: "collected K" "list_all (item_defined K) (NSym s # I)"
    then have d: "s \<in> set (k_defined_syms K)" "c \<in> set (k_choices K)" using 3 by (force simp: list_all_iff)+
    let ?g = "set_choice c (\<lambda>r. r\<lparr>c_syms := c_syms r @ [s]\<rparr>)" and ?f = "set_sym s (\<lambda>r. r\<lparr>s_choice := Some c\<rparr>)"
    have comm: "?g (?f K) = ?f (?g K)" by (simp add: set_choice_def set_sym_def)
    have g: "collected (?g K)" by (rule collected_set_choice [OF K(1)]) (use d collectedD [OF K(1)] in auto)
    have "collected (?f (?g K))" by (rule collected_set_sym [OF g]) (use d collectedD [OF K(1)] in auto)
    then show "collected ((?g \<circ> ?f) K) \<and> k_defined_syms ((?g \<circ> ?f) K) = k_defined_syms K \<and> k_choices ((?g \<circ> ?f) K) = k_choices K"
      by (simp add: comm)
  qed
  have a: "collects (n_item N # I) (case n_item N of
      NSym s \<Rightarrow> modify (set_choice c (\<lambda>r. r\<lparr>c_syms := c_syms r @ [s]\<rparr>) \<circ> set_sym s (\<lambda>r. r\<lparr>s_choice := Some c\<rparr>))
    | _ \<Rightarrow> ret ())" for N :: menunode
    using step by (cases "n_item N") (simp_all add: collects_rules)
  have b: "collects (n_item N # I) (add_choice_syms n c (n_next N))" for N :: menunode
    by (rule 3(1)) (use 3(2) in simp)
  show ?case unfolding add_choice_syms.simps by (intro collects_node collects_within(4) a b)
qed (simp_all add: collects_rules)


lemma collected_infer_types:
  assumes K: "collected K" and c: "c \<in> set (k_choices K)"
  shows "collected ((infer_sym_types c \<circ> infer_choice_type c) K) \<and>
    k_defined_syms ((infer_sym_types c \<circ> infer_choice_type c) K) = k_defined_syms K \<and>
    k_choices ((infer_sym_types c \<circ> infer_choice_type c) K) = k_choices K"
proof -
  let ?good = "\<lambda>L. collected L \<and> k_defined_syms L = k_defined_syms K \<and> k_choices L = k_choices K"
  have ty: "collected (set_choice c (\<lambda>r. r\<lparr>c_orig_type := t\<rparr>) K)" for t
    by (rule collected_set_choice [OF K]) (use c collectedD(6) [OF K] in auto)
  then have 1: "?good (infer_choice_type c K)" using K by (simp add: infer_choice_type_def split: option.split)
  have "?good (fold (\<lambda>s K. if otype K s \<noteq> UNKNOWN then K else set_sym s (\<lambda>r. r\<lparr>s_orig_type := c_orig_type (k_choice K c)\<rparr>) K) ss L)"
    if "?good L" "set ss \<subseteq> set (k_defined_syms K)" for ss L
    using that
  proof (induction ss arbitrary: L)
    case (Cons s ss)
    have "collected (set_sym s (\<lambda>r. r\<lparr>s_orig_type := t\<rparr>) L)" for t
      by (rule collected_set_sym) (use Cons.prems collectedD [of L] in auto)
    then show ?case using Cons by simp
  qed simp
  moreover have "set (c_syms (k_choice (infer_choice_type c K) c)) \<subseteq> set (k_defined_syms K)"
    using 1 collectedD(6) [of "infer_choice_type c K" c] by simp
  ultimately show ?thesis using 1 by (simp add: infer_sym_types_def)
qed

lemma collects_finalize_choice: "NCho c \<in> set I \<Longrightarrow> collects I (finalize_choice n c x)"
proof -
  assume c: "NCho c \<in> set I"
  have "collects I (modify (infer_sym_types c \<circ> infer_choice_type c))"
    by (rule collects_update) (use c collected_infer_types in \<open>force simp: list_all_iff\<close>)
  then show ?thesis unfolding finalize_choice_def by (intro collects_rules collects_add_choice_syms c)
qed

lemma collects_finish_node [collects_rules]: "collects I (finish_node n x)"
proof -
  have ch: "collects (NCho c # I) (modify (set_choice c (\<lambda>r. r\<lparr>c_direct_dep := make_or (c_direct_dep r) (n_dep N),
      c_defaults := c_defaults r @ n_defaults N\<rparr>)))" for c and N :: menunode
  proof (rule collects_update)
    fix K assume K: "collected K" "list_all (item_defined K) (NCho c # I)"
    have "collected (set_choice c (\<lambda>r. r\<lparr>c_direct_dep := make_or (c_direct_dep r) (n_dep N), c_defaults := c_defaults r @ n_defaults N\<rparr>) K)"
      by (rule collected_set_choice [OF K(1)]) (use K(2) collectedD(6) [OF K(1)] in auto)
    then show "collected (set_choice c (\<lambda>r. r\<lparr>c_direct_dep := make_or (c_direct_dep r) (n_dep N), c_defaults := c_defaults r @ n_defaults N\<rparr>) K) \<and>
        k_defined_syms (set_choice c (\<lambda>r. r\<lparr>c_direct_dep := make_or (c_direct_dep r) (n_dep N), c_defaults := c_defaults r @ n_defaults N\<rparr>) K) = k_defined_syms K \<and>
        k_choices (set_choice c (\<lambda>r. r\<lparr>c_direct_dep := make_or (c_direct_dep r) (n_dep N), c_defaults := c_defaults r @ n_defaults N\<rparr>) K) = k_choices K"
      by simp
  qed
  have last: "collects (n_item N # I) (case n_item N of
      NCho c \<Rightarrow> bind (modify (set_choice c (\<lambda>r. r\<lparr>c_direct_dep := make_or (c_direct_dep r) (n_dep N), c_defaults := c_defaults r @ n_defaults N\<rparr>)))
        (\<lambda>_. finalize_choice n c x)
    | _ \<Rightarrow> ret ())" for N :: menunode
    by (cases "n_item N") (auto intro!: collects_within(4) [OF ch] collects_finalize_choice collects_rules)
  have inner: "collects I (if n_list N \<noteq> None then bind (flatten n (n_list N)) (\<lambda>_. remove_ifs n x) else ret ())" for N :: menunode
    by (auto intro!: collects_rules)
  show ?thesis unfolding finish_node_def
    by (intro collects_within(4) collects_within(3) inner collects_node last)
qed

lemma collects_tilt_menu [collects_rules]: "collects I (tilt_menu x cur)"
  unfolding tilt_menu_def by (rule collects_rules collects_mod_node | simp)+

lemma collects_finalize_node:
  "collects I (finalize_node n x v)" "collects I (implicit_menu n x cur v)" "collects I (finalize_children n c v)"
proof (induction n arbitrary: I x cur c v)
  case (Suc n)
  have body: "collects (n_item N # I) (case n_item N of
      NSym s \<Rightarrow> bind (modify (add_props_to_sym s N)) (\<lambda>_. bind (implicit_menu n x x v) (tilt_menu x))
    | item \<Rightarrow> if n_list N = None then ret ()
        else let v' = if item = NMenu then make_and v (n_visibility N) else v
          in bind (propagate_deps n x v') (\<lambda>_. finalize_children n (n_list N) v'))" for N :: menunode and I x v
    by (cases "n_item N") (auto simp: Let_def intro!: collects_rules collects_add_props Suc)
  { case 1 show ?case unfolding finalize_node.simps
      by (rule collects_node, rule collects_within(4), rule body, rule collects_rules) }
  { case 2 show ?case unfolding implicit_menu.simps
      by (auto intro!: collects_rules collects_mod_node Suc split: option.split) }
  { case 3 show ?case by (cases c) (auto intro!: collects_rules Suc) }
qed (simp_all add: collects_rules)


section \<open>All of the finalization\<close>

lemma collected_finalize_sym:
  assumes "collected K"
  shows "collected (finalize_sym s K) \<and> k_defined_syms (finalize_sym s K) = k_defined_syms K \<and> k_choices (finalize_sym s K) = k_choices K"
proof -
  have "collected (finalize_sym s K)" unfolding finalize_sym_def
    by (rule collected_set_sym [OF assms])
      (use collectedD [OF assms] in \<open>auto simp: untouched_def finalized_defaults_def\<close>)
  then show ?thesis by (simp add: finalize_sym_def)
qed

lemma item_defined_unique [simp]:
  "item_defined (K\<lparr>k_unique_defined_syms := a, k_unique_choices := b\<rparr>) it = item_defined K it"
  by (cases it) simp_all

lemma finalize_collected:
  assumes "finalize n K = Inr ((), K')" and "parsed K"
  shows "collected K'" and "set (k_unique_defined_syms K') = set (k_defined_syms K')" and "set (k_unique_choices K') = set (k_choices K')"
proof -
  obtain K1 where K1: "finalize_node n (k_top_node K) ky K = Inr ((), K1)"
      "K' = unique_lists (fold finalize_sym (map SymN (k_syms K1)) K1)"
    using assms(1) unfolding finalize_def by (elim bind_InrE) (simp add: gets_def modify_def)
  have "fin_step [] K K1" by (rule collectsD [OF collects_finalize_node(1) K1(1)])
  then have "collected K1" using parsed_collected [OF assms(2)] by (simp add: fin_step_def)
  then have "collected (fold finalize_sym (map SymN (k_syms K1)) K1)"
    by (intro collected_fold [THEN conjunct1] collected_finalize_sym)
  then show "collected K'" unfolding K1(2) unique_lists_def by (simp add: collected_def)
  show "set (k_unique_defined_syms K') = set (k_defined_syms K')" "set (k_unique_choices K') = set (k_choices K')"
    by (simp_all add: K1(2) unique_lists_def set_ordered_unique_aux)
qed

section \<open>The checks\<close>

text \<open>Loops over symbols whose bodies are steady: every body has run, on the same objects.\<close>

lemma steady_each [steady_rules]: "(\<And>x. steady (f x)) \<Longrightarrow> steady (each f xs)"
  unfolding each_def by (rule steady_within)

lemma each_ran:
  assumes "each f xs p = Inr ((), q)" and "\<And>x. steady (f x)" and "x \<in> set xs"
  shows "\<exists>p1 q1. sview p1 = sview p \<and> f x p1 = Inr ((), q1)"
  using assms(1,3)
proof (induction xs arbitrary: p)
  case (Cons y ys)
  obtain p1 where p1: "f y p = Inr ((), p1)" "each f ys p1 = Inr ((), q)"
    using Cons.prems(1) by (auto simp: each_def bind_def split: sum.splits)
  show ?case
  proof (cases "x = y")
    case False
    then have "x \<in> set ys" using Cons.prems(2) by simp
    from Cons.IH [OF p1(2) this] show ?thesis unfolding steadyD [OF assms(2) p1(1)] .
  qed (use p1(1) in blast)
qed simp

lemma steady_checks:
  "steady (check_target s v d)" "steady (check_default s d')" "steady (check_range s r)" "steady (check_choice_default c d')"
  "steady (si_name K e)" "steady (check_choice_sym_node c s x)" "steady (check_undef_sym n name)"
  unfolding check_target_def check_default_def check_range_def check_choice_default_def si_name_def check_choice_sym_node_def
    check_undef_sym_def Let_def
  by (auto simp: split: expr.split item.split prod.split list.split intro!: steady_rules)

lemma steady_warn_select: "steady (warn_select_imply s e t)"
  unfolding warn_select_imply_def by (intro steady_rules steady_checks)

lemma steady_check_sym [steady_rules]: "steady (check_sym s)"
  unfolding check_sym_def Let_def by (auto intro!: steady_rules steady_checks)

lemma steady_check_choice [steady_rules]: "steady (check_choice c)"
  unfolding check_choice_def check_choice_sym_def Let_def by (auto intro!: steady_rules steady_checks steady_warn_select)

lemma steady_sanity [steady_rules]: "steady check_sym_sanity" "steady check_choice_sanity" "steady (check_undef_syms n)"
  unfolding check_sym_sanity_def check_choice_sanity_def check_undef_syms_def
  by (intro steady_rules steady_checks)+


text \<open>What the checks ensure.\<close>

lemma sview_fields:
  assumes "sview q = sview p"
  shows "k_sym (p_kc q) = k_sym (p_kc p)" and "k_choice (p_kc q) = k_choice (p_kc p)" and "collected (p_kc q) = collected (p_kc p)"
    and "k_unique_defined_syms (p_kc q) = k_unique_defined_syms (p_kc p)" and "k_unique_choices (p_kc q) = k_unique_choices (p_kc p)"
    and "k_defined_syms (p_kc q) = k_defined_syms (p_kc p)" and "k_choices (p_kc q) = k_choices (p_kc p)"
    and "quiet_dyn q = quiet_dyn p"
proof -
  have K: "(p_kc q)\<lparr>k_syms := []\<rparr> = (p_kc p)\<lparr>k_syms := []\<rparr>" and d: "quiet_dyn q = quiet_dyn p"
    using assms by (simp_all add: sview_def quiet_dyn_def)
  show "quiet_dyn q = quiet_dyn p" by (rule d)
  have c: "collected (K\<lparr>k_syms := []\<rparr>) = collected K" for K by (simp add: collected_def)
  show "k_sym (p_kc q) = k_sym (p_kc p)" "k_choice (p_kc q) = k_choice (p_kc p)" "collected (p_kc q) = collected (p_kc p)"
    "k_unique_defined_syms (p_kc q) = k_unique_defined_syms (p_kc p)" "k_unique_choices (p_kc q) = k_unique_choices (p_kc p)"
    "k_defined_syms (p_kc q) = k_defined_syms (p_kc p)" "k_choices (p_kc q) = k_choices (p_kc p)"
    using arg_cong [OF K, of k_sym] arg_cong [OF K, of k_choice] arg_cong [OF K, of collected] arg_cong [OF K, of k_unique_defined_syms]
      arg_cong [OF K, of k_unique_choices] arg_cong [OF K, of k_defined_syms] arg_cong [OF K, of k_choices]
    by (simp_all add: c)
qed

lemma check_default_ran: "check_default s (v, c) p = Inr ((), q) \<Longrightarrow> is_sym_expr v"
  by (auto simp: check_default_def Let_def bind_def gets_def raise_def is_sym_expr_def split: expr.splits item.splits)

lemma check_choice_default_ran: "check_choice_default d (v, c) p = Inr ((), q) \<Longrightarrow> is_sym_expr v"
  by (auto simp: check_choice_default_def bind_def gets_def raise_def is_sym_expr_def split: expr.splits item.splits)

lemma check_sym_ran:
  assumes "check_sym s p = Inr ((), q)" and "\<not> bool_tristate (otype (p_kc p) s)" and "otype (p_kc p) s \<noteq> UNKNOWN"
    and "(v, c) \<in> set (s_defaults (k_sym (p_kc p) s))"
  shows "is_sym_expr v"
proof -
  obtain p1 where "each (check_default s) (s_defaults (k_sym (p_kc p) s)) p = Inr ((), p1)"
    using assms(1-3) unfolding check_sym_def Let_def by (auto elim!: bind_InrE simp: gets_def)
  from each_ran [OF this steady_checks(2) assms(4)] show ?thesis using check_default_ran by blast
qed

lemma check_choice_ran:
  assumes "check_choice d p = Inr ((), q)" and "(v, c) \<in> set (c_defaults (k_choice (p_kc p) d))"
  shows "is_sym_expr v"
proof -
  obtain p0 p1 where 1: "each (check_choice_default d) (c_defaults (k_choice (p_kc p) d)) p0 = Inr ((), p1)"
    using assms(1) unfolding check_choice_def Let_def by (auto elim!: bind_InrE simp: gets_def)
  from each_ran [OF this steady_checks(4) assms(2)] show ?thesis using check_choice_default_ran by blast
qed

lemma sanity_ran:
  assumes "check_sym_sanity p = Inr ((), q)" and "s \<in> set (k_unique_defined_syms (p_kc p))"
    and "\<not> bool_tristate (otype (p_kc p) s)" and "otype (p_kc p) s \<noteq> UNKNOWN" and "(v, c) \<in> set (s_defaults (k_sym (p_kc p) s))"
  shows "is_sym_expr v"
proof -
  have "each check_sym (k_unique_defined_syms (p_kc p)) p = Inr ((), q)"
    using assms(1) by (simp add: check_sym_sanity_def bind_def gets_def)
  from each_ran [OF this steady_check_sym assms(2)] obtain p1 q1
    where 1: "sview p1 = sview p" "check_sym s p1 = Inr ((), q1)" by blast
  have k: "k_sym (p_kc p1) = k_sym (p_kc p)" by (rule sview_fields(1) [OF 1(1)])
  show ?thesis by (rule check_sym_ran [OF 1(2)]) (use assms(3-5) in \<open>simp_all only: k not_False_eq_True\<close>)
qed

lemma choice_sanity_ran:
  assumes "check_choice_sanity p = Inr ((), q)" and "d \<in> set (k_unique_choices (p_kc p))"
    and "(v, c) \<in> set (c_defaults (k_choice (p_kc p) d))"
  shows "is_sym_expr v"
proof -
  have "each check_choice (k_unique_choices (p_kc p)) p = Inr ((), q)"
    using assms(1) by (simp add: check_choice_sanity_def bind_def gets_def)
  from each_ran [OF this steady_check_choice assms(2)] obtain p1 q1
    where 1: "sview p1 = sview p" "check_choice d p1 = Inr ((), q1)" by blast
  have k: "k_choice (p_kc p1) = k_choice (p_kc p)" by (rule sview_fields(2) [OF 1(1)])
  show ?thesis by (rule check_choice_ran [OF 1(2)]) (use assms(3) in \<open>simp only: k\<close>)
qed

section \<open>Well-formedness\<close>

text \<open>
  What choices can break: a choice symbol whose dependencies do not mention the choice (it depends on \<open>n\<close>),
  and a default that is not one of the choice's symbols, about which only a warning is printed.
\<close>

definition choices_in_place :: "kconfig \<Rightarrow> bool" where
  "choices_in_place K =
     ((\<forall>s c. s_choice (k_sym K s) = Some c \<longrightarrow> Cho c \<in> set (expr_items (s_direct_dep (k_sym K s)))) \<and>
      (\<forall>c e x. (Item (Sym x), e) \<in> set (c_defaults (k_choice K c)) \<longrightarrow> x \<in> set (c_syms (k_choice K c))))"

lemma collected_tree_ok:
  assumes "collected K" and u: "set (k_unique_defined_syms K) = set (k_defined_syms K)" "set (k_unique_choices K) = set (k_choices K)"
    and "choices_in_place K"
  shows "tree_ok K"
  unfolding tree_ok_def u using assms(4) collectedD(2,3,7) [OF assms(1)]
  by (auto simp: choices_in_place_def untouched_def untouched_choice_def init_type_def)

lemma checked_wf:
  assumes K: "collected K" and u: "set (k_unique_defined_syms K) = set (k_defined_syms K)" "set (k_unique_choices K) = set (k_choices K)"
    and syms: "\<And>s v c. s \<in> set (k_unique_defined_syms K) \<Longrightarrow> \<not> bool_tristate (otype K s) \<Longrightarrow> otype K s \<noteq> UNKNOWN \<Longrightarrow>
      (v, c) \<in> set (s_defaults (k_sym K s)) \<Longrightarrow> is_sym_expr v"
    and chos: "\<And>d v c. d \<in> set (k_unique_choices K) \<Longrightarrow> (v, c) \<in> set (c_defaults (k_choice K d)) \<Longrightarrow> is_sym_expr v"
  shows "wf_kconfig K"
proof -
  note k = collectedD [OF K]
  have d: "is_sym_expr v" if "\<not> bool_tristate (otype K s)" "otype K s \<noteq> UNKNOWN" "(v, c) \<in> set (s_defaults (k_sym K s))" for s v c
    using that syms k(3) [of s] u by (cases "s \<in> set (k_unique_defined_syms K)") (auto simp: untouched_def)
  have e: "is_sym_expr v" if "(v, c) \<in> set (c_defaults (k_choice K d))" for d v c
    using that chos k(7) [of d] u by (cases "d \<in> set (k_unique_choices K)") (auto simp: untouched_choice_def)
  have f: "otype K s = TRISTATE" if "nmy_tri s = Some v" for s v
    using that k(2,3) [of s] by (auto simp: untouched_def init_type_def nmy_tri_def is_constant_def split: symref.splits)
  have g: "\<exists>a r. split_expr x OpAND = Item (Sym a) # r" if "x \<in> set (split_expr (s_rev_dep (k_sym K s)) OpOR)" for s x
    using k(4) [of s] that by (simp add: selected_by_def)
  show ?thesis unfolding wf_kconfig_def
    using d e f g k(5) by (intro conjI allI impI ballI; (clarify; blast)?)
qed

end
