(* ===== verification/Accepted.thy ===== *)
theory Accepted
  imports LoopCheck Collected
begin

text \<open>
  From the Kconfig files to the values: the object that \<open>Kconfig._init\<close> makes satisfies the hypotheses of the
  lemmas on values, so that sessions on it behave as specified (\<open>accepted_sessions\<close>).
\<close>

text \<open>The state that \<open>Kconfig._init\<close> leaves: the linked result of the finalization, which is well formed.\<close>

lemma kconfig_init_wf:
  assumes "kconfig_init E n filename (init_pstate E filename w) = Inr ((), s)"
  obtains K where "p_kc s = link K" "loops_checked K n" "wf_kconfig K" "collected K"
    "set (k_unique_defined_syms K) = set (k_defined_syms K)" "set (k_unique_choices K) = set (k_choices K)"
    "quiet_dyn s = quiet_dyn (init_pstate E filename w)"
proof -
  let ?p0 = "init_pstate E filename w"
  obtain p1 p2 p3 p4 p5 p6 p7 where run: "parse_kconfig E n filename ?p0 = Inr ((), p1)" "on_kc (finalize n) p1 = Inr ((), p2)"
      "check_sym_sanity p2 = Inr ((), p3)" "check_choice_sanity p3 = Inr ((), p4)"
      "(if warn_undef E then check_undef_syms n else ret ()) p4 = Inr ((), p5)"
      "upd_kc (\<lambda>K. store_dependents (build_dep K) K) p5 = Inr ((), p6)" "search_loops n p6 = Inr ((), p7)"
      "upd_kc add_dependents p7 = Inr ((), s)"
    using assms unfolding kconfig_init_def by (elim bind_InrE) auto
  have p1: "parsed (p_kc p1)" "quiet_dyn p1 = quiet_dyn ?p0" by (rule parse_kconfig_parsed [OF run(1)])+
  obtain K2 where K2: "finalize n (p_kc p1) = Inr ((), K2)" "p2 = p1\<lparr>p_kc := K2\<rparr>"
    using run(2) by (auto simp: on_kc_def split: sum.splits)
  note fin = finalize_collected [OF K2(1) p1(1)]
  have v3: "sview p3 = sview p2" by (rule steadyD [OF steady_sanity(1) run(3)])
  have v4: "sview p4 = sview p3" by (rule steadyD [OF steady_sanity(2) run(4)])
  have "steady (if warn_undef E then check_undef_syms n else ret ())" by (intro steady_rules)
  with run(5) have v5: "sview p5 = sview p4" by (intro steadyD)
  let ?K = "p_kc p5"
  have k: "k_sym ?K = k_sym K2" "k_choice ?K = k_choice K2" "collected ?K = collected K2"
      "k_unique_defined_syms ?K = k_unique_defined_syms K2" "k_unique_choices ?K = k_unique_choices K2"
      "k_defined_syms ?K = k_defined_syms K2" "k_choices ?K = k_choices K2" "quiet_dyn p5 = quiet_dyn p2"
    using sview_fields [OF v5 [unfolded v4 v3]] K2(2) by simp_all
  have k3: "k_choice (p_kc p3) = k_choice K2" "k_unique_choices (p_kc p3) = k_unique_choices K2"
    using sview_fields [OF v3] K2(2) by simp_all
  have wf: "wf_kconfig ?K"
  proof (rule checked_wf)
    show "is_sym_expr v" if "a \<in> set (k_unique_defined_syms ?K)" "\<not> bool_tristate (otype ?K a)" "otype ?K a \<noteq> UNKNOWN"
      "(v, c) \<in> set (s_defaults (k_sym ?K a))" for a v c
      by (rule sanity_ran [OF run(3)]) (use that k K2(2) in simp_all)
    show "is_sym_expr v" if "d \<in> set (k_unique_choices ?K)" "(v, c) \<in> set (c_defaults (k_choice ?K d))" for d v c
      by (rule choice_sanity_ran [OF run(4)]) (use that k k3 in simp_all)
  qed (use fin k in simp_all)
  have p6: "p6 = p5\<lparr>p_kc := store_dependents (build_dep ?K) ?K\<rparr>" using run(6) by (auto simp: upd_kc_def modify_def)
  obtain v where v: "check_dep_loops (p_kc p6) n unvisited = Inr ((), v)" "p7 = p6"
    using run(7) by (auto simp: search_loops_def split: sum.splits)
  have s: "s = p6\<lparr>p_kc := add_dependents (p_kc p6)\<rparr>" using run(8) v(2) by (auto simp: upd_kc_def modify_def)
  show thesis
  proof (rule that [of ?K])
    show "p_kc s = link ?K" by (simp add: s p6 add_dependents_link)
    show "loops_checked ?K n" using v(1) by (auto simp: loops_checked_def p6)
    show "quiet_dyn s = quiet_dyn ?p0" using k(8) p1(2) by (simp add: s p6 K2(2) quiet_dyn_def)
  qed (use wf fin k in simp_all)
qed

text \<open>The values of a new object.\<close>

lemma same_dyn_good:
  assumes "quiet_dyn s = quiet_dyn (init_pstate E filename w)"
  shows "good K (p_dyn s)" and "usr (p_dyn s) = usr init_dyn"
proof -
  have d: "(p_dyn s)\<lparr>warnings := []\<rparr> = init_dyn\<lparr>warn := w, warn_assign_undef := (e_environ E ''KCONFIG_WARN_UNDEF_ASSIGN'' = Some ''y'')\<rparr>\<lparr>warnings := []\<rparr>"
    using assms by (simp add: quiet_dyn_def init_pstate_def)
  let ?d = "init_dyn\<lparr>warn := w, warn_assign_undef := (e_environ E ''KCONFIG_WARN_UNDEF_ASSIGN'' = Some ''y'')\<rparr>"
  have "cached K ?d = cached K init_dyn" by (rule ext, case_tac x) (simp_all split: option.split)
  then have "good K ?d" using good_same_view [of K ?d init_dyn] good_init_dyn by (simp add: usr_def consts_ok_def)
  then have "good K ((p_dyn s)\<lparr>warnings := []\<rparr>)" unfolding d by simp
  then show "good K (p_dyn s)" by simp
  show "usr (p_dyn s) = usr init_dyn" using arg_cong [OF d, of usr] by (simp add: usr_def)
qed


lemma sym_dep_exprs_link [simp]: "sym_dep_exprs (link K) s = sym_dep_exprs K s"
  by (simp add: sym_dep_exprs_def Let_def)

lemma links_same [simp]:
  "choices_in_place (link K) = choices_in_place K" "ranked (link K) rk = ranked K rk" "k_choices (link K) = k_choices K"
  "plain_modules (link K) = plain_modules K"
  by (simp_all add: choices_in_place_def ranked_def plain_modules_def) (simp add: link_def store_dependents_def)

text \<open>Every accepted configuration is ready for sessions when its values can be ranked.\<close>

lemma accepted_ready:
  assumes "kconfig_init E n filename (init_pstate E filename w) = Inr ((), s)"
    and "choices_in_place (p_kc s)" and "ranked (p_kc s) rk"
  shows "ready (p_kc s) rk" and "good (p_kc s) (p_dyn s)" and "usr (p_dyn s) = usr init_dyn"
proof -
  obtain K where K: "p_kc s = link K" "wf_kconfig K" "collected K" "set (k_unique_defined_syms K) = set (k_defined_syms K)"
      "set (k_unique_choices K) = set (k_choices K)" "quiet_dyn s = quiet_dyn (init_pstate E filename w)"
    using kconfig_init_wf [OF assms(1)] by metis
  have "tree_ok K" by (rule collected_tree_ok [OF K(3-5)]) (use assms(2) K(1) in simp)
  then show "ready (p_kc s) rk" unfolding K(1) by (intro ready_link K(2)) (use assms(3) K(1) in simp)
  show "good (p_kc s) (p_dyn s)" "usr (p_dyn s) = usr init_dyn" by (rule same_dyn_good [OF K(6)])+
qed

text \<open>Without choices the search for loops gives the ranks.\<close>

lemma accepted_sessions:
  assumes "kconfig_init E n filename (init_pstate E filename w) = Inr ((), s)"
    and "k_choices (p_kc s) = []" and "plain_modules (p_kc s)"
  shows "\<exists>rk N. ready (p_kc s) rk \<and> (\<forall>m \<ge> N. \<forall>as. list_all (call_ok (p_kc s)) as \<longrightarrow>
    (\<exists>d'. calls (p_kc s) m as (p_dyn s) = Inr (fst (spec_calls (p_kc s) rk as (usr init_dyn)), d')))"
proof -
  obtain K where K: "p_kc s = link K" "loops_checked K n" "wf_kconfig K" "collected K"
      "set (k_unique_defined_syms K) = set (k_defined_syms K)" "set (k_unique_choices K) = set (k_choices K)"
    using kconfig_init_wf [OF assms(1)] by metis
  have none: "k_choices K = []" using assms(2) K(1) by simp
  note k = collectedD [OF K(4)]
  have nc: "untouched_choice (k_choice K c)" for c using k(7) none by simp
  have ns: "s_choice (k_sym K t) = None" for t
    using k(5) [of t] nc by (cases "s_choice (k_sym K t)") (auto simp: untouched_choice_def)
  have place: "choices_in_place K" using nc by (simp add: choices_in_place_def ns untouched_choice_def)
  have "choiceless K" using ns k(3) K(5,6) none by (auto simp: choiceless_def untouched_def)
  then obtain rk N where rk: "ranked K rk" "\<And>k. rk k < N"
    using no_choices_ranked [OF _ collected_tree_ok [OF K(4-6) place] _ K(2)] assms(3) K(1) by auto
  note r = accepted_ready [OF assms(1), of rk]
  have ready: "ready (p_kc s) rk" and g: "good (p_kc s) (p_dyn s)" "usr (p_dyn s) = usr init_dyn"
    by (rule r; use place rk(1) K(1) in simp)+
  have "\<exists>d'. calls (p_kc s) m as (p_dyn s) = Inr (fst (spec_calls (p_kc s) rk as (usr init_dyn)), d')"
    if "Suc (length (all_items (p_kc s)) + N) \<le> m" "list_all (call_ok (p_kc s)) as" for m as
  proof -
    have "rk k < m" for k using rk(2) [of k] that(1) by linarith
    moreover have "length (all_items (p_kc s)) < m" using that(1) by linarith
    ultimately show ?thesis using calls_refine [OF ready _ _ g(1) that(2), of m] g(2) by (metis fst_conv)
  qed
  with ready show ?thesis by blast
qed

end
