(* ===== verification/Terminal.thy ===== *)
theory Terminal
  imports Tokens
begin

text \<open>
  The input side of the terminal interface \<^verbatim>\<open>src/scripts/kconfig/menuconfig.py\<close>: the keys, and the text
  editing of the edit boxes (\<open>_edit_text\<close>), with the proof that the cursor stays in the text and inside
  the box.
\<close>

section \<open>Keys\<close>

text \<open>
  What \<open>_getch_compat\<close> returns: a character, or one of the integers \<open>curses.KEY_...\<close>; \<open>KeyFn\<close> stands for
  the integers that the program does not compare with.
\<close>

datatype key =
    KeyChar char
  | KEY_RESIZE | KEY_DOWN | KEY_UP | KEY_LEFT | KEY_RIGHT | KEY_HOME | KEY_END
  | KEY_NPAGE | KEY_PPAGE | KEY_BACKSPACE | KEY_DC
  | KeyFn int

definition SCROLL_OFFSET :: int where "SCROLL_OFFSET = 5"
definition PG_JUMP :: nat where "PG_JUMP = 6"
definition SUBMENU_INDENT :: nat where "SUBMENU_INDENT = 4"
definition SHOW_HELP_HEIGHT :: int where "SHOW_HELP_HEIGHT = 8"
definition INPUT_DIALOG_MIN_WIDTH :: int where "INPUT_DIALOG_MIN_WIDTH = 30"

text \<open>\<open>_max_scroll\<close>, for a list of \<open>l\<close> entries in a window of height \<open>h\<close>\<close>

definition max_scroll :: "nat \<Rightarrow> int \<Rightarrow> int" where
  "max_scroll l h = max 0 (int l - h)"

section \<open>The edit box\<close>

text \<open>\<^verbatim>\<open>\w\<close> of \<open>re\<close> on code points below 256: the characters for which \<open>isalnum\<close> holds, and the underscore.\<close>

definition re_word :: "char \<Rightarrow> bool" where
  "re_word c = (alnum_us c \<or> (let n = (of_char c :: nat) in
     n \<in> {170, 178, 179, 181, 185, 186, 188, 189, 190} \<or> 192 \<le> n \<and> n \<noteq> 215 \<and> n \<noteq> 247))"

text \<open>
  The search for \<^verbatim>\<open>(?:\w*|\W)\s*$\<close> that Ctrl-W makes: the leftmost position from which the rest of the text
  is a word, or one other character, followed by white space. \<^verbatim>\<open>\s\<close> is \<open>str.isspace\<close>, and no white space is
  in \<^verbatim>\<open>\w\<close>, so that the word is as long as possible.
\<close>

definition last_word :: "string \<Rightarrow> bool" where
  "last_word s = (list_all py_isspace (dropWhile re_word s) \<or>
     (case s of [] \<Rightarrow> False | c # r \<Rightarrow> \<not> re_word c \<and> list_all py_isspace r))"

definition word_start :: "string \<Rightarrow> nat" where
  "word_start s = the (find (\<lambda>p. last_word (drop p s)) [0..<Suc (length s)])"

text \<open>The first part of \<open>_edit_text\<close>: the text and the cursor after a key; \<open>erase\<close> is \<open>_ERASE_CHAR\<close>.\<close>

definition edit_key :: "char \<Rightarrow> key \<Rightarrow> string \<Rightarrow> nat \<Rightarrow> string \<times> nat" where
  "edit_key erase c s i =
     (if c = KEY_LEFT then (s, if i > 0 then i - 1 else i)
      else if c = KEY_RIGHT then (s, if i < length s then i + 1 else i)
      else if c = KEY_HOME \<or> c = KeyChar (CHR 0x01) then (s, 0)
      else if c = KEY_END \<or> c = KeyChar (CHR 0x05) then (s, length s)
      else if c = KEY_BACKSPACE \<or> c = KeyChar erase then
        (if i > 0 then (take (i - 1) s @ drop i s, i - 1) else (s, i))
      else if c = KEY_DC then (take i s @ drop (i + 1) s, i)
      else if c = KeyChar (CHR 0x17) then
        (let new_i = word_start (take i s) in (take new_i s @ drop i s, new_i))
      else if c = KeyChar (CHR 0x0B) then (take i s, i)
      else if c = KeyChar (CHR 0x15) then (drop i s, 0)
      else case c of KeyChar x \<Rightarrow> (take i s @ [x] @ drop i s, i + 1) | _ \<Rightarrow> (s, i))"

text \<open>The second part: the horizontal scroll follows the cursor.\<close>

definition edit_scroll :: "nat \<Rightarrow> nat \<Rightarrow> int \<Rightarrow> int \<Rightarrow> int" where
  "edit_scroll len i hscroll width =
     (if int i < hscroll + SCROLL_OFFSET then max (int i - SCROLL_OFFSET) 0
      else if int i \<ge> hscroll + width - SCROLL_OFFSET then
        (let max_scroll = max (int len - width + 1) 0 in
         min (int i - width + SCROLL_OFFSET + 1) max_scroll)
      else hscroll)"

definition edit_text :: "char \<Rightarrow> key \<Rightarrow> string \<Rightarrow> nat \<Rightarrow> int \<Rightarrow> int \<Rightarrow> string \<times> nat \<times> int" where
  "edit_text erase c s i hscroll width =
     (let (s', i') = edit_key erase c s i in (s', i', edit_scroll (length s') i' hscroll width))"

text \<open>The cursor is in the text, and the text field of the box shows it.\<close>

definition edit_ok :: "string \<Rightarrow> nat \<Rightarrow> int \<Rightarrow> int \<Rightarrow> bool" where
  "edit_ok s i hscroll width = (i \<le> length s \<and> 0 \<le> hscroll \<and> hscroll \<le> int i \<and> int i < hscroll + width)"

lemma word_start_le: "word_start s \<le> length s"
proof -
  let ?P = "\<lambda>p. last_word (drop p s)"
  have "?P (length s)" by (simp add: last_word_def)
  then have "find ?P [0..<Suc (length s)] \<noteq> None" unfolding find_None_iff by (intro notI) auto
  then obtain p where p: "find ?P [0..<Suc (length s)] = Some p" by blast
  then have "p < Suc (length s)" by (auto simp: find_Some_iff simp del: upt_Suc)
  with p show ?thesis by (simp add: word_start_def)
qed

lemma edit_key_cursor: "i \<le> length s \<Longrightarrow> edit_key erase c s i = (s', i') \<Longrightarrow> i' \<le> length s'"
  using word_start_le [of "take i s"]
  by (auto simp: edit_key_def Let_def split: if_splits key.splits)

lemma edit_scroll_ok:
  assumes "i \<le> len" and "0 \<le> hscroll" and "6 \<le> width"
  shows "0 \<le> edit_scroll len i hscroll width" and "edit_scroll len i hscroll width \<le> int i"
    and "int i < edit_scroll len i hscroll width + width"
  using assms by (auto simp: edit_scroll_def SCROLL_OFFSET_def Let_def)

lemma edit_text_keeps:
  assumes "edit_ok s i hscroll width" and "6 \<le> width" and "edit_text erase c s i hscroll width = (s', i', h')"
  shows "edit_ok s' i' h' width"
proof -
  obtain "edit_key erase c s i = (s', i')" and h': "h' = edit_scroll (length s') i' hscroll width"
    using assms(3) by (auto simp: edit_text_def Let_def split: prod.splits)
  then have "i' \<le> length s'" using edit_key_cursor assms(1) by (auto simp: edit_ok_def)
  with edit_scroll_ok [OF this _ assms(2)] assms(1) show ?thesis by (simp add: edit_ok_def h')
qed

text \<open>A printable character is inserted, and backspace removes it.\<close>

definition plain_key :: "char \<Rightarrow> char \<Rightarrow> bool" where
  "plain_key erase x = (x \<noteq> erase \<and> x \<notin> set [CHR 0x01, CHR 0x05, CHR 0x17, CHR 0x0B, CHR 0x15])"

lemma type_and_erase:
  assumes "i \<le> length s" and "plain_key erase x"
  shows "edit_key erase (KeyChar x) s i = (take i s @ [x] @ drop i s, i + 1)"
    and "edit_key erase KEY_BACKSPACE (take i s @ [x] @ drop i s) (i + 1) = (s, i)"
  using assms by (auto simp: edit_key_def plain_key_def)

end
