(* ===== verification/MenuView.thy ===== *)
theory MenuView
  imports Output Describe Terminal
begin

text \<open>
  What the terminal interface \<^verbatim>\<open>src/scripts/kconfig/menuconfig.py\<close> shows: which nodes of a menu
  (\<open>_visible\<close>, \<open>_shown_nodes\<close>, \<open>_parent_menu\<close>), the text of an entry (\<open>_node_str\<close>, \<open>_value_str\<close>), which
  entries can be changed (\<open>_changeable\<close>), and which texts are accepted as values (\<open>_check_valid\<close>,
  \<open>_range_info\<close>). The functions read the values of symbols and choices; \<open>A\<close> holds the property accessors.
  Which nodes are shown is described by the values in \<open>MenuNav\<close>.
\<close>

section \<open>Symbols and choices\<close>

text \<open>The symbol or choice of a node: \<open>isinstance(node.item, (Symbol, Choice))\<close>.\<close>

definition node_sc :: "menunode \<Rightarrow> item option" where
  "node_sc N = (case n_item N of NSym s \<Rightarrow> Some (Sym s) | NCho c \<Rightarrow> Some (Cho c) | _ \<Rightarrow> None)"

definition is_sym_node :: "menunode \<Rightarrow> bool" where
  "is_sym_node N = (case n_item N of NSym _ \<Rightarrow> True | _ \<Rightarrow> False)"

definition sc_orig_type :: "kconfig \<Rightarrow> item \<Rightarrow> stype" where
  "sc_orig_type K sc = (case sc of Sym s \<Rightarrow> otype K s | Cho c \<Rightarrow> c_orig_type (k_choice K c))"

definition sc_nodes :: "kconfig \<Rightarrow> item \<Rightarrow> noderef list" where
  "sc_nodes K sc = (case sc of Sym s \<Rightarrow> s_nodes (k_sym K s) | Cho c \<Rightarrow> c_nodes (k_choice K c))"

definition sc_type :: "kconfig \<Rightarrow> acc \<Rightarrow> item \<Rightarrow> stype ev" where
  "sc_type K A sc = (case sc of Sym s \<Rightarrow> sym_type K A s | Cho c \<Rightarrow> choice_type K A c)"

definition sc_tri :: "kconfig \<Rightarrow> acc \<Rightarrow> item \<Rightarrow> nat ev" where
  "sc_tri K A sc = (case sc of Sym s \<Rightarrow> a_tri A s | Cho c \<Rightarrow> choice_tri_value K A c)"

text \<open>\<open>Symbol.str_value\<close> and \<open>Choice.str_value\<close>\<close>

definition sc_str_value :: "kconfig \<Rightarrow> acc \<Rightarrow> item \<Rightarrow> string ev" where
  "sc_str_value K A sc =
     (case sc of Sym s \<Rightarrow> a_str A s | Cho c \<Rightarrow> bind (choice_tri_value K A c) (\<lambda>t. ret (tri_to_str t)))"

definition sc_assignable :: "kconfig \<Rightarrow> acc \<Rightarrow> item \<Rightarrow> nat list ev" where
  "sc_assignable K A sc = (case sc of Sym s \<Rightarrow> get_asg K A s | Cho c \<Rightarrow> get_casg K A c)"

definition sc_set_value :: "kconfig \<Rightarrow> nat \<Rightarrow> item \<Rightarrow> pyval \<Rightarrow> bool ev" where
  "sc_set_value K n sc v = (case sc of Sym s \<Rightarrow> sym_set_value K n s v | Cho c \<Rightarrow> choice_set_value K n c v)"

section \<open>The nodes of a menu\<close>

text \<open>\<open>_visible\<close>\<close>

definition node_visible :: "kconfig \<Rightarrow> acc \<Rightarrow> noderef \<Rightarrow> bool ev" where
  "node_visible K A x =
     (let N = k_node K x in
      case n_prompt N of
        None \<Rightarrow> ret False
      | Some (_, cond) \<Rightarrow> bind (expr_value K A cond) (\<lambda>v.
          if v = 0 then ret False
          else if n_item N = NMenu then bind (expr_value K A (n_visibility N)) (\<lambda>w. ret (w \<noteq> 0))
          else ret True))"

text \<open>
  The function \<open>rec\<close> of \<open>_shown_nodes\<close>, on the node it has reached (\<open>None\<close> at the end of the list); \<open>al\<close>
  is \<open>_show_all\<close>. The fuel bounds the nodes on the way.
\<close>

fun shown_from :: "kconfig \<Rightarrow> acc \<Rightarrow> bool \<Rightarrow> nat \<Rightarrow> noderef option \<Rightarrow> noderef list ev" where
  "shown_from K A al n None = ret []"
| "shown_from K A al 0 (Some x) = raise NoReturn"
| "shown_from K A al (Suc n) (Some x) =
     (let N = k_node K x in
      bind (node_visible K A x) (\<lambda>vis.
      bind (if vis \<or> al then
              (if n_list N \<noteq> None \<and> \<not> n_is_menuconfig N
               then bind (shown_from K A al n (n_list N)) (\<lambda>sub. ret (x # sub))
               else ret [x])
            else if n_list N \<noteq> None \<and> is_sym_node N then
              bind (shown_from K A al n (n_list N)) (\<lambda>sub.
                ret (if sub = [] then [] else if \<not> n_is_menuconfig N then x # sub else [x]))
            else ret []) (\<lambda>res.
      bind (shown_from K A al n (n_next N)) (\<lambda>rest. ret (res @ rest)))))"

text \<open>\<open>seen_syms\<close>, as a list of the items of symbol nodes.\<close>

definition node_syms :: "kconfig \<Rightarrow> noderef list \<Rightarrow> nitem list" where
  "node_syms K xs = [n_item (k_node K x). x \<leftarrow> xs, is_sym_node (k_node K x)]"

text \<open>The loop over the nodes that one location of a choice contributes.\<close>

definition add_choice_node :: "kconfig \<Rightarrow> bool \<Rightarrow> noderef \<Rightarrow> nitem list \<times> noderef list \<Rightarrow> nitem list \<times> noderef list" where
  "add_choice_node K cur x acc =
     (let it = n_item (k_node K x); (seen, res) = acc in
      if it \<notin> set seen \<or> cur
      then (if is_sym_node (k_node K x) then it # seen else seen, res @ [x])
      else acc)"

text \<open>\<open>_shown_nodes\<close>\<close>

definition shown_nodes :: "kconfig \<Rightarrow> acc \<Rightarrow> bool \<Rightarrow> nat \<Rightarrow> noderef \<Rightarrow> noderef list ev" where
  "shown_nodes K A al n menu =
     (case n_item (k_node K menu) of
        NCho c \<Rightarrow>
          bind (shown_from K A al n (n_list (k_node K menu))) (\<lambda>own.
          bind (foldm (\<lambda>cn acc. bind (shown_from K A al n (n_list (k_node K cn)))
                  (\<lambda>xs. ret (fold (add_choice_node K (cn = menu)) xs acc)))
                (c_nodes (k_choice K c)) (node_syms K own, [])) (\<lambda>acc. ret (snd acc)))
      | _ \<Rightarrow> shown_from K A al n (n_list (k_node K menu)))"

text \<open>
  The loop that climbs from a parent to the next menu of the interface, with the number of steps; reading an
  attribute of a missing parent is an \<open>AttributeError\<close>. \<open>_parent_menu\<close> starts at the parent of the node.
\<close>

fun climb_menu :: "kconfig \<Rightarrow> nat \<Rightarrow> noderef option \<Rightarrow> pyexc + noderef \<times> nat" where
  "climb_menu K n None = Inl AttributeError"
| "climb_menu K 0 (Some x) = Inl NoReturn"
| "climb_menu K (Suc n) (Some x) =
     (if n_is_menuconfig (k_node K x) then Inr (x, 0)
      else case climb_menu K n (n_parent (k_node K x)) of Inl e \<Rightarrow> Inl e | Inr (m, l) \<Rightarrow> Inr (m, Suc l))"

definition of_result :: "pyexc + 'a \<Rightarrow> ('s, 'a) eff" where
  "of_result r = (case r of Inl e \<Rightarrow> raise e | Inr x \<Rightarrow> ret x)"

definition parent_menu :: "kconfig \<Rightarrow> nat \<Rightarrow> noderef \<Rightarrow> pyexc + noderef" where
  "parent_menu K n x = map_sum id fst (climb_menu K n (n_parent (k_node K x)))"

section \<open>Changing values\<close>

text \<open>\<open>_is_y_mode_choice_sym\<close>\<close>

definition is_y_mode_choice_sym :: "kconfig \<Rightarrow> acc \<Rightarrow> item \<Rightarrow> bool ev" where
  "is_y_mode_choice_sym K A sc =
     (case sc of
        Sym s \<Rightarrow> if s_choice (k_sym K s) \<noteq> None then bind (a_vis A s) (\<lambda>v. ret (v = 2)) else ret False
      | Cho _ \<Rightarrow> ret False)"

text \<open>\<open>_changeable\<close>\<close>

definition text_type :: "stype \<Rightarrow> bool" where
  "text_type t = (t = STRING \<or> t = INT_T \<or> t = HEX)"

definition changeable :: "kconfig \<Rightarrow> acc \<Rightarrow> noderef \<Rightarrow> bool ev" where
  "changeable K A x =
     (let N = k_node K x in
      case (node_sc N, n_prompt N) of
        (Some sc, Some (_, cond)) \<Rightarrow>
          bind (expr_value K A cond) (\<lambda>v.
          if v = 0 then ret False
          else if text_type (sc_orig_type K sc) then ret True
          else bind (sc_assignable K A sc) (\<lambda>as.
            if length as > 1 then ret True else is_y_mode_choice_sym K A sc))
      | _ \<Rightarrow> ret False)"

text \<open>
  \<open>_check_valid\<close>: \<open>None\<close> when the text is accepted, otherwise the message of the error dialog. A choice has no
  ranges; a range that is no number is a \<open>ValueError\<close>.
\<close>

definition py_int_of :: "nat \<Rightarrow> string \<Rightarrow> int ev" where
  "py_int_of base s = of_option ValueError (py_int base s)"

definition check_range_of :: "kconfig \<Rightarrow> acc \<Rightarrow> nat \<Rightarrow> string \<Rightarrow> symref \<times> symref \<times> expr \<Rightarrow> string option option ev" where
  "check_range_of K A base s = (\<lambda>(low, high, cond).
     bind (expr_value K A cond) (\<lambda>c.
     if c = 0 then ret None
     else
       bind (a_str A low) (\<lambda>low_s. bind (a_str A high) (\<lambda>high_s.
       bind (py_int_of base low_s) (\<lambda>l. bind (py_int_of base s) (\<lambda>v.
       bind (if l \<le> v then bind (py_int_of base high_s) (\<lambda>h. ret (v \<le> h)) else ret False) (\<lambda>ok.
       ret (Some (if ok then None else Some (s @ '' is outside the range '' @ low_s @ ''-'' @ high_s))))))))))"

definition check_valid :: "kconfig \<Rightarrow> acc \<Rightarrow> item \<Rightarrow> string \<Rightarrow> string option ev" where
  "check_valid K A sc s =
     (let t = sc_orig_type K sc; base = type_to_base t in
      if \<not> int_hex t then ret None
      else if py_int base s = None then
        ret (Some ([CHR 0x27] @ s @ [CHR 0x27] @ '' is a malformed '' @ type_to_str t @ '' value''))
      else case sc of
        Sym x \<Rightarrow> bind (firstm (check_range_of K A base s) (s_ranges (k_sym K x)))
                   (\<lambda>r. ret (case r of None \<Rightarrow> None | Some msg \<Rightarrow> msg))
      | Cho _ \<Rightarrow> raise AttributeError)"

text \<open>\<open>_range_info\<close>\<close>

definition range_info :: "kconfig \<Rightarrow> acc \<Rightarrow> item \<Rightarrow> string option ev" where
  "range_info K A sc =
     (if \<not> int_hex (sc_orig_type K sc) then ret None
      else case sc of
        Sym x \<Rightarrow> firstm (\<lambda>(low, high, cond). bind (expr_value K A cond) (\<lambda>c.
            if c = 0 then ret None
            else bind (a_str A low) (\<lambda>l. bind (a_str A high) (\<lambda>h. ret (Some (''Range: '' @ l @ ''-'' @ h))))))
          (s_ranges (k_sym K x))
      | Cho _ \<Rightarrow> raise AttributeError)"

section \<open>The text of an entry\<close>

text \<open>\<open>_value_str\<close>\<close>

definition tri_mark :: "nat \<Rightarrow> string" where
  "tri_mark v = (if v = 0 then '' '' else if v = 1 then ''M'' else ''*'')"

definition sc_value_str :: "kconfig \<Rightarrow> acc \<Rightarrow> item \<Rightarrow> string ev" where
  "sc_value_str K A sc =
     (if sc_orig_type K sc = UNKNOWN then ret []
      else if text_type (sc_orig_type K sc) then bind (sc_str_value K A sc) (\<lambda>v. ret (''('' @ v @ '')''))
      else
        bind (is_y_mode_choice_sym K A sc) (\<lambda>y.
        if y then
          (case sc of Sym s \<Rightarrow> bind (a_sel A (the (s_choice (k_sym K s)))) (\<lambda>sel.
              ret (if sel = Some s then ''(X)'' else ''( )''))
           | Cho _ \<Rightarrow> ret [])
        else
          bind (sc_tri K A sc) (\<lambda>v. let m = tri_mark v in
          bind (sc_assignable K A sc) (\<lambda>as.
          if length as \<le> 1 then ret (case sc of Cho _ \<Rightarrow> [] | Sym _ \<Rightarrow> ''-'' @ m @ ''-'')
          else bind (sc_type K A sc) (\<lambda>t.
            ret (if t = BOOL then ''['' @ m @ '']''
                 else if as = [1, 2] then ''{'' @ m @ ''}''
                 else ''<'' @ m @ ''>''))))))"

definition value_str :: "kconfig \<Rightarrow> acc \<Rightarrow> noderef \<Rightarrow> string ev" where
  "value_str K A x =
     (case n_item (k_node K x) of
        NMenu \<Rightarrow> ret []
      | NComment \<Rightarrow> ret []
      | NIf \<Rightarrow> raise AttributeError
      | NSym s \<Rightarrow> sc_value_str K A (Sym s)
      | NCho c \<Rightarrow> sc_value_str K A (Cho c))"

text \<open>\<open>_should_show_name\<close>\<close>

definition should_show_name :: "bool \<Rightarrow> menunode \<Rightarrow> bool" where
  "should_show_name show_name N = (n_prompt N = None \<or> show_name \<and> node_sc N \<noteq> None)"

text \<open>The parts of \<open>_node_str\<close>: the name, the prompt with the \<open>(NEW)\<close> mark, and the selected symbol of a choice.\<close>

definition entry_name :: "kconfig \<Rightarrow> bool \<Rightarrow> menunode \<Rightarrow> string ev" where
  "entry_name K show_name N =
     (if should_show_name show_name N then
        (case n_item N of
           NSym s \<Rightarrow> ret ('' <'' @ sym_name s @ ''>'')
         | NCho c \<Rightarrow> ret ('' '' @ std_str K (Cho c))
         | _ \<Rightarrow> raise AttributeError)
      else ret [])"

definition new_mark :: "kconfig \<Rightarrow> acc \<Rightarrow> symref \<Rightarrow> string ev" where
  "new_mark K A s =
     bind (gets (\<lambda>d. user_value d s)) (\<lambda>uv.
     if uv = None \<and> otype K s \<noteq> UNKNOWN then
       bind (case s_choice (k_sym K s) of
               None \<Rightarrow> ret False
             | Some c \<Rightarrow> bind (choice_tri_value K A c) (\<lambda>t. ret (t = 2))) (\<lambda>y.
         ret (if y then [] else '' (NEW)''))
     else ret [])"

definition entry_prompt :: "kconfig \<Rightarrow> acc \<Rightarrow> menunode \<Rightarrow> string ev" where
  "entry_prompt K A N =
     (case n_prompt N of
        None \<Rightarrow> ret []
      | Some (t, _) \<Rightarrow>
          let p = (if n_item N = NComment then '' *** '' @ t @ '' ***'' else '' '' @ t) in
          (case n_item N of NSym s \<Rightarrow> bind (new_mark K A s) (\<lambda>w. ret (p @ w)) | _ \<Rightarrow> ret p))"

definition selected_prompt :: "kconfig \<Rightarrow> noderef \<Rightarrow> symref \<Rightarrow> string" where
  "selected_prompt K x s =
     (let ns = s_nodes (k_sym K s);
          text = (\<lambda>y. map_option fst (n_prompt (k_node K y)));
          loc = (\<lambda>y. if n_parent (k_node K y) = Some x then text y else None);
          found = (case firstp loc ns of Some t \<Rightarrow> Some t | None \<Rightarrow> firstp text ns)
      in case found of None \<Rightarrow> [] | Some t \<Rightarrow> '' ('' @ t @ '')'')"

definition entry_selected :: "kconfig \<Rightarrow> acc \<Rightarrow> noderef \<Rightarrow> string ev" where
  "entry_selected K A x =
     (case n_item (k_node K x) of
        NCho c \<Rightarrow> bind (choice_tri_value K A c) (\<lambda>t.
          if t \<noteq> 2 then ret []
          else bind (a_sel A c) (\<lambda>sel. ret (case sel of None \<Rightarrow> [] | Some s \<Rightarrow> selected_prompt K x s)))
      | _ \<Rightarrow> ret [])"

text \<open>\<open>_node_str\<close>; the value is padded to the width 3 plus the indent.\<close>

definition node_entry :: "kconfig \<Rightarrow> acc \<Rightarrow> bool \<Rightarrow> bool \<Rightarrow> nat \<Rightarrow> noderef \<Rightarrow> string ev" where
  "node_entry K A al show_name n x =
     (let N = k_node K x in
      bind (of_result (climb_menu K n (n_parent N))) (\<lambda>(_, levels).
      bind (value_str K A x) (\<lambda>v.
      bind (entry_name K show_name N) (\<lambda>name.
      bind (entry_prompt K A N) (\<lambda>p.
      bind (entry_selected K A x) (\<lambda>sel.
      bind (if n_is_menuconfig N then
              bind (shown_nodes K A al n x) (\<lambda>sub. ret (if sub \<noteq> [] then ''  --->'' else ''  ----''))
            else ret []) (\<lambda>arrow.
      ret (v @ replicate (3 + levels * SUBMENU_INDENT - length v) SPC @ name @ p @ sel @ arrow))))))))"

end
