(* ===== verification/MenuInfo.thy ===== *)
theory MenuInfo
  imports MenuView Files
begin

text \<open>
  The information dialog of \<^verbatim>\<open>src/scripts/kconfig/menuconfig.py\<close>: \<open>_info_str\<close> and the functions that make its
  parts. The text of an expression shows the values of its symbols; they are read first, in the order in
  which the expression is printed, and the text is made from them.
\<close>

section \<open>Expressions with values\<close>

text \<open>\<open>_is_num\<close> and \<open>_name_and_val_str\<close>; \<open>val\<close> holds the values that have been read.\<close>

definition looks_like_num :: "string \<Rightarrow> bool" where
  "looks_like_num name =
     (is_base_n name 10 \<or> (startswith name ''0x'' \<or> startswith name ''0X'') \<and> is_base_n name 16)"

definition shows_value :: "kconfig \<Rightarrow> item \<Rightarrow> bool" where
  "shows_value K it =
     (case it of
        Sym s \<Rightarrow> \<not> is_constant s \<and> \<not> looks_like_num (sym_name s) \<and> s_nodes (k_sym K s) \<noteq> []
      | Cho _ \<Rightarrow> False)"

definition name_and_val_str :: "kconfig \<Rightarrow> (symref \<Rightarrow> string) \<Rightarrow> item \<Rightarrow> string" where
  "name_and_val_str K val it =
     (case it of
        Sym s \<Rightarrow>
          if \<not> is_constant s \<and> \<not> looks_like_num (sym_name s) then
            (if s_nodes (k_sym K s) = [] then sym_name s @ ''(undefined/n)''
             else sym_name s @ ''(='' @ val s @ '')'')
          else std_str K it
      | Cho _ \<Rightarrow> std_str K it)"

definition with_values :: "kconfig \<Rightarrow> acc \<Rightarrow> item list \<Rightarrow> ((item \<Rightarrow> string) \<Rightarrow> string) \<Rightarrow> string ev" where
  "with_values K A its f =
     bind (foldm (\<lambda>it val. if shows_value K it then
             (case it of Sym s \<Rightarrow> bind (a_str A s) (\<lambda>v. ret (val(s := v))) | Cho _ \<Rightarrow> ret val) else ret val)
           its (\<lambda>_. [])) (\<lambda>val. ret (f (name_and_val_str K val)))"

text \<open>\<open>_expr_str\<close>\<close>

definition expr_val_str :: "kconfig \<Rightarrow> acc \<Rightarrow> expr \<Rightarrow> string ev" where
  "expr_val_str K A e = with_values K A (expr_items e) (\<lambda>f. expr_str f e)"

text \<open>The value hint that follows an expression which is no single symbol.\<close>

definition value_hint :: "kconfig \<Rightarrow> acc \<Rightarrow> expr \<Rightarrow> string ev" where
  "value_hint K A e =
     (if is_tuple e then bind (expr_value K A e) (\<lambda>v. ret (''  (='' @ tri_to_str v @ '')'')) else ret [])"

section \<open>The parts\<close>

text \<open>\<open>_indent\<close>\<close>

fun split_nl :: "string \<Rightarrow> string list" where
  "split_nl [] = [[]]"
| "split_nl (c # s) = (if c = NL then [] # split_nl s else (c # hd (split_nl s)) # tl (split_nl s))"

definition indent_str :: "string \<Rightarrow> nat \<Rightarrow> string" where
  "indent_str s n = py_joins [NL] (map (\<lambda>line. replicate n SPC @ line) (split_nl s))"

text \<open>\<open>_name_info\<close>, \<open>_prompt_info\<close>, \<open>_value_info\<close>, \<open>_choice_syms_info\<close>, \<open>_help_info\<close>\<close>

definition sc_name :: "kconfig \<Rightarrow> item \<Rightarrow> string option" where
  "sc_name K sc = (case sc of Sym s \<Rightarrow> Some (sym_name s) | Cho c \<Rightarrow> c_name (k_choice K c))"

definition name_info :: "kconfig \<Rightarrow> item \<Rightarrow> string" where
  "name_info K sc =
     (case sc_name K sc of None \<Rightarrow> [] | Some x \<Rightarrow> if x \<noteq> [] then ''Name: '' @ x @ [NL] else [])"

definition prompt_info :: "kconfig \<Rightarrow> item \<Rightarrow> string" where
  "prompt_info K sc =
     concat (map (\<lambda>x. case n_prompt (k_node K x) of None \<Rightarrow> [] | Some (t, _) \<Rightarrow> ''Prompt: '' @ t @ [NL]) (sc_nodes K sc))"

definition value_info :: "kconfig \<Rightarrow> acc \<Rightarrow> symref \<Rightarrow> string ev" where
  "value_info K A s =
     bind (a_str A s) (\<lambda>v.
       ret (''Value: '' @ (if otype K s = STRING then [QUOT] @ v @ [QUOT] else v) @ [NL]))"

definition choice_syms_info :: "kconfig \<Rightarrow> acc \<Rightarrow> choiceref \<Rightarrow> string ev" where
  "choice_syms_info K A c =
     bind (foldm (\<lambda>s out. bind (a_sel A c) (\<lambda>sel.
             ret (out @ ''  - '' @ sym_name s @ (if sel = Some s then '' (selected)'' else []) @ [NL])))
           (c_syms (k_choice K c)) (''Choice symbols:'' @ [NL])) (\<lambda>out. ret (out @ [NL]))"

definition help_info :: "kconfig \<Rightarrow> item \<Rightarrow> string" where
  "help_info K sc =
     [NL] @ concat (map (\<lambda>x. case n_help (k_node K x) of None \<Rightarrow> []
       | Some h \<Rightarrow> ''Help:'' @ [NL, NL] @ indent_str h 2 @ [NL, NL]) (sc_nodes K sc))"

text \<open>\<open>_split_expr_info\<close>\<close>

definition split_expr_info :: "kconfig \<Rightarrow> acc \<Rightarrow> expr \<Rightarrow> nat \<Rightarrow> string ev" where
  "split_expr_info K A e indent =
     (let (op, op_str) = (if length (split_expr e OpAND) > 1 then (OpAND, ''&&'') else (OpOR, ''||'')) in
      foldm (\<lambda>(i, term) s.
          bind (expr_val_str K A term) (\<lambda>t. bind (value_hint K A term) (\<lambda>hint.
            ret (s @ replicate indent SPC @ (if i = 0 then ''  '' else op_str) @ '' '' @ t @ hint @ [NL]))))
        (enumerate (0 :: nat) (split_expr e op)) [])"

text \<open>\<open>_direct_dep_info\<close>\<close>

definition sc_direct_dep :: "kconfig \<Rightarrow> item \<Rightarrow> expr" where
  "sc_direct_dep K sc = (case sc of Sym s \<Rightarrow> s_direct_dep (k_sym K s) | Cho c \<Rightarrow> c_direct_dep (k_choice K c))"

definition direct_dep_info :: "kconfig \<Rightarrow> acc \<Rightarrow> item \<Rightarrow> string ev" where
  "direct_dep_info K A sc =
     (let e = sc_direct_dep K sc in
      if e = ky then ret []
      else bind (expr_value K A e) (\<lambda>v. bind (split_expr_info K A e 2) (\<lambda>t.
        ret (''Direct dependencies (='' @ tri_to_str v @ ''):'' @ [NL] @ t @ [NL]))))"

text \<open>\<open>_defaults_info\<close>, with \<open>orig_defaults\<close> of \<open>Symbol\<close> and \<open>Choice\<close>\<close>

definition sc_defaults :: "kconfig \<Rightarrow> item \<Rightarrow> (expr \<times> expr) list" where
  "sc_defaults K sc = (case sc of Sym s \<Rightarrow> s_defaults (k_sym K s) | Cho c \<Rightarrow> c_defaults (k_choice K c))"

definition sc_orig_defaults :: "kconfig \<Rightarrow> item \<Rightarrow> (expr \<times> expr) list" where
  "sc_orig_defaults K sc = concat (map (\<lambda>x. orig_defaults (k_node K x)) (sc_nodes K sc))"

definition default_val_str :: "kconfig \<Rightarrow> acc \<Rightarrow> item \<Rightarrow> expr \<Rightarrow> string ev" where
  "default_val_str K A sc val =
     (case sc of
        Sym _ \<Rightarrow> bind (expr_val_str K A val) (\<lambda>t. bind (value_hint K A val) (\<lambda>hint. ret (t @ hint)))
      | Cho _ \<Rightarrow> (case val of Item v \<Rightarrow> of_option TypeError (sc_name K v) | _ \<Rightarrow> raise AttributeError))"

definition defaults_info :: "kconfig \<Rightarrow> acc \<Rightarrow> item \<Rightarrow> string ev" where
  "defaults_info K A sc =
     (if sc_defaults K sc = [] then ret []
      else
        bind (foldm (\<lambda>(val, cond) s.
            bind (default_val_str K A sc val) (\<lambda>t.
            bind (if cond = ky then ret []
                  else bind (expr_value K A cond) (\<lambda>v. bind (split_expr_info K A cond 4) (\<lambda>c.
                    ret (''    Condition (='' @ tri_to_str v @ ''):'' @ [NL] @ c)))) (\<lambda>c.
            ret (s @ ''  - '' @ t @ [NL] @ c))))
          (sc_orig_defaults K sc) (''Default'' @ (if length (sc_defaults K sc) > 1 then ''s'' else []) @ '':'' @ [NL]))
        (\<lambda>s. ret (s @ [NL])))"

text \<open>\<open>_select_imply_info\<close>\<close>

definition sis_filter :: "kconfig \<Rightarrow> acc \<Rightarrow> nat \<Rightarrow> expr list \<Rightarrow> expr list ev" where
  "sis_filter K A val es = foldm (\<lambda>si out. bind (expr_value K A si) (\<lambda>v. ret (if v = val then out @ [si] else out))) es []"

definition si_line :: "kconfig \<Rightarrow> expr \<Rightarrow> string ev" where
  "si_line K si = (case split_expr si OpAND of
     Item sc # _ \<Rightarrow> ret (''  - '' @ (case sc_name K sc of None \<Rightarrow> ''None'' | Some x \<Rightarrow> x) @ [NL])
   | _ \<Rightarrow> raise AttributeError)"

definition sis_info :: "kconfig \<Rightarrow> acc \<Rightarrow> expr \<Rightarrow> nat \<Rightarrow> string \<Rightarrow> string ev" where
  "sis_info K A e val hdr =
     bind (sis_filter K A val (split_expr e OpOR)) (\<lambda>sis.
     if sis = [] then ret []
     else bind (foldm (\<lambda>si res. bind (si_line K si) (\<lambda>l. ret (res @ l))) sis hdr) (\<lambda>res. ret (res @ [NL])))"

definition si_block :: "kconfig \<Rightarrow> acc \<Rightarrow> expr \<Rightarrow> string \<Rightarrow> string ev" where
  "si_block K A e word =
     (let heading = (\<lambda>v tail. ''Symbols currently '' @ v @ ''-'' @ word @ '' this symbol'' @ tail @ '':'' @ [NL]) in
      if e = kn then ret []
      else bind (sis_info K A e 2 (heading ''y'' [])) (\<lambda>y. bind (sis_info K A e 1 (heading ''m'' [])) (\<lambda>m.
        bind (sis_info K A e 0 (heading ''n'' '' (no effect)'')) (\<lambda>n. ret (y @ m @ n)))))"

definition select_imply_info :: "kconfig \<Rightarrow> acc \<Rightarrow> symref \<Rightarrow> string ev" where
  "select_imply_info K A s =
     bind (si_block K A (s_rev_dep (k_sym K s)) ''selecting'') (\<lambda>a.
     bind (si_block K A (s_weak_rev_dep (k_sym K s)) ''implying'') (\<lambda>b. ret (a @ b)))"

text \<open>\<open>_include_path_info\<close> and \<open>_menu_path_info\<close>; the climb ends below the top node.\<close>

definition include_path_info :: "menunode \<Rightarrow> string" where
  "include_path_info N =
     (if n_include_path N = [] then []
      else ''Included via '' @ py_joins '' -> '' (map (\<lambda>(f, l). f @ '':'' @ py_str (int l)) (n_include_path N)) @ [NL])"

definition path_text :: "kconfig \<Rightarrow> noderef \<Rightarrow> pyexc + string" where
  "path_text K x =
     (let N = k_node K x in
      case n_prompt N of
        Some (t, _) \<Rightarrow> Inr t
      | None \<Rightarrow> (case node_sc N of Some sc \<Rightarrow> Inr (std_str K sc) | None \<Rightarrow> Inl AttributeError))"

fun menu_path :: "kconfig \<Rightarrow> nat \<Rightarrow> noderef option \<Rightarrow> string \<Rightarrow> pyexc + string" where
  "menu_path K n None path = Inl AttributeError"
| "menu_path K 0 (Some p) path = Inl NoReturn"
| "menu_path K (Suc n) (Some p) path =
     (if p = k_top_node K then Inr (''(Top)'' @ path)
      else case path_text K p of
        Inl e \<Rightarrow> Inl e
      | Inr t \<Rightarrow> menu_path K n (n_parent (k_node K p)) ('' -> '' @ t @ path))"

definition menu_path_info :: "kconfig \<Rightarrow> nat \<Rightarrow> noderef \<Rightarrow> pyexc + string" where
  "menu_path_info K n x = menu_path K n (n_parent (k_node K x)) []"

text \<open>\<open>_kconfig_def_info\<close>: the definitions, with the symbols that \<open>MenuNode.custom_str\<close> prints.\<close>

definition printed_items :: "menunode \<Rightarrow> item list" where
  "printed_items N =
     (if n_item N = NMenu \<or> n_item N = NComment
      then expr_items (n_dep N) @ (if n_item N = NMenu then expr_items (n_visibility N) else [])
      else
        (case orig_prompt N of None \<Rightarrow> [] | Some (_, c) \<Rightarrow> expr_items c) @
        (if is_sym_node N then concat (map (\<lambda>(l, h, c). Sym l # Sym h # expr_items c) (orig_ranges N)) else []) @
        concat (map (\<lambda>(v, c). expr_items v @ expr_items c) (orig_defaults N)) @
        (if is_sym_node N then concat (map (\<lambda>(s, c). Sym s # expr_items c) (orig_selects N)) @
           concat (map (\<lambda>(s, c). Sym s # expr_items c) (orig_implies N)) else []) @
        expr_items (n_dep N))"

definition def_info_of :: "kconfig \<Rightarrow> acc \<Rightarrow> nat \<Rightarrow> noderef list \<Rightarrow> string ev" where
  "def_info_of K A n xs =
     (let head = ''Kconfig definition'' @ (if length xs > 1 then ''s'' else []) @
            '', with parent deps. propagated to '' @ [CHR 0x27] @ ''depends on'' @ [CHR 0x27, NL]
      in foldm (\<lambda>x s. let N = k_node K x in
          bind (of_result (menu_path_info K n x)) (\<lambda>path.
          bind (with_values K A (printed_items N) (\<lambda>f. node_str K f x)) (\<lambda>def.
            ret (s @ [NL, NL] @ ''At '' @ n_filename N @ '':'' @ py_str (int (n_linenr N)) @ [NL] @ include_path_info N @
              ''Menu path: '' @ path @ [NL, NL] @ indent_str def 2))))
        xs (head @ replicate (length head - 1) (CHR ''='')))"

definition kconfig_def_info :: "kconfig \<Rightarrow> acc \<Rightarrow> nat \<Rightarrow> noderef \<Rightarrow> string ev" where
  "kconfig_def_info K A n x =
     def_info_of K A n (case node_sc (k_node K x) of None \<Rightarrow> [x] | Some sc \<Rightarrow> sc_nodes K sc)"

section \<open>The text\<close>

text \<open>\<open>_info_str\<close>\<close>

definition info_str :: "kconfig \<Rightarrow> acc \<Rightarrow> nat \<Rightarrow> noderef \<Rightarrow> string ev" where
  "info_str K A n x =
     (case node_sc (k_node K x) of
        None \<Rightarrow> kconfig_def_info K A n x
      | Some sc \<Rightarrow>
          bind (sc_type K A sc) (\<lambda>t.
          bind (case sc of
              Sym s \<Rightarrow> bind (value_info K A s) (\<lambda>v. ret (v @ help_info K sc))
            | Cho c \<Rightarrow> bind (sc_str_value K A sc) (\<lambda>m. bind (choice_syms_info K A c) (\<lambda>syms.
                ret (''Mode: '' @ m @ [NL] @ help_info K sc @ syms)))) (\<lambda>middle.
          bind (direct_dep_info K A sc) (\<lambda>deps.
          bind (defaults_info K A sc) (\<lambda>dflts.
          bind (case sc of Sym s \<Rightarrow> select_imply_info K A s | Cho _ \<Rightarrow> ret []) (\<lambda>si.
          bind (kconfig_def_info K A n x) (\<lambda>def.
            ret (name_info K sc @ prompt_info K sc @ ''Type: '' @ type_to_str t @ [NL] @
              middle @ deps @ dflts @ si @ def))))))))"

section \<open>The search\<close>

text \<open>\<open>_sorted_sc_nodes\<close>: the symbols by name, then the nodes of the choices by prompt and name. Sorting is stable.\<close>

definition sorted_sc_nodes :: "kconfig \<Rightarrow> noderef list" where
  "sorted_sc_nodes K =
     concat (map (\<lambda>s. s_nodes (k_sym K s)) (sort_key sym_name (k_unique_defined_syms K))) @
     sort_key (\<lambda>x. case n_prompt (k_node K x) of None \<Rightarrow> [] | Some (t, _) \<Rightarrow> t)
       (concat (map (\<lambda>c. c_nodes (k_choice K c))
         (sort_key (\<lambda>c. case c_name (k_choice K c) of None \<Rightarrow> [] | Some x \<Rightarrow> x) (k_unique_choices K))))"

text \<open>
  The matching loop of \<open>_jump_to_dialog\<close> over these nodes: every search term occurs in the name or in the
  prompt. \<open>srch\<close> stands for \<open>re.compile(term).search\<close> on a text in lower case.
\<close>

definition lower_str :: "string \<Rightarrow> string" where
  "lower_str s = map lower_char s"

definition sc_matches :: "kconfig \<Rightarrow> (string \<Rightarrow> string \<Rightarrow> bool) \<Rightarrow> string list \<Rightarrow> noderef \<Rightarrow> bool" where
  "sc_matches K srch terms x =
     (let N = k_node K x in
      list_all (\<lambda>t.
        (case node_sc N of None \<Rightarrow> False | Some sc \<Rightarrow>
           (case sc_name K sc of None \<Rightarrow> False | Some name \<Rightarrow> name \<noteq> [] \<and> srch t (lower_str name))) \<or>
        (case n_prompt N of None \<Rightarrow> False | Some (p, _) \<Rightarrow> srch t (lower_str p))) terms)"

definition jump_matches :: "kconfig \<Rightarrow> (string \<Rightarrow> string \<Rightarrow> bool) \<Rightarrow> string list \<Rightarrow> noderef list" where
  "jump_matches K srch terms = filter (sc_matches K srch terms) (sorted_sc_nodes K)"

end
