(* ===== verification/MenuUI.thy ===== *)
theory MenuUI
  imports MenuInfo
begin

text \<open>
  The terminal interface \<^verbatim>\<open>src/scripts/kconfig/menuconfig.py\<close> without its drawing: the global variables are
  the record \<open>tui\<close>, the functions that change them are computations on it, and the main loop (\<open>main_key\<close>)
  handles one key after the other. The dialogs read keys as well; \<open>ui_keys\<close> holds the keys that are still
  to come, each with the size of the terminal when it is pressed. When there are none left, the program
  waits, and the result is \<open>NoReturn\<close>.
\<close>

section \<open>State\<close>

record tui =
  ui_world :: world
  ui_keys :: "(key \<times> int \<times> int) list"
  ui_size :: "int \<times> int"
  ui_height :: int
  ui_cur_menu :: noderef
  ui_shown :: "noderef list"
  ui_sel_node_i :: int
  ui_menu_scroll :: int
  ui_parent_screen_rows :: "int list"
  ui_show_help :: bool
  ui_show_name :: bool
  ui_show_all :: bool
  ui_conf_filename :: string
  ui_minconf_filename :: string
  ui_conf_changed :: bool

type_synonym 'a ui = "(tui, 'a) eff"

text \<open>
  What the interface is started with: the \<open>Kconfig\<close> object, the depth of the call stack, the key that
  erases (\<open>_ERASE_CHAR\<close>), and what it uses of the system: \<open>os.path.expanduser\<close>, the current directory with a
  slash, and \<open>re.compile\<close> with its \<open>search\<close>, which is undefined on malformed expressions. \<open>t_menus\<close> and
  \<open>t_comments\<close> are the lists \<open>Kconfig.menus\<close> and \<open>Kconfig.comments\<close> of menu nodes.
\<close>

record tenv =
  t_kc :: kconfig
  t_depth :: nat
  t_erase :: char
  t_expanduser :: "string \<Rightarrow> string"
  t_cwd :: string
  t_re :: "string \<Rightarrow> (string \<Rightarrow> bool) option"
  t_menus :: "noderef list"
  t_comments :: "noderef list"

abbreviation acs :: "tenv \<Rightarrow> acc" where
  "acs T \<equiv> accs (t_kc T) (t_depth T)"

abbreviation unode :: "tenv \<Rightarrow> noderef \<Rightarrow> menunode" where
  "unode T x \<equiv> k_node (t_kc T) x"

definition in_world :: "'a io \<Rightarrow> 'a ui" where
  "in_world m = (\<lambda>s. case m (ui_world s) of Inl e \<Rightarrow> Inl e | Inr (x, w) \<Rightarrow> Inr (x, s\<lparr>ui_world := w\<rparr>))"

definition calc :: "'a ev \<Rightarrow> 'a ui" where
  "calc m = in_world (lift m)"

text \<open>\<open>_getch_compat\<close>\<close>

definition getch :: "key ui" where
  "getch = (\<lambda>s. case ui_keys s of
     [] \<Rightarrow> Inl NoReturn
   | (k, sz) # ks \<Rightarrow> Inr (k, s\<lparr>ui_keys := ks, ui_size := sz\<rparr>))"

text \<open>Indexing a list, and \<open>list.index\<close>.\<close>

definition py_nth :: "'a list \<Rightarrow> int \<Rightarrow> ('s, 'a) eff" where
  "py_nth xs i =
     (if 0 \<le> i \<and> i < int (length xs) then ret (xs ! nat i)
      else if i < 0 \<and> 0 \<le> int (length xs) + i then ret (xs ! nat (int (length xs) + i))
      else raise IndexError)"

fun index_of :: "'a list \<Rightarrow> 'a \<Rightarrow> nat option" where
  "index_of [] x = None"
| "index_of (y # ys) x = (if y = x then Some 0 else map_option Suc (index_of ys x))"

definition py_index :: "'a list \<Rightarrow> 'a \<Rightarrow> ('s, int) eff" where
  "py_index xs x = of_option ValueError (map_option int (index_of xs x))"

text \<open>The slices \<open>xs[i::-1]\<close> and \<open>xs[i:]\<close>\<close>

definition slice_back :: "'a list \<Rightarrow> int \<Rightarrow> 'a list" where
  "slice_back xs i =
     (let j = (if i < 0 then int (length xs) + i else i) in if j < 0 then [] else rev (take (nat j + 1) xs))"

definition slice_from :: "'a list \<Rightarrow> int \<Rightarrow> 'a list" where
  "slice_from xs i = (if i < 0 then drop (nat (int (length xs) + i)) xs else drop (nat i) xs)"

section \<open>The menu window\<close>

text \<open>
  \<open>_resize_main\<close>: the height of the menu window, with the 4 lines of \<open>_MAIN_HELP_LINES\<close>, and the scroll. The
  sizes and places of the other windows only concern drawing.
\<close>

definition menu_win_height :: "bool \<Rightarrow> int \<Rightarrow> int" where
  "menu_win_height show_help screen_height =
     (let h = screen_height - (if show_help then SHOW_HELP_HEIGHT else 4) - 3 in if h \<ge> 1 then h else 1)"

definition resize_main :: "unit ui" where
  "resize_main = modify (\<lambda>s.
     let h = menu_win_height (ui_show_help s) (fst (ui_size s))
     in s\<lparr>ui_height := h,
          ui_menu_scroll := (if ui_sel_node_i s - ui_menu_scroll s \<ge> h then ui_sel_node_i s - h + 1 else ui_menu_scroll s)\<rparr>)"

text \<open>\<open>_center_vertically\<close>\<close>

definition center_vertically :: "unit ui" where
  "center_vertically = modify (\<lambda>s. s\<lparr>ui_menu_scroll :=
     min (max (ui_sel_node_i s - ui_height s div 2) 0) (max_scroll (length (ui_shown s)) (ui_height s))\<rparr>)"

text \<open>\<open>_select_next_menu_entry\<close>, \<open>_select_prev_menu_entry\<close>, \<open>_select_last_menu_entry\<close>, \<open>_select_first_menu_entry\<close>\<close>

definition select_next_menu_entry :: "unit ui" where
  "select_next_menu_entry = modify (\<lambda>s.
     if ui_sel_node_i s < int (length (ui_shown s)) - 1 then
       (let i = ui_sel_node_i s + 1 in
        s\<lparr>ui_sel_node_i := i,
          ui_menu_scroll := (if i \<ge> ui_menu_scroll s + ui_height s - SCROLL_OFFSET \<and>
              ui_menu_scroll s < max_scroll (length (ui_shown s)) (ui_height s)
            then ui_menu_scroll s + 1 else ui_menu_scroll s)\<rparr>)
     else s)"

definition select_prev_menu_entry :: "unit ui" where
  "select_prev_menu_entry = modify (\<lambda>s.
     if ui_sel_node_i s > 0 then
       (let i = ui_sel_node_i s - 1 in
        s\<lparr>ui_sel_node_i := i,
          ui_menu_scroll := (if i < ui_menu_scroll s + SCROLL_OFFSET then max (ui_menu_scroll s - 1) 0
            else ui_menu_scroll s)\<rparr>)
     else s)"

definition select_last_menu_entry :: "unit ui" where
  "select_last_menu_entry = modify (\<lambda>s.
     s\<lparr>ui_sel_node_i := int (length (ui_shown s)) - 1,
       ui_menu_scroll := max_scroll (length (ui_shown s)) (ui_height s)\<rparr>)"

definition select_first_menu_entry :: "unit ui" where
  "select_first_menu_entry = modify (\<lambda>s. s\<lparr>ui_sel_node_i := 0, ui_menu_scroll := 0\<rparr>)"

section \<open>Moving between menus\<close>

text \<open>\<open>_shown_nodes\<close> in the current mode, and the node under the cursor\<close>

definition shown_now :: "tenv \<Rightarrow> noderef \<Rightarrow> noderef list ui" where
  "shown_now T menu =
     bind (gets ui_show_all) (\<lambda>al. calc (shown_nodes (t_kc T) (acs T) al (t_depth T) menu))"

definition sel_node :: "noderef ui" where
  "sel_node = bind (gets (\<lambda>s. (ui_shown s, ui_sel_node_i s))) (\<lambda>(xs, i). py_nth xs i)"

text \<open>\<open>_select_selected_choice_sym\<close>, in the menu of the choice \<open>c\<close>\<close>

definition select_selected_choice_sym :: "tenv \<Rightarrow> choiceref \<Rightarrow> unit ui" where
  "select_selected_choice_sym T c =
     bind (calc (a_sel (acs T) c)) (\<lambda>sel. case sel of
       None \<Rightarrow> ret ()
     | Some t \<Rightarrow>
         bind (gets ui_shown) (\<lambda>xs.
         case firstp (index_of xs) (s_nodes (k_sym (t_kc T) t)) of
           None \<Rightarrow> ret ()
         | Some i \<Rightarrow> bind (modify (\<lambda>s. s\<lparr>ui_sel_node_i := int i\<rparr>)) (\<lambda>_. center_vertically)))"

text \<open>\<open>_enter_menu\<close>\<close>

definition enter_menu :: "tenv \<Rightarrow> noderef \<Rightarrow> bool ui" where
  "enter_menu T menu =
     (if \<not> n_is_menuconfig (unode T menu) then ret False
      else bind (shown_now T menu) (\<lambda>sub.
        if sub = [] then ret False
        else
          bind (modify (\<lambda>s. s\<lparr>ui_parent_screen_rows := ui_parent_screen_rows s @ [ui_sel_node_i s - ui_menu_scroll s],
                ui_cur_menu := menu, ui_shown := sub, ui_sel_node_i := 0, ui_menu_scroll := 0\<rparr>)) (\<lambda>_.
          bind (case n_item (unode T menu) of NCho c \<Rightarrow> select_selected_choice_sym T c | _ \<Rightarrow> ret ()) (\<lambda>_. ret True))))"

text \<open>\<open>_leave_menu\<close>\<close>

definition leave_menu :: "tenv \<Rightarrow> unit ui" where
  "leave_menu T =
     bind (gets ui_cur_menu) (\<lambda>cur.
     if cur = k_top_node (t_kc T) then ret ()
     else
       bind (of_result (parent_menu (t_kc T) (t_depth T) cur)) (\<lambda>parent.
       bind (shown_now T parent) (\<lambda>xs.
       bind (modify (\<lambda>s. s\<lparr>ui_shown := xs\<rparr>)) (\<lambda>_.
       bind (py_index xs cur) (\<lambda>i.
       bind (modify (\<lambda>s. s\<lparr>ui_sel_node_i := i, ui_cur_menu := parent\<rparr>)) (\<lambda>_.
       bind (gets ui_parent_screen_rows) (\<lambda>rows.
       if rows \<noteq> [] then
         modify (\<lambda>s. s\<lparr>ui_parent_screen_rows := butlast rows,
           ui_menu_scroll := max (i - min (last rows) (ui_height s - 1)) 0\<rparr>)
       else center_vertically)))))))"

text \<open>
  \<open>_toggle_show_all\<close>: the entry to select is looked for from the selected one backwards, then forwards.
\<close>

definition toggle_show_all :: "tenv \<Rightarrow> unit ui" where
  "toggle_show_all T =
     bind (gets (\<lambda>s. ui_sel_node_i s - ui_menu_scroll s)) (\<lambda>old_row.
     bind (modify (\<lambda>s. s\<lparr>ui_show_all := \<not> ui_show_all s\<rparr>)) (\<lambda>_.
     bind (gets ui_cur_menu) (\<lambda>cur.
     bind (shown_now T cur) (\<lambda>new_shown.
     bind (gets (\<lambda>s. (ui_shown s, ui_sel_node_i s))) (\<lambda>(xs, i).
     case firstp (index_of new_shown) (slice_back xs i @ slice_from xs (i + 1)) of
       None \<Rightarrow> modify (\<lambda>s. s\<lparr>ui_show_all := True\<rparr>)
     | Some j \<Rightarrow> modify (\<lambda>s. s\<lparr>ui_sel_node_i := int j, ui_shown := new_shown,
         ui_menu_scroll := max (int j - old_row) 0\<rparr>))))))"

text \<open>\<open>_jump_to\<close>\<close>

definition jump_to :: "tenv \<Rightarrow> noderef \<Rightarrow> unit ui" where
  "jump_to T target =
     (let N = unode T target;
          into = (case n_item N of NCho _ \<Rightarrow> n_list N | NMenu \<Rightarrow> n_list N | _ \<Rightarrow> None);
          node = (case into of Some l \<Rightarrow> l | None \<Rightarrow> target)
      in bind (modify (\<lambda>s. s\<lparr>ui_parent_screen_rows := []\<rparr>)) (\<lambda>_.
         bind (gets ui_show_all) (\<lambda>old_show_all.
         bind (if into \<noteq> None then ret target
               else of_result (parent_menu (t_kc T) (t_depth T) target)) (\<lambda>menu.
         bind (modify (\<lambda>s. s\<lparr>ui_cur_menu := menu\<rparr>)) (\<lambda>_.
         bind (shown_now T menu) (\<lambda>xs.
         bind (modify (\<lambda>s. s\<lparr>ui_shown := xs\<rparr>)) (\<lambda>_.
         bind (if node \<notin> set xs then
                 bind (modify (\<lambda>s. s\<lparr>ui_show_all := True\<rparr>)) (\<lambda>_.
                 bind (shown_now T menu) (\<lambda>ys. modify (\<lambda>s. s\<lparr>ui_shown := ys\<rparr>)))
               else ret ()) (\<lambda>_.
         bind (gets ui_shown) (\<lambda>xs.
         bind (py_index xs node) (\<lambda>i.
         bind (modify (\<lambda>s. s\<lparr>ui_sel_node_i := i\<rparr>)) (\<lambda>_.
         bind (gets ui_show_all) (\<lambda>al.
         bind (if into \<noteq> None \<and> \<not> old_show_all \<and> al then toggle_show_all T else ret ()) (\<lambda>_.
         bind center_vertically (\<lambda>_.
         case n_item (unode T menu) of
           NCho c \<Rightarrow> if into \<noteq> None then select_selected_choice_sym T c else ret ()
         | _ \<Rightarrow> ret ()))))))))))))))"

section \<open>Dialogs\<close>

text \<open>
  \<open>_input_dialog\<close>: the width of the dialog follows from its title, the lines of information and the terminal.
  Every round reads a key, so that one round more than there are keys is enough.
\<close>

definition dialog_width :: "string \<Rightarrow> string list \<Rightarrow> int \<Rightarrow> int" where
  "dialog_width ttl info_lines screen_width =
     min (fold max (map (\<lambda>l. int (length l) + 4) (ttl # info_lines)) INPUT_DIALOG_MIN_WIDTH) screen_width"

fun input_loop :: "tenv \<Rightarrow> string \<Rightarrow> string list \<Rightarrow> nat \<Rightarrow> int \<Rightarrow> string \<Rightarrow> nat \<Rightarrow> int \<Rightarrow> string option ui" where
  "input_loop T ttl info 0 width s i hscroll = raise NoReturn"
| "input_loop T ttl info (Suc n) width s i hscroll =
     bind getch (\<lambda>c.
     if c = KEY_RESIZE then
       bind resize_main (\<lambda>_. bind (gets (\<lambda>s. snd (ui_size s))) (\<lambda>sw.
         input_loop T ttl info n (dialog_width ttl info sw) s i hscroll))
     else if c = KeyChar NL then ret (Some s)
     else if c = KeyChar (CHR 0x1B) then ret None
     else if c = KeyChar (CHR 0x00) then input_loop T ttl info n width s i hscroll
     else (let (s', i', h') = edit_text (t_erase T) c s i hscroll (width - 4)
           in input_loop T ttl info n width s' i' h'))"

definition input_dialog :: "tenv \<Rightarrow> string \<Rightarrow> string \<Rightarrow> string option \<Rightarrow> string option ui" where
  "input_dialog T ttl initial_text info_text =
     (let info = (case info_text of None \<Rightarrow> [] | Some t \<Rightarrow> if t = [] then [] else split_nl t) in
      bind (gets (\<lambda>s. (length (ui_keys s), snd (ui_size s)))) (\<lambda>(l, sw).
      let width = dialog_width ttl info sw; i = length initial_text
      in input_loop T ttl info (Suc l) width initial_text i (max (int i - (width - 4) + 1) 0)))"

text \<open>\<open>_key_dialog\<close> returns a key, or \<open>None\<close> after ESC; \<open>_msg\<close> and \<open>_error\<close> wait for Space or Enter.\<close>

fun key_loop :: "string \<Rightarrow> nat \<Rightarrow> char option ui" where
  "key_loop keys 0 = raise NoReturn"
| "key_loop keys (Suc n) =
     bind getch (\<lambda>c.
     if c = KEY_RESIZE then bind resize_main (\<lambda>_. key_loop keys n)
     else if c = KeyChar (CHR 0x1B) then ret None
     else case c of
       KeyChar x \<Rightarrow> if lower_char x \<in> set keys then ret (Some (lower_char x)) else key_loop keys n
     | _ \<Rightarrow> key_loop keys n)"

definition key_dialog :: "string \<Rightarrow> char option ui" where
  "key_dialog keys = bind (gets (\<lambda>s. length (ui_keys s))) (\<lambda>l. key_loop keys (Suc l))"

definition show_msg :: "unit ui" where
  "show_msg = bind (key_dialog [SPC, NL]) (\<lambda>_. ret ())"

section \<open>Changing values\<close>

text \<open>\<open>_update_menu\<close>\<close>

definition update_menu :: "tenv \<Rightarrow> unit ui" where
  "update_menu T =
     bind (gets (\<lambda>s. ui_sel_node_i s - ui_menu_scroll s)) (\<lambda>old_row.
     bind sel_node (\<lambda>sel.
     bind (gets ui_cur_menu) (\<lambda>cur.
     bind (shown_now T cur) (\<lambda>xs.
     bind (modify (\<lambda>s. s\<lparr>ui_shown := xs\<rparr>)) (\<lambda>_.
     bind (py_index xs sel) (\<lambda>i.
     modify (\<lambda>s. s\<lparr>ui_sel_node_i := i, ui_menu_scroll := max (i - old_row) 0\<rparr>)))))))"

text \<open>\<open>_set_val\<close>\<close>

definition val_str :: "pyval \<Rightarrow> string" where
  "val_str v = (case v of PInt n \<Rightarrow> tri_to_str n | PStr x \<Rightarrow> x)"

definition set_val :: "tenv \<Rightarrow> item \<Rightarrow> pyval \<Rightarrow> unit ui" where
  "set_val T sc v =
     (let x = val_str v in
      bind (calc (sc_str_value (t_kc T) (acs T) sc)) (\<lambda>cur.
      if x \<noteq> cur then
        bind (calc (sc_set_value (t_kc T) (t_depth T) sc (PStr x))) (\<lambda>_.
        bind (modify (\<lambda>s. s\<lparr>ui_conf_changed := True\<rparr>)) (\<lambda>_. update_menu T))
      else ret ()))"

text \<open>The loop of \<open>_change_node\<close> that asks for a text until it is accepted.\<close>

definition entered :: "stype \<Rightarrow> string \<Rightarrow> string" where
  "entered t s =
     (if int_hex t then
        (let x = py_strip s in
         if t = HEX \<and> \<not> (startswith x ''0x'' \<or> startswith x ''0X'') then ''0x'' @ x else x)
      else s)"

fun ask_loop :: "tenv \<Rightarrow> string \<Rightarrow> item \<Rightarrow> nat \<Rightarrow> string \<Rightarrow> unit ui" where
  "ask_loop T ttl sc 0 s = raise NoReturn"
| "ask_loop T ttl sc (Suc n) s =
     bind (calc (range_info (t_kc T) (acs T) sc)) (\<lambda>info.
     bind (input_dialog T ttl s info) (\<lambda>r. case r of
       None \<Rightarrow> ret ()
     | Some s \<Rightarrow>
         (let x = entered (sc_orig_type (t_kc T) sc) s in
          bind (calc (check_valid (t_kc T) (acs T) sc x)) (\<lambda>err.
          if err = None then set_val T sc (PStr x)
          else bind show_msg (\<lambda>_. ask_loop T ttl sc n x)))))"

text \<open>\<open>_change_node\<close>\<close>

definition next_tri :: "nat list \<Rightarrow> nat \<Rightarrow> ('s, nat) eff" where
  "next_tri as v = bind (py_index as v) (\<lambda>i. ret (as ! (nat (i + 1) mod length as)))"

definition change_sc :: "tenv \<Rightarrow> noderef \<Rightarrow> item \<Rightarrow> unit ui" where
  "change_sc T x sc =
     (let t = sc_orig_type (t_kc T) sc in
      if text_type t then
        bind (calc (sc_str_value (t_kc T) (acs T) sc)) (\<lambda>s.
        bind (gets (\<lambda>s. length (ui_keys s))) (\<lambda>l.
        ask_loop T ((case n_prompt (unode T x) of Some (p, _) \<Rightarrow> p | None \<Rightarrow> []) @ '' ('' @ type_to_str t @ '')'')
          sc (Suc l) s))
      else
        bind (calc (sc_assignable (t_kc T) (acs T) sc)) (\<lambda>as.
        if length as = 1 then set_val T sc (PInt (hd as))
        else bind (calc (sc_tri (t_kc T) (acs T) sc)) (\<lambda>v.
          bind (next_tri as v) (\<lambda>w. set_val T sc (PInt w)))))"

definition change_node :: "tenv \<Rightarrow> noderef \<Rightarrow> bool ui" where
  "change_node T x =
     bind (calc (changeable (t_kc T) (acs T) x)) (\<lambda>ok.
     if \<not> ok then ret False
     else case node_sc (unode T x) of
       None \<Rightarrow> ret False
     | Some sc \<Rightarrow>
         bind (change_sc T x sc) (\<lambda>_.
         bind (calc (is_y_mode_choice_sym (t_kc T) (acs T) sc)) (\<lambda>y.
         bind (if y \<and> n_list (unode T x) = None then leave_menu T else ret ()) (\<lambda>_. ret True))))"

text \<open>\<open>_set_sel_node_tri_val\<close>\<close>

definition set_sel_node_tri_val :: "tenv \<Rightarrow> nat \<Rightarrow> unit ui" where
  "set_sel_node_tri_val T v =
     bind sel_node (\<lambda>x. case node_sc (unode T x) of
       None \<Rightarrow> ret ()
     | Some sc \<Rightarrow> bind (calc (sc_assignable (t_kc T) (acs T) sc)) (\<lambda>as.
         if v \<in> set as then set_val T sc (PInt v) else ret ()))"

section \<open>Loading and saving\<close>

text \<open>\<open>_needs_save\<close>\<close>

definition sym_outdated :: "kconfig \<Rightarrow> acc \<Rightarrow> symref \<Rightarrow> bool ev" where
  "sym_outdated K A s =
     bind (gets (\<lambda>d. user_value d s)) (\<lambda>uv. case uv of
       None \<Rightarrow> bind (config_string K A s) (\<lambda>x. ret (x \<noteq> []))
     | Some u \<Rightarrow>
         if bool_tristate (otype K s) then bind (a_tri A s) (\<lambda>v. ret (PInt v \<noteq> u))
         else bind (a_str A s) (\<lambda>v. ret (PStr v \<noteq> u)))"

definition needs_save :: "kconfig \<Rightarrow> acc \<Rightarrow> bool ev" where
  "needs_save K A =
     bind (gets missing_syms) (\<lambda>ms.
     if ms \<noteq> [] then ret True
     else bind (firstm (\<lambda>s. bind (sym_outdated K A s) (\<lambda>b. ret (if b then Some () else None)))
                 (k_unique_defined_syms K)) (\<lambda>r. ret (r \<noteq> None)))"

text \<open>
  \<open>_try_load\<close>: a file that cannot be opened is reported; nothing has changed then. \<open>_try_save\<close> on the two
  methods that write: their steps, with the report in place of the \<open>OSError\<close> of the last one.
\<close>

definition try_load_ui :: "tenv \<Rightarrow> string \<Rightarrow> bool ui" where
  "try_load_ui T f =
     bind (in_world (open_config f)) (\<lambda>r. case r of
       None \<Rightarrow> bind show_msg (\<lambda>_. ret False)
     | Some _ \<Rightarrow> bind (in_world (load_config_io (t_kc T) (t_depth T) (acs T) (Some f) True)) (\<lambda>_. ret True))"

datatype saver = WriteConfig | WriteMinConfig

definition put_or_fail :: "string \<Rightarrow> string \<Rightarrow> string \<Rightarrow> string option io" where
  "put_or_fail f contents msg =
     bind (gets (\<lambda>w. w_denied w f)) (\<lambda>denied.
     if denied then ret None else bind (put_file f contents) (\<lambda>_. ret (Some (quoted msg f))))"

definition save_io :: "tenv \<Rightarrow> saver \<Rightarrow> string \<Rightarrow> string option io" where
  "save_io T fn f =
     (case fn of
        WriteConfig \<Rightarrow>
          bind (lift (config_contents (t_kc T) (t_depth T) (acs T) None)) (\<lambda>contents.
          bind (contents_eq f contents) (\<lambda>same.
          if same then ret (Some (quoted ''No change to configuration in '' f))
          else bind (save_old f) (\<lambda>_. put_or_fail f contents ''Configuration saved to '')))
      | WriteMinConfig \<Rightarrow>
          bind (lift (min_config_contents (t_kc T) (acs T) None)) (\<lambda>contents.
          bind (contents_eq f contents) (\<lambda>same.
          if same then ret (Some (quoted ''No change to minimal configuration in '' f))
          else put_or_fail f contents ''Minimal configuration saved to '')))"

definition try_save :: "tenv \<Rightarrow> saver \<Rightarrow> string \<Rightarrow> string option ui" where
  "try_save T fn f =
     bind (in_world (save_io T fn f)) (\<lambda>r. case r of
       None \<Rightarrow> bind show_msg (\<lambda>_. ret None)
     | Some msg \<Rightarrow> ret (Some msg))"

definition load_save_info :: "tenv \<Rightarrow> string" where
  "load_save_info T = ''(Relative to '' @ t_cwd T @ '')'' @ [NL, NL] @ ''Refer to your home directory with ~''"

text \<open>\<open>_load_dialog\<close>\<close>

definition after_load :: "tenv \<Rightarrow> string \<Rightarrow> unit ui" where
  "after_load T f =
     bind (calc (needs_save (t_kc T) (acs T))) (\<lambda>changed.
     bind (modify (\<lambda>s. s\<lparr>ui_conf_filename := f, ui_conf_changed := changed\<rparr>)) (\<lambda>_.
     bind sel_node (\<lambda>x.
     bind (gets ui_cur_menu) (\<lambda>cur.
     bind (shown_now T cur) (\<lambda>xs.
     bind (if x \<notin> set xs then modify (\<lambda>s. s\<lparr>ui_show_all := True\<rparr>) else ret ()) (\<lambda>_.
     bind (update_menu T) (\<lambda>_. show_msg)))))))"

fun load_loop :: "tenv \<Rightarrow> nat \<Rightarrow> string \<Rightarrow> unit ui" where
  "load_loop T 0 f = raise NoReturn"
| "load_loop T (Suc n) f =
     bind (input_dialog T ''File to load'' f (Some (load_save_info T))) (\<lambda>r. case r of
       None \<Rightarrow> ret ()
     | Some f \<Rightarrow>
         (let f = t_expanduser T f in
          bind (try_load_ui T f) (\<lambda>ok. if ok then after_load T f else load_loop T n f)))"

definition load_dialog :: "tenv \<Rightarrow> unit ui" where
  "load_dialog T =
     bind (gets ui_conf_changed) (\<lambda>changed.
     bind (if changed then bind (key_dialog ''oc'') (\<lambda>c. ret (c \<noteq> None \<and> c \<noteq> Some (CHR ''c''))) else ret True) (\<lambda>go.
     if go then bind (gets (\<lambda>s. (ui_conf_filename s, length (ui_keys s)))) (\<lambda>(f, l). load_loop T (Suc l) f) else ret ()))"

text \<open>\<open>_save_dialog\<close>\<close>

definition save_title :: "saver \<Rightarrow> string" where
  "save_title fn = ''Filename to save '' @
     (case fn of WriteConfig \<Rightarrow> ''configuration'' | WriteMinConfig \<Rightarrow> ''minimal configuration'') @ '' to''"

fun save_loop :: "tenv \<Rightarrow> saver \<Rightarrow> nat \<Rightarrow> string \<Rightarrow> string option ui" where
  "save_loop T fn 0 f = raise NoReturn"
| "save_loop T fn (Suc n) f =
     bind (input_dialog T (save_title fn) f (Some (load_save_info T))) (\<lambda>r. case r of
       None \<Rightarrow> ret None
     | Some f \<Rightarrow>
         (let f = t_expanduser T f in
          bind (try_save T fn f) (\<lambda>msg.
          if msg \<noteq> None \<and> msg \<noteq> Some [] then bind show_msg (\<lambda>_. ret (Some f)) else save_loop T fn n f)))"

definition save_dialog :: "tenv \<Rightarrow> saver \<Rightarrow> string \<Rightarrow> string option ui" where
  "save_dialog T fn f = bind (gets (\<lambda>s. length (ui_keys s))) (\<lambda>l. save_loop T fn (Suc l) f)"

text \<open>\<open>_quit_dialog\<close>: the message the program ends with\<close>

fun quit_loop :: "tenv \<Rightarrow> nat \<Rightarrow> string option ui" where
  "quit_loop T 0 = raise NoReturn"
| "quit_loop T (Suc n) =
     bind (key_dialog ''ync'') (\<lambda>c.
     if c = None \<or> c = Some (CHR ''c'') then ret None
     else bind (gets ui_conf_filename) (\<lambda>f.
       if c = Some (CHR ''y'') then
         bind (try_save T WriteConfig f) (\<lambda>msg. if msg \<noteq> None \<and> msg \<noteq> Some [] then ret msg else quit_loop T n)
       else ret (Some (''Configuration ('' @ f @ '') was not saved''))))"

definition quit_dialog :: "tenv \<Rightarrow> string option ui" where
  "quit_dialog T =
     bind (gets (\<lambda>s. (ui_conf_changed s, ui_conf_filename s, length (ui_keys s)))) (\<lambda>(changed, f, l).
     if \<not> changed then ret (Some (''No changes to save (for '' @ [CHR 0x27] @ f @ [CHR 0x27] @ '')''))
     else quit_loop T (Suc l))"

section \<open>The information and jump-to dialogs\<close>

text \<open>
  \<open>_info_dialog\<close> as it is opened from the jump-to dialog: it shows the text of \<open>_info_str\<close> until a key closes
  it. The 2 lines are those of \<open>_INFO_HELP_LINES\<close>; the loop carries the height of the text window and the scroll.
\<close>

definition info_height :: "int \<Rightarrow> int" where
  "info_height screen_height = (let h = screen_height - 2 - 2 in if h \<ge> 1 then h else 1)"

definition info_move :: "nat \<Rightarrow> int \<Rightarrow> key \<Rightarrow> int \<Rightarrow> int option" where
  "info_move l h c scroll =
     (if c \<in> {KEY_DOWN, KeyChar (CHR ''j''), KeyChar (CHR ''J'')} then
        Some (if scroll < max_scroll l h then scroll + 1 else scroll)
      else if c \<in> {KEY_NPAGE, KeyChar (CHR 0x04)} then Some (min (scroll + int PG_JUMP) (max_scroll l h))
      else if c \<in> {KEY_PPAGE, KeyChar (CHR 0x15)} then Some (max (scroll - int PG_JUMP) 0)
      else if c \<in> {KEY_END, KeyChar (CHR ''G'')} then Some (max_scroll l h)
      else if c \<in> {KEY_HOME, KeyChar (CHR ''g'')} then Some 0
      else if c \<in> {KEY_UP, KeyChar (CHR ''k''), KeyChar (CHR ''K'')} then Some (if scroll > 0 then scroll - 1 else scroll)
      else None)"

definition info_closes :: "tenv \<Rightarrow> key \<Rightarrow> bool" where
  "info_closes T c = (c \<in> {KEY_LEFT, KEY_BACKSPACE, KeyChar (t_erase T), KeyChar (CHR 0x1B),
     KeyChar (CHR ''q''), KeyChar (CHR ''Q''), KeyChar (CHR ''h''), KeyChar (CHR ''H'')})"

definition new_info_height :: "int ui" where
  "new_info_height = gets (\<lambda>s. info_height (fst (ui_size s)))"

text \<open>The loop; \<open>srch\<close> is what \<^verbatim>\<open>/\<close> does: whether the dialog closes because the user has jumped to a symbol.\<close>

fun info_loop :: "tenv \<Rightarrow> bool ui \<Rightarrow> nat \<Rightarrow> nat \<Rightarrow> int \<Rightarrow> int \<Rightarrow> unit ui" where
  "info_loop T srch l 0 h scroll = raise NoReturn"
| "info_loop T srch l (Suc n) h scroll =
     bind getch (\<lambda>c.
     if c = KEY_RESIZE then bind new_info_height (\<lambda>h. info_loop T srch l n h scroll)
     else case info_move l h c scroll of
       Some scroll' \<Rightarrow> info_loop T srch l n h scroll'
     | None \<Rightarrow>
         if c = KeyChar (CHR ''/'') then
           bind srch (\<lambda>closed. if closed then ret () else bind new_info_height (\<lambda>h. info_loop T srch l n h scroll))
         else if info_closes T c then ret ()
         else info_loop T srch l n h scroll)"

definition info_dialog :: "tenv \<Rightarrow> bool ui \<Rightarrow> noderef \<Rightarrow> unit ui" where
  "info_dialog T srch x =
     bind (calc (info_str (t_kc T) (acs T) (t_depth T) x)) (\<lambda>text.
     bind new_info_height (\<lambda>h.
     bind (gets (\<lambda>s. length (ui_keys s))) (\<lambda>l.
     info_loop T srch (length (split_nl text)) (Suc l) h 0)))"

text \<open>\<open>str.split\<close>\<close>

fun py_split_aux :: "string \<Rightarrow> string \<Rightarrow> string list" where
  "py_split_aux w [] = (if w = [] then [] else [w])"
| "py_split_aux w (c # s) =
     (if py_isspace c then (if w = [] then [] else [w]) @ py_split_aux [] s else py_split_aux (w @ [c]) s)"

definition py_split :: "string \<Rightarrow> string list" where
  "py_split s = py_split_aux [] s"

text \<open>The nodes that match the text of the jump-to dialog; none when one of the expressions is malformed.\<close>

definition prompt_key :: "tenv \<Rightarrow> noderef \<Rightarrow> string" where
  "prompt_key T x = (case n_prompt (unode T x) of None \<Rightarrow> [] | Some (t, _) \<Rightarrow> t)"

definition sorted_menu_comment_nodes :: "tenv \<Rightarrow> noderef list" where
  "sorted_menu_comment_nodes T = sort_key (prompt_key T) (t_menus T) @ sort_key (prompt_key T) (t_comments T)"

definition find_matches :: "tenv \<Rightarrow> string \<Rightarrow> noderef list" where
  "find_matches T s =
     (let terms = py_split (lower_str s) in
      if \<exists>t \<in> set terms. t_re T t = None then []
      else let srch = (\<lambda>t. the (t_re T t)) in
        jump_matches (t_kc T) srch terms @
        filter (\<lambda>x. list_all (\<lambda>t. srch t (lower_str (prompt_key T x))) terms) (sorted_menu_comment_nodes T))"

text \<open>\<open>select_next_match\<close>, \<open>select_prev_match\<close> and \<open>_resize_jump_to_dialog\<close>, whose help has 5 lines\<close>

definition select_next_match :: "nat \<Rightarrow> int \<Rightarrow> int \<times> int \<Rightarrow> int \<times> int" where
  "select_next_match l h = (\<lambda>(i, scroll).
     if i = int l - 1 then (i, scroll)
     else if i + 1 \<ge> scroll + h - SCROLL_OFFSET \<and> scroll < max_scroll l h then (i + 1, scroll + 1)
     else (i + 1, scroll))"

definition select_prev_match :: "int \<times> int \<Rightarrow> int \<times> int" where
  "select_prev_match = (\<lambda>(i, scroll).
     if i = 0 then (i, scroll)
     else if i - 1 < scroll + SCROLL_OFFSET then (i - 1, max (scroll - 1) 0)
     else (i - 1, scroll))"

definition matches_height :: "int \<Rightarrow> int" where
  "matches_height screen_height = (let h = screen_height - 5 - 4 in if h \<ge> 1 then h else 1)"

definition resized_matches :: "int \<Rightarrow> int \<times> int \<Rightarrow> int \<times> int" where
  "resized_matches h = (\<lambda>(i, scroll). (i, if i - scroll \<ge> h then i - h + 1 else scroll))"

text \<open>
  \<open>_jump_to_dialog\<close>: the text with its cursor and horizontal scroll, the matches with the selected row and
  the scroll, the height of the list of matches and the width of the edit box.
\<close>

record jump_state =
  j_s :: string
  j_s_i :: nat
  j_hscroll :: int
  j_matches :: "noderef list"
  j_sel :: "int \<times> int"
  j_height :: int
  j_width :: int

definition jump_resize :: "jump_state \<Rightarrow> jump_state ui" where
  "jump_resize j = gets (\<lambda>s. let h = matches_height (fst (ui_size s)) in
     j\<lparr>j_height := h, j_width := snd (ui_size s), j_sel := resized_matches h (j_sel j)\<rparr>)"

definition jump_edit :: "tenv \<Rightarrow> key \<Rightarrow> jump_state \<Rightarrow> jump_state" where
  "jump_edit T c j =
     (let (s, i, h) = edit_text (t_erase T) c (j_s j) (j_s_i j) (j_hscroll j) (j_width j - 2);
          j' = j\<lparr>j_s := s, j_s_i := i, j_hscroll := h\<rparr>
      in if s \<noteq> j_s j then j'\<lparr>j_matches := find_matches T s, j_sel := (0, 0)\<rparr> else j')"

definition jump_move :: "key \<Rightarrow> jump_state \<Rightarrow> (int \<times> int) option" where
  "jump_move c j =
     (let l = length (j_matches j); next = select_next_match l (j_height j) in
      if c = KEY_DOWN then Some (next (j_sel j))
      else if c = KEY_UP then Some (select_prev_match (j_sel j))
      else if c \<in> {KEY_NPAGE, KeyChar (CHR 0x04)} then Some ((next ^^ PG_JUMP) (j_sel j))
      else if c = KEY_PPAGE then Some ((select_prev_match ^^ PG_JUMP) (j_sel j))
      else if c = KEY_END then Some (int l - 1, max_scroll l (j_height j))
      else if c = KEY_HOME then Some (0, 0)
      else None)"

fun jump_loop :: "tenv \<Rightarrow> nat \<Rightarrow> jump_state \<Rightarrow> bool ui" where
  "jump_loop T 0 j = raise NoReturn"
| "jump_loop T (Suc n) j =
     bind getch (\<lambda>c.
     if c = KeyChar NL then
       (if j_matches j = [] then jump_loop T n j
        else bind (py_nth (j_matches j) (fst (j_sel j))) (\<lambda>x. bind (jump_to T x) (\<lambda>_. ret True)))
     else if c = KeyChar (CHR 0x1B) then ret False
     else if c = KEY_RESIZE then bind (jump_resize j) (jump_loop T n)
     else if c = KeyChar (CHR 0x06) then
       (if j_matches j = [] then jump_loop T n j
        else bind (py_nth (j_matches j) (fst (j_sel j))) (\<lambda>x.
          bind (info_dialog T (ret True) x) (\<lambda>_. bind (jump_resize j) (jump_loop T n))))
     else case jump_move c j of
       Some sel \<Rightarrow> jump_loop T n (j\<lparr>j_sel := sel\<rparr>)
     | None \<Rightarrow> if c = KeyChar (CHR 0x00) then jump_loop T n j else jump_loop T n (jump_edit T c j))"

definition jump_to_dialog :: "tenv \<Rightarrow> bool ui" where
  "jump_to_dialog T =
     bind (jump_resize \<lparr>j_s = [], j_s_i = 0, j_hscroll = 0, j_matches = find_matches T [], j_sel = (0, 0),
       j_height = 1, j_width = 1\<rparr>) (\<lambda>j.
     bind (gets (\<lambda>s. length (ui_keys s))) (\<lambda>l. jump_loop T (Suc l) j))"

section \<open>The main loop\<close>

text \<open>
  The branches of \<open>_menuconfig\<close> for the key \<open>c\<close>: the message to print when the program ends, otherwise \<open>None\<close>.
\<close>

definition is_key :: "key \<Rightarrow> string \<Rightarrow> bool" where
  "is_key c xs = (c \<in> KeyChar ` set xs)"

text \<open>The branches that move the cursor.\<close>

definition cursor_key :: "key \<Rightarrow> unit ui option" where
  "cursor_key c =
     (let times = (\<lambda>m. foldm (\<lambda>_ _. m) (replicate PG_JUMP ()) ()) in
      if c = KEY_RESIZE then Some resize_main
      else if c = KEY_DOWN \<or> is_key c ''jJ'' then Some select_next_menu_entry
      else if c = KEY_UP \<or> is_key c ''kK'' then Some select_prev_menu_entry
      else if c = KEY_NPAGE \<or> is_key c [CHR 0x04] then Some (times select_next_menu_entry)
      else if c = KEY_PPAGE \<or> is_key c [CHR 0x15] then Some (times select_prev_menu_entry)
      else if c = KEY_END \<or> is_key c ''G'' then Some select_last_menu_entry
      else if c = KEY_HOME \<or> is_key c ''g'' then Some select_first_menu_entry
      else None)"

text \<open>The branches that enter menus and change values.\<close>

definition value_key :: "tenv \<Rightarrow> key \<Rightarrow> unit ui option" where
  "value_key T c =
     (if is_key c [SPC] then
        Some (bind sel_node (\<lambda>x. bind (change_node T x) (\<lambda>ok. if ok then ret () else bind (enter_menu T x) (\<lambda>_. ret ()))))
      else if c = KEY_RIGHT \<or> is_key c [NL, CHR ''l'', CHR ''L''] then
        Some (bind sel_node (\<lambda>x. bind (enter_menu T x) (\<lambda>ok. if ok then ret () else bind (change_node T x) (\<lambda>_. ret ()))))
      else if is_key c ''nN'' then Some (set_sel_node_tri_val T 0)
      else if is_key c ''mM'' then Some (set_sel_node_tri_val T 1)
      else if is_key c ''yY'' then Some (set_sel_node_tri_val T 2)
      else None)"

text \<open>The branches that open dialogs and switch modes.\<close>

definition save_config_key :: "tenv \<Rightarrow> unit ui" where
  "save_config_key T =
     bind (gets ui_conf_filename) (\<lambda>f. bind (save_dialog T WriteConfig f) (\<lambda>r. case r of
       None \<Rightarrow> ret ()
     | Some g \<Rightarrow> if g = [] then ret () else modify (\<lambda>s. s\<lparr>ui_conf_filename := g, ui_conf_changed := False\<rparr>)))"

definition save_minconf_key :: "tenv \<Rightarrow> unit ui" where
  "save_minconf_key T =
     bind (gets ui_minconf_filename) (\<lambda>f. bind (save_dialog T WriteMinConfig f) (\<lambda>r. case r of
       None \<Rightarrow> ret ()
     | Some g \<Rightarrow> if g = [] then ret () else modify (\<lambda>s. s\<lparr>ui_minconf_filename := g\<rparr>)))"

definition dialog_key :: "tenv \<Rightarrow> key \<Rightarrow> unit ui option" where
  "dialog_key T c =
     (if is_key c ''oO'' then Some (load_dialog T)
      else if is_key c ''sS'' then Some (save_config_key T)
      else if is_key c ''dD'' then Some (save_minconf_key T)
      else if is_key c ''/'' then Some (bind (jump_to_dialog T) (\<lambda>_. resize_main))
      else if is_key c ''?'' then
        Some (bind sel_node (\<lambda>x. bind (info_dialog T (jump_to_dialog T) x) (\<lambda>_. resize_main)))
      else if is_key c ''fF'' then Some (bind (modify (\<lambda>s. s\<lparr>ui_show_help := \<not> ui_show_help s\<rparr>)) (\<lambda>_. resize_main))
      else if is_key c ''cC'' then Some (modify (\<lambda>s. s\<lparr>ui_show_name := \<not> ui_show_name s\<rparr>))
      else if is_key c ''aA'' then Some (toggle_show_all T)
      else None)"

definition leave_key :: "tenv \<Rightarrow> key \<Rightarrow> bool" where
  "leave_key T c = (c = KEY_LEFT \<or> c = KEY_BACKSPACE \<or> is_key c [t_erase T, CHR 0x1B, CHR ''h'', CHR ''H''])"

definition main_key :: "tenv \<Rightarrow> key \<Rightarrow> string option ui" where
  "main_key T c =
     (let go = (\<lambda>m. bind m (\<lambda>_. ret None)) in
      case cursor_key c of Some m \<Rightarrow> go m | None \<Rightarrow>
     (case value_key T c of Some m \<Rightarrow> go m | None \<Rightarrow>
      if leave_key T c then
        bind (gets ui_cur_menu) (\<lambda>cur.
        if c = KeyChar (CHR 0x1B) \<and> cur = k_top_node (t_kc T) then quit_dialog T else go (leave_menu T))
      else (case dialog_key T c of Some m \<Rightarrow> go m | None \<Rightarrow>
        if is_key c ''qQ'' then quit_dialog T else ret None)))"

text \<open>One round of the loop; a message that is the empty string does not end it.\<close>

definition main_round :: "tenv \<Rightarrow> string option ui" where
  "main_round T = bind getch (main_key T)"

fun main_loop :: "tenv \<Rightarrow> nat \<Rightarrow> string ui" where
  "main_loop T 0 = raise NoReturn"
| "main_loop T (Suc n) = bind (main_round T) (\<lambda>r. case r of
     None \<Rightarrow> main_loop T n
   | Some msg \<Rightarrow> if msg = [] then main_loop T n else ret msg)"

text \<open>
  \<open>menuconfig\<close> with \<open>_load_config\<close>, up to the start of the loop: \<open>False\<close> when nothing is visible even in
  show-all mode. \<open>_init\<close> sets the rest of the state.
\<close>

definition load_initial :: "tenv \<Rightarrow> bool ui" where
  "load_initial T =
     bind (in_world standard_config_filename) (\<lambda>f.
     bind (in_world (load_config_io (t_kc T) (t_depth T) (acs T) None True)) (\<lambda>_.
     bind (gets (\<lambda>s. exists_path (ui_world s) f)) (\<lambda>found.
     bind (if \<not> found then ret True else calc (needs_save (t_kc T) (acs T))) (\<lambda>changed.
     bind (modify (\<lambda>s. s\<lparr>ui_conf_filename := f, ui_conf_changed := changed, ui_minconf_filename := ''defconfig'',
       ui_show_all := False\<rparr>)) (\<lambda>_. ret changed)))))"

definition something_shown :: "tenv \<Rightarrow> bool ui" where
  "something_shown T =
     (let top = k_top_node (t_kc T) in
      bind (shown_now T top) (\<lambda>xs.
      if xs \<noteq> [] then ret True
      else bind (modify (\<lambda>s. s\<lparr>ui_show_all := True\<rparr>)) (\<lambda>_. bind (shown_now T top) (\<lambda>ys. ret (ys \<noteq> [])))))"

definition init_ui :: "tenv \<Rightarrow> unit ui" where
  "init_ui T =
     (let top = k_top_node (t_kc T) in
      bind (shown_now T top) (\<lambda>xs.
      bind (modify (\<lambda>s. s\<lparr>ui_parent_screen_rows := [], ui_cur_menu := top, ui_shown := xs, ui_sel_node_i := 0,
        ui_menu_scroll := 0, ui_show_help := False, ui_show_name := False\<rparr>)) (\<lambda>_. resize_main)))"

definition start_ui :: "tenv \<Rightarrow> bool ui" where
  "start_ui T =
     bind (load_initial T) (\<lambda>_.
     bind (something_shown T) (\<lambda>ok.
     if \<not> ok then ret False
     else bind (calc (modify (\<lambda>d. d\<lparr>warn := False\<rparr>))) (\<lambda>_. bind (init_ui T) (\<lambda>_. ret True))))"

end
