(* ===== verification/MenuCursor.thy ===== *)
theory MenuCursor
  imports MenuUI Steps
begin

text \<open>
  The cursor of the terminal interface (\<^verbatim>\<open>src/scripts/kconfig/menuconfig.py\<close>): after every key there is a
  selected entry, and the menu window shows it (\<open>ui_ok\<close>). The invariant holds for all configurations, keys
  and window sizes; it is proved for the functions of \<open>MenuUI\<close> one by one and holds in all states the
  main loop reaches (\<open>reached_ok\<close>).
\<close>

section \<open>The invariant\<close>

text \<open>The selected entry is one of the entries that are shown.\<close>

definition ui_in :: "tui \<Rightarrow> bool" where
  "ui_in s = (0 \<le> ui_sel_node_i s \<and> ui_sel_node_i s < int (length (ui_shown s)) \<and> 1 \<le> ui_height s \<and>
     (\<forall>r \<in> set (ui_parent_screen_rows s). 0 \<le> r))"

text \<open>It is on a row of the window.\<close>

definition ui_ok :: "tui \<Rightarrow> bool" where
  "ui_ok s = (ui_in s \<and> 0 \<le> ui_menu_scroll s \<and> ui_menu_scroll s \<le> ui_sel_node_i s \<and>
     ui_sel_node_i s < ui_menu_scroll s + ui_height s)"

lemma ui_in_frame [simp]:
  "ui_in (s\<lparr>ui_world := w\<rparr>) = ui_in s" "ui_in (s\<lparr>ui_keys := ks\<rparr>) = ui_in s" "ui_in (s\<lparr>ui_size := sz\<rparr>) = ui_in s"
  "ui_in (s\<lparr>ui_show_all := b\<rparr>) = ui_in s" "ui_in (s\<lparr>ui_cur_menu := m\<rparr>) = ui_in s"
  "ui_in (s\<lparr>ui_menu_scroll := i\<rparr>) = ui_in s" "ui_in (s\<lparr>ui_conf_changed := b\<rparr>) = ui_in s"
  by (simp_all add: ui_in_def)

lemma ui_ok_frame [simp]:
  "ui_ok (s\<lparr>ui_world := w\<rparr>) = ui_ok s" "ui_ok (s\<lparr>ui_keys := ks\<rparr>) = ui_ok s" "ui_ok (s\<lparr>ui_size := sz\<rparr>) = ui_ok s"
  "ui_ok (s\<lparr>ui_show_all := b\<rparr>) = ui_ok s" "ui_ok (s\<lparr>ui_cur_menu := m\<rparr>) = ui_ok s"
  "ui_ok (s\<lparr>ui_show_help := b\<rparr>) = ui_ok s" "ui_ok (s\<lparr>ui_show_name := b\<rparr>) = ui_ok s"
  "ui_ok (s\<lparr>ui_conf_filename := f\<rparr>) = ui_ok s" "ui_ok (s\<lparr>ui_minconf_filename := f\<rparr>) = ui_ok s"
  "ui_ok (s\<lparr>ui_conf_changed := b\<rparr>) = ui_ok s"
  by (simp_all add: ui_ok_def ui_in_def)

lemma ui_ok_in: "ui_ok s \<Longrightarrow> ui_in s"
  by (simp add: ui_ok_def)

text \<open>Computations that keep it.\<close>

definition steers :: "'a ui \<Rightarrow> bool" where
  "steers = within (\<lambda>s t. ui_ok s \<longrightarrow> ui_ok t)"

interpretation cursor: step_rel "\<lambda>s t. ui_ok s \<longrightarrow> ui_ok t"
  by unfold_locales auto

named_theorems steer_rules \<open>computations that keep the cursor in the window\<close>

lemmas steers_within [steer_rules] = cursor.within_rules [folded steers_def]
lemmas steers_modify = cursor.within_modify [folded steers_def]

lemma steersD: "steers m \<Longrightarrow> m s = Inr (x, t) \<Longrightarrow> ui_ok s \<Longrightarrow> ui_ok t"
  unfolding steers_def by (blast dest: withinD)

lemma steersI: "(\<And>s x t. m s = Inr (x, t) \<Longrightarrow> ui_ok s \<Longrightarrow> ui_ok t) \<Longrightarrow> steers m"
  by (simp add: steers_def within_def)

lemma steers_of_result [steer_rules]: "steers (of_result r)"
  by (cases r) (auto simp: of_result_def intro: steer_rules)

lemma steers_key_cases [steer_rules]:
  "(\<And>x. steers (f x)) \<Longrightarrow> steers m \<Longrightarrow> steers (case c of KeyChar x \<Rightarrow> f x | _ \<Rightarrow> m)"
  by (cases c) auto

section \<open>Runs\<close>

lemma calc_run: "calc m s = Inr (x, t) \<Longrightarrow> \<exists>w. t = s\<lparr>ui_world := w\<rparr>"
  by (auto simp: calc_def in_world_def split: sum.splits)

lemma shown_now_run: "shown_now T menu s = Inr (xs, t) \<Longrightarrow> \<exists>w. t = s\<lparr>ui_world := w\<rparr>"
  unfolding shown_now_def by (erule bind_InrE) (auto simp: gets_def dest: calc_run)

lemma index_of_Some: "index_of xs x = Some i \<Longrightarrow> i < length xs \<and> xs ! i = x"
  by (induction xs arbitrary: i) (auto split: if_splits)

lemma py_index_run: "py_index xs x s = Inr (i, t) \<Longrightarrow> t = s \<and> 0 \<le> i \<and> i < int (length xs) \<and> xs ! nat i = x"
  by (cases "index_of xs x") (auto simp: py_index_def raise_def ret_def dest!: index_of_Some)

lemma py_nth_run: "py_nth xs i s = Inr (x, t) \<Longrightarrow> t = s"
  by (auto simp: py_nth_def ret_def raise_def split: if_splits)

lemma sel_node_run: "sel_node s = Inr (x, t) \<Longrightarrow> t = s"
  unfolding sel_node_def by (erule bind_InrE) (auto simp: gets_def dest: py_nth_run)

text \<open>In a state that satisfies the invariant there is a selected node.\<close>

lemma sel_node_ok: "ui_ok s \<Longrightarrow> sel_node s = Inr (ui_shown s ! nat (ui_sel_node_i s), s)"
  by (simp add: sel_node_def bind_def gets_def py_nth_def ret_def ui_ok_def ui_in_def)

section \<open>The functions\<close>

lemma steers_basic [steer_rules]:
  "steers (calc m)" "steers (in_world m')" "steers getch" "steers (py_nth xs i)" "steers (py_index xs x)" "steers sel_node"
  "steers (shown_now T menu)"
proof -
  show "steers (calc m)" by (rule steersI) (auto dest: calc_run)
  show "steers (in_world m')" by (rule steersI) (auto simp: in_world_def split: sum.splits)
  show "steers getch" by (rule steersI) (auto simp: getch_def split: list.splits)
  show "steers (py_nth xs i)" by (rule steersI) (auto dest: py_nth_run)
  show "steers (py_index xs x)" by (rule steersI) (auto dest: py_index_run)
  show "steers sel_node" by (rule steersI) (auto dest: sel_node_run)
  show "steers (shown_now T menu)" by (rule steersI) (auto dest: shown_now_run)
qed

lemma steers_update [steer_rules]:
  "steers (modify (\<lambda>s. s\<lparr>ui_show_all := a s\<rparr>))" "steers (modify (\<lambda>s. s\<lparr>ui_show_help := a s\<rparr>))"
  "steers (modify (\<lambda>s. s\<lparr>ui_show_name := a s\<rparr>))" "steers (modify (\<lambda>s. s\<lparr>ui_conf_changed := a s\<rparr>))"
  "steers (modify (\<lambda>s. s\<lparr>ui_minconf_filename := f s\<rparr>))"
  "steers (modify (\<lambda>s. s\<lparr>ui_conf_filename := f s, ui_conf_changed := a s\<rparr>))"
  by (rule steersI; auto simp: modify_def)+

lemma menu_win_height_pos: "1 \<le> menu_win_height b h"
  by (simp add: menu_win_height_def Let_def)

lemma steers_resize_main [steer_rules]: "steers resize_main"
  unfolding resize_main_def
  by (rule steers_modify) (use menu_win_height_pos in \<open>auto simp: ui_ok_def ui_in_def Let_def\<close>)

lemma center_ok: "center_vertically s = Inr (x, t) \<Longrightarrow> ui_in s \<Longrightarrow> ui_ok t"
proof -
  assume run: "center_vertically s = Inr (x, t)" and i: "ui_in s"
  let ?i = "ui_sel_node_i s" and ?h = "ui_height s" and ?l = "int (length (ui_shown s))"
  have h: "1 \<le> ?h" "0 \<le> ?i" "?i < ?l" using i by (auto simp: ui_in_def)
  have "?i - ?h div 2 \<le> ?i" "?i < ?i - ?h div 2 + ?h" using h(1) by linarith+
  then show "ui_ok t"
    using run i h by (auto simp: center_vertically_def modify_def ui_ok_def ui_in_def max_scroll_def)
qed

lemma steers_select [steer_rules]:
  "steers select_next_menu_entry" "steers select_prev_menu_entry" "steers select_last_menu_entry" "steers select_first_menu_entry"
  unfolding select_next_menu_entry_def select_prev_menu_entry_def select_last_menu_entry_def select_first_menu_entry_def
  by (rule steers_modify; auto simp: ui_ok_def ui_in_def SCROLL_OFFSET_def max_scroll_def Let_def)+

lemma select_choice_ok:
  assumes "select_selected_choice_sym T c s = Inr (x, t)" and "ui_ok s"
  shows "ui_ok t"
  using assms(1) unfolding select_selected_choice_sym_def
proof (elim bind_InrE)
  fix sel s1 assume sel: "calc (a_sel (acs T) c) s = Inr (sel, s1)"
    and run: "(case sel of None \<Rightarrow> ret () | Some u \<Rightarrow> bind (gets ui_shown) (\<lambda>xs.
        case firstp (index_of xs) (s_nodes (k_sym (t_kc T) u)) of None \<Rightarrow> ret ()
        | Some i \<Rightarrow> bind (modify (\<lambda>s. s\<lparr>ui_sel_node_i := int i\<rparr>)) (\<lambda>_. center_vertically))) s1 = Inr (x, t)"
  have s1: "ui_ok s1" using calc_run [OF sel] assms(2) by auto
  show "ui_ok t"
  proof (cases sel)
    case (Some u)
    let ?f = "firstp (index_of (ui_shown s1)) (s_nodes (k_sym (t_kc T) u))"
    show ?thesis
    proof (cases ?f)
      case (Some i)
      then have i: "i < length (ui_shown s1)" using firstp_Some index_of_Some by fast
      have "center_vertically (s1\<lparr>ui_sel_node_i := int i\<rparr>) = Inr (x, t)"
        using run \<open>sel = Some u\<close> Some by (simp add: bind_def gets_def modify_def)
      from center_ok [OF this] show ?thesis using i s1 by (simp add: ui_ok_def ui_in_def)
    qed (use run \<open>sel = Some u\<close> s1 in \<open>simp add: bind_def gets_def ret_def\<close>)
  qed (use run s1 in \<open>simp add: ret_def\<close>)
qed

lemma steers_select_choice [steer_rules]: "steers (select_selected_choice_sym T c)"
  by (rule steersI) (rule select_choice_ok)

lemma steers_enter_menu [steer_rules]: "steers (enter_menu T menu)"
proof (rule steersI)
  fix s x t assume run: "enter_menu T menu s = Inr (x, t)" and s: "ui_ok s"
  show "ui_ok t"
  proof (cases "n_is_menuconfig (unode T menu)")
    case True
    then obtain sub s1 where sub: "shown_now T menu s = Inr (sub, s1)"
      using run unfolding enter_menu_def by (auto elim: bind_InrE)
    then obtain w where s1: "s1 = s\<lparr>ui_world := w\<rparr>" using shown_now_run by blast
    show ?thesis
    proof (cases "sub = []")
      case False
      let ?s2 = "s1\<lparr>ui_parent_screen_rows := ui_parent_screen_rows s1 @ [ui_sel_node_i s1 - ui_menu_scroll s1],
          ui_cur_menu := menu, ui_shown := sub, ui_sel_node_i := 0, ui_menu_scroll := 0\<rparr>"
      have 2: "ui_ok ?s2" using s False by (auto simp: s1 ui_ok_def ui_in_def)
      let ?m = "bind (case n_item (unode T menu) of NCho c \<Rightarrow> select_selected_choice_sym T c | _ \<Rightarrow> ret ()) (\<lambda>_. ret True)"
      have st: "steers ?m" by (intro steer_rules)
      have "?m ?s2 = Inr (x, t)"
        using run True sub False by (simp add: enter_menu_def bind_def modify_def)
      then show ?thesis by (rule steersD [OF st _ 2])
    qed (use run True sub s in \<open>auto simp: enter_menu_def bind_def ret_def s1\<close>)
  qed (use run s in \<open>simp add: enter_menu_def ret_def\<close>)
qed

text \<open>After leaving a menu the cursor is where it was or in the middle of the window.\<close>

lemma leave_ok:
  assumes "leave_menu T s = Inr (x, t)" and s: "ui_ok s"
  shows "ui_ok t"
proof (cases "ui_cur_menu s = k_top_node (t_kc T)")
  case True
  then show ?thesis using assms by (simp add: leave_menu_def bind_def gets_def ret_def)
next
  case False
  let ?cur = "ui_cur_menu s"
  obtain p where p: "parent_menu (t_kc T) (t_depth T) ?cur = Inr p"
    using assms(1) False
    by (cases "parent_menu (t_kc T) (t_depth T) ?cur") (auto simp: leave_menu_def bind_def gets_def of_result_def raise_def)
  obtain xs s1 where xs: "shown_now T p s = Inr (xs, s1)"
    using assms(1) False p
    by (cases "shown_now T p s") (auto simp: leave_menu_def bind_def gets_def of_result_def ret_def)
  then obtain w where s1: "s1 = s\<lparr>ui_world := w\<rparr>" using shown_now_run by blast
  obtain i where i: "py_index xs ?cur (s1\<lparr>ui_shown := xs\<rparr>) = Inr (i, s1\<lparr>ui_shown := xs\<rparr>)" "0 \<le> i" "i < int (length xs)"
    using assms(1) False p xs
    by (cases "py_index xs ?cur (s1\<lparr>ui_shown := xs\<rparr>)")
      (auto simp: leave_menu_def bind_def gets_def of_result_def ret_def modify_def dest!: py_index_run)
  let ?s = "s1\<lparr>ui_shown := xs, ui_sel_node_i := i, ui_cur_menu := p\<rparr>"
  have in_s: "ui_in ?s" using s i by (simp add: s1 ui_ok_def ui_in_def)
  show ?thesis
  proof (cases "ui_parent_screen_rows s = []")
    case True
    have "center_vertically ?s = Inr (x, t)"
      using assms(1) False p xs i(1) True s1 by (simp add: leave_menu_def bind_def gets_def of_result_def ret_def modify_def)
    then show ?thesis using in_s by (rule center_ok)
  next
    case rows: False
    let ?r = "min (last (ui_parent_screen_rows s)) (ui_height s - 1)"
    have "0 \<le> last (ui_parent_screen_rows s)" using s rows by (simp add: ui_ok_def ui_in_def)
    then have r: "0 \<le> ?r" "?r < ui_height s" using s by (auto simp: ui_ok_def ui_in_def)
    have "t = ?s\<lparr>ui_parent_screen_rows := butlast (ui_parent_screen_rows s), ui_menu_scroll := max (i - ?r) 0\<rparr>"
      using assms(1) False p xs i(1) rows s1 by (simp add: leave_menu_def bind_def gets_def of_result_def ret_def modify_def)
    then show ?thesis using s i r by (auto simp: s1 ui_ok_def ui_in_def dest: in_set_butlastD)
  qed
qed

text \<open>The scroll that keeps the cursor on its row.\<close>

lemma same_row_ok:
  assumes "ui_ok s" and "0 \<le> i" and "i < int (length xs)"
  shows "ui_ok (s\<lparr>ui_shown := xs, ui_sel_node_i := i, ui_menu_scroll := max (i - (ui_sel_node_i s - ui_menu_scroll s)) 0\<rparr>)"
  using assms by (auto simp: ui_ok_def ui_in_def)

lemma update_menu_ok:
  assumes "update_menu T s = Inr (x, t)" and s: "ui_ok s"
  shows "ui_ok t"
proof -
  let ?sel = "ui_shown s ! nat (ui_sel_node_i s)"
  obtain xs s1 where xs: "shown_now T (ui_cur_menu s) s = Inr (xs, s1)"
    using assms(1) sel_node_ok [OF s]
    by (cases "shown_now T (ui_cur_menu s) s") (auto simp: update_menu_def bind_def gets_def)
  then obtain w where s1: "s1 = s\<lparr>ui_world := w\<rparr>" using shown_now_run by blast
  obtain i where i: "py_index xs ?sel (s1\<lparr>ui_shown := xs\<rparr>) = Inr (i, s1\<lparr>ui_shown := xs\<rparr>)" "0 \<le> i" "i < int (length xs)"
    using assms(1) sel_node_ok [OF s] xs
    by (cases "py_index xs ?sel (s1\<lparr>ui_shown := xs\<rparr>)")
      (auto simp: update_menu_def bind_def gets_def modify_def dest!: py_index_run)
  have "t = s1\<lparr>ui_shown := xs, ui_sel_node_i := i, ui_menu_scroll := max (i - (ui_sel_node_i s1 - ui_menu_scroll s1)) 0\<rparr>"
    using assms(1) sel_node_ok [OF s] xs i(1) s1 by (simp add: update_menu_def bind_def gets_def modify_def)
  with same_row_ok [of s1 i xs] s i(2,3) show ?thesis by (simp add: s1)
qed

text \<open>Toggling show-all mode; the second part is for a scroll that is about to be set.\<close>

lemma toggle_run:
  assumes "toggle_show_all T s = Inr (x, t)"
  obtains w b where "t = s\<lparr>ui_world := w, ui_show_all := b\<rparr>"
    | w b i xs where "t = s\<lparr>ui_show_all := b, ui_world := w, ui_sel_node_i := i, ui_shown := xs,
        ui_menu_scroll := max (i - (ui_sel_node_i s - ui_menu_scroll s)) 0\<rparr>" "0 \<le> i" "i < int (length xs)"
proof -
  let ?s = "s\<lparr>ui_show_all := \<not> ui_show_all s\<rparr>"
  obtain xs s1 where xs: "shown_now T (ui_cur_menu s) ?s = Inr (xs, s1)"
    using assms by (cases "shown_now T (ui_cur_menu s) ?s") (auto simp: toggle_show_all_def bind_def gets_def modify_def)
  then obtain w where s1: "s1 = ?s\<lparr>ui_world := w\<rparr>" using shown_now_run by blast
  let ?f = "firstp (index_of xs) (slice_back (ui_shown s) (ui_sel_node_i s) @ slice_from (ui_shown s) (ui_sel_node_i s + 1))"
  show thesis
  proof (cases ?f)
    case None
    then have "t = s\<lparr>ui_world := w, ui_show_all := True\<rparr>"
      using assms xs s1 by (simp add: toggle_show_all_def bind_def gets_def modify_def)
    then show thesis by (rule that(1))
  next
    case (Some j)
    then have j: "j < length xs" using firstp_Some index_of_Some by fast
    have "t = s\<lparr>ui_show_all := \<not> ui_show_all s, ui_world := w, ui_sel_node_i := int j, ui_shown := xs,
        ui_menu_scroll := max (int j - (ui_sel_node_i s - ui_menu_scroll s)) 0\<rparr>"
      using assms xs s1 Some by (simp add: toggle_show_all_def bind_def gets_def modify_def)
    then show thesis by (rule that(2)) (use j in auto)
  qed
qed

lemma toggle_ok: "toggle_show_all T s = Inr (x, t) \<Longrightarrow> ui_ok s \<Longrightarrow> ui_ok t"
  by (erule toggle_run) (auto simp: ui_ok_def ui_in_def)

lemma toggle_in: "toggle_show_all T s = Inr (x, t) \<Longrightarrow> ui_in s \<Longrightarrow> ui_in t"
  by (erule toggle_run) (auto simp: ui_in_def)

lemma steers_menus [steer_rules]: "steers (leave_menu T)" "steers (update_menu T)" "steers (toggle_show_all T)"
  by (rule steersI; erule leave_ok update_menu_ok toggle_ok; assumption)+

lemma jump_to_ok:
  assumes "jump_to T x s = Inr (y, t)" and s: "ui_ok s"
  shows "ui_ok t"
proof -
  let ?N = "unode T x"
  define into where "into = (case n_item ?N of NCho _ \<Rightarrow> n_list ?N | NMenu \<Rightarrow> n_list ?N | _ \<Rightarrow> None)"
  define node where "node = (case into of Some l \<Rightarrow> l | None \<Rightarrow> x)"
  define rest where "rest = (\<lambda>menu. bind center_vertically (\<lambda>_. case n_item (unode T menu) of
      NCho c \<Rightarrow> if into \<noteq> None then select_selected_choice_sym T c else ret () | _ \<Rightarrow> ret ()))"
  have rest: "ui_ok t" if run: "rest menu s' = Inr (y, t)" and in_s: "ui_in s'" for menu s'
  proof -
    obtain s2 where 2: "center_vertically s' = Inr ((), s2)"
      "(case n_item (unode T menu) of NCho c \<Rightarrow> if into \<noteq> None then select_selected_choice_sym T c else ret () | _ \<Rightarrow> ret ()) s2 = Inr (y, t)"
      using run unfolding rest_def by (elim bind_InrE) auto
    have "steers (case n_item (unode T menu) of NCho c \<Rightarrow> if into \<noteq> None then select_selected_choice_sym T c else ret () | _ \<Rightarrow> ret ())"
      by (intro steer_rules)
    from steersD [OF this 2(2)] center_ok [OF 2(1) in_s] show "ui_ok t" .
  qed
  let ?s0 = "s\<lparr>ui_parent_screen_rows := []\<rparr>"
  have h: "1 \<le> ui_height s" using s by (simp add: ui_ok_def ui_in_def)
  obtain menu where menu: "(if into \<noteq> None then ret x else of_result (parent_menu (t_kc T) (t_depth T) x)) ?s0 = Inr (menu, ?s0)"
    using assms(1) unfolding jump_to_def into_def [symmetric] Let_def
    by (cases "parent_menu (t_kc T) (t_depth T) x") (auto simp: bind_def gets_def modify_def of_result_def ret_def raise_def split: if_splits)
  note run1 = assms(1) [unfolded jump_to_def Let_def, folded into_def, folded node_def]
  obtain xs s1 where xs: "shown_now T menu (?s0\<lparr>ui_cur_menu := menu\<rparr>) = Inr (xs, s1)"
    using run1 menu by (cases "shown_now T menu (?s0\<lparr>ui_cur_menu := menu\<rparr>)") (auto simp: bind_def gets_def modify_def)
  then obtain w where s1: "s1 = ?s0\<lparr>ui_cur_menu := menu, ui_world := w\<rparr>" using shown_now_run by blast
  let ?more = "if node \<notin> set xs then bind (modify (\<lambda>s. s\<lparr>ui_show_all := True\<rparr>)) (\<lambda>_.
      bind (shown_now T menu) (\<lambda>ys. modify (\<lambda>s. s\<lparr>ui_shown := ys\<rparr>))) else ret ()"
  let ?s2 = "s1\<lparr>ui_shown := xs\<rparr>"
  obtain s3 where s3: "?more ?s2 = Inr ((), s3)"
    using run1 menu xs by (cases "?more ?s2") (auto simp: bind_def gets_def modify_def)
  have rows: "ui_parent_screen_rows s3 = [] \<and> ui_height s3 = ui_height s"
    using s3 by (auto simp: s1 bind_def modify_def ret_def split: if_splits sum.splits dest!: shown_now_run)
  obtain i where i: "py_index (ui_shown s3) node s3 = Inr (i, s3)" "0 \<le> i" "i < int (length (ui_shown s3))"
    using run1 menu xs s3
    by (cases "py_index (ui_shown s3) node s3") (auto simp: bind_def gets_def modify_def dest!: py_index_run)
  let ?s4 = "s3\<lparr>ui_sel_node_i := i\<rparr>"
  have in4: "ui_in ?s4" using i rows h by (simp add: ui_in_def)
  let ?tog = "if into \<noteq> None \<and> \<not> ui_show_all s \<and> ui_show_all s3 then toggle_show_all T else ret ()"
  obtain s5 where s5: "?tog ?s4 = Inr ((), s5)" "rest menu s5 = Inr (y, t)"
    using run1 menu xs s3 i(1)
    by (cases "?tog ?s4") (auto simp: bind_def gets_def modify_def rest_def)
  have "ui_in s5" using s5(1) in4 toggle_in by (auto simp: ret_def split: if_splits)
  with rest s5(2) show ?thesis by blast
qed

lemma steers_jump_to [steer_rules]: "steers (jump_to T x)"
  by (rule steersI) (rule jump_to_ok)

section \<open>The dialogs\<close>

lemma steers_input [steer_rules]: "steers (input_dialog T ttl x info)"
proof -
  have "steers (input_loop T ttl xs n width s i hscroll)" for xs n width s i hscroll
  proof (induction n arbitrary: width s i hscroll)
    case (Suc n)
    show ?case unfolding input_loop.simps Let_def by (intro steer_rules Suc.IH)
  qed (simp add: steer_rules)
  then show ?thesis unfolding input_dialog_def Let_def by (intro steer_rules)
qed

lemma steers_key [steer_rules]: "steers (key_dialog keys)" "steers show_msg"
proof -
  have "steers (key_loop keys n)" for keys n
  proof (induction n)
    case (Suc n)
    show ?case unfolding key_loop.simps Let_def by (intro steer_rules Suc.IH)
  qed (simp add: steer_rules)
  then show "steers (key_dialog keys)" for keys unfolding key_dialog_def by (intro steer_rules)
  then show "steers show_msg" unfolding show_msg_def by (intro steer_rules)
qed

lemma steers_values [steer_rules]:
  "steers (set_val T sc v)" "steers (change_sc T x sc)" "steers (change_node T x)" "steers (set_sel_node_tri_val T k)"
proof -
  show set_val: "steers (set_val T sc v)" for sc v
    unfolding set_val_def Let_def by (intro steer_rules)
  have "steers (ask_loop T ttl sc n s)" for ttl sc n s
  proof (induction n arbitrary: s)
    case (Suc n)
    show ?case unfolding ask_loop.simps Let_def by (intro steer_rules Suc.IH set_val)
  qed (simp add: steer_rules)
  then show "steers (change_sc T x sc)" for sc
    unfolding change_sc_def next_tri_def Let_def by (intro steer_rules set_val)
  then show "steers (change_node T x)"
    unfolding change_node_def by (intro steer_rules)
  show "steers (set_sel_node_tri_val T k)"
    unfolding set_sel_node_tri_val_def by (intro steer_rules set_val)
qed

lemma steers_files [steer_rules]: "steers (load_dialog T)" "steers (save_dialog T fn f)" "steers (quit_dialog T)"
proof -
  have save: "steers (try_save T fn f)" for fn f
    unfolding try_save_def by (intro steer_rules)
  have load: "steers (try_load_ui T f)" "steers (after_load T f)" for f
    unfolding try_load_ui_def after_load_def by (intro steer_rules)+
  have "steers (load_loop T n f)" for n f
  proof (induction n arbitrary: f)
    case (Suc n)
    show ?case unfolding load_loop.simps Let_def by (intro steer_rules Suc.IH load)
  qed (simp add: steer_rules)
  then show "steers (load_dialog T)" unfolding load_dialog_def by (intro steer_rules)
  have "steers (save_loop T fn n f)" for n f
  proof (induction n arbitrary: f)
    case (Suc n)
    show ?case unfolding save_loop.simps Let_def by (intro steer_rules Suc.IH save)
  qed (simp add: steer_rules)
  then show "steers (save_dialog T fn f)" unfolding save_dialog_def by (intro steer_rules)
  have "steers (quit_loop T n)" for n
  proof (induction n)
    case (Suc n)
    show ?case unfolding quit_loop.simps Let_def by (intro steer_rules Suc.IH save)
  qed (simp add: steer_rules)
  then show "steers (quit_dialog T)" unfolding quit_dialog_def by (intro steer_rules)
qed

lemma steers_info [steer_rules]: "steers srch \<Longrightarrow> steers (info_dialog T srch x)"
proof -
  assume a: "steers srch"
  have "steers (info_loop T srch l n h scroll)" for l n h scroll
  proof (induction n arbitrary: h scroll)
    case (Suc n)
    show ?case unfolding info_loop.simps new_info_height_def Let_def by (intro steer_rules Suc.IH a)
  qed (simp add: steer_rules)
  then show ?thesis unfolding info_dialog_def new_info_height_def by (intro steer_rules)
qed

lemma steers_jump_dialog [steer_rules]: "steers (jump_to_dialog T)"
proof -
  have "steers (jump_loop T n j)" for n j
  proof (induction n arbitrary: j)
    case (Suc n)
    show ?case unfolding jump_loop.simps jump_resize_def Let_def by (intro steer_rules Suc.IH)
  qed (simp add: steer_rules)
  then show ?thesis unfolding jump_to_dialog_def jump_resize_def by (intro steer_rules)
qed

section \<open>The main loop\<close>

text \<open>A chain of branches.\<close>

lemma branches:
  "pred_option P None" "P m \<Longrightarrow> pred_option P r \<Longrightarrow> pred_option P (if b then Some m else r)"
  by simp_all

lemma steers_branch: "pred_option steers r \<Longrightarrow> steers b \<Longrightarrow> (\<And>m. steers m \<Longrightarrow> steers (f m)) \<Longrightarrow>
    steers (case r of None \<Rightarrow> b | Some m \<Rightarrow> f m)"
  by (cases r) auto

lemma steers_keys:
  "pred_option steers (cursor_key c)" "pred_option steers (value_key T c)" "pred_option steers (dialog_key T c)"
  unfolding cursor_key_def value_key_def dialog_key_def save_config_key_def save_minconf_key_def Let_def
  by (intro branches steer_rules)+

lemma steers_main_round: "steers (main_round T)"
  unfolding main_round_def main_key_def Let_def
  by (intro steer_rules steers_branch steers_keys)

text \<open>The states that the main loop reaches.\<close>

inductive reached :: "tenv \<Rightarrow> tui \<Rightarrow> tui \<Rightarrow> bool" for T s where
  reached_start: "reached T s s"
| reached_key: "reached T s t \<Longrightarrow> main_round T t = Inr (r, v) \<Longrightarrow> reached T s v"

lemma reached_ok: "reached T s t \<Longrightarrow> ui_ok s \<Longrightarrow> ui_ok t"
  by (induction rule: reached.induct) (auto intro: steersD [OF steers_main_round])

text \<open>The interface starts in such a state.\<close>

lemma init_ok:
  assumes "init_ui T s = Inr (x, t)" and "ui_shown t \<noteq> []"
  shows "ui_ok t"
proof -
  let ?top = "k_top_node (t_kc T)"
  obtain xs s1 where xs: "shown_now T ?top s = Inr (xs, s1)"
    using assms(1) by (cases "shown_now T ?top s") (auto simp: init_ui_def Let_def bind_def)
  then obtain w where "s1 = s\<lparr>ui_world := w\<rparr>" using shown_now_run by blast
  then show ?thesis
    using assms xs menu_win_height_pos [of False "fst (ui_size s)"]
    by (auto simp: init_ui_def Let_def bind_def modify_def resize_main_def ui_ok_def ui_in_def)
qed

lemma start_ok:
  assumes "start_ui T s = Inr (True, t)" and "ui_shown t \<noteq> []"
  shows "ui_ok t"
proof -
  obtain s' where "init_ui T s' = Inr ((), t)"
    using assms(1) unfolding start_ui_def by (elim bind_InrE) (auto simp: ret_def split: if_splits elim!: bind_InrE)
  with assms(2) show ?thesis by (rule init_ok [rotated])
qed

end
