(* ===== verification/MenuNav.thy ===== *)
theory MenuNav
  imports MenuCursor
begin

text \<open>
  Moving between menus (\<^verbatim>\<open>src/scripts/kconfig/menuconfig.py\<close>): the nodes that a menu shows are distinct nodes
  below it, and climbing from them leads to this menu (\<open>shown_from_below\<close>). With values that are well defined,
  asking again gives the same nodes (\<open>reader_shown\<close>), so that leaving a menu leads back to where it was
  entered (\<open>enter_leave_place\<close>). \<open>shown_tree\<close> says which nodes a menu shows without the links of the nodes, the
  caches and the order of calculation (\<open>yields_shown\<close>), and \<open>visible_opens\<close> that every visible node can be
  reached. \<open>update_menu_raises\<close> and \<open>set_tri_run\<close> are the steps of a run that ends in an exception.
\<close>

section \<open>Reading is repeatable\<close>

text \<open>
  \<open>reader K u m\<close>: with the assignments \<open>u\<close>, \<open>m\<close> has the same outcome in all states in which the caches are
  right, and leaves them right.
\<close>

definition outcome :: "kconfig \<Rightarrow> users \<Rightarrow> 'a ev \<Rightarrow> 'a option \<Rightarrow> bool" where
  "outcome K u m r = (\<forall>d. good K d \<longrightarrow> usr d = u \<longrightarrow>
     (case r of None \<Rightarrow> \<exists>e. m d = Inl e | Some x \<Rightarrow> \<exists>d'. m d = Inr (x, d') \<and> usr d' = u \<and> good K d'))"

definition reader :: "kconfig \<Rightarrow> users \<Rightarrow> 'a ev \<Rightarrow> bool" where
  "reader K u m = (\<exists>r. outcome K u m r)"

named_theorems reader_rules \<open>computations that only read values\<close>

lemma readerD:
  assumes "reader K u m" and "m d = Inr (x, d')" and "good K d" and "usr d = u"
  shows "good K d'" and "usr d' = u"
    and "good K e \<Longrightarrow> usr e = u \<Longrightarrow> \<exists>e'. m e = Inr (x, e') \<and> usr e' = u \<and> good K e'"
proof -
  obtain r where r: "outcome K u m r" using assms(1) by (auto simp: reader_def)
  then obtain y where y: "r = Some y" using assms(2-4) by (cases r) (auto simp: outcome_def)
  then have r': "\<And>e. good K e \<Longrightarrow> usr e = u \<Longrightarrow> \<exists>e'. m e = Inr (y, e') \<and> usr e' = u \<and> good K e'"
    using r by (simp add: outcome_def)
  then have "y = x" and 1: "good K d'" "usr d' = u" using assms(2-4) by fastforce+
  show "good K d'" "usr d' = u" by (fact 1)+
  show "good K e \<Longrightarrow> usr e = u \<Longrightarrow> \<exists>e'. m e = Inr (x, e') \<and> usr e' = u \<and> good K e'"
    using r' \<open>y = x\<close> by simp
qed

lemma reader_yields: "yields K u m x \<Longrightarrow> reader K u m"
  unfolding reader_def by (rule exI [of _ "Some x"]) (simp add: outcome_def yields_def)

lemma reader_ret [reader_rules]: "reader K u (ret x)"
  by (rule reader_yields) (rule yields_ret)

lemma reader_raise [reader_rules]: "reader K u (raise e)"
  unfolding reader_def by (rule exI [of _ None]) (simp add: outcome_def raise_def)

lemma reader_bind [reader_rules]:
  assumes "reader K u m" and "\<And>x. reader K u (f x)"
  shows "reader K u (bind m f)"
proof -
  obtain r where r: "outcome K u m r" using assms(1) by (auto simp: reader_def)
  show ?thesis
  proof (cases r)
    case None
    then have "outcome K u (bind m f) None" using r by (fastforce simp: outcome_def bind_def)
    then show ?thesis by (auto simp: reader_def)
  next
    case (Some x)
    obtain q where "outcome K u (f x) q" using assms(2) by (auto simp: reader_def)
    then have "outcome K u (bind m f) q"
      using r Some unfolding outcome_def bind_def by (fastforce split: option.split)
    then show ?thesis by (auto simp: reader_def)
  qed
qed

lemma reader_cases [reader_rules]:
  "reader K u m \<Longrightarrow> reader K u m' \<Longrightarrow> reader K u (if cnd then m else m')"
  "reader K u m \<Longrightarrow> (\<And>y. reader K u (f y)) \<Longrightarrow> reader K u (case v of None \<Rightarrow> m | Some y \<Rightarrow> f y)"
  "(\<And>y z. reader K u (g y z)) \<Longrightarrow> reader K u (case w of (y, z) \<Rightarrow> g y z)"
  "(\<And>s. reader K u (i s)) \<Longrightarrow> (\<And>c. reader K u (k c)) \<Longrightarrow> reader K u a \<Longrightarrow> reader K u b \<Longrightarrow> reader K u d \<Longrightarrow>
     reader K u (case it of NSym s \<Rightarrow> i s | NCho c \<Rightarrow> k c | NMenu \<Rightarrow> a | NComment \<Rightarrow> b | NIf \<Rightarrow> d)"
  by (auto split: option.split prod.split nitem.split)

lemma reader_foldm [reader_rules]: "(\<And>x a. reader K u (f x a)) \<Longrightarrow> reader K u (foldm f xs acc)"
  by (induction xs arbitrary: acc) (simp_all add: reader_ret reader_bind)

lemma reader_expr: "reading K rk u n \<Longrightarrow> reader K u (expr_value K (accs K n) e)"
  by (rule reader_yields) (rule yields_expr)

lemma reader_visible:
  assumes "reading K rk u n"
  shows "reader K u (node_visible K (accs K n) x)"
  unfolding node_visible_def Let_def by (intro reader_rules reader_expr [OF assms])

lemma reader_shown_from: "reading K rk u n \<Longrightarrow> reader K u (shown_from K (accs K n) al m f)"
proof (induction m arbitrary: f)
  case 0
  then show ?case by (cases f) (simp_all add: reader_rules)
next
  case (Suc m)
  show ?case
  proof (cases f)
    case (Some x)
    show ?thesis unfolding Some shown_from.simps Let_def
      by (intro reader_rules reader_visible [OF Suc.prems] Suc.IH [OF Suc.prems])
  qed (simp add: reader_ret)
qed

lemma reader_shown:
  assumes "reading K rk u n"
  shows "reader K u (shown_nodes K (accs K n) al m menu)"
  unfolding shown_nodes_def by (intro reader_rules reader_shown_from [OF assms])

section \<open>The nodes below a menu\<close>

lemma climb_more: "climb_menu K m f = Inr r \<Longrightarrow> climb_menu K (m + k) f = Inr r"
proof (induction K m f arbitrary: r rule: climb_menu.induct)
  case (3 K m x)
  then show ?case by (auto split: sum.splits if_splits)
qed auto

lemma climb_up: "climb_menu K (Suc m) (Some x) =
    (if n_is_menuconfig (k_node K x) then Inr (x, 0)
     else case climb_menu K m (n_parent (k_node K x)) of Inl e \<Rightarrow> Inl e | Inr (q, l) \<Rightarrow> Inr (q, Suc l))"
  by simp

text \<open>
  The nodes that are shown below \<open>p\<close> are distinct, and climbing from them leads past \<open>p\<close>.
\<close>

lemma shown_from_below:
  assumes "shown_from K A al n f d = Inr (xs, d')" and "repr K p f ts" and "climb_menu K m (Some p) = Inr (q, l)"
  shows "set xs \<subseteq> set (nodes_of ts) \<and> (distinct (nodes_of ts) \<longrightarrow> distinct xs) \<and>
    (\<forall>x \<in> set xs. \<exists>l'. climb_menu K (m + n - 1) (n_parent (k_node K x)) = Inr (q, l'))"
  using assms
proof (induction n arbitrary: f d xs d' p ts m l)
  case 0
  then show ?case by (cases f) (auto simp: ret_def raise_def)
next
  case (Suc n)
  show ?case
  proof (cases f)
    case None
    then show ?thesis using Suc.prems(1) by (simp add: ret_def)
  next
    case (Some x)
    let ?N = "k_node K x"
    let ?below = "\<lambda>ys us k. set ys \<subseteq> set (nodes_of us) \<and> (distinct (nodes_of us) \<longrightarrow> distinct ys) \<and>
      (\<forall>y \<in> set ys. \<exists>l'. climb_menu K k (n_parent (k_node K y)) = Inr (q, l'))"
    obtain cs us where ts: "ts = NTree x cs # us" and par: "n_parent ?N = Some p"
        and cs: "repr K x (n_list ?N) cs" and us: "repr K p (n_next ?N) us"
      using Suc.prems(2) Some by (cases ts rule: nodes_of.cases) auto
    obtain vis d1 res d2 rest where run: "node_visible K A x d = Inr (vis, d1)"
      "(if vis \<or> al then
          (if n_list ?N \<noteq> None \<and> \<not> n_is_menuconfig ?N
           then bind (shown_from K A al n (n_list ?N)) (\<lambda>sub. ret (x # sub)) else ret [x])
        else if n_list ?N \<noteq> None \<and> is_sym_node ?N then
          bind (shown_from K A al n (n_list ?N)) (\<lambda>sub. ret (if sub = [] then [] else if \<not> n_is_menuconfig ?N then x # sub else [x]))
        else ret []) d1 = Inr (res, d2)"
      "shown_from K A al n (n_next ?N) d2 = Inr (rest, d')" "xs = res @ rest"
      using Suc.prems(1) unfolding Some shown_from.simps Let_def
      by (elim bind_InrE) (auto simp: ret_def)
    have m: "0 < m" using Suc.prems(3) by (cases m) auto
    have rest: "?below rest us (m + n - 1)" by (rule Suc.IH [OF run(3) us Suc.prems(3)])
    have more: "\<exists>l'. climb_menu K (m + n) g = Inr (q, l')" if "climb_menu K (m + n - 1) g = Inr (q, k)" for g k
      using climb_more [OF that, of 1] m by auto
    have own: "\<exists>l'. climb_menu K (m + n) (n_parent ?N) = Inr (q, l')"
      using climb_more [OF Suc.prems(3), of n] par by auto
    have sub: "?below sub cs (m + n)"
      if "shown_from K A al n (n_list ?N) d1 = Inr (sub, e)" and "\<not> n_is_menuconfig ?N" for sub e
      using Suc.IH [OF that(1) cs, of "Suc m" "Suc l"] that(2) Suc.prems(3) par by simp
    have res: "res = [] \<or> res = [x] \<or> (\<exists>sub e. res = x # sub \<and> shown_from K A al n (n_list ?N) d1 = Inr (sub, e) \<and> \<not> n_is_menuconfig ?N)"
      using run(2) by (auto simp: ret_def split: if_splits elim!: bind_InrE)
    have "?below (res @ rest) ts (m + n)" if "res = x # sub" "?below sub cs (m + n)" for sub
      using that rest own more unfolding ts by fastforce
    moreover have "?below (res @ rest) ts (m + n)" if "res = []"
      using that rest more unfolding ts by fastforce
    ultimately have "?below (res @ rest) ts (m + n)"
      using res sub by fastforce
    then show ?thesis using run(4) by simp
  qed
qed

text \<open>The first list of a part of the tree.\<close>

lemma repr_sub:
  "repr K p f ts \<Longrightarrow> x \<in> set (nodes_of ts) \<Longrightarrow> distinct (nodes_of ts) \<Longrightarrow>
    \<exists>cs. repr K x (n_list (k_node K x)) cs \<and> distinct (nodes_of cs)"
proof (induction ts arbitrary: p f rule: nodes_of.induct)
  case (2 y cs ts)
  then show ?case by (cases "x = y"; cases "x \<in> set (nodes_of cs)") auto
qed simp

lemma menu_sub:
  assumes "menu_tree K ts" and "distinct (nodes_of ts)" and "x \<in> insert (k_top_node K) (set (nodes_of ts))"
  obtains cs where "repr K x (n_list (k_node K x)) cs" "distinct (nodes_of cs)"
  using assms repr_sub [of K "k_top_node K" _ ts x] by (auto simp: menu_tree_def)

lemma index_of_nth: "distinct xs \<Longrightarrow> i < length xs \<Longrightarrow> index_of xs (xs ! i) = Some i"
proof (induction xs arbitrary: i)
  case (Cons y ys)
  then show ?case by (cases i) auto
qed simp

section \<open>Entering and leaving\<close>

text \<open>Where the user is: the menu, its entries, the selected one, the scroll, and the rows in the menus above.\<close>

definition place :: "tui \<Rightarrow> noderef \<times> noderef list \<times> int \<times> int \<times> int list" where
  "place s = (ui_cur_menu s, ui_shown s, ui_sel_node_i s, ui_menu_scroll s, ui_parent_screen_rows s)"

text \<open>Keys that move the cursor in the menu.\<close>

definition moves :: "key list \<Rightarrow> unit ui" where
  "moves cs = foldm (\<lambda>c _. case cursor_key c of Some m \<Rightarrow> m | None \<Rightarrow> ret ()) cs ()"

definition right :: "kconfig \<Rightarrow> users \<Rightarrow> tui \<Rightarrow> bool" where
  "right K u s = (good K (w_dyn (ui_world s)) \<and> usr (w_dyn (ui_world s)) = u)"

text \<open>What entering a menu and moving the cursor leave alone.\<close>

definition outside :: "tui \<Rightarrow> noderef \<times> int list \<times> int \<times> bool" where
  "outside s = (ui_cur_menu s, ui_parent_screen_rows s, ui_height s, ui_show_all s)"

definition inside :: "kconfig \<Rightarrow> users \<Rightarrow> 'a ui \<Rightarrow> bool" where
  "inside K u = within (\<lambda>s t. right K u s \<longrightarrow> right K u t \<and> outside t = outside s)"

interpretation inside: step_rel "\<lambda>s t. right K u s \<longrightarrow> right K u t \<and> outside t = outside s"
  by unfold_locales auto

named_theorems inside_rules \<open>computations that stay in the menu and keep the values\<close>

lemmas inside_within [inside_rules] = inside.within_rules [folded inside_def]
lemmas inside_modify = inside.within_modify [folded inside_def]

lemma calc_reader:
  assumes "reader K u m" and "calc m s = Inr (x, t)" and "right K u s"
  shows "right K u t \<and> (\<exists>w. t = s\<lparr>ui_world := w\<rparr>)"
    and "right K u s' \<Longrightarrow> \<exists>t'. calc m s' = Inr (x, t') \<and> right K u t' \<and> (\<exists>w. t' = s'\<lparr>ui_world := w\<rparr>)"
proof -
  obtain d' where d: "m (w_dyn (ui_world s)) = Inr (x, d')" "t = s\<lparr>ui_world := (ui_world s)\<lparr>w_dyn := d'\<rparr>\<rparr>"
    using assms(2) by (auto simp: calc_def in_world_def lift_def split: sum.splits)
  note r = readerD [OF assms(1) d(1)]
  show "right K u t \<and> (\<exists>w. t = s\<lparr>ui_world := w\<rparr>)" using r(1,2) assms(3) d(2) by (auto simp: right_def)
  show "\<exists>t'. calc m s' = Inr (x, t') \<and> right K u t' \<and> (\<exists>w. t' = s'\<lparr>ui_world := w\<rparr>)" if "right K u s'"
    using r(3) [of "w_dyn (ui_world s')"] assms(3) that by (fastforce simp: right_def calc_def in_world_def lift_def)
qed

lemma inside_calc: "reader K u m \<Longrightarrow> inside K u (calc m)"
  unfolding inside_def within_def by (auto dest: calc_reader(1) simp: outside_def)

lemma inside_shown: "reading (t_kc T) rk u (t_depth T) \<Longrightarrow> inside (t_kc T) u (shown_now T menu)"
  unfolding shown_now_def by (intro inside_rules inside_calc reader_shown)

lemma inside_center [inside_rules]: "inside K u center_vertically"
  unfolding center_vertically_def by (rule inside_modify) (simp add: right_def outside_def)

lemma inside_sel [inside_rules]: "inside K u (modify (\<lambda>s. s\<lparr>ui_sel_node_i := f s\<rparr>))"
  by (rule inside_modify) (simp add: right_def outside_def)

lemma inside_select_choice: 
  assumes "reading (t_kc T) rk u (t_depth T)"
  shows "inside (t_kc T) u (select_selected_choice_sym T c)"
  unfolding select_selected_choice_sym_def
  by (intro inside_rules inside_calc reader_yields [OF yields_reads(5) [OF assms]])

lemma inside_select [inside_rules]:
  "inside K u select_next_menu_entry" "inside K u select_prev_menu_entry" "inside K u select_last_menu_entry" "inside K u select_first_menu_entry"
  unfolding select_next_menu_entry_def select_prev_menu_entry_def select_last_menu_entry_def select_first_menu_entry_def
  by (rule inside_modify; simp add: right_def outside_def Let_def)+

lemma inside_moves: "KEY_RESIZE \<notin> set cs \<Longrightarrow> inside K u (moves cs)"
proof (induction cs)
  case (Cons c cs)
  have "pred_option (inside K u) (cursor_key c)"
    unfolding cursor_key_def Let_def using Cons.prems by (auto intro!: inside_rules)
  then have head: "inside K u (case cursor_key c of Some m \<Rightarrow> m | None \<Rightarrow> ret ())"
    by (auto intro: inside_rules split: option.split)
  show ?case unfolding moves_def foldm.simps
    by (rule inside.within_bind [folded inside_def]) (use head Cons in \<open>simp_all add: moves_def\<close>)
qed (simp add: moves_def inside_rules)

lemma enter_run:
  assumes r: "reading (t_kc T) rk u (t_depth T)" and s: "right (t_kc T) u s"
    and enter: "enter_menu T menu s = Inr (True, t)"
  shows "right (t_kc T) u t"
    and "outside t = (menu, ui_parent_screen_rows s @ [ui_sel_node_i s - ui_menu_scroll s], ui_height s, ui_show_all s)"
proof -
  have mc: "n_is_menuconfig (unode T menu)" using enter by (auto simp: enter_menu_def ret_def split: if_splits)
  then obtain sub s1 where sub: "shown_now T menu s = Inr (sub, s1)"
    using enter unfolding enter_menu_def by (auto elim: bind_InrE)
  have s1: "right (t_kc T) u s1" "outside s1 = outside s"
    using withinD [OF inside_shown [OF r, unfolded inside_def] sub] s by auto
  have w: "\<exists>w. s1 = s\<lparr>ui_world := w\<rparr>" by (rule shown_now_run [OF sub])
  have ne: "sub \<noteq> []" using enter mc sub by (auto simp: enter_menu_def bind_def ret_def)
  let ?s2 = "s1\<lparr>ui_parent_screen_rows := ui_parent_screen_rows s1 @ [ui_sel_node_i s1 - ui_menu_scroll s1],
      ui_cur_menu := menu, ui_shown := sub, ui_sel_node_i := 0, ui_menu_scroll := 0\<rparr>"
  let ?m = "bind (case n_item (unode T menu) of NCho c \<Rightarrow> select_selected_choice_sym T c | _ \<Rightarrow> ret ()) (\<lambda>_. ret True)"
  have "?m ?s2 = Inr (True, t)" using enter mc sub ne by (simp add: enter_menu_def bind_def modify_def)
  moreover have "inside (t_kc T) u ?m" by (intro inside_rules inside_select_choice [OF r])
  moreover have "right (t_kc T) u ?s2" using s1(1) by (simp add: right_def)
  ultimately have t: "right (t_kc T) u t \<and> outside t = outside ?s2" unfolding inside_def by (blast dest: withinD)
  then show "right (t_kc T) u t" by simp
  show "outside t = (menu, ui_parent_screen_rows s @ [ui_sel_node_i s - ui_menu_scroll s], ui_height s, ui_show_all s)"
    using t s1(2) w by (auto simp: outside_def)
qed

lemma enter_leave_place:
  assumes r: "reading (t_kc T) rk u (t_depth T)" and s: "right (t_kc T) u s" "ui_ok s"
    and fresh: "shown_now T (ui_cur_menu s) s = Inr (ui_shown s, s')"
    and tree: "menu_tree (t_kc T) ts" "distinct (nodes_of ts)"
      "ui_cur_menu s \<in> insert (k_top_node (t_kc T)) (set (nodes_of ts))"
    and cur: "n_is_menuconfig (unode T (ui_cur_menu s))" "\<And>c. n_item (unode T (ui_cur_menu s)) \<noteq> NCho c"
    and enter: "sel_node s = Inr (menu, s)" "enter_menu T menu s = Inr (True, t)"
    and move: "KEY_RESIZE \<notin> set cs" "moves cs t = Inr ((), v)"
  shows "\<exists>z. leave_menu T v = Inr ((), z) \<and> place z = place s"
proof -
  let ?K = "t_kc T" and ?cur = "ui_cur_menu s" and ?xs = "ui_shown s" and ?i = "ui_sel_node_i s"
  have v: "right ?K u v" "outside v = (menu, ui_parent_screen_rows s @ [?i - ui_menu_scroll s], ui_height s, ui_show_all s)"
    using enter_run [OF r s(1) enter(2)] withinD [OF inside_moves [OF move(1), unfolded inside_def] move(2)] by auto
  have i: "0 \<le> ?i" "?i < int (length ?xs)" "menu = ?xs ! nat ?i"
    using s(2) enter(1) sel_node_ok [OF s(2)] by (auto simp: ui_ok_def ui_in_def)
  then have menu: "menu \<in> set ?xs" by simp
  obtain cs where cs: "repr ?K ?cur (n_list (unode T ?cur)) cs" "distinct (nodes_of cs)" by (rule menu_sub [OF tree])
  obtain d' where "shown_from ?K (acs T) (ui_show_all s) (t_depth T) (n_list (unode T ?cur)) (w_dyn (ui_world s)) = Inr (?xs, d')"
    using fresh cur(2) by (auto simp: shown_now_def shown_nodes_def bind_def gets_def calc_def in_world_def lift_def
      split: sum.splits nitem.splits)
  moreover have "climb_menu ?K 1 (Some ?cur) = Inr (?cur, 0)" using cur(1) by simp
  ultimately have below: "distinct ?xs" "\<And>x. x \<in> set ?xs \<Longrightarrow> \<exists>l. climb_menu ?K (t_depth T) (n_parent (unode T x)) = Inr (?cur, l)"
    using shown_from_below [OF _ cs(1)] cs(2) by fastforce+
  obtain l where l: "climb_menu ?K (t_depth T) (n_parent (unode T menu)) = Inr (?cur, l)" using below(2) [OF menu] by blast
  have not_top: "menu \<noteq> k_top_node ?K" using l tree(1) by (auto simp: menu_tree_def)
  have parent: "parent_menu ?K (t_depth T) menu = Inr ?cur" by (simp add: parent_menu_def l)
  have rd: "reader ?K u (shown_nodes ?K (acs T) (ui_show_all s) (t_depth T) ?cur)" by (rule reader_shown [OF r])
  have "calc (shown_nodes ?K (acs T) (ui_show_all s) (t_depth T) ?cur) s = Inr (?xs, s')"
    using fresh by (simp add: shown_now_def bind_def gets_def)
  from calc_reader(2) [OF rd this s(1) v(1)] obtain w where
    w: "calc (shown_nodes ?K (acs T) (ui_show_all s) (t_depth T) ?cur) v = Inr (?xs, v\<lparr>ui_world := w\<rparr>)" by blast
  let ?v = "v\<lparr>ui_world := w, ui_shown := ?xs\<rparr>"
  have out: "ui_cur_menu v = menu" "ui_parent_screen_rows v = ui_parent_screen_rows s @ [?i - ui_menu_scroll s]"
    "ui_height v = ui_height s" "ui_show_all v = ui_show_all s" using v(2) by (simp_all add: outside_def)
  have idx: "py_index ?xs menu ?v = Inr (?i, ?v)"
    using index_of_nth [OF below(1), of "nat ?i"] i by (simp add: py_index_def ret_def)
  have row: "min (?i - ui_menu_scroll s) (ui_height s - 1) = ?i - ui_menu_scroll s" "max (ui_menu_scroll s) 0 = ui_menu_scroll s"
    using s(2) by (auto simp: ui_ok_def)
  have "leave_menu T v = Inr ((), ?v\<lparr>ui_sel_node_i := ?i, ui_cur_menu := ?cur, ui_parent_screen_rows := ui_parent_screen_rows s,
      ui_menu_scroll := ui_menu_scroll s\<rparr>)"
    using w idx row out not_top parent
    by (simp add: leave_menu_def bind_def gets_def modify_def of_result_def ret_def shown_now_def)
  then show ?thesis by (simp add: place_def)
qed

section \<open>Which nodes are shown\<close>

text \<open>
  The nodes of a part of the tree that are shown when \<open>V\<close> holds of the nodes that are visible: a node without
  \<open>V\<close> is shown as well when it is a symbol with such nodes below it; what is below menus, choices and
  \<open>menuconfig\<close> symbols is left out.
\<close>

fun shown_tree :: "kconfig \<Rightarrow> (noderef \<Rightarrow> bool) \<Rightarrow> ntree list \<Rightarrow> noderef list" where
  "shown_tree K V [] = []"
| "shown_tree K V (NTree x cs # ts) =
     (let sub = shown_tree K V cs; inner = (if n_is_menuconfig (k_node K x) then [] else sub) in
      if V x \<or> is_sym_node (k_node K x) \<and> sub \<noteq> [] then x # inner else []) @ shown_tree K V ts"

definition vis_val :: "kconfig \<Rightarrow> users \<Rightarrow> valuation \<Rightarrow> noderef \<Rightarrow> bool" where
  "vis_val K u \<rho> x =
     (case n_prompt (k_node K x) of
        None \<Rightarrow> False
      | Some (_, cond) \<Rightarrow> ev K u \<rho> cond \<noteq> 0 \<and> (n_item (k_node K x) = NMenu \<longrightarrow> ev K u \<rho> (n_visibility (k_node K x)) \<noteq> 0))"

lemma yields_visible:
  assumes "reading K rk u n"
  shows "yields K u (node_visible K (accs K n) x) (vis_val K u (solution K u rk) x)"
proof (cases "n_prompt (k_node K x)")
  case (Some p)
  note e = yields_expr [OF assms]
  obtain t c where p: "p = (t, c)" by (cases p)
  show ?thesis
    unfolding node_visible_def vis_val_def Some p Let_def option.case prod.case
    by (rule yields_bind [OF e]) (auto intro: yields_ret yields_eq [OF yields_bind [OF e yields_ret]])
qed (simp add: node_visible_def vis_val_def yields_ret)

lemma repr_list_Nil: "repr K x (n_list N) cs \<Longrightarrow> n_list N = None \<longleftrightarrow> cs = []"
  by (cases cs rule: nodes_of.cases) auto

lemma yields_shown_from:
  assumes r: "reading K rk u n"
  shows "repr K p f ts \<Longrightarrow> length (nodes_of ts) \<le> m \<Longrightarrow>
    yields K u (shown_from K (accs K n) al m f) (shown_tree K (\<lambda>x. vis_val K u (solution K u rk) x \<or> al) ts)"
proof (induction m arbitrary: p f ts)
  case 0
  then show ?case by (cases ts rule: nodes_of.cases) (auto simp: yields_ret)
next
  case (Suc m)
  define V where "V = (\<lambda>x. vis_val K u (solution K u rk) x \<or> al)"
  show ?case
  proof (cases ts rule: nodes_of.cases)
    case 1
    with Suc.prems show ?thesis by (simp add: yields_ret)
  next
    case (2 x cs us)
    let ?N = "k_node K x"
    have f: "f = Some x" and cs: "repr K x (n_list ?N) cs" and us: "repr K p (n_next ?N) us"
      and len: "length (nodes_of cs) \<le> m" "length (nodes_of us) \<le> m"
      using Suc.prems 2 by auto
    note sub = Suc.IH [OF cs len(1), folded V_def]
    have list: "\<exists>l. n_list ?N = Some l" if "cs \<noteq> []" using repr_list_Nil [OF cs] that by auto
    have none: "n_list ?N = None" if "cs = []" using repr_list_Nil [OF cs] that by simp
    let ?sub = "shown_tree K V cs"
    have head: "yields K u
      (if V x then
              (if n_list ?N \<noteq> None \<and> \<not> n_is_menuconfig ?N
               then bind (shown_from K (accs K n) al m (n_list ?N)) (\<lambda>sub. ret (x # sub))
               else ret [x])
            else if n_list ?N \<noteq> None \<and> is_sym_node ?N then
              bind (shown_from K (accs K n) al m (n_list ?N)) (\<lambda>sub.
                ret (if sub = [] then [] else if \<not> n_is_menuconfig ?N then x # sub else [x]))
            else ret [])
      (if V x \<or> is_sym_node ?N \<and> ?sub \<noteq> [] then x # (if n_is_menuconfig ?N then [] else ?sub) else [])"
    proof (cases "cs = []")
      case True
      then show ?thesis using none by (simp add: yields_ret)
    next
      case False
      then obtain l where l: "n_list ?N = Some l" using list by blast
      note s' = sub [unfolded l]
      show ?thesis
        by (cases "V x"; cases "n_is_menuconfig ?N"; cases "is_sym_node ?N"; simp add: l yields_ret)
          ((intro conjI impI)?; rule yields_eq [OF yields_bind [OF s' yields_ret]]; simp)+
    qed
    note rest = Suc.IH [OF us len(2), folded V_def]
    show ?thesis
      unfolding f 2 shown_from.simps shown_tree.simps Let_def V_def [symmetric]
    proof (rule yields_bind [OF yields_visible [OF r]])
      have step: "yields K u (bind m (\<lambda>res. bind (shown_from K (accs K n) al m' g) (\<lambda>rest. ret (res @ rest)))) (h @ shown_tree K V us)"
        if "yields K u m h" "yields K u (shown_from K (accs K n) al m' g) (shown_tree K V us)" for m m' g h
        by (rule yields_bind [OF that(1)], rule yields_bind [OF that(2) yields_ret])
      from step [OF head rest] show "yields K u
        (bind (if vis_val K u (solution K u rk) x \<or> al then
              (if n_list ?N \<noteq> None \<and> \<not> n_is_menuconfig ?N
               then bind (shown_from K (accs K n) al m (n_list ?N)) (\<lambda>sub. ret (x # sub))
               else ret [x])
            else if n_list ?N \<noteq> None \<and> is_sym_node ?N then
              bind (shown_from K (accs K n) al m (n_list ?N)) (\<lambda>sub.
                ret (if sub = [] then [] else if \<not> n_is_menuconfig ?N then x # sub else [x]))
            else ret []) (\<lambda>res. bind (shown_from K (accs K n) al m (n_next ?N)) (\<lambda>rest. ret (res @ rest))))
        ((if V x \<or> is_sym_node ?N \<and> ?sub \<noteq> [] then x # (if n_is_menuconfig ?N then [] else ?sub) else []) @ shown_tree K V us)"
        unfolding V_def .
    qed
  qed
qed

text \<open>The nodes of a menu that is no choice.\<close>

lemma yields_shown:
  assumes "reading K rk u n" and "repr K x (n_list (k_node K x)) cs" and "length (nodes_of cs) \<le> m"
    and "\<And>c. n_item (k_node K x) \<noteq> NCho c"
  shows "yields K u (shown_nodes K (accs K n) al m x) (shown_tree K (\<lambda>y. vis_val K u (solution K u rk) y \<or> al) cs)"
proof -
  have "shown_nodes K (accs K n) al m x = shown_from K (accs K n) al m (n_list (k_node K x))"
    using assms(4) by (simp add: shown_nodes_def split: nitem.split)
  then show ?thesis using yields_shown_from [OF assms(1-3)] by simp
qed

section \<open>Changing a value\<close>

lemma calc_yields:
  assumes "yields K u m x" and "right K u s"
  obtains w where "calc m s = Inr (x, s\<lparr>ui_world := w\<rparr>)" "right K u (s\<lparr>ui_world := w\<rparr>)"
proof -
  obtain d' where "m (w_dyn (ui_world s)) = Inr (x, d')" "usr d' = u" "good K d'"
    using assms by (auto simp: right_def elim: yieldsE)
  then show thesis
    using that [of "(ui_world s)\<lparr>w_dyn := d'\<rparr>"] by (simp add: calc_def in_world_def lift_def right_def)
qed

text \<open>\<open>_update_menu\<close> raises a \<open>ValueError\<close> when the selected node is not shown any more.\<close>

lemma index_of_None: "index_of xs x = None \<longleftrightarrow> x \<notin> set xs"
  by (induction xs) auto

lemma update_menu_raises:
  assumes "sel_node s = Inr (x, s)" and "shown_now T (ui_cur_menu s) s = Inr (xs, t)" and "x \<notin> set xs"
  shows "update_menu T s = Inl ValueError"
proof -
  have "index_of xs x = None" using assms(3) by (simp add: index_of_None)
  then show ?thesis
    using assms(1,2) by (simp add: update_menu_def bind_def gets_def modify_def py_index_def raise_def)
qed

text \<open>Assigning a tristate value with a key changes the assignments and updates the menu.\<close>

lemma set_tri_run:
  assumes r: "ready (t_kc T) rk" "reading (t_kc T) rk u (t_depth T)" "length (all_items (t_kc T)) < t_depth T"
    and s: "right (t_kc T) u s" and sel: "sel_node s = Inr (x, s)" "n_item (unode T x) = NSym a"
    and a: "v \<in> set (rasg (solution (t_kc T) u rk) a)" "rstr (solution (t_kc T) u rk) a \<noteq> tri_to_str v"
  obtains w where "set_sel_node_tri_val T v s = update_menu T (s\<lparr>ui_world := w, ui_conf_changed := True\<rparr>)"
    "right (t_kc T) (assign_sym (t_kc T) a (value_for (t_kc T) a (PStr (tri_to_str v))) u) (s\<lparr>ui_world := w, ui_conf_changed := True\<rparr>)"
proof -
  let ?K = "t_kc T" and ?\<rho> = "solution (t_kc T) u rk"
  note ro = reading_accs(1) [OF r(2)] and val = reading_valuation [OF r(2)]
  have asg: "yields ?K u (get_asg ?K (acs T) a) (rasg ?\<rho> a)"
    by (rule yields_cps [OF r(2) cps_get_asg [OF ro _ val]]) simp
  obtain w1 where 1: "calc (get_asg ?K (acs T) a) s = Inr (rasg ?\<rho> a, s\<lparr>ui_world := w1\<rparr>)" "right ?K u (s\<lparr>ui_world := w1\<rparr>)"
    by (rule calc_yields [OF asg s])
  obtain w2 where 2: "calc (a_str (acs T) a) (s\<lparr>ui_world := w1\<rparr>) = Inr (rstr ?\<rho> a, s\<lparr>ui_world := w2\<rparr>)" "right ?K u (s\<lparr>ui_world := w2\<rparr>)"
    using calc_yields [OF yields_reads(2) [OF r(2)] 1(2)] by auto
  let ?d = "w_dyn w2"
  have d: "good ?K ?d" "usr ?d = u" using 2(2) by (auto simp: right_def)
  obtain b d' where run: "sym_set_value ?K (t_depth T) a (PStr (tri_to_str v)) ?d = Inr (b, d')"
    using sym_set_value_returns [OF r(1,3)] by blast
  note set = sym_set_value_good [OF r(1) d(1) run]
  let ?w = "w2\<lparr>w_dyn := d'\<rparr>"
  have "calc (sym_set_value ?K (t_depth T) a (PStr (tri_to_str v))) (s\<lparr>ui_world := w2\<rparr>) = Inr (b, s\<lparr>ui_world := ?w\<rparr>)"
    using run by (simp add: calc_def in_world_def lift_def)
  then have "set_sel_node_tri_val T v s = update_menu T (s\<lparr>ui_world := ?w, ui_conf_changed := True\<rparr>)"
    using sel 1(1) 2(1) a
    by (simp add: set_sel_node_tri_val_def bind_def node_sc_def sc_assignable_def set_val_def val_str_def sc_str_value_def
      sc_set_value_def modify_def Let_def)
  moreover have "right ?K (assign_sym ?K a (value_for ?K a (PStr (tri_to_str v))) u) (s\<lparr>ui_world := ?w, ui_conf_changed := True\<rparr>)"
    using set d(2) by (simp add: right_def)
  ultimately show thesis by (rule that)
qed

section \<open>Nothing visible is lost\<close>

text \<open>
  \<open>open_path K V ts x\<close>: \<open>x\<close> is a node of \<open>ts\<close>, and the nodes above it are symbols or menus of which \<open>V\<close> holds.
\<close>

fun open_path :: "kconfig \<Rightarrow> (noderef \<Rightarrow> bool) \<Rightarrow> ntree list \<Rightarrow> noderef \<Rightarrow> bool" where
  "open_path K V [] x = False"
| "open_path K V (NTree y cs # ts) x =
     (x = y \<or> (is_sym_node (k_node K y) \<or> V y \<and> n_item (k_node K y) = NMenu) \<and> open_path K V cs x \<or> open_path K V ts x)"

text \<open>\<open>opens T m s x\<close>: from the menu \<open>m\<close>, \<open>x\<close> is shown there or in a menu that is entered from there.\<close>

inductive opens :: "tenv \<Rightarrow> noderef \<Rightarrow> tui \<Rightarrow> noderef \<Rightarrow> bool" for T where
  opens_here: "shown_now T m s = Inr (xs, t) \<Longrightarrow> x \<in> set xs \<Longrightarrow> opens T m s x"
| opens_menu: "shown_now T m s = Inr (xs, t) \<Longrightarrow> y \<in> set xs \<Longrightarrow> n_is_menuconfig (unode T y) \<Longrightarrow> opens T y t x \<Longrightarrow> opens T m s x"

lemma open_path_shown:
  assumes "repr K p f ts" and "open_path K V ts x" and "V x"
  shows "x \<in> set (shown_tree K V ts) \<or>
    (\<exists>y cs. y \<in> set (shown_tree K V ts) \<and> n_is_menuconfig (k_node K y) \<and> (\<forall>c. n_item (k_node K y) \<noteq> NCho c) \<and>
       repr K y (n_list (k_node K y)) cs \<and> length (nodes_of cs) < length (nodes_of ts) \<and> open_path K V cs x)"
  using assms
proof (induction ts arbitrary: p f rule: nodes_of.induct)
  case (2 y cs ts)
  let ?N = "k_node K y"
  have cs: "repr K y (n_list ?N) cs" and ts: "repr K p (n_next ?N) ts" using "2.prems"(1) by auto
  consider "x = y" | "is_sym_node ?N \<or> V y \<and> n_item ?N = NMenu" "open_path K V cs x" | "open_path K V ts x"
    using "2.prems"(2) by auto
  then show ?case
  proof cases
    case 1
    with \<open>V x\<close> show ?thesis by (simp add: Let_def)
  next
    case 2
    note IH = "2.IH"(1) [OF cs 2(2) \<open>V x\<close>]
    have ne: "shown_tree K V cs \<noteq> []" using IH by (auto dest: set_ConsD)
    have not_choice: "n_item ?N \<noteq> NCho c" for c using 2(1) by (auto simp: is_sym_node_def split: nitem.splits)
    have y: "y \<in> set (shown_tree K V (NTree y cs # ts))" using 2(1) ne by (auto simp: Let_def)
    show ?thesis
    proof (cases "n_is_menuconfig ?N")
      case True
      have "length (nodes_of cs) < length (nodes_of (NTree y cs # ts))" by simp
      with True y cs 2(2) not_choice show ?thesis by blast
    next
      case False
      then have sub: "set (shown_tree K V cs) \<subseteq> set (shown_tree K V (NTree y cs # ts))"
        using 2(1) ne by (auto simp: Let_def)
      have "length (nodes_of cs) < length (nodes_of (NTree y cs # ts))" by simp
      with IH sub show ?thesis by (meson less_trans subsetD)
    qed
  next
    case 3
    note IH = "2.IH"(2) [OF ts 3 \<open>V x\<close>]
    have "set (shown_tree K V ts) \<subseteq> set (shown_tree K V (NTree y cs # ts))"
      "length (nodes_of ts) < length (nodes_of (NTree y cs # ts))" by auto
    with IH show ?thesis by (meson less_trans subsetD)
  qed
qed simp

lemma visible_opens:
  assumes r: "reading (t_kc T) rk u (t_depth T)"
  shows "right (t_kc T) u s \<Longrightarrow> repr (t_kc T) m (n_list (unode T m)) ts \<Longrightarrow> length (nodes_of ts) \<le> t_depth T \<Longrightarrow>
    (\<And>c. n_item (unode T m) \<noteq> NCho c) \<Longrightarrow> \<not> ui_show_all s \<Longrightarrow>
    open_path (t_kc T) (vis_val (t_kc T) u (solution (t_kc T) u rk)) ts x \<Longrightarrow> vis_val (t_kc T) u (solution (t_kc T) u rk) x \<Longrightarrow>
    opens T m s x"
proof (induction "length (nodes_of ts)" arbitrary: m ts s rule: less_induct)
  case less
  let ?K = "t_kc T" let ?V = "vis_val ?K u (solution ?K u rk)"
  have y: "yields ?K u (shown_nodes ?K (acs T) False (t_depth T) m) (shown_tree ?K ?V ts)"
    using yields_shown [OF r less.prems(2-4), of False] by simp
  obtain w where w: "calc (shown_nodes ?K (acs T) False (t_depth T) m) s = Inr (shown_tree ?K ?V ts, s\<lparr>ui_world := w\<rparr>)"
    "right ?K u (s\<lparr>ui_world := w\<rparr>)"
    by (rule calc_yields [OF y less.prems(1)])
  have now: "shown_now T m s = Inr (shown_tree ?K ?V ts, s\<lparr>ui_world := w\<rparr>)"
    using w(1) less.prems(5) by (simp add: shown_now_def bind_def gets_def)
  consider "x \<in> set (shown_tree ?K ?V ts)" | z cs where "z \<in> set (shown_tree ?K ?V ts)" "n_is_menuconfig (unode T z)"
      "\<And>c. n_item (unode T z) \<noteq> NCho c" "repr ?K z (n_list (unode T z)) cs" "length (nodes_of cs) < length (nodes_of ts)"
      "open_path ?K ?V cs x"
    using open_path_shown [OF less.prems(2,6,7)] by blast
  then show ?case
  proof cases
    case 1
    with now show ?thesis by (rule opens_here)
  next
    case 2
    have "opens T z (s\<lparr>ui_world := w\<rparr>) x"
      by (rule less.hyps [OF 2(5) w(2) 2(4)]) (use 2(3,5,6) less.prems(3,5,7) in simp_all)
    with now 2(1,2) show ?thesis by (rule opens_menu)
  qed
qed

end
