(* ===== verification/HiddenEntry.thy ===== *)
theory HiddenEntry
  imports MenuNav LoopExamples
begin

text \<open>
  The terminal interface on a Kconfig file that defines a symbol twice: the second entry is only shown because of
  its implicit menu. Changing the symbol there hides the entry, and the interface ends with a \<open>ValueError\<close>. The
  file is parsed by the model, and the interface is run on the result.
\<close>

definition hid_text :: string where
  "hid_text = concat (map (\<lambda>l. l @ [NL])
     [''config X'', ''bool'',
      ''config A'', ''bool '' @ [QUOT] @ ''a'' @ [QUOT],
      ''config A'', ''bool '' @ [QUOT] @ ''a2'' @ [QUOT] @ '' if X'',
      ''config B'', ''bool '' @ [QUOT] @ ''b'' @ [QUOT], ''depends on A'',
      ''menu '' @ [QUOT] @ ''m'' @ [QUOT], ''config C'', ''bool '' @ [QUOT] @ ''c'' @ [QUOT], ''endmenu''])"

definition hid_env :: penv where
  "hid_env = \<lparr>e_environ = (\<lambda>_. None), e_files = (\<lambda>f. if f = ''Kconfig'' then Some hid_text else None), e_glob = (\<lambda>_. []),
    e_shell = (\<lambda>_. ([], [])), e_uname_release = [], e_srctree = [], e_srctree_prefix = ''/'', e_functions = (\<lambda>_. None)\<rparr>"

definition hX :: symref where "hX = SymN ''X''"
definition hA :: symref where "hA = SymN ''A''"
definition hB :: symref where "hB = SymN ''B''"
definition hC :: symref where "hC = SymN ''C''"

lemmas hid_names = hX_def hA_def hB_def hC_def

definition hid_node :: "noderef \<Rightarrow> menunode" where
  "hid_node i =
     (if i = 0 then new_node\<lparr>n_item := NMenu, n_prompt := Some (''Main menu'', ky), n_is_menuconfig := True,
        n_list := Some 1, n_filename := ''Kconfig'', n_linenr := 1\<rparr>
      else if i = 1 then new_node\<lparr>n_item := NSym hX, n_next := Some 2,
        n_parent := Some 0, n_filename := ''Kconfig'', n_linenr := 1\<rparr>
      else if i = 2 then new_node\<lparr>n_item := NSym hA, n_prompt := Some (''a'', ky), n_next := Some 3,
        n_parent := Some 0, n_filename := ''Kconfig'', n_linenr := 3\<rparr>
      else if i = 3 then new_node\<lparr>n_item := NSym hA, n_prompt := Some (''a2'', Item (Sym hX)), n_list := Some 4, n_next := Some 5,
        n_parent := Some 0, n_filename := ''Kconfig'', n_linenr := 5\<rparr>
      else if i = 4 then new_node\<lparr>n_item := NSym hB, n_prompt := Some (''b'', Item (Sym hA)), n_dep := Item (Sym hA),
        n_parent := Some 3, n_filename := ''Kconfig'', n_linenr := 7\<rparr>
      else if i = 5 then new_node\<lparr>n_item := NMenu, n_prompt := Some (''m'', ky), n_is_menuconfig := True, n_list := Some 6,
        n_parent := Some 0, n_filename := ''Kconfig'', n_linenr := 10\<rparr>
      else if i = 6 then new_node\<lparr>n_item := NSym hC, n_prompt := Some (''c'', ky),
        n_parent := Some 5, n_filename := ''Kconfig'', n_linenr := 11\<rparr>
      else new_node)"

definition hid_sym :: "symref \<Rightarrow> symbol" where
  "hid_sym s =
     (if s = hX then new_symbol\<lparr>s_orig_type := BOOL, s_nodes := [1], s_direct_dep := ky\<rparr>
      else if s = hA then new_symbol\<lparr>s_orig_type := BOOL, s_nodes := [2, 3], s_direct_dep := ky\<rparr>
      else if s = hB then new_symbol\<lparr>s_orig_type := BOOL, s_nodes := [4], s_direct_dep := Item (Sym hA)\<rparr>
      else if s = hC then new_symbol\<lparr>s_orig_type := BOOL, s_nodes := [6], s_direct_dep := ky\<rparr>
      else init_sym s)"

definition hid_base :: kconfig where
  "hid_base = \<lparr>k_sym = hid_sym, k_choice = (\<lambda>_. new_choice), k_node = hid_node, k_syms = [''MODULES'', ''X'', ''A'', ''B'', ''C''],
     k_defined_syms = [hX, hA, hA, hB, hC], k_choices = [], k_unique_defined_syms = [hX, hA, hB, hC], k_unique_choices = [],
     k_defconfig_list = None, k_config_prefix = ''CONFIG_'', k_config_header = [], k_header_header = [], k_top_node = 0\<rparr>"

lemma hid_distinct [simp]: "distinct [hX, hA, hB, hC, nMODULES]"
  by (simp add: hid_names nMODULES_def)

lemma hid_neq [simp]: "hX \<noteq> hA" "hX \<noteq> hB" "hX \<noteq> hC" "hA \<noteq> hX" "hA \<noteq> hB" "hA \<noteq> hC" "hB \<noteq> hX" "hB \<noteq> hA" "hB \<noteq> hC"
  "hC \<noteq> hX" "hC \<noteq> hA" "hC \<noteq> hB" "nMODULES \<noteq> hX" "nMODULES \<noteq> hA" "nMODULES \<noteq> hB" "nMODULES \<noteq> hC"
  using hid_distinct by auto

lemma hid_const [simp]: "is_constant hX = False" "is_constant hA = False" "is_constant hB = False" "is_constant hC = False"
  "SymC x \<noteq> hX" "SymC x \<noteq> hA" "SymC x \<noteq> hB" "SymC x \<noteq> hC"
  "nmy_tri hX = None" "nmy_tri hA = None" "nmy_tri hB = None" "nmy_tri hC = None"
  by (simp_all add: hid_names is_constant_def nmy_tri_def)

lemma hid_simps [simp]:
  "k_sym hid_base = hid_sym" "k_choice hid_base = (\<lambda>_. new_choice)" "k_node hid_base = hid_node"
  "k_unique_defined_syms hid_base = [hX, hA, hB, hC]" "k_unique_choices hid_base = []" "k_defconfig_list hid_base = None"
  "k_top_node hid_base = 0"
  by (simp_all add: hid_base_def)

lemma hid_sym_simps [simp]:
  "hid_sym hX = new_symbol\<lparr>s_orig_type := BOOL, s_nodes := [1], s_direct_dep := ky\<rparr>"
  "hid_sym hA = new_symbol\<lparr>s_orig_type := BOOL, s_nodes := [2, 3], s_direct_dep := ky\<rparr>"
  "hid_sym hB = new_symbol\<lparr>s_orig_type := BOOL, s_nodes := [4], s_direct_dep := Item (Sym hA)\<rparr>"
  "hid_sym hC = new_symbol\<lparr>s_orig_type := BOOL, s_nodes := [6], s_direct_dep := ky\<rparr>"
  "s \<noteq> hX \<Longrightarrow> s \<noteq> hA \<Longrightarrow> s \<noteq> hB \<Longrightarrow> s \<noteq> hC \<Longrightarrow> hid_sym s = init_sym s"
  by (simp_all add: hid_sym_def)

lemma hid_prompts [simp]:
  "prompt_conds hid_base [Suc 0] = []" "prompt_conds hid_base [2, 3] = [ky, Item (Sym hX)]" "prompt_conds hid_base [4] = [Item (Sym hA)]"
  "prompt_conds hid_base [6] = [ky]"
  by (simp_all add: prompt_conds_def List.map_filter_simps hid_node_def new_node_def)

lemma hid_checked: "loops_checked hid_base 16"
proof -
  have "build_dep hid_base = (\<lambda>_. [])(Sym hX := [Sym hA], Sym hA := [Sym hB])"
    unfolding build_dep_def
    by (rule ext) (simp add: sym_dep_exprs_def Let_def new_symbol_def depend_on_item_def add_dependent_def kn_def ky_def)
  then show ?thesis
    unfolding loops_checked_def
    by (simp add: check_dep_loops_def store_dependents_def numeral_eq_Suc unvisited_def bind_def gets_def visit_def modify_def
      ret_def new_symbol_def)
qed

lemma hid_fuel: "(16 :: nat) = Suc (Suc (Suc (Suc 12)))" "(12 :: nat) = Suc (Suc (Suc (Suc (Suc (Suc (Suc (Suc (Suc (Suc (Suc (Suc 0)))))))))))"
  by simp_all

lemma hid_parses:
  "case parse_kconfig hid_env 16 ''Kconfig'' (init_pstate hid_env ''Kconfig'' True) of Inl e \<Rightarrow> False
   | Inr (_, s) \<Rightarrow> (case on_kc (finalize 16) s of Inl e \<Rightarrow> False
     | Inr (_, s) \<Rightarrow> (case bind check_sym_sanity (\<lambda>_. check_choice_sanity) s of Inl e \<Rightarrow> False
       | Inr (_, s) \<Rightarrow> p_kc s = hid_base \<and> p_dyn s = init_dyn))"
  unfolding hid_fuel
  apply (simp add: hid_env_def hid_text_def run_rules cong: run_congs)
  apply (rule kconfig.equality; simp add: hid_base_def hid_names)
    apply (rule ext; simp add: hid_sym_def hid_names init_sym_def nmy_tri_def new_symbol_def ky_def kn_def)
   apply (rule ext; simp add: new_choice_def ky_def kn_def)
  apply (rule ext; simp add: hid_node_def hid_names new_node_def ky_def kn_def)
  done

lemma hid_accepted:
  "\<exists>s. kconfig_init hid_env 16 ''Kconfig'' (init_pstate hid_env ''Kconfig'' True) = Inr ((), s) \<and>
    p_kc s = link hid_base \<and> p_dyn s = init_dyn"
  by (rule init_accepts [OF hid_parses hid_checked]) (simp add: warn_undef_def hid_env_def)

section \<open>Its values\<close>

definition hid_kc :: kconfig where "hid_kc = link hid_base"

definition hid_level :: "symref \<Rightarrow> nat option" where
  "hid_level s = map_of [(hX, 0), (hC, 0), (hA, 1), (hB, 2)] s"

fun hid_rank :: "vkey \<Rightarrow> nat" where
  "hid_rank (KVis s) = (case hid_level s of Some l \<Rightarrow> 4 * l + 2 | None \<Rightarrow> 2)"
| "hid_rank (KTri s) = (case hid_level s of Some l \<Rightarrow> 4 * l + 3 | None \<Rightarrow> 0)"
| "hid_rank (KStr s) = (case hid_level s of Some l \<Rightarrow> 4 * l + 4 | None \<Rightarrow> 1)"
| "hid_rank (KAsg s) = (case hid_level s of Some l \<Rightarrow> 4 * l + 4 | None \<Rightarrow> 3)"
| "hid_rank (KCVis c) = 1"
| "hid_rank (KCSel c) = 3"
| "hid_rank (KCAsg c) = 3"

lemma hid_rank_bound: "Suc (hid_rank k) < 16"
  by (cases k) (auto simp: hid_level_def split: option.splits if_splits)

lemma hid_cases:
  obtains "s = hX" | "s = hA" | "s = hB" | "s = hC" | "s \<notin> {hX, hA, hB, hC}"
  by blast

lemma hid_level_simps [simp]: "hid_level hX = Some 0" "hid_level hA = Some 1" "hid_level hB = Some 2" "hid_level hC = Some 0"
  "hid_level (SymC x) = None" "hid_level nMODULES = None" "s \<notin> {hX, hA, hB, hC} \<Longrightarrow> hid_level s = None"
  by (simp_all add: hid_level_def)

lemma hid_sym_out [simp]: "s \<notin> {hX, hA, hB, hC} \<Longrightarrow> hid_sym s = init_sym s"
  by simp

lemma hid_wf: "wf_kconfig hid_base"
  unfolding wf_kconfig_def
proof (intro conjI allI)
  fix s :: symref
  show "\<not> bool_tristate (otype hid_base s) \<and> otype hid_base s \<noteq> UNKNOWN \<longrightarrow> (\<forall>(v, c) \<in> set (s_defaults (k_sym hid_base s)). is_sym_expr v)"
    by (rule hid_cases [of s]) auto
  show "\<forall>e \<in> set (split_expr (s_rev_dep (k_sym hid_base s)) OpOR). \<exists>a r. split_expr e OpAND = Item (Sym a) # r"
    by (rule hid_cases [of s]) (auto simp: kn_def)
  show "s_choice (k_sym hid_base s) = Some c \<longrightarrow> s \<in> set (c_syms (k_choice hid_base c))" for c
    by (rule hid_cases [of s]) auto
  show "nmy_tri s = Some v \<longrightarrow> otype hid_base s = TRISTATE" for v
    by (rule hid_cases [of s]) auto
qed (simp add: new_choice_def)

lemma hid_tree_ok: "tree_ok hid_base"
  unfolding tree_ok_def
proof (intro conjI allI ballI impI)
  fix s :: symref
  assume "s \<notin> set (k_unique_defined_syms hid_base)"
  then have s: "s \<notin> {hX, hA, hB, hC}" by simp
  show "s_nodes (k_sym hid_base s) = []" "s_choice (k_sym hid_base s) = None"
    "otype hid_base s = (if nmy_tri s = None then UNKNOWN else TRISTATE)"
    using s by simp_all
next
  fix s c assume "s_choice (k_sym hid_base s) = Some c"
  then show "Cho c \<in> set (expr_items (s_direct_dep (k_sym hid_base s)))"
    by (rule_tac hid_cases [of s]) auto
qed (auto simp: new_choice_def hid_names split: if_splits)

lemma hid_ranked: "ranked hid_base hid_rank"
proof -
  have "\<forall>k' \<in> set (rdeps hid_base k @ wdeps hid_base k). hid_rank k' < hid_rank k" for k
  proof (cases k)
    case (KVis s)
    show ?thesis unfolding KVis by (rule hid_cases [of s]) (auto simp: ex_deps)
  next
    case (KTri s)
    show ?thesis unfolding KTri by (rule hid_cases [of s]) (auto simp: ex_deps)
  next
    case (KStr s)
    show ?thesis unfolding KStr by (rule hid_cases [of s]) (auto simp: ex_deps)
  next
    case (KAsg s)
    show ?thesis unfolding KAsg by (rule hid_cases [of s]) (auto simp: ex_deps)
  qed (auto simp: ex_deps prompt_conds_Nil)
  then show ?thesis by (simp add: ranked_def)
qed

lemma hid_ready: "ready hid_kc hid_rank"
  unfolding hid_kc_def by (rule ready_link [OF hid_wf hid_ranked hid_tree_ok])

lemma hid_kc_simps [simp]:
  "otype hid_kc s = s_orig_type (hid_sym s)" "s_nodes (k_sym hid_kc s) = s_nodes (hid_sym s)"
  "s_defaults (k_sym hid_kc s) = s_defaults (hid_sym s)" "s_rev_dep (k_sym hid_kc s) = s_rev_dep (hid_sym s)"
  "s_weak_rev_dep (k_sym hid_kc s) = s_weak_rev_dep (hid_sym s)" "s_direct_dep (k_sym hid_kc s) = s_direct_dep (hid_sym s)"
  "s_choice (k_sym hid_kc s) = s_choice (hid_sym s)"
  "prompt_conds hid_kc ns = prompt_conds hid_base ns" "k_node hid_kc = hid_node" "all_items hid_kc = [Sym hX, Sym hA, Sym hB, Sym hC]"
  by (simp_all add: hid_kc_def all_items_def)

lemma hid_kc_fields [simp]: "k_top_node hid_kc = 0" "k_defconfig_list hid_kc = None"
  by (simp_all add: hid_kc_def link_def store_dependents_def)

text \<open>The values when only \<open>A\<close> may have a user value \<open>a\<close>.\<close>

definition hid_users :: "pyval option \<Rightarrow> users" where
  "hid_users a = \<lparr>u_sym = (\<lambda>s. if s = hA then a else None), u_cho = (\<lambda>_. None), u_sel = (\<lambda>_. None)\<rparr>"

definition hid_vals :: "pyval option \<Rightarrow> valuation" where
  "hid_vals a = solution hid_kc (hid_users a) hid_rank"

definition hid_tri :: "pyval option \<Rightarrow> nat" where
  "hid_tri a = (case a of Some (PInt v) \<Rightarrow> v | _ \<Rightarrow> 0)"

definition hid_val :: "pyval option \<Rightarrow> bool" where
  "hid_val a = (a \<in> {None, Some (PInt 0), Some (PInt 2)})"

lemma hid_wf_users: "hid_val a \<Longrightarrow> wf_users hid_kc (hid_users a)"
  by (auto simp: wf_users_def hid_users_def hid_val_def)

lemma hid_reading: "hid_val a \<Longrightarrow> reading hid_kc hid_rank (hid_users a) 16"
  using hid_ready hid_wf_users hid_rank_bound by (simp add: reading_def ready_def)

lemma hid_valuation: "hid_val a \<Longrightarrow> is_valuation hid_kc (hid_users a) (hid_vals a)"
  unfolding hid_vals_def using hid_reading by (rule reading_valuation)

lemma hid_X: "hid_val a \<Longrightarrow> rtri (hid_vals a) hX = 0"
proof -
  assume a: "hid_val a"
  have "rvis hid_kc (hid_vals a) hX = 0" by (simp add: valuation_vis [OF hid_valuation [OF a]] ex_spec)
  then show ?thesis by (simp add: valuation_tri [OF hid_valuation [OF a]] ex_spec hid_users_def)
qed

lemma hid_A:
  assumes a: "hid_val a"
  shows "rvis hid_kc (hid_vals a) hA = 2" and "rtri (hid_vals a) hA = hid_tri a" and "rasg (hid_vals a) hA = [0, 2]"
    and "rstr (hid_vals a) hA = tri_to_str (hid_tri a)"
proof -
  note v = hid_valuation [OF a]
  show vis: "rvis hid_kc (hid_vals a) hA = 2" by (simp add: valuation_vis [OF v] ex_spec hid_X [OF a])
  show tri: "rtri (hid_vals a) hA = hid_tri a"
    using a by (auto simp: valuation_tri [OF v] vis ex_spec hid_users_def hid_val_def hid_tri_def)
  show "rasg (hid_vals a) hA = [0, 2]" by (simp add: valuation_asg [OF v] asg_spec_def vis ex_spec bool_tristate_def)
  show "rstr (hid_vals a) hA = tri_to_str (hid_tri a)"
    using is_valuationD [OF v, of "KStr hA"] tri by (simp add: rstr_def)
qed

section \<open>Its menus\<close>

definition hid_menu :: "ntree list" where
  "hid_menu = [NTree 1 [], NTree 2 [], NTree 3 [NTree 4 []], NTree 5 [NTree 6 []]]"

lemma hid_menu_tree: "menu_tree hid_kc hid_menu" "distinct (nodes_of hid_menu)"
  by (simp_all add: menu_tree_def hid_menu_def hid_node_def new_node_def)

text \<open>What the top menu shows: the second entry of \<open>A\<close> only when \<open>A\<close> is set.\<close>

definition hid_shown :: "pyval option \<Rightarrow> noderef list" where
  "hid_shown a = (if hid_tri a = 0 then [2, 5] else [2, 3, 4, 5])"

lemma hid_tree_shown:
  assumes a: "hid_val a"
  shows "shown_tree hid_kc (vis_val hid_kc (hid_users a) (hid_vals a)) hid_menu = hid_shown a"
  by (simp add: hid_menu_def vis_val_def hid_node_def new_node_def is_sym_node_def hid_X [OF a] hid_A(2) [OF a] hid_shown_def Let_def)

section \<open>The run\<close>

definition hid_T :: tenv where
  "hid_T = \<lparr>t_kc = hid_kc, t_depth = 16, t_erase = CHR 0x7F, t_expanduser = (\<lambda>f. f), t_cwd = ''/'',
    t_re = (\<lambda>_. None), t_menus = [5], t_comments = []\<rparr>"

definition hid_world :: world where
  "hid_world = \<lparr>w_dyn = init_dyn, w_env = (\<lambda>_. None), w_files = (\<lambda>_. None), w_dirs = (\<lambda>_. False), w_links = (\<lambda>_. False),
    w_denied = (\<lambda>_. False), w_srctree = [], w_touched = []\<rparr>"

text \<open>A terminal of 24 lines, in which the user presses the keys \<open>ks\<close>.\<close>

definition hid_start :: "key list \<Rightarrow> tui" where
  "hid_start ks = \<lparr>ui_world = hid_world, ui_keys = map (\<lambda>k. (k, 24, 80)) ks, ui_size = (24, 80), ui_height = 1,
    ui_cur_menu = 0, ui_shown = [], ui_sel_node_i = 0, ui_menu_scroll = 0, ui_parent_screen_rows = [], ui_show_help = False,
    ui_show_name = False, ui_show_all = False, ui_conf_filename = [], ui_minconf_filename = [], ui_conf_changed = False\<rparr>"

text \<open>The states the run goes through: the keys left, what is shown, and the selected position.\<close>

definition hid_ui :: "key list \<Rightarrow> noderef list \<Rightarrow> int \<Rightarrow> world \<Rightarrow> tui" where
  "hid_ui ks ns i w = (hid_start ks)\<lparr>ui_world := w, ui_shown := ns, ui_height := 17, ui_sel_node_i := i, ui_conf_filename := ''.config'',
    ui_minconf_filename := ''defconfig'', ui_conf_changed := True\<rparr>"

lemma hid_ui_simps [simp]:
  "ui_world (hid_ui ks ns i w) = w" "ui_shown (hid_ui ks ns i w) = ns" "ui_height (hid_ui ks ns i w) = 17"
  "ui_sel_node_i (hid_ui ks ns i w) = i" "ui_cur_menu (hid_ui ks ns i w) = 0" "ui_menu_scroll (hid_ui ks ns i w) = 0"
  "ui_show_all (hid_ui ks ns i w) = False" "ui_keys (hid_ui ks ns i w) = map (\<lambda>k. (k, 24, 80)) ks"
  "ui_size (hid_ui ks ns i w) = (24, 80)" "ui_parent_screen_rows (hid_ui ks ns i w) = []"
  by (simp_all add: hid_ui_def hid_start_def)

lemma hid_ui_updates [simp]:
  "(hid_ui ks ns i w)\<lparr>ui_world := w', ui_conf_changed := True\<rparr> = hid_ui ks ns i w'"
  "(hid_ui ks ns i w)\<lparr>ui_world := w'\<rparr> = hid_ui ks ns i w'"
  "(hid_ui (k # ks) ns i w)\<lparr>ui_keys := map (\<lambda>k. (k, 24, 80)) ks, ui_size := (24, 80)\<rparr> = hid_ui ks ns i w"
  "(hid_ui ks ns i w)\<lparr>ui_shown := ns', ui_sel_node_i := j, ui_menu_scroll := 0\<rparr> = hid_ui ks ns' j w"
  "(hid_ui ks ns i w)\<lparr>ui_sel_node_i := j, ui_menu_scroll := 0\<rparr> = hid_ui ks ns j w"
  "(hid_ui ks ns i w)\<lparr>ui_conf_changed := True\<rparr> = hid_ui ks ns i w"
  "(hid_ui ks ns i w)\<lparr>ui_sel_node_i := j\<rparr> = hid_ui ks ns j w"
  by (simp_all add: hid_ui_def hid_start_def)

lemma right_hid_ui: "right K u (hid_ui ks ns i w) \<Longrightarrow> right K u (hid_ui ks' ns' i' w)"
  by (simp add: right_def)

lemma hid_sel_node: "i = 0 \<Longrightarrow> sel_node (hid_ui ks (x # ns) i w) = Inr (x, hid_ui ks (x # ns) i w)"
  "i = 1 \<Longrightarrow> sel_node (hid_ui ks (y # x # ns) i w) = Inr (x, hid_ui ks (y # x # ns) i w)"
  by (simp_all add: sel_node_def bind_def gets_def py_nth_def ret_def)

lemma hid_T_simps [simp]: "t_kc hid_T = hid_kc" "t_depth hid_T = 16"
  by (simp_all add: hid_T_def)

lemma hid_shown_now:
  assumes a: "hid_val a" and s: "right hid_kc (hid_users a) s" "\<not> ui_show_all s"
  obtains w where "shown_now hid_T 0 s = Inr (hid_shown a, s\<lparr>ui_world := w\<rparr>)" "right hid_kc (hid_users a) (s\<lparr>ui_world := w\<rparr>)"
proof -
  have "yields hid_kc (hid_users a) (shown_nodes hid_kc (acs hid_T) False 16 0) (hid_shown a)"
    using yields_shown [OF hid_reading [OF a], of 0 hid_menu 16 False] hid_menu_tree(1) hid_tree_shown [OF a]
    by (simp add: menu_tree_def hid_menu_def hid_node_def hid_vals_def)
  from calc_yields [OF this s(1)] that s(2) show thesis by (auto simp: shown_now_def bind_def gets_def)
qed

lemma usr_hid: "usr init_dyn = hid_users None"
  by (simp add: usr_def init_dyn_def hid_users_def)

lemma good_warn: "good K d \<Longrightarrow> good K (d\<lparr>warn := b\<rparr>)"
proof -
  assume g: "good K d"
  have "cached K (d\<lparr>warn := b\<rparr>) = cached K d" by (rule ext, case_tac x) (simp_all split: option.split)
  then show ?thesis using g good_same_view [of K "d\<lparr>warn := b\<rparr>" d] by (simp add: usr_def consts_ok_def)
qed

lemma right_warn: "right K u s \<Longrightarrow> \<exists>w. calc (modify (\<lambda>d. d\<lparr>warn := b\<rparr>)) s = Inr ((), s\<lparr>ui_world := w\<rparr>) \<and> right K u (s\<lparr>ui_world := w\<rparr>)"
  using good_warn [of K "w_dyn (ui_world s)" b]
  by (auto simp: right_def calc_def in_world_def lift_def modify_def usr_def intro!: exI [of _ "(ui_world s)\<lparr>w_dyn := (w_dyn (ui_world s))\<lparr>warn := b\<rparr>\<rparr>"])

lemma hid_loaded:
  "load_initial hid_T (hid_start ks) = Inr (True, (hid_start ks)\<lparr>ui_conf_filename := ''.config'', ui_conf_changed := True,
    ui_minconf_filename := ''defconfig'', ui_show_all := False\<rparr>)"
  by (simp add: load_initial_def in_world_def standard_config_filename_def load_config_io_def bind_def gets_def ret_def modify_def
    defconfig_filename_def exists_path_def hid_start_def hid_world_def)

lemma hid_started: "\<exists>w. start_ui hid_T (hid_start ks) = Inr (True, hid_ui ks [2, 5] 0 w) \<and> right hid_kc (hid_users None) (hid_ui ks [2, 5] 0 w)"
proof -
  have none: "hid_val None" by (simp add: hid_val_def)
  let ?s = "(hid_start ks)\<lparr>ui_conf_filename := ''.config'', ui_conf_changed := True, ui_minconf_filename := ''defconfig'', ui_show_all := False\<rparr>"
  have s: "right hid_kc (hid_users None) ?s" using usr_hid good_init_dyn by (simp add: right_def hid_start_def hid_world_def)
  obtain w1 where 1: "shown_now hid_T 0 ?s = Inr (hid_shown None, ?s\<lparr>ui_world := w1\<rparr>)" "right hid_kc (hid_users None) (?s\<lparr>ui_world := w1\<rparr>)"
    by (rule hid_shown_now [OF none s]) simp
  obtain w2 where 2: "calc (modify (\<lambda>d. d\<lparr>warn := False\<rparr>)) (?s\<lparr>ui_world := w1\<rparr>) = Inr ((), ?s\<lparr>ui_world := w2\<rparr>)"
      "right hid_kc (hid_users None) (?s\<lparr>ui_world := w2\<rparr>)"
    using right_warn [OF 1(2), of False] by auto
  obtain w3 where 3: "shown_now hid_T 0 (?s\<lparr>ui_world := w2\<rparr>) = Inr (hid_shown None, ?s\<lparr>ui_world := w3\<rparr>)"
      "right hid_kc (hid_users None) (?s\<lparr>ui_world := w3\<rparr>)"
    using hid_shown_now [OF none 2(2)] by auto
  have top: "something_shown hid_T ?s = Inr (True, ?s\<lparr>ui_world := w1\<rparr>)"
    using 1(1) by (simp add: something_shown_def bind_def ret_def hid_shown_def hid_tri_def)
  have init: "init_ui hid_T (?s\<lparr>ui_world := w2\<rparr>) = Inr ((), hid_ui ks [2, 5] 0 w3)"
    using 3(1)
    by (simp add: init_ui_def bind_def modify_def resize_main_def menu_win_height_def hid_shown_def hid_tri_def hid_ui_def hid_start_def)
  have "start_ui hid_T (hid_start ks) = Inr (True, hid_ui ks [2, 5] 0 w3)"
    unfolding start_ui_def using hid_loaded [of ks] top 2(1) init by (simp add: bind_def ret_def)
  moreover have "right hid_kc (hid_users None) (hid_ui ks [2, 5] 0 w3)"
    using 3(2) by (simp add: right_def hid_ui_def)
  ultimately show ?thesis by blast
qed

lemma key_branches:
  "main_key T (KeyChar (CHR ''y'')) = bind (set_sel_node_tri_val T 2) (\<lambda>_. ret None)"
  "main_key T (KeyChar (CHR ''n'')) = bind (set_sel_node_tri_val T 0) (\<lambda>_. ret None)"
  "main_key T KEY_DOWN = bind select_next_menu_entry (\<lambda>_. ret None)"
  by (simp_all add: main_key_def cursor_key_def value_key_def is_key_def Let_def)

text \<open>Assigning \<open>A\<close> from one of its entries.\<close>

lemma hid_set:
  assumes a: "hid_val a" and s: "right hid_kc (hid_users a) s" "ui_cur_menu s = 0" "\<not> ui_show_all s"
    and sel: "sel_node s = Inr (x, s)" "n_item (hid_node x) = NSym hA" and v: "v \<in> {0, 2}" "v \<noteq> hid_tri a"
  obtains w w' where "set_sel_node_tri_val hid_T v s = update_menu hid_T (s\<lparr>ui_world := w, ui_conf_changed := True\<rparr>)"
    "shown_now hid_T 0 (s\<lparr>ui_world := w, ui_conf_changed := True\<rparr>) =
       Inr (hid_shown (Some (PInt v)), s\<lparr>ui_world := w', ui_conf_changed := True\<rparr>)"
    "right hid_kc (hid_users (Some (PInt v))) (s\<lparr>ui_world := w', ui_conf_changed := True\<rparr>)"
proof -
  have str: "rstr (solution hid_kc (hid_users a) hid_rank) hA \<noteq> tri_to_str v"
    using hid_A(4) [OF a] v a by (auto simp: hid_vals_def hid_tri_def hid_val_def tri_to_str_def split: if_splits)
  have asg: "v \<in> set (rasg (solution hid_kc (hid_users a) hid_rank) hA)" using hid_A(3) [OF a] v by (auto simp: hid_vals_def)
  have new: "assign_sym hid_kc hA (value_for hid_kc hA (PStr (tri_to_str v))) (hid_users a) = hid_users (Some (PInt v))"
    using v(1) by (auto simp: assign_sym_def value_for_def norm_tri_def tri_to_str_def str_to_tri_def bool_tristate_def hid_users_def)
  have r: "ready (t_kc hid_T) hid_rank" "reading (t_kc hid_T) hid_rank (hid_users a) (t_depth hid_T)"
    "length (all_items (t_kc hid_T)) < t_depth hid_T" "right (t_kc hid_T) (hid_users a) s"
    using hid_ready hid_reading [OF a] s(1) by simp_all
  have node: "n_item (unode hid_T x) = NSym hA" using sel(2) by simp
  have asg': "v \<in> set (rasg (solution (t_kc hid_T) (hid_users a) hid_rank) hA)"
    "rstr (solution (t_kc hid_T) (hid_users a) hid_rank) hA \<noteq> tri_to_str v" using asg str by simp_all
  obtain w where w: "set_sel_node_tri_val hid_T v s = update_menu hid_T (s\<lparr>ui_world := w, ui_conf_changed := True\<rparr>)"
    "right hid_kc (hid_users (Some (PInt v))) (s\<lparr>ui_world := w, ui_conf_changed := True\<rparr>)"
    by (rule set_tri_run [OF r sel(1) node asg']) (simp only: hid_T_simps new)
  have val: "hid_val (Some (PInt v))" using v(1) by (auto simp: hid_val_def)
  have upd: "(s\<lparr>ui_world := w, ui_conf_changed := True\<rparr>)\<lparr>ui_world := w'\<rparr> = s\<lparr>ui_world := w', ui_conf_changed := True\<rparr>" for w'
    by (cases s) simp
  have all: "\<not> ui_show_all (s\<lparr>ui_world := w, ui_conf_changed := True\<rparr>)" using s(3) by simp
  obtain w' where "shown_now hid_T 0 (s\<lparr>ui_world := w, ui_conf_changed := True\<rparr>) =
       Inr (hid_shown (Some (PInt v)), s\<lparr>ui_world := w', ui_conf_changed := True\<rparr>)"
    "right hid_kc (hid_users (Some (PInt v))) (s\<lparr>ui_world := w', ui_conf_changed := True\<rparr>)"
    by (rule hid_shown_now [OF val w(2) all]) (simp only: upd)
  then show thesis by (rule that [OF w(1)])
qed

text \<open>The run: \<open>y\<close> on \<open>A\<close> shows its second entry, \<open>KEY_DOWN\<close> selects that, and \<open>n\<close> hides it again.\<close>

definition hid_keys :: "key list" where
  "hid_keys = [KeyChar (CHR ''y''), KEY_DOWN, KeyChar (CHR ''n'')]"

lemma hid_getch: "getch (hid_ui (k # ks) ns i w) = Inr (k, hid_ui ks ns i w)"
  by (simp add: getch_def hid_ui_def hid_start_def)

lemma hid_entries: "n_item (hid_node 2) = NSym hA" "n_item (hid_node 3) = NSym hA"
  by (simp_all add: hid_node_def)

lemma hid_set_ui:
  assumes "hid_val a" and "right hid_kc (hid_users a) (hid_ui ks ns i w)" and "sel_node (hid_ui ks ns i w) = Inr (x, hid_ui ks ns i w)"
    and "n_item (hid_node x) = NSym hA" and "v \<in> {0, 2}" "v \<noteq> hid_tri a"
  obtains w1 w2 where "set_sel_node_tri_val hid_T v (hid_ui ks ns i w) = update_menu hid_T (hid_ui ks ns i w1)"
    "shown_now hid_T 0 (hid_ui ks ns i w1) = Inr (hid_shown (Some (PInt v)), hid_ui ks ns i w2)"
    "right hid_kc (hid_users (Some (PInt v))) (hid_ui ks ns i w2)"
  by (rule hid_set [OF assms(1,2) _ _ assms(3-6)]) (simp_all only: hid_ui_simps hid_ui_updates simp_thms)

lemma hid_round1:
  assumes "right hid_kc (hid_users None) (hid_ui hid_keys [2, 5] 0 w)"
  obtains w' where "main_round hid_T (hid_ui hid_keys [2, 5] 0 w) = Inr (None, hid_ui (tl hid_keys) [2, 3, 4, 5] 0 w')"
    "right hid_kc (hid_users (Some (PInt 2))) (hid_ui (tl hid_keys) [2, 3, 4, 5] 0 w')"
proof -
  have none: "hid_val None" by (simp add: hid_val_def)
  obtain w1 w2 where 1: "set_sel_node_tri_val hid_T 2 (hid_ui (tl hid_keys) [2, 5] 0 w) = update_menu hid_T (hid_ui (tl hid_keys) [2, 5] 0 w1)"
    "shown_now hid_T 0 (hid_ui (tl hid_keys) [2, 5] 0 w1) = Inr (hid_shown (Some (PInt 2)), hid_ui (tl hid_keys) [2, 5] 0 w2)"
    "right hid_kc (hid_users (Some (PInt 2))) (hid_ui (tl hid_keys) [2, 5] 0 w2)"
    by (rule hid_set_ui [where v = 2, OF none right_hid_ui [OF assms] hid_sel_node(1) [OF refl] hid_entries(1)])
      (simp_all add: hid_tri_def)
  have "update_menu hid_T (hid_ui (tl hid_keys) [2, 5] 0 w1) = Inr ((), hid_ui (tl hid_keys) [2, 3, 4, 5] 0 w2)"
    using 1(2) by (simp add: update_menu_def bind_def gets_def modify_def py_index_def hid_sel_node hid_shown_def hid_tri_def ret_def)
  then have "main_round hid_T (hid_ui hid_keys [2, 5] 0 w) = Inr (None, hid_ui (tl hid_keys) [2, 3, 4, 5] 0 w2)"
    using 1(1) by (simp add: main_round_def hid_getch bind_def key_branches ret_def hid_keys_def)
  then show thesis using right_hid_ui [OF 1(3)] by (rule that)
qed

lemma hid_round2:
  "main_round hid_T (hid_ui (tl hid_keys) [2, 3, 4, 5] 0 w) = Inr (None, hid_ui (tl (tl hid_keys)) [2, 3, 4, 5] 1 w)"
  by (simp add: main_round_def hid_getch bind_def key_branches ret_def select_next_menu_entry_def modify_def Let_def
    SCROLL_OFFSET_def max_scroll_def hid_keys_def)

lemma hid_round3:
  assumes "right hid_kc (hid_users (Some (PInt 2))) (hid_ui (tl (tl hid_keys)) [2, 3, 4, 5] 1 w)"
  shows "main_round hid_T (hid_ui (tl (tl hid_keys)) [2, 3, 4, 5] 1 w) = Inl ValueError"
proof -
  have two: "hid_val (Some (PInt 2))" by (simp add: hid_val_def)
  obtain w1 w2 where 1: "set_sel_node_tri_val hid_T 0 (hid_ui [] [2, 3, 4, 5] 1 w) = update_menu hid_T (hid_ui [] [2, 3, 4, 5] 1 w1)"
    "shown_now hid_T 0 (hid_ui [] [2, 3, 4, 5] 1 w1) = Inr (hid_shown (Some (PInt 0)), hid_ui [] [2, 3, 4, 5] 1 w2)"
    "right hid_kc (hid_users (Some (PInt 0))) (hid_ui [] [2, 3, 4, 5] 1 w2)"
    by (rule hid_set_ui [where v = 0, OF two right_hid_ui [OF assms] hid_sel_node(2) [OF refl] hid_entries(2)])
      (simp_all add: hid_tri_def)
  have "shown_now hid_T (ui_cur_menu (hid_ui [] [2, 3, 4, 5] 1 w1)) (hid_ui [] [2, 3, 4, 5] 1 w1) = Inr ([2, 5], hid_ui [] [2, 3, 4, 5] 1 w2)"
    using 1(2) by (simp add: hid_shown_def hid_tri_def)
  from update_menu_raises [OF hid_sel_node(2) this]
  have "update_menu hid_T (hid_ui [] [2, 3, 4, 5] 1 w1) = Inl ValueError" by simp
  then show ?thesis using 1(1) by (simp add: main_round_def hid_getch bind_def key_branches hid_keys_def)
qed

lemma hid_raises: "\<exists>t. start_ui hid_T (hid_start hid_keys) = Inr (True, t) \<and> main_loop hid_T 3 t = Inl ValueError"
proof -
  obtain w0 where 0: "start_ui hid_T (hid_start hid_keys) = Inr (True, hid_ui hid_keys [2, 5] 0 w0)"
    "right hid_kc (hid_users None) (hid_ui hid_keys [2, 5] 0 w0)"
    using hid_started by blast
  obtain w where 1: "main_round hid_T (hid_ui hid_keys [2, 5] 0 w0) = Inr (None, hid_ui (tl hid_keys) [2, 3, 4, 5] 0 w)"
    "right hid_kc (hid_users (Some (PInt 2))) (hid_ui (tl hid_keys) [2, 3, 4, 5] 0 w)"
    by (rule hid_round1 [OF 0(2)])
  have "main_loop hid_T 3 (hid_ui hid_keys [2, 5] 0 w0) = Inl ValueError"
    using 1(1) hid_round2 [of w] hid_round3 [OF right_hid_ui [OF 1(2)]] by (simp add: numeral_3_eq_3 bind_def)
  with 0(1) show ?thesis by blast
qed

text \<open>The menu \<open>m\<close>, and the keys that lead to it.\<close>

lemma hid_menu_m:
  assumes a: "hid_val a" and s: "right hid_kc (hid_users a) (hid_ui ks ns i w)"
  obtains w' where "shown_now hid_T 5 (hid_ui ks ns i w) = Inr ([6], hid_ui ks ns i w')" "right hid_kc (hid_users a) (hid_ui ks ns i w')"
proof -
  have sub: "repr hid_kc 5 (n_list (k_node hid_kc 5)) [NTree 6 []]" by (simp add: hid_node_def new_node_def)
  have item: "n_item (k_node hid_kc 5) \<noteq> NCho c" for c by (simp add: hid_node_def)
  have tree: "shown_tree hid_kc (\<lambda>y. vis_val hid_kc (hid_users a) (solution hid_kc (hid_users a) hid_rank) y \<or> False) [NTree 6 []] = [6]"
    by (simp add: vis_val_def hid_node_def new_node_def)
  have "yields hid_kc (hid_users a) (shown_nodes hid_kc (acs hid_T) False 16 5) [6]"
    using yields_shown [OF hid_reading [OF a] sub _ item, of 16 False] unfolding tree by simp
  then obtain w' where "calc (shown_nodes hid_kc (acs hid_T) False 16 5) (hid_ui ks ns i w) = Inr ([6], hid_ui ks ns i w')"
    "right hid_kc (hid_users a) (hid_ui ks ns i w')"
    using s by (rule calc_yields) (simp only: hid_ui_updates)
  then show thesis using that by (simp add: shown_now_def bind_def gets_def)
qed

lemma hid_round_down:
  "main_round hid_T (hid_ui (KEY_DOWN # ks) [2, 5] 0 w) = Inr (None, hid_ui ks [2, 5] 1 w)"
  by (simp add: main_round_def hid_getch bind_def key_branches ret_def select_next_menu_entry_def modify_def Let_def
    SCROLL_OFFSET_def max_scroll_def)

end
