(* ===== verification/TrueDiv.thy ===== *)
theory TrueDiv
  imports Prelude
begin

text \<open>
  Python's true division of integers, as \<open>functools.reduce(operator.truediv, ...)\<close> in
  \<^verbatim>\<open>src/scripts/kconfig/kconfigfunctions.py\<close> uses it: the quotient is rounded to a double, with a significand of 53
  bits, and further divisions go on from the double. \<open>int()\<close> cuts off the fraction in the end.

  A double is a sign, a significand and an exponent. Quotients too small for the normal range are not rounded
  further: they are below 1, and stay below 1 when divided by integers, so that \<open>int()\<close> gives 0 in any case.
\<close>

section \<open>Rounding\<close>

fun bit_count :: "nat \<Rightarrow> nat" where
  "bit_count n = (if n = 0 then 0 else Suc (bit_count (n div 2)))"

declare bit_count.simps [simp del]

text \<open>\<open>p / q\<close> as an integer; a tie goes to the even one.\<close>

definition round_half_even :: "nat \<Rightarrow> nat \<Rightarrow> nat" where
  "round_half_even p q =
     (let k = p div q; r = p mod q in if 2 * r > q \<or> 2 * r = q \<and> odd k then k + 1 else k)"

text \<open>The double nearest to \<open>p / q\<close>: the exponent is chosen such that the significand has 53 bits.\<close>

definition up :: "int \<Rightarrow> nat \<Rightarrow> nat" where
  "up s p = p * 2 ^ nat s"

definition scale :: "nat \<Rightarrow> nat \<Rightarrow> int" where
  "scale p q =
     (let s = int (bit_count q) + 53 - int (bit_count p)
      in if 2 ^ 53 * up (- s) q \<le> up s p then s - 1 else s)"

definition nearest :: "nat \<Rightarrow> nat \<Rightarrow> nat \<times> int" where
  "nearest p q = (if p = 0 then (0, 0) else let s = scale p q in (round_half_even (up s p) (up (- s) q), - s))"

text \<open>Doubles end at \<open>2 ^ 1024\<close>.\<close>

definition too_large :: "nat \<times> int \<Rightarrow> bool" where
  "too_large f = (2 ^ 1024 \<le> up (snd f) (fst f) div 2 ^ nat (- snd f))"

section \<open>Division\<close>

datatype pynum = PyI int | PyF bool nat int

definition div_step :: "pynum \<Rightarrow> int \<Rightarrow> pyexc + pynum" where
  "div_step x b =
     (if b = 0 then Inl ZeroDivisionError
      else case x of
        PyI a \<Rightarrow>
          (let f = nearest (nat \<bar>a\<bar>) (nat \<bar>b\<bar>)
           in if too_large f then Inl OverflowError else Inr (PyF ((a < 0) \<noteq> (b < 0)) (fst f) (snd f)))
      | PyF neg m e \<Rightarrow>
          (let g = nearest (nat \<bar>b\<bar>) 1; f = nearest m (fst g)
           in if too_large g then Inl OverflowError
              else Inr (PyF (neg \<noteq> (b < 0)) (fst f) (snd f + e - snd g))))"

definition py_trunc :: "pynum \<Rightarrow> int" where
  "py_trunc x =
     (case x of PyI a \<Rightarrow> a
      | PyF neg m e \<Rightarrow> (let v = int (up e m div 2 ^ nat (- e)) in if neg then - v else v))"

section \<open>Where the result is exact\<close>

lemma bit_count_bounds: "0 < n \<Longrightarrow> 2 ^ (bit_count n - 1) \<le> n \<and> n < 2 ^ bit_count n"
proof (induction n rule: bit_count.induct)
  case (1 n)
  show ?case
  proof (cases "n = 1")
    case True
    then show ?thesis by (simp add: bit_count.simps)
  next
    case False
    then have "0 < n div 2" using 1(2) by simp
    with 1(1) 1(2) have IH: "2 ^ (bit_count (n div 2) - 1) \<le> n div 2" "n div 2 < 2 ^ bit_count (n div 2)" by auto
    have "0 < bit_count (n div 2)" using \<open>0 < n div 2\<close> by (simp add: bit_count.simps)
    then obtain k where k: "bit_count (n div 2) = Suc k" by (cases "bit_count (n div 2)") auto
    have "bit_count n = Suc (bit_count (n div 2))" using 1(2) by (simp add: bit_count.simps [of n])
    with IH k show ?thesis by auto
  qed
qed

text \<open>The quotient that is rounded has at least 53 bits.\<close>

lemma scale_large:
  assumes "0 < p" and "0 < q"
  shows "2 ^ 52 * up (- scale p q) q \<le> up (scale p q) p"
proof -
  define s where "s = int (bit_count q) + 53 - int (bit_count p)"
  have p: "2 ^ (bit_count p - 1) \<le> p" and q: "q < 2 ^ bit_count q"
    using bit_count_bounds assms by auto
  have bp: "0 < bit_count p" using assms(1) by (simp add: bit_count.simps [of p])
  have low: "2 ^ 52 * up (- s) q \<le> up s p"
  proof (cases "0 \<le> s")
    case True
    have "52 + bit_count q = bit_count p - 1 + nat s" using True bp by (simp add: s_def)
    then have "2 ^ 52 * 2 ^ bit_count q = (2 :: nat) ^ (bit_count p - 1) * 2 ^ nat s" by (simp only: power_add [symmetric])
    moreover have "2 ^ 52 * q \<le> 2 ^ 52 * 2 ^ bit_count q" using q by simp
    moreover have "2 ^ (bit_count p - 1) * 2 ^ nat s \<le> p * 2 ^ nat s" using p by simp
    ultimately have "2 ^ 52 * q \<le> p * 2 ^ nat s" by (metis le_trans)
    then show ?thesis using True by (simp add: up_def)
  next
    case False
    have "52 + bit_count q + nat (- s) = bit_count p - 1" using False bp by (simp add: s_def)
    then have "2 ^ 52 * (2 ^ bit_count q * 2 ^ nat (- s)) = (2 :: nat) ^ (bit_count p - 1)" by (simp only: power_add [symmetric] ac_simps)
    moreover have "2 ^ 52 * (q * 2 ^ nat (- s)) \<le> 2 ^ 52 * (2 ^ bit_count q * 2 ^ nat (- s))" using q by simp
    ultimately show ?thesis using False p by (simp add: up_def)
  qed
  show ?thesis
  proof (cases "2 ^ 53 * up (- s) q \<le> up s p")
    case False
    then show ?thesis using low by (simp add: scale_def s_def [symmetric])
  next
    case True
    then have sc: "scale p q = s - 1" by (simp add: scale_def s_def [symmetric])
    show ?thesis
    proof (cases "1 \<le> s")
      case pos: True
      then have "nat s = Suc (nat (s - 1))" "nat (- s) = 0" "nat (- (s - 1)) = 0" by auto
      then show ?thesis using True unfolding sc by (simp add: up_def)
    next
      case neg: False
      then have "nat (- (s - 1)) = Suc (nat (- s))" "nat s = 0" "nat (s - 1) = 0" by auto
      then show ?thesis using True unfolding sc by (simp add: up_def)
    qed
  qed
qed

lemma round_half_even_bounds:
  assumes "0 < q"
  shows "k * q \<le> p \<Longrightarrow> k \<le> round_half_even p q" and "2 * round_half_even p q * q \<le> 2 * p + q"
proof -
  have "k \<le> p div q" if "k * q \<le> p" using that assms by (simp add: less_eq_div_iff_mult_less_eq)
  then show "k * q \<le> p \<Longrightarrow> k \<le> round_half_even p q" by (auto simp: round_half_even_def Let_def le_SucI)
  have p: "p = p div q * q + p mod q" by simp
  have "2 * (p div q + 1) * q \<le> 2 * p + q" if "q \<le> 2 * (p mod q)"
  proof -
    have "2 * (p div q + 1) * q = 2 * (p div q * q) + q + q" by (simp add: algebra_simps)
    with that p show ?thesis by linarith
  qed
  moreover have "2 * (p div q) * q \<le> 2 * p + q" using p by (metis le_add1 mult.assoc mult_le_mono2 trans_le_add1)
  ultimately show "2 * round_half_even p q * q \<le> 2 * p + q"
    by (auto simp: round_half_even_def Let_def)
qed

lemma nearest_floor:
  assumes p: "0 < p" "p < 2 ^ 53" and q: "0 < q"
  shows "up (snd (nearest p q)) (fst (nearest p q)) div 2 ^ nat (- snd (nearest p q)) = p div q"
proof -
  define s where "s = scale p q"
  have large: "2 ^ 52 * up (- s) q \<le> up s p" unfolding s_def by (rule scale_large [OF p(1) q])
  have near: "nearest p q = (round_half_even (up s p) (up (- s) q), - s)" using p(1) by (simp add: nearest_def s_def Let_def)
  show ?thesis
  proof (cases "0 \<le> s")
    case False
    then have 0: "nat s = 0" and pos: "0 < nat (- s)" by auto
    have "(2 :: nat) \<le> 2 ^ nat (- s)" using self_le_power [of "2 :: nat" "nat (- s)"] pos by simp
    then have "2 * q \<le> q * 2 ^ nat (- s)" by simp
    then have "2 ^ 52 * (2 * q) \<le> 2 ^ 52 * (q * 2 ^ nat (- s))" by (rule mult_le_mono2)
    also have "\<dots> \<le> p" using large 0 by (simp add: up_def)
    finally have "2 ^ 53 * q \<le> p" by simp
    then have False using p(2) q by simp
    then show ?thesis ..
  next
    case True
    define k where "k = nat s"
    define m where "m = round_half_even (p * 2 ^ k) q"
    have ups: "up s p = p * 2 ^ k" "up (- s) q = q" using True by (simp_all add: up_def k_def)
    have large': "2 ^ 52 * q \<le> p * 2 ^ k" using large ups by simp
    have low: "p div q * 2 ^ k \<le> m"
    proof -
      have "p div q * 2 ^ k * q = p div q * q * 2 ^ k" by (simp only: ac_simps)
      also have "\<dots> \<le> p * 2 ^ k" by simp
      finally show ?thesis unfolding m_def by (rule round_half_even_bounds(1) [OF q])
    qed
    have high: "m < (p div q + 1) * 2 ^ k"
    proof (rule ccontr)
      assume "\<not> ?thesis"
      then have "2 * ((p div q + 1) * 2 ^ k) * q \<le> 2 * m * q" by simp
      also have "\<dots> \<le> 2 * (p * 2 ^ k) + q" unfolding m_def by (rule round_half_even_bounds(2) [OF q])
      finally have 1: "2 * ((p div q + 1) * q) * 2 ^ k \<le> 2 * p * 2 ^ k + q" by (simp add: algebra_simps)
      have "p + 1 \<le> (p div q + 1) * q" using q by (metis Suc_eq_plus1 Suc_leI dividend_less_div_times add.commute mult_Suc)
      then have "2 * (p + 1) * 2 ^ k \<le> 2 * ((p div q + 1) * q) * 2 ^ k" by (intro mult_le_mono1 mult_le_mono2)
      with 1 have "2 * 2 ^ k \<le> q" by (simp add: algebra_simps)
      then have "2 ^ 52 * (2 * 2 ^ k) \<le> p * 2 ^ k" using large' by (meson le_trans mult_le_mono2)
      then have "2 ^ 53 * 2 ^ k \<le> p * 2 ^ k" by simp
      with p(2) show False by simp
    qed
    have "m div 2 ^ k = p div q"
      by (rule div_nat_eqI) (use low high in \<open>simp_all add: mult.commute\<close>)
    then show ?thesis by (simp add: near ups m_def [symmetric]) (simp add: up_def k_def True)
  qed
qed

text \<open>For numerators below \<open>2 ^ 53\<close> the result is the integer quotient, rounded towards zero.\<close>

definition quot :: "int \<Rightarrow> int \<Rightarrow> int" where
  "quot a b = (if (a < 0) \<noteq> (b < 0) then - (\<bar>a\<bar> div \<bar>b\<bar>) else \<bar>a\<bar> div \<bar>b\<bar>)"

lemma div_step_exact:
  assumes "\<bar>a\<bar> < 2 ^ 53" and "b \<noteq> 0"
  shows "\<exists>x. div_step (PyI a) b = Inr x \<and> py_trunc x = quot a b"
proof (cases "a = 0")
  case True
  then show ?thesis using assms(2)
    by (auto simp: div_step_def nearest_def too_large_def up_def py_trunc_def quot_def Let_def)
next
  case False
  let ?p = "nat \<bar>a\<bar>" and ?q = "nat \<bar>b\<bar>"
  have p: "0 < ?p" "?p < 2 ^ 53" and q: "0 < ?q" using False assms by (auto simp: nat_less_iff)
  note f = nearest_floor [OF p q]
  have "int (?p div ?q) = \<bar>a\<bar> div \<bar>b\<bar>" by (simp add: zdiv_int)
  moreover have "\<not> too_large (nearest ?p ?q)"
  proof -
    have "?p div ?q < 2 ^ 53" using p(2) by (rule le_less_trans [OF div_le_dividend])
    also have "\<dots> < 2 ^ 1024" by simp
    finally show ?thesis by (simp only: too_large_def f not_le)
  qed
  ultimately show ?thesis using f assms(2)
    by (auto simp: div_step_def py_trunc_def quot_def Let_def)
qed

end
