(* ===== verification/KFunctions.thy ===== *)
theory KFunctions
  imports TrueDiv Tokens
begin

text \<open>
  The preprocessor functions of \<^verbatim>\<open>src/scripts/kconfig/kconfigfunctions.py\<close>, which \<open>Kconfig._init\<close> imports and
  which Kconfig files call as \<^verbatim>\<open>$(name,...)\<close>: queries on the devicetree, and functions on strings and numbers.

  The devicetree is an object of the package \<open>edtlib\<close>, which is not part of the repository: the record \<open>edt\<close>
  has what the functions read of it. Without a devicetree (\<open>EDT_PICKLE\<close> unset or no file, or \<open>KCONFIG_DOC_MODE\<close>)
  it is \<open>None\<close>. A function gets its name in the Kconfig file and its arguments; those that fall off their
  end return \<open>None\<close> in Python, which \<open>_expand_macro\<close> cannot concatenate: a \<open>TypeError\<close>.
\<close>

section \<open>Results\<close>

type_synonym 'a result = "pyexc + 'a"

fun rbind :: "'a result \<Rightarrow> ('a \<Rightarrow> 'b result) \<Rightarrow> 'b result" where
  "rbind (Inl e) f = Inl e"
| "rbind (Inr x) f = f x"

definition or_exc :: "pyexc \<Rightarrow> 'a option \<Rightarrow> 'a result" where
  "or_exc e x = (case x of None \<Rightarrow> Inl e | Some y \<Rightarrow> Inr y)"

definition py_bool :: "bool \<Rightarrow> string" where
  "py_bool b = (if b then ''y'' else ''n'')"

text \<open>\<open>xs[i]\<close>, and the slice \<open>s[a:b]\<close>\<close>

definition list_at :: "'a list \<Rightarrow> int \<Rightarrow> 'a result" where
  "list_at xs i =
     (let j = (if i < 0 then int (length xs) + i else i)
      in if 0 \<le> j \<and> j < int (length xs) then Inr (xs ! nat j) else Inl IndexError)"

definition slice_pos :: "nat \<Rightarrow> int \<Rightarrow> nat" where
  "slice_pos l i = (if i < 0 then nat (int l + i) else min l (nat i))"

definition py_slice :: "string \<Rightarrow> int \<Rightarrow> int option \<Rightarrow> string" where
  "py_slice s a b =
     (let l = length s; e = (case b of None \<Rightarrow> l | Some b \<Rightarrow> slice_pos l b) in drop (slice_pos l a) (take e s))"

section \<open>The devicetree\<close>

text \<open>
  A property with its type, its value, and the text \<open>str()\<close> gives for the value. A value is an integer, a list of
  integers, a string, a truth value, a node, or for a phandle array the cells of its entries. Reading a
  value as another type than it has is a \<open>TypeError\<close>.
\<close>

datatype dtval = DInt int | DArray "int list" | DStr string | DBool bool | DNode "nat option"
  | DCells "(string \<Rightarrow> int option) option list" | DOther

record dtprop =
  dp_type :: string
  dp_val :: dtval
  dp_str :: string

text \<open>Nodes are numbers; \<open>dn_regs\<close> are pairs of address and size.\<close>

record dtnode =
  dn_name :: string
  dn_path :: string
  dn_status :: string
  dn_parent :: "nat option"
  dn_props :: "string \<Rightarrow> dtprop option"
  dn_regs :: "(int option \<times> int option) list"
  dn_compats :: "string list"
  dn_labels :: "string list"
  dn_on_buses :: "string list option"
  dn_gpio_hogs :: bool

text \<open>
  The attributes and methods of \<open>edtlib.EDT\<close> that are used. \<open>get_node\<close> is \<open>None\<close> when it raises \<open>EDTError\<close>;
  \<open>compat2okay\<close> is \<open>None\<close> when the key is missing.
\<close>

record edt =
  edt_node :: "nat \<Rightarrow> dtnode"
  edt_nodes :: "nat list"
  edt_chosen_node :: "string \<Rightarrow> nat option"
  edt_get_node :: "string \<Rightarrow> nat option"
  edt_label2node :: "string \<Rightarrow> nat option"
  edt_compat2nodes :: "string \<Rightarrow> bool"
  edt_compat2okay :: "string \<Rightarrow> nat list option"

text \<open>Which devicetree is loaded; \<open>unpickle\<close> reads a file.\<close>

definition load_edt :: "(string \<Rightarrow> string option) \<Rightarrow> (string \<Rightarrow> bool) \<Rightarrow> (string \<Rightarrow> edt) \<Rightarrow> edt option" where
  "load_edt environ isfile unpickle =
     (if environ ''KCONFIG_DOC_MODE'' = Some ''1'' then None
      else case environ ''EDT_PICKLE'' of None \<Rightarrow> None | Some f \<Rightarrow> if isfile f then Some (unpickle f) else None)"

text \<open>\<open>_dt_units_to_scale\<close>; \<open>None\<close> for an unknown unit\<close>

definition units_to_scale :: "string option \<Rightarrow> nat option" where
  "units_to_scale unit =
     (case unit of None \<Rightarrow> Some 0
      | Some u \<Rightarrow>
          if u = [] then Some 0
          else map_of [(''k'', 10), (''K'', 10), (''m'', 20), (''M'', 20), (''g'', 30), (''G'', 30), (''kb'', 13), (''Kb'', 13),
            (''mb'', 23), (''Mb'', 23), (''gb'', 33), (''Gb'', 33)] u)"

definition shifted :: "int \<Rightarrow> string option \<Rightarrow> int result" where
  "shifted v unit = rbind (or_exc TypeError (units_to_scale unit)) (\<lambda>k. Inr (v div 2 ^ k))"

text \<open>An optional index; \<open>int(index)\<close>\<close>

definition index_arg :: "string option \<Rightarrow> int result" where
  "index_arg index = (case index of None \<Rightarrow> Inr 0 | Some i \<Rightarrow> or_exc ValueError (py_int 10 i))"

text \<open>\<open>_node_reg_addr\<close> and \<open>_node_reg_size\<close>, with the part of the register\<close>

definition node_reg :: "(int option \<times> int option \<Rightarrow> int option) \<Rightarrow> dtnode option \<Rightarrow> string option \<Rightarrow> string option \<Rightarrow> int result" where
  "node_reg part node index unit =
     (case node of None \<Rightarrow> Inr 0
      | Some N \<Rightarrow>
          if dn_regs N = [] then Inr 0
          else rbind (index_arg index) (\<lambda>i.
            if i \<ge> int (length (dn_regs N)) then Inr 0
            else rbind (list_at (dn_regs N) i) (\<lambda>r. case part r of None \<Rightarrow> Inr 0 | Some v \<Rightarrow> shifted v unit)))"

text \<open>\<open>_node_int_prop\<close>, \<open>_node_array_prop\<close>, \<open>_node_ph_array_prop\<close>\<close>

definition int_val :: "dtval \<Rightarrow> int result" where
  "int_val v = (case v of DInt i \<Rightarrow> Inr i | _ \<Rightarrow> Inl TypeError)"

definition node_int_prop :: "dtnode \<Rightarrow> string \<Rightarrow> string option \<Rightarrow> int result" where
  "node_int_prop N prop unit =
     (case dn_props N prop of None \<Rightarrow> Inr 0
      | Some p \<Rightarrow> if dp_type p \<noteq> ''int'' then Inr 0 else rbind (int_val (dp_val p)) (\<lambda>v. shifted v unit))"

definition array_val :: "dtval \<Rightarrow> int list result" where
  "array_val v = (case v of DArray xs \<Rightarrow> Inr xs | _ \<Rightarrow> Inl TypeError)"

definition node_array_prop :: "dtnode \<Rightarrow> string \<Rightarrow> string \<Rightarrow> string option \<Rightarrow> int result" where
  "node_array_prop N prop index unit =
     (case dn_props N prop of None \<Rightarrow> Inr 0
      | Some p \<Rightarrow>
          if dp_type p \<noteq> ''array'' then Inr 0
          else rbind (index_arg (Some index)) (\<lambda>i. rbind (array_val (dp_val p)) (\<lambda>xs.
            if i \<ge> int (length xs) then Inr 0 else rbind (list_at xs i) (\<lambda>v. shifted v unit))))"

definition cells_val :: "dtval \<Rightarrow> (string \<Rightarrow> int option) option list result" where
  "cells_val v = (case v of DCells xs \<Rightarrow> Inr xs | _ \<Rightarrow> Inl TypeError)"

definition node_ph_array_prop :: "dtnode \<Rightarrow> string \<Rightarrow> string \<Rightarrow> string \<Rightarrow> string option \<Rightarrow> int result" where
  "node_ph_array_prop N prop index cell unit =
     (case dn_props N prop of None \<Rightarrow> Inr 0
      | Some p \<Rightarrow>
          if dp_type p \<noteq> ''phandle-array'' then Inr 0
          else rbind (index_arg (Some index)) (\<lambda>i. rbind (cells_val (dp_val p)) (\<lambda>xs.
            if i \<ge> int (length xs) then Inr 0
            else rbind (list_at xs i) (\<lambda>entry. rbind (or_exc AttributeError entry) (\<lambda>cells.
              case cells cell of None \<Rightarrow> Inr 0 | Some v \<Rightarrow> shifted v unit)))))"

section \<open>Queries\<close>

text \<open>The nodes a function finds: by a \<open>/chosen\<close> property, by path or alias, and by label.\<close>

definition chosen_of :: "edt \<Rightarrow> string \<Rightarrow> dtnode option" where
  "chosen_of D x = map_option (edt_node D) (edt_chosen_node D x)"

definition node_at :: "edt \<Rightarrow> string \<Rightarrow> dtnode option" where
  "node_at D x = map_option (edt_node D) (edt_get_node D x)"

definition labelled :: "edt \<Rightarrow> string \<Rightarrow> dtnode option" where
  "labelled D x = map_option (edt_node D) (edt_label2node D x)"

definition okay :: "dtnode option \<Rightarrow> string" where
  "okay N = py_bool (case N of None \<Rightarrow> False | Some n \<Rightarrow> dn_status n = ''okay'')"

definition has_compat :: "dtnode option \<Rightarrow> string \<Rightarrow> string" where
  "has_compat N cpt = py_bool (case N of None \<Rightarrow> False | Some n \<Rightarrow> cpt \<in> set (dn_compats n))"

text \<open>Every query starts with \<open>if doc_mode or edt is None\<close>.\<close>

definition with_edt :: "edt option \<Rightarrow> 'a \<Rightarrow> (edt \<Rightarrow> 'a result) \<Rightarrow> 'a result" where
  "with_edt dt x f = (case dt of None \<Rightarrow> Inr x | Some D \<Rightarrow> f D)"

definition dt_chosen_label :: "edt option \<Rightarrow> string \<Rightarrow> string \<Rightarrow> string result" where
  "dt_chosen_label dt name chosen = with_edt dt [] (\<lambda>D.
     case chosen_of D chosen of None \<Rightarrow> Inr []
     | Some N \<Rightarrow> (case dn_props N ''label'' of None \<Rightarrow> Inr (dn_name N)
        | Some p \<Rightarrow> (case dp_val p of DStr v \<Rightarrow> Inr v | _ \<Rightarrow> Inl TypeError)))"

definition dt_chosen_enabled :: "edt option \<Rightarrow> string \<Rightarrow> string \<Rightarrow> string result" where
  "dt_chosen_enabled dt name chosen = with_edt dt ''n'' (\<lambda>D. Inr (okay (chosen_of D chosen)))"

definition dt_chosen_path :: "edt option \<Rightarrow> string \<Rightarrow> string \<Rightarrow> string result" where
  "dt_chosen_path dt name chosen = with_edt dt ''n'' (\<lambda>D.
     Inr (case chosen_of D chosen of None \<Rightarrow> [] | Some N \<Rightarrow> dn_path N))"

definition dt_chosen_has_compat :: "edt option \<Rightarrow> string \<Rightarrow> string \<Rightarrow> string \<Rightarrow> string result" where
  "dt_chosen_has_compat dt name chosen cpt = with_edt dt ''n'' (\<lambda>D. Inr (has_compat (chosen_of D chosen) cpt))"

definition dt_node_enabled :: "edt option \<Rightarrow> string \<Rightarrow> string \<Rightarrow> string result" where
  "dt_node_enabled dt name node = with_edt dt ''n'' (\<lambda>D.
     if name = ''dt_alias_enabled'' then
       (if startswith node ''/'' then Inr ''n'' else Inr (okay (node_at D node)))
     else if name \<noteq> ''dt_path_enabled'' then Inl AssertionError
     else Inr (okay (node_at D node)))"

definition dt_nodelabel_exists :: "edt option \<Rightarrow> string \<Rightarrow> string \<Rightarrow> string result" where
  "dt_nodelabel_exists dt name label = with_edt dt ''n'' (\<lambda>D. Inr (py_bool (labelled D label \<noteq> None)))"

definition dt_nodelabel_enabled :: "edt option \<Rightarrow> string \<Rightarrow> string \<Rightarrow> string result" where
  "dt_nodelabel_enabled dt name label = with_edt dt ''n'' (\<lambda>D. Inr (okay (labelled D label)))"

text \<open>Registers. The last part of the name says which number is asked for and how it is printed.\<close>

definition in_base :: "string \<Rightarrow> string \<Rightarrow> string \<Rightarrow> int result \<Rightarrow> string result" where
  "in_base name dec hx v =
     (if name = dec then map_sum id py_str v else if name = hx then map_sum id py_hex v else Inl TypeError)"

definition dt_chosen_reg :: "edt option \<Rightarrow> string \<Rightarrow> string \<Rightarrow> string option \<Rightarrow> string option \<Rightarrow> string result" where
  "dt_chosen_reg dt name chosen index unit =
     (let reg = (\<lambda>part. with_edt dt 0 (\<lambda>D. node_reg part (chosen_of D chosen) index unit)) in
      if name = ''dt_chosen_reg_size_int'' \<or> name = ''dt_chosen_reg_size_hex''
      then in_base name ''dt_chosen_reg_size_int'' ''dt_chosen_reg_size_hex'' (reg snd)
      else in_base name ''dt_chosen_reg_addr_int'' ''dt_chosen_reg_addr_hex'' (reg fst))"

definition partition_addr :: "edt \<Rightarrow> string \<Rightarrow> string option \<Rightarrow> string option \<Rightarrow> int result" where
  "partition_addr D chosen index unit =
     (case chosen_of D chosen of None \<Rightarrow> Inr 0
      | Some N \<Rightarrow> (case dn_parent N of None \<Rightarrow> Inr 0
         | Some p \<Rightarrow>
             rbind (node_reg fst (map_option (edt_node D) (dn_parent (edt_node D p))) index unit) (\<lambda>a.
             rbind (node_reg fst (Some N) None unit) (\<lambda>b. Inr (a + b)))))"

definition dt_chosen_partition_addr :: "edt option \<Rightarrow> string \<Rightarrow> string \<Rightarrow> string option \<Rightarrow> string option \<Rightarrow> string result" where
  "dt_chosen_partition_addr dt name chosen index unit =
     in_base name ''dt_chosen_partition_addr_int'' ''dt_chosen_partition_addr_hex''
       (with_edt dt 0 (\<lambda>D. partition_addr D chosen index unit))"

definition path_reg :: "edt option \<Rightarrow> (int option \<times> int option \<Rightarrow> int option) \<Rightarrow> string \<Rightarrow> string option \<Rightarrow> string option \<Rightarrow> int result" where
  "path_reg dt part path index unit = with_edt dt 0 (\<lambda>D. node_reg part (node_at D path) index unit)"

definition dt_node_reg :: "edt option \<Rightarrow> string \<Rightarrow> string \<Rightarrow> string option \<Rightarrow> string option \<Rightarrow> string result" where
  "dt_node_reg dt name path index unit =
     (if name = ''dt_node_reg_size_int'' \<or> name = ''dt_node_reg_size_hex''
      then in_base name ''dt_node_reg_size_int'' ''dt_node_reg_size_hex'' (path_reg dt snd path index unit)
      else in_base name ''dt_node_reg_addr_int'' ''dt_node_reg_addr_hex'' (path_reg dt fst path index unit))"

definition dt_nodelabel_reg :: "edt option \<Rightarrow> string \<Rightarrow> string \<Rightarrow> string option \<Rightarrow> string option \<Rightarrow> string result" where
  "dt_nodelabel_reg dt name label index unit =
     (let node = (case dt of None \<Rightarrow> None | Some D \<Rightarrow> labelled D label);
          reg = (\<lambda>part. case node of None \<Rightarrow> Inr 0 | Some N \<Rightarrow> path_reg dt part (dn_path N) index unit)
      in if name = ''dt_nodelabel_reg_size_int'' \<or> name = ''dt_nodelabel_reg_size_hex''
         then in_base name ''dt_nodelabel_reg_size_int'' ''dt_nodelabel_reg_size_hex'' (reg snd)
         else in_base name ''dt_nodelabel_reg_addr_int'' ''dt_nodelabel_reg_addr_hex'' (reg fst))"

text \<open>Properties: \<open>_dt_node_bool_prop_generic\<close> and \<open>_dt_node_has_prop_generic\<close> on the node that was found\<close>

definition prop_truth :: "dtval \<Rightarrow> bool" where
  "prop_truth v = (case v of DBool b \<Rightarrow> b | DInt i \<Rightarrow> i \<noteq> 0 | DStr s \<Rightarrow> s \<noteq> [] | DArray xs \<Rightarrow> xs \<noteq> []
     | DNode n \<Rightarrow> n \<noteq> None | DCells xs \<Rightarrow> xs \<noteq> [] | DOther \<Rightarrow> True)"

definition bool_prop :: "dtnode option \<Rightarrow> string \<Rightarrow> string" where
  "bool_prop N prop = py_bool (case N of None \<Rightarrow> False
     | Some n \<Rightarrow> (case dn_props n prop of None \<Rightarrow> False | Some p \<Rightarrow> dp_type p = ''boolean'' \<and> prop_truth (dp_val p)))"

definition dt_node_bool_prop :: "edt option \<Rightarrow> string \<Rightarrow> string \<Rightarrow> string \<Rightarrow> string result" where
  "dt_node_bool_prop dt name path prop = with_edt dt ''n'' (\<lambda>D. Inr (bool_prop (node_at D path) prop))"

definition dt_nodelabel_bool_prop :: "edt option \<Rightarrow> string \<Rightarrow> string \<Rightarrow> string \<Rightarrow> string result" where
  "dt_nodelabel_bool_prop dt name label prop = with_edt dt ''n'' (\<lambda>D. Inr (bool_prop (labelled D label) prop))"

definition dt_chosen_bool_prop :: "edt option \<Rightarrow> string \<Rightarrow> string \<Rightarrow> string \<Rightarrow> string result" where
  "dt_chosen_bool_prop dt name chosen prop = with_edt dt ''n'' (\<lambda>D. Inr (bool_prop (chosen_of D chosen) prop))"

definition has_prop :: "dtnode option \<Rightarrow> string \<Rightarrow> string" where
  "has_prop N prop = py_bool (case N of None \<Rightarrow> False | Some n \<Rightarrow> dn_props n prop \<noteq> None)"

definition dt_node_has_prop :: "edt option \<Rightarrow> string \<Rightarrow> string \<Rightarrow> string \<Rightarrow> string result" where
  "dt_node_has_prop dt name path prop = with_edt dt ''n'' (\<lambda>D. Inr (has_prop (node_at D path) prop))"

definition dt_nodelabel_has_prop :: "edt option \<Rightarrow> string \<Rightarrow> string \<Rightarrow> string \<Rightarrow> string result" where
  "dt_nodelabel_has_prop dt name label prop = with_edt dt ''n'' (\<lambda>D. Inr (has_prop (labelled D label) prop))"

text \<open>\<open>node.props[prop]\<close> is read without a check that the property exists.\<close>

definition dt_nodelabel_int_prop :: "edt option \<Rightarrow> string \<Rightarrow> string \<Rightarrow> string \<Rightarrow> string result" where
  "dt_nodelabel_int_prop dt name label prop = with_edt dt ''0'' (\<lambda>D.
     case labelled D label of None \<Rightarrow> Inr ''0''
     | Some N \<Rightarrow> rbind (or_exc KeyError (dn_props N prop)) (\<lambda>p.
         if dp_type p \<noteq> ''int'' then Inr ''0''
         else if \<not> prop_truth (dp_val p) then Inr ''0'' else Inr (dp_str p)))"

text \<open>Numbers of a node that is found by its path; \<open>''0''\<close> when there is none, also for the names in \<open>hex\<close>.\<close>

definition with_node :: "edt option \<Rightarrow> string \<Rightarrow> string \<Rightarrow> (dtnode \<Rightarrow> string result) \<Rightarrow> string result" where
  "with_node dt x path f = with_edt dt x (\<lambda>D. case node_at D path of None \<Rightarrow> Inr x | Some N \<Rightarrow> f N)"

definition dt_node_int_prop :: "edt option \<Rightarrow> string \<Rightarrow> string \<Rightarrow> string \<Rightarrow> string option \<Rightarrow> string result" where
  "dt_node_int_prop dt name path prop unit = with_node dt ''0'' path (\<lambda>N.
     in_base name ''dt_node_int_prop_int'' ''dt_node_int_prop_hex'' (node_int_prop N prop unit))"

definition dt_node_array_prop :: "edt option \<Rightarrow> string \<Rightarrow> string \<Rightarrow> string \<Rightarrow> string \<Rightarrow> string option \<Rightarrow> string result" where
  "dt_node_array_prop dt name path prop index unit = with_node dt ''0'' path (\<lambda>N.
     in_base name ''dt_node_array_prop_int'' ''dt_node_array_prop_hex'' (node_array_prop N prop index unit))"

definition dt_node_ph_array_prop :: "edt option \<Rightarrow> string \<Rightarrow> string \<Rightarrow> string \<Rightarrow> string \<Rightarrow> string \<Rightarrow> string option \<Rightarrow> string result" where
  "dt_node_ph_array_prop dt name path prop index cell unit = with_node dt ''0'' path (\<lambda>N.
     in_base name ''dt_node_ph_array_prop_int'' ''dt_node_ph_array_prop_hex'' (node_ph_array_prop N prop index cell unit))"

definition dt_node_ph_prop_path :: "edt option \<Rightarrow> string \<Rightarrow> string \<Rightarrow> string \<Rightarrow> string result" where
  "dt_node_ph_prop_path dt name path prop = with_edt dt [] (\<lambda>D.
     case node_at D path of None \<Rightarrow> Inr []
     | Some N \<Rightarrow> (case dn_props N prop of None \<Rightarrow> Inr []
        | Some p \<Rightarrow>
            if dp_type p \<noteq> ''phandle'' then Inr []
            else (case dp_val p of DNode n \<Rightarrow> Inr (case n of None \<Rightarrow> [] | Some m \<Rightarrow> dn_path (edt_node D m))
              | _ \<Rightarrow> Inl AttributeError)))"

definition dt_node_str_prop_equals :: "edt option \<Rightarrow> string \<Rightarrow> string \<Rightarrow> string \<Rightarrow> string \<Rightarrow> string result" where
  "dt_node_str_prop_equals dt name path prop val = with_node dt ''n'' path (\<lambda>N.
     Inr (py_bool (case dn_props N prop of None \<Rightarrow> False
       | Some p \<Rightarrow> dp_type p = ''string'' \<and> dp_val p = DStr val)))"

text \<open>Queries by \<open>compatible\<close>\<close>

definition okay_nodes :: "edt \<Rightarrow> string \<Rightarrow> dtnode list" where
  "okay_nodes D cpt = (case edt_compat2okay D cpt of None \<Rightarrow> [] | Some ns \<Rightarrow> map (edt_node D) ns)"

definition dt_has_compat :: "edt option \<Rightarrow> string \<Rightarrow> string \<Rightarrow> string result" where
  "dt_has_compat dt name cpt = with_edt dt ''n'' (\<lambda>D. Inr (py_bool (edt_compat2nodes D cpt)))"

definition dt_compat_enabled :: "edt option \<Rightarrow> string \<Rightarrow> string \<Rightarrow> string result" where
  "dt_compat_enabled dt name cpt = with_edt dt ''n'' (\<lambda>D. Inr (py_bool (edt_compat2okay D cpt \<noteq> None)))"

definition dt_compat_enabled_num :: "edt option \<Rightarrow> string \<Rightarrow> string \<Rightarrow> string result" where
  "dt_compat_enabled_num dt name cpt = with_edt dt ''0'' (\<lambda>D.
     rbind (or_exc KeyError (edt_compat2okay D cpt)) (\<lambda>ns. Inr (py_str (int (length ns)))))"

definition dt_compat_on_bus :: "edt option \<Rightarrow> string \<Rightarrow> string \<Rightarrow> string \<Rightarrow> string result" where
  "dt_compat_on_bus dt name cpt bus = with_edt dt ''n'' (\<lambda>D.
     Inr (py_bool (list_ex (\<lambda>N. case dn_on_buses N of None \<Rightarrow> False | Some bs \<Rightarrow> bus \<in> set bs) (okay_nodes D cpt))))"

definition dt_compat_any_has_prop :: "edt option \<Rightarrow> string \<Rightarrow> string \<Rightarrow> string \<Rightarrow> string option \<Rightarrow> string result" where
  "dt_compat_any_has_prop dt name cpt prop value = with_edt dt ''n'' (\<lambda>D.
     Inr (py_bool (list_ex (\<lambda>N. case dn_props N prop of None \<Rightarrow> False
       | Some p \<Rightarrow> (case value of None \<Rightarrow> True | Some v \<Rightarrow> dp_str p = v)) (okay_nodes D cpt))))"

definition dt_compat_any_not_has_prop :: "edt option \<Rightarrow> string \<Rightarrow> string \<Rightarrow> string \<Rightarrow> string result" where
  "dt_compat_any_not_has_prop dt name cpt prop = with_edt dt ''n'' (\<lambda>D.
     Inr (py_bool (list_ex (\<lambda>N. dn_props N prop = None) (okay_nodes D cpt))))"

definition dt_nodelabel_has_compat :: "edt option \<Rightarrow> string \<Rightarrow> string \<Rightarrow> string \<Rightarrow> string result" where
  "dt_nodelabel_has_compat dt name label cpt = with_edt dt ''n'' (\<lambda>D. Inr (has_compat (labelled D label) cpt))"

definition dt_node_has_compat :: "edt option \<Rightarrow> string \<Rightarrow> string \<Rightarrow> string \<Rightarrow> string result" where
  "dt_node_has_compat dt name path cpt = with_edt dt ''n'' (\<lambda>D. Inr (has_compat (node_at D path) cpt))"

definition dt_nodelabel_enabled_with_compat :: "edt option \<Rightarrow> string \<Rightarrow> string \<Rightarrow> string \<Rightarrow> string result" where
  "dt_nodelabel_enabled_with_compat dt name label cpt = with_edt dt ''n'' (\<lambda>D.
     Inr (py_bool (list_ex (\<lambda>N. label \<in> set (dn_labels N)) (okay_nodes D cpt))))"

definition dt_nodelabel_array_prop_has_val :: "edt option \<Rightarrow> string \<Rightarrow> string \<Rightarrow> string \<Rightarrow> string \<Rightarrow> string result" where
  "dt_nodelabel_array_prop_has_val dt name label prop val = with_edt dt ''n'' (\<lambda>D.
     case labelled D label of None \<Rightarrow> Inr ''n''
     | Some N \<Rightarrow> (case dn_props N prop of None \<Rightarrow> Inr ''n''
        | Some p \<Rightarrow>
            if dp_type p \<noteq> ''array'' then Inr ''n''
            else rbind (or_exc ValueError (py_int 0 val)) (\<lambda>v. rbind (array_val (dp_val p)) (\<lambda>xs. Inr (py_bool (v \<in> set xs))))))"

definition dt_nodelabel_path :: "edt option \<Rightarrow> string \<Rightarrow> string \<Rightarrow> string result" where
  "dt_nodelabel_path dt name label = with_edt dt [] (\<lambda>D. Inr (case labelled D label of None \<Rightarrow> [] | Some N \<Rightarrow> dn_path N))"

definition dt_node_parent :: "edt option \<Rightarrow> string \<Rightarrow> string \<Rightarrow> string result" where
  "dt_node_parent dt name path = with_edt dt [] (\<lambda>D.
     Inr (case node_at D path of None \<Rightarrow> []
       | Some N \<Rightarrow> (case dn_parent N of None \<Rightarrow> [] | Some p \<Rightarrow> dn_path (edt_node D p))))"

definition dt_gpio_hogs_enabled :: "edt option \<Rightarrow> string \<Rightarrow> string result" where
  "dt_gpio_hogs_enabled dt name = with_edt dt ''n'' (\<lambda>D.
     Inr (py_bool (list_ex (\<lambda>x. dn_gpio_hogs (edt_node D x) \<and> dn_status (edt_node D x) = ''okay'') (edt_nodes D))))"

section \<open>Strings and numbers\<close>

text \<open>\<open>normalize_upper\<close>: what is left after the substitution is ASCII.\<close>

definition upper_char :: "char \<Rightarrow> char" where
  "upper_char c = (let n = (of_char c :: nat) in if 97 \<le> n \<and> n \<le> 122 then char_of (n - 32) else c)"

definition normalize_upper :: "string \<Rightarrow> string \<Rightarrow> string result" where
  "normalize_upper name s = Inr (map (\<lambda>c. if alnum_us c then upper_char c else CHR ''_'') s)"

fun split_on :: "char \<Rightarrow> string \<Rightarrow> string list" where
  "split_on d [] = [[]]"
| "split_on d (c # s) = (if c = d then [] # split_on d s else (c # hd (split_on d s)) # tl (split_on d s))"

definition shields_list_contains :: "(string \<Rightarrow> string option) \<Rightarrow> string \<Rightarrow> string \<Rightarrow> string result" where
  "shields_list_contains environ name shield =
     Inr (case environ ''SHIELD_AS_LIST'' of None \<Rightarrow> ''n'' | Some l \<Rightarrow> py_bool (shield \<in> set (split_on (CHR '';'') l)))"

definition substring :: "string \<Rightarrow> string \<Rightarrow> string \<Rightarrow> string option \<Rightarrow> string result" where
  "substring name s start stop =
     rbind (or_exc ValueError (py_int 10 start)) (\<lambda>a.
     case stop of None \<Rightarrow> Inr (py_slice s a None)
     | Some e \<Rightarrow> rbind (or_exc ValueError (py_int 10 e)) (\<lambda>b. Inr (py_slice s a (Some b))))"

text \<open>The generator of numbers: they are read from the pieces of the arguments when they are needed.\<close>

definition arg_pieces :: "string list \<Rightarrow> string list" where
  "arg_pieces args = concat (map (split_on (CHR '','')) args)"

definition read_num :: "string \<Rightarrow> int result" where
  "read_num s = or_exc ValueError (py_int 0 s)"

fun reduce_from :: "(pynum \<Rightarrow> int \<Rightarrow> pynum result) \<Rightarrow> pynum \<Rightarrow> string list \<Rightarrow> pynum result" where
  "reduce_from f acc [] = Inr acc"
| "reduce_from f acc (s # ss) = rbind (read_num s) (\<lambda>v. rbind (f acc v) (\<lambda>acc. reduce_from f acc ss))"

definition reduce :: "(pynum \<Rightarrow> int \<Rightarrow> pynum result) \<Rightarrow> string list \<Rightarrow> pynum result" where
  "reduce f ss = (case ss of [] \<Rightarrow> Inl TypeError | s # r \<Rightarrow> rbind (read_num s) (\<lambda>v. reduce_from f (PyI v) r))"

text \<open>An operator of integers; only \<open>truediv\<close> makes a number that is none.\<close>

definition on_ints :: "(int \<Rightarrow> int \<Rightarrow> int result) \<Rightarrow> pynum \<Rightarrow> int \<Rightarrow> pynum result" where
  "on_ints f x v = map_sum id PyI (f (py_trunc x) v)"

definition arith_op :: "string \<Rightarrow> (pynum \<Rightarrow> int \<Rightarrow> pynum result) option" where
  "arith_op name = map_of
     [(''add'', on_ints (\<lambda>a b. Inr (a + b))), (''sub'', on_ints (\<lambda>a b. Inr (a - b))), (''mul'', on_ints (\<lambda>a b. Inr (a * b))),
      (''div'', div_step), (''mod'', on_ints (\<lambda>a b. if b = 0 then Inl ZeroDivisionError else Inr (a mod b))),
      (''max'', on_ints (\<lambda>a b. Inr (max a b))), (''min'', on_ints (\<lambda>a b. Inr (min a b)))] name"

definition endswith :: "string \<Rightarrow> string \<Rightarrow> bool" where
  "endswith s p = (length p \<le> length s \<and> drop (length s - length p) s = p)"

definition base_name :: "string \<Rightarrow> string" where
  "base_name name = (if endswith name ''_hex'' then take (length name - 4) name else name)"

definition in_name_base :: "string \<Rightarrow> int \<Rightarrow> string" where
  "in_name_base name v = (if endswith name ''_hex'' then py_hex v else py_str v)"

definition arith_fn :: "string \<Rightarrow> string list \<Rightarrow> string result" where
  "arith_fn name args =
     (case arith_op (base_name name) of
        None \<Rightarrow> Inl AssertionError
      | Some f \<Rightarrow> rbind (reduce f (arg_pieces args)) (\<lambda>x. Inr (in_name_base name (py_trunc x))))"

fun rmap :: "('a \<Rightarrow> 'b result) \<Rightarrow> 'a list \<Rightarrow> 'b list result" where
  "rmap f [] = Inr []"
| "rmap f (x # xs) = rbind (f x) (\<lambda>y. rbind (rmap f xs) (\<lambda>ys. Inr (y # ys)))"

definition inc_dec :: "string \<Rightarrow> string list \<Rightarrow> string result" where
  "inc_dec name args =
     (if base_name name \<noteq> ''inc'' \<and> base_name name \<noteq> ''dec'' then Inl AssertionError
      else
        rbind (rmap (\<lambda>s. rbind (read_num s) (\<lambda>v.
            Inr (in_name_base name (if base_name name = ''inc'' then v + 1 else v - 1)))) (arg_pieces args))
          (\<lambda>xs. Inr (py_joins '','' xs)))"

section \<open>The table\<close>

text \<open>Calling a function with the arguments of the Kconfig file, its name first.\<close>

definition fn0 :: "(string \<Rightarrow> string result) \<Rightarrow> string list \<Rightarrow> string result" where
  "fn0 f args = (case args of [n] \<Rightarrow> f n | _ \<Rightarrow> Inl TypeError)"

definition fn1 :: "(string \<Rightarrow> string \<Rightarrow> string result) \<Rightarrow> string list \<Rightarrow> string result" where
  "fn1 f args = (case args of [n, a] \<Rightarrow> f n a | _ \<Rightarrow> Inl TypeError)"

definition fn2 :: "(string \<Rightarrow> string \<Rightarrow> string \<Rightarrow> string result) \<Rightarrow> string list \<Rightarrow> string result" where
  "fn2 f args = (case args of [n, a, b] \<Rightarrow> f n a b | _ \<Rightarrow> Inl TypeError)"

definition fn3 :: "(string \<Rightarrow> string \<Rightarrow> string \<Rightarrow> string \<Rightarrow> string result) \<Rightarrow> string list \<Rightarrow> string result" where
  "fn3 f args = (case args of [n, a, b, c] \<Rightarrow> f n a b c | _ \<Rightarrow> Inl TypeError)"

text \<open>The last arguments of these are optional.\<close>

definition fn1_3 :: "(string \<Rightarrow> string \<Rightarrow> string option \<Rightarrow> string option \<Rightarrow> string result) \<Rightarrow> string list \<Rightarrow> string result" where
  "fn1_3 f args = (case args of [n, a] \<Rightarrow> f n a None None | [n, a, b] \<Rightarrow> f n a (Some b) None
     | [n, a, b, c] \<Rightarrow> f n a (Some b) (Some c) | _ \<Rightarrow> Inl TypeError)"

definition fn2_3 :: "(string \<Rightarrow> string \<Rightarrow> string \<Rightarrow> string option \<Rightarrow> string result) \<Rightarrow> string list \<Rightarrow> string result" where
  "fn2_3 f args = (case args of [n, a, b] \<Rightarrow> f n a b None | [n, a, b, c] \<Rightarrow> f n a b (Some c) | _ \<Rightarrow> Inl TypeError)"

definition fn3_4 :: "(string \<Rightarrow> string \<Rightarrow> string \<Rightarrow> string \<Rightarrow> string option \<Rightarrow> string result) \<Rightarrow> string list \<Rightarrow> string result" where
  "fn3_4 f args = (case args of [n, a, b, c] \<Rightarrow> f n a b c None | [n, a, b, c, d] \<Rightarrow> f n a b c (Some d) | _ \<Rightarrow> Inl TypeError)"

definition fn4_5 :: "(string \<Rightarrow> string \<Rightarrow> string \<Rightarrow> string \<Rightarrow> string \<Rightarrow> string option \<Rightarrow> string result) \<Rightarrow> string list \<Rightarrow> string result" where
  "fn4_5 f args = (case args of [n, a, b, c, d] \<Rightarrow> f n a b c d None | [n, a, b, c, d, e] \<Rightarrow> f n a b c d (Some e)
     | _ \<Rightarrow> Inl TypeError)"

definition fn_any :: "(string \<Rightarrow> string list \<Rightarrow> string result) \<Rightarrow> string list \<Rightarrow> string result" where
  "fn_any f args = (case args of [] \<Rightarrow> Inl TypeError | n # as \<Rightarrow> f n as)"


text \<open>\<open>functions\<close>, with the numbers of arguments\<close>

definition kconfig_functions :: "edt option \<Rightarrow> (string \<Rightarrow> string option) \<Rightarrow> (string \<times> (string list \<Rightarrow> string result) \<times> nat \<times> nat) list" where
  "kconfig_functions dt environ =
     [
      (''dt_has_compat'', (fn1 (dt_has_compat dt), 1, 1)),
      (''dt_compat_enabled'', (fn1 (dt_compat_enabled dt), 1, 1)),
      (''dt_compat_enabled_num'', (fn1 (dt_compat_enabled_num dt), 1, 1)),
      (''dt_compat_on_bus'', (fn2 (dt_compat_on_bus dt), 2, 2)),
      (''dt_compat_any_has_prop'', (fn2_3 (dt_compat_any_has_prop dt), 2, 3)),
      (''dt_compat_any_not_has_prop'', (fn2 (dt_compat_any_not_has_prop dt), 2, 2)),
      (''dt_chosen_label'', (fn1 (dt_chosen_label dt), 1, 1)),
      (''dt_chosen_enabled'', (fn1 (dt_chosen_enabled dt), 1, 1)),
      (''dt_chosen_path'', (fn1 (dt_chosen_path dt), 1, 1)),
      (''dt_chosen_has_compat'', (fn2 (dt_chosen_has_compat dt), 2, 2)),
      (''dt_path_enabled'', (fn1 (dt_node_enabled dt), 1, 1)),
      (''dt_alias_enabled'', (fn1 (dt_node_enabled dt), 1, 1)),
      (''dt_nodelabel_exists'', (fn1 (dt_nodelabel_exists dt), 1, 1)),
      (''dt_nodelabel_enabled'', (fn1 (dt_nodelabel_enabled dt), 1, 1)),
      (''dt_nodelabel_enabled_with_compat'', (fn2 (dt_nodelabel_enabled_with_compat dt), 2, 2)),
      (''dt_chosen_reg_addr_int'', (fn1_3 (dt_chosen_reg dt), 1, 3)),
      (''dt_chosen_reg_addr_hex'', (fn1_3 (dt_chosen_reg dt), 1, 3)),
      (''dt_chosen_reg_size_int'', (fn1_3 (dt_chosen_reg dt), 1, 3)),
      (''dt_chosen_reg_size_hex'', (fn1_3 (dt_chosen_reg dt), 1, 3)),
      (''dt_node_reg_addr_int'', (fn1_3 (dt_node_reg dt), 1, 3)),
      (''dt_node_reg_addr_hex'', (fn1_3 (dt_node_reg dt), 1, 3)),
      (''dt_node_reg_size_int'', (fn1_3 (dt_node_reg dt), 1, 3)),
      (''dt_node_reg_size_hex'', (fn1_3 (dt_node_reg dt), 1, 3)),
      (''dt_nodelabel_reg_addr_int'', (fn1_3 (dt_nodelabel_reg dt), 1, 3)),
      (''dt_nodelabel_reg_addr_hex'', (fn1_3 (dt_nodelabel_reg dt), 1, 3)),
      (''dt_nodelabel_reg_size_int'', (fn1_3 (dt_nodelabel_reg dt), 1, 3)),
      (''dt_nodelabel_reg_size_hex'', (fn1_3 (dt_nodelabel_reg dt), 1, 3)),
      (''dt_node_bool_prop'', (fn2 (dt_node_bool_prop dt), 2, 2)),
      (''dt_nodelabel_bool_prop'', (fn2 (dt_nodelabel_bool_prop dt), 2, 2)),
      (''dt_nodelabel_int_prop'', (fn2 (dt_nodelabel_int_prop dt), 2, 2)),
      (''dt_chosen_bool_prop'', (fn2 (dt_chosen_bool_prop dt), 2, 2)),
      (''dt_node_has_prop'', (fn2 (dt_node_has_prop dt), 2, 2)),
      (''dt_nodelabel_has_prop'', (fn2 (dt_nodelabel_has_prop dt), 2, 2)),
      (''dt_node_int_prop_int'', (fn2_3 (dt_node_int_prop dt), 2, 3)),
      (''dt_node_int_prop_hex'', (fn2_3 (dt_node_int_prop dt), 2, 3)),
      (''dt_node_array_prop_int'', (fn3_4 (dt_node_array_prop dt), 3, 4)),
      (''dt_node_array_prop_hex'', (fn3_4 (dt_node_array_prop dt), 3, 4)),
      (''dt_node_ph_array_prop_int'', (fn4_5 (dt_node_ph_array_prop dt), 4, 5)),
      (''dt_node_ph_array_prop_hex'', (fn4_5 (dt_node_ph_array_prop dt), 4, 5)),
      (''dt_node_ph_prop_path'', (fn2 (dt_node_ph_prop_path dt), 2, 2)),
      (''dt_node_str_prop_equals'', (fn3 (dt_node_str_prop_equals dt), 3, 3)),
      (''dt_nodelabel_has_compat'', (fn2 (dt_nodelabel_has_compat dt), 2, 2)),
      (''dt_node_has_compat'', (fn2 (dt_node_has_compat dt), 2, 2)),
      (''dt_nodelabel_path'', (fn1 (dt_nodelabel_path dt), 1, 1)),
      (''dt_node_parent'', (fn1 (dt_node_parent dt), 1, 1)),
      (''dt_nodelabel_array_prop_has_val'', (fn3 (dt_nodelabel_array_prop_has_val dt), 3, 3)),
      (''dt_gpio_hogs_enabled'', (fn0 (dt_gpio_hogs_enabled dt), 0, 0)),
      (''dt_chosen_partition_addr_int'', (fn1_3 (dt_chosen_partition_addr dt), 1, 3)),
      (''dt_chosen_partition_addr_hex'', (fn1_3 (dt_chosen_partition_addr dt), 1, 3)),
      (''normalize_upper'', (fn1 normalize_upper, 1, 1)),
      (''shields_list_contains'', (fn1 (shields_list_contains environ), 1, 1)),
      (''substring'', (fn2_3 substring, 2, 3)),
      (''add'', (fn_any arith_fn, 1, 255)),
      (''add_hex'', (fn_any arith_fn, 1, 255)),
      (''sub'', (fn_any arith_fn, 1, 255)),
      (''sub_hex'', (fn_any arith_fn, 1, 255)),
      (''mul'', (fn_any arith_fn, 1, 255)),
      (''mul_hex'', (fn_any arith_fn, 1, 255)),
      (''div'', (fn_any arith_fn, 1, 255)),
      (''div_hex'', (fn_any arith_fn, 1, 255)),
      (''mod'', (fn_any arith_fn, 1, 255)),
      (''mod_hex'', (fn_any arith_fn, 1, 255)),
      (''max'', (fn_any arith_fn, 1, 255)),
      (''max_hex'', (fn_any arith_fn, 1, 255)),
      (''min'', (fn_any arith_fn, 1, 255)),
      (''min_hex'', (fn_any arith_fn, 1, 255)),
      (''inc'', (fn_any inc_dec, 1, 255)),
      (''inc_hex'', (fn_any inc_dec, 1, 255)),
      (''dec'', (fn_any inc_dec, 1, 255)),
      (''dec_hex'', (fn_any inc_dec, 1, 255))]"

text \<open>What \<open>Kconfig._functions.update\<close> takes over.\<close>

definition user_functions :: "edt option \<Rightarrow> (string \<Rightarrow> string option) \<Rightarrow> string \<Rightarrow> ((string list \<Rightarrow> string result) \<times> nat \<times> nat option) option" where
  "user_functions dt environ name =
     map_option (\<lambda>(f, lo, hi). (f, lo, Some hi)) (map_of (kconfig_functions dt environ) name)"

section \<open>Laws\<close>

lemma split_on_single: "d \<notin> set s \<Longrightarrow> split_on d s = [s]"
  by (induction s) auto

lemma arith_two:
  assumes "CHR '','' \<notin> set s" "CHR '','' \<notin> set t" and "py_int 0 s = Some a" "py_int 0 t = Some b"
    and "arith_op (base_name name) = Some f"
  shows "arith_fn name [s, t] = rbind (f (PyI a) b) (\<lambda>x. Inr (in_name_base name (py_trunc x)))"
proof -
  have "reduce f (arg_pieces [s, t]) = rbind (f (PyI a) b) Inr"
    using assms(1-4) by (simp add: arg_pieces_def split_on_single reduce_def read_num_def or_exc_def)
  then show ?thesis using assms(5) by (cases "f (PyI a) b") (simp_all add: arith_fn_def)
qed

lemma arith_div:
  assumes "CHR '','' \<notin> set s" "CHR '','' \<notin> set t" and "py_int 0 s = Some a" "py_int 0 t = Some b"
    and "\<bar>a\<bar> < 2 ^ 53" and "b \<noteq> 0"
  shows "arith_fn ''div'' [s, t] = Inr (py_str (quot a b))"
proof -
  have op: "arith_op (base_name ''div'') = Some div_step" by (simp add: arith_op_def base_name_def endswith_def)
  obtain x where "div_step (PyI a) b = Inr x" "py_trunc x = quot a b" using div_step_exact [OF assms(5,6)] by blast
  then show ?thesis
    using arith_two [OF assms(1-4) op] by (simp add: in_name_base_def endswith_def)
qed

text \<open>Beyond, the quotient is rounded.\<close>

lemma arith_div_rounds: "arith_fn ''div'' [''9007199254740993'', ''1''] = Inr ''9007199254740992''"
proof -
  have a: "py_int 0 ''9007199254740993'' = Some 9007199254740993"
    by (simp add: py_int_def strip_by_def int_isspace_def py_uint_def scan_body_def digit_val_def)
  have b: "py_int 0 ''1'' = Some 1"
    by (simp add: py_int_def strip_by_def int_isspace_def py_uint_def scan_body_def digit_val_def)
  have op: "arith_op (base_name ''div'') = Some div_step" by (simp add: arith_op_def base_name_def endswith_def)
  have "scale 9007199254740993 1 = - 1"
    by (simp add: scale_def up_def bit_count.simps Let_def)
  then have "nearest 9007199254740993 1 = (4503599627370496, 1)"
    by (simp add: nearest_def up_def round_half_even_def Let_def)
  then have "div_step (PyI 9007199254740993) 1 = Inr (PyF False 4503599627370496 1)"
    by (simp add: div_step_def too_large_def up_def Let_def)
  then show ?thesis
    using arith_two [OF _ _ a b op]
    by (simp add: py_trunc_def up_def in_name_base_def endswith_def py_str_def num_str_def digits_of.simps digit_char_def char_of_def bit_0)
qed

text \<open>Without a devicetree the queries return their defaults.\<close>

lemma in_base_total: "name \<in> {dec, hx} \<Longrightarrow> in_base name dec hx (Inr v) = Inr (if name = dec then py_str v else py_hex v)"
  by (auto simp: in_base_def)

lemmas fn_arity_defs = fn0_def fn1_def fn2_def fn3_def fn1_3_def fn2_3_def fn3_4_def fn4_5_def fn_any_def

lemmas dt_query_defs = dt_chosen_label_def dt_chosen_enabled_def dt_chosen_path_def dt_chosen_has_compat_def dt_node_enabled_def
  dt_nodelabel_exists_def dt_nodelabel_enabled_def dt_chosen_reg_def dt_chosen_partition_addr_def dt_node_reg_def
  dt_nodelabel_reg_def dt_node_bool_prop_def dt_nodelabel_bool_prop_def dt_chosen_bool_prop_def dt_node_has_prop_def
  dt_nodelabel_has_prop_def dt_nodelabel_int_prop_def dt_node_int_prop_def dt_node_array_prop_def dt_node_ph_array_prop_def
  dt_node_ph_prop_path_def dt_node_str_prop_equals_def dt_has_compat_def dt_compat_enabled_def dt_compat_enabled_num_def
  dt_compat_on_bus_def dt_compat_any_has_prop_def dt_compat_any_not_has_prop_def dt_nodelabel_has_compat_def
  dt_node_has_compat_def dt_nodelabel_enabled_with_compat_def dt_nodelabel_array_prop_has_val_def dt_nodelabel_path_def
  dt_node_parent_def dt_gpio_hogs_enabled_def

lemma zero_texts [simp]: "py_str 0 = ''0''" "py_hex 0 = ''0x0''"
  by (simp_all add: py_str_def py_hex_def num_str_def digits_of.simps digit_char_def char_of_def bit_0)

text \<open>The lengths of argument lists that the table asks for.\<close>

lemma few_args:
  obtains "args = []" | a where "args = [a]" | a b where "args = [a, b]" | a b c where "args = [a, b, c]"
  | a b c d where "args = [a, b, c, d]" | a b c d e where "args = [a, b, c, d, e]" | "5 < length (args :: string list)"
proof -
  consider "length args \<le> 5" | "5 < length args" by linarith
  then show thesis
  proof cases
    case 1
    then show thesis
      by (cases args rule: list.exhaust; cases "tl args"; cases "tl (tl args)"; cases "tl (tl (tl args))"; cases "tl (tl (tl (tl args)))")
        (use that in auto)
  qed (rule that(7))
qed

lemma without_devicetree:
  assumes "(name, f, lo, hi) \<in> set (kconfig_functions None environ)" and "startswith name ''dt_''"
    and "lo \<le> length args" "length args \<le> hi"
  shows "\<exists>v. f (name # args) = Inr v \<and> v \<in> {''n'', [], ''0'', ''0x0''}"
  by (rule few_args [of args]; insert assms;
    auto simp: kconfig_functions_def fn_arity_defs dt_query_defs with_edt_def with_node_def path_reg_def in_base_def startswith_def)

text \<open>The examples of the documentation of \<open>arith\<close>; an error for \<open>0 div 0\<close>.\<close>

lemma arith_examples:
  "arith_fn ''add'' [''10'', ''3''] = Inr ''13''" "arith_fn ''sub'' [''10'', ''3'', ''2''] = Inr ''5''"
  "arith_fn ''mul'' [''10'', ''3'', ''2''] = Inr ''60''" "arith_fn ''mod'' [''10'', ''3'', ''2''] = Inr ''1''"
  "inc_dec ''inc'' [''1'', ''1''] = Inr ''2,2''" "inc_dec ''dec'' [''0,0''] = Inr ''-1,-1''"
  "arith_fn ''add'' [''2,2''] = Inr ''4''" "arith_fn ''div'' [''0,0''] = Inl ZeroDivisionError"
  by (simp_all add: arith_fn_def inc_dec_def arith_op_def base_name_def endswith_def arg_pieces_def reduce_def read_num_def
    or_exc_def py_int_def strip_by_def int_isspace_def py_uint_def scan_body_def digit_val_def on_ints_def in_name_base_def
    py_trunc_def div_step_def py_str_def num_str_def digits_of.simps digit_char_def char_of_def bit_0)

text \<open>All functions of the table return or raise.\<close>

definition settles :: "'a result \<Rightarrow> bool" where
  "settles r = (r \<noteq> Inl NoReturn)"

named_theorems settles_rules \<open>computations that return or raise\<close>

lemma settles_basic [settles_rules]:
  "settles (Inr x)" "e \<noteq> NoReturn \<Longrightarrow> settles (Inl e)" "settles r \<Longrightarrow> (\<And>x. settles (f x)) \<Longrightarrow> settles (rbind r f)"
  "e \<noteq> NoReturn \<Longrightarrow> settles (or_exc e v)" "settles (list_at xs i)" "settles r \<Longrightarrow> settles (map_sum id g r)"
  by (cases r; auto simp: settles_def or_exc_def list_at_def Let_def split: option.splits)+

lemma settles_option [settles_rules]:
  "settles a \<Longrightarrow> (\<And>y. settles (h y)) \<Longrightarrow> settles (case v of None \<Rightarrow> a | Some y \<Rightarrow> h y)"
  "settles a \<Longrightarrow> settles b \<Longrightarrow> settles (if c then a else b)"
  by (auto split: option.split)

lemma settles_values [settles_rules]:
  "settles (int_val v)" "settles (array_val v)" "settles (cells_val v)" "settles (index_arg i)" "settles (shifted w u)"
  "settles (read_num s)"
  by (auto simp: int_val_def array_val_def cells_val_def index_arg_def shifted_def read_num_def settles_def or_exc_def
    split: dtval.split option.split)

lemma settles_parts [settles_rules]:
  "(\<And>D. settles (f D)) \<Longrightarrow> settles (with_edt dt x f)" "(\<And>N. settles (g N)) \<Longrightarrow> settles (with_node dt y p g)"
  "settles v \<Longrightarrow> settles (in_base name dec hx v)" "settles (node_reg part node1 index unit)"
  "settles (node_int_prop N prop unit)" "settles (node_array_prop N prop idx unit)" "settles (node_ph_array_prop N prop idx cell unit)"
  unfolding with_edt_def with_node_def in_base_def node_reg_def node_int_prop_def node_array_prop_def node_ph_array_prop_def
  by (intro settles_rules; simp)+

lemma settles_queries [settles_rules]:
  "settles (path_reg dt part p index unit)" "settles (partition_addr D c index unit)"
  unfolding path_reg_def partition_addr_def by (intro settles_rules; simp)+

lemma settles_case_val [settles_rules]:
  "(\<And>s. settles (f s)) \<Longrightarrow> settles a \<Longrightarrow> settles (case v of DStr s \<Rightarrow> f s | _ \<Rightarrow> a)"
  "(\<And>n. settles (g n)) \<Longrightarrow> settles a \<Longrightarrow> settles (case v of DNode n \<Rightarrow> g n | _ \<Rightarrow> a)"
  by (auto split: dtval.split)

lemma settles_reduce_from: "(\<And>x v. settles (f x v)) \<Longrightarrow> settles (reduce_from f acc ss)"
  by (induction ss arbitrary: acc) (auto intro!: settles_rules)

lemma settles_rmap [settles_rules]: "(\<And>x. settles (f x)) \<Longrightarrow> settles (rmap f xs)"
  by (induction xs) (auto intro!: settles_rules)

lemma settles_op: "arith_op name = Some f \<Longrightarrow> settles (f x v)"
  by (auto simp: arith_op_def on_ints_def div_step_def settles_def Let_def split: if_splits pynum.split)

lemma settles_numbers [settles_rules]: "settles (arith_fn name args)" "settles (inc_dec name args)"
  unfolding arith_fn_def inc_dec_def reduce_def
  by (auto intro!: settles_rules settles_reduce_from dest: settles_op split: option.split list.split)

lemma settles_strings [settles_rules]:
  "settles (normalize_upper name s)" "settles (shields_list_contains environ name s)" "settles (substring name s a b)"
  unfolding normalize_upper_def shields_list_contains_def substring_def by (intro settles_rules; simp)+

lemma settles_args [settles_rules]:
  "(\<And>n. settles (f0 n)) \<Longrightarrow> settles (fn0 f0 args)" "(\<And>n a. settles (f1 n a)) \<Longrightarrow> settles (fn1 f1 args)"
  "(\<And>n a b. settles (f2 n a b)) \<Longrightarrow> settles (fn2 f2 args)" "(\<And>n a b c. settles (f3 n a b c)) \<Longrightarrow> settles (fn3 f3 args)"
  "(\<And>n a b c. settles (g1 n a b c)) \<Longrightarrow> settles (fn1_3 g1 args)" "(\<And>n a b c. settles (g2 n a b c)) \<Longrightarrow> settles (fn2_3 g2 args)"
  "(\<And>n a b c d. settles (g3 n a b c d)) \<Longrightarrow> settles (fn3_4 g3 args)"
  "(\<And>n a b c d e. settles (g4 n a b c d e)) \<Longrightarrow> settles (fn4_5 g4 args)" "(\<And>n as. settles (h n as)) \<Longrightarrow> settles (fn_any h args)"
  by (auto simp: fn_arity_defs settles_def split: list.split)

lemma settles_dt [settles_rules]:
  "settles (dt_chosen_label dt s0 s1)" "settles (dt_chosen_enabled dt s0 s1)" "settles (dt_chosen_path dt s0 s1)"
  "settles (dt_chosen_has_compat dt s0 s1 s2)" "settles (dt_node_enabled dt s0 s1)" "settles (dt_nodelabel_exists dt s0 s1)"
  "settles (dt_nodelabel_enabled dt s0 s1)" "settles (dt_chosen_reg dt s0 s1 o2 o3)" "settles (dt_chosen_partition_addr dt s0 s1 o2 o3)"
  "settles (dt_node_reg dt s0 s1 o2 o3)" "settles (dt_nodelabel_reg dt s0 s1 o2 o3)" "settles (dt_node_bool_prop dt s0 s1 s2)"
  "settles (dt_nodelabel_bool_prop dt s0 s1 s2)" "settles (dt_chosen_bool_prop dt s0 s1 s2)" "settles (dt_node_has_prop dt s0 s1 s2)"
  "settles (dt_nodelabel_has_prop dt s0 s1 s2)" "settles (dt_nodelabel_int_prop dt s0 s1 s2)" "settles (dt_node_int_prop dt s0 s1 s2 o3)"
  "settles (dt_node_array_prop dt s0 s1 s2 s3 o4)" "settles (dt_node_ph_array_prop dt s0 s1 s2 s3 s4 o5)" "settles (dt_node_ph_prop_path dt s0 s1 s2)"
  "settles (dt_node_str_prop_equals dt s0 s1 s2 s3)" "settles (dt_has_compat dt s0 s1)" "settles (dt_compat_enabled dt s0 s1)"
  "settles (dt_compat_enabled_num dt s0 s1)" "settles (dt_compat_on_bus dt s0 s1 s2)" "settles (dt_compat_any_has_prop dt s0 s1 s2 o3)"
  "settles (dt_compat_any_not_has_prop dt s0 s1 s2)" "settles (dt_nodelabel_has_compat dt s0 s1 s2)" "settles (dt_node_has_compat dt s0 s1 s2)"
  "settles (dt_nodelabel_enabled_with_compat dt s0 s1 s2)" "settles (dt_nodelabel_array_prop_has_val dt s0 s1 s2 s3)" "settles (dt_nodelabel_path dt s0 s1)"
  "settles (dt_node_parent dt s0 s1)" "settles (dt_gpio_hogs_enabled dt s0)"
  unfolding dt_query_defs Let_def by (intro settles_rules; simp)+

lemma settles_table: "(name, f, lo, hi) \<in> set (kconfig_functions dt environ) \<Longrightarrow> settles (f args)"
  by (auto simp: kconfig_functions_def intro!: settles_rules)

lemma user_functions_settle: "user_functions dt environ name = Some (f, lo, hi) \<Longrightarrow> f args \<noteq> Inl NoReturn"
  using settles_table [of name f lo _ dt environ args] by (auto simp: user_functions_def settles_def dest!: map_of_SomeD)

end
