(* ===== verification/FrontEnd.thy ===== *)
theory FrontEnd
  imports Init Files MenuView
begin

text \<open>
  The scripts around \<^verbatim>\<open>kconfiglib.py\<close>: \<^verbatim>\<open>src/scripts/kconfig/kconfig.py\<close>, which merges configuration files, checks the
  result and writes it, \<^verbatim>\<open>hardenconfig.py\<close>, which compares a configuration with recommended values, and \<^verbatim>\<open>lint.py\<close>,
  which looks for questionable definitions. What \<open>argparse\<close> makes of the command line, the rows of a CSV file and
  the output of \<open>west\<close> and \<open>git grep\<close> are arguments of the definitions.
\<close>

section \<open>State\<close>

text \<open>
  What the scripts print, in order: lines on the standard output, and warnings of the scripts and of
  \<open>Kconfig\<close> on the standard error. Texts are kept as they are before \<open>textwrap.fill\<close> breaks them into lines.
\<close>

datatype fmsg = FOut string | FWarn string | FKconfig warning

record fstate =
  fe_world :: world
  fe_log :: "fmsg list"

type_synonym 'a fe = "(fstate, 'a) eff"

definition say :: "fmsg \<Rightarrow> unit fe" where
  "say m = modify (\<lambda>s. s\<lparr>fe_log := fe_log s @ [m]\<rparr>)"

definition in_files :: "'a io \<Rightarrow> 'a fe" where
  "in_files m = (\<lambda>s. case m (fe_world s) of Inl e \<Rightarrow> Inl e | Inr (x, w) \<Rightarrow> Inr (x, s\<lparr>fe_world := w\<rparr>))"

definition in_kconf :: "'a ev \<Rightarrow> 'a fe" where
  "in_kconf m = in_files (lift m)"

section \<open>\<^verbatim>\<open>kconfig.py\<close>\<close>

record fargs =
  fa_cmd :: string
  fa_zephyr_base :: string
  fa_kconfig_file :: string
  fa_config_out :: string
  fa_header_out :: string
  fa_kconfig_list_out :: string
  fa_configs_in :: "string list"
  fa_handwritten :: bool
  fa_forced :: bool

text \<open>
  \<open>Kconfig(..., suppress_traceback=True)\<close>: errors end the script, after the name of the command. The message of an
  \<open>OSError\<close> is its path here.
\<close>

definition exit_text :: "string \<Rightarrow> string \<Rightarrow> string" where
  "exit_text cmd t = (if cmd = [] then [] else cmd @ '': '') @ py_strip t"

definition suppressed :: "string \<Rightarrow> pyexc \<Rightarrow> pyexc" where
  "suppressed cmd e =
     (case e of KconfigError t \<Rightarrow> SystemExit (exit_text cmd t) | OSError t \<Rightarrow> SystemExit (exit_text cmd t) | _ \<Rightarrow> e)"

definition new_kconfig :: "penv \<Rightarrow> nat \<Rightarrow> string \<Rightarrow> string \<Rightarrow> pstate fe" where
  "new_kconfig E n cmd f = (\<lambda>s.
     case kconfig_init E n f (init_pstate E f True) of
       Inl e \<Rightarrow> Inl (suppressed cmd e)
     | Inr (_, p) \<Rightarrow>
         Inr (p, s\<lparr>fe_world := (fe_world s)\<lparr>w_dyn := p_dyn p, w_env := e_environ E, w_srctree := e_srctree E\<rparr>\<rparr>))"

text \<open>\<open>warn\<close> and \<open>err\<close>\<close>

definition script_warn :: "string \<Rightarrow> unit fe" where
  "script_warn msg = say (FWarn (''warning: '' @ msg))"

definition script_err :: "string \<Rightarrow> 'a fe" where
  "script_err msg = raise (SystemExit (''error: '' @ msg))"

definition SYM_INFO_HINT :: "string \<Rightarrow> string" where
  "SYM_INFO_HINT name =
     ''See http://docs.zephyrproject.org/latest/kconfig.html#CONFIG_'' @ name @ '' and/or'' @ [NL] @
     ''look up '' @ name @ '' in the menuconfig/guiconfig interface. The Application'' @ [NL] @
     ''Development Primer, Setting Configuration Values, and Kconfig - Tips and Best'' @ [NL] @
     ''Practices sections of the manual might be helpful too.''"

text \<open>\<open>promptless\<close>, \<open>check_no_promptless_assign\<close>\<close>

definition promptless :: "kconfig \<Rightarrow> symref \<Rightarrow> bool" where
  "promptless K s = (\<not> list_ex (\<lambda>x. n_prompt (k_node K x) \<noteq> None) (s_nodes (k_sym K s)))"

definition check_no_promptless_assign :: "kconfig \<Rightarrow> unit fe" where
  "check_no_promptless_assign K =
     foldm (\<lambda>s _. bind (in_kconf (gets (\<lambda>d. user_value d s))) (\<lambda>uv.
         if uv \<noteq> None \<and> promptless K s then
           script_err (sym_name_and_loc K s @ '' is assigned in a configuration file, but is not directly'' @ [NL] @
             ''user-configurable (has no prompt). It gets its value indirectly from other'' @ [NL] @
             ''symbols. '' @ SYM_INFO_HINT (sym_name s))
         else ret ()))
       (k_unique_defined_syms K) ()"

text \<open>\<open>missing_deps\<close>\<close>

definition lacking :: "kconfig \<Rightarrow> acc \<Rightarrow> (nat \<Rightarrow> bool) \<Rightarrow> expr list \<Rightarrow> expr list ev" where
  "lacking K A P deps = foldm (\<lambda>dep out. bind (expr_value K A dep) (\<lambda>v. ret (if P v then out @ [dep] else out))) deps []"

definition missing_deps :: "kconfig \<Rightarrow> acc \<Rightarrow> symref \<Rightarrow> expr list ev" where
  "missing_deps K A s =
     (let deps = split_expr (s_direct_dep (k_sym K s)) OpAND in
      bind (sym_type K A s) (\<lambda>t.
      if bool_tristate t then
        bind (gets (\<lambda>d. user_value d s)) (\<lambda>uv. case uv of
          Some (PInt u) \<Rightarrow> lacking K A (\<lambda>v. v < u) deps
        | _ \<Rightarrow> raise TypeError)
      else lacking K A (\<lambda>v. v = 0) deps))"

text \<open>\<open>check_assigned_sym_values\<close>: the assigned value as text, the list of dependencies, and the loop\<close>

definition assigned_text :: "stype \<Rightarrow> pyval \<Rightarrow> string ev" where
  "assigned_text t u =
     (if bool_tristate t then (case u of PInt v \<Rightarrow> ret (tri_to_str v) | PStr _ \<Rightarrow> raise KeyError)
      else ret (case u of PInt v \<Rightarrow> py_str (int v) | PStr x \<Rightarrow> x))"

definition same_value :: "stype \<Rightarrow> pyval \<Rightarrow> string \<Rightarrow> bool" where
  "same_value t u v = (case u of PInt n \<Rightarrow> bool_tristate t \<and> tri_to_str n = v | PStr x \<Rightarrow> x = v)"

definition dep_text :: "kconfig \<Rightarrow> acc \<Rightarrow> expr \<Rightarrow> string ev" where
  "dep_text K A e =
     bind (expr_value K A e) (\<lambda>v.
       let t = expr_str (std_str K) e in
       ret ((if is_tuple e then ''('' @ t @ '')'' else t) @ '' (='' @ tri_to_str v @ '')''))"

definition deps_hint :: "kconfig \<Rightarrow> acc \<Rightarrow> expr list \<Rightarrow> string ev" where
  "deps_hint K A mdeps =
     (if mdeps = [] then ret []
      else bind (foldm (\<lambda>e out. bind (dep_text K A e) (\<lambda>t. ret (out @ [t]))) mdeps []) (\<lambda>ts.
        ret (''Check these unsatisfied dependencies: '' @ py_joins '', '' ts @ ''. '')))"

definition check_assigned_sym :: "kconfig \<Rightarrow> acc \<Rightarrow> symref \<Rightarrow> string option ev" where
  "check_assigned_sym K A s =
     (if s_choice (k_sym K s) \<noteq> None then ret None
      else bind (gets (\<lambda>d. user_value d s)) (\<lambda>uv. case uv of
        None \<Rightarrow> ret None
      | Some u \<Rightarrow>
          bind (sym_type K A s) (\<lambda>t.
          bind (assigned_text t u) (\<lambda>txt.
          bind (a_str A s) (\<lambda>v.
          if same_value t u v then ret None
          else bind (missing_deps K A s) (\<lambda>mdeps. bind (deps_hint K A mdeps) (\<lambda>hint.
            ret (Some (sym_name_and_loc K s @ '' was assigned the value '' @ [CHR 0x27] @ txt @ [CHR 0x27] @
              '' but got the value '' @ [CHR 0x27] @ v @ [CHR 0x27] @ ''. '' @ hint @ SYM_INFO_HINT (sym_name s))))))))))"

definition check_assigned_sym_values :: "kconfig \<Rightarrow> acc \<Rightarrow> unit fe" where
  "check_assigned_sym_values K A =
     foldm (\<lambda>s _. bind (in_kconf (check_assigned_sym K A s)) (\<lambda>r. case r of None \<Rightarrow> ret () | Some msg \<Rightarrow> script_warn msg))
       (k_unique_defined_syms K) ()"

text \<open>\<open>check_assigned_choice_values\<close>\<close>

definition check_assigned_choice :: "kconfig \<Rightarrow> acc \<Rightarrow> choiceref \<Rightarrow> string option ev" where
  "check_assigned_choice K A c =
     bind (gets (\<lambda>d. ch_user_selection d c)) (\<lambda>us. case us of
       None \<Rightarrow> ret None
     | Some s \<Rightarrow>
         bind (a_sel A c) (\<lambda>sel.
         if sel = Some s then ret None
         else ret (Some (''The choice symbol '' @ sym_name_and_loc K s @ '' was selected (set =y),'' @ [NL] @ ''but '' @
           (case sel of None \<Rightarrow> ''no symbol'' | Some t \<Rightarrow> sym_name_and_loc K t) @ '' ended'' @ [NL] @
           ''up as the choice selection. '' @ SYM_INFO_HINT (sym_name s)))))"

definition check_assigned_choice_values :: "kconfig \<Rightarrow> acc \<Rightarrow> unit fe" where
  "check_assigned_choice_values K A =
     foldm (\<lambda>c _. bind (in_kconf (check_assigned_choice K A c)) (\<lambda>r. case r of None \<Rightarrow> ret () | Some msg \<Rightarrow> script_warn msg))
       (k_unique_choices K) ()"

text \<open>
  \<open>check_deprecated\<close>, \<open>check_experimental\<close> and \<open>check_not_secure\<close>: warn about the symbols that select \<open>name\<close> with \<open>y\<close>
\<close>

definition selector_name :: "kconfig \<Rightarrow> expr \<Rightarrow> string ev" where
  "selector_name K e = (case split_expr e OpAND of
     Item (Sym s) # _ \<Rightarrow> ret (sym_name s)
   | Item (Cho c) # _ \<Rightarrow> ret (case c_name (k_choice K c) of None \<Rightarrow> ''None'' | Some x \<Rightarrow> x)
   | _ \<Rightarrow> raise AttributeError)"

definition check_selected :: "kconfig \<Rightarrow> acc \<Rightarrow> string \<Rightarrow> string \<Rightarrow> unit fe" where
  "check_selected K A name kind =
     (let dep = (if name \<in> set (k_syms K) then s_rev_dep (k_sym K (SymN name)) else kn) in
      if dep = kn then ret ()
      else
        bind (in_kconf (lacking K A (\<lambda>v. v = 2) (split_expr dep OpOR))) (\<lambda>selectors.
        foldm (\<lambda>e _. bind (in_kconf (selector_name K e)) (\<lambda>t. script_warn (kind @ '' symbol '' @ t @ '' is enabled.'')))
          selectors ()))"

text \<open>\<open>kconf.syms.get(name, kconf.y).tri_value == 2\<close>\<close>

definition flag_set :: "kconfig \<Rightarrow> acc \<Rightarrow> string \<Rightarrow> bool ev" where
  "flag_set K A name =
     bind (a_tri A (if name \<in> set (k_syms K) then SymN name else SymC ''y'')) (\<lambda>v. ret (v = 2))"

text \<open>
  The text of a warning, after \<open>''warning: ''\<close>; of the message on unsatisfied dependencies only the first line, the
  other lines list the selecting symbols.
\<close>

definition quote1 :: "string \<Rightarrow> string" where
  "quote1 t = [CHR 0x27] @ t @ [CHR 0x27]"

definition sc_loc :: "kconfig \<Rightarrow> item \<Rightarrow> string" where
  "sc_loc K it = (case it of Sym s \<Rightarrow> sym_name_and_loc K s | Cho c \<Rightarrow> choice_name_and_loc K c)"

definition warning_text :: "kconfig \<Rightarrow> warning \<Rightarrow> string" where
  "warning_text K w =
     (case w of
        W_user_value_ignored s v low high \<Rightarrow>
          (let num = num2str (otype K s) in
           ''user value '' @ num v @ '' on the '' @ type_to_str (otype K s) @ '' symbol '' @ sym_name_and_loc K s @
           '' ignored due to being outside the active range (['' @ num low @ '', '' @ num high @ '']) -- falling back on defaults'')
      | W_default_clamped s v c low high \<Rightarrow>
          (let num = num2str (otype K s) in
           ''default value '' @ py_str v @ '' on '' @ sym_name_and_loc K s @ '' clamped to '' @ num c @
           '' due to being outside the active range (['' @ num low @ '', '' @ num high @ ''])'')
      | W_logical_context s \<Rightarrow>
          ''The '' @ type_to_str (otype K s) @ '' symbol '' @ sym_name_and_loc K s @
          '' is being evaluated in a logical context somewhere. It will always evaluate to n.''
      | W_select_unsatisfied s dv rv es \<Rightarrow>
          sym_name_and_loc K s @ '' has direct dependencies '' @ expr_str (std_str K) (s_direct_dep (k_sym K s)) @
          '' with value '' @ tri_to_str dv @ '', but is currently being '' @ tri_to_str rv @
          ''-selected by the following symbols:''
      | W_invalid_value it v \<Rightarrow>
          ''the value '' @ (case v of PInt i \<Rightarrow> if i \<le> 2 then tri_to_str i else quote1 (py_str (int i)) | PStr x \<Rightarrow> quote1 x) @
          '' is invalid for '' @ sc_loc K it @ '', which has type '' @
          type_to_str (case it of Sym s \<Rightarrow> otype K s | Cho c \<Rightarrow> c_orig_type (k_choice K c)) @ '' -- assignment ignored''
      | W_no_prompt s \<Rightarrow> sym_name_and_loc K s @ '' has no prompt, meaning user values have no effect on it''
      | W_undef_assign val name l \<Rightarrow>
          ''attempt to assign the value '' @ quote1 val @ '' to the undefined symbol '' @ name
      | W_assigned_twice s old new l \<Rightarrow>
          sym_name_and_loc K s @ '' set more than once. Old value '' @ [QUOT] @ (case old of None \<Rightarrow> ''None'' | Some x \<Rightarrow> x) @
          [QUOT] @ '', new value '' @ [QUOT] @ new @ [QUOT] @ ''.''
      | W_config_invalid s val l \<Rightarrow>
          quote1 val @ '' is not a valid value for the '' @ type_to_str (otype K s) @ '' symbol '' @ sym_name_and_loc K s @
          ''. Assignment ignored.''
      | W_choice_m_and_y l \<Rightarrow> ''both m and y assigned to symbols within the same choice''
      | W_malformed_string s l \<Rightarrow>
          ''malformed string literal in assignment to '' @ sym_name_and_loc K s @ ''. Assignment ignored.''
      | W_malformed_line line l \<Rightarrow> ''ignoring malformed line '' @ quote1 line
      | W_text msg loc \<Rightarrow> msg)"

text \<open>
  The search for \<^verbatim>\<open>warning:.*set more than once.\<close>: \<open>warning:\<close>, and on the same line the phrase with one more
  character.
\<close>

definition WARNING :: string where "WARNING = ''warning:''"
definition TWICE :: string where "TWICE = ''set more than once''"

fun phrase_ahead :: "string \<Rightarrow> bool" where
  "phrase_ahead [] = False"
| "phrase_ahead (c # s) =
     (startswith (c # s) TWICE \<and> (case drop (length TWICE) (c # s) of [] \<Rightarrow> False | d # _ \<Rightarrow> d \<noteq> NL) \<or> c \<noteq> NL \<and> phrase_ahead s)"

fun warn_only :: "string \<Rightarrow> bool" where
  "warn_only [] = False"
| "warn_only (c # s) = (startswith (c # s) WARNING \<and> phrase_ahead (drop (length WARNING) (c # s)) \<or> warn_only s)"

text \<open>
  The end of the checks: the warnings of \<open>Kconfig\<close> are printed, and abort the script; with
  \<^verbatim>\<open>--forced-input-configs\<close> only when one is not about a second assignment.
\<close>

definition report_warnings :: "kconfig \<Rightarrow> bool \<Rightarrow> unit fe" where
  "report_warnings K forced =
     bind (in_kconf (gets warnings)) (\<lambda>ws.
     if ws = [] then ret ()
     else
       bind (foldm (\<lambda>w error_out. bind (say (FKconfig w)) (\<lambda>_.
           ret (error_out \<or> \<not> warn_only (''warning: '' @ warning_text K w)))) ws (\<not> forced)) (\<lambda>error_out.
       if error_out then script_err ''Aborting due to Kconfig warnings'' else ret ()))"

text \<open>\<open>write_config(os.devnull)\<close> calculates all values; the null device is no regular file and keeps nothing.\<close>

definition write_devnull :: "kconfig \<Rightarrow> nat \<Rightarrow> unit fe" where
  "write_devnull K n = bind (in_kconf (config_contents K n (accs K n) None)) (\<lambda>_. ret ())"

text \<open>\<open>main\<close> up to the output\<close>

definition set_flags :: "fargs \<Rightarrow> unit fe" where
  "set_flags a = in_kconf (modify (\<lambda>d.
     let d1 = (if fa_handwritten a then d\<lparr>warn_assign_undef := True, warn_assign_override := False, warn_assign_redun := False\<rparr> else d)
     in if fa_forced a then d1\<lparr>warn_assign_redun := False\<rparr> else d1))"

definition load_files :: "kconfig \<Rightarrow> nat \<Rightarrow> string list \<Rightarrow> unit fe" where
  "load_files K n fs =
     (case fs of [] \<Rightarrow> raise IndexError
      | f # r \<Rightarrow>
          bind (in_files (load_config_io K n (accs K n) (Some f) True)) (\<lambda>msg.
          bind (say (FOut msg)) (\<lambda>_.
          foldm (\<lambda>g _. bind (in_files (load_config_io K n (accs K n) (Some g) False)) (\<lambda>msg. say (FOut msg))) r ())))"

definition check_values :: "kconfig \<Rightarrow> nat \<Rightarrow> unit fe" where
  "check_values K n =
     bind (check_no_promptless_assign K) (\<lambda>_.
     bind (check_assigned_sym_values K (accs K n)) (\<lambda>_. check_assigned_choice_values K (accs K n)))"

definition checks :: "kconfig \<Rightarrow> nat \<Rightarrow> fargs \<Rightarrow> unit fe" where
  "checks K n a =
     (let A = accs K n; only_if = (\<lambda>b (m :: unit fe). if b then m else ret ()) in
      bind (set_flags a) (\<lambda>_.
      bind (load_files K n (fa_configs_in a)) (\<lambda>_.
      bind (only_if (fa_handwritten a) (check_values K n)) (\<lambda>_.
      bind (in_kconf (flag_set K A ''WARN_DEPRECATED'')) (\<lambda>b.
      bind (only_if b (check_selected K A ''DEPRECATED'' ''Deprecated'')) (\<lambda>_.
      bind (in_kconf (flag_set K A ''WARN_EXPERIMENTAL'')) (\<lambda>b.
      bind (only_if b (check_selected K A ''EXPERIMENTAL'' ''Experimental'')) (\<lambda>_.
      bind (check_selected K A ''NOT_SECURE'' ''Not secure'') (\<lambda>_.
      bind (write_devnull K n) (\<lambda>_. report_warnings K (fa_forced a)))))))))))"

text \<open>\<open>write_kconfig_filenames\<close>, and the output\<close>

definition write_kconfig_filenames :: "(string \<Rightarrow> string) \<Rightarrow> string list \<Rightarrow> string \<Rightarrow> unit fe" where
  "write_kconfig_filenames realpath names path =
     in_files (bind (gets w_srctree) (\<lambda>src.
       put_file path (concat (map (\<lambda>f. f @ [NL]) (sort (remdups (map (\<lambda>f. realpath (py_join src f)) names)))))))"

definition outputs :: "kconfig \<Rightarrow> nat \<Rightarrow> (string \<Rightarrow> string) \<Rightarrow> string list \<Rightarrow> fargs \<Rightarrow> unit fe" where
  "outputs K n realpath names a =
     bind (in_files (write_config K n (accs K n) (Some (fa_config_out a)) None True)) (\<lambda>msg.
     bind (say (FOut msg)) (\<lambda>_.
     bind (in_files (write_autoconf K (accs K n) (Some (fa_header_out a)) None)) (\<lambda>msg.
     bind (say (FOut msg)) (\<lambda>_.
     write_kconfig_filenames realpath names (fa_kconfig_list_out a)))))"

definition kconfig_main :: "penv \<Rightarrow> nat \<Rightarrow> (string \<Rightarrow> string) \<Rightarrow> fargs \<Rightarrow> unit fe" where
  "kconfig_main E n realpath a =
     (let E = (if fa_zephyr_base a \<noteq> [] then E\<lparr>e_environ := (e_environ E)(''ZEPHYR_BASE'' \<mapsto> fa_zephyr_base a)\<rparr> else E) in
      bind (say (FOut (''Parsing '' @ fa_kconfig_file a))) (\<lambda>_.
      bind (new_kconfig E n (fa_cmd a) (fa_kconfig_file a)) (\<lambda>p.
      bind (checks (p_kc p) n a) (\<lambda>_. outputs (p_kc p) n realpath (p_kconfig_filenames p) a))))"

section \<open>\<^verbatim>\<open>hardenconfig.py\<close>\<close>

record hoption =
  ho_name :: string
  ho_recommended :: string
  ho_current :: "string option"
  ho_symbol :: "symref option"

text \<open>\<open>Option.result\<close>\<close>

definition ho_result :: "hoption \<Rightarrow> string" where
  "ho_result x = (case ho_current x of None \<Rightarrow> ''NA'' | Some c \<Rightarrow> if ho_recommended x = c then ''PASS'' else ''FAIL'')"

text \<open>\<open>compare_with_hardened_conf\<close>: the rows of the CSV file, then the symbols that select one of three symbols\<close>

definition hardened_row :: "kconfig \<Rightarrow> acc \<Rightarrow> string list \<Rightarrow> hoption list ev" where
  "hardened_row K A row =
     (case row of
        name # recommended # _ \<Rightarrow>
          if name \<in> set (k_syms K) then
            bind (a_str A (SymN name)) (\<lambda>v.
              ret [\<lparr>ho_name = name, ho_recommended = recommended, ho_current = Some v, ho_symbol = Some (SymN name)\<rparr>])
          else ret [\<lparr>ho_name = name, ho_recommended = recommended, ho_current = None, ho_symbol = None\<rparr>]
      | _ \<Rightarrow> ret [])"

definition get_sym_exc :: "kconfig \<Rightarrow> string \<Rightarrow> symref ev" where
  "get_sym_exc K name = (if name \<in> set (k_syms K) then ret (SymN name) else raise KeyError)"

fun any_in_select :: "kconfig \<Rightarrow> symref \<times> expr \<Rightarrow> string list \<Rightarrow> bool ev" where
  "any_in_select K sel [] = ret False"
| "any_in_select K sel (name # names) =
     bind (get_sym_exc K name) (\<lambda>s. if fst sel = s \<or> snd sel = Item (Sym s) then ret True else any_in_select K sel names)"

definition hardened_select :: "kconfig \<Rightarrow> acc \<Rightarrow> noderef \<Rightarrow> symref \<times> expr \<Rightarrow> hoption list ev" where
  "hardened_select K A x sel =
     bind (any_in_select K sel [''EXPERIMENTAL'', ''DEPRECATED'', ''NOT_SECURE'']) (\<lambda>b.
     if \<not> b then ret []
     else case n_item (k_node K x) of
       NSym s \<Rightarrow> bind (a_str A s) (\<lambda>v.
         ret [\<lparr>ho_name = sym_name s, ho_recommended = ''n'', ho_current = Some v, ho_symbol = Some s\<rparr>])
     | _ \<Rightarrow> raise AttributeError)"

definition collect :: "('a \<Rightarrow> 'b list ev) \<Rightarrow> 'a list \<Rightarrow> 'b list ev" where
  "collect f xs = foldm (\<lambda>x out. bind (f x) (\<lambda>ys. ret (out @ ys))) xs []"

definition compare_with_hardened_conf :: "kconfig \<Rightarrow> nat \<Rightarrow> string list list \<Rightarrow> hoption list ev" where
  "compare_with_hardened_conf K n rows =
     bind (collect (hardened_row K (accs K n)) rows) (\<lambda>a.
     bind (of_option NoReturn (node_iter K n False)) (\<lambda>xs.
     bind (collect (\<lambda>x. collect (hardened_select K (accs K n) x) (n_selects (k_node K x))) xs) (\<lambda>b. ret (a @ b))))"

text \<open>\<open>display_results\<close>: the fields of a format are padded with blanks.\<close>

definition centered :: "nat \<Rightarrow> string \<Rightarrow> string" where
  "centered w t = (let p = w - length t in replicate (p div 2) SPC @ t @ replicate (p - p div 2) SPC)"

definition left_aligned :: "nat \<Rightarrow> string \<Rightarrow> string" where
  "left_aligned w t = t @ replicate (w - length t) SPC"

definition result_line :: "hoption \<Rightarrow> string" where
  "result_line x = ''CONFIG_'' @ left_aligned 43 (ho_name x) @ ''|'' @
     centered 13 (case ho_current x of None \<Rightarrow> ''None'' | Some c \<Rightarrow> c) @ ''|'' @ centered 20 (ho_recommended x) @
     ''||'' @ centered 28 (ho_result x)"

definition failed_line :: "acc \<Rightarrow> hoption \<Rightarrow> string list ev" where
  "failed_line A x =
     (if ho_result x = ''FAIL'' then
        bind (of_option AttributeError (ho_symbol x)) (\<lambda>s.
        bind (a_vis A s) (\<lambda>v. ret (if v \<noteq> 0 then [result_line x] else [])))
      else ret [])"

definition display_results :: "acc \<Rightarrow> hoption list \<Rightarrow> string list ev" where
  "display_results A os =
     bind (collect (failed_line A) os) (\<lambda>ls.
       ret ([centered 50 ''name'' @ ''|'' @ centered 13 ''current'' @ ''|'' @ centered 20 ''recommended'' @ ''||'' @
         centered 28 ''check result'', replicate 116 (CHR ''='')] @ ls))"

definition hardenconfig :: "kconfig \<Rightarrow> nat \<Rightarrow> string list list \<Rightarrow> unit fe" where
  "hardenconfig K n rows =
     bind (in_files (load_config_io K n (accs K n) None True)) (\<lambda>_.
     bind (in_kconf (compare_with_hardened_conf K n rows)) (\<lambda>os.
     bind (in_kconf (display_results (accs K n) os)) (\<lambda>ls. foldm (\<lambda>l _. say (FOut l)) (ls @ [[]]) ())))"

section \<open>\<^verbatim>\<open>lint.py\<close>\<close>

text \<open>The tests on symbols\<close>

definition has_prompt :: "kconfig \<Rightarrow> symref \<Rightarrow> bool" where
  "has_prompt K s = list_ex (\<lambda>x. n_prompt (k_node K x) \<noteq> None) (s_nodes (k_sym K s))"

definition is_selected_or_implied :: "kconfig \<Rightarrow> symref \<Rightarrow> bool" where
  "is_selected_or_implied K s = (s_rev_dep (k_sym K s) \<noteq> kn \<or> s_weak_rev_dep (k_sym K s) \<noteq> kn)"

definition has_defaults :: "kconfig \<Rightarrow> symref \<Rightarrow> bool" where
  "has_defaults K s = (s_defaults (k_sym K s) \<noteq> [])"

definition is_selecting_or_implying :: "kconfig \<Rightarrow> symref \<Rightarrow> bool" where
  "is_selecting_or_implying K s = (s_selects (k_sym K s) \<noteq> [] \<or> s_implies (k_sym K s) \<noteq> [])"

definition name_and_locs :: "kconfig \<Rightarrow> symref \<Rightarrow> string" where
  "name_and_locs K s =
     left_aligned 40 (sym_name s) @ '' '' @
     py_joins '', '' (map (\<lambda>x. n_filename (k_node K x) @ '':'' @ py_str (int (n_linenr (k_node K x)))) (s_nodes (k_sym K s)))"

definition header_lines :: "string \<Rightarrow> string list" where
  "header_lines t = [t, replicate (length t) (CHR ''='')]"

text \<open>The checks, as the lines they print. The results of \<open>git grep\<close> are arguments.\<close>

definition always_n_syms :: "kconfig \<Rightarrow> symref list" where
  "always_n_syms K =
     filter (\<lambda>s. \<not> has_prompt K s \<and> \<not> is_selected_or_implied K s \<and> \<not> has_defaults K s) (k_unique_defined_syms K)"

definition check_always_n :: "kconfig \<Rightarrow> string list" where
  "check_always_n K =
     header_lines (''Symbols that can'' @ [CHR 0x27] @ ''t be anything but n/empty'') @ map (name_and_locs K) (always_n_syms K)"

definition referenced_in_kconfig :: "kconfig \<Rightarrow> nat \<Rightarrow> string list option" where
  "referenced_in_kconfig K n =
     map_option (\<lambda>xs. [sym_name s. x \<leftarrow> xs, it \<leftarrow> referenced (k_node K x), s \<leftarrow> (case it of Sym s \<Rightarrow> [s] | Cho _ \<Rightarrow> [])])
       (node_iter K n False)"

definition config_char :: "char \<Rightarrow> bool" where
  "config_char c = (let n = (of_char c :: nat) in 48 \<le> n \<and> n \<le> 57 \<or> 65 \<le> n \<and> n \<le> 90 \<or> c = CHR ''_'')"

text \<open>The match of \<^verbatim>\<open>[\s#]*CONFIG_[A-Z0-9_]+=.*\<close> at the start of a line\<close>

definition is_assignment :: "string \<Rightarrow> bool" where
  "is_assignment line =
     (let r = dropWhile (\<lambda>c. py_isspace c \<or> c = CHR ''#'') line; t = drop 7 r
      in startswith r ''CONFIG_'' \<and> takeWhile config_char t \<noteq> [] \<and> startswith (dropWhile config_char t) ''='')"

text \<open>
  \<open>re.findall\<close> of \<^verbatim>\<open>\bCONFIG_[A-Z0-9_]+\b\<close>, without the prefix; \<open>w\<close> says that the character before is a word
  character. A match takes all of \<^verbatim>\<open>[A-Z0-9_]\<close> that follow; when a word character comes next, it has no boundary.
\<close>

fun find_configs :: "nat \<Rightarrow> bool \<Rightarrow> string \<Rightarrow> string list" where
  "find_configs 0 w s = []"
| "find_configs (Suc n) w [] = []"
| "find_configs (Suc n) w (c # s) =
     (let t = drop 7 (c # s); name = takeWhile config_char t; rest = dropWhile config_char t
      in if \<not> w \<and> startswith (c # s) ''CONFIG_'' \<and> name \<noteq> [] \<and> (rest = [] \<or> \<not> re_word (hd rest))
         then name # find_configs n True rest
         else find_configs n (re_word c) s)"

definition referenced_outside_kconfig :: "string list \<Rightarrow> string list" where
  "referenced_outside_kconfig lines =
     concat (map (\<lambda>l. if is_assignment l then [] else find_configs (Suc (length l)) False l) lines)"

definition check_unused :: "kconfig \<Rightarrow> nat \<Rightarrow> string list \<Rightarrow> string list option" where
  "check_unused K n lines =
     map_option (\<lambda>refs.
       let referenced = refs @ referenced_outside_kconfig lines in
       header_lines ''Symbols that look unused'' @
       map (name_and_locs K) (filter (\<lambda>s. \<not> is_selecting_or_implying K s \<and> s_choice (k_sym K s) = None \<and>
         sym_name s \<notin> set referenced) (k_unique_defined_syms K)))
     (referenced_in_kconfig K n)"

definition check_pointless_menuconfigs :: "kconfig \<Rightarrow> nat \<Rightarrow> string list option" where
  "check_pointless_menuconfigs K n =
     map_option (\<lambda>xs. header_lines ''menuconfig symbols with empty menus'' @
       [left_aligned 40 (sym_name s) @ '' '' @ n_filename (k_node K x) @ '':'' @ py_str (int (n_linenr (k_node K x))).
         x \<leftarrow> xs, n_is_menuconfig (k_node K x) \<and> n_list (k_node K x) = None,
         s \<leftarrow> (case n_item (k_node K x) of NSym s \<Rightarrow> [s] | _ \<Rightarrow> [])])
     (node_iter K n False)"

fun occurs_in :: "string \<Rightarrow> string \<Rightarrow> bool" where
  "occurs_in p [] = (p = [])"
| "occurs_in p (c # s) = (startswith (c # s) p \<or> occurs_in p s)"

definition check_defconfig_only_definition :: "kconfig \<Rightarrow> string list" where
  "check_defconfig_only_definition K =
     header_lines ''Symbols only defined in Kconfig.defconfig files'' @
     map (name_and_locs K) (filter (\<lambda>s. list_all (\<lambda>x. occurs_in ''defconfig'' (n_filename (k_node K x))) (s_nodes (k_sym K s)))
       (k_unique_defined_syms K))"

text \<open>
  \<open>check_missing_config_prefix\<close>: \<open>defined\<close> are the names of the macros that \<open>git grep\<close> finds, and \<open>run\<close> greps for a
  regular expression in a module.
\<close>

fun split_list :: "nat \<Rightarrow> 'a list \<Rightarrow> 'a list list" where
  "split_list n [] = []"
| "split_list n (x # xs) = (x # take (n - 1) xs) # split_list n (drop (n - 1) xs)"

definition prefix_regex :: "string list \<Rightarrow> string" where
  "prefix_regex names =
     ''(?:#'' @ [BSL] @ ''s*if(?:n?def)'' @ [BSL] @ ''s+|'' @ [BSL] @ ''bdefined'' @ [BSL] @ ''s*'' @ [BSL] @ ''('' @ [BSL] @
     ''s*|IS_ENABLED'' @ [BSL] @ ''('' @ [BSL] @ ''s*)(?:'' @ py_joins ''|'' names @ '')'' @ [BSL] @ ''b''"

definition check_missing_config_prefix :: "kconfig \<Rightarrow> string list \<Rightarrow> string list \<Rightarrow> (string \<Rightarrow> string \<Rightarrow> string) \<Rightarrow> string" where
  "check_missing_config_prefix K modpaths defined run =
     concat (map (\<lambda>l. l @ [NL]) (header_lines ''Symbol references that might be missing a CONFIG_ prefix'')) @
     concat (map (\<lambda>batch. concat (map (run (prefix_regex (map sym_name batch))) modpaths))
       (split_list 200 (filter (\<lambda>s. sym_name s \<notin> set defined) (k_unique_defined_syms K))))"

end
