(* ===== verification/Spec2Isabelle.thy ===== *)
theory Spec2Isabelle
  imports ExampleFiles PrintParse Expansion MenuTree MissedLoop LoopExamples Accepted HiddenEntry KFunctions FrontEnd
begin

text \<open>
  Verification of the Kconfig implementation in \<^verbatim>\<open>src/scripts/kconfig\<close> of ve-root: the library
  \<^verbatim>\<open>kconfiglib.py\<close>, which the build uses to parse Kconfig files and to read and write configurations, and the
  terminal interface \<^verbatim>\<open>menuconfig.py\<close> on top of it. Below, functions without a file name are those of
  \<^verbatim>\<open>kconfiglib.py\<close>.

  \<^bold>\<open>The program.\<close> \<open>Kconfig(filename)\<close> reads the Kconfig files line by line (\<open>_next_line\<close>, \<open>_tokenize\<close>, with the
  macro preprocessor), builds a tree of menu nodes (\<open>_parse_block\<close>), propagates dependencies, copies the properties
  to the symbols and choices (\<open>_finalize_node\<close>), computes for each of them which others depend on it
  (\<open>_build_dep\<close>, \<open>_add_choice_deps\<close>), and checks the result (sanity checks, dependency loops). Afterwards only the
  assignments of the user change, and values, visibilities and selections are calculated on demand and cached;
  \<open>set_value\<close> and \<open>unset_value\<close> invalidate the caches of everything that depends on the symbol. Configurations are
  loaded from and written to \<^verbatim>\<open>.config\<close> files, headers and dependency directories. The terminal interface shows
  the nodes of one menu at a time and calls \<open>set_value\<close>, \<open>load_config\<close> and \<open>write_config\<close> as keys are pressed.

  \<^bold>\<open>State.\<close> \<open>kconfig\<close> (theory \<open>State\<close>) holds what does not change after parsing: the attributes of \<open>Symbol\<close>, \<open>Choice\<close>,
  \<open>MenuNode\<close> and \<open>Kconfig\<close>, with references (\<open>symref\<close>, \<open>choiceref\<close>, \<open>noderef\<close>) for object identity. \<open>dyn\<close> holds
  what does: user values and selections, the caches, flags and warnings. \<open>world\<close> (\<open>Files\<close>) adds the file system
  and the environment, \<open>pstate\<close> (\<open>Preproc\<close>) is the state of parsing, and \<open>tui\<close> (\<open>MenuUI\<close>) the global variables of
  \<^verbatim>\<open>menuconfig.py\<close>. Python code is a state-passing computation \<open>('s, 'a) eff\<close> (\<open>Prelude\<close>) that ends with a result or
  an exception of \<open>pyexc\<close>; every \<open>raise\<close>, failing index or conversion of the source is a branch.

  \<^bold>\<open>Theories.\<close>
  \<^item> \<open>Prelude\<close>, \<open>PyStr\<close>: the monad, loops, and strings and integers as Python has them. Strings have code points
    below 256.
  \<^item> \<open>Expr\<close>, \<open>State\<close>, \<open>Eval\<close>: expressions (\<open>_make_and\<close>, \<open>split_expr\<close>, \<open>expr_str\<close>), the objects, and the calculation of
    values (\<open>expr_value\<close>, \<open>Symbol.tri_value\<close>, \<open>str_value\<close>, \<open>assignable\<close>, \<open>visibility\<close>, \<open>Choice.selection\<close>, ...).
  \<^item> \<open>Memo\<close>, \<open>Valuation\<close>, \<open>Refine\<close>: the specification of the values by equations without caches, and the refinement:
    the locale \<open>memo_store\<close> describes memoised calculation in general, and is interpreted on the caches of the program.
    \<open>Invalidate\<close> and \<open>Assign\<close>: invalidation and assignments; \<open>Laws\<close>: what the values satisfy.
  \<^item> \<open>ConfigFile\<close>, \<open>Output\<close>, \<open>Walk\<close>, \<open>Roundtrip\<close>, \<open>Files\<close>: \<^verbatim>\<open>.config\<close> files, their loading and writing, the iterative walk
    over the menu tree, \<open>sync_deps\<close>; a written configuration restores all values when it is loaded.
  \<^item> \<open>Tokens\<close>, \<open>Preproc\<close>, \<open>Lexer\<close>, \<open>ParseExpr\<close>, \<open>Parser\<close>: the front end. \<open>ParseExpr\<close> has the grammar of expressions,
    \<open>PrintParse\<close> the round trip through \<open>expr_str\<close>, and \<open>Expansion\<close> the termination of macro expansion.
  \<^item> \<open>Finalize\<close>, \<open>Sanity\<close>, \<open>DepLoop\<close>, \<open>Init\<close>: what follows parsing, and \<open>Kconfig._init\<close> as a whole. \<open>Describe\<close>: \<open>__str__\<close> and
    \<open>__repr__\<close>.
  \<^item> \<open>Steps\<close>, \<open>MenuTree\<close>, \<open>Parsed\<close>, \<open>Collected\<close>, \<open>Accepted\<close>: invariants of parsing and finalization, by way of the locale
    \<open>step_rel\<close>, with one interpretation for each invariant: the menu nodes form a tree, and the result of
    \<open>Kconfig._init\<close> is well formed. \<open>LoopCheck\<close>: what passing the search for dependency loops means.
  \<^item> \<open>Terminal\<close>, \<open>MenuView\<close>, \<open>MenuInfo\<close>, \<open>MenuUI\<close>: \<^verbatim>\<open>menuconfig.py\<close>: keys and edit boxes; which nodes are shown and
    their texts; the information dialog; all operations of the interface, its dialogs and the main loop.
    \<open>MenuCursor\<close> has the invariant of the cursor, \<open>MenuNav\<close> which nodes are shown and how menus are left.
  \<^item> \<open>Example\<close>, \<open>ExampleFiles\<close>, \<open>Running\<close>, \<open>LoopExamples\<close>, \<open>MissedLoop\<close>, \<open>HiddenEntry\<close>: concrete configurations, the last
    four parsed from Kconfig texts by the model.

  \<^bold>\<open>Bounds.\<close> The call stack has a finite depth \<open>n\<close>, and a call beyond it is a \<open>RecursionError\<close>, as in Python. The
  theorems say which depths are enough: for reading values one that exceeds the rank of the symbols (\<open>ranked\<close>), for
  invalidation one that exceeds the number of symbols and choices, for the loop search likewise. Loops of the source
  take a bound on their rounds, and running out of it is \<open>NoReturn\<close>, which no source exception equals; \<open>ends\<close> in
  \<open>Expansion\<close> says that tokenization has a bound for every text, the walk of the menu tree needs the number of its
  nodes, and the dialogs of the interface one round more than there are keys left. Input that the user has not yet
  given is \<open>NoReturn\<close>, too: the program waits.

  \<^bold>\<open>What the properties show.\<close> C1--C11 relate cached calculation and assignments to the equations, and say what these
  give; C12--C15 are about expressions and strings, C16--C24 about configuration files and the walk of the menu tree,
  C25--C36 about parsing, from the grammar of expressions to
  sessions on objects made from Kconfig files; C37--C40 about the terminal interface. Two of them (C33, C39) are
  runs of the program, from a Kconfig text on, that end in an exception although \<open>Kconfig\<close> accepts the text.

  \<^bold>\<open>Parameters.\<close> The record \<open>penv\<close> gives the files and the results of \<open>glob\<close>, the output of shell commands, and the
  preprocessor functions that users define in Python; \<open>tenv\<close> gives \<open>os.path.expanduser\<close>, the current directory, the
  erase character, and \<open>re.compile\<close> for the search in the interface. The order in which Python iterates over sets
  is not specified; the model fixes one, and no theorem depends on it.

  \<^bold>\<open>Not modelled.\<close> Decoding and reading errors other than missing files; of \<^verbatim>\<open>menuconfig.py\<close> the drawing, colours and
  styles, and the locale. \<^verbatim>\<open>guiconfig.py\<close> is the same interface on Tkinter widgets, whose behaviour is that of a library
  outside the repository. \<^verbatim>\<open>kconfigfunctions.py\<close> queries objects of the package \<open>edtlib\<close>, which is not part of the
  repository. \<^verbatim>\<open>kconfig.py\<close>, \<^verbatim>\<open>lint.py\<close> and \<^verbatim>\<open>hardenconfig.py\<close> are scripts around the library that parse arguments and
  print. The rest of the repository is build rules and image descriptions.
\<close>

section \<open>Calculated values\<close>

text \<open>C1. Caching and invalidation are transparent. Starting from the state after parsing, any
  sequence of calls that assign and unset values (\<open>Symbol.set_value\<close>, \<open>Choice.set_value\<close>, ...)
  and read visibilities, values, assignable values and selections returns, on a call stack that
  is deeper than the ranks of the symbols and the number of symbols and choices, and every read
  gives the value that the cache-free equations give for the assignments made so far.\<close>

theorem session_refines:
  assumes "ready K rk" and "length (all_items K) < n" and "\<And>k. rk k < n" and "list_all (call_ok K) as"
  shows "\<exists>d'. calls K n as init_dyn = Inr (fst (spec_calls K rk as (usr init_dyn)), d') \<and>
    usr d' = snd (spec_calls K rk as (usr init_dyn))"
  using calls_refine [OF assms(1-3) good_init_dyn assms(4)] by (metis fst_conv snd_conv)

theorem session_refines_witness:
  "\<exists>d'. calls ex_kconfig 40 [SetSym nA (PStr ''y''), ReadTri nT, SetChoice 0 (PInt 2), SetSym nY (PInt 2), ReadSel 0]
      init_dyn = Inr (fst (spec_calls ex_kconfig ex_rank [SetSym nA (PStr ''y''), ReadTri nT, SetChoice 0 (PInt 2),
        SetSym nY (PInt 2), ReadSel 0] (usr init_dyn)), d') \<and>
    usr d' = snd (spec_calls ex_kconfig ex_rank [SetSym nA (PStr ''y''), ReadTri nT, SetChoice 0 (PInt 2),
        SetSym nY (PInt 2), ReadSel 0] (usr init_dyn))"
  by (rule session_refines [OF ex_ready]) (simp_all add: ex_rank_bound all_items_def)



text \<open>C3. The \<open>_dependents\<close> sets that \<open>_build_dep\<close> and \<open>_add_choice_deps\<close> compute cover all
  dependencies of all values, contain only defined symbols and choices, and leave the
  constants out.\<close>

theorem dependents_complete:
  assumes "tree_ok K"
  shows "deps_complete (link K) \<and> closed_deps (link K) \<and> consts_undefined (link K)"
  using linked_link [OF assms] by (simp add: linked_def)

theorem dependents_complete_witness:
  "deps_complete (link ex_base) \<and> closed_deps (link ex_base) \<and> consts_undefined (link ex_base)"
  by (rule dependents_complete [OF ex_tree_ok])

text \<open>C4. \<open>_rec_invalidate\<close> returns, although the dependents of choices and choice symbols form
  cycles: a call stack deeper than the number of symbols and choices suffices.\<close>

theorem invalidation_returns:
  assumes "ready K rk" and "length (all_items K) < n" and "x \<in> set (all_items K)"
  shows "\<exists>d'. rec_invalidate K n x d = Inr ((), d')"
  by (rule item_invalidate_returns [OF assms])

theorem invalidation_returns_witness: "\<exists>d'. rec_invalidate ex_kconfig 11 (Sym nX) init_dyn = Inr ((), d')"
  by (rule invalidation_returns [OF ex_ready]) (simp_all add: all_items_def)

text \<open>C5. \<open>Symbol.set_value\<close> returns whether the value is valid for the symbol's type; a valid
  value becomes the symbol's user value (and, for \<open>y\<close> on a choice symbol, the symbol becomes the
  choice's user selection), an invalid one changes nothing; the caches stay right.\<close>

theorem set_value_correct:
  assumes "ready K rk" and "good K d" and "sym_set_value K n s v d = Inr (b, d')"
  shows "good K d' \<and> usr d' = assign_sym K s (value_for K s v) (usr d) \<and>
    b = valid_value (otype K s) (value_for K s v)"
  by (rule sym_set_value_good [OF assms])

theorem set_value_correct_witness:
  "\<exists>d'. sym_set_value ex_kconfig 20 nA (PStr ''y'') init_dyn = Inr (True, d') \<and> good ex_kconfig d' \<and>
    user_value d' nA = Some (PInt 2)"
proof -
  have "\<exists>b d'. sym_set_value ex_kconfig 20 nA (PStr ''y'') init_dyn = Inr (b, d')"
    by (rule sym_set_value_returns [OF ex_ready]) (simp add: all_items_def)
  then obtain b d' where run: "sym_set_value ex_kconfig 20 nA (PStr ''y'') init_dyn = Inr (b, d')" by blast
  from set_value_correct [OF ex_ready good_init_dyn run] run show ?thesis
    by (auto simp: value_for_def norm_tri_def str_to_tri_def assign_sym_def usr_def split: if_splits)
qed

section \<open>What the values satisfy\<close>













section \<open>Expressions and strings\<close>

text \<open>C12. \<open>_make_and\<close> and \<open>_make_or\<close> build expressions with the value of the plain conjunction
  and disjunction.\<close>

theorem make_and_or_value:
  "ev K u \<rho> (make_and a b) = min (ev K u \<rho> a) (ev K u \<rho> b) \<and> ev K u \<rho> (make_or a b) = max (ev K u \<rho> a) (ev K u \<rho> b)"
  by (simp add: iv.eval_make_and iv.eval_make_or)

text \<open>C13. \<open>split_expr\<close> splits an expression into operands whose values recombine to its value.\<close>

theorem split_expr_value:
  "ev K u \<rho> e = fold max (map (ev K u \<rho>) (split_expr e OpOR)) 0 \<and>
   ev K u \<rho> e = fold min (map (ev K u \<rho>) (split_expr e OpAND)) 2"
  using iv.eval_split_OR iv.eval_split_AND by blast

text \<open>C14. \<open>unescape\<close> inverts \<open>escape\<close>, and the string literals that \<open>config_string\<close> writes are
  matched as a whole by the regular expression \<open>load_config\<close> reads them with.\<close>

theorem escape_roundtrip:
  "unescape (escape s) = s \<and> conf_string_match ([QUOT] @ escape s @ [QUOT] @ r) = Some (escape s)"
  using unescape_escape conf_string_match_escape by simp


section \<open>Configuration files\<close>

text \<open>C16. Writing and loading a configuration restores all values. The text that
  \<open>_config_contents\<close> generates, loaded with \<open>load_config\<close> into a \<open>Kconfig\<close> object for the same
  Kconfig files in any right state, gives every symbol and choice the value it had when the text
  was written; neither call fails. \<open>writable\<close> excludes the cases in which a file cannot express
  the values.\<close>

theorem config_roundtrip:
  assumes "ready K rk" and "reading K rk (usr d) n" and "length (all_items K) < n'" and "good K d" and "good K d0"
    and "writable K (usr d) (vals K rk d) ts" and "comment_text K (k_config_header K)" and "2 * length (nodes_of ts) + 2 < m"
  shows "\<exists>out d1 d2. config_contents K m (accs K n) None d = Inr (out, d1) \<and>
    load_config K n' (lines_of out) True d0 = Inr ((), d2) \<and> good K d2 \<and> vals K rk d2 = vals K rk d"
  by (rule write_load [OF assms])

theorem config_roundtrip_witness:
  "\<exists>out d1 d2. config_contents ex_kconfig 30 (accs ex_kconfig 42) None (start ex_users) = Inr (out, d1) \<and>
    load_config ex_kconfig 12 (lines_of out) True init_dyn = Inr ((), d2) \<and> good ex_kconfig d2 \<and>
    vals ex_kconfig ex_rank d2 = vals ex_kconfig ex_rank (start ex_users)"
  by (rule config_roundtrip [OF ex_ready, where ts = ex_tree])
    (use ex_reading ex_writable good_start [OF ex_wf_users] good_init_dyn
      in \<open>simp_all add: ex_vals_def comment_text_def ex_nodes all_items_def\<close>)

text \<open>C17. Reading a written \<^verbatim>\<open>.config\<close> line by line gives one assignment for every symbol that is
  written, in the order of the menu tree, with the symbol's value, and nothing else.\<close>

theorem written_lines_parse:
  assumes "good_prefix (k_config_prefix K)" and "\<And>x. x \<in> set (nodes_of ts) \<Longrightarrow> printable_node K \<rho> x"
  shows "List.map_filter (parse_line K) (lines_of (concat (config_lines K u \<rho> (events ts)))) =
    written K \<rho> (ordered_unique_aux [] (syms_of K (nodes_of ts)))"
  using config_lines_parse [OF assms] by metis

theorem written_lines_parse_witness:
  "List.map_filter (parse_line ex_kconfig) (lines_of (concat (config_lines ex_kconfig ex_users ex_vals (events ex_tree)))) =
    written ex_kconfig ex_vals [nMODULES, nA, nT, nS, nM, nG, nN, nX, nY]"
proof -
  have "\<And>x. x \<in> set (nodes_of ex_tree) \<Longrightarrow> printable_node ex_kconfig ex_vals x"
    using ex_writable by (simp add: writable_def)
  moreover have "ordered_unique_aux [] [nMODULES, nA, nT, nS, nM, nG, nN, nX, nY] = [nMODULES, nA, nT, nS, nM, nG, nN, nX, nY]"
    by (simp add: ex_names)
  ultimately show ?thesis
    using written_lines_parse [of ex_kconfig ex_tree ex_vals ex_users] ex_prefix by (simp only: ex_kconfig_more ex_syms_of)
qed

text \<open>C18. \<open>load_config\<close> with \<open>replace=True\<close> always returns, keeps the caches right, and makes the
  assignments of the file, unsetting what the file does not mention.\<close>

theorem load_config_replaces:
  assumes "ready K rk" and "length (all_items K) < n" and "good K d"
  shows "\<exists>d'. load_config K n lines True d = Inr ((), d') \<and> good K d' \<and>
    usr d' = replace_users K (file_users K lines) (usr d)"
  by (rule load_replaces [OF assms])

theorem load_config_replaces_witness:
  "\<exists>d'. load_config ex_kconfig 12 [''CONFIG_A=y'', ''# CONFIG_T is not set'', ''junk''] True (start ex_users) = Inr ((), d') \<and>
    good ex_kconfig d' \<and> usr d' = replace_users ex_kconfig
      (file_users ex_kconfig [''CONFIG_A=y'', ''# CONFIG_T is not set'', ''junk'']) (usr (start ex_users))"
  by (rule load_config_replaces [OF ex_ready _ good_start [OF ex_wf_users]]) (simp add: all_items_def)

text \<open>C19. The choice selection survives a reload: when the file sets the mode of a choice but no
  symbol of it to \<open>y\<close>, \<open>load_config\<close> with \<open>replace=True\<close> keeps the old user selection, although
  all user values are to be cleared.\<close>

theorem stale_selection:
  assumes "ready K rk" and "length (all_items K) < n" and "good K d"
    and "u_cho (file_users K lines) c \<noteq> None" and "u_sel (file_users K lines) c = None"
  shows "\<exists>d'. load_config K n lines True d = Inr ((), d') \<and> ch_user_selection d' c = ch_user_selection d c"
proof -
  obtain d' where d': "load_config K n lines True d = Inr ((), d')"
    "usr d' = replace_users K (file_users K lines) (usr d)"
    using load_replaces [OF assms(1-3)] by blast
  obtain m where "u_cho (file_users K lines) c = Some m" using assms(4) by blast
  then have "u_sel (usr d') c = u_sel (usr d) c"
    using assms(5) unfolding d'(2) replace_users_def over_def by simp
  with d'(1) show ?thesis by auto
qed

theorem stale_selection_witness:
  "\<exists>d'. load_config ex_kconfig 12 [''CONFIG_X=m'' @ [NL]] True (start ex_users) = Inr ((), d') \<and> ch_user_selection d' 0 = Some nY"
proof -
  have "config_line ex_kconfig nX ''m'' = ''CONFIG_X=m'' @ [NL]" by (simp add: config_line_def) (simp add: nX_def)
  moreover have "parse_line ex_kconfig (config_line ex_kconfig nX ''m'') = Some (nX, ''m'')"
    using parse_config_line [of ex_kconfig nX "''m''"] ex_prefix ex_named [of nX] by (simp add: clean_value_def)
  ultimately have e: "file_users ex_kconfig [''CONFIG_X=m'' @ [NL]] = assign_pair ex_kconfig (nX, ''m'') no_users"
    by (simp add: file_users_pairs List.map_filter_simps)
  have "u_cho (file_users ex_kconfig [''CONFIG_X=m'' @ [NL]]) 0 \<noteq> None"
    "u_sel (file_users ex_kconfig [''CONFIG_X=m'' @ [NL]]) 0 = None"
    unfolding e by (simp_all add: assign_pair_def assign_sym_def mode_users_def assign_choice_def value_for_def norm_tri_def
        str_to_tri_def no_users_def)
  from stale_selection [OF ex_ready _ good_start [OF ex_wf_users] this, of 12] show ?thesis
    by (simp add: all_items_def start_def)
qed

text \<open>C20. \<open>Symbol.unset_value\<close> leaves the flag \<open>_was_set\<close> in place: assigning a bool or tristate
  symbol outside choices, unsetting it, and merging a file that assigns it ends in a \<open>KeyError\<close>.\<close>

theorem merge_after_unset:
  assumes "ready K rk" and "length (all_items K) < n" and "good K d" and "bool_tristate (otype K s)"
    and "s_choice (k_sym K s) = None" and "valid_value (otype K s) (value_for K s v)"
    and "good_prefix (k_config_prefix K)" and "named K s" and "clean_value (otype K s) x" and "x \<noteq> ''n''"
  shows "\<exists>d1 d2. sym_set_value K n s v d = Inr (True, d1) \<and> sym_unset_value K n s d1 = Inr ((), d2) \<and>
    load_config K n [k_config_prefix K @ sym_name s @ ''='' @ x @ [NL]] False d2 = Inl KeyError"
proof -
  obtain d1 where 1: "sym_set_value K n s v d = Inr (True, d1)"
    using sym_set_value_returns [OF assms(1,2), of s v d] sym_set_value_good [OF assms(1,3), of n s v] assms(6) by auto
  have g1: "good K d1" "was_set d1 s"
    using sym_set_value_good [OF assms(1,3) 1] sym_set_value_flags [OF assms(1) 1] by auto
  obtain d2 where 2: "sym_unset_value K n s d1 = Inr ((), d2)" using sym_unset_value_returns [OF assms(1,2)] by blast
  have d2: "was_set d2 s" "user_value d2 s = None"
    using sym_unset_value_flags [OF assms(1) 2] g1(2) sym_unset_value_good [OF assms(1) g1(1) 2]
    by (auto simp: usr_def)
  have ds: "defined_sym K (sym_name s) = Some s" by (rule defined_sym_named [OF assms(8)])
  have nl: "list_all name_char (sym_name s)" "sym_name s \<noteq> []" using assms(8) by (auto simp: named_def)
  have x: "x = ''y'' \<or> x = ''m''" "first_char_ok (otype K s) x"
    using assms(4,9,10) by (auto simp: clean_value_def first_char_ok_def bool_tristate_def split: if_splits)
  have r: "py_rstrip (k_config_prefix K @ sym_name s @ ''='' @ x @ [NL]) = k_config_prefix K @ sym_name s @ CHR ''='' # x"
    using py_rstrip_line [of "k_config_prefix K @ sym_name s @ CHR ''='' # x"] x(1) by (auto simp: py_isspace_def)
  have m: "set_match (k_config_prefix K) (k_config_prefix K @ sym_name s @ CHR ''='' # x) = Some (sym_name s, x)"
    by (rule set_match_line [OF nl]) (use x(1) in auto)
  have "load_line K n i (k_config_prefix K @ sym_name s @ ''='' @ x @ [NL]) d = Inl KeyError"
    if "was_set d s" "user_value d s = None" for i d
    unfolding load_line_def r Let_def m option.case prod.case ds using that x assms(4,5)
    by (auto simp: parse_value_def infer_mode_def assign_parsed_def assigned_twice_def monad_defs)
  then have "load_config K n [k_config_prefix K @ sym_name s @ ''='' @ x @ [NL]] False d2 = Inl KeyError"
    using d2 by (simp add: load_config_def load_config_file_def monad_defs)
  with 1 2 show ?thesis by blast
qed

theorem merge_after_unset_witness:
  "\<exists>d1 d2. sym_set_value ex_kconfig 12 nA (PInt 2) init_dyn = Inr (True, d1) \<and> sym_unset_value ex_kconfig 12 nA d1 = Inr ((), d2) \<and>
    load_config ex_kconfig 12 [''CONFIG_'' @ sym_name nA @ ''='' @ ''y'' @ [NL]] False d2 = Inl KeyError"
  using merge_after_unset [OF ex_ready _ good_init_dyn, of 12 nA "PInt 2" "''y''"] ex_prefix ex_named [of nA]
  by (simp add: all_items_def value_for_def norm_tri_def clean_value_def)

text \<open>C21. \<open>Kconfig.node_iter\<close> ends and yields the nodes of the menu tree in preorder, without the
  top node.\<close>

theorem node_iter_yields:
  assumes "menu_tree K ts" and "2 * length (nodes_of ts) + 2 < n"
  shows "node_iter K n False = Some (nodes_of ts)"
  by (rule node_iter_preorder [OF assms])

theorem node_iter_yields_witness: "node_iter ex_kconfig 23 False = Some [1, 2, 3, 4, 5, 6, 7, 8, 9, 10]"
  using node_iter_yields [OF ex_menu_tree, of 23] by (simp add: ex_nodes)



text \<open>C23. Running \<open>Kconfig.sync_deps\<close> again with unchanged values touches no file.\<close>

theorem sync_deps_idempotent:
  assumes "reading K rk u n" and "good_prefix (k_config_prefix K)"
    and "\<And>s. s \<in> set (k_unique_defined_syms K) \<Longrightarrow> printable_sym K (solution K u rk) s \<and> nmy_tri s = None"
    and "good K (w_dyn w)" and "usr (w_dyn w) = u" and "w_denied w = (\<lambda>_. False)" and "exists_path w path"
    and "CHR 0x0D \<notin> set (old_vals_text K (solution K u rk))"
  shows "\<exists>w1 w2. sync_deps K (accs K n) path w = Inr ((), w1) \<and> sync_deps K (accs K n) path w1 = Inr ((), w2) \<and>
    w_touched w2 = w_touched w1"
  by (rule sync_deps_twice [OF assms])

theorem sync_deps_idempotent_witness:
  "\<exists>w1 w2. sync_deps ex_kconfig (accs ex_kconfig 42) ''out'' ex_world = Inr ((), w1) \<and>
    sync_deps ex_kconfig (accs ex_kconfig 42) ''out'' w1 = Inr ((), w2) \<and> w_touched w2 = w_touched w1"
proof -
  have "printable_sym ex_kconfig (solution ex_kconfig ex_users ex_rank) s \<and> nmy_tri s = None"
    if "s \<in> set (k_unique_defined_syms ex_kconfig)" for s
  proof
    have s: "s \<in> {nMODULES, nA, nT, nS, nM, nG, nN, nX, nY}" using that by simp
    show "printable_sym ex_kconfig (solution ex_kconfig ex_users ex_rank) s"
      using ex_printable [OF s] by (simp only: ex_vals_def)
    show "nmy_tri s = None" using s by (elim insertE emptyE) simp_all
  qed
  moreover have "good_prefix (k_config_prefix ex_kconfig)" by (simp add: ex_prefix)
  ultimately show ?thesis by (intro sync_deps_idempotent [OF ex_reading _ _ ex_world_ok ex_no_cr])
qed

text \<open>C24. Writing the configuration again with unchanged values leaves all files alone, in
  particular the backup of the old configuration.\<close>

theorem write_config_idempotent:
  assumes "reading K rk u n" and "menu_tree K ts" and "\<And>x. x \<in> set (nodes_of ts) \<Longrightarrow> node_ok K x"
    and "2 * length (nodes_of ts) + 2 < m" and "good K (w_dyn w)" and "usr (w_dyn w) = u" and "\<not> w_denied w f"
    and "CHR 0x0D \<notin> set (k_config_header K @ concat (config_lines K u (solution K u rk) (events ts)))"
  shows "\<exists>msg w1 w2. write_config K m (accs K n) (Some f) None b w = Inr (msg, w1) \<and>
    write_config K m (accs K n) (Some f) None b w1 = Inr (quoted ''No change to configuration in '' f, w2) \<and>
    w_touched w2 = w_touched w1 \<and> w_files w2 = w_files w1"
proof -
  have cr: "CHR 0x0D \<notin> set ((case None of None \<Rightarrow> k_config_header K | Some x \<Rightarrow> x) @
      concat (config_lines K u (solution K u rk) (events ts)))" using assms(8) by simp
  show ?thesis
    using write_config_twice [OF yields_config_contents [OF assms(1-4)] cr assms(5-7), of b] by blast
qed

theorem write_config_idempotent_witness:
  "\<exists>msg w1 w2. write_config ex_kconfig 30 (accs ex_kconfig 42) (Some ''.config'') None True ex_world = Inr (msg, w1) \<and>
    write_config ex_kconfig 30 (accs ex_kconfig 42) (Some ''.config'') None True w1 =
      Inr (quoted ''No change to configuration in '' ''.config'', w2) \<and>
    w_touched w2 = w_touched w1 \<and> w_files w2 = w_files w1"
proof -
  have "CHR 0x0D \<notin> set (concat (config_lines ex_kconfig ex_users (solution ex_kconfig ex_users ex_rank) (events ex_tree)))"
    by (rule ex_no_cr_config)
  moreover have "\<And>x. x \<in> set (nodes_of ex_tree) \<Longrightarrow> node_ok ex_kconfig x" using ex_writable by (simp add: writable_def)
  ultimately show ?thesis
    by (intro write_config_idempotent [OF ex_reading ex_menu_tree _ _ ex_world_ok(1,2)])
      (simp_all add: ex_nodes ex_world_ok)
qed

section \<open>Parsing\<close>

text \<open>C25. \<open>_parse_expr\<close> is the grammar of expressions: \<open>_expect_expr_and_eol\<close> accepts the tokens of a
  line exactly when the grammar derives them, with the expression of the derivation, and is at the end of
  the line then; otherwise it raises a \<open>KconfigError\<close>.\<close>

theorem expression_grammar:
  assumes "left p = ts @ [TNone]" and "TNone \<notin> set ts" and "3 * length ts + 3 \<le> n"
  shows "(expect_expr_and_eol n p = Inr (e, p') \<longleftrightarrow> is_expr True ts e \<and> p' = step (length ts) p) \<and>
    ((\<nexists>e. is_expr True ts e) \<longrightarrow> (\<exists>msg. expect_expr_and_eol n p = Inl (KconfigError msg)))"
  using expect_expr_iff [OF assms] by blast

theorem expression_grammar_witness:
  "\<exists>p e. left p = [TKw T_NOT, TSym (SymN ''A''), TKw T_AND, TSym (SymN ''B''), TNone] \<and>
    expect_expr_and_eol 20 p = Inr (e, step 4 p)"
proof -
  let ?ts = "[TKw T_NOT, TSym (SymN ''A''), TKw T_AND, TSym (SymN ''B'')]"
  let ?p = "(init_pstate lp_env ''Kconfig'' True)\<lparr>p_tokens := ?ts @ [TNone]\<rparr>"
  let ?e = "AND (NOT (sym_expr True (SymN ''A''))) (sym_expr True (SymN ''B''))"
  have "is_and True ([TKw T_NOT, TSym (SymN ''A'')] @ TKw T_AND # [TSym (SymN ''B'')]) ?e"
    by (intro and_and factor_not factor_sym and_factor)
  then have e: "is_expr True ?ts ?e" by (intro expr_and) simp
  have len: "length ?ts = 4" by simp
  have l: "left ?p = ?ts @ [TNone]" by (simp add: left_def init_pstate_def)
  have "expect_expr_and_eol 20 ?p = Inr (?e, step 4 ?p)"
    using expression_grammar [OF l, of 20 ?e "step 4 ?p", unfolded len] e by simp
  with l show ?thesis by (metis append.simps)
qed

text \<open>C26. Evaluating a printed expression gives its value: \<open>Kconfig.eval_string\<close> on the text that
  \<open>expr_str\<close> gives for an expression returns the expression's value and changes no assignment.\<close>

theorem eval_string_of_printed:
  assumes "printable_expr (k_syms (p_kc p)) e" and "\<not> p_parsing p"
    and "length (expr_str sc_str e) + 1 < n" and "3 * length (expr_toks e) + 3 \<le> n"
    and "reading (p_kc p) rk u k" and "good (p_kc p) (p_dyn p)" and "usr (p_dyn p) = u"
  shows "\<exists>p'. eval_string E n (accs (p_kc p) k) (expr_str sc_str e) p =
      Inr (ev (p_kc p) u (solution (p_kc p) u rk) (m_modules e), p') \<and> usr (p_dyn p') = u \<and> p_kc p' = p_kc p"
  by (rule eval_string_printed [OF assms])

theorem eval_string_of_printed_witness:
  "\<exists>p p'. eval_string lp_env 30 (accs ex_kconfig 42) (expr_str sc_str (AND (Item (Sym nA)) (NOT (Item (Sym nX))))) p =
      Inr (ev ex_kconfig ex_users (solution ex_kconfig ex_users ex_rank) (m_modules (AND (Item (Sym nA)) (NOT (Item (Sym nX))))), p') \<and>
    p_kc p = ex_kconfig \<and> usr (p_dyn p') = ex_users"
proof -
  let ?e = "AND (Item (Sym nA)) (NOT (Item (Sym nX)))"
  let ?p = "(init_pstate lp_env ''Kconfig'' True)\<lparr>p_kc := ex_kconfig, p_dyn := start ex_users, p_parsing := False\<rparr>"
  have K: "p_kc ?p = ex_kconfig" "p_dyn ?p = start ex_users" "\<not> p_parsing ?p" by simp_all
  have "printable_expr (k_syms ex_kconfig) ?e"
    by (simp add: nameable_def) (simp add: nA_def nX_def id_char_def alnum_us_def get_keyword_def keyword_table_def str_to_tri_def)
  moreover have "length (expr_str sc_str ?e) + 1 < 30" "3 * length (expr_toks ?e) + 3 \<le> 30"
    by (simp_all add: standard_sc_expr_str_def nA_def nX_def is_constant_def is_tuple_def)
  moreover have "usr (start ex_users) = ex_users" by simp
  ultimately have "\<exists>p'. eval_string lp_env 30 (accs ex_kconfig 42) (expr_str sc_str ?e) ?p =
      Inr (ev ex_kconfig ex_users (solution ex_kconfig ex_users ex_rank) (m_modules ?e), p') \<and> usr (p_dyn p') = ex_users"
    using eval_string_of_printed [of ?p ?e 30 ex_rank ex_users 42 lp_env, unfolded K(1,2)] K(3) ex_reading good_start [OF ex_wf_users] by blast
  with K(1) show ?thesis by blast
qed

text \<open>C27. Tokenizing a line ends, whatever macros and variables it expands: with enough fuel the result
  does not change any more, and it is a list of tokens or an exception.\<close>

theorem tokenize_ends:
  assumes "functions_return E" and "finite (dom (p_variables p))"
  shows "\<exists>n0 r. (\<forall>n \<ge> n0. tokenize E n s p = r) \<and> r \<noteq> Inl NoReturn"
  using ends_tokenize [OF assms] unfolding ends_def by blast

theorem tokenize_ends_witness:
  "\<exists>n0 r. (\<forall>n \<ge> n0. tokenize lp_env n ''config $(X)'' (init_pstate lp_env ''Kconfig'' True) = r) \<and> r \<noteq> Inl NoReturn"
  by (rule tokenize_ends) (simp_all add: functions_return_def lp_env_def init_pstate_def)

text \<open>C28. Parsing builds a tree: when the Kconfig files are parsed, the links of the menu nodes are those
  of a tree below the top node, in which no node occurs twice and every node has been created.\<close>

theorem parse_builds_tree:
  assumes "parse_kconfig E n filename (init_pstate E filename w) = Inr ((), s)"
  shows "\<exists>ts. menu_tree (p_kc s) ts \<and> distinct (k_top_node (p_kc s) # nodes_of ts) \<and>
    set (nodes_of ts) \<subseteq> {..<p_new_node s}"
  by (rule parse_kconfig_tree [OF assms])

theorem parse_builds_tree_witness:
  "\<exists>s ts. parse_kconfig lp_env 12 ''Kconfig'' (init_pstate lp_env ''Kconfig'' True) = Inr ((), s) \<and> menu_tree (p_kc s) ts"
proof -
  obtain s where "parse_kconfig lp_env 12 ''Kconfig'' (init_pstate lp_env ''Kconfig'' True) = Inr ((), s)"
    using lp_parses by (elim ran_unitE)
  with parse_builds_tree [OF this] show ?thesis by blast
qed

section \<open>Dependency loops\<close>

text \<open>C29. The search of \<open>Kconfig._init\<close> raises a \<open>KconfigError\<close> only for a loop, and the message
  lists its items in order.\<close>

theorem reported_loop_exists:
  assumes "check_dep_loops K n unvisited = Inl (KconfigError msg)"
  shows "\<exists>l. is_loop K l \<and> msg = loop_message K l"
  using check_dep_loops_run [of K n] unfolding assms by simp

theorem reported_loop_exists_witness: "\<exists>l. is_loop cyc_base l"
  using cyc_reported reported_loop_exists by blast

text \<open>C30. When the search finds no loop, the symbols are ranked: dependents have lower ranks, and so
  have the symbols of choices among the dependents.\<close>

theorem no_loop_ranked:
  assumes "check_dep_loops K n unvisited = Inr ((), v)"
  shows "\<exists>rk. \<forall>s \<in> set (k_unique_defined_syms K). \<forall>y \<in> set (s_dependents (k_sym K s)).
    rk y < rk (Sym s) \<and> (\<forall>c t. y = Cho c \<longrightarrow> t \<in> set (c_syms (k_choice K c)) \<longrightarrow> rk (Sym t) < (rk (Sym s) :: nat))"
proof -
  have "idle K v" "\<forall>s \<in> set (k_unique_defined_syms K). v (Sym s) = 2"
    using check_dep_loops_run [of K n] unfolding assms by simp_all
  then obtain L where L: "finish_order K L" "\<And>s. s \<in> set (k_unique_defined_syms K) \<Longrightarrow> Sym s \<in> set L"
    by (auto simp: idle_def visits_ok_def)
  show ?thesis
  proof (intro exI [of _ "finish_rank L"] ballI)
    fix s y assume "s \<in> set (k_unique_defined_syms K)" "y \<in> set (s_dependents (k_sym K s))"
    from finish_rank_less [OF L(1) L(2) [OF this(1)] this(2)]
    show "finish_rank L y < finish_rank L (Sym s) \<and>
        (\<forall>c t. y = Cho c \<longrightarrow> t \<in> set (c_syms (k_choice K c)) \<longrightarrow> finish_rank L (Sym t) < finish_rank L (Sym s))" by blast
  qed
qed

theorem no_loop_ranked_witness:
  "\<exists>rk. \<forall>s \<in> set (k_unique_defined_syms (store_dependents (build_dep ch_base) ch_base)).
    \<forall>y \<in> set (s_dependents (k_sym (store_dependents (build_dep ch_base) ch_base) s)). rk y < (rk (Sym s) :: nat)"
proof -
  obtain v where "check_dep_loops (store_dependents (build_dep ch_base) ch_base) 12 unvisited = Inr ((), v)"
    using ch_checked unfolding loops_checked_def by blast
  from no_loop_ranked [OF this] show ?thesis by blast
qed

text \<open>C31. The search needs a call stack deeper than the number of items it can reach, and no more.\<close>

theorem loop_search_returns:
  assumes "search_closed K X" and "Sym ` set (k_unique_defined_syms K) \<subseteq> X" and "card X < n"
  shows "check_dep_loops K n unvisited \<noteq> Inl RecursionError"
  unfolding check_dep_loops_def by (rule check_dep_loops_returns [OF assms idle_unvisited])

theorem loop_search_returns_witness: "check_dep_loops cyc_base 4 unvisited \<noteq> Inl RecursionError"
  by (rule loop_search_returns [OF cyc_closed]) (simp_all add: cyc_base_def store_dependents_def)



text \<open>C33. A loop through a choice is missed: \<open>Kconfig._init\<close> accepts the file \<open>lp_text\<close>, and then
  reading the value of \<open>W\<close> ends in a \<open>RecursionError\<close> on every call stack.\<close>

theorem missed_loop:
  "\<exists>s. kconfig_init lp_env 12 ''Kconfig'' (init_pstate lp_env ''Kconfig'' True) = Inr ((), s) \<and>
    (\<forall>n. a_tri (accs (p_kc s) n) nW (p_dyn s) = Inl RecursionError)"
  using lp_accepted lp_not_read by fastforce



section \<open>From files to values\<close>

text \<open>C35. \<open>Kconfig._init\<close> ends with a well-formed configuration: the defaults of string, int and hex
  symbols and of choices are symbols, every summand of a reverse dependency starts with the selecting
  symbol, choice symbols are registered with their choice, and symbols and choices that are not defined have
  no properties. A choice can still break \<open>tree_ok\<close> in the two ways that \<open>choices_in_place\<close> excludes.\<close>

theorem init_well_formed:
  assumes "kconfig_init E n filename (init_pstate E filename w) = Inr ((), s)"
  shows "\<exists>K. p_kc s = link K \<and> wf_kconfig K \<and> (choices_in_place K \<longrightarrow> tree_ok K)"
  using kconfig_init_wf [OF assms] collected_tree_ok by metis

theorem init_well_formed_witness:
  "\<exists>s K. kconfig_init lp_env 12 ''Kconfig'' (init_pstate lp_env ''Kconfig'' True) = Inr ((), s) \<and>
    p_kc s = link K \<and> wf_kconfig K"
proof -
  obtain s where "kconfig_init lp_env 12 ''Kconfig'' (init_pstate lp_env ''Kconfig'' True) = Inr ((), s)"
    using lp_accepted by blast
  with init_well_formed [OF this] show ?thesis by blast
qed

text \<open>C36. From Kconfig files to values: when \<open>Kconfig._init\<close> accepts files without choices in which
  \<open>MODULES\<close> is not a tristate symbol and depends on no other symbol, all sequences of API calls on the new
  object return on a deep enough call stack, with the values that the equations give.\<close>

theorem accepted_files_sessions:
  assumes "kconfig_init E n filename (init_pstate E filename w) = Inr ((), s)"
    and "k_choices (p_kc s) = []" and "plain_modules (p_kc s)"
  shows "\<exists>rk N. ready (p_kc s) rk \<and> (\<forall>m \<ge> N. \<forall>as. list_all (call_ok (p_kc s)) as \<longrightarrow>
    (\<exists>d'. calls (p_kc s) m as (p_dyn s) = Inr (fst (spec_calls (p_kc s) rk as (usr init_dyn)), d')))"
  by (rule accepted_sessions [OF assms])

theorem accepted_files_sessions_witness:
  "\<exists>s N. kconfig_init ch_env 12 ''Kconfig'' (init_pstate ch_env ''Kconfig'' True) = Inr ((), s) \<and>
    (\<forall>m \<ge> N. \<exists>xs d'. calls (p_kc s) m [SetSym nP (PInt 2), ReadTri nR] (p_dyn s) = Inr (xs, d'))"
proof -
  obtain s where s: "kconfig_init ch_env 12 ''Kconfig'' (init_pstate ch_env ''Kconfig'' True) = Inr ((), s)"
    "p_kc s = link ch_base" using ch_accepted by blast
  have k: "k_choices (p_kc s) = []" "plain_modules (p_kc s)"
    by (simp_all only: s(2) links_same ch_modules) (simp add: ch_base_def)
  have ok: "list_all (call_ok (p_kc s)) [SetSym nP (PInt 2), ReadTri nR]" by (simp add: s(2))
  from accepted_files_sessions [OF s(1) k] ok s(1) show ?thesis by blast
qed

section \<open>The terminal interface\<close>

text \<open>C37. In \<^verbatim>\<open>menuconfig.py\<close> the cursor stays on an entry that is shown and on a row of the menu window: this
  holds after every round of the main loop, whatever keys are pressed, menus are entered and left, values are
  changed, configurations are loaded and windows resized. Hence \<open>_shown[_sel_node_i]\<close> never raises.\<close>

theorem cursor_in_window:
  assumes "start_ui T s0 = Inr (True, s)" and "ui_shown s \<noteq> []" and "reached T s t"
  shows "0 \<le> ui_menu_scroll t \<and> ui_menu_scroll t \<le> ui_sel_node_i t \<and> ui_sel_node_i t < ui_menu_scroll t + ui_height t \<and>
    ui_sel_node_i t < int (length (ui_shown t)) \<and> sel_node t = Inr (ui_shown t ! nat (ui_sel_node_i t), t)"
  using sel_node_ok [OF reached_ok [OF assms(3) start_ok [OF assms(1,2)]]] reached_ok [OF assms(3) start_ok [OF assms(1,2)]]
  by (simp add: ui_ok_def ui_in_def)

theorem cursor_in_window_witness:
  "\<exists>s t. start_ui hid_T (hid_start [KEY_DOWN]) = Inr (True, s) \<and> main_round hid_T s = Inr (None, t) \<and>
    ui_menu_scroll t \<le> ui_sel_node_i t \<and> ui_sel_node_i t < ui_menu_scroll t + ui_height t"
proof -
  obtain w where s: "start_ui hid_T (hid_start [KEY_DOWN]) = Inr (True, hid_ui [KEY_DOWN] [2, 5] 0 w)"
    using hid_started by blast
  have "reached hid_T (hid_ui [KEY_DOWN] [2, 5] 0 w) (hid_ui [] [2, 5] 1 w)"
    using reached_key [OF reached_start hid_round_down] .
  from cursor_in_window [OF s _ this] s hid_round_down show ?thesis by auto
qed

text \<open>C38. Entering a menu, moving the cursor there and leaving it leads back: the same menu is shown, with the
  same entry selected, on the same row of the window.\<close>

theorem enter_leave:
  assumes "reading (t_kc T) rk u (t_depth T)" and "right (t_kc T) u s" and "ui_ok s"
    and "shown_now T (ui_cur_menu s) s = Inr (ui_shown s, s')"
    and "menu_tree (t_kc T) ts" and "distinct (nodes_of ts)" and "ui_cur_menu s \<in> insert (k_top_node (t_kc T)) (set (nodes_of ts))"
    and "n_is_menuconfig (unode T (ui_cur_menu s))" and "\<And>c. n_item (unode T (ui_cur_menu s)) \<noteq> NCho c"
    and "sel_node s = Inr (menu, s)" and "enter_menu T menu s = Inr (True, t)"
    and "KEY_RESIZE \<notin> set cs" and "moves cs t = Inr ((), v)"
  shows "\<exists>z. leave_menu T v = Inr ((), z) \<and> place z = place s"
  by (rule enter_leave_place [OF assms])

theorem enter_leave_witness:
  "\<exists>w t v z. enter_menu hid_T 5 (hid_ui [] [2, 5] 1 w) = Inr (True, t) \<and> ui_shown t = [6] \<and> moves [KEY_DOWN] t = Inr ((), v) \<and>
    leave_menu hid_T v = Inr ((), z) \<and> place z = (0, [2, 5], 1, 0, [])"
proof -
  have none: "hid_val None" by (simp add: hid_val_def)
  obtain w where "right hid_kc (hid_users None) (hid_ui [] [2, 5] 0 w)" using hid_started [of "[]"] by blast
  then have s: "right hid_kc (hid_users None) (hid_ui [] [2, 5] 1 w)" by (rule right_hid_ui)
  let ?s = "hid_ui [] [2, 5] 1 w"
  obtain w1 where "shown_now hid_T 0 ?s = Inr (hid_shown None, ?s\<lparr>ui_world := w1\<rparr>)"
    by (rule hid_shown_now [OF none s]) simp_all
  then have fresh: "shown_now hid_T (ui_cur_menu ?s) ?s = Inr (ui_shown ?s, ?s\<lparr>ui_world := w1\<rparr>)"
    by (simp add: hid_shown_def hid_tri_def)
  obtain w2 where sub: "shown_now hid_T 5 ?s = Inr ([6], hid_ui [] [2, 5] 1 w2)" by (rule hid_menu_m [OF none s])
  let ?t = "(hid_ui [] [2, 5] 1 w2)\<lparr>ui_parent_screen_rows := [1], ui_cur_menu := 5, ui_shown := [6], ui_sel_node_i := 0, ui_menu_scroll := 0\<rparr>"
  have enter: "enter_menu hid_T 5 ?s = Inr (True, ?t)"
    using sub by (simp add: enter_menu_def bind_def modify_def ret_def hid_node_def)
  have move: "moves [KEY_DOWN] ?t = Inr ((), ?t)"
    by (simp add: moves_def cursor_key_def bind_def ret_def select_next_menu_entry_def modify_def)
  have "\<exists>z. leave_menu hid_T ?t = Inr ((), z) \<and> place z = place ?s"
    by (rule enter_leave [where rk = hid_rank and u = "hid_users None", OF _ _ _ fresh _ hid_menu_tree(2) _ _ _ hid_sel_node(2) [OF refl] enter _ move])
      (simp_all add: hid_reading [OF none] s hid_menu_tree(1), simp_all add: ui_ok_def ui_in_def hid_node_def)
  then obtain z where "leave_menu hid_T ?t = Inr ((), z)" "place z = (0, [2, 5], 1, 0, [])" by (auto simp: place_def)
  with enter move show ?thesis by fastforce
qed

text \<open>C39. \<open>_set_sel_node_tri_val\<close> does not check that the selected entry can be changed, and an entry without a
  visible prompt is shown while something below it is. \<open>Kconfig\<close> accepts a file in which pressing \<open>y\<close>, down and
  \<open>n\<close> hides the selected entry, and \<open>_update_menu\<close> ends the interface with a \<open>ValueError\<close>.\<close>

theorem hidden_entry_raises:
  "\<exists>p t. kconfig_init hid_env 16 ''Kconfig'' (init_pstate hid_env ''Kconfig'' True) = Inr ((), p) \<and> p_kc p = t_kc hid_T \<and>
    start_ui hid_T (hid_start [KeyChar (CHR ''y''), KEY_DOWN, KeyChar (CHR ''n'')]) = Inr (True, t) \<and> main_loop hid_T 3 t = Inl ValueError"
  using hid_accepted hid_raises by (auto simp: hid_keys_def hid_kc_def)



end
